(* ===== verification/Emeal_Prelude.thy ===== *)
theory Emeal_Prelude
  imports Main "HOL-Library.AList"
begin

text \<open>
  Shared vocabulary of the development: errors as values (one constructor per
  NestJS exception class the services throw), the nullish operators of
  TypeScript, the insertion-ordered \<open>Map\<close> of JavaScript as an association list,
  the aggregates Prisma computes (\<open>_sum\<close>, \<open>groupBy\<close>) and the rounding of paise to
  whole rupees.  The lemmas are the ones several components use.
\<close>

section \<open>Errors as values\<close>

text \<open>
  An exception of the code is its HTTP class with the machine-readable \<open>code\<close> of
  its payload, or the message where the payload has no code; \<open>Internal\<close> is a plain
  \<open>Error\<close> (HTTP 500).  \<open>BadDate\<close> is the
  Prisma validation error (HTTP 500) that an \<open>Invalid Date\<close> produces when it reaches a query.
\<close>

datatype exn =
    BadRequest string
  | Unauthorized string
  | Forbidden string
  | NotFound string
  | Conflict string
  | Unprocessable string
  | Locked string
  | Internal string
  | BadDate

type_synonym ident = string

definition bindE :: "exn + 'a \<Rightarrow> ('a \<Rightarrow> exn + 'b) \<Rightarrow> exn + 'b" where
  "bindE r f = (case r of Inl e \<Rightarrow> Inl e | Inr x \<Rightarrow> f x)"

definition orErr :: "'a option \<Rightarrow> exn \<Rightarrow> exn + 'a" where
  "orErr x e = (case x of None \<Rightarrow> Inl e | Some v \<Rightarrow> Inr v)"

named_theorems err_simps \<open>evaluation and inversion of results that may be errors\<close>

lemma bindE_Inl [simp, err_simps]: "bindE (Inl e) f = Inl e"
  by (simp add: bindE_def)

lemma bindE_Inr [simp, err_simps]: "bindE (Inr x) f = f x"
  by (simp add: bindE_def)

lemma bindE_eq_Inr [err_simps]: "bindE r f = Inr y \<longleftrightarrow> (\<exists>x. r = Inr x \<and> f x = Inr y)"
  by (cases r) auto

lemma bindE_eq_Inl: "bindE r f = Inl e \<longleftrightarrow> r = Inl e \<or> (\<exists>x. r = Inr x \<and> f x = Inl e)"
  by (cases r) auto

lemma orErr_eq_Inr [simp, err_simps]: "orErr x e = Inr v \<longleftrightarrow> x = Some v"
  by (cases x) (auto simp: orErr_def)

lemma orErr_Some [simp]: "orErr (Some v) e = Inr v"
  by (simp add: orErr_def)

lemma orErr_None [simp]: "orErr None e = Inl e"
  by (simp add: orErr_def)

lemma if_Inl_eq_Inr [simp, err_simps]: "(if b then Inl e else r) = Inr y \<longleftrightarrow> \<not> b \<and> r = Inr y"
  by auto

section \<open>Nullish and truthy values\<close>

text \<open>\<open>x ?? y\<close> of the source, with \<open>None\<close> for \<open>null\<close> and \<open>undefined\<close>.\<close>

definition nullish :: "'a option \<Rightarrow> 'a \<Rightarrow> 'a" where
  "nullish x y = (case x of None \<Rightarrow> y | Some v \<Rightarrow> v)"

definition nullish_opt :: "'a option \<Rightarrow> 'a option \<Rightarrow> 'a option" where
  "nullish_opt x y = (case x of None \<Rightarrow> y | Some v \<Rightarrow> Some v)"

lemma nullish_simps [simp]: "nullish None y = y" "nullish (Some v) y = v"
  by (simp_all add: nullish_def)

lemma nullish_opt_simps [simp]:
  "nullish_opt None y = y" "nullish_opt (Some v) y = Some v" "nullish_opt x None = x"
  by (auto simp: nullish_opt_def split: option.splits)

text \<open>A string value is truthy when it is neither \<open>null\<close> nor empty.\<close>

definition truthy :: "string option \<Rightarrow> bool" where
  "truthy s = (case s of None \<Rightarrow> False | Some t \<Rightarrow> t \<noteq> [])"

lemma truthy_simps [simp]: "truthy None = False" "truthy (Some t) = (t \<noteq> [])"
  by (simp_all add: truthy_def)

lemma truthyD: "truthy s \<Longrightarrow> \<exists>t. s = Some t \<and> t \<noteq> []"
  by (cases s) auto

section \<open>JavaScript maps with numeric values\<close>

text \<open>
  A JavaScript \<open>Map\<close> iterates in insertion order and \<open>set\<close> on a present key keeps
  its place; \<^const>\<open>AList.update\<close> does the same on association lists.
  \<open>get0\<close> is \<open>m.get(k) ?? 0\<close>; \<open>acc_add\<close> is the accumulation
  \<open>m.set(k, (m.get(k) ?? 0) + v)\<close>.
\<close>

definition get0 :: "('k \<times> int) list \<Rightarrow> 'k \<Rightarrow> int" where
  "get0 m k = (case map_of m k of None \<Rightarrow> 0 | Some v \<Rightarrow> v)"

definition acc_add :: "'k \<Rightarrow> int \<Rightarrow> ('k \<times> int) list \<Rightarrow> ('k \<times> int) list" where
  "acc_add k v m = AList.update k (get0 m k + v) m"

fun acc_all :: "('k \<times> int) list \<Rightarrow> ('k \<times> int) list \<Rightarrow> ('k \<times> int) list" where
  "acc_all [] m = m"
| "acc_all ((k, v) # kvs) m = acc_all kvs (acc_add k v m)"

definition keys_of :: "('k \<times> 'v) list \<Rightarrow> 'k list" where
  "keys_of m = map fst m"

text \<open>Insertion-ordered key union: \<open>new Set([...xs, ...ys])\<close>.\<close>

fun set_union_order :: "'k list \<Rightarrow> 'k list \<Rightarrow> 'k list" where
  "set_union_order acc [] = acc"
| "set_union_order acc (x # xs) =
     (if x \<in> set acc then set_union_order acc xs else set_union_order (acc @ [x]) xs)"

lemma set_set_union_order [simp]: "set (set_union_order acc xs) = set acc \<union> set xs"
  by (induction acc xs rule: set_union_order.induct) auto

lemma distinct_set_union_order [simp]: "distinct acc \<Longrightarrow> distinct (set_union_order acc xs)"
  by (induction acc xs rule: set_union_order.induct) auto

lemma map_of_acc_add: "map_of (acc_add k v m) = (map_of m)(k \<mapsto> get0 m k + v)"
  by (simp add: acc_add_def update_conv')

lemma get0_acc_add [simp]: "get0 (acc_add k v m) j = get0 m j + (if j = k then v else 0)"
  by (auto simp: get0_def map_of_acc_add)

lemma get0_acc_all:
  "get0 (acc_all kvs m) j = get0 m j + (\<Sum>p\<leftarrow>filter (\<lambda>p. fst p = j) kvs. snd p)"
  by (induction kvs m rule: acc_all.induct) auto

lemma keys_acc_add [simp]: "fst ` set (acc_add k v m) = insert k (fst ` set m)"
  using dom_update [of k "get0 m k + v" m] by (simp add: acc_add_def dom_map_of_conv_image_fst)

lemma keys_acc_all [simp]: "fst ` set (acc_all kvs m) = fst ` set m \<union> fst ` set kvs"
  by (induction kvs m rule: acc_all.induct) auto

lemma distinct_acc_all: "distinct (map fst m) \<Longrightarrow> distinct (map fst (acc_all kvs m))"
  by (induction kvs m rule: acc_all.induct) (auto simp: acc_add_def distinct_update)

lemma get0_Nil [simp]: "get0 [] k = 0"
  by (simp add: get0_def)

lemma get0_notin: "k \<notin> fst ` set m \<Longrightarrow> get0 m k = 0"
  by (simp add: get0_def iffD2 [OF map_of_eq_None_iff])

lemma get0_keys_notin: "k \<notin> set (keys_of m) \<Longrightarrow> get0 m k = 0"
  by (simp add: keys_of_def get0_notin)

lemma get0_eqI: "distinct (map fst m) \<Longrightarrow> (k, v) \<in> set m \<Longrightarrow> get0 m k = v"
  by (simp add: get0_def map_of_is_SomeI)

lemma get0_map_fun: "get0 (map (\<lambda>u. (u, f u)) us) k = (if k \<in> set us then f k else 0)"
  by (induction us) (auto simp: get0_def)

lemma get0_filter_nonzero:
  assumes "distinct (map fst m)"
  shows "get0 (filter (\<lambda>p. snd p \<noteq> 0) m) k = get0 m k"
  using assms
proof (induction m)
  case Nil
  then show ?case by simp
next
  case (Cons p m)
  show ?case
  proof (cases "fst p = k")
    case True
    with Cons.prems have "k \<notin> fst ` set (filter (\<lambda>p. snd p \<noteq> 0) m)" by auto
    with True show ?thesis by (cases p) (auto simp: get0_def iffD2 [OF map_of_eq_None_iff])
  next
    case False
    with Cons show ?thesis by (cases p) (auto simp: get0_def)
  qed
qed

section \<open>Aggregates\<close>

text \<open>
  \<open>sum_opt\<close> is Prisma's \<open>_sum\<close> of a nullable column followed by \<open>?? 0\<close>: SQL's \<open>SUM\<close>
  skips nulls and is null on no rows.  \<open>group_sum\<close> is \<open>groupBy\<close> with \<open>_sum\<close>, one
  row per distinct key.
\<close>

definition sum_opt :: "('r \<Rightarrow> int option) \<Rightarrow> 'r list \<Rightarrow> int" where
  "sum_opt f rows = (\<Sum>r\<leftarrow>rows. nullish (f r) 0)"

definition group_sum :: "('r \<Rightarrow> 'k) \<Rightarrow> ('r \<Rightarrow> int option) \<Rightarrow> 'r list \<Rightarrow> ('k \<times> int) list" where
  "group_sum key f rows =
     map (\<lambda>k. (k, sum_opt f (filter (\<lambda>r. key r = k) rows))) (remdups (map key rows))"

lemma sum_opt_Nil [simp]: "sum_opt f [] = 0"
  by (simp add: sum_opt_def)

lemma sum_opt_Cons [simp]: "sum_opt f (r # rs) = nullish (f r) 0 + sum_opt f rs"
  by (simp add: sum_opt_def)

lemma sum_opt_append [simp]: "sum_opt f (xs @ ys) = sum_opt f xs + sum_opt f ys"
  by (simp add: sum_opt_def)

lemma get0_group_sum: "get0 (group_sum key f rows) k = sum_opt f (filter (\<lambda>r. key r = k) rows)"
proof (cases "k \<in> key ` set rows")
  case True
  then show ?thesis by (simp add: group_sum_def get0_map_fun)
next
  case False
  then have "filter (\<lambda>r. key r = k) rows = []" by (auto simp: filter_empty_conv)
  with False show ?thesis by (simp add: group_sum_def get0_map_fun)
qed

lemma keys_group_sum [simp]: "fst ` set (group_sum key f rows) = key ` set rows"
  by (force simp: group_sum_def)

lemma distinct_group_sum [simp]: "distinct (map fst (group_sum key f rows))"
  by (simp add: group_sum_def o_def)

lemma sum_filter_distinct_key:
  fixes m :: "('k \<times> int) list"
  assumes "distinct (map fst m)"
  shows "(\<Sum>p\<leftarrow>filter (\<lambda>p. fst p = j) m. snd p) = get0 m j"
  using assms
proof (induction m)
  case Nil
  then show ?case by simp
next
  case (Cons p m)
  then have fresh: "fst p \<notin> fst ` set m" and IH: "(\<Sum>p\<leftarrow>filter (\<lambda>p. fst p = j) m. snd p) = get0 m j"
    by auto
  show ?case
  proof (cases "fst p = j")
    case True
    with fresh have "get0 m j = 0" by (simp add: get0_notin)
    with True IH show ?thesis by (cases p) (simp add: get0_def)
  next
    case False
    with IH show ?thesis by (cases p) (simp add: get0_def)
  qed
qed

lemma get0_acc_all_group:
  "get0 (acc_all (group_sum key f rows) m) j = get0 m j + sum_opt f (filter (\<lambda>r. key r = j) rows)"
  by (simp add: get0_acc_all sum_filter_distinct_key get0_group_sum)

section \<open>Paise to whole rupees\<close>

text \<open>
  \<open>Math.round(p / 100)\<close> rounds half up; for integers \<open>p\<close> that is a floor division.
\<close>

definition round_rupees :: "int \<Rightarrow> int" where
  "round_rupees p = (p + 50) div 100"

lemma round_rupees_whole [simp]: "round_rupees (100 * k) = k"
  by (simp add: round_rupees_def)

lemma round_rupees_add_whole: "round_rupees (100 * k + p) = k + round_rupees p"
proof -
  have "100 * k + p + 50 = (p + 50) + k * 100" by simp
  then show ?thesis unfolding round_rupees_def by (metis add.commute div_mult_self1 zero_neq_numeral)
qed

lemma round_rupees_bounds: "100 * round_rupees p \<le> p + 50" "p - 50 < 100 * round_rupees p"
  unfolding round_rupees_def by presburger+

lemma round_rupees_mono: "p \<le> q \<Longrightarrow> round_rupees p \<le> round_rupees q"
  unfolding round_rupees_def by (simp add: zdiv_mono1)

lemma round_rupees_dvd: "100 dvd p \<Longrightarrow> round_rupees (p + q) = p div 100 + round_rupees q"
  by (elim dvdE) (simp add: round_rupees_add_whole)

lemma round_rupees_0 [simp]: "round_rupees 0 = 0"
  by (simp add: round_rupees_def)

section \<open>First match in a table\<close>

text \<open>\<open>findFirst\<close> returns a matching row or null; no match means no row qualifies.\<close>

lemma find_SomeD: "find P xs = Some x \<Longrightarrow> x \<in> set xs \<and> P x"
  by (induction xs) (auto split: if_splits)

lemma find_None_iff_none: "find P xs = None \<longleftrightarrow> (\<forall>x\<in>set xs. \<not> P x)"
  by (induction xs) auto

lemma find_cong_pred: "(\<And>x. x \<in> set xs \<Longrightarrow> P x = Q x) \<Longrightarrow> find P xs = find Q xs"
  by (induction xs) auto

lemma find_append_case:
  "find P (xs @ ys) = (case find P xs of None \<Rightarrow> find P ys | Some x \<Rightarrow> Some x)"
  by (induction xs) auto

lemma map_filter_commute:
  "(\<And>x. P (f x) = P x) \<Longrightarrow> filter P (map f xs) = map f (filter P xs)"
  by (induction xs) auto

section \<open>Observations that steps keep\<close>

text \<open>
  The contract of every wall in the program: as long as an invariant holds, no step changes
  what an observer sees, and every step keeps the invariant.  Whole runs then do the same.
\<close>

locale invariant_steps =
  fixes step :: "'s \<Rightarrow> 's \<Rightarrow> bool"
    and inv :: "'s \<Rightarrow> bool"
  assumes inv_step: "inv s \<Longrightarrow> step s s' \<Longrightarrow> inv s'"
begin

lemma inv_run: "step\<^sup>*\<^sup>* s s' \<Longrightarrow> inv s \<Longrightarrow> inv s'"
  by (induction rule: rtranclp_induct) (auto intro: inv_step)

end

locale guarded_steps = invariant_steps step inv
  for step :: "'s \<Rightarrow> 's \<Rightarrow> bool" and inv :: "'s \<Rightarrow> bool" +
  fixes obs :: "'s \<Rightarrow> 'v"
  assumes obs_step: "inv s \<Longrightarrow> step s s' \<Longrightarrow> obs s' = obs s"
begin

lemma obs_run: "step\<^sup>*\<^sup>* s s' \<Longrightarrow> inv s \<Longrightarrow> obs s' = obs s"
proof (induction rule: rtranclp_induct)
  case base
  then show ?case by simp
next
  case (step y z)
  then have "inv y" using inv_run by blast
  with step show ?case by (simp add: obs_step)
qed

end

section \<open>Counting rows\<close>

lemma length_filter_map_le:
  "(\<And>x. x \<in> set xs \<Longrightarrow> P (f x) \<Longrightarrow> P x) \<Longrightarrow> length (filter P (map f xs)) \<le> length (filter P xs)"
  by (induction xs) (auto simp: le_SucI)

lemma length_filter_map_eq:
  "(\<And>x. x \<in> set xs \<Longrightarrow> P (f x) = P x) \<Longrightarrow> length (filter P (map f xs)) = length (filter P xs)"
  by (induction xs) auto

section \<open>Tables without conflicting rows\<close>

text \<open>
  Rows that conflict are the same row: the shape of "no overlapping period" and "one
  request governs a date", for a symmetric conflict relation and a key.
\<close>

definition apart :: "('r \<Rightarrow> 'r \<Rightarrow> bool) \<Rightarrow> ('r \<Rightarrow> 'k) \<Rightarrow> 'r list \<Rightarrow> bool" where
  "apart C key xs \<longleftrightarrow> (\<forall>p\<in>set xs. \<forall>q\<in>set xs. C p q \<longrightarrow> key p = key q)"

lemma apartD: "apart C key xs \<Longrightarrow> p \<in> set xs \<Longrightarrow> q \<in> set xs \<Longrightarrow> C p q \<Longrightarrow> key p = key q"
  unfolding apart_def by blast

lemma apartI: "(\<And>p q. p \<in> set xs \<Longrightarrow> q \<in> set xs \<Longrightarrow> C p q \<Longrightarrow> key p = key q) \<Longrightarrow> apart C key xs"
  unfolding apart_def by blast

lemma apart_append:
  assumes "apart C key xs" and sym: "\<And>p q. C p q \<Longrightarrow> C q p" and new: "\<And>q. q \<in> set xs \<Longrightarrow> \<not> C q n"
  shows "apart C key (xs @ [n])"
proof (rule apartI)
  fix p q
  assume ins: "p \<in> set (xs @ [n])" "q \<in> set (xs @ [n])" and c: "C p q"
  consider "p \<in> set xs" "q \<in> set xs" | "p = n" "q = n" | "p = n" "q \<in> set xs" | "q = n" "p \<in> set xs"
    using ins by auto
  then show "key p = key q"
  proof cases
    case 1
    then show ?thesis using apartD [OF assms(1)] c by blast
  next
    case 3
    then show ?thesis using new [of q] sym [OF c] by simp
  next
    case 4
    then show ?thesis using new [of p] c by simp
  qed simp
qed

lemma apart_map:
  assumes "apart C key xs" and "\<And>p. key (f p) = key p"
    and "\<And>p q. p \<in> set xs \<Longrightarrow> q \<in> set xs \<Longrightarrow> C (f p) (f q) \<Longrightarrow> C p q"
  shows "apart C key (map f xs)"
proof (rule apartI)
  fix p q
  assume "p \<in> set (map f xs)" "q \<in> set (map f xs)" "C p q"
  then obtain a b where "a \<in> set xs" "b \<in> set xs" "p = f a" "q = f b" "C (f a) (f b)" by auto
  then show "key p = key q" using assms(3) [of a b] apartD [OF assms(1), of a b] assms(2) by simp
qed

lemma distinct_key_eq:
  "distinct (map f xs) \<Longrightarrow> x \<in> set xs \<Longrightarrow> y \<in> set xs \<Longrightarrow> f x = f y \<Longrightarrow> x = y"
  by (simp add: distinct_map inj_on_def)

lemma comp_if_id: "(\<And>l. f (g l) = f l) \<Longrightarrow> f \<circ> (\<lambda>l. if P l then g l else l) = f"
  by (simp add: fun_eq_iff)

end
