(* ===== verification/Preferences.thy ===== *)
theory Preferences
  imports Emeal_Prelude "HOL-Library.Sublist"
begin

text \<open>
  Preference groups: the effective view of a meal's bindings, the per-day override and
  the server-authoritative selection validator and pricer of
  \<open>src/src/features/preferences/preferences.service.ts\<close>, with the system None option of
  \<open>src/src/common/utils/system-none.util.ts\<close>.
\<close>

section \<open>Data\<close>

record pref_option =
  po_id :: ident
  po_key :: string
  po_label :: string
  po_emoji :: "string option"
  po_color :: "string option"
  po_is_veg :: bool
  po_price_delta :: int
  po_min_qty :: int
  po_max_qty :: int
  po_order :: int

record pref_group =
  pg_id :: ident
  pg_label :: string
  pg_description :: "string option"
  pg_order :: int
  pg_selection_type :: string
  pg_min_select :: int
  pg_max_select :: int
  pg_required :: bool
  pg_quantity_enabled :: bool
  pg_visible_when :: "(ident \<times> string) option"
  pg_veg_only :: bool
  pg_options :: "pref_option list"

text \<open>The stored rows: an option and a group as the admin configured them, and a binding to a meal.\<close>

record stored_option = pref_option +
  so_is_active :: bool

record stored_group =
  sg_id :: ident
  sg_org :: ident
  sg_is_active :: bool
  sg_label :: string
  sg_description :: "string option"
  sg_selection_type :: string
  sg_min_select :: int
  sg_max_select :: int
  sg_required :: bool
  sg_quantity_enabled :: bool
  sg_visible_when :: "(ident \<times> string) option"
  sg_veg_only :: bool
  sg_options :: "stored_option list"

record binding =
  bd_meal_id :: ident
  bd_is_active :: bool
  bd_order :: int
  bd_required_override :: "bool option"
  bd_min_override :: "int option"
  bd_max_override :: "int option"
  bd_group :: "stored_group option"

record selection =
  sel_group :: ident
  sel_option :: string
  sel_quantity :: "int option"

text \<open>One persisted selection: the JSON snapshot entry and the child row carry the same values.\<close>

record selection_row =
  sr_group :: ident
  sr_group_label :: string
  sr_option_key :: string
  sr_option_label :: string
  sr_is_veg :: bool
  sr_price_delta :: int
  sr_quantity :: int

record validated =
  vs_total_delta :: int
  vs_primary_key :: "string option"
  vs_snapshot :: "selection_row list"
  vs_rows :: "selection_row list"

datatype reason =
    UnknownGroup
  | DoesNotApply
  | NoneCombined
  | ChooseOption
  | ChooseAtMost int
  | DuplicateOption string
  | NotAvailable string
  | VegOnlyGroup
  | QuantityRange int int

section \<open>The system None option\<close>

definition none_flat_key :: string where
  "none_flat_key = ''none''"

definition none_option_key :: string where
  "none_option_key = ''__none__''"

definition none_option_label :: string where
  "none_option_label = ''None''"

text \<open>\<open>trim\<close> and \<open>toLowerCase\<close> on ASCII text.\<close>

definition is_space :: "char \<Rightarrow> bool" where
  "is_space c \<longleftrightarrow> c \<in> set [CHR 0x09, CHR 0x0A, CHR 0x0B, CHR 0x0C, CHR 0x0D, CHR '' '']"

definition js_trim :: "string \<Rightarrow> string" where
  "js_trim s = rev (dropWhile is_space (rev (dropWhile is_space s)))"

definition ascii_lower :: "char \<Rightarrow> char" where
  "ascii_lower c = (let n = (of_char c :: nat) in if 65 \<le> n \<and> n \<le> 90 then char_of (n + 32) else c)"

definition js_lower :: "string \<Rightarrow> string" where
  "js_lower s = map ascii_lower s"

definition is_system_none_preference :: "string option \<Rightarrow> bool" where
  "is_system_none_preference v =
     (if \<not> truthy v then False
      else let k = js_lower (js_trim (the v)) in k = none_flat_key \<or> k = none_option_key)"

definition normalize_preference_key :: "string option \<Rightarrow> string" where
  "normalize_preference_key v =
     (if \<not> truthy v \<or> js_trim (the v) = [] then none_flat_key
      else if is_system_none_preference v then none_flat_key
      else the v)"

section \<open>Effective groups\<close>

definition none_option :: "int \<Rightarrow> pref_option" where
  "none_option last_order =
     \<lparr>po_id = none_option_key, po_key = none_option_key, po_label = none_option_label,
      po_emoji = None, po_color = None, po_is_veg = True, po_price_delta = 0,
      po_min_qty = 1, po_max_qty = 1, po_order = last_order + 1\<rparr>"

definition effective_options :: "stored_option list \<Rightarrow> pref_option list" where
  "effective_options opts =
     (let os = map pref_option.truncate (filter so_is_active opts)
      in if os \<noteq> [] then os @ [none_option (po_order (last os))] else os)"

definition effective_group :: "binding \<Rightarrow> stored_group \<Rightarrow> pref_group" where
  "effective_group b g =
     \<lparr>pg_id = sg_id g, pg_label = sg_label g, pg_description = sg_description g,
      pg_order = bd_order b, pg_selection_type = sg_selection_type g,
      pg_min_select = nullish (bd_min_override b) (sg_min_select g),
      pg_max_select = nullish (bd_max_override b) (sg_max_select g),
      pg_required = nullish (bd_required_override b) (sg_required g),
      pg_quantity_enabled = sg_quantity_enabled g,
      pg_visible_when = sg_visible_when g,
      pg_veg_only = sg_veg_only g,
      pg_options = effective_options (sg_options g)\<rparr>"

definition usable_binding :: "ident \<Rightarrow> binding \<Rightarrow> bool" where
  "usable_binding org b =
     (bd_is_active b \<and>
      (case bd_group b of None \<Rightarrow> False | Some g \<Rightarrow> sg_org g = org \<and> sg_is_active g))"

definition build_effective_groups :: "binding list \<Rightarrow> ident \<Rightarrow> ident \<Rightarrow> pref_group list" where
  "build_effective_groups bs org meal =
     sort_key pg_order
       (map (\<lambda>b. effective_group b (the (bd_group b)))
         (filter (\<lambda>b. usable_binding org b \<and> bd_meal_id b = meal) bs))"

text \<open>\<open>override\<close> is \<open>None\<close> for a null argument, otherwise the day's flag and group subset.\<close>

definition apply_day_override ::
  "pref_group list \<Rightarrow> (bool option \<times> ident list) option \<Rightarrow> pref_group list" where
  "apply_day_override groups override =
     (case override of
        None \<Rightarrow> groups
      | Some (enabled, allow) \<Rightarrow>
          if groups = [] then groups
          else
            let next = (if enabled = Some False then [] else groups)
            in if next \<noteq> [] \<and> allow \<noteq> [] then filter (\<lambda>g. pg_id g \<in> set allow) next else next)"

section \<open>Selection validation and pricing\<close>

definition chosen_of :: "selection list \<Rightarrow> ident \<Rightarrow> selection list" where
  "chosen_of sels gid = filter (\<lambda>s. sel_group s = gid) sels"

definition is_visible :: "selection list \<Rightarrow> pref_group \<Rightarrow> bool" where
  "is_visible sels g =
     (case pg_visible_when g of
        None \<Rightarrow> True
      | Some (gid, key) \<Rightarrow>
          if gid = [] \<or> key = [] then True
          else (\<exists>s\<in>set (chosen_of sels gid). sel_option s = key))"

definition selectable :: "pref_group \<Rightarrow> pref_option list" where
  "selectable g =
     filter (\<lambda>o'. po_key o' \<noteq> none_option_key)
       (if pg_veg_only g then filter po_is_veg (pg_options g) else pg_options g)"

record val_state =
  va_details :: "(ident \<times> reason) list"
  va_total :: int
  va_primary :: "string option"
  va_snapshot :: "selection_row list"
  va_rows :: "selection_row list"

definition add_detail :: "ident \<Rightarrow> reason \<Rightarrow> val_state \<Rightarrow> val_state" where
  "add_detail gid r a = a\<lparr>va_details := va_details a @ [(gid, r)]\<rparr>"

definition row_of :: "pref_group \<Rightarrow> pref_option \<Rightarrow> int \<Rightarrow> selection_row" where
  "row_of g o' qty =
     \<lparr>sr_group = pg_id g, sr_group_label = pg_label g, sr_option_key = po_key o',
      sr_option_label = po_label o', sr_is_veg = po_is_veg o',
      sr_price_delta = po_price_delta o', sr_quantity = qty\<rparr>"

definition accept_pick :: "pref_group \<Rightarrow> pref_option \<Rightarrow> int \<Rightarrow> val_state \<Rightarrow> val_state" where
  "accept_pick g o' qty a =
     a\<lparr>va_total := va_total a + po_price_delta o' * qty,
       va_primary := (if va_primary a = None \<and> pg_required g then Some (po_key o') else va_primary a),
       va_snapshot := va_snapshot a @ [row_of g o' qty],
       va_rows := va_rows a @ [row_of g o' qty]\<rparr>"

fun pick_loop :: "int \<Rightarrow> pref_group \<Rightarrow> string list \<Rightarrow> selection list \<Rightarrow> val_state \<Rightarrow> val_state" where
  "pick_loop cap g seen [] a = a"
| "pick_loop cap g seen (s # ss) a =
     (if sel_option s \<in> set seen then
        pick_loop cap g seen ss (add_detail (pg_id g) (DuplicateOption (sel_option s)) a)
      else
        let seen' = seen @ [sel_option s] in
        case find (\<lambda>o'. po_key o' = sel_option s) (pg_options g) of
          None \<Rightarrow> pick_loop cap g seen' ss (add_detail (pg_id g) (NotAvailable (sel_option s)) a)
        | Some o' \<Rightarrow>
            if pg_veg_only g \<and> \<not> po_is_veg o' then
              pick_loop cap g seen' ss (add_detail (pg_id g) VegOnlyGroup a)
            else
              let qty = (if pg_quantity_enabled g then nullish (sel_quantity s) (po_min_qty o') else 1);
                  qMax = min (po_max_qty o') cap
              in if pg_quantity_enabled g \<and> (qty < po_min_qty o' \<or> qMax < qty) then
                   pick_loop cap g seen' ss (add_detail (pg_id g) (QuantityRange (po_min_qty o') qMax) a)
                 else pick_loop cap g seen' ss (accept_pick g o' qty a))"

definition min_picks :: "pref_group \<Rightarrow> int" where
  "min_picks g = (if pg_required g then max (pg_min_select g) 1 else 0)"

definition max_picks :: "pref_group \<Rightarrow> int" where
  "max_picks g =
     min (max (pg_max_select g) (if min_picks g = 0 then 1 else min_picks g)) (int (length (selectable g)))"

definition group_step :: "int \<Rightarrow> selection list \<Rightarrow> pref_group \<Rightarrow> val_state \<Rightarrow> val_state" where
  "group_step cap sels g a =
     (let chosen = chosen_of sels (pg_id g) in
      if \<not> is_visible sels g then
        (if chosen \<noteq> [] then add_detail (pg_id g) DoesNotApply a else a)
      else if selectable g = [] then a
      else
        let pickedNone = (\<exists>s\<in>set chosen. sel_option s = none_option_key) in
        if pickedNone \<and> 1 < length chosen then add_detail (pg_id g) NoneCombined a
        else if \<not> pickedNone \<and> int (length chosen) < min_picks g then add_detail (pg_id g) ChooseOption a
        else if \<not> pickedNone \<and> max_picks g < int (length chosen) then
          add_detail (pg_id g) (ChooseAtMost (max_picks g)) a
        else pick_loop cap g [] chosen a)"

fun group_loop :: "int \<Rightarrow> selection list \<Rightarrow> pref_group list \<Rightarrow> val_state \<Rightarrow> val_state" where
  "group_loop cap sels [] a = a"
| "group_loop cap sels (g # gs) a = group_loop cap sels gs (group_step cap sels g a)"

definition unknown_details :: "pref_group list \<Rightarrow> selection list \<Rightarrow> (ident \<times> reason) list" where
  "unknown_details groups sels =
     map (\<lambda>gid. (gid, UnknownGroup))
       (filter (\<lambda>gid. gid \<notin> set (map pg_id groups)) (set_union_order [] (map sel_group sels)))"

definition validate_selections :: "int \<Rightarrow> pref_group list \<Rightarrow> selection list \<Rightarrow> exn + validated" where
  "validate_selections cap groups sels =
     (let a = group_loop cap sels groups
                \<lparr>va_details = unknown_details groups sels, va_total = 0, va_primary = None,
                 va_snapshot = [], va_rows = []\<rparr>
      in if va_details a \<noteq> [] then Inl (Unprocessable ''PREFERENCE_SELECTION_INVALID'')
         else Inr \<lparr>vs_total_delta = va_total a,
                   vs_primary_key =
                     (if va_primary a = None \<and> va_rows a \<noteq> [] then Some (sr_option_key (hd (va_rows a)))
                      else va_primary a),
                   vs_snapshot = va_snapshot a, vs_rows = va_rows a\<rparr>)"


section \<open>What an accepted set satisfies\<close>

text \<open>A row the validator may persist for group \<open>g\<close>: an offered option, veg-safe, with a legal quantity.\<close>

definition pick_ok :: "int \<Rightarrow> pref_group \<Rightarrow> selection_row \<Rightarrow> bool" where
  "pick_ok cap g r \<longleftrightarrow>
     (\<exists>o'\<in>set (pg_options g). \<exists>qty. r = row_of g o' qty \<and> (pg_veg_only g \<longrightarrow> po_is_veg o')
        \<and> (if pg_quantity_enabled g then po_min_qty o' \<le> qty \<and> qty \<le> min (po_max_qty o') cap
           else qty = 1))"

definition rows_delta :: "selection_row list \<Rightarrow> int" where
  "rows_delta rs = (\<Sum>r\<leftarrow>rs. sr_price_delta r * sr_quantity r)"

text \<open>What one group contributes when nothing is wrong with it.\<close>

definition group_ok :: "int \<Rightarrow> selection list \<Rightarrow> pref_group \<Rightarrow> selection_row list \<Rightarrow> bool" where
  "group_ok cap sels g rs \<longleftrightarrow>
     (let chosen = chosen_of sels (pg_id g) in
      (\<forall>r\<in>set rs. pick_ok cap g r)
      \<and> (if \<not> is_visible sels g then chosen = [] \<and> rs = []
         else if selectable g = [] then rs = []
         else map sr_option_key rs = map sel_option chosen \<and> distinct (map sel_option chosen)
           \<and> ((\<exists>s. chosen = [s] \<and> sel_option s = none_option_key)
              \<or> (none_option_key \<notin> set (map sel_option chosen)
                 \<and> min_picks g \<le> int (length chosen) \<and> int (length chosen) \<le> max_picks g))))"

lemma row_of_simps [simp]:
  "sr_group (row_of g o' q) = pg_id g" "sr_option_key (row_of g o' q) = po_key o'"
  "sr_price_delta (row_of g o' q) = po_price_delta o'" "sr_quantity (row_of g o' q) = q"
  by (simp_all add: row_of_def)

lemma rows_delta_simps [simp]:
  "rows_delta [] = 0" "rows_delta (xs @ ys) = rows_delta xs + rows_delta ys"
  "rows_delta [r] = sr_price_delta r * sr_quantity r"
  by (simp_all add: rows_delta_def)

lemma pick_ok_group: "pick_ok cap g r \<Longrightarrow> sr_group r = pg_id g"
  by (auto simp: pick_ok_def)

text \<open>Problems are only ever added: a set of problems that did not grow stayed as it was.\<close>

lemma prefix_details [simp]:
  "prefix (va_details a) (va_details (add_detail gid r a))"
  "prefix (va_details a) (va_details (accept_pick g o' q a))"
  by (simp_all add: add_detail_def accept_pick_def)

lemma pick_loop_details: "prefix (va_details a) (va_details (pick_loop cap g seen ss a))"
proof (induction ss arbitrary: seen a)
  case Nil
  then show ?case by simp
next
  case (Cons s ss)
  note step = prefix_order.trans [OF _ Cons.IH]
  show ?case
    by (simp add: Let_def split: option.split) (intro conjI impI allI; rule step; simp)
qed

lemma group_step_details: "prefix (va_details a) (va_details (group_step cap sels g a))"
  by (simp add: group_step_def Let_def pick_loop_details)

lemma group_loop_details: "prefix (va_details a) (va_details (group_loop cap sels gs a))"
proof (induction gs arbitrary: a)
  case Nil
  then show ?case by simp
next
  case (Cons g gs)
  show ?case using prefix_order.trans [OF group_step_details Cons.IH] by simp
qed

lemma pick_loop_unchanged:
  assumes "va_details (pick_loop cap g seen ss a) = va_details a"
  shows "\<exists>rs. va_rows (pick_loop cap g seen ss a) = va_rows a @ rs
    \<and> va_snapshot (pick_loop cap g seen ss a) = va_snapshot a @ rs
    \<and> va_total (pick_loop cap g seen ss a) = va_total a + rows_delta rs
    \<and> (\<forall>r\<in>set rs. pick_ok cap g r)
    \<and> map sr_option_key rs = map sel_option ss
    \<and> distinct (map sel_option ss) \<and> set (map sel_option ss) \<inter> set seen = {}"
  using assms
proof (induction ss arbitrary: seen a)
  case Nil
  then show ?case by simp
next
  case (Cons s ss)
  have no_add: "va_details (pick_loop cap g sn ss (add_detail gid r a)) \<noteq> va_details a" for sn gid r
    using pick_loop_details [of "add_detail gid r a" cap g sn ss]
    by (auto simp: add_detail_def prefix_def)
  obtain o' where new: "sel_option s \<notin> set seen"
    and f: "find (\<lambda>o'. po_key o' = sel_option s) (pg_options g) = Some o'"
    and veg: "\<not> (pg_veg_only g \<and> \<not> po_is_veg o')"
    using Cons.prems no_add by (auto simp: Let_def split: option.splits if_splits)
  define qty where "qty = (if pg_quantity_enabled g then nullish (sel_quantity s) (po_min_qty o') else 1)"
  have q: "\<not> (pg_quantity_enabled g \<and> (qty < po_min_qty o' \<or> min (po_max_qty o') cap < qty))"
    and step: "pick_loop cap g seen (s # ss) a
      = pick_loop cap g (seen @ [sel_option s]) ss (accept_pick g o' qty a)"
    using Cons.prems no_add new f veg by (auto simp: Let_def qty_def split: if_splits)
  have "va_details (pick_loop cap g (seen @ [sel_option s]) ss (accept_pick g o' qty a))
      = va_details (accept_pick g o' qty a)"
    using Cons.prems step by (simp add: accept_pick_def)
  from Cons.IH [OF this] obtain rs where rs:
    "va_rows (pick_loop cap g seen (s # ss) a) = va_rows a @ row_of g o' qty # rs"
    "va_snapshot (pick_loop cap g seen (s # ss) a) = va_snapshot a @ row_of g o' qty # rs"
    "va_total (pick_loop cap g seen (s # ss) a) = va_total a + po_price_delta o' * qty + rows_delta rs"
    "\<forall>r\<in>set rs. pick_ok cap g r" "map sr_option_key rs = map sel_option ss"
    "distinct (map sel_option ss)" "set (map sel_option ss) \<inter> (set seen \<union> {sel_option s}) = {}"
    unfolding step by (auto simp: accept_pick_def)
  have o': "o' \<in> set (pg_options g)" "po_key o' = sel_option s" using find_SomeD [OF f] by simp_all
  have "pick_ok cap g (row_of g o' qty)"
    unfolding pick_ok_def using o' veg q
    by (intro bexI [of _ o'] exI [of _ qty]) (auto simp: qty_def)
  with rs o' new show ?case
    by (intro exI [of _ "row_of g o' qty # rs"]) (auto simp: rows_delta_def)
qed

lemma group_step_unchanged:
  assumes "va_details (group_step cap sels g a) = va_details a"
  shows "\<exists>rs. va_rows (group_step cap sels g a) = va_rows a @ rs
    \<and> va_snapshot (group_step cap sels g a) = va_snapshot a @ rs
    \<and> va_total (group_step cap sels g a) = va_total a + rows_delta rs \<and> group_ok cap sels g rs"
proof -
  let ?c = "chosen_of sels (pg_id g)"
  let ?none = "\<exists>s\<in>set ?c. sel_option s = none_option_key"
  consider (hidden) "\<not> is_visible sels g" | (empty) "is_visible sels g" "selectable g = []"
    | (live) "is_visible sels g" "selectable g \<noteq> []" by blast
  then show ?thesis
  proof cases
    case hidden
    then show ?thesis using assms
      by (auto simp: group_step_def group_ok_def add_detail_def split: if_splits)
  next
    case empty
    then show ?thesis by (auto simp: group_step_def group_ok_def)
  next
    case live
    then have guards: "\<not> (?none \<and> 1 < length ?c)" "\<not> (\<not> ?none \<and> int (length ?c) < min_picks g)"
        "\<not> (\<not> ?none \<and> max_picks g < int (length ?c))"
      and step: "group_step cap sels g a = pick_loop cap g [] ?c a"
      using assms by (auto simp: group_step_def Let_def add_detail_def split: if_splits)
    have one: "?none \<Longrightarrow> \<exists>s. ?c = [s] \<and> sel_option s = none_option_key"
      using guards(1) by (cases ?c; cases "tl ?c") auto
    from pick_loop_unchanged [of cap g "[]" ?c a] assms step obtain rs where
      "va_rows (group_step cap sels g a) = va_rows a @ rs"
      "va_snapshot (group_step cap sels g a) = va_snapshot a @ rs"
      "va_total (group_step cap sels g a) = va_total a + rows_delta rs"
      "\<forall>r\<in>set rs. pick_ok cap g r" "map sr_option_key rs = map sel_option ?c"
      "distinct (map sel_option ?c)" by auto
    moreover have "none_option_key \<notin> set (map sel_option ?c)" if "\<not> ?none" using that by force
    ultimately show ?thesis using live guards one
      by (intro exI [of _ rs]) (cases ?none; simp add: group_ok_def Let_def)
  qed
qed

lemma group_loop_unchanged:
  assumes "va_details (group_loop cap sels gs a) = va_details a"
  shows "\<exists>rss. va_rows (group_loop cap sels gs a) = va_rows a @ concat rss
    \<and> va_snapshot (group_loop cap sels gs a) = va_snapshot a @ concat rss
    \<and> va_total (group_loop cap sels gs a) = va_total a + rows_delta (concat rss)
    \<and> list_all2 (group_ok cap sels) gs rss"
  using assms
proof (induction gs arbitrary: a)
  case Nil
  then show ?case by (intro exI [of _ "[]"]) simp
next
  case (Cons g gs)
  have u: "va_details (group_step cap sels g a) = va_details a"
    "va_details (group_loop cap sels gs (group_step cap sels g a)) = va_details (group_step cap sels g a)"
    using Cons.prems group_step_details [of a cap sels g]
      group_loop_details [of "group_step cap sels g a" cap sels gs]
    by (auto intro: prefix_order.antisym)
  obtain rs where "va_rows (group_step cap sels g a) = va_rows a @ rs"
    "va_snapshot (group_step cap sels g a) = va_snapshot a @ rs"
    "va_total (group_step cap sels g a) = va_total a + rows_delta rs" "group_ok cap sels g rs"
    using group_step_unchanged [OF u(1)] by blast
  moreover obtain rss where
    "va_rows (group_loop cap sels gs (group_step cap sels g a)) = va_rows (group_step cap sels g a) @ concat rss"
    "va_snapshot (group_loop cap sels gs (group_step cap sels g a))
      = va_snapshot (group_step cap sels g a) @ concat rss"
    "va_total (group_loop cap sels gs (group_step cap sels g a))
      = va_total (group_step cap sels g a) + rows_delta (concat rss)"
    "list_all2 (group_ok cap sels) gs rss"
    using Cons.IH [OF u(2)] by blast
  ultimately show ?case by (intro exI [of _ "rs # rss"]) simp
qed

lemma validate_accepted:
  assumes "validate_selections cap groups sels = Inr v"
  obtains rss where "list_all2 (group_ok cap sels) groups rss" "vs_rows v = concat rss"
    "vs_snapshot v = concat rss" "vs_total_delta v = rows_delta (concat rss)"
    "\<forall>s\<in>set sels. sel_group s \<in> pg_id ` set groups"
proof -
  let ?a0 = "\<lparr>va_details = unknown_details groups sels, va_total = 0, va_primary = None,
                 va_snapshot = [], va_rows = []\<rparr> :: val_state"
  have e: "va_details (group_loop cap sels groups ?a0) = []"
    using assms by (auto simp: validate_selections_def Let_def split: if_splits)
  moreover have z: "unknown_details groups sels = []"
    using group_loop_details [of ?a0 cap sels groups] e by simp
  ultimately obtain rss where "va_rows (group_loop cap sels groups ?a0) = concat rss"
    "va_snapshot (group_loop cap sels groups ?a0) = concat rss"
    "va_total (group_loop cap sels groups ?a0) = rows_delta (concat rss)"
    "list_all2 (group_ok cap sels) groups rss"
    using group_loop_unchanged [of cap sels groups ?a0] by auto
  moreover have "\<forall>s\<in>set sels. sel_group s \<in> pg_id ` set groups"
    using z by (auto simp: unknown_details_def filter_empty_conv)
  moreover have "vs_rows v = va_rows (group_loop cap sels groups ?a0)"
    "vs_snapshot v = va_snapshot (group_loop cap sels groups ?a0)"
    "vs_total_delta v = va_total (group_loop cap sels groups ?a0)"
    using assms by (auto simp: validate_selections_def Let_def split: if_splits)
  ultimately show ?thesis using that by simp
qed

text \<open>
  (C24) Soundness of the selection validator: what it accepts is priced exactly, the JSON
  snapshot and the child rows are the same list, and every persisted row is an option
  that some visible group of the meal really offers, veg-safe and with a legal quantity.
\<close>

theorem accepted_selections_sound:
  assumes "validate_selections cap groups sels = Inr v"
  shows "vs_snapshot v = vs_rows v \<and> vs_total_delta v = rows_delta (vs_rows v)
    \<and> (\<forall>r\<in>set (vs_rows v). \<exists>g\<in>set groups. is_visible sels g \<and> pick_ok cap g r)"
proof -
  obtain rss where r: "list_all2 (group_ok cap sels) groups rss" "vs_rows v = concat rss"
    "vs_snapshot v = concat rss" "vs_total_delta v = rows_delta (concat rss)"
    using validate_accepted [OF assms] by blast
  have "\<exists>g\<in>set groups. is_visible sels g \<and> pick_ok cap g x" if "rs \<in> set rss" "x \<in> set rs" for rs x
  proof -
    from that(1) obtain i where "i < length rss" "rs = rss ! i" by (auto simp: in_set_conv_nth)
    then have "groups ! i \<in> set groups" "group_ok cap sels (groups ! i) rs"
      using r(1) by (auto simp: list_all2_conv_all_nth)
    with that(2) show ?thesis by (auto simp: group_ok_def Let_def split: if_splits)
  qed
  with r show ?thesis by auto
qed

text \<open>
  Completeness of an accepted set: no pick names an unknown or a hidden group, and
  for each visible group with something to choose, the persisted rows of the group are
  exactly the member's picks, without duplicates, and either the lone system None or a
  number of picks between the group's minimum and maximum.
\<close>

lemma accepted_selections_complete:
  assumes "validate_selections cap groups sels = Inr v" "distinct (map pg_id groups)" "g \<in> set groups"
  shows "(\<not> is_visible sels g \<longrightarrow> chosen_of sels (pg_id g) = [])
    \<and> (is_visible sels g \<and> selectable g \<noteq> [] \<longrightarrow>
        map sr_option_key (filter (\<lambda>r. sr_group r = pg_id g) (vs_rows v))
          = map sel_option (chosen_of sels (pg_id g))
        \<and> distinct (map sel_option (chosen_of sels (pg_id g)))
        \<and> (map sel_option (chosen_of sels (pg_id g)) = [none_option_key]
           \<or> (none_option_key \<notin> set (map sel_option (chosen_of sels (pg_id g)))
              \<and> min_picks g \<le> int (length (chosen_of sels (pg_id g)))
              \<and> int (length (chosen_of sels (pg_id g))) \<le> max_picks g)))"
proof -
  obtain rss where r: "list_all2 (group_ok cap sels) groups rss" "vs_rows v = concat rss"
    using validate_accepted [OF assms(1)] by blast
  obtain i where i: "i < length groups" "groups ! i = g" using assms(3) by (auto simp: in_set_conv_nth)
  have "filter (\<lambda>r. sr_group r = pg_id g) (concat rss) = rss ! i"
    using r(1) assms(2) i
  proof (induction groups rss arbitrary: i rule: list_all2_induct)
    case Nil
    then show ?case by simp
  next
    case (Cons g' gs rs rss)
    have grp: "\<forall>r\<in>set rs. sr_group r = pg_id g'"
      using Cons.hyps(1) by (auto simp: group_ok_def Let_def dest: pick_ok_group split: if_splits)
    have others: "\<forall>rs\<in>set rss. \<forall>r\<in>set rs. sr_group r \<in> pg_id ` set gs"
      using Cons.hyps(2) by (fastforce simp: group_ok_def Let_def list_all2_conv_all_nth in_set_conv_nth
          dest: pick_ok_group split: if_splits)
    show ?case
    proof (cases i)
      case 0
      then have "pg_id g \<notin> pg_id ` set gs" using Cons.prems by auto
      then have "filter (\<lambda>r. sr_group r = pg_id g) (concat rss) = []"
        using others unfolding filter_empty_conv set_concat by (metis UN_E)
      with 0 Cons.prems grp show ?thesis by simp
    next
      case (Suc j)
      then have "j < length gs" "gs ! j = g" using Cons.prems by simp_all
      then have "pg_id g \<in> pg_id ` set gs" by (metis image_eqI nth_mem)
      then have "filter (\<lambda>r. sr_group r = pg_id g) rs = []"
        using Cons.prems grp by (auto simp: filter_empty_conv)
      with Suc Cons show ?thesis by simp
    qed
  qed
  moreover have "group_ok cap sels g (rss ! i)" using r(1) i by (auto simp: list_all2_conv_all_nth)
  ultimately show ?thesis using r(2) by (auto simp: group_ok_def Let_def split: if_splits)
qed


section \<open>Attending without an item\<close>

text \<open>
  The system None option always works: choosing None in every unconditionally visible
  group is accepted, costs nothing and records None for each group that has something
  to choose.  Groups built by \<open>build_effective_groups\<close> satisfy \<open>offers_none\<close>.
\<close>

definition offers_none :: "pref_group \<Rightarrow> bool" where
  "offers_none g \<longleftrightarrow>
     (selectable g \<noteq> [] \<longrightarrow>
        (\<exists>os n. find (\<lambda>o'. po_key o' = none_option_key) (pg_options g) = Some (none_option n)
              \<and> os @ [none_option n] = pg_options g))"

definition pick_none :: "pref_group \<Rightarrow> selection" where
  "pick_none g = \<lparr>sel_group = pg_id g, sel_option = none_option_key, sel_quantity = None\<rparr>"

definition unconditional :: "pref_group \<Rightarrow> bool" where
  "unconditional g \<longleftrightarrow>
     (case pg_visible_when g of None \<Rightarrow> True | Some (gid, key) \<Rightarrow> gid = [] \<or> key = [])"

definition none_selections :: "pref_group list \<Rightarrow> selection list" where
  "none_selections gs = map pick_none (filter unconditional gs)"

lemma chosen_none_selections:
  assumes "distinct (map pg_id gs)" "g \<in> set gs"
  shows "chosen_of (none_selections gs) (pg_id g) = (if unconditional g then [pick_none g] else [])"
  using assms
proof (induction gs)
  case Nil
  then show ?case by simp
next
  case (Cons h gs)
  show ?case
  proof (cases "g = h")
    case True
    then have "pg_id g \<notin> pg_id ` set gs" using Cons.prems by simp
    then have "chosen_of (none_selections gs) (pg_id g) = []"
      by (simp add: chosen_of_def none_selections_def filter_empty_conv pick_none_def) (metis image_eqI)
    with True show ?thesis by (auto simp: chosen_of_def none_selections_def pick_none_def)
  next
    case False
    then have "pg_id h \<noteq> pg_id g" using Cons.prems by auto
    with False Cons show ?thesis by (auto simp: chosen_of_def none_selections_def pick_none_def)
  qed
qed

lemma none_option_simps [simp]:
  "po_key (none_option n) = none_option_key" "po_is_veg (none_option n)"
  "po_price_delta (none_option n) = 0" "po_min_qty (none_option n) = 1" "po_max_qty (none_option n) = 1"
  by (simp_all add: none_option_def)

lemma group_step_none:
  assumes "1 \<le> cap" "distinct (map pg_id gs)" "g \<in> set gs" "offers_none g"
    and cond: "\<And>gid. pg_visible_when g \<noteq> Some (gid, none_option_key)"
  shows "va_details (group_step cap (none_selections gs) g a) = va_details a
    \<and> va_total (group_step cap (none_selections gs) g a) = va_total a"
proof (cases "unconditional g")
  case True
  then have vis: "is_visible (none_selections gs) g"
    by (auto simp: is_visible_def unconditional_def split: option.splits)
  have c: "chosen_of (none_selections gs) (pg_id g) = [pick_none g]"
    using True chosen_none_selections [OF assms(2,3)] by simp
  show ?thesis
  proof (cases "selectable g = []")
    case True
    with vis show ?thesis by (simp add: group_step_def c)
  next
    case False
    then obtain n where "find (\<lambda>o'. po_key o' = none_option_key) (pg_options g) = Some (none_option n)"
      using assms(4) by (auto simp: offers_none_def)
    with False vis assms(1) show ?thesis
      by (simp add: group_step_def c pick_none_def Let_def accept_pick_def)
  qed
next
  case False
  then have c: "chosen_of (none_selections gs) (pg_id g) = []"
    using chosen_none_selections [OF assms(2,3)] by simp
  from False obtain gid key where w: "pg_visible_when g = Some (gid, key)" "gid \<noteq> []" "key \<noteq> []"
    by (auto simp: unconditional_def split: option.splits)
  have "\<not> is_visible (none_selections gs) g"
    using w cond [of gid] by (auto simp: is_visible_def chosen_of_def none_selections_def pick_none_def)
  then show ?thesis by (simp add: group_step_def c)
qed

text \<open>
  A member can always attend: for any set of effective groups, picking the system
  None in every unconditionally visible group is accepted, with a price delta of zero.
\<close>

lemma none_always_accepted:
  assumes "1 \<le> cap" "distinct (map pg_id gs)" "\<forall>g\<in>set gs. offers_none g"
    and "\<forall>g\<in>set gs. \<forall>gid. pg_visible_when g \<noteq> Some (gid, none_option_key)"
  shows "\<exists>v. validate_selections cap gs (none_selections gs) = Inr v \<and> vs_total_delta v = 0"
proof -
  have loop: "va_details (group_loop cap (none_selections gs) hs a) = va_details a
      \<and> va_total (group_loop cap (none_selections gs) hs a) = va_total a"
    if "set hs \<subseteq> set gs" for hs a
    using that
  proof (induction hs arbitrary: a)
    case Nil
    then show ?case by simp
  next
    case (Cons h hs)
    then show ?case using group_step_none [OF assms(1,2), of h a] assms(3,4) by simp
  qed
  have "unknown_details gs (none_selections gs) = []"
    by (auto simp: unknown_details_def filter_empty_conv none_selections_def pick_none_def)
  then show ?thesis using loop [of gs] by (simp add: validate_selections_def Let_def)
qed

text \<open>The builder keeps its promise: tenant isolation, order, and None last in every group with options.\<close>

lemma effective_options_offer:
  assumes "\<forall>o'\<in>set opts. po_key o' \<noteq> none_option_key" "effective_options opts \<noteq> []"
  shows "\<exists>os n. effective_options opts = os @ [none_option n] \<and> (\<forall>o'\<in>set os. po_key o' \<noteq> none_option_key)"
  using assms by (auto simp: effective_options_def Let_def pref_option.truncate_def split: if_splits)

text \<open>
  The effective view of a meal: only active groups of the caller's own organisation
  and unsuspended bindings appear, in display order, and every group with a selectable
  option ends with the free, veg-safe system None (admins cannot store that key).
\<close>

lemma effective_groups_view:
  assumes "\<forall>b\<in>set bs. \<forall>g. bd_group b = Some g \<longrightarrow> (\<forall>o'\<in>set (sg_options g). po_key o' \<noteq> none_option_key)"
  shows "sorted (map pg_order (build_effective_groups bs org meal))
    \<and> (\<forall>e\<in>set (build_effective_groups bs org meal). offers_none e
        \<and> (\<exists>b\<in>set bs. \<exists>g. bd_group b = Some g \<and> e = effective_group b g \<and> bd_meal_id b = meal
             \<and> bd_is_active b \<and> sg_org g = org \<and> sg_is_active g))"
proof (intro conjI ballI)
  show "sorted (map pg_order (build_effective_groups bs org meal))"
    by (simp add: build_effective_groups_def)
next
  fix e
  assume "e \<in> set (build_effective_groups bs org meal)"
  then obtain b g where b: "b \<in> set bs" "bd_group b = Some g" "e = effective_group b g"
      "bd_meal_id b = meal" "bd_is_active b" "sg_org g = org" "sg_is_active g"
    by (auto simp: build_effective_groups_def usable_binding_def split: option.splits)
  then show "\<exists>b\<in>set bs. \<exists>g. bd_group b = Some g \<and> e = effective_group b g \<and> bd_meal_id b = meal
      \<and> bd_is_active b \<and> sg_org g = org \<and> sg_is_active g" by blast
  have opts: "pg_options e = effective_options (sg_options g)" using b by (simp add: effective_group_def)
  show "offers_none e"
  proof (cases "pg_options e = []")
    case True
    then show ?thesis by (simp add: offers_none_def selectable_def)
  next
    case False
    then obtain os n where e: "pg_options e = os @ [none_option n]" "\<forall>o'\<in>set os. po_key o' \<noteq> none_option_key"
      using effective_options_offer [of "sg_options g"] assms b opts by auto
    have "find (\<lambda>o'. po_key o' = none_option_key) (os @ [none_option n]) = Some (none_option n)"
      using e(2) by (induction os) auto
    with e show ?thesis by (auto simp: offers_none_def)
  qed
qed


section \<open>Concrete inputs\<close>

definition ex_option :: "string \<Rightarrow> int \<Rightarrow> stored_option" where
  "ex_option k delta = \<lparr>po_id = k, po_key = k, po_label = k, po_emoji = None, po_color = None,
     po_is_veg = True, po_price_delta = delta, po_min_qty = 1, po_max_qty = 10, po_order = 1,
     so_is_active = True\<rparr>"

definition ex_binding :: binding where
  "ex_binding = \<lparr>bd_meal_id = ''lunch'', bd_is_active = True, bd_order = 1, bd_required_override = None,
     bd_min_override = None, bd_max_override = None,
     bd_group = Some \<lparr>sg_id = ''main'', sg_org = ''org'', sg_is_active = True, sg_label = ''Main'',
       sg_description = None, sg_selection_type = ''single'', sg_min_select = 1, sg_max_select = 1,
       sg_required = True, sg_quantity_enabled = True, sg_visible_when = None, sg_veg_only = False,
       sg_options = [ex_option ''dal'' 0, ex_option ''paneer'' 3000]\<rparr>\<rparr>"

definition ex_groups :: "pref_group list" where
  "ex_groups = build_effective_groups [ex_binding] ''org'' ''lunch''"

definition ex_picks :: "selection list" where
  "ex_picks = [\<lparr>sel_group = ''main'', sel_option = ''paneer'', sel_quantity = Some 2\<rparr>]"

definition ex_validated :: validated where
  "ex_validated =
     (let row = \<lparr>sr_group = ''main'', sr_group_label = ''Main'', sr_option_key = ''paneer'',
        sr_option_label = ''paneer'', sr_is_veg = True, sr_price_delta = 3000, sr_quantity = 2\<rparr>
      in \<lparr>vs_total_delta = 6000, vs_primary_key = Some ''paneer'', vs_snapshot = [row], vs_rows = [row]\<rparr>)"

lemma ex_accepted: "validate_selections 10 ex_groups ex_picks = Inr ex_validated"
  by code_simp

theorem accepted_selections_sound_witness:
  "vs_snapshot ex_validated = vs_rows ex_validated
    \<and> vs_total_delta ex_validated = rows_delta (vs_rows ex_validated)
    \<and> (\<exists>g\<in>set ex_groups. is_visible ex_picks g \<and> pick_ok 10 g (hd (vs_rows ex_validated)))"
proof -
  have "hd (vs_rows ex_validated) \<in> set (vs_rows ex_validated)" by code_simp
  with accepted_selections_sound [OF ex_accepted] show ?thesis by blast
qed

end
