(* ===== verification/Js_Date.thy ===== *)
theory Js_Date
  imports Emeal_Prelude
begin

text \<open>
  Dates as the program handles them: \<open>YYYY-MM-DD\<close> strings split on dashes and read with
  \<open>Number\<close>, \<open>Date.UTC\<close> on the proleptic Gregorian calendar, and the UTC midnight and
  format helpers of \<open>src/src/common/utils/date.utils.ts\<close>.  An instant is an \<open>int\<close>
  of milliseconds since 1970.  The lemmas show that month starts and the civil fields of
  a day invert each other and that formatting and parsing of midnights round-trip.
\<close>

section \<open>Numbers in strings\<close>

definition digit_val :: "char \<Rightarrow> int option" where
  "digit_val c = (let n = (of_char c :: nat) in if 48 \<le> n \<and> n \<le> 57 then Some (int n - 48) else None)"

fun js_number_aux :: "int \<Rightarrow> string \<Rightarrow> int option" where
  "js_number_aux acc [] = Some acc"
| "js_number_aux acc (c # cs) =
     (case digit_val c of None \<Rightarrow> None | Some d \<Rightarrow> js_number_aux (10 * acc + d) cs)"

definition js_number :: "string \<Rightarrow> int option" where
  "js_number s = js_number_aux 0 s"

fun js_split :: "char \<Rightarrow> string \<Rightarrow> string list" where
  "js_split sep [] = [[]]"
| "js_split sep (c # cs) =
     (if c = sep then [] # js_split sep cs
      else (case js_split sep cs of [] \<Rightarrow> [[c]] | w # ws \<Rightarrow> (c # w) # ws))"

definition digit_char :: "int \<Rightarrow> char" where
  "digit_char d = char_of (48 + nat (d mod 10))"

definition pad2 :: "int \<Rightarrow> string" where
  "pad2 n = [digit_char (n div 10), digit_char n]"

definition pad4 :: "int \<Rightarrow> string" where
  "pad4 n = [digit_char (n div 1000), digit_char (n div 100), digit_char (n div 10), digit_char n]"

definition pad6 :: "int \<Rightarrow> string" where
  "pad6 n = [digit_char (n div 100000), digit_char (n div 10000)] @ pad4 n"

lemma digit_val_digit_char [simp]: "digit_val (digit_char d) = Some (d mod 10)"
proof -
  have r: "0 \<le> d mod 10" "d mod 10 < 10" by simp_all
  then have "48 + nat (d mod 10) < 256" by simp
  then have "(48 + nat (d mod 10)) mod 256 = 48 + nat (d mod 10)" by (rule mod_less)
  with r show ?thesis by (simp add: digit_val_def digit_char_def Let_def)
qed

lemma digit_char_not_sep [simp]: "digit_char d \<noteq> CHR ''-''" "digit_char d \<noteq> CHR '':''"
  using digit_val_digit_char [of d] by (auto simp: digit_val_def)

lemma js_number_pad2 [simp]: "0 \<le> n \<Longrightarrow> n < 100 \<Longrightarrow> js_number (pad2 n) = Some n"
  by (simp add: js_number_def pad2_def)

lemma js_number_pad4 [simp]: "0 \<le> n \<Longrightarrow> n < 10000 \<Longrightarrow> js_number (pad4 n) = Some n"
proof -
  assume n: "0 \<le> n" "n < 10000"
  have a: "n div 100 = n div 10 div 10" "n div 1000 = n div 10 div 10 div 10"
    by (simp_all flip: zdiv_zmult2_eq)
  have b: "n div 10 div 10 div 10 mod 10 = n div 10 div 10 div 10" using n by simp
  have c: "10 * (10 * (10 * (n div 10 div 10 div 10) + n div 10 div 10 mod 10) + n div 10 mod 10) + n mod 10 = n"
    by simp
  show ?thesis using c by (simp add: js_number_def pad4_def a b)
qed

lemma js_split_notin: "sep \<notin> set w \<Longrightarrow> js_split sep w = [w]"
  by (induction w) auto

lemma js_split_append_sep: "sep \<notin> set w \<Longrightarrow> js_split sep (w @ sep # r) = w # js_split sep r"
  by (induction w) auto

lemma pad_no_dash [simp]: "CHR ''-'' \<notin> set (pad2 n)" "CHR ''-'' \<notin> set (pad4 n)"
  using digit_char_not_sep by (auto simp: pad2_def pad4_def simp del: digit_char_not_sep intro: sym)

section \<open>The proleptic Gregorian calendar\<close>

definition leap_year :: "int \<Rightarrow> bool" where
  "leap_year y \<longleftrightarrow> 4 dvd y \<and> (\<not> 100 dvd y \<or> 400 dvd y)"

definition day_from_year :: "int \<Rightarrow> int" where
  "day_from_year y = 365 * (y - 1970) + (y - 1969) div 4 - (y - 1901) div 100 + (y - 1601) div 400"

definition days_in_year :: "int \<Rightarrow> int" where
  "days_in_year y = (if leap_year y then 366 else 365)"

definition days_in_month :: "int \<Rightarrow> int \<Rightarrow> int" where
  "days_in_month y m0 =
     (if m0 = 1 then (if leap_year y then 29 else 28)
      else if m0 = 3 \<or> m0 = 5 \<or> m0 = 8 \<or> m0 = 10 then 30 else 31)"


fun month_search :: "int \<Rightarrow> int \<Rightarrow> int list \<Rightarrow> int \<times> int" where
  "month_search y r [] = (11, r)"
| "month_search y r [m] = (m, r)"
| "month_search y r (m # m' # ms) =
     (if r < days_in_month y m then (m, r) else month_search y (r - days_in_month y m) (m' # ms))"

definition days_before_month :: "int \<Rightarrow> int \<Rightarrow> int" where
  "days_before_month y m0 = (\<Sum>i\<leftarrow>[0..m0 - 1]. days_in_month y i)"

lemma int_div_Suc:
  fixes x k :: int
  assumes "0 < k"
  shows "(x + 1) div k = x div k + (if k dvd x + 1 then 1 else 0)"
proof (cases "k dvd x + 1")
  case True
  then obtain q where q: "x + 1 = k * q" by (elim dvdE)
  then have "x = (k - 1) + k * (q - 1)" by (simp add: algebra_simps)
  then have "x div k = (k - 1) div k + (q - 1)" using assms by simp
  with q True assms show ?thesis by (simp add: div_pos_pos_trivial)
next
  case False
  then have "(x + 1) mod k \<noteq> 0" by (simp add: dvd_eq_mod_eq_0)
  with assms have "1 \<le> (x + 1) mod k" by (smt (verit) pos_mod_sign)
  moreover have "(x + 1) mod k < k" using assms by simp
  ultimately have z: "((x + 1) mod k - 1) div k = 0" by (simp add: div_pos_pos_trivial)
  have "(x + 1) mod k + k * ((x + 1) div k) = x + 1" by (rule mod_mult_div_eq)
  then have "((x + 1) mod k - 1) + k * ((x + 1) div k) = x" by linarith
  then have "x div k = (((x + 1) mod k - 1) + k * ((x + 1) div k)) div k" by (rule arg_cong [OF sym])
  also have "\<dots> = (x + 1) div k + ((x + 1) mod k - 1) div k" using assms by (simp only: div_mult_self2)
  finally show ?thesis using False z by simp
qed

lemma dvd_shift: "(k::int) dvd c \<Longrightarrow> k dvd y - c \<longleftrightarrow> k dvd y"
  by (metis diff_add_cancel dvd_add_left_iff)

lemma day_from_year_Suc: "day_from_year (y + 1) = day_from_year y + days_in_year y"
proof -
  have a: "(y + 1 - 1969) div 4 = (y - 1969) div 4 + (if 4 dvd y then 1 else 0)"
    using int_div_Suc [of 4 "y - 1969"] dvd_shift [of 4 1968 y] by simp
  have b: "(y + 1 - 1901) div 100 = (y - 1901) div 100 + (if 100 dvd y then 1 else 0)"
    using int_div_Suc [of 100 "y - 1901"] dvd_shift [of 100 1900 y] by simp
  have c: "(y + 1 - 1601) div 400 = (y - 1601) div 400 + (if 400 dvd y then 1 else 0)"
    using int_div_Suc [of 400 "y - 1601"] dvd_shift [of 400 1600 y] by simp
  have i: "400 dvd y \<Longrightarrow> 100 dvd y" "100 dvd y \<Longrightarrow> 4 dvd y"
    by (rule dvd_trans [of _ 400], simp, assumption) (rule dvd_trans [of _ 100], simp, assumption)
  have "365 * (y + 1 - 1970) = 365 * (y - 1970) + 365" by simp
  then have "day_from_year (y + 1) = day_from_year y + 365
      + (if 4 dvd y then 1 else 0) - (if 100 dvd y then 1 else 0) + (if 400 dvd y then 1 else 0)"
    by (simp only: day_from_year_def a b c)
  then show ?thesis using i by (cases "400 dvd y"; cases "100 dvd y"; cases "4 dvd y")
      (simp_all add: days_in_year_def leap_year_def)
qed

lemma days_in_month_bounds: "28 \<le> days_in_month y m0" "days_in_month y m0 \<le> 31"
  by (simp_all add: days_in_month_def)

lemma days_before_month_0 [simp]: "days_before_month y 0 = 0"
  by (simp add: days_before_month_def)

lemma days_before_month_Suc:
  "0 \<le> m0 \<Longrightarrow> days_before_month y (m0 + 1) = days_before_month y m0 + days_in_month y m0"
  using upto_rec2 [of 0 m0] by (simp add: days_before_month_def)

lemma days_before_month_12: "days_before_month y 12 = days_in_year y"
proof -
  have "[0..11] = [0, 1, 2, 3, 4, 5, 6, 7, 8, 9, 10, 11::int]" by (simp add: upto.simps)
  then show ?thesis by (simp add: days_before_month_def days_in_month_def days_in_year_def)
qed

text \<open>
  Months are numbered consecutively, \<open>12 * year + month0\<close>; the month overflow
  of \<open>Date.UTC\<close> is then plain arithmetic on the month number.
\<close>

definition month_start :: "int \<Rightarrow> int" where
  "month_start k = day_from_year (k div 12) + days_before_month (k div 12) (k mod 12)"

definition month_len :: "int \<Rightarrow> int" where
  "month_len k = days_in_month (k div 12) (k mod 12)"

lemma month_len_bounds: "28 \<le> month_len k" "month_len k \<le> 31"
  by (simp_all add: month_len_def days_in_month_bounds)

lemma month_start_Suc: "month_start (k + 1) = month_start k + month_len k"
proof (cases "k mod 12 = 11")
  case True
  then have "12 dvd k + 1" by (simp add: dvd_eq_mod_eq_0 mod_add_eq [symmetric, of k])
  then have "(k + 1) div 12 = k div 12 + 1" "(k + 1) mod 12 = 0" by (simp_all add: int_div_Suc)
  moreover have "days_before_month (k div 12) 11 + days_in_month (k div 12) 11 = days_in_year (k div 12)"
    using days_before_month_Suc [of 11 "k div 12"] days_before_month_12 by simp
  ultimately show ?thesis
    using True by (simp add: month_start_def month_len_def day_from_year_Suc)
next
  case False
  from False have "\<not> 12 dvd k + 1" by presburger
  then have d: "(k + 1) div 12 = k div 12" by (simp add: int_div_Suc)
  have "(k + 1) mod 12 = k + 1 - 12 * ((k + 1) div 12)" "k mod 12 = k - 12 * (k div 12)"
    by (simp_all only: minus_mult_div_eq_mod)
  with d have "(k + 1) mod 12 = k mod 12 + 1" by linarith
  with d show ?thesis
    by (simp add: month_start_def month_len_def days_before_month_Suc)
qed


lemma month_start_less_Suc: "month_start k < month_start (k + 1)"
  using month_len_bounds [of k] by (simp add: month_start_Suc)

lemma month_start_strict_mono: "j < k \<Longrightarrow> month_start j < month_start k"
proof (induction k rule: int_gr_induct [where k = j])
  case base
  then show ?case by (rule month_start_less_Suc)
next
  case (step i)
  then show ?case using month_start_less_Suc [of i] by linarith
qed

lemma month_start_mono: "j \<le> k \<Longrightarrow> month_start j \<le> month_start k"
  using month_start_strict_mono [of j k] by (cases "j = k") auto

lemma month_index_unique:
  assumes "month_start j \<le> d" "d < month_start (j + 1)" "month_start k \<le> d" "d < month_start (k + 1)"
  shows "j = k"
proof (rule ccontr)
  assume "j \<noteq> k"
  then consider "j + 1 \<le> k" | "k + 1 \<le> j" by linarith
  then show False
    using month_start_mono [of "j + 1" k] month_start_mono [of "k + 1" j] assms by cases linarith+
qed

text \<open>The year of a day number: an estimate from the 400-year cycle, corrected by at most one.\<close>

definition year_from_day :: "int \<Rightarrow> int" where
  "year_from_day d =
     (let y = 1970 + (400 * d) div 146097
      in if d < day_from_year y then y - 1
         else if day_from_year (y + 1) \<le> d then y + 1 else y)"

definition civil :: "int \<Rightarrow> int \<times> int \<times> int" where
  "civil d =
     (let y = year_from_day d;
          mr = month_search y (d - day_from_year y) [0, 1, 2, 3, 4, 5, 6, 7, 8, 9, 10, 11]
      in (y, fst mr + 1, snd mr + 1))"

lemma int_div_bounds:
  fixes x k :: int
  assumes "0 < k"
  shows "k * (x div k) \<le> x" "x \<le> k * (x div k) + (k - 1)"
proof -
  have "k * (x div k) + x mod k = x" by simp
  moreover have "0 \<le> x mod k" "x mod k < k" using assms by simp_all
  ultimately show "k * (x div k) \<le> x" "x \<le> k * (x div k) + (k - 1)" by linarith+
qed

lemma day_from_year_bounds:
  "400 * day_from_year y \<le> 146097 * (y - 1970) + 589"
  "146097 * (y - 1970) - 506 \<le> 400 * day_from_year y"
proof -
  define a b c where "a = (y - 1969) div 4" and "b = (y - 1901) div 100" and "c = (y - 1601) div 400"
  have "4 * a \<le> y - 1969" "y - 1969 \<le> 4 * a + 3"
    using int_div_bounds [of 4 "y - 1969"] unfolding a_def by linarith+
  moreover have "100 * b \<le> y - 1901" "y - 1901 \<le> 100 * b + 99"
    using int_div_bounds [of 100 "y - 1901"] unfolding b_def by linarith+
  moreover have "400 * c \<le> y - 1601" "y - 1601 \<le> 400 * c + 399"
    using int_div_bounds [of 400 "y - 1601"] unfolding c_def by linarith+
  moreover have "day_from_year y = 365 * (y - 1970) + a - b + c"
    by (simp add: day_from_year_def a_def b_def c_def)
  ultimately have "400 * day_from_year y \<le> 146097 * (y - 1970) + 589
    \<and> 146097 * (y - 1970) - 506 \<le> 400 * day_from_year y"
    unfolding right_diff_distrib by linarith
  then show "400 * day_from_year y \<le> 146097 * (y - 1970) + 589"
    "146097 * (y - 1970) - 506 \<le> 400 * day_from_year y" by simp_all
qed

lemma year_from_day:
  "day_from_year (year_from_day d) \<le> d" "d < day_from_year (year_from_day d + 1)"
proof -
  define y where "y = 1970 + (400 * d) div 146097"
  have e: "146097 * (y - 1970) \<le> 400 * d" "400 * d < 146097 * (y - 1970) + 146097"
    unfolding y_def by simp_all
  have "400 * day_from_year (y - 1) \<le> 400 * d"
    using day_from_year_bounds(1) [of "y - 1"] e(1) by (simp add: right_diff_distrib)
  then have lo: "day_from_year (y - 1) \<le> d" by simp
  have "400 * d < 400 * day_from_year (y + 1 + 1)"
    using day_from_year_bounds(2) [of "y + 1 + 1"] e(2) by (simp add: right_diff_distrib distrib_left)
  then have hi: "d < day_from_year (y + 1 + 1)" by simp
  show "day_from_year (year_from_day d) \<le> d" "d < day_from_year (year_from_day d + 1)"
    using lo hi by (simp_all add: year_from_day_def Let_def flip: y_def)
qed

lemma upto_0_11: "[0..11] = [0, 1, 2, 3, 4, 5, 6, 7, 8, 9, 10, 11::int]"
  by (simp add: upto.simps)

lemma month_search_from:
  assumes "0 \<le> m" "m \<le> 11" "0 \<le> r" "days_before_month y m + r < days_in_year y"
  shows "\<exists>m' q. month_search y r [m..11] = (m', q) \<and> m \<le> m' \<and> m' \<le> 11 \<and> 0 \<le> q
    \<and> q < days_in_month y m' \<and> days_before_month y m' + q = days_before_month y m + r"
  using assms
proof (induction "nat (11 - m)" arbitrary: m r)
  case 0
  then have m: "m = 11" by simp
  have "days_before_month y 11 + days_in_month y 11 = days_in_year y"
    using days_before_month_Suc [of 11 y] days_before_month_12 [of y] by simp
  with 0 m show ?case by (simp add: upto_single)
next
  case (Suc n)
  then have m: "m < 11" by linarith
  then have u: "[m..11] = m # (m + 1) # [m + 1 + 1..11]"
    by (simp add: upto_rec1)
  show ?case
  proof (cases "r < days_in_month y m")
    case True
    with Suc m show ?thesis by (simp add: u)
  next
    case False
    have b: "days_before_month y (m + 1) + (r - days_in_month y m) = days_before_month y m + r"
      using Suc.prems days_before_month_Suc [of m y] by simp
    have "\<exists>m' q. month_search y (r - days_in_month y m) [m + 1..11] = (m', q) \<and> m + 1 \<le> m' \<and> m' \<le> 11
      \<and> 0 \<le> q \<and> q < days_in_month y m'
      \<and> days_before_month y m' + q = days_before_month y (m + 1) + (r - days_in_month y m)"
      using Suc m False b by (intro Suc.hyps(1)) auto
    moreover have "month_search y r [m..11] = month_search y (r - days_in_month y m) [m + 1..11]"
      using False m by (simp add: u upto_rec1 [of "m + 1"])
    ultimately show ?thesis using b by fastforce
  qed
qed

lemma civil_month:
  assumes "civil d = (y, m, dd)"
  shows "month_start (12 * y + m - 1) + dd - 1 = d" "1 \<le> m" "m \<le> 12" "1 \<le> dd"
    "dd \<le> month_len (12 * y + m - 1)"
proof -
  define yy where "yy = year_from_day d"
  have "\<exists>m' q. month_search yy (d - day_from_year yy) [0..11] = (m', q) \<and> 0 \<le> m' \<and> m' \<le> 11 \<and> 0 \<le> q
    \<and> q < days_in_month yy m' \<and> days_before_month yy m' + q = days_before_month yy 0 + (d - day_from_year yy)"
    using year_from_day [of d] by (intro month_search_from) (auto simp: yy_def day_from_year_Suc)
  then obtain m' q where s: "month_search yy (d - day_from_year yy) [0..11] = (m', q)"
    and m': "0 \<le> m'" "m' \<le> 11" "0 \<le> q" "q < days_in_month yy m'"
      "days_before_month yy m' + q = d - day_from_year yy" by auto
  from s assms have v: "y = yy" "m = m' + 1" "dd = q + 1"
    by (simp_all add: civil_def Let_def upto_0_11 flip: yy_def)
  have dm: "(12 * yy + m') div 12 = yy" "(12 * yy + m') mod 12 = m'" using m' by simp_all
  show "month_start (12 * y + m - 1) + dd - 1 = d" "1 \<le> m" "m \<le> 12" "1 \<le> dd"
    "dd \<le> month_len (12 * y + m - 1)"
    using m' v dm by (simp_all add: month_start_def month_len_def)
qed

lemma civil_unique:
  assumes "1 \<le> m" "m \<le> 12" "1 \<le> dd" "dd \<le> month_len (12 * y + m - 1)"
  shows "civil (month_start (12 * y + m - 1) + dd - 1) = (y, m, dd)"
proof -
  let ?d = "month_start (12 * y + m - 1) + dd - 1"
  obtain y' m' dd' where c: "civil ?d = (y', m', dd')" by (cases "civil ?d") auto
  note c' = civil_month [OF c]
  have "12 * y' + m' - 1 = 12 * y + m - 1"
  proof (rule month_index_unique [of _ ?d])
    show "month_start (12 * y' + m' - 1) \<le> ?d" "month_start (12 * y + m - 1) \<le> ?d"
      using c' assms by linarith+
    show "?d < month_start (12 * y' + m' - 1 + 1)" "?d < month_start (12 * y + m - 1 + 1)"
      using c' assms month_start_Suc [of "12 * y' + m' - 1"] month_start_Suc [of "12 * y + m - 1"]
      by linarith+
  qed
  moreover from this have "y' = y" "m' = m" using c' assms by presburger+
  ultimately show ?thesis using c c' by simp
qed


section \<open>Date values\<close>

text \<open>
  A \<open>Date\<close> is its time value in milliseconds; \<open>None\<close> is \<open>Invalid Date\<close>.  \<open>Date.UTC\<close>
  maps the years 0 to 99 into the twentieth century and lets months and days overflow.
\<close>

definition day_ms :: int where
  "day_ms = 86400000"

definition full_year :: "int \<Rightarrow> int" where
  "full_year y = (if 0 \<le> y \<and> y \<le> 99 then 1900 + y else y)"

definition date_utc :: "int \<Rightarrow> int \<Rightarrow> int \<Rightarrow> int" where
  "date_utc y m0 d = (month_start (12 * full_year y + m0) + d - 1) * day_ms"

definition date_part :: "string \<Rightarrow> nat \<Rightarrow> int option" where
  "date_part s i =
     (let ps = js_split (CHR ''-'') s in if i < length ps then js_number (ps ! i) else None)"

definition to_utc_midnight :: "string \<Rightarrow> int option" where
  "to_utc_midnight s =
     (case (date_part s 0, date_part s 1, date_part s 2) of
        (Some y, Some m, Some d) \<Rightarrow> Some (date_utc y (m - 1) d)
      | _ \<Rightarrow> None)"

definition iso_year :: "int \<Rightarrow> string" where
  "iso_year y =
     (if 0 \<le> y \<and> y \<le> 9999 then pad4 y
      else (if y < 0 then CHR ''-'' else CHR ''+'') # pad6 \<bar>y\<bar>)"

definition format_utc_date :: "int \<Rightarrow> string" where
  "format_utc_date t =
     (case civil (t div day_ms) of
        (y, m, d) \<Rightarrow> take 10 (iso_year y @ CHR ''-'' # pad2 m @ CHR ''-'' # pad2 d))"

text \<open>The years in which \<open>YYYY-MM-DD\<close> strings and UTC midnights correspond one to one.\<close>

definition iso_range :: "int \<Rightarrow> bool" where
  "iso_range t \<longleftrightarrow> day_from_year 100 * day_ms \<le> t \<and> t < day_from_year 10000 * day_ms"

definition midnight :: "int \<Rightarrow> bool" where
  "midnight t \<longleftrightarrow> day_ms dvd t"

lemma day_ms_pos [simp]: "0 < day_ms" "day_ms \<noteq> 0"
  by (simp_all add: day_ms_def)

lemma month_start_year: "month_start (12 * y) = day_from_year y"
  by (simp add: month_start_def)

lemma length_pad [simp]: "length (pad2 n) = 2" "length (pad4 n) = 4"
  by (simp_all add: pad2_def pad4_def)

lemma js_split_ymd:
  "js_split (CHR ''-'') (pad4 y @ CHR ''-'' # pad2 m @ CHR ''-'' # pad2 d) = [pad4 y, pad2 m, pad2 d]"
  by (simp add: js_split_append_sep js_split_notin)

lemma date_part_ymd:
  assumes "0 \<le> y" "y < 10000" "0 \<le> m" "m < 100" "0 \<le> d" "d < 100"
  defines "s \<equiv> pad4 y @ CHR ''-'' # pad2 m @ CHR ''-'' # pad2 d"
  shows "date_part s 0 = Some y" "date_part s (Suc 0) = Some m" "date_part s 2 = Some d"
  using assms by (simp_all add: date_part_def js_split_ymd Let_def del: append.simps)

lemma civil_year_range:
  assumes "civil d = (y, m, dd)" "day_from_year a \<le> d" "d < day_from_year b"
  shows "a \<le> y" "y < b"
proof -
  note c = civil_month [OF assms(1)]
  have lo: "month_start (12 * y + m - 1) \<le> d" and hi: "d < month_start (12 * y + m)"
    using c month_start_Suc [of "12 * y + m - 1"] by simp_all
  have "\<not> y < a"
  proof
    assume "y < a"
    then have "month_start (12 * y + m) \<le> month_start (12 * a)" using c by (intro month_start_mono) simp
    with hi assms(2) show False by (simp add: month_start_year)
  qed
  then show "a \<le> y" by simp
  have "\<not> b \<le> y"
  proof
    assume "b \<le> y"
    then have "month_start (12 * b) \<le> month_start (12 * y + m - 1)" using c by (intro month_start_mono) simp
    with lo assms(3) show False by (simp add: month_start_year)
  qed
  then show "y < b" by simp
qed

lemma iso_range_day: "iso_range t \<Longrightarrow> day_from_year 100 \<le> t div day_ms \<and> t div day_ms < day_from_year 10000"
  unfolding iso_range_def
  using zdiv_mono1 [of "day_from_year 100 * day_ms" t day_ms] int_div_bounds(1) [of day_ms t]
  by (auto simp: mult.commute [of _ day_ms]) (smt (verit) day_ms_pos(1) mult_left_mono)

text \<open>The calendar fields of a date in the range, and the string they print to.\<close>

lemma iso_date_fields:
  assumes "iso_range t"
  obtains y m d where "civil (t div day_ms) = (y, m, d)" "100 \<le> y" "y < 10000" "1 \<le> m" "m \<le> 12"
    "1 \<le> d" "d \<le> 31" "format_utc_date t = pad4 y @ CHR ''-'' # pad2 m @ CHR ''-'' # pad2 d"
proof -
  obtain y m d where c: "civil (t div day_ms) = (y, m, d)" by (cases "civil (t div day_ms)")
  note f = civil_month [OF c]
  have y: "100 \<le> y" "y < 10000" using civil_year_range [OF c] iso_range_day [OF assms] by auto
  then have "format_utc_date t = pad4 y @ CHR ''-'' # pad2 m @ CHR ''-'' # pad2 d"
    by (simp add: format_utc_date_def c iso_year_def)
  with that [OF c] y f month_len_bounds [of "12 * y + m - 1"] show ?thesis by simp
qed

lemma to_utc_midnight_format:
  assumes "iso_range t"
  shows "to_utc_midnight (format_utc_date t) = Some (t div day_ms * day_ms)"
proof -
  from assms obtain y m d where c: "civil (t div day_ms) = (y, m, d)"
    and r: "100 \<le> y" "y < 10000" "1 \<le> m" "m \<le> 12" "1 \<le> d" "d \<le> 31"
    and s: "format_utc_date t = pad4 y @ CHR ''-'' # pad2 m @ CHR ''-'' # pad2 d"
    by (rule iso_date_fields)
  have "month_start (12 * y + (m - 1)) + d - 1 = t div day_ms"
    using civil_month(1) [OF c] by (simp add: add_diff_eq)
  with r show ?thesis
    by (simp add: to_utc_midnight_def s date_part_ymd date_utc_def full_year_def)
qed

lemma to_utc_midnight_format_midnight:
  "iso_range t \<Longrightarrow> midnight t \<Longrightarrow> to_utc_midnight (format_utc_date t) = Some t"
  by (simp add: to_utc_midnight_format midnight_def)

lemma format_utc_date_inj:
  assumes "iso_range s" "iso_range t" "midnight s" "midnight t"
  shows "format_utc_date s = format_utc_date t \<longleftrightarrow> s = t"
proof
  assume "format_utc_date s = format_utc_date t"
  then have "Some s = Some t"
    using to_utc_midnight_format_midnight assms by metis
  then show "s = t" by simp
qed simp

lemma to_utc_midnight_is_midnight: "to_utc_midnight s = Some t \<Longrightarrow> midnight t"
  by (auto simp: to_utc_midnight_def date_utc_def midnight_def split: option.splits)

text \<open>The midnight of a date literal, for concrete inputs.\<close>

definition day_of :: "string \<Rightarrow> int" where
  "day_of s = the (to_utc_midnight s)"

end
