(* ===== verification/Published_Day.thy ===== *)
theory Published_Day
  imports Preferences Js_Date "HOL-Library.Multiset"
begin

text \<open>
  What the published schedule says about a group on a calendar date:
  \<open>src/src/common/utils/published-day.util.ts\<close> (\<open>resolvePublishedDayEntries\<close>, the one
  resolver that display and enforcement share) and the legacy freeze of
  \<open>src/src/common/utils/published-snapshot.util.ts\<close>.
\<close>

section \<open>Stored rows\<close>

text \<open>
  A raw entry is a JSON snapshot element, a stored schedule entry or one read with its meal
  join; a field is \<open>None\<close> when it is absent, null or, for the date, unparseable.  Stored
  entries carry no meal block: a read joins the row of the meals table, which is a function
  argument (the foreign key is enforced, so every entry has one).
\<close>

record raw_meal =
  rm_slot_key :: string
  rm_name :: string
  rm_display_name :: "string option"
  rm_order :: "int option"
  rm_menu_items :: "string list option"
  rm_image_url :: "string option"
  rm_description :: "string option"
  rm_price :: "int option"
  rm_window_open :: "string option"
  rm_window_close :: "string option"

record pref_snapshot =
  ps_enabled :: bool
  ps_mode :: string
  ps_tags :: "string list"
  ps_groups :: "pref_group list"

record raw_entry =
  re_id :: "ident option"
  re_meal_id :: ident
  re_day_of_week :: "int option"
  re_date :: "int option"
  re_open_time :: "string option"
  re_close_time :: "string option"
  re_meal_name :: "string option"
  re_notes :: "string option"
  re_description :: "string option"
  re_image_url :: "string option"
  re_prefs_enabled :: "bool option"
  re_enabled_prefs :: "string list option"
  re_enabled_group_ids :: "ident list option"
  re_menu_items :: "string list option"
  re_price :: "int option"
  re_meal :: "raw_meal option"
  re_frozen :: "bool option"
  re_preference :: "pref_snapshot option"
  re_planner_mode :: "string option"

record schedule_row =
  sc_id :: ident
  sc_org :: ident
  sc_group :: ident
  sc_week_start :: int
  sc_is_published :: bool
  sc_published_at :: "int option"
  sc_snapshot :: "raw_entry list option"
  sc_entries :: "raw_entry list"

section \<open>Normalised entries\<close>

datatype planner_mode = Weekly | DayWise

record day_meal =
  dm_slot_key :: string
  dm_name :: string
  dm_display_name :: "string option"
  dm_order :: int
  dm_menu_items :: "string list"
  dm_image_url :: "string option"
  dm_description :: "string option"
  dm_price :: "int option"
  dm_window_open :: "string option"
  dm_window_close :: "string option"

record day_entry =
  de_meal_id :: ident
  de_open_time :: "string option"
  de_close_time :: "string option"
  de_meal_name :: "string option"
  de_description :: "string option"
  de_image_url :: "string option"
  de_prefs_enabled :: "bool option"
  de_enabled_prefs :: "string list"
  de_enabled_group_ids :: "ident list"
  de_menu_items :: "string list"
  de_price :: "int option"
  de_meal :: "day_meal option"
  de_frozen :: bool
  de_preference :: "pref_snapshot option"
  de_planner_mode :: "planner_mode option"

record norm_entry = day_entry +
  ne_day_of_week :: int
  ne_date_ms :: "int option"

definition normalize_meal :: "raw_meal option \<Rightarrow> day_meal option" where
  "normalize_meal m =
     map_option (\<lambda>r.
       \<lparr>dm_slot_key = rm_slot_key r, dm_name = rm_name r, dm_display_name = rm_display_name r,
        dm_order = nullish (rm_order r) 0, dm_menu_items = nullish (rm_menu_items r) [],
        dm_image_url = rm_image_url r, dm_description = rm_description r, dm_price = rm_price r,
        dm_window_open = rm_window_open r, dm_window_close = rm_window_close r\<rparr>) m"

definition normalize_entry :: "raw_entry \<Rightarrow> norm_entry" where
  "normalize_entry r =
     \<lparr>de_meal_id = re_meal_id r,
      de_open_time = re_open_time r, de_close_time = re_close_time r,
      de_meal_name = re_meal_name r, de_description = re_description r,
      de_image_url = re_image_url r, de_prefs_enabled = re_prefs_enabled r,
      de_enabled_prefs = nullish (re_enabled_prefs r) [],
      de_enabled_group_ids = nullish (re_enabled_group_ids r) [],
      de_menu_items = nullish (re_menu_items r) [],
      de_price = re_price r, de_meal = normalize_meal (re_meal r),
      de_frozen = (re_frozen r = Some True \<and> re_preference r \<noteq> None),
      de_preference = re_preference r,
      de_planner_mode =
        (if re_planner_mode r = Some ''WEEKLY'' then Some Weekly
         else if re_planner_mode r = Some ''DAY_WISE'' then Some DayWise else None),
      ne_day_of_week = nullish (re_day_of_week r) (-1),
      ne_date_ms = re_date r\<rparr>"

text \<open>\<open>include: meal\<close>: the live entries of a row with the master meal of each.\<close>

definition join_meal :: "(ident \<Rightarrow> raw_meal) \<Rightarrow> raw_entry \<Rightarrow> raw_entry" where
  "join_meal meals e = e\<lparr>re_meal := Some (meals (re_meal_id e))\<rparr>"

definition live_entries :: "(ident \<Rightarrow> raw_meal) \<Rightarrow> schedule_row \<Rightarrow> raw_entry list" where
  "live_entries meals row = map (join_meal meals) (sc_entries row)"

definition published_entries_of ::
  "(ident \<Rightarrow> raw_meal) \<Rightarrow> schedule_row option \<Rightarrow> norm_entry list" where
  "published_entries_of meals row =
     (case row of
        None \<Rightarrow> []
      | Some r \<Rightarrow>
          (case sc_snapshot r of
             Some (e # es) \<Rightarrow> map normalize_entry (e # es)
           | _ \<Rightarrow> map normalize_entry (live_entries meals r)))"

section \<open>Resolution\<close>

fun latest_before :: "int \<Rightarrow> norm_entry list \<Rightarrow> int option \<Rightarrow> int option" where
  "latest_before t [] baseline = baseline"
| "latest_before t (e # es) baseline =
     (case ne_date_ms e of
        None \<Rightarrow> latest_before t es baseline
      | Some d \<Rightarrow>
          if t \<le> d then latest_before t es baseline
          else if baseline = None \<or> the baseline < d then latest_before t es (Some d)
          else latest_before t es baseline)"

definition carry_forward_entries :: "norm_entry list \<Rightarrow> int \<Rightarrow> norm_entry list" where
  "carry_forward_entries candidates t =
     (case latest_before t candidates None of
        None \<Rightarrow> []
      | Some b \<Rightarrow> filter (\<lambda>e. ne_date_ms e = Some b) candidates)"

definition find_week_row :: "schedule_row list \<Rightarrow> ident \<Rightarrow> ident \<Rightarrow> int \<Rightarrow> schedule_row option" where
  "find_week_row rows gid org weekStart =
     find (\<lambda>r. sc_group r = gid \<and> sc_org r = org \<and> sc_week_start r = weekStart
              \<and> sc_published_at r \<noteq> None) rows"

definition find_latest_row :: "schedule_row list \<Rightarrow> ident \<Rightarrow> ident \<Rightarrow> schedule_row option" where
  "find_latest_row rows gid org =
     (case sort_key (\<lambda>r. - sc_week_start r)
             (filter (\<lambda>r. sc_group r = gid \<and> sc_org r = org \<and> sc_published_at r \<noteq> None) rows) of
        [] \<Rightarrow> None
      | r # _ \<Rightarrow> Some r)"

text \<open>
  \<open>group_reader\<close> is the optional \<open>prisma.group.findFirst\<close>: \<open>None\<close> when the delegate has
  no such method, otherwise the group's live \<open>dayWiseMealsEnabled\<close> flag (\<open>None\<close> for no
  group or a null flag).
\<close>

type_synonym group_reader = "(ident \<Rightarrow> ident \<Rightarrow> bool option) option"

definition day_of_week :: "int \<Rightarrow> int" where
  "day_of_week t = ((t div day_ms + 4) mod 7 + 6) mod 7"

definition step_entries ::
  "(ident \<Rightarrow> raw_meal) \<Rightarrow> schedule_row list \<Rightarrow> ident \<Rightarrow> ident \<Rightarrow> int \<Rightarrow> schedule_row option \<times> schedule_row option \<times> norm_entry list" where
  "step_entries meals rows gid org t =
     (let dow = day_of_week t;
          weekRow = find_week_row rows gid org (t - dow * day_ms);
          exact = filter (\<lambda>e. ne_date_ms e = Some t) (published_entries_of meals weekRow)
      in if exact = [] then
           let latestRow = find_latest_row rows gid org
           in (weekRow, latestRow, filter (\<lambda>e. ne_day_of_week e = dow) (published_entries_of meals latestRow))
         else (weekRow, None, exact))"

definition carries :: "group_reader \<Rightarrow> ident \<Rightarrow> ident \<Rightarrow> bool option \<Rightarrow> norm_entry list \<Rightarrow> bool" where
  "carries reader gid org day_wise carried =
     (case find (\<lambda>e. de_planner_mode e \<noteq> None) carried of
        Some e \<Rightarrow> de_planner_mode e = Some DayWise
      | None \<Rightarrow>
          (case day_wise of
             Some b \<Rightarrow> b
           | None \<Rightarrow> (case reader of None \<Rightarrow> False | Some read \<Rightarrow> read gid org = Some True)))"

definition governing_entries ::
  "(ident \<Rightarrow> raw_meal) \<Rightarrow> schedule_row list \<Rightarrow> group_reader \<Rightarrow> ident \<Rightarrow> ident \<Rightarrow> int \<Rightarrow> bool option \<Rightarrow> norm_entry list" where
  "governing_entries meals rows reader gid org t day_wise =
     (case step_entries meals rows gid org t of
        (weekRow, latestRow, entries) \<Rightarrow>
          if entries = [] then
            let carried = carry_forward_entries
                            (published_entries_of meals weekRow @ published_entries_of meals latestRow) t
            in if carried \<noteq> [] \<and> carries reader gid org day_wise carried then carried else entries
          else entries)"

text \<open>The final loop: the entry without its two resolver fields, last one per meal wins.\<close>

fun entry_map :: "norm_entry list \<Rightarrow> (ident \<times> day_entry) list \<Rightarrow> (ident \<times> day_entry) list" where
  "entry_map [] m = m"
| "entry_map (e # es) m =
     entry_map es (AList.update (de_meal_id e) (day_entry.truncate e) m)"

definition resolve_published_day ::
  "(ident \<Rightarrow> raw_meal) \<Rightarrow> schedule_row list \<Rightarrow> group_reader \<Rightarrow> ident \<Rightarrow> ident \<Rightarrow> string \<Rightarrow> bool option
     \<Rightarrow> exn + (ident \<times> day_entry) list" where
  "resolve_published_day meals rows reader gid org dateStr day_wise =
     (case to_utc_midnight dateStr of
        None \<Rightarrow> Inl BadDate
      | Some t \<Rightarrow> Inr (entry_map (governing_entries meals rows reader gid org t day_wise) []))"

section \<open>Freezing a legacy published row\<close>

text \<open>
  \<open>toSnapshotEntry\<close> copies an entry to its JSON form; \<open>toISOString\<close> and \<open>new Date\<close> are
  inverse on dates, so the date field is kept.  The configuration marker, the frozen
  preference block and the planner mode are not copied.
\<close>

definition to_snapshot_meal :: "raw_meal \<Rightarrow> raw_meal" where
  "to_snapshot_meal m = m\<lparr>rm_order := Some (nullish (rm_order m) 0),
     rm_menu_items := Some (nullish (rm_menu_items m) [])\<rparr>"

definition to_snapshot_entry :: "raw_entry \<Rightarrow> raw_entry" where
  "to_snapshot_entry e =
     e\<lparr>re_enabled_prefs := Some (nullish (re_enabled_prefs e) []),
       re_enabled_group_ids := Some (nullish (re_enabled_group_ids e) []),
       re_menu_items := Some (nullish (re_menu_items e) []),
       re_meal := map_option to_snapshot_meal (re_meal e),
       re_frozen := None, re_preference := None, re_planner_mode := None\<rparr>"

definition entry_order :: "raw_entry \<Rightarrow> int" where
  "entry_order e = nullish (re_day_of_week e) (-1)"

text \<open>
  \<open>by_meal\<close> orders rows by meal id, the second key of the query; the database's
  collation is a parameter of the model (any order of the rows with one day of week).
\<close>

definition freeze_legacy_snapshot ::
  "(ident \<Rightarrow> raw_meal) \<Rightarrow> (raw_entry \<Rightarrow> int) \<Rightarrow> schedule_row \<Rightarrow> schedule_row" where
  "freeze_legacy_snapshot meals by_meal row =
     (if sc_published_at row = None then row
      else
        (case sc_snapshot row of
           Some (e # es) \<Rightarrow> row
         | _ \<Rightarrow>
             (let live = sort_key entry_order (sort_key by_meal (live_entries meals row))
              in if live = [] then row
                 else row\<lparr>sc_snapshot := Some (map to_snapshot_entry live)\<rparr>)))"

section \<open>The last entry per meal\<close>

text \<open>Entries whose meals are pairwise consistent are determined by their set.\<close>

definition one_per_meal :: "norm_entry list \<Rightarrow> bool" where
  "one_per_meal es \<longleftrightarrow> (\<forall>e\<in>set es. \<forall>e'\<in>set es. de_meal_id e = de_meal_id e' \<longrightarrow> e = e')"

definition last_for :: "norm_entry list \<Rightarrow> ident \<Rightarrow> norm_entry option" where
  "last_for es m = find (\<lambda>e. de_meal_id e = m) (rev es)"

lemma map_of_entry_map:
  "map_of (entry_map es acc) m =
     (case last_for es m of None \<Rightarrow> map_of acc m | Some e \<Rightarrow> Some (day_entry.truncate e))"
  by (induction es acc rule: entry_map.induct)
    (auto simp: last_for_def update_conv' find_append_case split: option.splits)

lemma distinct_entry_map: "distinct (map fst acc) \<Longrightarrow> distinct (map fst (entry_map es acc))"
  by (induction es acc rule: entry_map.induct) (auto simp: distinct_update)

lemma entry_map_cong_set:
  assumes "one_per_meal es" and "set es = set es'"
  shows "map_of (entry_map es []) = map_of (entry_map es' [])"
proof
  fix m
  have "last_for es m = last_for es' m"
  proof (cases "last_for es m")
    case None
    then have "\<forall>e\<in>set es'. de_meal_id e \<noteq> m"
      using assms(2) by (auto simp: last_for_def find_None_iff_none)
    then have "last_for es' m = None" by (simp add: last_for_def find_None_iff_none)
    with None show ?thesis by simp
  next
    case (Some e)
    then have e: "e \<in> set es" "de_meal_id e = m"
      by (auto simp: last_for_def dest: find_SomeD)
    have "last_for es' m \<noteq> None"
      using assms(2) e by (auto simp: last_for_def find_None_iff_none)
    then obtain e' where e': "last_for es' m = Some e'" by blast
    then have "e' \<in> set (rev es') \<and> de_meal_id e' = m"
      unfolding last_for_def by (rule find_SomeD)
    then have "e' \<in> set es" "de_meal_id e' = m"
      using assms(2) by simp_all
    with e assms(1) have "e = e'" by (auto simp: one_per_meal_def)
    with Some e' show ?thesis by simp
  qed
  then show "map_of (entry_map es []) m = map_of (entry_map es' []) m"
    by (simp add: map_of_entry_map)
qed

section \<open>Carry-forward baselines\<close>

definition past_dates :: "int \<Rightarrow> norm_entry list \<Rightarrow> int set" where
  "past_dates t es = {d. d < t \<and> (\<exists>e\<in>set es. ne_date_ms e = Some d)}"

lemma past_dates_simps [simp]:
  "past_dates t [] = {}"
  "past_dates t (e # es) =
     (case ne_date_ms e of
        Some d \<Rightarrow> if d < t then insert d (past_dates t es) else past_dates t es
      | None \<Rightarrow> past_dates t es)"
  by (auto simp: past_dates_def split: option.splits)

lemma finite_past_dates [simp]: "finite (past_dates t es)"
  by (induction es) (auto split: option.splits)

lemma latest_before_Max:
  "latest_before t es b =
     (if past_dates t es \<union> set_option b = {} then None
      else Some (Max (past_dates t es \<union> set_option b)))"
proof (induction t es b rule: latest_before.induct)
  case (1 t b)
  then show ?case by (cases b) auto
next
  case (2 t e es b)
  show ?case
  proof (cases "ne_date_ms e")
    case None
    then show ?thesis using 2(1) by simp
  next
    case (Some d)
    show ?thesis
    proof (cases b)
      case None
      then show ?thesis using Some 2 by simp
    next
      case (Some c)
      have absorb: "Max (insert d (insert c A)) = Max (insert (max d c) A)" if "finite A" for A :: "int set"
        using that by (cases "A = {}") (simp_all add: max.assoc)
      show ?thesis
      proof (cases "t \<le> d")
        case True
        then show ?thesis using Some \<open>ne_date_ms e = Some d\<close> 2 by simp
      next
        case False
        then show ?thesis
          using Some \<open>ne_date_ms e = Some d\<close> 2 absorb [of "past_dates t es"]
          by (cases "c < d") (simp_all add: insert_commute)
      qed
    qed
  qed
qed

lemma latest_before_None: "latest_before t es None = None \<longleftrightarrow> past_dates t es = {}"
  by (simp add: latest_before_Max)

lemma latest_before_SomeD:
  assumes "latest_before t es None = Some b"
  shows "b < t" and "\<exists>e\<in>set es. ne_date_ms e = Some b"
    and "\<And>e d. e \<in> set es \<Longrightarrow> ne_date_ms e = Some d \<Longrightarrow> d < t \<Longrightarrow> d \<le> b"
proof -
  have ne: "past_dates t es \<noteq> {}" and b: "b = Max (past_dates t es)"
    using assms by (auto simp: latest_before_Max split: if_splits)
  then have "b \<in> past_dates t es" by simp
  then show "b < t" and "\<exists>e\<in>set es. ne_date_ms e = Some b" by (auto simp: past_dates_def)
  show "d \<le> b" if "e \<in> set es" "ne_date_ms e = Some d" "d < t" for e d
  proof -
    have "d \<in> past_dates t es" using that by (auto simp: past_dates_def)
    then show ?thesis using b by simp
  qed
qed

lemma latest_before_cong: "set es = set es' \<Longrightarrow> latest_before t es b = latest_before t es' b"
  by (simp add: latest_before_Max past_dates_def)

section \<open>Stores that publish the same thing\<close>

text \<open>
  Two published views are interchangeable when they are equal, or when one reorders the
  other and neither records a planner mode (a legacy row before and after its freeze).
\<close>

definition same_view :: "norm_entry list \<Rightarrow> norm_entry list \<Rightarrow> bool" where
  "same_view v v' \<longleftrightarrow>
     v = v' \<or> (mset v = mset v' \<and> (\<forall>e\<in>set v. de_planner_mode e = None))"

definition same_row ::
  "(ident \<Rightarrow> raw_meal) \<Rightarrow> (ident \<Rightarrow> raw_meal) \<Rightarrow> schedule_row \<Rightarrow> schedule_row \<Rightarrow> bool" where
  "same_row meals meals' r r' \<longleftrightarrow>
     sc_group r = sc_group r' \<and> sc_org r = sc_org r' \<and> sc_week_start r = sc_week_start r'
     \<and> (sc_published_at r = None \<longleftrightarrow> sc_published_at r' = None)
     \<and> (sc_published_at r \<noteq> None \<longrightarrow>
          same_view (published_entries_of meals (Some r)) (published_entries_of meals' (Some r')))"

definition opt_view ::
  "(ident \<Rightarrow> raw_meal) \<Rightarrow> (ident \<Rightarrow> raw_meal) \<Rightarrow> schedule_row option \<Rightarrow> schedule_row option \<Rightarrow> bool" where
  "opt_view meals meals' o1 o2 \<longleftrightarrow>
     same_view (published_entries_of meals o1) (published_entries_of meals' o2)"

lemma same_view_refl [simp]: "same_view v v"
  by (simp add: same_view_def)

lemma same_view_set: "same_view v v' \<Longrightarrow> set v = set v'"
  by (auto simp: same_view_def dest: mset_eq_setD)

lemma published_entries_None [simp]: "published_entries_of meals None = []"
  by (simp add: published_entries_of_def)

lemma list_all2_find:
  assumes "list_all2 R xs ys" and "\<And>x y. R x y \<Longrightarrow> P x = P y"
  shows "rel_option (\<lambda>x y. R x y \<and> P x) (find P xs) (find P ys)"
  using assms(1) by (induction rule: list_all2_induct) (auto simp: assms(2))

lemma list_all2_filter:
  assumes "list_all2 R xs ys" and "\<And>x y. R x y \<Longrightarrow> P x = P y"
  shows "list_all2 (\<lambda>x y. R x y \<and> P x) (filter P xs) (filter P ys)"
  using assms(1) by (induction rule: list_all2_induct) (auto simp: assms(2))

lemma list_all2_insort:
  assumes "list_all2 R xs ys" and "R x y" and "\<And>x y. R x y \<Longrightarrow> f x = f y"
  shows "list_all2 R (insort_key f x xs) (insort_key f y ys)"
  using assms(1)
proof (induction rule: list_all2_induct)
  case Nil
  then show ?case using assms(2) by simp
next
  case (Cons a xs b ys)
  then show ?case using assms(2) assms(3) [of a b] assms(3) [of x y] by simp
qed

lemma list_all2_sort:
  assumes "list_all2 R xs ys" and "\<And>x y. R x y \<Longrightarrow> f x = f y"
  shows "list_all2 R (sort_key f xs) (sort_key f ys)"
  using assms(1)
proof (induction rule: list_all2_induct)
  case Nil
  then show ?case by simp
next
  case (Cons x xs y ys)
  then have "list_all2 R (insort_key f x (sort_key f xs)) (insort_key f y (sort_key f ys))"
    by (intro list_all2_insort assms(2)) auto
  then show ?case by (simp add: sort_key_def)
qed

lemma find_week_row_view:
  assumes "list_all2 (same_row meals meals') rows rows'"
  shows "opt_view meals meals' (find_week_row rows gid org w) (find_week_row rows' gid org w)"
proof -
  have "rel_option (\<lambda>x y. same_row meals meals' x y \<and> sc_group x = gid \<and> sc_org x = org
      \<and> sc_week_start x = w \<and> sc_published_at x \<noteq> None)
      (find_week_row rows gid org w) (find_week_row rows' gid org w)"
    unfolding find_week_row_def using assms by (rule list_all2_find) (auto simp: same_row_def)
  then show ?thesis by (auto simp: option_rel_Some1 opt_view_def same_row_def elim!: option.rel_cases)
qed

lemma find_latest_row_view:
  assumes "list_all2 (same_row meals meals') rows rows'"
  shows "opt_view meals meals' (find_latest_row rows gid org) (find_latest_row rows' gid org)"
proof -
  let ?P = "\<lambda>r. sc_group r = gid \<and> sc_org r = org \<and> sc_published_at r \<noteq> None"
  have "list_all2 (\<lambda>x y. same_row meals meals' x y \<and> ?P x) (filter ?P rows) (filter ?P rows')"
    using assms by (rule list_all2_filter) (auto simp: same_row_def)
  then have "list_all2 (\<lambda>x y. same_row meals meals' x y \<and> ?P x)
      (sort_key (\<lambda>r. - sc_week_start r) (filter ?P rows))
      (sort_key (\<lambda>r. - sc_week_start r) (filter ?P rows'))"
    by (rule list_all2_sort) (auto simp: same_row_def)
  then show ?thesis
    unfolding find_latest_row_def opt_view_def
    by (auto simp: same_row_def list_all2_Cons1 split: list.splits)
qed

text \<open>Interchangeable views pass through each stage of the resolver.\<close>

lemma same_view_filter: "same_view v v' \<Longrightarrow> same_view (filter P v) (filter P v')"
  by (auto simp: same_view_def)

lemma find_mode_same_view:
  assumes "same_view v v'"
  shows "find (\<lambda>e. de_planner_mode e \<noteq> None) v = find (\<lambda>e. de_planner_mode e \<noteq> None) v'"
proof (cases "v = v'")
  case False
  then have "\<forall>e\<in>set v. de_planner_mode e = None" "set v' = set v"
    using assms by (auto simp: same_view_def dest: mset_eq_setD)
  then have "find (\<lambda>e. de_planner_mode e \<noteq> None) v = None" "find (\<lambda>e. de_planner_mode e \<noteq> None) v' = None"
    by (simp_all add: find_None_iff_none)
  then show ?thesis by simp
qed simp

lemma carries_cong:
  assumes "same_view v1 v1'" and "same_view v2 v2'"
  shows "carries reader gid org dw (v1 @ v2) = carries reader gid org dw (v1' @ v2')"
  unfolding carries_def find_append_case find_mode_same_view [OF assms(1)]
    find_mode_same_view [OF assms(2)] ..

lemma carry_forward_split:
  "carry_forward_entries (v1 @ v2) t =
     (case latest_before t (v1 @ v2) None of
        None \<Rightarrow> []
      | Some b \<Rightarrow> filter (\<lambda>e. ne_date_ms e = Some b) v1 @ filter (\<lambda>e. ne_date_ms e = Some b) v2)"
  by (simp add: carry_forward_entries_def split: option.splits)

definition step_rel where
  "step_rel meals meals' s s' \<longleftrightarrow>
     (case s of (w, l, es) \<Rightarrow> case s' of (w', l', es') \<Rightarrow>
        opt_view meals meals' w w' \<and> opt_view meals meals' l l' \<and> same_view es es')"

lemma step_entries_rel:
  assumes "list_all2 (same_row meals meals') rows rows'"
  shows "step_rel meals meals' (step_entries meals rows gid org t) (step_entries meals' rows' gid org t)"
proof -
  let ?w = "find_week_row rows gid org (t - day_of_week t * day_ms)"
  let ?w' = "find_week_row rows' gid org (t - day_of_week t * day_ms)"
  let ?ex = "\<lambda>e::norm_entry. ne_date_ms e = Some t"
  have w: "opt_view meals meals' ?w ?w'"
    using assms by (rule find_week_row_view)
  then have ex: "same_view (filter ?ex (published_entries_of meals ?w)) (filter ?ex (published_entries_of meals' ?w'))"
    unfolding opt_view_def by (rule same_view_filter)
  have l: "opt_view meals meals' (find_latest_row rows gid org) (find_latest_row rows' gid org)"
    using assms by (rule find_latest_row_view)
  then have ld: "same_view (filter (\<lambda>e. ne_day_of_week e = day_of_week t) (published_entries_of meals (find_latest_row rows gid org)))
      (filter (\<lambda>e. ne_day_of_week e = day_of_week t) (published_entries_of meals' (find_latest_row rows' gid org)))"
    unfolding opt_view_def by (rule same_view_filter)
  have none: "opt_view meals meals' None None" by (simp add: opt_view_def)
  have "filter ?ex (published_entries_of meals ?w) = [] \<longleftrightarrow> filter ?ex (published_entries_of meals' ?w') = []"
    using same_view_set [OF ex] by (metis set_empty)
  then show ?thesis
    using w ex l ld none by (auto simp: step_entries_def step_rel_def Let_def)
qed

lemma governing_rel:
  assumes "list_all2 (same_row meals meals') rows rows'"
  shows "set (governing_entries meals rows reader gid org t dw)
       = set (governing_entries meals' rows' reader gid org t dw)"
proof -
  obtain w l es where s: "step_entries meals rows gid org t = (w, l, es)" by (cases "step_entries meals rows gid org t")
  obtain w' l' es' where s': "step_entries meals' rows' gid org t = (w', l', es')"
    by (cases "step_entries meals' rows' gid org t")
  have w: "same_view (published_entries_of meals w) (published_entries_of meals' w')"
    and l: "same_view (published_entries_of meals l) (published_entries_of meals' l')"
    and es: "same_view es es'"
    using step_entries_rel [OF assms, of gid org t] by (simp_all add: s s' step_rel_def opt_view_def)
  let ?c = "published_entries_of meals w @ published_entries_of meals l"
  let ?c' = "published_entries_of meals' w' @ published_entries_of meals' l'"
  have b: "latest_before t ?c None = latest_before t ?c' None"
    by (rule latest_before_cong) (simp add: same_view_set [OF w] same_view_set [OF l])
  have sets: "set (carry_forward_entries ?c t) = set (carry_forward_entries ?c' t)"
    using same_view_set [OF w] same_view_set [OF l] by (simp add: carry_forward_split b split: option.splits)
  have "carries reader gid org dw (carry_forward_entries ?c t)
      = carries reader gid org dw (carry_forward_entries ?c' t)"
    by (simp add: carry_forward_split b carries_cong [OF same_view_filter [OF w] same_view_filter [OF l]]
        split: option.splits)
  moreover have "es = [] \<longleftrightarrow> es' = []" using same_view_set [OF es] by (metis set_empty)
  moreover have "carry_forward_entries ?c t = [] \<longleftrightarrow> carry_forward_entries ?c' t = []"
    using sets by (metis set_empty)
  ultimately show ?thesis
    using sets same_view_set [OF es] by (auto simp: governing_entries_def s s' Let_def)
qed

lemma resolve_same_view:
  assumes "list_all2 (same_row meals meals') rows rows'"
    and "one_per_meal (governing_entries meals rows reader gid org t dw)"
    and "to_utc_midnight ds = Some t"
    and "resolve_published_day meals rows reader gid org ds dw = Inr m"
    and "resolve_published_day meals' rows' reader gid org ds dw = Inr m'"
  shows "map_of m = map_of m'"
  using entry_map_cong_set [OF assms(2) governing_rel [OF assms(1), of reader gid org t dw]] assms(3-5)
  by (auto simp: resolve_published_day_def)

section \<open>Which entries govern a day\<close>

definition unique_weeks :: "schedule_row list \<Rightarrow> bool" where
  "unique_weeks rows \<longleftrightarrow> distinct (map (\<lambda>r. (sc_group r, sc_week_start r)) rows)"

lemma find_week_row_unique:
  assumes "unique_weeks rows" "r \<in> set rows" "sc_published_at r \<noteq> None"
  shows "find_week_row rows (sc_group r) (sc_org r) (sc_week_start r) = Some r"
proof -
  have "find_week_row rows (sc_group r) (sc_org r) (sc_week_start r) \<noteq> None"
    using assms(2,3) by (auto simp: find_week_row_def find_None_iff_none)
  then obtain r' where r': "find_week_row rows (sc_group r) (sc_org r) (sc_week_start r) = Some r'" by blast
  then have "r' \<in> set rows" "sc_group r' = sc_group r" "sc_week_start r' = sc_week_start r"
    by (auto simp: find_week_row_def dest: find_SomeD)
  then have "r' = r"
    using assms(1,2) by (auto simp: unique_weeks_def distinct_map inj_on_def)
  with r' show ?thesis by simp
qed

text \<open>
  The exact published day wins: when the group's published row of the week holds
  entries dated that day, the day resolves to them alone.  Later weeks, the planner
  mode, the group's live flag and every unpublished row are irrelevant.
\<close>

lemma exact_published_day_wins:
  assumes "unique_weeks rows" and "r \<in> set rows" and "sc_published_at r \<noteq> None"
    and "to_utc_midnight ds = Some t"
    and "sc_week_start r = t - day_of_week t * day_ms"
    and "e \<in> set (published_entries_of meals (Some r))" and "ne_date_ms e = Some t"
  shows "resolve_published_day meals rows reader (sc_group r) (sc_org r) ds day_wise
      = Inr (entry_map (filter (\<lambda>e. ne_date_ms e = Some t) (published_entries_of meals (Some r))) [])"
proof -
  have "find_week_row rows (sc_group r) (sc_org r) (t - day_of_week t * day_ms) = Some r"
    using find_week_row_unique [OF assms(1-3)] assms(5) by simp
  moreover have "filter (\<lambda>e. ne_date_ms e = Some t) (published_entries_of meals (Some r)) \<noteq> []"
    using assms(6,7) by (auto simp: filter_empty_conv)
  ultimately show ?thesis
    using assms(4) by (simp add: resolve_published_day_def governing_entries_def step_entries_def Let_def)
qed

definition sample_entry :: "ident \<Rightarrow> string \<Rightarrow> raw_entry" where
  "sample_entry m ds =
     \<lparr>re_id = None, re_meal_id = m, re_day_of_week = map_option day_of_week (to_utc_midnight ds),
      re_date = to_utc_midnight ds, re_open_time = None, re_close_time = None, re_meal_name = None,
      re_notes = None, re_description = None, re_image_url = None, re_prefs_enabled = None,
      re_enabled_prefs = None, re_enabled_group_ids = None, re_menu_items = None, re_price = Some 60,
      re_meal = None, re_frozen = None, re_preference = None, re_planner_mode = None\<rparr>"

definition sample_row :: "ident \<Rightarrow> string \<Rightarrow> raw_entry list option \<Rightarrow> raw_entry list \<Rightarrow> schedule_row" where
  "sample_row i ws snap es =
     \<lparr>sc_id = i, sc_org = ''o'', sc_group = ''g'', sc_week_start = the (to_utc_midnight ws),
      sc_is_published = True, sc_published_at = Some 0, sc_snapshot = snap, sc_entries = es\<rparr>"

definition sample_meals :: "ident \<Rightarrow> raw_meal" where
  "sample_meals m =
     \<lparr>rm_slot_key = ''lunch'', rm_name = m, rm_display_name = None, rm_order = Some 1,
      rm_menu_items = None, rm_image_url = None, rm_description = None, rm_price = Some 50,
      rm_window_open = Some ''12:00'', rm_window_close = Some ''14:00''\<rparr>"

definition sample_week :: schedule_row where
  "sample_week = sample_row ''s1'' ''2026-07-06'' None
     [sample_entry ''m1'' ''2026-07-06'', sample_entry ''m2'' ''2026-07-09'']"

definition sample_next_week :: schedule_row where
  "sample_next_week = sample_row ''s2'' ''2026-07-13'' None [sample_entry ''m3'' ''2026-07-15'']"

text \<open>
  Carry-forward serves the latest published day strictly before the requested one:
  an entry that governs a day without entries of its own is dated before that day, no
  entry of the two published rows read is dated between, and the published mode (or, for
  legacy data, the live flag) is Day-Wise.  A day is never filled from a future one.
\<close>

lemma carried_entry_is_latest_past:
  assumes "step_entries meals rows gid org t = (w, l, [])"
    and "e \<in> set (governing_entries meals rows reader gid org t day_wise)"
  shows "\<exists>b. ne_date_ms e = Some b \<and> b < t
      \<and> e \<in> set (published_entries_of meals w @ published_entries_of meals l)
      \<and> (\<forall>e'\<in>set (published_entries_of meals w @ published_entries_of meals l).
           \<forall>d. ne_date_ms e' = Some d \<and> d < t \<longrightarrow> d \<le> b)
      \<and> carries reader gid org day_wise
           (filter (\<lambda>x. ne_date_ms x = Some b) (published_entries_of meals w @ published_entries_of meals l))"
proof -
  let ?c = "published_entries_of meals w @ published_entries_of meals l"
  have e: "e \<in> set (carry_forward_entries ?c t)" and c: "carries reader gid org day_wise (carry_forward_entries ?c t)"
    using assms by (auto simp: governing_entries_def Let_def split: if_splits)
  then obtain b where b: "latest_before t ?c None = Some b"
    by (auto simp: carry_forward_entries_def split: option.splits)
  have "carry_forward_entries ?c t = filter (\<lambda>x. ne_date_ms x = Some b) ?c"
    using b by (simp add: carry_forward_entries_def)
  with e c have "e \<in> set (filter (\<lambda>x. ne_date_ms x = Some b) ?c)"
    and "carries reader gid org day_wise (filter (\<lambda>x. ne_date_ms x = Some b) ?c)"
    by simp_all
  with latest_before_SomeD [OF b] show ?thesis
    by (intro exI [of _ b]) (simp del: set_append filter_append)
qed

text \<open>
  A published Weekly baseline is never carried: a day for which the published
  weeks hold nothing stays empty, whatever the group's live planner flag says.
\<close>

lemma weekly_empty_day_stays_empty:
  assumes "to_utc_midnight ds = Some t"
    and "step_entries meals rows gid org t = (w, l, [])"
    and "\<forall>e\<in>set (published_entries_of meals w @ published_entries_of meals l). de_planner_mode e = Some Weekly"
  shows "resolve_published_day meals rows reader gid org ds day_wise = Inr []"
proof -
  let ?c = "published_entries_of meals w @ published_entries_of meals l"
  have "set (carry_forward_entries ?c t) \<subseteq> set ?c"
    by (auto simp: carry_forward_entries_def split: option.splits)
  then have weekly: "\<forall>e\<in>set (carry_forward_entries ?c t). de_planner_mode e = Some Weekly"
    using assms(3) by blast
  have "\<not> carries reader gid org day_wise (carry_forward_entries ?c t)" if "carry_forward_entries ?c t \<noteq> []"
    using that weekly by (cases "carry_forward_entries ?c t") (auto simp: carries_def)
  then show ?thesis
    using assms(1,2) by (auto simp: resolve_published_day_def governing_entries_def Let_def)
qed

definition weekly_week :: schedule_row where
  "weekly_week = sample_row ''s1'' ''2026-07-06''
     (Some [(sample_entry ''m1'' ''2026-07-06'')\<lparr>re_planner_mode := Some ''WEEKLY''\<rparr>]) []"

text \<open>
  The weekday fallback reads the latest published week, which may lie after the requested
  one: a Weekly day published without meals takes the entries of a later published week.
\<close>

definition holiday_week :: schedule_row where
  "holiday_week = sample_row ''s1'' ''2026-07-06''
     (Some [(sample_entry ''m1'' ''2026-07-06'')\<lparr>re_planner_mode := Some ''WEEKLY''\<rparr>]) []"

definition later_week :: schedule_row where
  "later_week = sample_row ''s2'' ''2026-07-13''
     (Some [(sample_entry ''m2'' ''2026-07-15'')\<lparr>re_planner_mode := Some ''WEEKLY''\<rparr>]) []"

lemma holiday_filled_from_later_week:
  "resolve_published_day sample_meals [holiday_week] None ''g'' ''o'' ''2026-07-08'' None = Inr []
   \<and> map_option (map fst) (case resolve_published_day sample_meals [holiday_week, later_week] None
        ''g'' ''o'' ''2026-07-08'' None of Inr m \<Rightarrow> Some m | Inl _ \<Rightarrow> None) = Some [''m2'']"
  by code_simp

end
