(* ===== verification/Windows.thy ===== *)
theory Windows
  imports Js_Date
begin

text \<open>
  Clock strings and attendance windows: \<open>src/src/common/utils/date.utils.ts\<close>
  (\<open>isWithinWindow\<close>, \<open>getWindowState\<close>), \<open>entry-chrono.util.ts\<close> (\<open>hhmmToMinutes\<close>) and
  \<open>window-conflict.util.ts\<close> (\<open>assertMealWindowsValid\<close>).  A number that may be \<open>NaN\<close>
  is an \<^typ>\<open>int option\<close>, with the comparisons of JavaScript: any comparison with
  \<open>NaN\<close> is false.
\<close>

section \<open>Comparisons with NaN\<close>

definition js_lt :: "int option \<Rightarrow> int option \<Rightarrow> bool" where
  "js_lt a b = (case (a, b) of (Some x, Some y) \<Rightarrow> x < y | _ \<Rightarrow> False)"

definition js_ge :: "int option \<Rightarrow> int option \<Rightarrow> bool" where
  "js_ge a b = (case (a, b) of (Some x, Some y) \<Rightarrow> y \<le> x | _ \<Rightarrow> False)"

definition js_plus :: "int option \<Rightarrow> int \<Rightarrow> int option" where
  "js_plus a n = map_option (\<lambda>x. x + n) a"

lemma js_cmp_simps [simp]:
  "js_lt (Some x) (Some y) = (x < y)" "js_lt None b = False" "js_lt a None = False"
  "js_ge (Some x) (Some y) = (y \<le> x)" "js_ge None b = False" "js_ge a None = False"
  "js_plus (Some x) n = Some (x + n)" "js_plus None n = None"
  by (auto simp: js_lt_def js_ge_def js_plus_def split: option.splits)

section \<open>Clock strings\<close>

text \<open>
  \<open>hhmmToMinutesSinceMidnight\<close> takes the first two parts of \<open>split(':')\<close> and
  yields \<open>NaN\<close> when one is missing or not a number.
\<close>

definition hhmm_to_minutes_since_midnight :: "string \<Rightarrow> int option" where
  "hhmm_to_minutes_since_midnight t =
     (case map js_number (js_split (CHR '':'') t) of
        Some h # Some m # _ \<Rightarrow> Some (h * 60 + m)
      | _ \<Rightarrow> None)"

text \<open>The match of \<open>/^(\d{1,2}):(\d{2})$/\<close>, with the two numbers it captures.\<close>

definition match_hhmm :: "string \<Rightarrow> (int \<times> int) option" where
  "match_hhmm s =
     (case js_split (CHR '':'') s of
        [hh, mm] \<Rightarrow>
          if (length hh = 1 \<or> length hh = 2) \<and> length mm = 2 then
            (case (js_number hh, js_number mm) of
               (Some h, Some m) \<Rightarrow> Some (h, m)
             | _ \<Rightarrow> None)
          else None
      | _ \<Rightarrow> None)"

text \<open>\<open>hhmmToMinutes\<close> of \<open>entry-chrono.util.ts\<close>: 1440 for anything that is not a time of day.\<close>

definition invalid_minutes :: int where
  "invalid_minutes = 24 * 60"

definition entry_hhmm_to_minutes :: "string option \<Rightarrow> int" where
  "entry_hhmm_to_minutes t =
     (case t of
        None \<Rightarrow> invalid_minutes
      | Some s \<Rightarrow>
          (case match_hhmm s of
             None \<Rightarrow> invalid_minutes
           | Some (h, m) \<Rightarrow> if 23 < h \<or> 59 < m then invalid_minutes else h * 60 + m))"

section \<open>Window states\<close>

datatype window_state = Upcoming | Open | Grace | Closed

definition is_within_window :: "string \<Rightarrow> string \<Rightarrow> string \<Rightarrow> int \<Rightarrow> bool" where
  "is_within_window time open close grace =
     (let t = hhmm_to_minutes_since_midnight time;
          o' = hhmm_to_minutes_since_midnight open;
          c = hhmm_to_minutes_since_midnight close
      in js_ge t o' \<and> js_lt t (js_plus c (max 0 grace)))"

definition get_window_state :: "string \<Rightarrow> string option \<Rightarrow> string option \<Rightarrow> int \<Rightarrow> window_state" where
  "get_window_state time open close grace =
     (if \<not> truthy open \<or> \<not> truthy close then Open
      else
        let t = hhmm_to_minutes_since_midnight time;
            o' = hhmm_to_minutes_since_midnight (the open);
            c = hhmm_to_minutes_since_midnight (the close);
            g = max 0 grace
        in if js_lt t o' then Upcoming
           else if js_lt t c then Open
           else if js_lt t (js_plus c g) then Grace
           else Closed)"

text \<open>The states in the order a day passes through them.\<close>

fun window_rank :: "window_state \<Rightarrow> nat" where
  "window_rank Upcoming = 0"
| "window_rank Open = 1"
| "window_rank Grace = 2"
| "window_rank Closed = 3"

instantiation window_state :: linorder
begin

definition less_eq_window_state :: "window_state \<Rightarrow> window_state \<Rightarrow> bool" where
  "less_eq_window_state a b = (window_rank a \<le> window_rank b)"

definition less_window_state :: "window_state \<Rightarrow> window_state \<Rightarrow> bool" where
  "less_window_state a b = (window_rank a < window_rank b)"

instance
proof
  fix x y z :: window_state
  show "x \<le> y \<Longrightarrow> y \<le> x \<Longrightarrow> x = y"
    by (cases x; cases y) (simp_all add: less_eq_window_state_def)
qed (auto simp: less_eq_window_state_def less_window_state_def)

end

lemmas window_state_order = less_eq_window_state_def less_window_state_def

text \<open>A clock string that reads as a number of minutes.\<close>

definition clock :: "string \<Rightarrow> int \<Rightarrow> bool" where
  "clock s m \<longleftrightarrow> s \<noteq> [] \<and> hhmm_to_minutes_since_midnight s = Some m"

lemma window_state_clock:
  assumes "clock time t" "clock open o'" "clock close c"
  shows "get_window_state time (Some open) (Some close) grace =
    (if t < o' then Upcoming else if t < c then Open else if t < c + max 0 grace then Grace else Closed)"
  using assms by (simp add: clock_def get_window_state_def)

lemma within_window_clock:
  assumes "clock time t" "clock open o'" "clock close c"
  shows "is_within_window time open close grace \<longleftrightarrow> o' \<le> t \<and> t < c + max 0 grace"
  using assms by (simp add: clock_def is_within_window_def)

text \<open>
  The boolean gate and the canonical state agree: a mark is inside the window
  exactly when the state is open or in grace.
\<close>

lemma within_window_iff_state:
  assumes "clock time t" "clock open o'" "clock close c"
  shows "is_within_window time open close grace
    \<longleftrightarrow> get_window_state time (Some open) (Some close) grace \<in> {Open, Grace}"
  using assms by (auto simp: window_state_clock within_window_clock)

text \<open>
  The state only moves forward through a day: at a later clock time the window is
  never in an earlier state (upcoming, open, grace, closed in this order).
\<close>

lemma window_state_mono:
  assumes "clock time t" "clock time' t'" "clock open o'" "clock close c" "t \<le> t'"
  shows "get_window_state time (Some open) (Some close) grace
    \<le> get_window_state time' (Some open) (Some close) grace"
  using assms by (auto simp: window_state_clock window_state_order)

section \<open>Validation of configured windows\<close>

definition general_slot_key :: string where
  "general_slot_key = ''__general__''"

record meal_window =
  mw_meal_id :: ident
  mw_label :: string
  mw_slot_key :: "string option"
  mw_open :: "string option"
  mw_close :: "string option"

fun assert_meal_windows_valid :: "meal_window list \<Rightarrow> exn + unit" where
  "assert_meal_windows_valid [] = Inr ()"
| "assert_meal_windows_valid (w # ws) =
     (if mw_slot_key w = Some general_slot_key then assert_meal_windows_valid ws
      else
        let op = entry_hhmm_to_minutes (mw_open w);
            cl = entry_hhmm_to_minutes (mw_close w)
        in if \<not> truthy (mw_open w) \<or> \<not> truthy (mw_close w)
              \<or> op = invalid_minutes \<or> cl = invalid_minutes
           then Inl (Unprocessable ''MEAL_WINDOW_REQUIRED'')
           else if cl \<le> op then Inl (Unprocessable ''MEAL_WINDOW_INVALID'')
           else assert_meal_windows_valid ws)"

definition same_day_window :: "meal_window \<Rightarrow> bool" where
  "same_day_window w \<longleftrightarrow>
     (\<exists>os cs h m h' m'. mw_open w = Some os \<and> mw_close w = Some cs
        \<and> match_hhmm os = Some (h, m) \<and> match_hhmm cs = Some (h', m')
        \<and> h \<le> 23 \<and> m \<le> 59 \<and> h' \<le> 23 \<and> m' \<le> 59 \<and> h * 60 + m < h' * 60 + m')"

lemma js_number_aux_nonneg: "0 \<le> acc \<Longrightarrow> js_number_aux acc s = Some n \<Longrightarrow> 0 \<le> n"
  by (induction acc s rule: js_number_aux.induct)
    (auto simp: digit_val_def Let_def split: option.splits if_splits)

lemma match_hhmm_clock: "match_hhmm s = Some (h, m) \<Longrightarrow> clock s (h * 60 + m) \<and> 0 \<le> h \<and> 0 \<le> m"
  by (cases s) (auto simp: match_hhmm_def clock_def hhmm_to_minutes_since_midnight_def js_number_def
      split: list.splits option.splits if_splits dest: js_number_aux_nonneg [rotated])

lemma entry_minutes_valid:
  "entry_hhmm_to_minutes t \<noteq> invalid_minutes \<longleftrightarrow>
     (\<exists>s h m. t = Some s \<and> match_hhmm s = Some (h, m) \<and> h \<le> 23 \<and> m \<le> 59)"
  by (auto simp: entry_hhmm_to_minutes_def invalid_minutes_def dest: match_hhmm_clock
      split: option.splits prod.splits if_splits)

lemma assert_meal_windows_iff:
  "assert_meal_windows_valid ws = Inr () \<longleftrightarrow>
     (\<forall>w\<in>set ws. mw_slot_key w \<noteq> Some general_slot_key \<longrightarrow> same_day_window w)"
proof (induction ws)
  case Nil
  then show ?case by simp
next
  case (Cons w ws)
  have "\<not> (\<not> truthy (mw_open w) \<or> \<not> truthy (mw_close w)
      \<or> entry_hhmm_to_minutes (mw_open w) = invalid_minutes
      \<or> entry_hhmm_to_minutes (mw_close w) = invalid_minutes)
      \<and> \<not> entry_hhmm_to_minutes (mw_close w) \<le> entry_hhmm_to_minutes (mw_open w)
    \<longleftrightarrow> same_day_window w"
    using entry_minutes_valid [of "mw_open w"] entry_minutes_valid [of "mw_close w"]
    by (auto simp: same_day_window_def entry_hhmm_to_minutes_def clock_def
        dest: match_hhmm_clock split: if_splits)
  with Cons show ?case by (auto simp: Let_def)
qed

text \<open>
  The validator accepts a set of meals exactly when every meal but the hidden
  general one has a parseable same-day window, and then each such meal really opens: its
  window state is open at its opening minute.
\<close>

lemma valid_windows_open:
  "assert_meal_windows_valid ws = Inr () \<longleftrightarrow>
     (\<forall>w\<in>set ws. mw_slot_key w \<noteq> Some general_slot_key \<longrightarrow>
        same_day_window w
        \<and> (\<forall>grace. get_window_state (the (mw_open w)) (mw_open w) (mw_close w) grace = Open))"
proof -
  have "get_window_state (the (mw_open w)) (mw_open w) (mw_close w) grace = Open" if "same_day_window w" for w grace
    using that by (auto simp: same_day_window_def window_state_clock window_state_order dest!: match_hhmm_clock)
  then show ?thesis unfolding assert_meal_windows_iff by blast
qed

end
