(* ===== verification/Schedules.thy ===== *)
theory Schedules
  imports Published_Day Windows "HOL-Library.Product_Lexorder"
begin

text \<open>
  The planner's writes: publish, replace-and-publish, draft edits, revert, the draft purge of
  a deleted meal and clone, from
  \<open>src/src/features/meals/repositories/schedules.repository.ts\<close>, over the rows that
  \<open>Published_Day\<close> reads.  The lemmas show that a draft never reaches what is published.
\<close>

section \<open>Master meals and entities\<close>

record master_meal = raw_meal +
  mm_is_active :: bool
  mm_prefs_enabled :: "bool option"
  mm_enabled_prefs :: "string list option"

type_synonym meal_table = "ident \<Rightarrow> master_meal"

definition meal_select :: "meal_table \<Rightarrow> ident \<Rightarrow> raw_meal" where
  "meal_select meals m = raw_meal.truncate (meals m)"

text \<open>\<open>buildEntryEntity\<close> of an entry read with its meal; stored rows have no frozen fields.\<close>

definition build_entry_entity :: "meal_table \<Rightarrow> raw_entry \<Rightarrow> raw_entry" where
  "build_entry_entity meals e =
     (join_meal (meal_select meals) e)
       \<lparr>re_enabled_prefs := Some (nullish (re_enabled_prefs e) []),
        re_enabled_group_ids := Some (nullish (re_enabled_group_ids e) []),
        re_menu_items := Some (nullish (re_menu_items e) []),
        re_meal := Some (to_snapshot_meal (meal_select meals (re_meal_id e))),
        re_frozen := None, re_preference := None, re_planner_mode := None\<rparr>"

text \<open>
  \<open>compareEntriesChronologically\<close> as a sort key: effective opening minute, meal order,
  then the collation of the meal id, which is the runtime's \<open>localeCompare\<close> (a parameter).
\<close>

definition entry_open_minutes :: "raw_entry \<Rightarrow> int" where
  "entry_open_minutes e =
     entry_hhmm_to_minutes (nullish_opt (re_open_time e) (Option.bind (re_meal e) rm_window_open))"

definition chrono_key :: "(ident \<Rightarrow> int) \<Rightarrow> raw_entry \<Rightarrow> int \<times> int \<times> int \<times> int" where
  "chrono_key collate e =
     (entry_order e, entry_open_minutes e,
      nullish (Option.bind (re_meal e) rm_order) 0, collate (re_meal_id e))"

text \<open>The draft view of a row: entries of archived meals are hidden.\<close>

definition draft_view :: "meal_table \<Rightarrow> (ident \<Rightarrow> int) \<Rightarrow> schedule_row \<Rightarrow> raw_entry list" where
  "draft_view meals collate row =
     sort_key (chrono_key collate)
       (map (build_entry_entity meals)
         (filter (\<lambda>e. mm_is_active (meals (re_meal_id e))) (sc_entries row)))"

definition find_by_id :: "schedule_row list \<Rightarrow> ident \<Rightarrow> ident \<Rightarrow> schedule_row option" where
  "find_by_id rows i org = find (\<lambda>r. sc_id r = i \<and> sc_org r = org) rows"

section \<open>Freezing at publish\<close>

text \<open>The preference block of one entry: the day's flag and subset over the master's.\<close>

definition resolve_published_preference ::
  "master_meal \<Rightarrow> raw_entry \<Rightarrow> pref_group list \<Rightarrow> pref_snapshot" where
  "resolve_published_preference m e master_groups =
     (let enabled = nullish (re_prefs_enabled e) (nullish (mm_prefs_enabled m) False);
          own = nullish (re_enabled_prefs e) [];
          tags = (if own \<noteq> [] then own else nullish (mm_enabled_prefs m) [])
      in if \<not> enabled
         then \<lparr>ps_enabled = False, ps_mode = ''standalone'', ps_tags = tags, ps_groups = []\<rparr>
         else
           let groups = apply_day_override master_groups
                          (Some (re_prefs_enabled e, nullish (re_enabled_group_ids e) []))
           in \<lparr>ps_enabled = True,
               ps_mode = (if groups \<noteq> [] then ''group'' else ''standalone''),
               ps_tags = tags, ps_groups = groups\<rparr>)"

text \<open>\<open>prefs\<close> is \<open>None\<close> when no preference resolver is wired.\<close>

definition snapshot_from_entries ::
  "meal_table \<Rightarrow> (ident \<Rightarrow> pref_group list) option \<Rightarrow> string option \<Rightarrow> raw_entry list \<Rightarrow> raw_entry list" where
  "snapshot_from_entries meals prefs mode es =
     map (\<lambda>e.
       (case prefs of
          None \<Rightarrow> to_snapshot_entry e
        | Some p \<Rightarrow>
            (to_snapshot_entry e)
              \<lparr>re_frozen := Some True, re_planner_mode := mode,
               re_preference := Some (resolve_published_preference (meals (re_meal_id e)) e
                                        (p (re_meal_id e)))\<rparr>)) es"

definition strip_snapshot_preferences :: "raw_entry list \<Rightarrow> raw_entry list" where
  "strip_snapshot_preferences snap =
     map (\<lambda>e. e\<lparr>re_prefs_enabled := Some False, re_enabled_prefs := Some [],
                 re_enabled_group_ids := Some [],
                 re_preference := map_option (\<lambda>_. \<lparr>ps_enabled = False, ps_mode = ''standalone'',
                                                    ps_tags = [], ps_groups = []\<rparr>) (re_preference e)\<rparr>) snap"

definition publish_snapshot ::
  "meal_table \<Rightarrow> (ident \<Rightarrow> int) \<Rightarrow> bool \<Rightarrow> (ident \<Rightarrow> pref_group list) option \<Rightarrow> string option
     \<Rightarrow> schedule_row \<Rightarrow> raw_entry list" where
  "publish_snapshot meals collate strip prefs mode row =
     (let snap = snapshot_from_entries meals prefs mode (draft_view meals collate row)
      in if strip then strip_snapshot_preferences snap else snap)"

section \<open>Writes\<close>

definition update_row :: "ident \<Rightarrow> ident \<Rightarrow> (schedule_row \<Rightarrow> schedule_row) \<Rightarrow> schedule_row list \<Rightarrow> schedule_row list" where
  "update_row i org f rows = map (\<lambda>r. if sc_id r = i \<and> sc_org r = org then f r else r) rows"

definition schedule_publish ::
  "meal_table \<Rightarrow> (ident \<Rightarrow> int) \<Rightarrow> bool \<Rightarrow> (ident \<Rightarrow> pref_group list) option \<Rightarrow> string option
     \<Rightarrow> int \<Rightarrow> ident \<Rightarrow> ident \<Rightarrow> schedule_row list \<Rightarrow> exn + schedule_row list" where
  "schedule_publish meals collate strip prefs mode now i org rows =
     (case find_by_id rows i org of
        None \<Rightarrow> Inl (NotFound ''Schedule not found'')
      | Some _ \<Rightarrow>
          Inr (update_row i org
                 (\<lambda>r. r\<lparr>sc_is_published := True, sc_published_at := Some now,
                        sc_snapshot := Some (publish_snapshot meals collate strip prefs mode r)\<rparr>) rows))"

text \<open>A stored entry of a payload: generated id, \<open>??\<close> defaults, no join and no frozen fields.\<close>

definition store_entry :: "ident \<Rightarrow> raw_entry \<Rightarrow> raw_entry" where
  "store_entry i e =
     e\<lparr>re_id := Some i,
       re_enabled_prefs := Some (nullish (re_enabled_prefs e) []),
       re_enabled_group_ids := Some (nullish (re_enabled_group_ids e) []),
       re_menu_items := Some (nullish (re_menu_items e) []),
       re_meal := None, re_frozen := None, re_preference := None, re_planner_mode := None\<rparr>"

definition create_many :: "(nat \<Rightarrow> ident) \<Rightarrow> raw_entry list \<Rightarrow> raw_entry list" where
  "create_many cuid es = map (\<lambda>(n, e). store_entry (cuid n) e) (enumerate 0 es)"

definition unique_entries :: "raw_entry list \<Rightarrow> bool" where
  "unique_entries es \<longleftrightarrow> distinct (map (\<lambda>e. (re_meal_id e, re_date e)) es)"

fun merge_entries :: "(nat \<Rightarrow> ident) \<Rightarrow> nat \<Rightarrow> raw_entry list \<Rightarrow> raw_entry list \<Rightarrow> exn + raw_entry list" where
  "merge_entries cuid n [] stored = Inr stored"
| "merge_entries cuid n (e # es) stored =
     (let stored' =
            (if truthy (re_id e)
             then map (\<lambda>x. if re_id x = re_id e then store_entry (the (re_id e)) e else x) stored
             else stored @ [store_entry (cuid n) e])
      in if \<not> unique_entries stored' then Inl (Conflict ''P2002'')
         else merge_entries cuid (Suc n) es stored')"

record schedule_patch =
  sp_week_start :: "int option"
  sp_entries :: "raw_entry list option"
  sp_replace :: bool

definition patch_header :: "schedule_patch \<Rightarrow> schedule_row \<Rightarrow> schedule_row" where
  "patch_header p r =
     r\<lparr>sc_week_start := nullish (sp_week_start p) (sc_week_start r), sc_is_published := False\<rparr>"

text \<open>
  One transaction: an error leaves the rows as they were.  The unique index on
  (group, week) rejects a move onto another row's week.
\<close>

definition schedule_update ::
  "meal_table \<Rightarrow> (raw_entry \<Rightarrow> int) \<Rightarrow> (nat \<Rightarrow> ident) \<Rightarrow> ident \<Rightarrow> ident \<Rightarrow> schedule_patch
     \<Rightarrow> schedule_row list \<Rightarrow> exn + schedule_row list" where
  "schedule_update meals by_meal cuid i org p rows =
     (if sp_week_start p = None \<and> sp_entries p = None then Inr rows
      else
        (case find_by_id rows i org of
           None \<Rightarrow> Inl (NotFound ''Schedule not found'')
         | Some row \<Rightarrow>
             let rows1 = update_row i org (patch_header p) rows
             in if \<not> unique_weeks rows1 then Inl (Conflict ''P2002'')
                else
                  (case sp_entries p of
                     None \<Rightarrow> Inr rows1
                   | Some es \<Rightarrow>
                       if sp_replace p then
                         (if \<not> unique_entries es then Inl (Conflict ''P2002'')
                          else Inr (update_row i org
                                 (\<lambda>r. (freeze_legacy_snapshot (meal_select meals) by_meal r)
                                        \<lparr>sc_entries := create_many cuid es\<rparr>) rows1))
                       else
                         bindE (merge_entries cuid 0 es (sc_entries row))
                           (\<lambda>merged. Inr (update_row i org (\<lambda>r. r\<lparr>sc_entries := merged\<rparr>) rows1)))))"

definition earliest_date :: "raw_entry list \<Rightarrow> int option" where
  "earliest_date es =
     (case List.map_filter re_date es of [] \<Rightarrow> None | d # ds \<Rightarrow> Some (Min (set (d # ds))))"

text \<open>The rows this path creates carry neither the description nor the image of the payload.\<close>

definition bare_entry :: "raw_entry \<Rightarrow> raw_entry" where
  "bare_entry e = e\<lparr>re_description := None, re_image_url := None\<rparr>"

definition replace_and_publish ::
  "meal_table \<Rightarrow> (ident \<Rightarrow> int) \<Rightarrow> (nat \<Rightarrow> ident) \<Rightarrow> bool \<Rightarrow> (ident \<Rightarrow> pref_group list) option
     \<Rightarrow> string option \<Rightarrow> int \<Rightarrow> ident \<Rightarrow> ident \<Rightarrow> raw_entry list \<Rightarrow> schedule_row list
     \<Rightarrow> exn + schedule_row list" where
  "replace_and_publish meals collate cuid strip prefs mode now i org es rows =
     (case find_by_id rows i org of
        None \<Rightarrow> Inl (NotFound ''Schedule not found'')
      | Some _ \<Rightarrow>
          if \<not> unique_entries es then Inl (Conflict ''P2002'')
          else
            let swap = (\<lambda>r. r\<lparr>sc_entries := create_many cuid (map bare_entry es), sc_is_published := True,
                              sc_published_at := Some now,
                              sc_week_start := (case earliest_date es of
                                                  None \<Rightarrow> sc_week_start r
                                                | Some d \<Rightarrow> d - day_of_week d * day_ms)\<rparr>);
                rows1 = update_row i org swap rows
            in if \<not> unique_weeks rows1 then Inl (Conflict ''P2002'')
               else Inr (update_row i org
                      (\<lambda>r. r\<lparr>sc_snapshot := Some (publish_snapshot meals collate strip prefs mode r)\<rparr>) rows1))"

definition schedule_revert :: "bool \<Rightarrow> ident \<Rightarrow> ident \<Rightarrow> schedule_row list \<Rightarrow> exn + schedule_row list" where
  "schedule_revert hide i org rows =
     (case find_by_id rows i org of
        None \<Rightarrow> Inl (NotFound ''Schedule not found'')
      | Some _ \<Rightarrow>
          Inr (update_row i org
                 (\<lambda>r. r\<lparr>sc_is_published := False,
                        sc_published_at := (if hide then None else sc_published_at r)\<rparr>) rows))"

definition revert_published_for_meal :: "ident \<Rightarrow> ident \<Rightarrow> schedule_row list \<Rightarrow> schedule_row list" where
  "revert_published_for_meal m org rows =
     map (\<lambda>r. if sc_org r = org \<and> sc_is_published r \<and> (\<exists>e\<in>set (sc_entries r). re_meal_id e = m)
              then r\<lparr>sc_is_published := False\<rparr> else r) rows"

definition revert_published_for_group :: "ident \<Rightarrow> ident \<Rightarrow> schedule_row list \<Rightarrow> schedule_row list" where
  "revert_published_for_group gid org rows =
     map (\<lambda>r. if sc_group r = gid \<and> sc_org r = org \<and> sc_is_published r
              then r\<lparr>sc_is_published := False\<rparr> else r) rows"

definition delete_draft_entries_for_meal :: "ident \<Rightarrow> ident \<Rightarrow> schedule_row list \<Rightarrow> schedule_row list" where
  "delete_draft_entries_for_meal m org rows =
     map (\<lambda>r. if sc_org r = org \<and> \<not> sc_is_published r
              then r\<lparr>sc_entries := filter (\<lambda>e. re_meal_id e \<noteq> m) (sc_entries r)\<rparr> else r) rows"

definition delete_entries_by_ids :: "ident \<Rightarrow> ident \<Rightarrow> ident list \<Rightarrow> schedule_row list \<Rightarrow> schedule_row list" where
  "delete_entries_by_ids i org ids rows =
     update_row i org
       (\<lambda>r. r\<lparr>sc_entries := filter (\<lambda>e. case re_id e of None \<Rightarrow> True | Some j \<Rightarrow> j \<notin> set ids) (sc_entries r)\<rparr>) rows"

text \<open>Clone copies the draft view of a week into a new, unpublished row.\<close>

definition clone_entry :: "int \<Rightarrow> raw_entry \<Rightarrow> raw_entry" where
  "clone_entry offset e =
     e\<lparr>re_date := map_option (\<lambda>d. d + offset) (re_date e), re_description := None, re_image_url := None\<rparr>"

definition schedule_clone ::
  "meal_table \<Rightarrow> (ident \<Rightarrow> int) \<Rightarrow> (nat \<Rightarrow> ident) \<Rightarrow> ident \<Rightarrow> ident \<Rightarrow> ident \<Rightarrow> int \<Rightarrow> bool
     \<Rightarrow> schedule_row list \<Rightarrow> exn + schedule_row list" where
  "schedule_clone meals collate cuid new_id i org target replace rows =
     (case find_by_id rows i org of
        None \<Rightarrow> Inl (NotFound ''Source schedule not found'')
      | Some src \<Rightarrow>
          let hit = (\<lambda>r. sc_group r = sc_group src \<and> sc_org r = org \<and> sc_week_start r = target)
          in if (\<exists>r\<in>set rows. hit r) \<and> \<not> replace then Inl (Conflict ''SCHEDULE_EXISTS'')
             else
               Inr (filter (\<lambda>r. \<not> hit r) rows @
                    [\<lparr>sc_id = new_id, sc_org = org, sc_group = sc_group src, sc_week_start = target,
                      sc_is_published = False, sc_published_at = None, sc_snapshot = None,
                      sc_entries = create_many cuid
                        (map (clone_entry (target - sc_week_start src)) (draft_view meals collate src))\<rparr>]))"

section \<open>The draft wall\<close>

text \<open>A row that publishes the same frozen thing: its key, its gate and its snapshot agree.\<close>

definition same_frozen :: "schedule_row \<Rightarrow> schedule_row \<Rightarrow> bool" where
  "same_frozen r r' \<longleftrightarrow>
     sc_group r = sc_group r' \<and> sc_org r = sc_org r' \<and> sc_week_start r = sc_week_start r'
     \<and> sc_published_at r = sc_published_at r' \<and> sc_snapshot r = sc_snapshot r'"

definition frozen_store :: "schedule_row list \<Rightarrow> bool" where
  "frozen_store rows \<longleftrightarrow>
     (\<forall>r\<in>set rows. sc_published_at r \<noteq> None \<longrightarrow> sc_snapshot r \<noteq> None \<and> sc_snapshot r \<noteq> Some [])"

lemma frozen_view:
  assumes "sc_snapshot r \<noteq> None" "sc_snapshot r \<noteq> Some []" "sc_snapshot r = sc_snapshot r'"
  shows "published_entries_of meals (Some r) = published_entries_of meals' (Some r')"
proof -
  obtain e es where "sc_snapshot r = Some (e # es)"
    using assms(1,2) by (cases "sc_snapshot r") (auto simp: neq_Nil_conv)
  then show ?thesis using assms(3) by (simp add: published_entries_of_def)
qed

definition exact_row ::
  "(ident \<Rightarrow> raw_meal) \<Rightarrow> (ident \<Rightarrow> raw_meal) \<Rightarrow> schedule_row \<Rightarrow> schedule_row \<Rightarrow> bool" where
  "exact_row meals meals' r r' \<longleftrightarrow>
     sc_group r = sc_group r' \<and> sc_org r = sc_org r' \<and> sc_week_start r = sc_week_start r'
     \<and> (sc_published_at r = None \<longleftrightarrow> sc_published_at r' = None)
     \<and> (sc_published_at r \<noteq> None \<longrightarrow>
          published_entries_of meals (Some r) = published_entries_of meals' (Some r'))"

lemma resolve_exact:
  assumes "list_all2 (exact_row meals meals') rows rows'"
  shows "resolve_published_day meals rows reader gid org ds dw
       = resolve_published_day meals' rows' reader gid org ds dw"
proof -
  have w: "published_entries_of meals (find_week_row rows gid org ws)
      = published_entries_of meals' (find_week_row rows' gid org ws)" for ws
  proof -
    have "rel_option (\<lambda>x y. exact_row meals meals' x y \<and> (sc_group x = gid \<and> sc_org x = org
        \<and> sc_week_start x = ws \<and> sc_published_at x \<noteq> None))
        (find_week_row rows gid org ws) (find_week_row rows' gid org ws)"
      unfolding find_week_row_def using assms by (rule list_all2_find) (auto simp: exact_row_def)
    then show ?thesis by (auto simp: exact_row_def elim!: option.rel_cases)
  qed
  let ?P = "\<lambda>r. sc_group r = gid \<and> sc_org r = org \<and> sc_published_at r \<noteq> None"
  have "list_all2 (\<lambda>x y. exact_row meals meals' x y \<and> ?P x) (filter ?P rows) (filter ?P rows')"
    using assms by (rule list_all2_filter) (auto simp: exact_row_def)
  then have "list_all2 (\<lambda>x y. exact_row meals meals' x y \<and> ?P x)
      (sort_key (\<lambda>r. - sc_week_start r) (filter ?P rows))
      (sort_key (\<lambda>r. - sc_week_start r) (filter ?P rows'))"
    by (rule list_all2_sort) (auto simp: exact_row_def)
  then have l: "published_entries_of meals (find_latest_row rows gid org)
      = published_entries_of meals' (find_latest_row rows' gid org)"
    unfolding find_latest_row_def by (auto simp: exact_row_def list_all2_Cons1 split: list.splits)
  show ?thesis
    by (simp add: resolve_published_day_def governing_entries_def step_entries_def Let_def w l
        split: option.splits)
qed

lemma resolve_same_frozen:
  assumes "list_all2 same_frozen rows rows'" and "frozen_store rows"
  shows "resolve_published_day meals rows reader gid org ds dw
       = resolve_published_day meals' rows' reader gid org ds dw"
proof (rule resolve_exact)
  show "list_all2 (exact_row meals meals') rows rows'"
    using assms
  proof (induction rule: list_all2_induct)
    case Nil
    then show ?case by simp
  next
    case (Cons r rows r' rows')
    have "exact_row meals meals' r r'"
    proof (cases "sc_published_at r = None")
      case True
      with Cons show ?thesis by (auto simp: exact_row_def same_frozen_def)
    next
      case False
      with Cons have "published_entries_of meals (Some r) = published_entries_of meals' (Some r')"
        by (intro frozen_view) (auto simp: frozen_store_def same_frozen_def)
      with Cons show ?thesis by (auto simp: exact_row_def same_frozen_def)
    qed
    with Cons show ?case by (simp add: frozen_store_def)
  qed
qed

lemma frozen_store_same: "list_all2 same_frozen rows rows' \<Longrightarrow> frozen_store rows \<Longrightarrow> frozen_store rows'"
  by (induction rule: list_all2_induct) (auto simp: frozen_store_def same_frozen_def)

lemma same_frozen_refl [simp]: "same_frozen r r"
  by (simp add: same_frozen_def)

lemma list_all2_map_self: "(\<And>r. r \<in> set rows \<Longrightarrow> R r (f r)) \<Longrightarrow> list_all2 R rows (map f rows)"
  by (induction rows) auto

lemma update_row_same_frozen:
  "(\<And>r. r \<in> set rows \<Longrightarrow> same_frozen r (f r)) \<Longrightarrow> list_all2 same_frozen rows (update_row i org f rows)"
  unfolding update_row_def by (rule list_all2_map_self) simp

lemma update_row_update_row:
  "(\<And>r. sc_id (f r) = sc_id r \<and> sc_org (f r) = sc_org r) \<Longrightarrow>
     update_row i org g (update_row i org f rows) = update_row i org (\<lambda>r. g (f r)) rows"
  by (simp add: update_row_def)

lemma patch_header_same: "sp_week_start p = None \<Longrightarrow> same_frozen r (patch_header p r)"
  by (simp add: patch_header_def same_frozen_def)

lemma patch_header_key [simp]: "sc_id (patch_header p r) = sc_id r" "sc_org (patch_header p r) = sc_org r"
  "sc_entries (patch_header p r) = sc_entries r" "sc_published_at (patch_header p r) = sc_published_at r"
  "sc_snapshot (patch_header p r) = sc_snapshot r"
  by (simp_all add: patch_header_def)

lemma freeze_noop:
  "sc_published_at r = None \<or> sc_snapshot r \<noteq> None \<and> sc_snapshot r \<noteq> Some [] \<Longrightarrow>
     freeze_legacy_snapshot meals by_meal r = r"
  by (auto simp: freeze_legacy_snapshot_def neq_Nil_conv)

text \<open>The shapes a successful PATCH can have, as one row transformer.\<close>

lemma schedule_update_cases:
  assumes "schedule_update meals by_meal cuid i org p rows = Inr rows'"
  obtains "rows' = rows"
  | "rows' = update_row i org (patch_header p) rows"
  | es where "sp_entries p = Some es" "sp_replace p"
      "rows' = update_row i org (\<lambda>r. (freeze_legacy_snapshot (meal_select meals) by_meal (patch_header p r))
                \<lparr>sc_entries := create_many cuid es\<rparr>) rows"
  | merged where "rows' = update_row i org (\<lambda>r. (patch_header p r)\<lparr>sc_entries := merged\<rparr>) rows"
  using assms
  by (auto simp: schedule_update_def Let_def update_row_update_row err_simps
      split: option.splits if_splits)

lemma schedule_update_same_frozen:
  assumes "schedule_update meals by_meal cuid i org p rows = Inr rows'"
    and "sp_week_start p = None" and "frozen_store rows"
  shows "list_all2 same_frozen rows rows'"
  using assms(1)
proof (cases rule: schedule_update_cases)
  case 1
  then show ?thesis by (simp add: list_all2_refl)
next
  case 2
  then show ?thesis using assms(2) by (simp add: update_row_same_frozen patch_header_same)
next
  case (3 es)
  have "same_frozen r ((freeze_legacy_snapshot (meal_select meals) by_meal (patch_header p r))
      \<lparr>sc_entries := create_many cuid es\<rparr>)" if "r \<in> set rows" for r
  proof -
    have "freeze_legacy_snapshot (meal_select meals) by_meal (patch_header p r) = patch_header p r"
      using assms(3) that by (intro freeze_noop) (auto simp: frozen_store_def)
    then show ?thesis using assms(2) by (simp add: same_frozen_def patch_header_def)
  qed
  with 3 show ?thesis by (simp add: update_row_same_frozen)
next
  case (4 merged)
  then show ?thesis using assms(2) by (simp add: update_row_same_frozen same_frozen_def patch_header_def)
qed

text \<open>What the admin can do short of publishing, moving the week or hiding it.\<close>

inductive draft_step ::
  "meal_table \<times> schedule_row list \<Rightarrow> meal_table \<times> schedule_row list \<Rightarrow> bool" where
  patch: "schedule_update meals by_meal cuid i org p rows = Inr rows' \<Longrightarrow> sp_week_start p = None
            \<Longrightarrow> draft_step (meals, rows) (meals, rows')"
| revert: "schedule_revert False i org rows = Inr rows' \<Longrightarrow> draft_step (meals, rows) (meals, rows')"
| revert_meal: "draft_step (meals, rows) (meals, revert_published_for_meal m org rows)"
| revert_group: "draft_step (meals, rows) (meals, revert_published_for_group g org rows)"
| purge_meal: "draft_step (meals, rows) (meals, delete_draft_entries_for_meal m org rows)"
| self_heal: "draft_step (meals, rows) (meals, delete_entries_by_ids i org ids rows)"
| edit_master: "draft_step (meals, rows) (meals', rows)"

inductive_cases draft_stepE: "draft_step s s'"

lemma draft_step_same_frozen:
  assumes "draft_step (meals, rows) (meals', rows')" and "frozen_store rows"
  shows "list_all2 same_frozen rows rows'"
  using assms(1)
proof (cases rule: draft_step.cases)
  case (patch by_meal cuid i org p)
  then show ?thesis using schedule_update_same_frozen assms(2) by blast
next
  case (revert i org)
  then show ?thesis
    by (auto simp: schedule_revert_def same_frozen_def intro!: update_row_same_frozen split: option.splits)
qed (auto simp: revert_published_for_meal_def revert_published_for_group_def list_all2_refl
    delete_draft_entries_for_meal_def delete_entries_by_ids_def same_frozen_def
    intro!: list_all2_map_self update_row_same_frozen)

definition published_days where
  "published_days s = (\<lambda>reader gid org ds dw.
     resolve_published_day (meal_select (fst s)) (snd s) reader gid org ds dw)"

interpretation draft: guarded_steps draft_step "\<lambda>s. frozen_store (snd s)" published_days
proof
  fix s s' :: "meal_table \<times> schedule_row list"
  assume inv: "frozen_store (snd s)" and step: "draft_step s s'"
  then have same: "list_all2 same_frozen (snd s) (snd s')"
    using draft_step_same_frozen [of "fst s" "snd s" "fst s'" "snd s'"] by simp
  show "frozen_store (snd s')" using frozen_store_same [OF same inv] .
  show "published_days s' = published_days s"
    unfolding published_days_def by (intro ext) (rule resolve_same_frozen [OF same inv, symmetric])
qed

text \<open>
  (C21) The draft wall: once every published week is frozen, no sequence of draft edits,
  reverts to draft, master-meal edits, deletions or purges changes what any group sees on
  any day; only a publish, a move of the week or a hide can.
\<close>

theorem draft_wall:
  assumes "frozen_store rows" and "draft_step\<^sup>*\<^sup>* (meals, rows) (meals', rows')"
  shows "resolve_published_day (meal_select meals') rows' reader gid org ds dw
       = resolve_published_day (meal_select meals) rows reader gid org ds dw"
  using draft.obs_run [OF assms(2)] assms(1) by (simp add: published_days_def fun_eq_iff)

definition sample_master :: "bool \<Rightarrow> meal_table" where
  "sample_master active m =
     \<lparr>rm_slot_key = ''lunch'', rm_name = m, rm_display_name = None, rm_order = Some 1,
      rm_menu_items = None, rm_image_url = None, rm_description = None, rm_price = Some 50,
      rm_window_open = Some ''12:00'', rm_window_close = Some ''14:00'',
      mm_is_active = active, mm_prefs_enabled = Some True, mm_enabled_prefs = None\<rparr>"

definition sample_patch :: schedule_patch where
  "sample_patch = \<lparr>sp_week_start = None, sp_entries = Some [sample_entry ''m9'' ''2026-07-08''],
     sp_replace = True\<rparr>"

definition edited_week :: schedule_row where
  "edited_week = weekly_week
     \<lparr>sc_is_published := False, sc_entries := [store_entry ''c0'' (sample_entry ''m9'' ''2026-07-08'')]\<rparr>"

lemma sample_patch_step:
  "schedule_update (sample_master True) (\<lambda>_. 0) (\<lambda>n. ''c0'') ''s1'' ''o'' sample_patch [weekly_week]
     = Inr [edited_week]"
  by code_simp

theorem draft_wall_witness:
  "resolve_published_day (meal_select (sample_master False)) [edited_week] None ''g'' ''o'' ''2026-07-06'' None
    = resolve_published_day (meal_select (sample_master True)) [weekly_week] None ''g'' ''o'' ''2026-07-06'' None"
proof (rule draft_wall)
  show "frozen_store [weekly_week]" by (simp add: frozen_store_def weekly_week_def sample_row_def)
  have "draft_step (sample_master True, [weekly_week]) (sample_master True, [edited_week])"
    by (rule draft_step.patch [OF sample_patch_step]) (simp add: sample_patch_def)
  moreover have "draft_step (sample_master True, [edited_week]) (sample_master False, [edited_week])"
    by (rule draft_step.edit_master)
  ultimately show "draft_step\<^sup>*\<^sup>* (sample_master True, [weekly_week]) (sample_master False, [edited_week])"
    by (meson converse_rtranclp_into_rtranclp r_into_rtranclp)
qed

section \<open>Legacy rows\<close>

text \<open>
  A row published before snapshots existed serves its live entries.  The freeze copies
  exactly those, so a replacing draft save keeps what is published; the view may only be
  reordered.
\<close>

definition plain_entry :: "raw_entry \<Rightarrow> bool" where
  "plain_entry e \<longleftrightarrow> re_frozen e = None \<and> re_preference e = None \<and> re_planner_mode e = None"

lemma normalize_snapshot_meal [simp]: "normalize_meal (Some (to_snapshot_meal m)) = normalize_meal (Some m)"
  by (simp add: normalize_meal_def to_snapshot_meal_def)

lemma normalize_to_snapshot:
  assumes "plain_entry e"
  shows "normalize_entry (to_snapshot_entry e) = normalize_entry e"
proof (cases "re_meal e")
  case None
  with assms show ?thesis by (simp add: normalize_entry_def to_snapshot_entry_def plain_entry_def)
next
  case (Some m)
  with assms show ?thesis
    using normalize_snapshot_meal [of m] by (simp add: normalize_entry_def to_snapshot_entry_def plain_entry_def)
qed

lemma plain_join [simp]: "plain_entry (join_meal meals e) = plain_entry e"
  by (simp add: plain_entry_def join_meal_def)

definition legacy_ok :: "schedule_row \<Rightarrow> bool" where
  "legacy_ok r \<longleftrightarrow> sc_published_at r = None
     \<or> (case sc_snapshot r of
          Some (e # es) \<Rightarrow> True
        | _ \<Rightarrow> sc_entries r \<noteq> [] \<and> (\<forall>e\<in>set (sc_entries r). plain_entry e))"

lemma mset_live_sorted: "mset (sort_key f (sort_key g xs)) = mset xs"
  by simp

lemma replace_same_row:
  assumes "legacy_ok r"
  shows "same_row meals meals r ((freeze_legacy_snapshot meals by_meal r)\<lparr>sc_is_published := b, sc_entries := es\<rparr>)"
proof (cases "sc_published_at r = None \<or> (sc_snapshot r \<noteq> None \<and> sc_snapshot r \<noteq> Some [])")
  case True
  then have "freeze_legacy_snapshot meals by_meal r = r" by (rule freeze_noop)
  moreover have "published_entries_of meals (Some r) = published_entries_of meals (Some (r\<lparr>sc_is_published := b, sc_entries := es\<rparr>))"
    if "sc_published_at r \<noteq> None"
    using True that by (intro frozen_view) auto
  ultimately show ?thesis by (auto simp: same_row_def)
next
  case False
  let ?live = "sort_key entry_order (sort_key by_meal (live_entries meals r))"
  have ne: "sc_entries r \<noteq> []" and plain: "\<forall>e\<in>set (sc_entries r). plain_entry e"
    using assms False by (auto simp: legacy_ok_def split: option.splits list.splits)
  have live_ne: "?live \<noteq> []"
    using ne by (metis live_entries_def map_is_Nil_conv mset_live_sorted mset_zero_iff)
  have plain_live: "\<forall>e\<in>set ?live. plain_entry e"
    using plain by (auto simp: live_entries_def)
  have norm: "map normalize_entry (map to_snapshot_entry ?live) = map normalize_entry ?live"
    using plain_live by (auto simp: normalize_to_snapshot)
  have frozen: "freeze_legacy_snapshot meals by_meal r = r\<lparr>sc_snapshot := Some (map to_snapshot_entry ?live)\<rparr>"
    using False live_ne by (auto simp: freeze_legacy_snapshot_def Let_def split: option.splits list.splits)
  have after: "published_entries_of meals
      (Some ((freeze_legacy_snapshot meals by_meal r)\<lparr>sc_is_published := b, sc_entries := es\<rparr>)) = map normalize_entry ?live"
    using live_ne norm unfolding frozen published_entries_of_def
    by (cases ?live) auto
  have before: "published_entries_of meals (Some r) = map normalize_entry (live_entries meals r)"
    using False by (auto simp: published_entries_of_def split: option.splits list.splits)
  have "mset (map normalize_entry (live_entries meals r)) = mset (map normalize_entry ?live)"
    by (simp add: mset_map)
  moreover have "\<forall>e\<in>set (map normalize_entry (live_entries meals r)). de_planner_mode e = None"
    using plain by (auto simp: live_entries_def normalize_entry_def plain_entry_def join_meal_def)
  ultimately have "same_view (published_entries_of meals (Some r)) (published_entries_of meals
      (Some ((freeze_legacy_snapshot meals by_meal r)\<lparr>sc_is_published := b, sc_entries := es\<rparr>)))"
    unfolding before after by (simp add: same_view_def)
  then show ?thesis by (simp add: same_row_def frozen)
qed

lemma same_row_refl [simp]: "same_row meals meals r r"
  by (simp add: same_row_def)

lemma freeze_header:
  "(freeze_legacy_snapshot meals by_meal (patch_header p r))\<lparr>sc_entries := es\<rparr>
     = (freeze_legacy_snapshot meals by_meal r)
         \<lparr>sc_week_start := nullish (sp_week_start p) (sc_week_start r), sc_is_published := False, sc_entries := es\<rparr>"
  by (simp add: freeze_legacy_snapshot_def patch_header_def live_entries_def Let_def
      split: option.splits list.splits)

lemma freeze_week_start [simp]: "sc_week_start (freeze_legacy_snapshot meals by_meal r) = sc_week_start r"
  by (simp add: freeze_legacy_snapshot_def Let_def split: option.splits list.splits)

text \<open>
  A replacing draft save never changes what members see, not even on a row that was
  published before snapshots existed and serves its live entries: the freeze comes first.
  The days of every group resolve to the same entry for every meal.
\<close>

lemma replace_save_keeps_published:
  assumes "schedule_update meals by_meal cuid i org p rows = Inr rows'"
    and "sp_week_start p = None" and "sp_entries p = Some es" and "sp_replace p"
    and "\<forall>r\<in>set rows. legacy_ok r"
    and "to_utc_midnight ds = Some t"
    and "one_per_meal (governing_entries (meal_select meals) rows reader g o' t dw)"
  shows "\<exists>m m'. resolve_published_day (meal_select meals) rows reader g o' ds dw = Inr m
    \<and> resolve_published_day (meal_select meals) rows' reader g o' ds dw = Inr m'
    \<and> map_of m = map_of m'"
proof -
  let ?f = "\<lambda>r. (freeze_legacy_snapshot (meal_select meals) by_meal (patch_header p r))
              \<lparr>sc_entries := create_many cuid es\<rparr>"
  have rows': "rows' = update_row i org ?f rows"
    using assms(1-4) by (auto simp: schedule_update_def Let_def update_row_update_row split: option.splits if_splits)
  have "same_row (meal_select meals) (meal_select meals) r (?f r)" if "r \<in> set rows" for r
  proof -
    have "?f r = (freeze_legacy_snapshot (meal_select meals) by_meal r)
        \<lparr>sc_is_published := False, sc_entries := create_many cuid es\<rparr>"
      using assms(2) by (simp add: freeze_header)
    then show ?thesis using replace_same_row assms(5) that by simp
  qed
  then have "list_all2 (same_row (meal_select meals) (meal_select meals)) rows rows'"
    unfolding rows' update_row_def by (intro list_all2_map_self) simp
  from resolve_same_view [OF this assms(7,6)] show ?thesis
    using assms(6) by (simp add: resolve_published_day_def)
qed

section \<open>Publishing\<close>

lemma publish_snapshot_Nil [simp]:
  "publish_snapshot meals collate strip prefs mode row = [] \<longleftrightarrow> draft_view meals collate row = []"
  by (simp add: publish_snapshot_def Let_def snapshot_from_entries_def strip_snapshot_preferences_def)

lemma draft_view_props:
  "e \<in> set (draft_view meals collate row) \<Longrightarrow>
     mm_is_active (meals (re_meal_id e)) \<and> plain_entry e
     \<and> re_meal e = Some (to_snapshot_meal (meal_select meals (re_meal_id e)))"
  by (auto simp: draft_view_def build_entry_entity_def join_meal_def plain_entry_def)

lemma to_snapshot_simps [simp]:
  "re_meal_id (to_snapshot_entry e) = re_meal_id e" "re_price (to_snapshot_entry e) = re_price e"
  "re_date (to_snapshot_entry e) = re_date e" "re_day_of_week (to_snapshot_entry e) = re_day_of_week e"
  "re_open_time (to_snapshot_entry e) = re_open_time e" "re_close_time (to_snapshot_entry e) = re_close_time e"
  "re_meal (to_snapshot_entry e) = map_option to_snapshot_meal (re_meal e)"
  by (simp_all add: to_snapshot_entry_def)













text \<open>Publishing a stored draft freezes its description; replace-and-publish of the same entry drops it.\<close>

lemma replace_and_publish_drops_description:
  "(case schedule_publish (sample_master True) (\<lambda>_. 0) False (Some (\<lambda>_. [])) None 7 ''s1'' ''o''
       [sample_week\<lparr>sc_entries := [(sample_entry ''m1'' ''2026-07-06'')\<lparr>re_description := Some ''special''\<rparr>]\<rparr>] of
      Inl _ \<Rightarrow> False
    | Inr rows \<Rightarrow> map de_description (published_entries_of (meal_select (sample_master True)) (Some (hd rows))) = [Some ''special''])
   \<and> (case replace_and_publish (sample_master True) (\<lambda>_. 0) (\<lambda>_. ''c'') False (Some (\<lambda>_. [])) None 7 ''s1'' ''o''
       [(sample_entry ''m1'' ''2026-07-06'')\<lparr>re_description := Some ''special''\<rparr>] [sample_week] of
      Inl _ \<Rightarrow> False
    | Inr rows \<Rightarrow> map de_description (published_entries_of (meal_select (sample_master True)) (Some (hd rows))) = [None])"
  by code_simp

section \<open>Where the wall has a gap\<close>

definition day_meals :: "meal_table \<Rightarrow> schedule_row list \<Rightarrow> string \<Rightarrow> ident list option" where
  "day_meals meals rows ds =
     (case resolve_published_day (meal_select meals) rows None ''g'' ''o'' ds None of
        Inl _ \<Rightarrow> None | Inr m \<Rightarrow> Some (map fst m))"

definition rows_after :: "exn + schedule_row list \<Rightarrow> schedule_row list" where
  "rows_after r = (case r of Inl _ \<Rightarrow> [] | Inr rows \<Rightarrow> rows)"

text \<open>
  The merging PATCH does not freeze first: on a row published before snapshots existed a
  draft entry is published at once.
\<close>

definition merge_patch :: schedule_patch where
  "merge_patch = sample_patch\<lparr>sp_replace := False\<rparr>"

lemma merge_patch_reaches_members:
  "day_meals (sample_master True) [sample_week] ''2026-07-08'' = Some []
   \<and> day_meals (sample_master True)
       (rows_after (schedule_update (sample_master True) (\<lambda>_. 0) (\<lambda>n. ''c0'') ''s1'' ''o'' merge_patch [sample_week]))
       ''2026-07-08'' = Some [''m9'']"
  by code_simp

text \<open>A week move is a draft edit to the API, yet it moves the published week at once.\<close>

definition move_patch :: schedule_patch where
  "move_patch = \<lparr>sp_week_start = to_utc_midnight ''2026-07-27'', sp_entries = None, sp_replace = False\<rparr>"

lemma week_move_reaches_members:
  "day_meals (sample_master True) [weekly_week, later_week] ''2026-07-22'' = Some [''m2'']
   \<and> day_meals (sample_master True)
       (rows_after (schedule_update (sample_master True) (\<lambda>_. 0) (\<lambda>n. ''c0'') ''s1'' ''o'' move_patch
         [weekly_week, later_week])) ''2026-07-22'' = Some []"
  by code_simp

text \<open>Cloning onto a published week with \<open>replace\<close> deletes its snapshot without a publish.\<close>

lemma clone_replace_erases_published:
  "day_meals (sample_master True) [weekly_week] ''2026-07-06'' = Some [''m1'']
   \<and> day_meals (sample_master True)
       (rows_after (schedule_clone (sample_master True) (\<lambda>_. 0) (\<lambda>n. ''c0'') ''s9'' ''s1'' ''o''
         (sc_week_start weekly_week) True [weekly_week])) ''2026-07-06'' = Some []"
  by code_simp

text \<open>
  The draft purge of a deleted meal runs on any row whose admin flag is off, so a legacy
  published row that was reverted to draft loses a published meal.
\<close>

lemma purge_reaches_members:
  "day_meals (sample_master True) [sample_week\<lparr>sc_is_published := False\<rparr>] ''2026-07-06'' = Some [''m1'']
   \<and> day_meals (sample_master True)
       (delete_draft_entries_for_meal ''m1'' ''o'' [sample_week\<lparr>sc_is_published := False\<rparr>])
       ''2026-07-06'' = Some []"
  by code_simp

end
