(* ===== verification/Billing_Cycle.thy ===== *)
theory Billing_Cycle
  imports Js_Date
begin

text \<open>
  The billing-period engine: \<open>resolveCurrentPeriod\<close> of
  \<open>src/src/features/billing/billing.service.ts\<close>, from which billing summaries,
  exports and retention take their periods.  The engine computes on the strings and
  \<open>Date\<close> values of the code; its contract is the locale \<open>period_anchors\<close>: a
  strictly increasing sequence of anchor days cuts the calendar into periods.
\<close>

section \<open>The contract: anchor days cut the calendar\<close>

locale period_anchors =
  fixes anchor :: "int \<Rightarrow> int"
  assumes anchor_step: "anchor k < anchor (k + 1)"
begin

lemma anchor_less: "j < k \<Longrightarrow> anchor j < anchor k"
proof (induction k rule: int_gr_induct [where k = j])
  case base
  then show ?case by (rule anchor_step)
next
  case (step i)
  then show ?case using anchor_step [of i] by linarith
qed

lemma anchor_le: "j \<le> k \<Longrightarrow> anchor j \<le> anchor k"
  using anchor_less [of j k] by (cases "j = k") auto

lemma period_unique:
  assumes "anchor j \<le> d" "d < anchor (j + 1)" "anchor k \<le> d" "d < anchor (k + 1)"
  shows "j = k"
proof (rule ccontr)
  assume "j \<noteq> k"
  then consider "j + 1 \<le> k" | "k + 1 \<le> j" by linarith
  then show False
    using anchor_le [of "j + 1" k] anchor_le [of "k + 1" j] assms by cases linarith+
qed

end

section \<open>The engine\<close>

definition utc_date :: "int \<Rightarrow> int" where
  "utc_date t = (case civil (t div day_ms) of (y, m, d) \<Rightarrow> d)"

definition set_utc_date :: "int \<Rightarrow> int \<Rightarrow> int" where
  "set_utc_date t dt =
     (case civil (t div day_ms) of
        (y, m, d) \<Rightarrow> (month_start (12 * y + (m - 1)) + dt - 1) * day_ms + t mod day_ms)"

definition effective_anchor :: "int \<Rightarrow> int \<Rightarrow> int \<Rightarrow> int" where
  "effective_anchor cycle year months0 =
     (let lastDay = utc_date (date_utc year (months0 + 1) 0)
      in date_utc year months0 (min cycle lastDay))"

definition resolve_current_period :: "string \<Rightarrow> int option \<Rightarrow> (string \<times> string) option" where
  "resolve_current_period today cycle =
     (case (date_part today 0, date_part today 1) of
        (Some y, Some m) \<Rightarrow>
          Some
            (if nullish cycle 0 \<le> 1 then
               (format_utc_date (date_utc y (m - 1) 1), format_utc_date (date_utc y m 0))
             else
               let n = the cycle;
                   anchorThisMonth = effective_anchor n y (m - 1);
                   inCurrent = (case date_part today 2 of None \<Rightarrow> False
                                | Some d \<Rightarrow> utc_date anchorThisMonth \<le> d);
                   start = (if inCurrent then anchorThisMonth else effective_anchor n y (m - 2));
                   nextAnchor = (if inCurrent then effective_anchor n y m else anchorThisMonth);
                   end' = set_utc_date nextAnchor (utc_date nextAnchor - 1)
               in (format_utc_date start, format_utc_date end'))
      | _ \<Rightarrow> None)"

section \<open>The anchors of a cycle start day\<close>

text \<open>The anchor day of month \<open>k\<close>: the configured day, clamped to the month's last day.\<close>

definition cycle_day :: "int option \<Rightarrow> int" where
  "cycle_day cycle = max 1 (nullish cycle 1)"

definition cycle_anchor :: "int option \<Rightarrow> int \<Rightarrow> int" where
  "cycle_anchor cycle k = month_start k + min (cycle_day cycle) (month_len k) - 1"

lemma cycle_anchor_in_month:
  "month_start k \<le> cycle_anchor cycle k \<and> cycle_anchor cycle k < month_start (k + 1)"
  using month_len_bounds [of k] by (auto simp: cycle_anchor_def cycle_day_def month_start_Suc)

lemma cycle_anchor_step: "cycle_anchor cycle k < cycle_anchor cycle (k + 1)"
  using cycle_anchor_in_month [of k cycle] cycle_anchor_in_month [of "k + 1" cycle] by simp

interpretation cyc: period_anchors "cycle_anchor cycle" for cycle
  by unfold_locales (rule cycle_anchor_step)

lemma cycle_anchor_gap:
  "28 \<le> cycle_anchor cycle (k + 1) - cycle_anchor cycle k"
  "cycle_anchor cycle (k + 1) - cycle_anchor cycle k \<le> 31"
  using month_len_bounds [of k] month_len_bounds [of "k + 1"]
  by (auto simp: cycle_anchor_def cycle_day_def month_start_Suc min_def)

text \<open>The dates the engine is used on: the years 101 to 9998, so that every neighbouring month prints as \<open>YYYY-MM-DD\<close>.\<close>

definition cycle_range :: "int \<Rightarrow> bool" where
  "cycle_range t \<longleftrightarrow> day_from_year 101 * day_ms \<le> t \<and> t < day_from_year 9999 * day_ms"

lemma utc_date_of_day: "utc_date (d * day_ms) = (case civil d of (y, m, dd) \<Rightarrow> dd)"
  by (simp add: utc_date_def)

lemma civil_of_index:
  assumes "1 \<le> dd" "dd \<le> month_len k"
  shows "civil (month_start k + dd - 1) = (k div 12, k mod 12 + 1, dd)"
proof -
  have e: "12 * (k div 12) + (k mod 12 + 1) - 1 = k" by simp
  have "k mod 12 < 12" by simp
  then show ?thesis
    using assms civil_unique [of "k mod 12 + 1" dd "k div 12", unfolded e] by simp
qed

lemma date_utc_index:
  "\<not> (0 \<le> y \<and> y \<le> 99) \<Longrightarrow> date_utc y m d = (month_start (12 * y + m) + d - 1) * day_ms"
  by (simp only: date_utc_def full_year_def if_False)

lemma effective_anchor_eq:
  assumes "100 \<le> y" "1 < nullish cycle 0"
  shows "effective_anchor (the cycle) y m = cycle_anchor cycle (12 * y + m) * day_ms"
proof -
  from assms obtain n where n: "cycle = Some n" "1 < n" by (cases cycle) auto
  have y: "\<not> (0 \<le> y \<and> y \<le> 99)" using assms by simp
  have "date_utc y (m + 1) 0 = (month_start (12 * y + m) + month_len (12 * y + m) - 1) * day_ms"
    by (simp add: date_utc_index [OF y] month_start_Suc flip: add.assoc)
  then have "utc_date (date_utc y (m + 1) 0) = month_len (12 * y + m)"
    using month_len_bounds [of "12 * y + m"] by (simp add: utc_date_of_day civil_of_index)
  then show ?thesis
    using n by (simp add: effective_anchor_def date_utc_index [OF y] cycle_anchor_def cycle_day_def)
qed

lemma set_utc_date_pred: "set_utc_date (d * day_ms) (utc_date (d * day_ms) - 1) = (d - 1) * day_ms"
proof -
  obtain y m dd where c: "civil d = (y, m, dd)" by (cases "civil d")
  have "month_start (12 * y + (m - 1)) + dd - 1 = d"
    using civil_month(1) [OF c] by (simp add: add_diff_eq)
  then show ?thesis by (simp add: set_utc_date_def utc_date_of_day c left_diff_distrib) (simp add: algebra_simps)
qed


text \<open>The engine computes the period between two consecutive anchors that holds today.\<close>

lemma resolve_current_period_anchor:
  assumes r: "cycle_range t" and t: "midnight t"
  obtains k where "cycle_anchor cycle k * day_ms \<le> t" "t < cycle_anchor cycle (k + 1) * day_ms"
    "12 * 100 < k" "k < 12 * 9999"
    "resolve_current_period (format_utc_date t) cycle
      = Some (format_utc_date (cycle_anchor cycle k * day_ms),
              format_utc_date ((cycle_anchor cycle (k + 1) - 1) * day_ms))"
proof -
  define D where "D = t div day_ms"
  have tD: "t = D * day_ms" using t by (simp add: D_def midnight_def)
  have dr: "day_from_year 101 \<le> D" "D < day_from_year 9999"
    using r by (simp_all add: cycle_range_def tD)
  obtain y m d where c: "civil D = (y, m, d)" by (cases "civil D")
  note f = civil_month [OF c]
  have y: "101 \<le> y" "y < 9999" using civil_year_range [OF c dr] by auto
  have fmt: "format_utc_date t = pad4 y @ CHR ''-'' # pad2 m @ CHR ''-'' # pad2 d"
    using y by (simp add: format_utc_date_def c iso_year_def flip: D_def)
  have parts: "date_part (format_utc_date t) 0 = Some y" "date_part (format_utc_date t) (Suc 0) = Some m"
    "date_part (format_utc_date t) 2 = Some d"
    using y f month_len_bounds [of "12 * y + m - 1"] unfolding fmt by (simp_all add: date_part_ymd)
  define k0 where "k0 = 12 * y + (m - 1)"
  have ks: "12 * y + m - 1 = k0" "12 * y + m = k0 + 1" "12 * y + (m - 2) = k0 - 1" "12 * y + (m - 1) = k0"
    by (simp_all add: k0_def)
  have Dk: "month_start k0 + d - 1 = D" "1 \<le> d" "d \<le> month_len k0" using f by (simp_all add: ks)
  have y': "\<not> (0 \<le> y \<and> y \<le> 99)" "100 \<le> y" using y by simp_all
  show ?thesis
  proof (cases "nullish cycle 0 \<le> 1")
    case True
    then have n1: "cycle_day cycle = 1" by (cases cycle) (auto simp: cycle_day_def)
    then have a: "cycle_anchor cycle j = month_start j" for j
      using month_len_bounds [of j] by (simp add: cycle_anchor_def)
    have "resolve_current_period (format_utc_date t) cycle
      = Some (format_utc_date (month_start k0 * day_ms), format_utc_date ((month_start (k0 + 1) - 1) * day_ms))"
      using True by (simp add: resolve_current_period_def parts date_utc_index [OF y'(1)] ks)
    moreover have "month_start k0 \<le> D" "D < month_start (k0 + 1)"
      using Dk by (simp_all add: month_start_Suc)
    ultimately show ?thesis
      using that [of k0] y f by (simp add: a tD k0_def)
  next
    case False
    then have nn: "1 < nullish cycle 0" by simp
    then have cd: "1 < cycle_day cycle" by (cases cycle) (auto simp: cycle_day_def)
    note ea = effective_anchor_eq [OF y'(2) nn]
    have ud: "utc_date (cycle_anchor cycle k0 * day_ms) = min (cycle_day cycle) (month_len k0)"
      using cd month_len_bounds [of k0] by (simp add: utc_date_of_day cycle_anchor_def civil_of_index)
    let ?in = "min (cycle_day cycle) (month_len k0) \<le> d"
    define k where "k = (if ?in then k0 else k0 - 1)"
    have res: "resolve_current_period (format_utc_date t) cycle
      = Some (format_utc_date (cycle_anchor cycle k * day_ms),
              format_utc_date ((cycle_anchor cycle (k + 1) - 1) * day_ms))"
      using False set_utc_date_pred [of "cycle_anchor cycle k0"]
      by (simp add: resolve_current_period_def parts ea ks ud k_def set_utc_date_pred Let_def)
    have inM: "month_start (k0 + 1) \<le> cycle_anchor cycle (k0 + 1)"
      using cycle_anchor_in_month [of "k0 + 1" cycle] by simp
    have "cycle_anchor cycle k \<le> D \<and> D < cycle_anchor cycle (k + 1)"
    proof (cases ?in)
      case True
      then show ?thesis using Dk inM by (simp add: k_def cycle_anchor_def [of cycle k0] month_start_Suc)
    next
      case False
      have "cycle_anchor cycle (k0 - 1) < month_start k0"
        using cycle_anchor_in_month [of "k0 - 1" cycle] by simp
      with False show ?thesis using Dk by (simp add: k_def cycle_anchor_def [of cycle k0])
    qed
    with that [of k] res y f show ?thesis by (simp add: tD k_def k0_def)
  qed
qed

lemma cycle_anchor_bounds:
  assumes "12 * 100 < k" "k \<le> 12 * 9999"
  shows "iso_range (cycle_anchor cycle k * day_ms)" "iso_range ((cycle_anchor cycle k - 1) * day_ms)"
    "midnight (cycle_anchor cycle k * day_ms)" "midnight ((cycle_anchor cycle k - 1) * day_ms)"
proof -
  have "month_start (12 * 100 + 1) \<le> month_start k" "month_start (k + 1) \<le> month_start (12 * 10000)"
    using assms by (intro month_start_mono; simp)+
  moreover have "month_start (12 * 100) < month_start (12 * 100 + 1)" by (rule month_start_less_Suc)
  ultimately have "day_from_year 100 < cycle_anchor cycle k" "cycle_anchor cycle k < day_from_year 10000"
    using cycle_anchor_in_month [of k cycle] by (simp_all only: month_start_year, linarith+)
  then show "iso_range (cycle_anchor cycle k * day_ms)" "iso_range ((cycle_anchor cycle k - 1) * day_ms)"
    "midnight (cycle_anchor cycle k * day_ms)" "midnight ((cycle_anchor cycle k - 1) * day_ms)"
    by (simp_all add: iso_range_def midnight_def)
qed


section \<open>Properties\<close>

lemma cycle_anchor_in_range:
  assumes "cycle_range t" "midnight t" "resolve_current_period (format_utc_date t) cycle = Some (from, till)"
  obtains k where "from = format_utc_date (cycle_anchor cycle k * day_ms)"
    "till = format_utc_date ((cycle_anchor cycle (k + 1) - 1) * day_ms)"
    "to_utc_midnight from = Some (cycle_anchor cycle k * day_ms)"
    "to_utc_midnight till = Some ((cycle_anchor cycle (k + 1) - 1) * day_ms)"
    "cycle_anchor cycle k * day_ms \<le> t" "t < cycle_anchor cycle (k + 1) * day_ms"
proof -
  obtain k where k: "cycle_anchor cycle k * day_ms \<le> t" "t < cycle_anchor cycle (k + 1) * day_ms"
    "12 * 100 < k" "k < 12 * 9999"
    "resolve_current_period (format_utc_date t) cycle
      = Some (format_utc_date (cycle_anchor cycle k * day_ms),
              format_utc_date ((cycle_anchor cycle (k + 1) - 1) * day_ms))"
    by (rule resolve_current_period_anchor [OF assms(1,2)])
  from k(5) assms(3) have ft: "from = format_utc_date (cycle_anchor cycle k * day_ms)"
    "till = format_utc_date ((cycle_anchor cycle (k + 1) - 1) * day_ms)" by simp_all
  show ?thesis
    by (rule that [OF ft _ _ k(1,2)])
      (use k(3,4) in \<open>simp_all add: ft cycle_anchor_bounds to_utc_midnight_format_midnight\<close>)
qed

lemma midnight_less_le: "midnight t \<Longrightarrow> t < d * day_ms \<Longrightarrow> t \<le> (d - 1) * day_ms"
  by (auto simp: midnight_def mult.commute [of day_ms] elim!: dvdE)

text \<open>
  (C25) The current billing period contains today: the engine returns, its bounds are
  dates with from <= today <= to, and the period is 28 to 31 days long, whatever cycle
  start day is configured and however it is clamped to short months.
\<close>

theorem current_period_contains_today:
  assumes "cycle_range t" "midnight t"
  shows "\<exists>from till a b. resolve_current_period (format_utc_date t) cycle = Some (from, till)
    \<and> to_utc_midnight from = Some a \<and> to_utc_midnight till = Some b
    \<and> a \<le> t \<and> t \<le> b \<and> 28 * day_ms \<le> b - a + day_ms \<and> b - a + day_ms \<le> 31 * day_ms"
proof -
  obtain k where k: "cycle_anchor cycle k * day_ms \<le> t" "t < cycle_anchor cycle (k + 1) * day_ms"
    "12 * 100 < k" "k < 12 * 9999"
    "resolve_current_period (format_utc_date t) cycle
      = Some (format_utc_date (cycle_anchor cycle k * day_ms),
              format_utc_date ((cycle_anchor cycle (k + 1) - 1) * day_ms))"
    by (rule resolve_current_period_anchor [OF assms])
  let ?a = "cycle_anchor cycle k * day_ms" and ?b = "(cycle_anchor cycle (k + 1) - 1) * day_ms"
  have e: "?b - ?a + day_ms = (cycle_anchor cycle (k + 1) - cycle_anchor cycle k) * day_ms"
    by (simp add: algebra_simps)
  have "28 * day_ms \<le> ?b - ?a + day_ms" "?b - ?a + day_ms \<le> 31 * day_ms"
    unfolding e by (intro mult_right_mono; simp add: cycle_anchor_gap less_imp_le)+
  moreover have "to_utc_midnight (format_utc_date ?a) = Some ?a" "to_utc_midnight (format_utc_date ?b) = Some ?b"
    using k by (simp_all add: cycle_anchor_bounds to_utc_midnight_format_midnight)
  ultimately show ?thesis
    using k(1,5) midnight_less_le [OF assms(2) k(2)] by blast
qed

theorem current_period_contains_today_witness:
  "\<exists>from till a b. resolve_current_period (format_utc_date (day_ms * 20818)) (Some 31) = Some (from, till)
    \<and> to_utc_midnight from = Some a \<and> to_utc_midnight till = Some b
    \<and> a \<le> day_ms * 20818 \<and> day_ms * 20818 \<le> b
    \<and> 28 * day_ms \<le> b - a + day_ms \<and> b - a + day_ms \<le> 31 * day_ms"
  by (rule current_period_contains_today)
    (simp_all add: cycle_range_def midnight_def day_from_year_def day_ms_def)

text \<open>
  The periods partition the calendar: every date of a period resolves to that
  same period, so no date belongs to two periods and no date of it is lost.
\<close>

lemma period_partition:
  assumes "cycle_range t" "midnight t" "cycle_range s" "midnight s"
    and "resolve_current_period (format_utc_date t) cycle = Some (from, till)"
    and "to_utc_midnight from = Some a" "to_utc_midnight till = Some b" "a \<le> s" "s \<le> b"
  shows "resolve_current_period (format_utc_date s) cycle = Some (from, till)"
proof -
  obtain k where k: "from = format_utc_date (cycle_anchor cycle k * day_ms)"
      "till = format_utc_date ((cycle_anchor cycle (k + 1) - 1) * day_ms)"
      "a = cycle_anchor cycle k * day_ms" "b = (cycle_anchor cycle (k + 1) - 1) * day_ms"
    by (rule cycle_anchor_in_range [OF assms(1,2,5)]) (use assms(6,7) in auto)
  obtain j where j: "cycle_anchor cycle j * day_ms \<le> s" "s < cycle_anchor cycle (j + 1) * day_ms"
    "resolve_current_period (format_utc_date s) cycle
      = Some (format_utc_date (cycle_anchor cycle j * day_ms),
              format_utc_date ((cycle_anchor cycle (j + 1) - 1) * day_ms))"
    by (rule resolve_current_period_anchor [OF assms(3,4)])
  obtain q where q: "s = q * day_ms" using assms(4) by (auto simp: midnight_def mult.commute elim!: dvdE)
  have "j = k"
    using j k assms(8,9) by (intro cyc.period_unique [of cycle j q k]) (auto simp: q)
  with j k show ?thesis by simp
qed

text \<open>
  Consecutive periods meet without a gap: the day after a period's last day is
  the first day of the period that this day resolves to.
\<close>

lemma period_consecutive:
  assumes "cycle_range t" "midnight t" "cycle_range (b + day_ms)"
    and "resolve_current_period (format_utc_date t) cycle = Some (from, till)"
    and "to_utc_midnight till = Some b"
  shows "\<exists>till'. resolve_current_period (format_utc_date (b + day_ms)) cycle
    = Some (format_utc_date (b + day_ms), till')"
proof -
  obtain k where k: "b = (cycle_anchor cycle (k + 1) - 1) * day_ms"
    by (rule cycle_anchor_in_range [OF assms(1,2,4)]) (use assms(5) in auto)
  then have b: "b + day_ms = cycle_anchor cycle (k + 1) * day_ms" by (simp add: algebra_simps)
  then have m: "midnight (b + day_ms)" by (simp add: midnight_def)
  obtain j where j: "cycle_anchor cycle j * day_ms \<le> b + day_ms" "b + day_ms < cycle_anchor cycle (j + 1) * day_ms"
    "resolve_current_period (format_utc_date (b + day_ms)) cycle
      = Some (format_utc_date (cycle_anchor cycle j * day_ms),
              format_utc_date ((cycle_anchor cycle (j + 1) - 1) * day_ms))"
    by (rule resolve_current_period_anchor [OF assms(3) m])
  have "j = k + 1"
    using j b cyc.anchor_step [of cycle "k + 1"]
    by (intro cyc.period_unique [of cycle j "cycle_anchor cycle (k + 1)"]) auto
  with j b show ?thesis by simp
qed


end
