(* ===== verification/Store.thy ===== *)
theory Store
  imports Preferences Js_Date
begin

text \<open>
  The database tables the attendance, vacation and billing services share, as lists of
  records (\<open>src/prisma/schema.prisma\<close>).  A nullable column is an option, an instant is a
  number of milliseconds, and a string column with a closed set of values is a datatype.
\<close>

datatype att_status = Pending | Present | Absent | Skipped | OnVacation

record attendance_row =
  at_id :: ident
  at_org :: ident
  at_group :: ident
  at_user :: ident
  at_meal :: ident
  at_date :: int
  at_status :: att_status
  at_preference :: "string option"
  at_preferences :: "selection_row list option"
  at_note :: "string option"
  at_marked_at :: "int option"
  at_marked_by :: "ident option"
  at_price :: "int option"
  at_bill_absent :: "bool option"
  at_source :: "string option"
  at_source_request :: "ident option"
  at_guest_adults :: int
  at_guest_children :: int

datatype guest_status = Booked | Cancelled | NoShow

record guest_row =
  hg_id :: ident
  hg_org :: ident
  hg_group :: ident
  hg_meal :: ident
  hg_date :: int
  hg_host :: ident
  hg_status :: guest_status
  hg_pending :: bool
  hg_price :: "int option"
  hg_auto_cancelled :: bool
  hg_is_adult :: bool
  hg_name :: "string option"
  hg_preference :: "string option"
  hg_selections :: "selection_row list option"
  hg_created_by :: ident
  hg_approved_by :: "ident option"
  hg_approved_at :: "int option"
  hg_cancelled_by :: "ident option"
  hg_cancelled_at :: "int option"

datatype ledger_type = Credit | Debit | Refund
datatype ledger_status = EntryPosted | EntryPending | EntryRejected

record ledger_row =
  le_id :: ident
  le_org :: ident
  le_group :: ident
  le_user :: ident
  le_date :: int
  le_type :: ledger_type
  le_amount :: int
  le_reason :: string
  le_ref_record :: "ident option"
  le_ref_guest :: "ident option"
  le_ref_request :: "ident option"
  le_created_by :: ident
  le_status :: ledger_status
  le_decided_by :: "ident option"
  le_decided_at :: "int option"

datatype period_status = Finalized | Reopened

text \<open>
  \<open>totalsSnapshot\<close> is JSON: its reader checks the shape, so the member list and the two
  fields it reads are options.
\<close>

record snapshot_member =
  sm_user :: "ident option"
  sm_present_count :: int
  sm_total_amount :: int
  sm_billed :: int
  sm_guest :: int
  sm_adjustments :: int
  sm_opening :: int
  sm_closing :: "int option"

record totals_snapshot =
  ts_carried_through :: "string option"
  ts_members :: "snapshot_member list option"

record period_row =
  bp_id :: ident
  bp_org :: ident
  bp_group :: ident
  bp_start :: int
  bp_end :: int
  bp_status :: period_status
  bp_finalized_by :: ident
  bp_reopened_by :: "ident option"
  bp_reopen_reason :: "string option"
  bp_snapshot :: "totals_snapshot option"

record group_row =
  gr_id :: ident
  gr_org :: ident
  gr_is_active :: bool
  gr_timezone :: "string option"
  gr_meals_enabled :: bool
  gr_pricing_enabled :: bool
  gr_weekly_menu :: bool
  gr_day_wise :: bool
  gr_vacation_enabled :: bool
  gr_vacation_approval :: bool
  gr_grace_minutes :: "int option"
  gr_attendance_default :: "string option"
  gr_guest_enabled :: bool
  gr_bill_no_show :: bool
  gr_bill_skipped :: bool
  gr_bill_absent :: "bool option"
  gr_prefs_enabled :: bool
  gr_enabled_prefs :: "string list"
  gr_guest_per_meal :: "int option"
  gr_guest_per_day :: "int option"
  gr_guest_pricing :: "string option"
  gr_guest_surcharge :: "int option"
  gr_guest_surcharge_type :: "string option"
  gr_guest_approval :: bool
  gr_guest_cutoff :: "int option"
  gr_guest_advance :: "int option"
  gr_guest_pref_required :: bool
  gr_guest_without_host :: bool
  gr_min_opt_out :: "int option"
  gr_admin :: "ident option"
  gr_created_at :: int
  gr_cycle_day :: "int option"
  gr_purge_through :: "int option"
  gr_first_published :: "int option"
  gr_anchored_at :: "int option"
  gr_name :: string
  gr_type :: string
  gr_join_token :: string
  gr_token_expires :: "int option"
  gr_max_members :: "int option"
  gr_approval_required :: bool
  gr_qr_days :: "int option"
  gr_archived_at :: "int option"
  gr_guest_adult :: "int option"
  gr_guest_child :: "int option"

record user_row =
  us_id :: ident
  us_org :: ident
  us_vacation :: bool
  us_default :: bool
  us_role :: string
  us_reminders :: bool

datatype member_status = MemberActive | MemberPending | MemberBlocked | MemberRemoved

record member_row =
  gm_group :: ident
  gm_user :: ident
  gm_status :: member_status
  gm_vacation :: "bool option"
  gm_default :: "bool option"
  gm_id :: ident
  gm_blocked_at :: "int option"
  gm_removed_at :: "int option"
  gm_updated_at :: int
  gm_role :: string
  gm_functional :: "string option"
  gm_blocked_by :: "ident option"
  gm_removed_by :: "ident option"
  gm_reviewed_by :: "ident option"
  gm_reviewed_at :: "int option"
  gm_review_note :: "string option"

datatype request_status = ReqPending | ReqApproved | ReqRejected | ReqCancelled | ReqExpired

datatype correction_type = ClaimPresent | CorrectToAbsent | FixPreference | DisputeCharge

record correction_row =
  cr_id :: ident
  cr_org :: ident
  cr_group :: ident
  cr_user :: ident
  cr_meal :: ident
  cr_date :: int
  cr_type :: correction_type
  cr_requested_status :: "att_status option"
  cr_requested_preference :: "string option"
  cr_requested_selections :: "selection list option"
  cr_reason :: "string option"
  cr_evidence :: "string option"
  cr_status :: request_status
  cr_reviewed_by :: "ident option"
  cr_reviewed_at :: "int option"
  cr_review_note :: "string option"
  cr_channel :: string
  cr_result :: "ident option"
  cr_created_at :: int
  cr_expires_at :: int

record db =
  db_attendance :: "attendance_row list"
  db_guests :: "guest_row list"
  db_ledger :: "ledger_row list"
  db_periods :: "period_row list"
  db_groups :: "group_row list"
  db_members :: "member_row list"
  db_corrections :: "correction_row list"

definition find_group :: "db \<Rightarrow> ident \<Rightarrow> ident \<Rightarrow> group_row option" where
  "find_group d gid org = find (\<lambda>g. gr_id g = gid \<and> gr_org g = org) (db_groups d)"

lemma find_groupD: "find_group d gid org = Some g \<Longrightarrow> g \<in> set (db_groups d) \<and> gr_id g = gid \<and> gr_org g = org"
  by (auto simp: find_group_def dest: find_SomeD)

text \<open>A priced meal group, for concrete inputs.\<close>

definition ex_group :: group_row where
  "ex_group = \<lparr>gr_id = ''g'', gr_org = ''o'', gr_is_active = True, gr_timezone = None, gr_meals_enabled = True,
     gr_pricing_enabled = True, gr_weekly_menu = True, gr_day_wise = False, gr_vacation_enabled = True,
     gr_vacation_approval = False, gr_grace_minutes = None, gr_attendance_default = None,
     gr_guest_enabled = False, gr_bill_no_show = True, gr_bill_skipped = False, gr_bill_absent = None,
     gr_prefs_enabled = True, gr_enabled_prefs = [], gr_guest_per_meal = None, gr_guest_per_day = None,
     gr_guest_pricing = None, gr_guest_surcharge = None, gr_guest_surcharge_type = None,
     gr_guest_approval = False, gr_guest_cutoff = None, gr_guest_advance = None,
     gr_guest_pref_required = False, gr_guest_without_host = False,
     gr_min_opt_out = None, gr_admin = Some ''admin'', gr_created_at = 0, gr_cycle_day = None,
     gr_purge_through = None, gr_first_published = None, gr_anchored_at = None,
     gr_name = ''Hostel'', gr_type = ''hostel'', gr_join_token = ''JOINCODE'', gr_token_expires = None,
     gr_max_members = None, gr_approval_required = False, gr_qr_days = None, gr_archived_at = None,
     gr_guest_adult = None, gr_guest_child = None\<rparr>"

end
