(* ===== verification/Vacations.thy ===== *)
theory Vacations
  imports Store Published_Day Windows
begin

text \<open>
  Vacations: the coverage rule of \<open>src/src/common/utils/vacation-coverage.util.ts\<close>, the
  per-group flags of \<open>member-settings.util.ts\<close>, and the request workflow (create, approve,
  reject, cancel) of \<open>src/src/features/vacations/vacations.service.ts\<close> with its repository.
  Notices, pushes and audit are left out; the organisation's clock is an argument.
\<close>

section \<open>Rows\<close>

datatype vac_status = VacPending | VacApproved | VacRejected | VacCancelled

record vacation_range =
  vr_group :: "ident option"
  vr_start :: int
  vr_end :: int
  vr_start_slot :: "string option"
  vr_end_slot :: "string option"

record vacation_row = vacation_range +
  vr_id :: ident
  vr_org :: ident
  vr_user :: ident
  vr_status :: vac_status
  vr_reviewed_by :: "ident option"
  vr_review_note :: "string option"
  vr_deleted :: bool

record taken_meal =
  tm_id :: ident
  tm_org :: ident
  tm_group :: ident
  tm_slot :: string
  tm_name :: string
  tm_open :: "string option"

record vac_db =
  vd_requests :: "vacation_row list"
  vd_users :: "user_row list"
  vd_members :: "member_row list"
  vd_groups :: "group_row list"
  vd_attendance :: "attendance_row list"
  vd_meals :: "taken_meal list"

section \<open>Coverage\<close>

definition vac_hhmm_to_minutes :: "string option \<Rightarrow> int option" where
  "vac_hhmm_to_minutes t =
     (if \<not> truthy t then None else map_option (\<lambda>(h, m). h * 60 + m) (match_hhmm (the t)))"

definition bound_allows_start :: "(string \<Rightarrow> int option) \<Rightarrow> 'a vacation_range_scheme \<Rightarrow> int \<Rightarrow> int \<Rightarrow> bool" where
  "bound_allows_start slot_open req t open_minutes =
     (if t = vr_start req \<and> truthy (vr_start_slot req)
      then (case slot_open (the (vr_start_slot req)) of None \<Rightarrow> True | Some bound \<Rightarrow> \<not> open_minutes < bound)
      else True)"

definition bound_allows_end :: "(string \<Rightarrow> int option) \<Rightarrow> 'a vacation_range_scheme \<Rightarrow> int \<Rightarrow> int \<Rightarrow> bool" where
  "bound_allows_end slot_open req t open_minutes =
     (if t = vr_end req \<and> truthy (vr_end_slot req)
      then (case slot_open (the (vr_end_slot req)) of None \<Rightarrow> True | Some bound \<Rightarrow> \<not> bound < open_minutes)
      else True)"

definition covered_by_identity :: "'a vacation_range_scheme \<Rightarrow> int \<Rightarrow> string option \<Rightarrow> bool" where
  "covered_by_identity req t slot =
     (let isStart = (t = vr_start req); isEnd = (t = vr_end req);
          startId = (isStart \<and> vr_start_slot req = slot);
          endId = (isEnd \<and> vr_end_slot req = slot)
      in truthy slot
         \<and> ((startId \<and> (\<not> isEnd \<or> \<not> truthy (vr_end_slot req) \<or> endId))
            \<or> (endId \<and> (\<not> isStart \<or> \<not> truthy (vr_start_slot req) \<or> startId))))"

definition request_covers_meal ::
  "'a vacation_range_scheme \<Rightarrow> int \<Rightarrow> int option \<Rightarrow> (string \<Rightarrow> int option) \<Rightarrow> string option \<Rightarrow> bool" where
  "request_covers_meal req t open_minutes slot_open slot =
     (if t < vr_start req \<or> vr_end req < t then False
      else if (t \<noteq> vr_start req \<or> \<not> truthy (vr_start_slot req)) \<and> (t \<noteq> vr_end req \<or> \<not> truthy (vr_end_slot req))
      then True
      else if covered_by_identity req t slot then True
      else
        (case open_minutes of
           None \<Rightarrow> True
         | Some m \<Rightarrow> bound_allows_start slot_open req t m \<and> bound_allows_end slot_open req t m))"

definition master_slot_open :: "taken_meal list \<Rightarrow> ident \<Rightarrow> string \<Rightarrow> int option" where
  "master_slot_open group_meals gid slot =
     vac_hhmm_to_minutes
       (Option.bind (find (\<lambda>g. tm_group g = gid \<and> tm_slot g = slot) group_meals) tm_open)"

definition find_covered_taken_meal ::
  "'a vacation_range_scheme \<Rightarrow> int \<Rightarrow> taken_meal list \<Rightarrow> taken_meal list \<Rightarrow> taken_meal option" where
  "find_covered_taken_meal req t taken group_meals =
     find (\<lambda>m. request_covers_meal req t (vac_hhmm_to_minutes (tm_open m))
                 (master_slot_open group_meals (tm_group m)) (Some (tm_slot m))) taken"

definition resolve_vacation_scope :: "vacation_range list \<Rightarrow> int \<Rightarrow> ident list option" where
  "resolve_vacation_scope approved today =
     (let covering = filter (\<lambda>r. vr_start r \<le> today \<and> today \<le> vr_end r) approved
      in if covering = [] then None
         else if \<exists>r\<in>set covering. vr_group r = None then None
         else Some (set_union_order [] (map (\<lambda>r. the (vr_group r)) covering)))"

fun split_vacation_targets :: "vacation_range list \<Rightarrow> bool \<Rightarrow> ident list \<Rightarrow> bool \<times> ident list" where
  "split_vacation_targets [] org_level ids = (org_level, ids)"
| "split_vacation_targets (r # rs) org_level ids =
     (case vr_group r of
        None \<Rightarrow> split_vacation_targets rs True ids
      | Some g \<Rightarrow> split_vacation_targets rs org_level (set_union_order ids [g]))"

definition resolve_member_flag :: "bool option \<Rightarrow> bool option \<Rightarrow> bool" where
  "resolve_member_flag member user = (case member of Some b \<Rightarrow> b | None \<Rightarrow> user = Some True)"

text \<open>The database form of the same rule, \<open>memberFlagWhere\<close>.\<close>

definition member_flag_where :: "bool \<Rightarrow> bool option \<Rightarrow> bool \<Rightarrow> bool" where
  "member_flag_where expected member user \<longleftrightarrow> member = Some expected \<or> (member = None \<and> user = expected)"

section \<open>Who is on vacation for a meal\<close>

definition boundary_slots :: "vacation_row list \<Rightarrow> int \<Rightarrow> string list" where
  "boundary_slots reqs t =
     set_union_order []
       (concat (map (\<lambda>r.
          (if truthy (vr_start_slot r) \<and> vr_start r = t then [the (vr_start_slot r)] else []) @
          (if truthy (vr_end_slot r) \<and> vr_end r = t then [the (vr_end_slot r)] else [])) reqs))"

definition effective_slot_open :: "(ident \<times> day_entry) list \<Rightarrow> taken_meal \<Rightarrow> string option" where
  "effective_slot_open day_entries m =
     (case map_of day_entries (tm_id m) of
        None \<Rightarrow> tm_open m
      | Some de \<Rightarrow>
          nullish_opt (de_open_time de)
            (nullish_opt (if de_frozen de then Option.bind (de_meal de) dm_window_open else None) (tm_open m)))"

definition slot_opens ::
  "taken_meal list \<Rightarrow> (ident \<times> day_entry) list \<Rightarrow> ident \<Rightarrow> string list \<Rightarrow> string \<Rightarrow> int option" where
  "slot_opens meals day_entries gid keys slot =
     (case find (\<lambda>m. tm_slot m = slot) (rev (filter (\<lambda>m. tm_group m = gid \<and> tm_slot m \<in> set keys) meals)) of
        None \<Rightarrow> None
      | Some m \<Rightarrow> vac_hhmm_to_minutes (effective_slot_open day_entries m))"

definition approved_on :: "vacation_row list \<Rightarrow> ident \<Rightarrow> int \<Rightarrow> vacation_row list" where
  "approved_on reqs org t =
     filter (\<lambda>r. vr_org r = org \<and> vr_status r = VacApproved \<and> \<not> vr_deleted r \<and> vr_start r \<le> t \<and> t \<le> vr_end r) reqs"

definition governs_group :: "ident \<Rightarrow> vacation_row \<Rightarrow> bool" where
  "governs_group gid r \<longleftrightarrow> \<not> (truthy (vr_group r) \<and> vr_group r \<noteq> Some gid)"

text \<open>\<open>day\<close> is what the published-day resolver returned; an error falls back to no entries.\<close>

definition vacation_covered ::
  "vacation_row list \<Rightarrow> taken_meal list \<Rightarrow> exn + (ident \<times> day_entry) list \<Rightarrow> ident \<Rightarrow> ident \<Rightarrow> int
     \<Rightarrow> string option \<Rightarrow> string option \<Rightarrow> (ident \<times> bool) list \<Rightarrow> ident list" where
  "vacation_covered requests meals day org gid t meal_open meal_slot candidates =
     (if candidates = [] then []
      else
        let reqs = filter (\<lambda>r. vr_user r \<in> fst ` set candidates) (approved_on requests org t);
            keys = boundary_slots reqs t;
            entries = (case day of Inl _ \<Rightarrow> [] | Inr m \<Rightarrow> m);
            opens = (if keys = [] then (\<lambda>_. None) else slot_opens meals entries gid keys);
            own = (\<lambda>u. filter (\<lambda>r. vr_user r = u \<and> governs_group gid r) reqs)
        in set_union_order []
             (map fst
               (filter (\<lambda>(u, flag).
                  if own u \<noteq> []
                  then \<exists>r\<in>set (own u). request_covers_meal r t (vac_hhmm_to_minutes meal_open) opens meal_slot
                  else flag) candidates)))"

section \<open>The request workflow\<close>

text \<open>
  \<open>parseDate\<close>: a plain calendar date is UTC midnight, anything else goes to the
  runtime's \<open>Date\<close> parser, which is the argument \<open>js_parse\<close>.
\<close>

definition plain_date :: "string \<Rightarrow> bool" where
  "plain_date s \<longleftrightarrow>
     (case js_split (CHR ''-'') s of
        [y, m, d] \<Rightarrow> length y = 4 \<and> length m = 2 \<and> length d = 2
           \<and> (\<forall>c\<in>set (y @ m @ d). digit_val c \<noteq> None)
      | _ \<Rightarrow> False)"

definition parse_date :: "(string \<Rightarrow> int option) \<Rightarrow> string \<Rightarrow> int option" where
  "parse_date js_parse s = (if plain_date s then to_utc_midnight s else js_parse s)"

definition slot_key_of :: "string option \<Rightarrow> string option" where
  "slot_key_of s =
     (case s of None \<Rightarrow> None | Some k \<Rightarrow> (let l = js_lower (js_trim k) in if l = [] then None else Some l))"

record vacation_dto =
  vt_start :: string
  vt_end :: string
  vt_group :: "ident option"
  vt_start_slot :: "string option"
  vt_end_slot :: "string option"

definition live_request :: "vacation_row \<Rightarrow> bool" where
  "live_request r \<longleftrightarrow> \<not> vr_deleted r \<and> (vr_status r = VacPending \<or> vr_status r = VacApproved)"

definition find_overlapping ::
  "vacation_row list \<Rightarrow> ident \<Rightarrow> ident \<Rightarrow> ident option \<Rightarrow> int \<Rightarrow> int \<Rightarrow> vacation_row option" where
  "find_overlapping reqs user org grp a b =
     find (\<lambda>r. vr_org r = org \<and> vr_user r = user \<and> live_request r \<and> vr_start r \<le> b \<and> a \<le> vr_end r
              \<and> (truthy grp \<longrightarrow> vr_group r = grp \<or> vr_group r = None)) reqs"

definition org_of_group :: "vac_db \<Rightarrow> ident \<Rightarrow> ident \<Rightarrow> bool" where
  "org_of_group d gid org \<longleftrightarrow> (\<exists>g\<in>set (vd_groups d). gr_id g = gid \<and> gr_org g = org)"

definition has_active_membership :: "vac_db \<Rightarrow> ident \<Rightarrow> ident \<Rightarrow> ident \<Rightarrow> bool" where
  "has_active_membership d user org gid \<longleftrightarrow>
     (\<exists>m\<in>set (vd_members d). gm_group m = gid \<and> gm_user m = user \<and> gm_status m = MemberActive
        \<and> (\<exists>g\<in>set (vd_groups d). gr_id g = gid \<and> gr_org g = org \<and> gr_is_active g))"

definition find_today_taken ::
  "vac_db \<Rightarrow> ident \<Rightarrow> ident \<Rightarrow> ident option \<Rightarrow> int \<Rightarrow> taken_meal list \<times> taken_meal list" where
  "find_today_taken d user org grp today =
     (let records = filter (\<lambda>a. at_org a = org \<and> at_user a = user \<and> at_date a = today
                        \<and> at_status a \<in> {Present, Absent, Skipped}
                        \<and> (truthy grp \<longrightarrow> Some (at_group a) = grp)) (vd_attendance d);
          meals = filter (\<lambda>m. tm_org m = org
                     \<and> (if truthy grp then Some (tm_group m) = grp else tm_group m \<in> at_group ` set records))
                    (vd_meals d)
      in (filter (\<lambda>m. tm_id m \<in> at_meal ` set records) meals, meals))"

definition new_request :: "ident \<Rightarrow> ident \<Rightarrow> ident \<Rightarrow> vacation_dto \<Rightarrow> int \<Rightarrow> int \<Rightarrow> vacation_row" where
  "new_request new_id user org dto a b =
     \<lparr>vr_group = vt_group dto, vr_start = a, vr_end = b,
      vr_start_slot = slot_key_of (vt_start_slot dto), vr_end_slot = slot_key_of (vt_end_slot dto),
      vr_id = new_id, vr_org = org, vr_user = user, vr_status = VacPending, vr_reviewed_by = None,
      vr_review_note = None, vr_deleted = False\<rparr>"

definition create_vacation ::
  "(string \<Rightarrow> int option) \<Rightarrow> string \<Rightarrow> ident \<Rightarrow> ident \<Rightarrow> ident \<Rightarrow> vacation_dto \<Rightarrow> vac_db \<Rightarrow> exn + vac_db" where
  "create_vacation js_parse org_today new_id user org dto d =
     (let start = parse_date js_parse (vt_start dto); end' = parse_date js_parse (vt_end dto);
          today = to_utc_midnight org_today
      in if js_lt end' start then Inl (BadRequest ''Invalid vacation range'')
         else if js_lt start today then Inl (Unprocessable ''VACATION_PAST_DATES'')
         else
           (case (start, end', today) of
              (Some a, Some b, Some now) \<Rightarrow>
                if 364 * day_ms < b - a then Inl (Unprocessable ''VACATION_RANGE_TOO_LARGE'')
                else if truthy (vt_group dto) \<and> \<not> has_active_membership d user org (the (vt_group dto))
                then Inl (Forbidden ''GROUP_MEMBERSHIP_REQUIRED'')
                else if a = now
                     \<and> (case find_today_taken d user org (vt_group dto) now of
                          (taken, group_meals) \<Rightarrow>
                            find_covered_taken_meal (new_request new_id user org dto a b) now taken group_meals \<noteq> None)
                then Inl (Unprocessable ''VACATION_MEAL_ALREADY_TAKEN'')
                else if find_overlapping (vd_requests d) user org (vt_group dto) a b \<noteq> None
                then Inl (Unprocessable ''VACATION_OVERLAP'')
                else Inr (d\<lparr>vd_requests := vd_requests d @ [new_request new_id user org dto a b]\<rparr>)
            | _ \<Rightarrow> Inl BadDate))"

definition load_request :: "vac_db \<Rightarrow> ident \<Rightarrow> ident \<Rightarrow> exn + vacation_row" where
  "load_request d i org =
     orErr (find (\<lambda>r. vr_id r = i \<and> vr_org r = org \<and> \<not> vr_deleted r) (vd_requests d))
       (NotFound ''Vacation request not found'')"

definition update_status ::
  "ident \<Rightarrow> ident \<Rightarrow> vac_status \<Rightarrow> ident option \<Rightarrow> string option \<Rightarrow> vac_db \<Rightarrow> vac_db" where
  "update_status i org st by_whom note d =
     d\<lparr>vd_requests := map (\<lambda>r. if vr_id r = i \<and> vr_org r = org
          then r\<lparr>vr_status := st, vr_reviewed_by := by_whom, vr_review_note := note\<rparr> else r) (vd_requests d)\<rparr>"

definition set_user_vacation :: "ident \<Rightarrow> ident \<Rightarrow> bool \<Rightarrow> ident option \<Rightarrow> vac_db \<Rightarrow> vac_db" where
  "set_user_vacation user org flag grp d =
     (if truthy grp then
        d\<lparr>vd_members := map (\<lambda>m. if gm_user m = user \<and> Some (gm_group m) = grp \<and> org_of_group d (gm_group m) org
             then m\<lparr>gm_vacation := (if flag then Some True else None)\<rparr> else m) (vd_members d)\<rparr>
      else
        let d1 = d\<lparr>vd_users := map (\<lambda>u. if us_id u = user \<and> us_org u = org then u\<lparr>us_vacation := flag\<rparr> else u) (vd_users d)\<rparr>
        in if flag
           then d1\<lparr>vd_members := map (\<lambda>m. if gm_user m = user \<and> gm_vacation m \<noteq> None \<and> org_of_group d (gm_group m) org
                  then m\<lparr>gm_vacation := None\<rparr> else m) (vd_members d1)\<rparr>
           else d1)"

definition approve_vacation :: "int \<Rightarrow> ident \<Rightarrow> ident \<Rightarrow> ident \<Rightarrow> string option \<Rightarrow> vac_db \<Rightarrow> exn + vac_db" where
  "approve_vacation today admin org i note d =
     bindE (load_request d i org) (\<lambda>r.
       if vr_status r \<noteq> VacPending then Inl (BadRequest ''Only pending requests can be approved'')
       else
         let d1 = update_status i org VacApproved (Some admin) note d
         in if vr_start r \<le> today \<and> today \<le> vr_end r
            then Inr (set_user_vacation (vr_user r) org True (vr_group r) d1) else Inr d1)"

definition reject_vacation :: "ident \<Rightarrow> ident \<Rightarrow> ident \<Rightarrow> string option \<Rightarrow> vac_db \<Rightarrow> exn + vac_db" where
  "reject_vacation admin org i note d =
     bindE (load_request d i org) (\<lambda>r.
       if vr_status r \<noteq> VacPending then Inl (BadRequest ''Only pending requests can be rejected'')
       else Inr (update_status i org VacRejected (Some admin) note d))"

definition has_approved_covering :: "vac_db \<Rightarrow> ident \<Rightarrow> ident \<Rightarrow> int \<Rightarrow> ident \<Rightarrow> ident option \<Rightarrow> bool" where
  "has_approved_covering d user org today exclude scope =
     (\<exists>r\<in>set (vd_requests d). vr_org r = org \<and> vr_user r = user \<and> vr_status r = VacApproved \<and> \<not> vr_deleted r
        \<and> vr_start r \<le> today \<and> today \<le> vr_end r \<and> vr_id r \<noteq> exclude
        \<and> (if truthy scope then vr_group r = scope \<or> vr_group r = None else vr_group r = None))"

definition cancel_vacation ::
  "int \<Rightarrow> ident \<Rightarrow> bool \<Rightarrow> ident \<Rightarrow> ident \<Rightarrow> string option \<Rightarrow> vac_db \<Rightarrow> exn + vac_db" where
  "cancel_vacation today user is_admin org i note d =
     bindE (load_request d i org) (\<lambda>r.
       if \<not> is_admin \<and> vr_user r \<noteq> user then Inl (Forbidden ''Not the owner'')
       else if vr_status r = VacCancelled \<or> vr_status r = VacRejected
       then Inl (BadRequest ''Request cannot be cancelled'')
       else if vr_status r = VacApproved \<and> vr_end r < today
       then Inl (BadRequest ''This vacation has already ended'')
       else
         let d1 = update_status i org VacCancelled (if is_admin then Some user else vr_reviewed_by r)
                    (nullish_opt note (vr_review_note r)) d
         in if vr_status r = VacApproved
               \<and> \<not> has_approved_covering d1 (vr_user r) org today i (vr_group r)
            then Inr (set_user_vacation (vr_user r) org False (vr_group r) d1) else Inr d1)"

section \<open>The coverage rule\<close>

lemma covers_bounds: "request_covers_meal r t m so sl \<Longrightarrow> vr_start r \<le> t \<and> t \<le> vr_end r"
  by (auto simp: request_covers_meal_def split: if_splits)

lemma covers_interior: "vr_start r < t \<Longrightarrow> t < vr_end r \<Longrightarrow> request_covers_meal r t m so sl"
  by (simp add: request_covers_meal_def)









section \<open>Who is covered\<close>

lemma set_vacation_covered:
  "u \<in> set (vacation_covered requests meals day org gid t mo ms cands) \<longleftrightarrow>
     (\<exists>flag. (u, flag) \<in> set cands \<and>
        (let reqs = filter (\<lambda>r. vr_user r \<in> fst ` set cands) (approved_on requests org t);
             keys = boundary_slots reqs t;
             opens = (if keys = [] then (\<lambda>_. None) else slot_opens meals (case day of Inl _ \<Rightarrow> [] | Inr m \<Rightarrow> m) gid keys);
             own = filter (\<lambda>r. vr_user r = u \<and> governs_group gid r) reqs
         in if own \<noteq> [] then \<exists>r\<in>set own. request_covers_meal r t (vac_hhmm_to_minutes mo) opens ms else flag))"
  by (cases "cands = []") (force simp: vacation_covered_def Let_def image_iff)+

lemma slot_opens_key:
  assumes "s \<in> set keys"
  shows "slot_opens meals es gid keys s = slot_opens meals es gid [s] s"
proof -
  have f: "find (\<lambda>m. tm_slot m = s) (filter (\<lambda>m. tm_group m = gid \<and> tm_slot m \<in> set ks) xs)
      = find (\<lambda>m. tm_slot m = s) (filter (\<lambda>m. tm_group m = gid) xs)" if "s \<in> set ks" for ks and xs :: "taken_meal list"
    using that by (induction xs) auto
  have "s \<in> set [s]" by simp
  from f [OF this] f [OF assms] show ?thesis
    unfolding slot_opens_def rev_filter by (simp only:)
qed

text \<open>Only the opening of the request's own boundary slots on that day is ever read.\<close>

lemma covers_cong:
  assumes "\<And>s. (t = vr_start r \<and> vr_start_slot r = Some s \<or> t = vr_end r \<and> vr_end_slot r = Some s) \<Longrightarrow> s \<noteq> []
      \<Longrightarrow> so s = so' s"
  shows "request_covers_meal r t m so slot = request_covers_meal r t m so' slot"
proof -
  have "bound_allows_start so r t x = bound_allows_start so' r t x" for x
    using assms by (cases "vr_start_slot r") (auto simp: bound_allows_start_def)
  moreover have "bound_allows_end so r t x = bound_allows_end so' r t x" for x
    using assms by (cases "vr_end_slot r") (auto simp: bound_allows_end_def)
  ultimately show ?thesis by (cases m) (simp_all only: request_covers_meal_def option.case)
qed

lemma boundary_slots_mem:
  "r \<in> set reqs \<Longrightarrow> (t = vr_start r \<and> vr_start_slot r = Some s \<or> t = vr_end r \<and> vr_end_slot r = Some s)
     \<Longrightarrow> s \<noteq> [] \<Longrightarrow> s \<in> set (boundary_slots reqs t)"
  by (auto simp: boundary_slots_def intro!: bexI [of _ r])

definition opens_of where
  "opens_of meals day gid s = slot_opens meals (case day of Inl _ \<Rightarrow> [] | Inr m \<Rightarrow> m) gid [s] s"

lemma vacation_covered_iff:
  "u \<in> set (vacation_covered requests meals day org gid t mo ms cands) \<longleftrightarrow>
     (\<exists>flag. (u, flag) \<in> set cands \<and>
        (if \<exists>r\<in>set (approved_on requests org t). vr_user r = u \<and> governs_group gid r
         then \<exists>r\<in>set (approved_on requests org t). vr_user r = u \<and> governs_group gid r
                \<and> request_covers_meal r t (vac_hhmm_to_minutes mo) (opens_of meals day gid) ms
         else flag))"
proof -
  let ?reqs = "filter (\<lambda>r. vr_user r \<in> fst ` set cands) (approved_on requests org t)"
  let ?keys = "boundary_slots ?reqs t"
  let ?es = "case day of Inl _ \<Rightarrow> [] | Inr m \<Rightarrow> m"
  let ?opens = "if ?keys = [] then (\<lambda>_. None) else slot_opens meals ?es gid ?keys"
  let ?own = "filter (\<lambda>r. vr_user r = u \<and> governs_group gid r) ?reqs"
  have cov: "request_covers_meal r t m ?opens ms = request_covers_meal r t m (opens_of meals day gid) ms"
    if "r \<in> set ?reqs" for r m
  proof (rule covers_cong)
    fix s assume "t = vr_start r \<and> vr_start_slot r = Some s \<or> t = vr_end r \<and> vr_end_slot r = Some s" "s \<noteq> []"
    then have "s \<in> set ?keys" using that by (rule boundary_slots_mem [rotated])
    then show "?opens s = opens_of meals day gid s"
      using slot_opens_key [of s ?keys meals ?es gid] by (auto simp: opens_of_def)
  qed
  have own: "(if ?own \<noteq> [] then \<exists>r\<in>set ?own. request_covers_meal r t (vac_hhmm_to_minutes mo) ?opens ms else flag)
     = (if \<exists>r\<in>set (approved_on requests org t). vr_user r = u \<and> governs_group gid r
         then \<exists>r\<in>set (approved_on requests org t). vr_user r = u \<and> governs_group gid r
                \<and> request_covers_meal r t (vac_hhmm_to_minutes mo) (opens_of meals day gid) ms
         else flag)" if "(u, flag) \<in> set cands" for flag
  proof -
    have in_c: "u \<in> fst ` set cands" using that by force
    have "?own \<noteq> [] \<longleftrightarrow> (\<exists>r\<in>set (approved_on requests org t). vr_user r = u \<and> governs_group gid r)"
      using in_c by (auto simp: filter_empty_conv)
    moreover have "(\<exists>r\<in>set ?own. request_covers_meal r t (vac_hhmm_to_minutes mo) ?opens ms) \<longleftrightarrow>
      (\<exists>r\<in>set (approved_on requests org t). vr_user r = u \<and> governs_group gid r
                \<and> request_covers_meal r t (vac_hhmm_to_minutes mo) (opens_of meals day gid) ms)"
      using in_c cov by auto
    ultimately show ?thesis by (simp only:)
  qed
  show ?thesis unfolding set_vacation_covered Let_def using own by blast
qed

text \<open>
  An approved request decides, the toggle is only the default: a candidate is on
  vacation for a meal exactly when some approved request that governs the group covers the
  meal, or no such request holds that day and the flag is set.
\<close>

lemma vacation_decided_by_requests:
  "u \<in> set (vacation_covered requests meals day org gid t mo ms cands) \<longleftrightarrow>
     (\<exists>flag. (u, flag) \<in> set cands \<and>
        (if \<exists>r\<in>set (approved_on requests org t). vr_user r = u \<and> governs_group gid r
         then \<exists>r\<in>set (approved_on requests org t). vr_user r = u \<and> governs_group gid r
                \<and> request_covers_meal r t (vac_hhmm_to_minutes mo) (opens_of meals day gid) ms
         else flag))"
  by (rule vacation_covered_iff)

text \<open>
  Group isolation: vacation requests scoped to other groups, of other
  organisations, of other members or not approved have no influence on who is on vacation.
\<close>

definition relevant :: "ident \<Rightarrow> ident \<Rightarrow> ident set \<Rightarrow> vacation_row \<Rightarrow> bool" where
  "relevant org gid users r \<longleftrightarrow> vr_org r = org \<and> vr_status r = VacApproved \<and> \<not> vr_deleted r
     \<and> vr_user r \<in> users \<and> governs_group gid r"

lemma vacation_group_isolation:
  "set (vacation_covered requests meals day org gid t mo ms cands)
     = set (vacation_covered (filter (relevant org gid (fst ` set cands)) requests) meals day org gid t mo ms cands)"
proof -
  let ?f = "filter (relevant org gid (fst ` set cands)) requests"
  have ex: "(\<exists>r\<in>set (approved_on requests org t). vr_user r = u \<and> governs_group gid r \<and> Q r)
     \<longleftrightarrow> (\<exists>r\<in>set (approved_on ?f org t). vr_user r = u \<and> governs_group gid r \<and> Q r)"
    if "(u, flag) \<in> set cands" for u flag Q
    using that by (force simp: approved_on_def relevant_def)
  have "u \<in> set (vacation_covered requests meals day org gid t mo ms cands) \<longleftrightarrow>
     u \<in> set (vacation_covered ?f meals day org gid t mo ms cands)" for u
    unfolding vacation_covered_iff
  proof (intro ex_cong1 conj_cong refl)
    fix flag
    assume c: "(u, flag) \<in> set cands"
    show "(if \<exists>r\<in>set (approved_on requests org t). vr_user r = u \<and> governs_group gid r
         then \<exists>r\<in>set (approved_on requests org t). vr_user r = u \<and> governs_group gid r
                \<and> request_covers_meal r t (vac_hhmm_to_minutes mo) (opens_of meals day gid) ms
         else flag)
       = (if \<exists>r\<in>set (approved_on ?f org t). vr_user r = u \<and> governs_group gid r
         then \<exists>r\<in>set (approved_on ?f org t). vr_user r = u \<and> governs_group gid r
                \<and> request_covers_meal r t (vac_hhmm_to_minutes mo) (opens_of meals day gid) ms
         else flag)"
      unfolding ex [OF c, of "\<lambda>_. True", simplified] ex [OF c] ..
  qed
  then show ?thesis by blast
qed

section \<open>The request lifecycle\<close>

definition compatible_scope :: "ident option \<Rightarrow> ident option \<Rightarrow> bool" where
  "compatible_scope g h \<longleftrightarrow> g = h \<or> g = None \<or> h = None"

definition double_governed :: "vacation_row \<Rightarrow> vacation_row \<Rightarrow> bool" where
  "double_governed r q \<longleftrightarrow> live_request r \<and> live_request q \<and> vr_org r = vr_org q \<and> vr_user r = vr_user q
     \<and> compatible_scope (vr_group r) (vr_group q) \<and> vr_start r \<le> vr_end q \<and> vr_start q \<le> vr_end r"

definition vac_ok :: "vac_db \<Rightarrow> bool" where
  "vac_ok d \<longleftrightarrow> distinct (map vr_id (vd_requests d)) \<and> apart double_governed vr_id (vd_requests d)"

lemma create_vacation_cases:
  assumes "create_vacation js_parse org_today i user org dto d = Inr d'"
  obtains a b now where "parse_date js_parse (vt_start dto) = Some a" "parse_date js_parse (vt_end dto) = Some b"
    "to_utc_midnight org_today = Some now" "now \<le> a" "a \<le> b" "b - a \<le> 364 * day_ms"
    "truthy (vt_group dto) \<longrightarrow> has_active_membership d user org (the (vt_group dto))"
    "a = now \<longrightarrow> find_covered_taken_meal (new_request i user org dto a b) now
        (fst (find_today_taken d user org (vt_group dto) now)) (snd (find_today_taken d user org (vt_group dto) now)) = None"
    "find_overlapping (vd_requests d) user org (vt_group dto) a b = None"
    "d' = d\<lparr>vd_requests := vd_requests d @ [new_request i user org dto a b]\<rparr>"
  using assms
  by (auto simp: create_vacation_def Let_def not_less js_lt_def split: option.splits if_splits prod.splits)

lemma load_requestD:
  "load_request d i org = Inr r \<Longrightarrow> r \<in> set (vd_requests d) \<and> vr_id r = i \<and> vr_org r = org \<and> \<not> vr_deleted r"
  by (auto simp: load_request_def dest: find_SomeD)

lemma set_user_vacation_requests [simp]: "vd_requests (set_user_vacation u org b g d) = vd_requests d"
  by (simp add: set_user_vacation_def Let_def)

text \<open>Every decision is one status update of one loaded request.\<close>

definition status_update where
  "status_update i org st who note r =
     (if vr_id r = i \<and> vr_org r = org then r\<lparr>vr_status := st, vr_reviewed_by := who, vr_review_note := note\<rparr> else r)"

lemma update_status_map: "vd_requests (update_status i org st who note d) = map (status_update i org st who note) (vd_requests d)"
  by (simp add: update_status_def status_update_def)

lemma status_update_simps [simp]:
  "vr_id (status_update i org st who note r) = vr_id r" "vr_org (status_update i org st who note r) = vr_org r"
  "vr_user (status_update i org st who note r) = vr_user r" "vr_group (status_update i org st who note r) = vr_group r"
  "vr_start (status_update i org st who note r) = vr_start r" "vr_end (status_update i org st who note r) = vr_end r"
  "vr_deleted (status_update i org st who note r) = vr_deleted r"
  by (simp_all add: status_update_def)

inductive vac_step :: "int \<times> vac_db \<Rightarrow> int \<times> vac_db \<Rightarrow> bool" where
  tick: "t \<le> t' \<Longrightarrow> vac_step (t, d) (t', d)"
| create: "create_vacation js_parse org_today i user org dto d = Inr d' \<Longrightarrow> i \<notin> vr_id ` set (vd_requests d)
     \<Longrightarrow> vac_step (t, d) (t, d')"
| approve: "approve_vacation t admin org i note d = Inr d' \<Longrightarrow> vac_step (t, d) (t, d')"
| reject: "reject_vacation admin org i note d = Inr d' \<Longrightarrow> vac_step (t, d) (t, d')"
| cancel: "cancel_vacation t user is_admin org i note d = Inr d' \<Longrightarrow> vac_step (t, d) (t, d')"

inductive_cases vac_stepE: "vac_step (t, d) (t', d')"

lemma decision_cases:
  assumes "approve_vacation t admin org i note d = Inr d' \<or> reject_vacation admin org i note d = Inr d'
    \<or> cancel_vacation t user is_admin org i note d = Inr d'"
  obtains r st who nt where "r \<in> set (vd_requests d)" "vr_id r = i" "vr_org r = org" "live_request r"
    "st = VacApproved \<longrightarrow> vr_status r = VacPending" "vr_status r = VacApproved \<longrightarrow> t \<le> vr_end r \<and> st = VacCancelled"
    "st \<noteq> VacPending" "vd_requests d' = map (status_update i org st who nt) (vd_requests d)"
proof -
  have l: "\<exists>r st who nt. r \<in> set (vd_requests d) \<and> vr_id r = i \<and> vr_org r = org \<and> live_request r
      \<and> (st = VacApproved \<longrightarrow> vr_status r = VacPending) \<and> (vr_status r = VacApproved \<longrightarrow> t \<le> vr_end r \<and> st = VacCancelled)
      \<and> st \<noteq> VacPending \<and> vd_requests d' = map (status_update i org st who nt) (vd_requests d)"
    using assms
  proof (elim disjE)
    assume "approve_vacation t admin org i note d = Inr d'"
    then obtain r where r: "load_request d i org = Inr r" "vr_status r = VacPending"
      and d': "d' = update_status i org VacApproved (Some admin) note d
        \<or> d' = set_user_vacation (vr_user r) org True (vr_group r) (update_status i org VacApproved (Some admin) note d)"
      by (auto simp: approve_vacation_def bindE_eq_Inr Let_def split: if_splits)
    have "vd_requests d' = map (status_update i org VacApproved (Some admin) note) (vd_requests d)"
      using d' by (elim disjE) (simp_all add: update_status_map)
    then show ?thesis using load_requestD [OF r(1)] r(2)
      by (intro exI [of _ r] exI [of _ VacApproved] exI [of _ "Some admin"] exI [of _ "note"]) (simp add: live_request_def)
  next
    assume "reject_vacation admin org i note d = Inr d'"
    then obtain r where r: "load_request d i org = Inr r" "vr_status r = VacPending"
      and d': "d' = update_status i org VacRejected (Some admin) note d"
      by (auto simp: reject_vacation_def bindE_eq_Inr)
    show ?thesis using load_requestD [OF r(1)] r(2)
      by (intro exI [of _ r] exI [of _ VacRejected] exI [of _ "Some admin"] exI [of _ "note"])
        (simp add: live_request_def d' update_status_map)
  next
    assume "cancel_vacation t user is_admin org i note d = Inr d'"
    then have run: "cancel_vacation t user is_admin org i note d = Inr d'" .
    then obtain r where ld: "load_request d i org = Inr r"
      by (cases "load_request d i org") (simp_all add: cancel_vacation_def)
    from run have "\<not> (vr_status r = VacCancelled \<or> vr_status r = VacRejected)"
      and ended: "\<not> (vr_status r = VacApproved \<and> vr_end r < t)"
      and d1: "(let d1 = update_status i org VacCancelled (if is_admin then Some user else vr_reviewed_by r)
                    (nullish_opt note (vr_review_note r)) d
         in if vr_status r = VacApproved \<and> \<not> has_approved_covering d1 (vr_user r) org t i (vr_group r)
            then Inr (set_user_vacation (vr_user r) org False (vr_group r) d1) else Inr d1) = (Inr d' :: exn + vac_db)"
      unfolding cancel_vacation_def ld bindE_Inr if_Inl_eq_Inr by simp_all
    then have r: "load_request d i org = Inr r" "vr_status r \<noteq> VacCancelled" "vr_status r \<noteq> VacRejected"
      "vr_status r = VacApproved \<longrightarrow> t \<le> vr_end r"
      using ld by auto
    obtain who nt where d': "d' = update_status i org VacCancelled who nt d
        \<or> d' = set_user_vacation (vr_user r) org False (vr_group r) (update_status i org VacCancelled who nt d)"
      using d1 by (auto simp: Let_def split: if_split_asm)
    have "vd_requests d' = map (status_update i org VacCancelled who nt) (vd_requests d)"
      using d' by (elim disjE) (simp_all add: update_status_map)
    moreover have "live_request r" using load_requestD [OF r(1)] r(2,3) by (cases "vr_status r") (simp_all add: live_request_def)
    ultimately show ?thesis using load_requestD [OF r(1)] r(4)
      by (intro exI [of _ r] exI [of _ VacCancelled] exI [of _ who] exI [of _ nt]) simp
  qed
  then show thesis using that by blast
qed

lemma status_update_live:
  assumes "live_request (status_update i org st who nt p)" "distinct (map vr_id rs)" "p \<in> set rs" "r \<in> set rs"
    "vr_id r = i" "live_request r"
  shows "live_request p"
proof (cases "vr_id p = i")
  case True
  then have "p = r" using assms distinct_key_eq [of vr_id rs p r] by simp
  then show ?thesis using assms(6) by simp
next
  case False
  then show ?thesis using assms(1) by (simp add: status_update_def)
qed

lemma decision_ok:
  assumes "vd_requests d' = map (status_update i org st who nt) (vd_requests d)" "r \<in> set (vd_requests d)" "vr_id r = i"
    "live_request r" "vac_ok d"
  shows "vac_ok d'"
proof -
  have dist: "distinct (map vr_id (vd_requests d))" using assms(5) by (simp add: vac_ok_def)
  have "apart double_governed vr_id (map (status_update i org st who nt) (vd_requests d))"
  proof (rule apart_map)
    show "apart double_governed vr_id (vd_requests d)" using assms(5) by (simp add: vac_ok_def)
    show "double_governed p q" if "p \<in> set (vd_requests d)" "q \<in> set (vd_requests d)"
      "double_governed (status_update i org st who nt p) (status_update i org st who nt q)" for p q
      using that(3) status_update_live [OF _ dist that(1) assms(2-4)] status_update_live [OF _ dist that(2) assms(2-4)]
      unfolding double_governed_def status_update_simps by blast
  qed simp
  moreover have "map vr_id (map (status_update i org st who nt) (vd_requests d)) = map vr_id (vd_requests d)" by simp
  ultimately show ?thesis using dist by (simp only: vac_ok_def assms(1))
qed

lemma vac_ok_step:
  assumes "vac_step (t, d) (t', d')" "vac_ok d"
  shows "vac_ok d'"
  using assms(1)
proof (cases rule: vac_step.cases)
  case tick
  then show ?thesis using assms(2) by simp
next
  case (create js_parse org_today i user org dto)
  from create(2) obtain a b where f: "find_overlapping (vd_requests d) user org (vt_group dto) a b = None"
    and d': "d' = d\<lparr>vd_requests := vd_requests d @ [new_request i user org dto a b]\<rparr>" by (rule create_vacation_cases)
  have "apart double_governed vr_id (vd_requests d @ [new_request i user org dto a b])"
  proof (rule apart_append)
    show "apart double_governed vr_id (vd_requests d)" using assms(2) by (simp add: vac_ok_def)
    show "double_governed q p" if "double_governed p q" for p q
      using that by (auto simp: double_governed_def compatible_scope_def)
    show "\<not> double_governed q (new_request i user org dto a b)" if "q \<in> set (vd_requests d)" for q
      using f that by (cases "vt_group dto")
        (auto simp: find_overlapping_def find_None_iff_none double_governed_def new_request_def compatible_scope_def)
  qed
  with create(3) assms(2) show ?thesis by (simp add: vac_ok_def d' new_request_def)
next
  case (approve admin org i nt)
  then have "approve_vacation t admin org i nt d = Inr d' \<or> reject_vacation admin org i nt d = Inr d'
    \<or> cancel_vacation t admin True org i nt d = Inr d'" by simp
  then show ?thesis by (rule decision_cases) (use assms(2) decision_ok in blast)
next
  case (reject admin org i nt)
  then have "approve_vacation t admin org i nt d = Inr d' \<or> reject_vacation admin org i nt d = Inr d'
    \<or> cancel_vacation t admin True org i nt d = Inr d'" by simp
  then show ?thesis by (rule decision_cases) (use assms(2) decision_ok in blast)
next
  case (cancel user is_admin org i nt)
  then have "approve_vacation t user org i nt d = Inr d' \<or> reject_vacation user org i nt d = Inr d'
    \<or> cancel_vacation t user is_admin org i nt d = Inr d'" by simp
  then show ?thesis by (rule decision_cases) (use assms(2) decision_ok in blast)
qed

text \<open>Requests nobody can change any more at time \<open>t\<close>.\<close>

definition closed_request :: "int \<Rightarrow> vacation_row \<Rightarrow> bool" where
  "closed_request t r \<longleftrightarrow> vr_status r \<in> {VacRejected, VacCancelled} \<or> (vr_status r = VacApproved \<and> vr_end r < t)"

lemma closed_kept:
  assumes "vac_step (t, d) (t', d')" "vac_ok d" "q \<in> set (vd_requests d)" "closed_request t q"
  shows "q \<in> set (vd_requests d') \<and> closed_request t' q"
proof -
  have decide: "q \<in> set (vd_requests e)"
    if "approve_vacation t admin org i nt d = Inr e \<or> reject_vacation admin org i nt d = Inr e
      \<or> cancel_vacation t user is_admin org i nt d = Inr e" for admin org i nt user is_admin e
    using that
  proof (rule decision_cases)
    fix r st who nt'
    assume r: "r \<in> set (vd_requests d)" "vr_id r = i" "live_request r" "vr_status r = VacApproved \<longrightarrow> t \<le> vr_end r \<and> st = VacCancelled"
      and e: "vd_requests e = map (status_update i org st who nt') (vd_requests d)"
    have "vr_id q \<noteq> i"
    proof
      assume "vr_id q = i"
      then have "q = r" using assms(2,3) r(1,2) distinct_key_eq [of vr_id "vd_requests d" q r] by (simp add: vac_ok_def)
      then show False using assms(4) r(3,4) by (auto simp: closed_request_def live_request_def)
    qed
    then have "status_update i org st who nt' q = q" by (simp add: status_update_def)
    then show ?thesis using assms(3) unfolding e by (metis image_eqI list.set_map)
  qed
  show ?thesis
    using assms(1)
  proof (cases rule: vac_step.cases)
    case tick
    then show ?thesis using assms(3,4) by (auto simp: closed_request_def)
  next
    case (create js_parse org_today i user org dto)
    from create(2) show ?thesis by (rule create_vacation_cases) (use assms(3,4) create(1) in auto)
  next
    case (approve admin org i nt)
    then show ?thesis using decide [of admin org i nt d'] assms(4) by blast
  next
    case (reject admin org i nt)
    then show ?thesis using decide [of admin org i nt d'] assms(4) by blast
  next
    case (cancel user is_admin org i nt)
    then show ?thesis using decide [of _ org i nt d' user is_admin] assms(4) by blast
  qed
qed

lemma vac_run_ok: "vac_step\<^sup>*\<^sup>* s s' \<Longrightarrow> vac_ok (snd s) \<Longrightarrow> vac_ok (snd s')"
proof (induction rule: rtranclp_induct)
  case base
  then show ?case by simp
next
  case (step y z)
  then show ?case using vac_ok_step [of "fst y" "snd y" "fst z" "snd z"] by simp
qed

text \<open>
  (C19) One request governs a date: in any state reached from an empty table, two pending
  or approved requests of one member whose scopes meet (same group, or one of them
  organisation-wide) never share a day, whatever is created, approved, rejected or cancelled.
\<close>

theorem one_request_governs:
  assumes "vd_requests d0 = []" and "vac_step\<^sup>*\<^sup>* (t0, d0) (t, d)"
    and "r \<in> set (vd_requests d)" and "q \<in> set (vd_requests d)" and "double_governed r q"
  shows "r = q"
proof -
  have "vac_ok d0" using assms(1) by (simp add: vac_ok_def apart_def)
  then have ok: "vac_ok d" using vac_run_ok [OF assms(2)] by simp
  then have "vr_id r = vr_id q" using assms(3-5) by (auto simp: vac_ok_def dest: apartD)
  then show ?thesis using ok assms(3,4) distinct_key_eq [of vr_id] by (auto simp: vac_ok_def)
qed

text \<open>
  Closed requests are final: a rejected or cancelled request, and an approved
  vacation that has ended, keep their row unchanged in every later state, for every actor.
\<close>

lemma closed_requests_final:
  assumes "vac_step\<^sup>*\<^sup>* (t, d) (t', d')" and "vac_ok d" and "q \<in> set (vd_requests d)" and "closed_request t q"
  shows "q \<in> set (vd_requests d')"
proof -
  have "vac_ok (snd s) \<and> q \<in> set (vd_requests (snd s)) \<and> closed_request (fst s) q" if "vac_step\<^sup>*\<^sup>* (t, d) s" for s
    using that
  proof (induction rule: rtranclp_induct)
    case base
    then show ?case using assms(2-4) by simp
  next
    case (step y z)
    then show ?case
      using closed_kept [of "fst y" "snd y" "fst z" "snd z" q] vac_ok_step [of "fst y" "snd y" "fst z" "snd z"] by simp
  qed
  from this [OF assms(1)] show ?thesis by simp
qed

text \<open>
  What a created request satisfies: it is pending, starts today or later, lasts at
  most 365 days, is from an active member of its group, and when it starts today it covers
  no meal the member already took today.
\<close>

lemma created_request_valid:
  assumes "create_vacation js_parse org_today i user org dto d = Inr d'"
  shows "\<exists>now. to_utc_midnight org_today = Some now
    \<and> vr_status (last (vd_requests d')) = VacPending
    \<and> now \<le> vr_start (last (vd_requests d')) \<and> vr_start (last (vd_requests d')) \<le> vr_end (last (vd_requests d'))
    \<and> vr_end (last (vd_requests d')) - vr_start (last (vd_requests d')) + day_ms \<le> 365 * day_ms
    \<and> (truthy (vt_group dto) \<longrightarrow> has_active_membership d user org (the (vt_group dto)))
    \<and> (vr_start (last (vd_requests d')) = now \<longrightarrow>
        (\<forall>m\<in>set (fst (find_today_taken d user org (vt_group dto) now)).
           \<not> request_covers_meal (last (vd_requests d')) now (vac_hhmm_to_minutes (tm_open m))
               (master_slot_open (snd (find_today_taken d user org (vt_group dto) now)) (tm_group m)) (Some (tm_slot m))))"
proof -
  from assms obtain a b now where c: "to_utc_midnight org_today = Some now" "now \<le> a" "a \<le> b" "b - a \<le> 364 * day_ms"
    "truthy (vt_group dto) \<longrightarrow> has_active_membership d user org (the (vt_group dto))"
    "a = now \<longrightarrow> find_covered_taken_meal (new_request i user org dto a b) now
        (fst (find_today_taken d user org (vt_group dto) now)) (snd (find_today_taken d user org (vt_group dto) now)) = None"
    and d': "d' = d\<lparr>vd_requests := vd_requests d @ [new_request i user org dto a b]\<rparr>"
    by (rule create_vacation_cases)
  have l: "last (vd_requests d') = new_request i user org dto a b" by (simp add: d')
  have f: "vr_start (new_request i user org dto a b) = a" "vr_end (new_request i user org dto a b) = b"
    "vr_status (new_request i user org dto a b) = VacPending"
    by (simp_all add: new_request_def)
  have taken: "a = now \<longrightarrow> (\<forall>m\<in>set (fst (find_today_taken d user org (vt_group dto) now)).
      \<not> request_covers_meal (new_request i user org dto a b) now (vac_hhmm_to_minutes (tm_open m))
          (master_slot_open (snd (find_today_taken d user org (vt_group dto) now)) (tm_group m)) (Some (tm_slot m)))"
    using c(6) by (simp add: find_covered_taken_meal_def find_None_iff_none)
  have len: "b - a + day_ms \<le> 365 * day_ms" using c(4) by simp
  show ?thesis unfolding l f by (rule exI [of _ now], intro conjI; fact c len taken refl)
qed

section \<open>Flags\<close>

text \<open>The in-memory rule and the database filter agree.\<close>

lemma member_flag_where_iff:
  "member_flag_where expected member user \<longleftrightarrow> resolve_member_flag member (Some user) = expected"
  by (cases member) (auto simp: member_flag_where_def resolve_member_flag_def)

text \<open>
  Approving a group-scoped request touches no other group: the account flag and
  every membership of another group or member stay as they were, and its own membership
  is switched on exactly when the request covers today.
\<close>

lemma approve_scoped_to_group:
  assumes "approve_vacation today admin org i nt d = Inr d'"
    and "load_request d i org = Inr r" and "vr_group r = Some g" and "g \<noteq> []"
    and "m \<in> set (vd_members d)"
  shows "vd_users d' = vd_users d
    \<and> (gm_group m \<noteq> g \<or> gm_user m \<noteq> vr_user r \<longrightarrow> m \<in> set (vd_members d'))
    \<and> (gm_group m = g \<and> gm_user m = vr_user r \<and> org_of_group d g org \<longrightarrow>
        (if vr_start r \<le> today \<and> today \<le> vr_end r then m\<lparr>gm_vacation := Some True\<rparr> else m) \<in> set (vd_members d'))"
proof -
  let ?d1 = "update_status i org VacApproved (Some admin) nt d"
  have d': "d' = (if vr_start r \<le> today \<and> today \<le> vr_end r then set_user_vacation (vr_user r) org True (Some g) ?d1 else ?d1)"
    using assms(1-3) by (auto simp: approve_vacation_def Let_def split: if_splits)
  have same: "vd_members ?d1 = vd_members d" "vd_users ?d1 = vd_users d" "org_of_group ?d1 h org = org_of_group d h org" for h
    by (simp_all add: update_status_def org_of_group_def)
  show ?thesis
    using assms(4,5) unfolding d' by (auto simp: set_user_vacation_def same image_iff)
qed

section \<open>Concrete inputs\<close>

text \<open>From Monday's lunch (12:00) to the third day's dinner (20:00); and a one-day request.\<close>

definition ex_range :: vacation_range where
  "ex_range = \<lparr>vr_group = None, vr_start = 0, vr_end = 2 * day_ms, vr_start_slot = Some ''lunch'', vr_end_slot = Some ''dinner''\<rparr>"



definition ex_vac_dto :: vacation_dto where
  "ex_vac_dto = \<lparr>vt_start = ''2026-07-10'', vt_end = ''2026-07-12'', vt_group = Some ''g'', vt_start_slot = Some '' Dinner '',
     vt_end_slot = None\<rparr>"

definition ex_vac_db :: vac_db where
  "ex_vac_db = \<lparr>vd_requests = [], vd_users = [\<lparr>us_id = ''u'', us_org = ''o'', us_vacation = False, us_default = False, us_role = ''student'', us_reminders = True\<rparr>],
     vd_members = [\<lparr>gm_group = ''g'', gm_user = ''u'', gm_status = MemberActive, gm_vacation = None, gm_default = None,
       gm_id = ''gm1'', gm_blocked_at = None, gm_removed_at = None, gm_updated_at = 0,
       gm_role = ''member'', gm_functional = None, gm_blocked_by = None, gm_removed_by = None,
       gm_reviewed_by = None, gm_reviewed_at = None, gm_review_note = None\<rparr>],
     vd_groups = [ex_group],
     vd_attendance = [\<lparr>at_id = ''a'', at_org = ''o'', at_group = ''g'', at_user = ''u'', at_meal = ''lunch'',
       at_date = day_of ''2026-07-10'', at_status = Present, at_preference = None, at_preferences = None, at_note = None,
       at_marked_at = None, at_marked_by = None, at_price = Some 60, at_bill_absent = None,
       at_source = Some ''self'', at_source_request = None,
     at_guest_adults = 0, at_guest_children = 0\<rparr>],
     vd_meals = [\<lparr>tm_id = ''lunch'', tm_org = ''o'', tm_group = ''g'', tm_slot = ''lunch'', tm_name = ''Lunch'', tm_open = Some ''12:00''\<rparr>,
                 \<lparr>tm_id = ''dinner'', tm_org = ''o'', tm_group = ''g'', tm_slot = ''dinner'', tm_name = ''Dinner'', tm_open = Some ''20:00''\<rparr>]\<rparr>"

definition ex_request :: vacation_row where
  "ex_request = new_request ''v1'' ''u'' ''o'' ex_vac_dto (day_of ''2026-07-10'') (day_of ''2026-07-12'')"

lemma ex_created:
  "create_vacation (\<lambda>_. None) ''2026-07-10'' ''v1'' ''u'' ''o'' ex_vac_dto ex_vac_db = Inr (ex_vac_db\<lparr>vd_requests := [ex_request]\<rparr>)"
  by code_simp

lemma ex_rejected_early:
  "create_vacation (\<lambda>_. None) ''2026-07-10'' ''v1'' ''u'' ''o'' (ex_vac_dto\<lparr>vt_start_slot := None\<rparr>) ex_vac_db
     = Inl (Unprocessable ''VACATION_MEAL_ALREADY_TAKEN'')"
  by code_simp

text \<open>A second request for overlapping days is refused; one for later days is accepted.\<close>

definition ex_later_dto :: vacation_dto where
  "ex_later_dto = ex_vac_dto\<lparr>vt_start := ''2026-07-13'', vt_end := ''2026-07-14''\<rparr>"

definition ex_later_request :: vacation_row where
  "ex_later_request = new_request ''v2'' ''u'' ''o'' ex_later_dto (day_of ''2026-07-13'') (day_of ''2026-07-14'')"

theorem one_request_governs_witness:
  "create_vacation (\<lambda>_. None) ''2026-07-10'' ''v2'' ''u'' ''o'' (ex_later_dto\<lparr>vt_start := ''2026-07-12''\<rparr>)
       (ex_vac_db\<lparr>vd_requests := [ex_request]\<rparr>) = Inl (Unprocessable ''VACATION_OVERLAP'')
   \<and> create_vacation (\<lambda>_. None) ''2026-07-10'' ''v2'' ''u'' ''o'' ex_later_dto (ex_vac_db\<lparr>vd_requests := [ex_request]\<rparr>)
       = Inr (ex_vac_db\<lparr>vd_requests := [ex_request, ex_later_request]\<rparr>)
   \<and> \<not> double_governed ex_request ex_later_request"
proof -
  let ?d1 = "ex_vac_db\<lparr>vd_requests := [ex_request]\<rparr>" and ?d2 = "ex_vac_db\<lparr>vd_requests := [ex_request, ex_later_request]\<rparr>"
  have refused: "create_vacation (\<lambda>_. None) ''2026-07-10'' ''v2'' ''u'' ''o'' (ex_later_dto\<lparr>vt_start := ''2026-07-12''\<rparr>) ?d1
      = Inl (Unprocessable ''VACATION_OVERLAP'')" by code_simp
  have later: "create_vacation (\<lambda>_. None) ''2026-07-10'' ''v2'' ''u'' ''o'' ex_later_dto ?d1 = Inr ?d2" by code_simp
  have none: "vd_requests ex_vac_db = []" by (simp add: ex_vac_db_def)
  have "vac_step (0, ex_vac_db) (0, ?d1)"
    by (rule vac_step.create [OF ex_created]) (simp add: none)
  moreover have "vac_step (0, ?d1) (0, ?d2)"
    by (rule vac_step.create [OF later]) (simp add: ex_request_def new_request_def)
  ultimately have run: "vac_step\<^sup>*\<^sup>* (0, ex_vac_db) (0, ?d2)"
    by (meson converse_rtranclp_into_rtranclp r_into_rtranclp)
  have "\<not> double_governed ex_request ex_later_request"
  proof
    assume "double_governed ex_request ex_later_request"
    with one_request_governs [OF none run, of ex_request ex_later_request] have "ex_request = ex_later_request" by simp
    then show False by (simp add: ex_request_def ex_later_request_def new_request_def)
  qed
  with refused later show ?thesis by simp
qed

text \<open>
  The full ISO form the DTO allows gives the last day a clock time, and then the end slot is
  ignored: breakfast is the end slot, dinner of the last day is covered all the same.
\<close>

lemma timed_end_drops_boundary:
  "request_covers_meal (ex_range\<lparr>vr_end := 2 * day_ms + 1, vr_end_slot := Some ''breakfast''\<rparr>) (2 * day_ms)
     (Some 1200) (\<lambda>_. Some 480) (Some ''dinner'')
   \<and> \<not> request_covers_meal (ex_range\<lparr>vr_end_slot := Some ''breakfast''\<rparr>) (2 * day_ms)
     (Some 1200) (\<lambda>_. Some 480) (Some ''dinner'')"
  by code_simp

end
