(* ===== verification/Billing_Totals.thy ===== *)
theory Billing_Totals
  imports Store
begin

text \<open>
  What a member owes: the one filter for billed attendance rows, the signed ledger sums, the
  refundable balance, the opening balances carried from the last finalized period and the
  snapshot a finalization stores (\<open>src/src/features/billing/billing.service.ts\<close>).  Prices
  are whole rupees, ledger amounts paise.
\<close>

section \<open>Definitions\<close>

definition billed_statuses :: "att_status list" where
  "billed_statuses = [Present, Skipped]"

definition billed_row :: "attendance_row \<Rightarrow> bool" where
  "billed_row r \<longleftrightarrow> at_status r \<in> set billed_statuses \<or> (at_status r = Absent \<and> at_bill_absent r = Some True)"

definition guest_statuses :: "bool \<Rightarrow> guest_status list" where
  "guest_statuses bill_no_show = (if bill_no_show then [Booked, NoShow] else [Booked])"

definition billed_guest :: "bool \<Rightarrow> guest_row \<Rightarrow> bool" where
  "billed_guest bill_no_show g \<longleftrightarrow> hg_status g \<in> set (guest_statuses bill_no_show) \<and> \<not> hg_pending g"

definition signed_amount :: "ledger_type \<Rightarrow> int \<Rightarrow> int" where
  "signed_amount ty a = a * (if ty = Credit then -1 else 1)"

record billing_policy =
  pol_bill_skipped :: bool
  pol_bill_absent :: "bool option"
  pol_guests :: bool
  pol_no_show :: bool

definition policy_of :: "group_row option \<Rightarrow> billing_policy" where
  "policy_of g =
     (case g of
        None \<Rightarrow> \<lparr>pol_bill_skipped = False, pol_bill_absent = None, pol_guests = False, pol_no_show = True\<rparr>
      | Some g \<Rightarrow> \<lparr>pol_bill_skipped = gr_bill_skipped g, pol_bill_absent = gr_bill_absent g,
                   pol_guests = gr_guest_enabled g, pol_no_show = gr_bill_no_show g\<rparr>)"

text \<open>The rows of one group whose date satisfies \<open>P\<close>.\<close>

definition att_in :: "db \<Rightarrow> ident \<Rightarrow> ident \<Rightarrow> (int \<Rightarrow> bool) \<Rightarrow> attendance_row list" where
  "att_in d org gid P = filter (\<lambda>r. at_org r = org \<and> at_group r = gid \<and> P (at_date r)) (db_attendance d)"

definition guests_in :: "db \<Rightarrow> ident \<Rightarrow> ident \<Rightarrow> bool \<Rightarrow> (int \<Rightarrow> bool) \<Rightarrow> guest_row list" where
  "guests_in d org gid no_show P =
     filter (\<lambda>g. hg_org g = org \<and> hg_group g = gid \<and> P (hg_date g) \<and> billed_guest no_show g) (db_guests d)"

definition ledger_in :: "db \<Rightarrow> ident \<Rightarrow> ident \<Rightarrow> (int \<Rightarrow> bool) \<Rightarrow> ledger_row list" where
  "ledger_in d org gid P =
     filter (\<lambda>l. le_org l = org \<and> le_group l = gid \<and> P (le_date l) \<and> le_status l = EntryPosted) (db_ledger d)"

text \<open>\<open>groupBy\<close> on (user, type), then the signed accumulation per user.\<close>

definition ledger_groups :: "ledger_row list \<Rightarrow> ((ident \<times> ledger_type) \<times> int) list" where
  "ledger_groups ls = group_sum (\<lambda>l. (le_user l, le_type l)) (\<lambda>l. Some (le_amount l)) ls"

definition paise_by_user :: "ledger_row list \<Rightarrow> (ident \<times> int) list" where
  "paise_by_user ls = acc_all (map (\<lambda>((u, ty), s). (u, signed_amount ty s)) (ledger_groups ls)) []"

definition sum_adjustments_by_user :: "db \<Rightarrow> ident \<Rightarrow> ident \<Rightarrow> int \<Rightarrow> int \<Rightarrow> (ident \<times> int) list" where
  "sum_adjustments_by_user d org gid a b =
     map (\<lambda>(u, p). (u, round_rupees p)) (paise_by_user (ledger_in d org gid (\<lambda>t. a \<le> t \<and> t \<le> b)))"

record ledger_rollup =
  lr_total :: int
  lr_credits :: int
  lr_debits :: int
  lr_refunds :: int

definition add_rollup :: "ledger_type \<Rightarrow> int \<Rightarrow> ledger_rollup \<Rightarrow> ledger_rollup" where
  "add_rollup ty a p =
     (case ty of
        Credit \<Rightarrow> p\<lparr>lr_total := lr_total p - a, lr_credits := lr_credits p + a\<rparr>
      | Refund \<Rightarrow> p\<lparr>lr_total := lr_total p + a, lr_refunds := lr_refunds p + a\<rparr>
      | Debit \<Rightarrow> p\<lparr>lr_total := lr_total p + a, lr_debits := lr_debits p + a\<rparr>)"

definition empty_rollup :: ledger_rollup where
  "empty_rollup = \<lparr>lr_total = 0, lr_credits = 0, lr_debits = 0, lr_refunds = 0\<rparr>"

fun rollup_all :: "((ident \<times> ledger_type) \<times> int) list \<Rightarrow> (ident \<times> ledger_rollup) list \<Rightarrow> (ident \<times> ledger_rollup) list" where
  "rollup_all [] m = m"
| "rollup_all (((u, ty), a) # rs) m =
     rollup_all rs (AList.update u (add_rollup ty a (nullish (map_of m u) empty_rollup)) m)"

definition round_rollup :: "ledger_rollup \<Rightarrow> ledger_rollup" where
  "round_rollup p = \<lparr>lr_total = round_rupees (lr_total p), lr_credits = round_rupees (lr_credits p),
     lr_debits = round_rupees (lr_debits p), lr_refunds = round_rupees (lr_refunds p)\<rparr>"

definition sum_adjustments_detailed :: "db \<Rightarrow> ident \<Rightarrow> ident \<Rightarrow> int \<Rightarrow> int \<Rightarrow> (ident \<times> ledger_rollup) list" where
  "sum_adjustments_detailed d org gid a b =
     map (\<lambda>(u, p). (u, round_rollup p))
       (rollup_all (ledger_groups (ledger_in d org gid (\<lambda>t. a \<le> t \<and> t \<le> b))) [])"

text \<open>The member's net position over all time, payable-positive.\<close>

definition net_balance :: "db \<Rightarrow> ident \<Rightarrow> ident \<Rightarrow> ident \<Rightarrow> billing_policy \<Rightarrow> int" where
  "net_balance d org gid u pol =
     (let meal = sum_opt at_price (filter (\<lambda>r. at_user r = u \<and> billed_row r) (att_in d org gid (\<lambda>_. True)));
          guest = (if pol_guests pol
                   then sum_opt hg_price (filter (\<lambda>g. hg_host g = u) (guests_in d org gid (pol_no_show pol) (\<lambda>_. True)))
                   else 0);
          adj = (\<Sum>(ty, s)\<leftarrow>group_sum le_type (\<lambda>l. Some (le_amount l))
                    (filter (\<lambda>l. le_user l = u) (ledger_in d org gid (\<lambda>_. True))). signed_amount ty s)
      in meal + guest + round_rupees adj)"

section \<open>Opening balances and the finalization snapshot\<close>

fun opening_from_members :: "snapshot_member list \<Rightarrow> (ident \<times> int) list \<Rightarrow> (ident \<times> int) list option" where
  "opening_from_members [] m = Some m"
| "opening_from_members (x # xs) m =
     (case (sm_user x, sm_closing x) of
        (Some u, Some c) \<Rightarrow> opening_from_members xs (if c \<noteq> 0 then AList.update u c m else m)
      | _ \<Rightarrow> None)"

definition opening_from_snapshot :: "totals_snapshot option \<Rightarrow> (ident \<times> int) list option" where
  "opening_from_snapshot s =
     Option.bind s (\<lambda>t. Option.bind (ts_members t) (\<lambda>ms. opening_from_members ms []))"

definition last_final :: "db \<Rightarrow> ident \<Rightarrow> ident \<Rightarrow> int \<Rightarrow> period_row option" where
  "last_final d org gid from =
     (case sort_key (\<lambda>p. - bp_end p)
             (filter (\<lambda>p. bp_org p = org \<and> bp_group p = gid \<and> bp_status p = Finalized \<and> bp_end p < from)
               (db_periods d)) of
        [] \<Rightarrow> None | p # _ \<Rightarrow> Some p)"

text \<open>The recomputation from the rows up to and including the cutoff.\<close>

definition live_sums :: "db \<Rightarrow> ident \<Rightarrow> ident \<Rightarrow> billing_policy \<Rightarrow> int \<Rightarrow> (ident \<times> int) list" where
  "live_sums d org gid pol cutoff =
     (let P = (\<lambda>t. t \<le> cutoff);
          meals = group_sum at_user at_price (filter billed_row (att_in d org gid P));
          guests = (if pol_guests pol then group_sum hg_host hg_price (guests_in d org gid (pol_no_show pol) P) else []);
          adj = map (\<lambda>(u, p). (u, round_rupees p)) (paise_by_user (ledger_in d org gid P))
      in acc_all adj (acc_all guests (acc_all meals [])))"

definition live_opening :: "db \<Rightarrow> ident \<Rightarrow> ident \<Rightarrow> billing_policy \<Rightarrow> int \<Rightarrow> (ident \<times> int) list" where
  "live_opening d org gid pol cutoff = filter (\<lambda>p. snd p \<noteq> 0) (live_sums d org gid pol cutoff)"

definition compute_opening_balances ::
  "db \<Rightarrow> ident \<Rightarrow> ident \<Rightarrow> int \<Rightarrow> billing_policy \<Rightarrow> bool \<Rightarrow> (ident \<times> int) list \<times> string option" where
  "compute_opening_balances d org gid from pol prefer_snapshot =
     (case last_final d org gid from of
        None \<Rightarrow> ([], None)
      | Some p \<Rightarrow>
          ((case (if prefer_snapshot then opening_from_snapshot (bp_snapshot p) else None) of
              Some m \<Rightarrow> m
            | None \<Rightarrow> live_opening d org gid pol (bp_end p)),
           Some (format_utc_date (bp_end p))))"

definition build_totals_snapshot :: "db \<Rightarrow> ident \<Rightarrow> ident \<Rightarrow> int \<Rightarrow> int \<Rightarrow> totals_snapshot" where
  "build_totals_snapshot d org gid a b =
     (let pol = policy_of (find_group d gid org);
          P = (\<lambda>t. a \<le> t \<and> t \<le> b);
          present = filter (\<lambda>r. at_status r = Present) (att_in d org gid P);
          counts = group_sum at_user (\<lambda>_. Some 1) present;
          totals = group_sum at_user at_price present;
          billed = group_sum at_user at_price (filter billed_row (att_in d org gid P));
          guests = (if pol_guests pol then group_sum hg_host hg_price (guests_in d org gid (pol_no_show pol) P) else []);
          adj = sum_adjustments_by_user d org gid a b;
          opening = compute_opening_balances d org gid a pol True;
          ids = set_union_order [] (keys_of totals @ keys_of billed @ keys_of guests @ keys_of adj @ keys_of (fst opening))
      in \<lparr>ts_carried_through = snd opening,
          ts_members = Some (map (\<lambda>u.
            \<lparr>sm_user = Some u, sm_present_count = get0 counts u, sm_total_amount = get0 totals u,
             sm_billed = get0 billed u, sm_guest = get0 guests u, sm_adjustments = get0 adj u,
             sm_opening = get0 (fst opening) u,
             sm_closing = Some (get0 (fst opening) u + get0 billed u + get0 guests u + get0 adj u)\<rparr>) ids)\<rparr>)"

section \<open>What the aggregates mean\<close>

text \<open>Charges of a user over the days \<open>P\<close>, and the user's signed ledger paise.\<close>

definition charges :: "db \<Rightarrow> ident \<Rightarrow> ident \<Rightarrow> billing_policy \<Rightarrow> (int \<Rightarrow> bool) \<Rightarrow> ident \<Rightarrow> int" where
  "charges d org gid pol P u =
     sum_opt at_price (filter (\<lambda>r. at_user r = u \<and> billed_row r) (att_in d org gid P))
     + (if pol_guests pol
        then sum_opt hg_price (filter (\<lambda>g. hg_host g = u) (guests_in d org gid (pol_no_show pol) P)) else 0)"

definition signed_paise :: "ledger_row \<Rightarrow> int" where
  "signed_paise l = signed_amount (le_type l) (le_amount l)"

definition paise :: "db \<Rightarrow> ident \<Rightarrow> ident \<Rightarrow> (int \<Rightarrow> bool) \<Rightarrow> ident \<Rightarrow> int" where
  "paise d org gid P u = (\<Sum>l\<leftarrow>filter (\<lambda>l. le_user l = u) (ledger_in d org gid P). signed_paise l)"

named_theorems billing_sums \<open>aggregates as plain sums\<close>

lemma signed_amount_0 [simp]: "signed_amount ty 0 = 0"
  by (simp add: signed_amount_def)

lemma signed_amount_add: "signed_amount ty (a + b) = signed_amount ty a + signed_amount ty b"
  by (simp add: signed_amount_def algebra_simps)

definition three_types :: "(ledger_type \<Rightarrow> int) \<Rightarrow> int" where
  "three_types f = signed_amount Credit (f Credit) + signed_amount Debit (f Debit) + signed_amount Refund (f Refund)"

lemma sum_types_of_user:
  assumes "distinct (map fst gs)"
  shows "(\<Sum>p\<leftarrow>filter (\<lambda>p. fst p = u) (map (\<lambda>((u, ty), s). (u, signed_amount ty s)) gs). snd p)
    = three_types (\<lambda>ty. get0 gs (u, ty))"
  using assms
proof (induction gs)
  case Nil
  then show ?case by (simp add: three_types_def)
next
  case (Cons p gs)
  obtain v ty s where p: "p = ((v, ty), s)" by (cases p) auto
  have fresh: "get0 gs (v, ty) = 0" using Cons.prems p by (intro get0_notin) auto
  have step: "get0 (p # gs) k = (if k = (v, ty) then s else get0 gs k)" for k
    by (simp add: p get0_def)
  show ?case
    using Cons fresh by (cases ty) (auto simp: p three_types_def get0_def)
qed

lemma sum_types_rows:
  "three_types (\<lambda>ty. sum_opt (\<lambda>l. Some (le_amount l)) (filter (\<lambda>l. le_type l = ty) ls)) = (\<Sum>l\<leftarrow>ls. signed_paise l)"
proof (induction ls)
  case Nil
  then show ?case by (simp add: three_types_def)
next
  case (Cons l ls)
  then show ?case by (cases "le_type l") (simp_all add: three_types_def signed_paise_def signed_amount_add)
qed

lemma get0_paise_by_user [billing_sums]:
  "get0 (paise_by_user ls) u = (\<Sum>l\<leftarrow>filter (\<lambda>l. le_user l = u) ls. signed_paise l)"
proof -
  have "get0 (paise_by_user ls) u = three_types (\<lambda>ty. get0 (ledger_groups ls) (u, ty))"
    unfolding paise_by_user_def get0_acc_all get0_Nil
    by (subst sum_types_of_user) (simp_all add: ledger_groups_def)
  also have "\<dots> = three_types (\<lambda>ty. sum_opt (\<lambda>l. Some (le_amount l))
      (filter (\<lambda>l. le_type l = ty) (filter (\<lambda>l. le_user l = u) ls)))"
    by (simp add: ledger_groups_def get0_group_sum conj_commute)
  also have "\<dots> = (\<Sum>l\<leftarrow>filter (\<lambda>l. le_user l = u) ls. signed_paise l)"
    by (rule sum_types_rows)
  finally show ?thesis .
qed

lemma get0_map_val:
  assumes "f 0 = 0"
  shows "get0 (map (\<lambda>(u, p). (u, f p)) m) k = f (get0 m k)"
  using assms by (induction m) (auto simp: get0_def)

lemma keys_map_val [simp]: "fst ` set (map (\<lambda>(u, p). (u, f p)) m) = fst ` set m"
  by force

lemma fst_map_val [simp]: "fst \<circ> (\<lambda>(u, p). (u, f p)) = fst"
  by (simp add: fun_eq_iff)

lemma distinct_map_val: "distinct (map fst m) \<Longrightarrow> distinct (map fst (map (\<lambda>(u, p). (u, f p)) m))"
  by simp

lemma distinct_paise_by_user [simp]: "distinct (map fst (paise_by_user ls))"
  unfolding paise_by_user_def by (rule distinct_acc_all) simp

lemma get0_sum_adjustments [billing_sums]:
  "get0 (sum_adjustments_by_user d org gid a b) u = round_rupees (paise d org gid (\<lambda>t. a \<le> t \<and> t \<le> b) u)"
  by (simp add: sum_adjustments_by_user_def get0_map_val get0_paise_by_user paise_def)

lemma sum_filter_key:
  fixes m :: "('k \<times> int) list"
  shows "distinct (map fst m) \<Longrightarrow> get0 (acc_all m acc) j = get0 acc j + get0 m j"
  by (simp add: get0_acc_all sum_filter_distinct_key)

lemma get0_live_sums [billing_sums]:
  "get0 (live_sums d org gid pol cutoff) u
     = charges d org gid pol (\<lambda>t. t \<le> cutoff) u + round_rupees (paise d org gid (\<lambda>t. t \<le> cutoff) u)"
  unfolding live_sums_def Let_def
  by (simp add: sum_filter_key distinct_map_val get0_map_val get0_paise_by_user get0_group_sum
      charges_def paise_def conj_commute)

lemma distinct_live_sums [simp]: "distinct (map fst (live_sums d org gid pol cutoff))"
  unfolding live_sums_def Let_def by (intro distinct_acc_all) simp

lemma get0_live_opening [billing_sums]:
  "get0 (live_opening d org gid pol cutoff) u
     = charges d org gid pol (\<lambda>t. t \<le> cutoff) u + round_rupees (paise d org gid (\<lambda>t. t \<le> cutoff) u)"
  by (simp add: live_opening_def get0_filter_nonzero get0_live_sums)

lemma net_balance_sum [billing_sums]:
  "net_balance d org gid u pol = charges d org gid pol (\<lambda>_. True) u + round_rupees (paise d org gid (\<lambda>_. True) u)"
proof -
  let ?ls = "filter (\<lambda>l. le_user l = u) (ledger_in d org gid (\<lambda>_. True))"
  let ?gs = "group_sum le_type (\<lambda>l. Some (le_amount l)) ?ls"
  have three: "(\<Sum>(ty, s)\<leftarrow>gs. signed_amount ty s) = three_types (get0 gs)" if "distinct (map fst gs)" for gs
    using that
  proof (induction gs)
    case Nil
    then show ?case by (simp add: three_types_def)
  next
    case (Cons p gs)
    then have "get0 gs (fst p) = 0" by (intro get0_notin) auto
    with Cons show ?case by (cases p; cases "fst p") (auto simp: three_types_def get0_def)
  qed
  have "(\<Sum>(ty, s)\<leftarrow>?gs. signed_amount ty s) = three_types (get0 ?gs)"
    by (rule three) simp
  also have "\<dots> = (\<Sum>l\<leftarrow>?ls. signed_paise l)"
    unfolding get0_group_sum by (rule sum_types_rows)
  finally show ?thesis by (simp add: net_balance_def charges_def paise_def Let_def)
qed

lemma charges_split:
  assumes "\<And>t. P t \<longleftrightarrow> Q t \<or> R t" and "\<And>t. \<not> (Q t \<and> R t)"
  shows "charges d org gid pol P u = charges d org gid pol Q u + charges d org gid pol R u"
proof -
  have split: "sum_opt f (filter X xs) = sum_opt f (filter Y xs) + sum_opt f (filter Z xs)"
    if "\<And>x. X x \<longleftrightarrow> Y x \<or> Z x" "\<And>x. \<not> (Y x \<and> Z x)" for f :: "'a \<Rightarrow> int option" and X Y Z xs
    using that by (induction xs) auto
  have "sum_opt at_price (filter (\<lambda>r. at_user r = u \<and> billed_row r) (att_in d org gid P))
      = sum_opt at_price (filter (\<lambda>r. at_user r = u \<and> billed_row r) (att_in d org gid Q))
      + sum_opt at_price (filter (\<lambda>r. at_user r = u \<and> billed_row r) (att_in d org gid R))"
    unfolding att_in_def filter_filter by (rule split) (use assms in auto)
  moreover have "sum_opt hg_price (filter (\<lambda>g. hg_host g = u) (guests_in d org gid ns P))
      = sum_opt hg_price (filter (\<lambda>g. hg_host g = u) (guests_in d org gid ns Q))
      + sum_opt hg_price (filter (\<lambda>g. hg_host g = u) (guests_in d org gid ns R))" for ns
    unfolding guests_in_def filter_filter by (rule split) (use assms in auto)
  ultimately show ?thesis by (simp add: charges_def)
qed

lemma paise_split:
  assumes "\<And>t. P t \<longleftrightarrow> Q t \<or> R t" and "\<And>t. \<not> (Q t \<and> R t)"
  shows "paise d org gid P u = paise d org gid Q u + paise d org gid R u"
proof -
  have split: "(\<Sum>x\<leftarrow>filter X xs. f x) = (\<Sum>x\<leftarrow>filter Y xs. f x) + (\<Sum>x\<leftarrow>filter Z xs. f x)"
    if "\<And>x. X x \<longleftrightarrow> Y x \<or> Z x" "\<And>x. \<not> (Y x \<and> Z x)" for f :: "ledger_row \<Rightarrow> int" and X Y Z xs
    using that by (induction xs) auto
  show ?thesis
    unfolding paise_def ledger_in_def filter_filter by (rule split) (use assms in auto)
qed

section \<open>The snapshot and what is carried from it\<close>

lemma opening_from_members_map:
  assumes "distinct ids" and "\<And>u. sm_user (g u) = Some u" and "\<And>u. sm_closing (g u) = Some (f u)"
  shows "\<exists>m'. opening_from_members (map g ids) m = Some m'
    \<and> (\<forall>u. get0 m' u = (if u \<in> set ids \<and> f u \<noteq> 0 then f u else get0 m u))
    \<and> (0 \<notin> snd ` set m \<longrightarrow> 0 \<notin> snd ` set m')"
  using assms(1)
proof (induction ids arbitrary: m)
  case Nil
  then show ?case by simp
next
  case (Cons i ids)
  let ?m = "if f i \<noteq> 0 then AList.update i (f i) m else m"
  have upd: "get0 (AList.update i (f i) m) u = (if u = i then f i else get0 m u)" for u
    by (simp add: get0_def update_conv')
  obtain m' where m': "opening_from_members (map g ids) ?m = Some m'"
    "\<forall>u. get0 m' u = (if u \<in> set ids \<and> f u \<noteq> 0 then f u else get0 ?m u)"
    "0 \<notin> snd ` set ?m \<longrightarrow> 0 \<notin> snd ` set m'"
    using Cons by fastforce
  have vals: "0 \<notin> snd ` set m \<longrightarrow> 0 \<notin> snd ` set ?m"
  proof -
    have "snd ` set (AList.update i (f i) m) \<subseteq> insert (f i) (snd ` set m)"
      by (induction m) auto
    then show ?thesis by auto
  qed
  have "opening_from_members (map g (i # ids)) m = Some m'"
    using m'(1) by (simp add: assms(2,3))
  moreover have "get0 m' u = (if u \<in> set (i # ids) \<and> f u \<noteq> 0 then f u else get0 m u)" for u
    using m'(2) Cons.prems upd [of u] by (cases "u = i") auto
  ultimately show ?case using m'(3) vals by blast
qed

definition in_period :: "int \<Rightarrow> int \<Rightarrow> int \<Rightarrow> bool" where
  "in_period a b t \<longleftrightarrow> a \<le> t \<and> t \<le> b"

definition opening_at :: "db \<Rightarrow> ident \<Rightarrow> ident \<Rightarrow> int \<Rightarrow> (ident \<times> int) list" where
  "opening_at d org gid a = fst (compute_opening_balances d org gid a (policy_of (find_group d gid org)) True)"

text \<open>The closing position of a user for the period, as one sum.\<close>

definition closing :: "db \<Rightarrow> ident \<Rightarrow> ident \<Rightarrow> int \<Rightarrow> int \<Rightarrow> ident \<Rightarrow> int" where
  "closing d org gid a b u =
     get0 (opening_at d org gid a) u
     + charges d org gid (policy_of (find_group d gid org)) (in_period a b) u
     + round_rupees (paise d org gid (in_period a b) u)"

lemma in_period_eta: "in_period a b = (\<lambda>t. a \<le> t \<and> t \<le> b)"
  by (simp add: fun_eq_iff in_period_def)

lemma snapshot_lines:
  "\<exists>ids g. ts_members (build_totals_snapshot d org gid a b) = Some (map g ids) \<and> distinct ids
    \<and> (\<forall>u. sm_user (g u) = Some u \<and> sm_closing (g u) = Some (closing d org gid a b u)
         \<and> sm_opening (g u) = get0 (opening_at d org gid a) u
         \<and> sm_billed (g u) + sm_guest (g u) = charges d org gid (policy_of (find_group d gid org)) (in_period a b) u
         \<and> sm_adjustments (g u) = round_rupees (paise d org gid (in_period a b) u))
    \<and> (\<forall>u. u \<notin> set ids \<longrightarrow> closing d org gid a b u = 0)"
proof -
  let ?pol = "policy_of (find_group d gid org)"
  let ?P = "\<lambda>t. a \<le> t \<and> t \<le> b"
  let ?present = "filter (\<lambda>r. at_status r = Present) (att_in d org gid ?P)"
  let ?counts = "group_sum at_user (\<lambda>_. Some 1) ?present"
  let ?totals = "group_sum at_user at_price ?present"
  let ?billed = "group_sum at_user at_price (filter billed_row (att_in d org gid ?P))"
  let ?guests = "if pol_guests ?pol then group_sum hg_host hg_price (guests_in d org gid (pol_no_show ?pol) ?P) else []"
  let ?adj = "sum_adjustments_by_user d org gid a b"
  let ?op = "opening_at d org gid a"
  let ?ids = "set_union_order [] (keys_of ?totals @ keys_of ?billed @ keys_of ?guests @ keys_of ?adj @ keys_of ?op)"
  let ?g = "\<lambda>u. \<lparr>sm_user = Some u, sm_present_count = get0 ?counts u, sm_total_amount = get0 ?totals u,
             sm_billed = get0 ?billed u, sm_guest = get0 ?guests u, sm_adjustments = get0 ?adj u,
             sm_opening = get0 ?op u,
             sm_closing = Some (get0 ?op u + get0 ?billed u + get0 ?guests u + get0 ?adj u)\<rparr>"
  have mem: "ts_members (build_totals_snapshot d org gid a b) = Some (map ?g ?ids)"
    by (simp add: build_totals_snapshot_def Let_def opening_at_def)
  have ch: "get0 ?billed u + get0 ?guests u = charges d org gid ?pol (in_period a b) u" for u
    by (simp add: charges_def get0_group_sum in_period_eta conj_commute)
  have ad: "get0 ?adj u = round_rupees (paise d org gid (in_period a b) u)" for u
    by (simp add: get0_sum_adjustments in_period_eta)
  have cl: "get0 ?op u + get0 ?billed u + get0 ?guests u + get0 ?adj u = closing d org gid a b u" for u
    unfolding closing_def ch [symmetric] ad by simp
  have zero: "closing d org gid a b u = 0" if "u \<notin> set ?ids" for u
  proof -
    have "u \<notin> set (keys_of ?billed)" "u \<notin> set (keys_of ?guests)" "u \<notin> set (keys_of ?adj)" "u \<notin> set (keys_of ?op)"
      using that by simp_all
    then have "get0 ?billed u = 0 \<and> get0 ?guests u = 0 \<and> get0 ?adj u = 0 \<and> get0 ?op u = 0"
      by (intro conjI get0_keys_notin)
    with cl [of u] show ?thesis by linarith
  qed
  show ?thesis
    using mem ch ad cl zero by (intro exI [of _ ?ids] exI [of _ ?g] conjI allI impI) simp_all
qed

lemma snapshot_members_closing:
  "\<exists>ms carry. ts_members (build_totals_snapshot d org gid a b) = Some ms
    \<and> distinct (map sm_user ms)
    \<and> (\<forall>m\<in>set ms. sm_closing m = Some (sm_opening m + sm_billed m + sm_guest m + sm_adjustments m))
    \<and> opening_from_snapshot (Some (build_totals_snapshot d org gid a b)) = Some carry
    \<and> (\<forall>u. get0 carry u = closing d org gid a b u)
    \<and> 0 \<notin> snd ` set carry"
proof -
  obtain ids g where g: "ts_members (build_totals_snapshot d org gid a b) = Some (map g ids)" "distinct ids"
    "\<forall>u. sm_user (g u) = Some u \<and> sm_closing (g u) = Some (closing d org gid a b u)
         \<and> sm_opening (g u) = get0 (opening_at d org gid a) u
         \<and> sm_billed (g u) + sm_guest (g u) = charges d org gid (policy_of (find_group d gid org)) (in_period a b) u
         \<and> sm_adjustments (g u) = round_rupees (paise d org gid (in_period a b) u)"
    "\<forall>u. u \<notin> set ids \<longrightarrow> closing d org gid a b u = 0"
    using snapshot_lines by metis
  obtain carry where carry: "opening_from_members (map g ids) [] = Some carry"
    "\<forall>u. get0 carry u = (if u \<in> set ids \<and> closing d org gid a b u \<noteq> 0 then closing d org gid a b u else get0 [] u)"
    "0 \<notin> snd ` set carry"
    using opening_from_members_map [OF g(2), of g "closing d org gid a b" "[]"] g(3) by auto
  have "opening_from_snapshot (Some (build_totals_snapshot d org gid a b)) = Some carry"
    by (simp add: opening_from_snapshot_def g(1) carry(1))
  moreover have "get0 carry u = closing d org gid a b u" for u
    using carry(2) g(4) by auto
  moreover have "distinct (map sm_user (map g ids))"
    using g(2,3) by (auto simp: distinct_map inj_on_def)
  moreover have "\<forall>m\<in>set (map g ids). sm_closing m = Some (sm_opening m + sm_billed m + sm_guest m + sm_adjustments m)"
    using g(3) by (auto simp: closing_def)
  ultimately show ?thesis using g(1) carry(3) by blast
qed

lemma snapshot_carries_closing_of:
  "opening_from_snapshot (Some (build_totals_snapshot d org gid a b)) = Some carry \<Longrightarrow> get0 carry u = closing d org gid a b u"
  using snapshot_members_closing [of d org gid a b] by auto

text \<open>
  The same carried balance two ways: when the period starts the day after the last
  finalized one (or is the first, with nothing before it), the opening was right, and the
  ledger holds whole rupees, the snapshot gives what a recomputation from all rows gives.
\<close>

definition midnight_dates :: "db \<Rightarrow> bool" where
  "midnight_dates d \<longleftrightarrow> (\<forall>r\<in>set (db_attendance d). midnight (at_date r))
     \<and> (\<forall>g\<in>set (db_guests d). midnight (hg_date g)) \<and> (\<forall>l\<in>set (db_ledger d). midnight (le_date l))"

definition whole_rupees :: "db \<Rightarrow> bool" where
  "whole_rupees d \<longleftrightarrow> (\<forall>l\<in>set (db_ledger d). 100 dvd le_amount l)"

definition carried_correctly :: "db \<Rightarrow> ident \<Rightarrow> ident \<Rightarrow> int \<Rightarrow> bool" where
  "carried_correctly d org gid a \<longleftrightarrow>
     (case last_final d org gid a of
        None \<Rightarrow> (\<forall>r\<in>set (db_attendance d). at_org r = org \<and> at_group r = gid \<longrightarrow> a \<le> at_date r)
          \<and> (\<forall>g\<in>set (db_guests d). hg_org g = org \<and> hg_group g = gid \<longrightarrow> a \<le> hg_date g)
          \<and> (\<forall>l\<in>set (db_ledger d). le_org l = org \<and> le_group l = gid \<longrightarrow> a \<le> le_date l)
      | Some q \<Rightarrow> midnight (bp_end q) \<and> a = bp_end q + day_ms
          \<and> (\<forall>u. get0 (opening_at d org gid a) u
               = get0 (live_opening d org gid (policy_of (find_group d gid org)) (bp_end q)) u))"

lemma paise_dvd:
  assumes "whole_rupees d"
  shows "100 dvd paise d org gid P u"
proof -
  have "100 dvd (\<Sum>l\<leftarrow>ls. signed_paise l)" if "set ls \<subseteq> set (db_ledger d)" for ls
    using that assms by (induction ls) (auto simp: whole_rupees_def signed_paise_def signed_amount_def)
  then show ?thesis unfolding paise_def by (simp add: ledger_in_def subset_eq)
qed

lemma midnight_gap: "midnight s \<Longrightarrow> midnight t \<Longrightarrow> s < t \<Longrightarrow> s + day_ms \<le> t"
proof -
  assume "midnight s" "midnight t" "s < t"
  then obtain i j where "s = i * day_ms" "t = j * day_ms"
    by (auto simp: midnight_def dvd_def mult.commute)
  moreover from this \<open>s < t\<close> have "i + 1 \<le> j" using mult_less_cancel_right_pos [of day_ms i j] by simp
  ultimately show ?thesis using mult_right_mono [of "i + 1" j day_ms] less_imp_le [OF day_ms_pos(1)]
    by (simp add: algebra_simps)
qed

lemma charges_cong:
  assumes "\<And>r. r \<in> set (db_attendance d) \<Longrightarrow> at_org r = org \<Longrightarrow> at_group r = gid \<Longrightarrow> P (at_date r) = Q (at_date r)"
    and "\<And>g. g \<in> set (db_guests d) \<Longrightarrow> hg_org g = org \<Longrightarrow> hg_group g = gid \<Longrightarrow> P (hg_date g) = Q (hg_date g)"
  shows "charges d org gid pol P u = charges d org gid pol Q u"
proof -
  have "att_in d org gid P = att_in d org gid Q"
    unfolding att_in_def by (rule filter_cong) (auto simp: assms)
  moreover have "guests_in d org gid ns P = guests_in d org gid ns Q" for ns
    unfolding guests_in_def by (rule filter_cong) (auto simp: assms)
  ultimately show ?thesis by (simp add: charges_def)
qed

lemma paise_cong:
  assumes "\<And>l. l \<in> set (db_ledger d) \<Longrightarrow> le_org l = org \<Longrightarrow> le_group l = gid \<Longrightarrow> P (le_date l) = Q (le_date l)"
  shows "paise d org gid P u = paise d org gid Q u"
proof -
  have "ledger_in d org gid P = ledger_in d org gid Q"
    unfolding ledger_in_def by (rule filter_cong) (auto simp: assms)
  then show ?thesis by (simp add: paise_def)
qed

lemma midnight_split: "midnight c \<Longrightarrow> midnight t \<Longrightarrow> c + day_ms \<le> b + 1 \<Longrightarrow> 
    (t \<le> b) = (t \<le> c \<or> in_period (c + day_ms) b t)"
  using midnight_gap [of c t] by (auto simp: in_period_def) (use day_ms_pos in linarith)

lemma closing_is_live:
  assumes "midnight_dates d" "whole_rupees d" "carried_correctly d org gid a" "a \<le> b"
  shows "closing d org gid a b u
    = charges d org gid (policy_of (find_group d gid org)) (\<lambda>t. t \<le> b) u
      + round_rupees (paise d org gid (\<lambda>t. t \<le> b) u)"
proof (cases "last_final d org gid a")
  case None
  let ?pol = "policy_of (find_group d gid org)"
  have op: "opening_at d org gid a = []"
    by (simp add: opening_at_def compute_opening_balances_def None)
  have "charges d org gid ?pol (in_period a b) u = charges d org gid ?pol (\<lambda>t. t \<le> b) u"
    using assms(3) None by (intro charges_cong) (auto simp: carried_correctly_def in_period_def)
  moreover have "paise d org gid (in_period a b) u = paise d org gid (\<lambda>t. t \<le> b) u"
    using assms(3) None by (intro paise_cong) (auto simp: carried_correctly_def in_period_def)
  ultimately show ?thesis by (simp add: closing_def op)
next
  case (Some q)
  let ?pol = "policy_of (find_group d gid org)"
  let ?c = "bp_end q"
  have q: "midnight ?c" "a = ?c + day_ms"
    and op: "get0 (opening_at d org gid a) u = charges d org gid ?pol (\<lambda>t. t \<le> ?c) u
      + round_rupees (paise d org gid (\<lambda>t. t \<le> ?c) u)"
    using assms(3) Some by (auto simp: carried_correctly_def get0_live_opening)
  have a: "?c + day_ms \<le> b + 1" "?c < a" using q assms(4) by simp_all
  have "charges d org gid ?pol (\<lambda>t. t \<le> b) u = charges d org gid ?pol (\<lambda>t. t \<le> ?c \<or> in_period a b t) u"
    using assms(1) q a by (intro charges_cong) (auto simp: midnight_dates_def midnight_split [OF q(1)])
  also have "\<dots> = charges d org gid ?pol (\<lambda>t. t \<le> ?c) u + charges d org gid ?pol (in_period a b) u"
    using a by (intro charges_split) (auto simp: in_period_def)
  finally have ch: "charges d org gid ?pol (\<lambda>t. t \<le> b) u
      = charges d org gid ?pol (\<lambda>t. t \<le> ?c) u + charges d org gid ?pol (in_period a b) u" .
  have "paise d org gid (\<lambda>t. t \<le> b) u = paise d org gid (\<lambda>t. t \<le> ?c \<or> in_period a b t) u"
    using assms(1) q a by (intro paise_cong) (auto simp: midnight_dates_def midnight_split [OF q(1)])
  also have "\<dots> = paise d org gid (\<lambda>t. t \<le> ?c) u + paise d org gid (in_period a b) u"
    using a by (intro paise_split) (auto simp: in_period_def)
  finally have pa: "paise d org gid (\<lambda>t. t \<le> b) u = paise d org gid (\<lambda>t. t \<le> ?c) u + paise d org gid (in_period a b) u" .
  have "round_rupees (paise d org gid (\<lambda>t. t \<le> ?c) u) = paise d org gid (\<lambda>t. t \<le> ?c) u div 100"
    using round_rupees_dvd [OF paise_dvd [OF assms(2)], of org gid "\<lambda>t. t \<le> ?c" u 0] by simp
  then show ?thesis
    unfolding closing_def op ch pa round_rupees_dvd [OF paise_dvd [OF assms(2)]] by simp
qed

end
