(* ===== verification/Billing_Ledger.thy ===== *)
theory Billing_Ledger
  imports Billing_Totals Windows
begin

text \<open>
  Billing periods and the append-only adjustment ledger of
  \<open>src/src/features/billing/billing.service.ts\<close>: finalize, reopen and re-finalize a
  period, the lock check, posting an adjustment and the member's decision on a pending
  charge.  Every operation takes the tables and returns an error or the new tables; audit,
  cache version and push messages are not modelled.
\<close>

section \<open>Periods\<close>

definition is_billing_applicable :: "group_row \<Rightarrow> bool" where
  "is_billing_applicable g \<longleftrightarrow> gr_meals_enabled g \<and> gr_pricing_enabled g"

definition org_today :: "(string \<Rightarrow> string) \<Rightarrow> group_row option \<Rightarrow> string" where
  "org_today tz_clock g = tz_clock (nullish (Option.bind g gr_timezone) ''Asia/Kolkata'')"

text \<open>\<open>isDateFinalized\<close>: the end of a finalized period that holds the day.\<close>

definition is_date_finalized :: "db \<Rightarrow> ident \<Rightarrow> ident \<Rightarrow> int \<Rightarrow> int option" where
  "is_date_finalized d org gid t =
     map_option bp_end
       (find (\<lambda>p. bp_org p = org \<and> bp_group p = gid \<and> bp_status p = Finalized
                  \<and> bp_start p \<le> t \<and> t \<le> bp_end p) (db_periods d))"

definition overlapping_final :: "db \<Rightarrow> ident \<Rightarrow> ident \<Rightarrow> int \<Rightarrow> int \<Rightarrow> period_row option" where
  "overlapping_final d org gid a b =
     find (\<lambda>p. bp_org p = org \<and> bp_group p = gid \<and> bp_status p = Finalized
               \<and> bp_start p \<le> b \<and> a \<le> bp_end p) (db_periods d)"

definition new_period :: "ident \<Rightarrow> ident \<Rightarrow> ident \<Rightarrow> ident \<Rightarrow> int \<Rightarrow> int \<Rightarrow> totals_snapshot \<Rightarrow> period_row" where
  "new_period new_id admin org gid a b snap =
     \<lparr>bp_id = new_id, bp_org = org, bp_group = gid, bp_start = a, bp_end = b, bp_status = Finalized,
      bp_finalized_by = admin, bp_reopened_by = None, bp_reopen_reason = None, bp_snapshot = Some snap\<rparr>"

definition finalize_period ::
  "(string \<Rightarrow> string) \<Rightarrow> ident \<Rightarrow> ident \<Rightarrow> ident \<Rightarrow> ident \<Rightarrow> string \<Rightarrow> string \<Rightarrow> db \<Rightarrow> exn + db" where
  "finalize_period tz_clock new_id admin org gid period_start period_end d =
     (let start = to_utc_midnight period_start; end' = to_utc_midnight period_end
      in if js_lt end' start then Inl (BadRequest ''periodEnd'')
         else
           (case find_group d gid org of
              None \<Rightarrow> Inl (NotFound ''Group not found'')
            | Some g \<Rightarrow>
                if \<not> is_billing_applicable g then Inl (BadRequest ''BILLING_NOT_APPLICABLE'')
                else if js_lt (to_utc_midnight (org_today tz_clock (Some g))) end'
                then Inl (BadRequest ''FUTURE'')
                else
                  (case (start, end') of
                     (Some a, Some b) \<Rightarrow>
                       if overlapping_final d org gid a b \<noteq> None
                       then Inl (Unprocessable ''PERIOD_OVERLAP'')
                       else
                         Inr (d\<lparr>db_periods := db_periods d @
                           [new_period new_id admin org gid a b (build_totals_snapshot d org gid a b)]\<rparr>)
                   | _ \<Rightarrow> Inl BadDate)))"

definition load_period :: "db \<Rightarrow> ident \<Rightarrow> ident \<Rightarrow> exn + period_row" where
  "load_period d i org =
     orErr (find (\<lambda>p. bp_id p = i \<and> bp_org p = org) (db_periods d)) (NotFound ''Billing period not found'')"

definition update_period :: "ident \<Rightarrow> (period_row \<Rightarrow> period_row) \<Rightarrow> db \<Rightarrow> db" where
  "update_period i f d = d\<lparr>db_periods := map (\<lambda>p. if bp_id p = i then f p else p) (db_periods d)\<rparr>"

definition reopen_period :: "ident \<Rightarrow> ident \<Rightarrow> ident \<Rightarrow> string \<Rightarrow> db \<Rightarrow> exn + db" where
  "reopen_period admin org i reason d =
     bindE (load_period d i org) (\<lambda>p.
       if bp_status p \<noteq> Finalized then Inl (BadRequest ''Only a finalized period can be reopened'')
       else Inr (update_period i (\<lambda>p. p\<lparr>bp_status := Reopened, bp_reopened_by := Some admin,
                                        bp_reopen_reason := Some reason\<rparr>) d))"

definition refinalize_period :: "ident \<Rightarrow> ident \<Rightarrow> ident \<Rightarrow> db \<Rightarrow> exn + db" where
  "refinalize_period admin org i d =
     bindE (load_period d i org) (\<lambda>p.
       if bp_status p \<noteq> Reopened then Inl (BadRequest ''Only a reopened period can be re-finalized'')
       else
         let snap = build_totals_snapshot d org (bp_group p) (bp_start p) (bp_end p)
         in Inr (update_period i (\<lambda>p. p\<lparr>bp_status := Finalized, bp_finalized_by := admin,
                                          bp_snapshot := Some snap\<rparr>) d))"

section \<open>Adjustments\<close>

record adjustment_dto =
  ad_group :: ident
  ad_user :: ident
  ad_type :: ledger_type
  ad_amount :: int
  ad_reason :: string
  ad_entry_date :: "string option"
  ad_ref_record :: "ident option"
  ad_ref_guest :: "ident option"
  ad_ref_request :: "ident option"

definition valid_adjustment :: "adjustment_dto \<Rightarrow> bool" where
  "valid_adjustment dto \<longleftrightarrow> 1 \<le> ad_amount dto \<and> ad_amount dto \<le> 10000000"

text \<open>The consent decision for a debit: posted, pending, or refused.\<close>

definition consent_status :: "db \<Rightarrow> ident \<Rightarrow> adjustment_dto \<Rightarrow> exn + ledger_status" where
  "consent_status d org dto =
     (if ad_type dto \<noteq> Debit then Inr EntryPosted
      else if \<not> truthy (ad_ref_request dto) then Inr EntryPending
      else
        (case find (\<lambda>c. Some (cr_id c) = ad_ref_request dto \<and> cr_org c = org \<and> cr_user c = ad_user dto
                        \<and> cr_status c = ReqApproved) (db_corrections d) of
           None \<Rightarrow> Inl (Forbidden ''CONSENT_REQUIRED'')
         | Some _ \<Rightarrow> Inr EntryPosted))"

definition entry_of :: "ident \<Rightarrow> ident \<Rightarrow> ident \<Rightarrow> adjustment_dto \<Rightarrow> int \<Rightarrow> ledger_status \<Rightarrow> ledger_row" where
  "entry_of new_id admin org dto date st =
     \<lparr>le_id = new_id, le_org = org, le_group = ad_group dto, le_user = ad_user dto, le_date = date,
      le_type = ad_type dto, le_amount = ad_amount dto, le_reason = ad_reason dto,
      le_ref_record = ad_ref_record dto, le_ref_guest = ad_ref_guest dto,
      le_ref_request = ad_ref_request dto, le_created_by = admin, le_status = st,
      le_decided_by = None, le_decided_at = None\<rparr>"

definition post_entry :: "group_row \<Rightarrow> ident \<Rightarrow> adjustment_dto \<Rightarrow> ledger_row \<Rightarrow> db \<Rightarrow> exn + db" where
  "post_entry g org dto entry d =
     (if ad_type dto = Refund then
        let requested = round_rupees (ad_amount dto);
            available = max 0 (- net_balance d org (ad_group dto) (ad_user dto) (policy_of (Some g)))
        in if available < requested then Inl (Unprocessable ''REFUND_EXCEEDS_CREDIT'')
           else Inr (d\<lparr>db_ledger := db_ledger d @ [entry]\<rparr>)
      else Inr (d\<lparr>db_ledger := db_ledger d @ [entry]\<rparr>))"

definition create_adjustment_inner ::
  "(string \<Rightarrow> string) \<Rightarrow> ident \<Rightarrow> ident \<Rightarrow> ident \<Rightarrow> adjustment_dto \<Rightarrow> db \<Rightarrow> exn + db" where
  "create_adjustment_inner tz_clock new_id admin org dto d =
     bindE (orErr (find_group d (ad_group dto) org) (NotFound ''Group not found'')) (\<lambda>g.
       if \<not> is_billing_applicable g then Inl (BadRequest ''BILLING_NOT_APPLICABLE'')
       else if \<not> (\<exists>m\<in>set (db_members d). gm_group m = ad_group dto \<and> gm_user m = ad_user dto)
       then Inl (NotFound ''Member not found in this group'')
       else
         bindE (consent_status d org dto) (\<lambda>st.
           let date_str = (if truthy (ad_entry_date dto) then take 10 (the (ad_entry_date dto))
                           else org_today tz_clock (Some g))
           in bindE (orErr (to_utc_midnight date_str) BadDate) (\<lambda>date.
                if is_date_finalized d org (ad_group dto) date \<noteq> None
                then Inl (Unprocessable ''PERIOD_FINALIZED'')
                else post_entry g org dto (entry_of new_id admin org dto date st) d)))"

definition decided :: "bool \<Rightarrow> ident \<Rightarrow> int \<Rightarrow> int \<Rightarrow> ledger_row \<Rightarrow> ledger_row" where
  "decided approve member now date l =
     l\<lparr>le_status := (if approve then EntryPosted else EntryRejected), le_decided_by := Some member,
       le_decided_at := Some now, le_date := date\<rparr>"

definition decide_adjustment ::
  "(string \<Rightarrow> string) \<Rightarrow> ident \<Rightarrow> ident \<Rightarrow> ident \<Rightarrow> bool \<Rightarrow> int \<Rightarrow> db \<Rightarrow> exn + db" where
  "decide_adjustment tz_clock member org i approve now d =
     bindE (orErr (find (\<lambda>l. le_id l = i \<and> le_org l = org) (db_ledger d)) (NotFound ''Adjustment not found''))
       (\<lambda>e.
         if le_user e \<noteq> member then Inl (Forbidden ''Not your pending charge'')
         else if le_status e \<noteq> EntryPending then Inl (Unprocessable ''ALREADY_DECIDED'')
         else
           bindE
             (if approve \<and> is_date_finalized d org (le_group e) (le_date e) \<noteq> None then
                bindE (orErr (to_utc_midnight (org_today tz_clock (find_group d (le_group e) org))) BadDate)
                  (\<lambda>today. if is_date_finalized d org (le_group e) today \<noteq> None
                           then Inl (Unprocessable ''PERIOD_FINALIZED'') else Inr today)
              else Inr (le_date e))
             (\<lambda>date. Inr (d\<lparr>db_ledger := map (\<lambda>l. if le_id l = i then decided approve member now date l else l)
                                           (db_ledger d)\<rparr>)))"

section \<open>Locked days\<close>

definition locked :: "db \<Rightarrow> ident \<Rightarrow> ident \<Rightarrow> int \<Rightarrow> bool" where
  "locked d org gid t \<longleftrightarrow>
     (\<exists>p\<in>set (db_periods d). bp_org p = org \<and> bp_group p = gid \<and> bp_status p = Finalized
        \<and> bp_start p \<le> t \<and> t \<le> bp_end p)"

lemma is_date_finalized_iff: "is_date_finalized d org gid t \<noteq> None \<longleftrightarrow> locked d org gid t"
  by (auto simp: is_date_finalized_def locked_def find_None_iff_none)

lemma is_date_finalized_None [simp]: "is_date_finalized d org gid t = None \<longleftrightarrow> \<not> locked d org gid t"
  using is_date_finalized_iff by blast

definition conflict :: "period_row \<Rightarrow> period_row \<Rightarrow> bool" where
  "conflict p q \<longleftrightarrow> bp_status p = Finalized \<and> bp_status q = Finalized \<and> bp_org p = bp_org q \<and> bp_group p = bp_group q
     \<and> bp_start p \<le> bp_end q \<and> bp_start q \<le> bp_end p"

definition finals_disjoint :: "db \<Rightarrow> bool" where
  "finals_disjoint d \<longleftrightarrow> apart conflict bp_id (db_periods d)"

lemma conflict_sym: "conflict p q \<Longrightarrow> conflict q p"
  by (simp add: conflict_def)

lemma finalize_cases:
  assumes "finalize_period tz_clock i admin org gid ps pe d = Inr d'"
  obtains a b g where "to_utc_midnight ps = Some a" "to_utc_midnight pe = Some b" "a \<le> b"
    "find_group d gid org = Some g" "is_billing_applicable g"
    "\<forall>t. to_utc_midnight (org_today tz_clock (Some g)) = Some t \<longrightarrow> b \<le> t"
    "overlapping_final d org gid a b = None"
    "d' = d\<lparr>db_periods := db_periods d @ [new_period i admin org gid a b (build_totals_snapshot d org gid a b)]\<rparr>"
  using assms
  by (auto simp: finalize_period_def Let_def js_lt_def not_less split: option.splits if_splits prod.splits)

text \<open>
  Finalizing locks exactly the requested days: it needs an applicable group, ordered
  dates not after the organisation's today and no overlap with a finalized period, adds one
  period with its snapshot, locks the days between the two dates for that group and no
  other day, and keeps finalized periods of a group disjoint.
\<close>

lemma finalize_locks_period:
  assumes "finalize_period tz_clock i admin org gid ps pe d = Inr d'" and "finals_disjoint d"
  shows "\<exists>a b. to_utc_midnight ps = Some a \<and> to_utc_midnight pe = Some b \<and> a \<le> b
    \<and> (\<exists>g. find_group d gid org = Some g \<and> is_billing_applicable g
          \<and> (\<forall>t. to_utc_midnight (org_today tz_clock (Some g)) = Some t \<longrightarrow> b \<le> t))
    \<and> (\<forall>o' h t. locked d' o' h t \<longleftrightarrow> locked d o' h t \<or> (o' = org \<and> h = gid \<and> a \<le> t \<and> t \<le> b))
    \<and> (\<forall>t. a \<le> t \<and> t \<le> b \<longrightarrow> \<not> locked d org gid t)
    \<and> bp_snapshot (last (db_periods d')) = Some (build_totals_snapshot d org gid a b)
    \<and> finals_disjoint d'"
proof -
  from assms(1) obtain a b g where f: "to_utc_midnight ps = Some a" "to_utc_midnight pe = Some b" "a \<le> b"
    "find_group d gid org = Some g" "is_billing_applicable g"
    "\<forall>t. to_utc_midnight (org_today tz_clock (Some g)) = Some t \<longrightarrow> b \<le> t"
    "overlapping_final d org gid a b = None"
    and d': "d' = d\<lparr>db_periods := db_periods d @ [new_period i admin org gid a b (build_totals_snapshot d org gid a b)]\<rparr>"
    by (rule finalize_cases)
  have free: "\<forall>q\<in>set (db_periods d). \<not> (bp_org q = org \<and> bp_group q = gid \<and> bp_status q = Finalized
      \<and> bp_start q \<le> b \<and> a \<le> bp_end q)"
    using f(7) by (simp add: overlapping_final_def find_None_iff_none)
  have lock: "\<forall>o' h t. locked d' o' h t \<longleftrightarrow> locked d o' h t \<or> (o' = org \<and> h = gid \<and> a \<le> t \<and> t \<le> b)"
    by (auto simp: locked_def d' new_period_def)
  have unlocked: "\<forall>t. a \<le> t \<and> t \<le> b \<longrightarrow> \<not> locked d org gid t"
  proof (intro allI impI notI)
    fix t assume t: "a \<le> t \<and> t \<le> b" and "locked d org gid t"
    then obtain q where q: "q \<in> set (db_periods d)" "bp_org q = org" "bp_group q = gid" "bp_status q = Finalized"
      "bp_start q \<le> t" "t \<le> bp_end q" by (auto simp: locked_def)
    then have "bp_start q \<le> b" "a \<le> bp_end q" using t by linarith+
    with q free show False by blast
  qed
  have disj: "finals_disjoint d'"
    unfolding finals_disjoint_def d' using assms(2)
    by (simp, intro apart_append) (use free in \<open>auto simp: finals_disjoint_def conflict_def new_period_def\<close>)
  have snap: "bp_snapshot (last (db_periods d')) = Some (build_totals_snapshot d org gid a b)"
    by (simp add: d' new_period_def)
  have ex: "\<exists>g. find_group d gid org = Some g \<and> is_billing_applicable g
      \<and> (\<forall>t. to_utc_midnight (org_today tz_clock (Some g)) = Some t \<longrightarrow> b \<le> t)"
    using f by blast
  show ?thesis
    by (rule exI [of _ a], rule exI [of _ b], intro conjI; fact f ex lock unlocked snap disj)
qed

text \<open>Reopening lifts the lock of one period; nothing else changes.\<close>

lemma reopen_cases:
  assumes "reopen_period admin org i reason d = Inr d'"
  obtains p where "p \<in> set (db_periods d)" "bp_id p = i" "bp_org p = org" "bp_status p = Finalized"
    "d' = update_period i (\<lambda>p. p\<lparr>bp_status := Reopened, bp_reopened_by := Some admin,
                                 bp_reopen_reason := Some reason\<rparr>) d"
  using assms by (auto simp: reopen_period_def load_period_def err_simps dest!: find_SomeD)

abbreviation reopened :: "ident \<Rightarrow> string \<Rightarrow> period_row \<Rightarrow> period_row" where
  "reopened admin reason p \<equiv> p\<lparr>bp_status := Reopened, bp_reopened_by := Some admin, bp_reopen_reason := Some reason\<rparr>"

lemma reopened_finals:
  "p \<in> set (db_periods (update_period i (reopened admin reason) d)) \<and> bp_status p = Finalized
     \<longleftrightarrow> p \<in> set (db_periods d) \<and> bp_status p = Finalized \<and> bp_id p \<noteq> i"
  by (auto simp: update_period_def image_iff)

lemma reopen_disjoint:
  "finals_disjoint d \<Longrightarrow> finals_disjoint (update_period i (reopened admin reason) d)"
  unfolding finals_disjoint_def update_period_def
  by (simp, erule apart_map) (auto simp: conflict_def split: if_splits)

text \<open>
  Reopening unlocks exactly the days of the reopened period: afterwards a day is
  locked if and only if some other finalized period holds it, no stored snapshot is
  touched, and finalized periods stay disjoint.
\<close>

lemma reopen_unlocks_period:
  assumes "reopen_period admin org i reason d = Inr d'" and "finals_disjoint d"
  shows "(\<forall>o' h t. locked d' o' h t \<longleftrightarrow>
        (\<exists>p\<in>set (db_periods d). bp_id p \<noteq> i \<and> bp_org p = o' \<and> bp_group p = h \<and> bp_status p = Finalized
            \<and> bp_start p \<le> t \<and> t \<le> bp_end p))
    \<and> map bp_snapshot (db_periods d') = map bp_snapshot (db_periods d)
    \<and> finals_disjoint d'"
proof -
  from assms(1) obtain p where d': "d' = update_period i (reopened admin reason) d" by (rule reopen_cases)
  have "locked d' o' h t \<longleftrightarrow>
        (\<exists>p\<in>set (db_periods d). bp_id p \<noteq> i \<and> bp_org p = o' \<and> bp_group p = h \<and> bp_status p = Finalized
            \<and> bp_start p \<le> t \<and> t \<le> bp_end p)" for o' h t
  proof -
    have "locked d' o' h t \<longleftrightarrow> (\<exists>p. (p \<in> set (db_periods d') \<and> bp_status p = Finalized)
        \<and> bp_org p = o' \<and> bp_group p = h \<and> bp_start p \<le> t \<and> t \<le> bp_end p)"
      by (auto simp: locked_def)
    then show ?thesis unfolding d' reopened_finals by blast
  qed
  moreover have "map bp_snapshot (db_periods d') = map bp_snapshot (db_periods d)"
    by (simp add: d' update_period_def)
  ultimately show ?thesis using reopen_disjoint [OF assms(2)] d' by blast
qed

section \<open>The ledger as a state machine\<close>

lemma post_entry_cases:
  assumes "post_entry g org dto e d = Inr d'"
  shows "d' = d\<lparr>db_ledger := db_ledger d @ [e]\<rparr>
    \<and> (ad_type dto = Refund \<longrightarrow>
        round_rupees (ad_amount dto) \<le> max 0 (- net_balance d org (ad_group dto) (ad_user dto) (policy_of (Some g))))"
  using assms by (auto simp: post_entry_def Let_def split: if_splits)

text \<open>Everything a successful post tells.\<close>

lemma create_cases:
  assumes "create_adjustment_inner tz_clock i admin org dto d = Inr d'"
  obtains g st date where "find_group d (ad_group dto) org = Some g" "is_billing_applicable g"
    "consent_status d org dto = Inr st" "\<not> locked d org (ad_group dto) date"
    "post_entry g org dto (entry_of i admin org dto date st) d = Inr d'"
    "d' = d\<lparr>db_ledger := db_ledger d @ [entry_of i admin org dto date st]\<rparr>"
proof -
  from assms obtain g st date where h: "find_group d (ad_group dto) org = Some g" "is_billing_applicable g"
    "consent_status d org dto = Inr st" "\<not> locked d org (ad_group dto) date"
    "post_entry g org dto (entry_of i admin org dto date st) d = Inr d'"
    by (auto simp: create_adjustment_inner_def bindE_eq_Inr Let_def split: if_splits)
  moreover from post_entry_cases [OF h(5)] have "d' = d\<lparr>db_ledger := db_ledger d @ [entry_of i admin org dto date st]\<rparr>"
    by simp
  ultimately show thesis by (rule that)
qed

lemma decide_cases:
  assumes "decide_adjustment tz_clock member org i approve now d = Inr d'"
  obtains e date where "e \<in> set (db_ledger d)" "le_id e = i" "le_org e = org" "le_user e = member"
    "le_status e = EntryPending" "approve \<longrightarrow> \<not> locked d org (le_group e) date"
    "d' = d\<lparr>db_ledger := map (\<lambda>l. if le_id l = i then decided approve member now date l else l) (db_ledger d)\<rparr>"
proof -
  let ?moved = "\<lambda>e. if approve \<and> is_date_finalized d org (le_group e) (le_date e) \<noteq> None then
                bindE (orErr (to_utc_midnight (org_today tz_clock (find_group d (le_group e) org))) BadDate)
                  (\<lambda>today. if is_date_finalized d org (le_group e) today \<noteq> None
                           then Inl (Unprocessable ''PERIOD_FINALIZED'') else Inr today)
              else Inr (le_date e)"
  from assms obtain e where e: "find (\<lambda>l. le_id l = i \<and> le_org l = org) (db_ledger d) = Some e"
    by (cases "find (\<lambda>l. le_id l = i \<and> le_org l = org) (db_ledger d)") (simp_all add: decide_adjustment_def)
  have guards: "le_user e = member" "le_status e = EntryPending"
    and m: "bindE (?moved e) (\<lambda>date. Inr (d\<lparr>db_ledger := map (\<lambda>l. if le_id l = i then decided approve member now date l else l)
                                           (db_ledger d)\<rparr>)) = Inr d'"
    using assms unfolding decide_adjustment_def e orErr_Some bindE_Inr if_Inl_eq_Inr by simp_all
  from m obtain date where date: "?moved e = Inr date"
    and d': "d' = d\<lparr>db_ledger := map (\<lambda>l. if le_id l = i then decided approve member now date l else l) (db_ledger d)\<rparr>"
    by (cases "?moved e") (simp_all only: bindE_Inl bindE_Inr sum.simps)
  have "approve \<longrightarrow> \<not> locked d org (le_group e) date"
    using date by (auto simp: bindE_eq_Inr split: if_splits)
  with e guards d' show thesis by (intro that [of e date]) (auto dest: find_SomeD)
qed

inductive ledger_step :: "db \<Rightarrow> db \<Rightarrow> bool" where
  create: "create_adjustment_inner tz_clock i admin org dto d = Inr d' \<Longrightarrow> valid_adjustment dto
     \<Longrightarrow> i \<notin> le_id ` set (db_ledger d) \<Longrightarrow> ledger_step d d'"
| decide: "decide_adjustment tz_clock member org i approve now d = Inr d' \<Longrightarrow> ledger_step d d'"
| corrections: "(\<And>c. c \<in> set (db_corrections d) \<Longrightarrow> cr_status c = ReqApproved \<Longrightarrow> c \<in> set cs)
     \<Longrightarrow> ledger_step d (d\<lparr>db_corrections := cs\<rparr>)"

inductive_cases ledger_stepE: "ledger_step d d'"

definition consented :: "db \<Rightarrow> ledger_row \<Rightarrow> bool" where
  "consented d l \<longleftrightarrow> le_decided_by l = Some (le_user l)
     \<or> (\<exists>c\<in>set (db_corrections d). Some (cr_id c) = le_ref_request l \<and> cr_org c = le_org l
          \<and> cr_user c = le_user l \<and> cr_status c = ReqApproved)"

definition ledger_ok :: "db \<Rightarrow> bool" where
  "ledger_ok d \<longleftrightarrow> distinct (map le_id (db_ledger d))
     \<and> (\<forall>l\<in>set (db_ledger d). 0 < le_amount l
          \<and> (le_status l \<noteq> EntryPosted \<longrightarrow> le_type l = Debit)
          \<and> (le_type l = Debit \<and> le_status l = EntryPosted \<longrightarrow> consented d l))"

lemma consent_posted:
  assumes "consent_status d org dto = Inr st"
  shows "(st = EntryPosted \<and> ad_type dto = Debit \<longrightarrow> consented d (entry_of i admin org dto date st))
    \<and> (st \<noteq> EntryPosted \<longrightarrow> st = EntryPending \<and> ad_type dto = Debit)"
  using assms
  by (auto simp: consent_status_def consented_def entry_of_def split: if_splits option.splits dest!: find_SomeD)

lemma decided_simps [simp]:
  "le_id (decided a m n t l) = le_id l" "le_user (decided a m n t l) = le_user l"
  "le_org (decided a m n t l) = le_org l" "le_group (decided a m n t l) = le_group l"
  "le_type (decided a m n t l) = le_type l" "le_amount (decided a m n t l) = le_amount l"
  "le_ref_request (decided a m n t l) = le_ref_request l" "le_date (decided a m n t l) = t"
  "le_status (decided a m n t l) = (if a then EntryPosted else EntryRejected)"
  "le_decided_by (decided a m n t l) = Some m"
  by (simp_all add: decided_def)

lemma entry_of_simps [simp]:
  "le_id (entry_of i admin org dto t st) = i" "le_org (entry_of i admin org dto t st) = org"
  "le_group (entry_of i admin org dto t st) = ad_group dto" "le_user (entry_of i admin org dto t st) = ad_user dto"
  "le_type (entry_of i admin org dto t st) = ad_type dto" "le_amount (entry_of i admin org dto t st) = ad_amount dto"
  "le_date (entry_of i admin org dto t st) = t" "le_status (entry_of i admin org dto t st) = st"
  by (simp_all add: entry_of_def)

lemma ledger_ok_step:
  assumes "ledger_step d d'" "ledger_ok d"
  shows "ledger_ok d'"
  using assms(1)
proof cases
  case (create tz_clock i admin org dto)
  from create(1) obtain g st date where h: "consent_status d org dto = Inr st"
    and d': "d' = d\<lparr>db_ledger := db_ledger d @ [entry_of i admin org dto date st]\<rparr>"
    by (rule create_cases)
  have "consented d' = consented d" by (simp add: d' consented_def fun_eq_iff)
  with create(2,3) assms(2) consent_posted [OF h] show ?thesis
    unfolding ledger_ok_def by (auto simp: d' valid_adjustment_def)
next
  case (decide tz_clock member org i approve now)
  from decide obtain e date where e: "e \<in> set (db_ledger d)" "le_id e = i" "le_user e = member" "le_status e = EntryPending"
    and d': "d' = d\<lparr>db_ledger := map (\<lambda>l. if le_id l = i then decided approve member now date l else l) (db_ledger d)\<rparr>"
    by (rule decide_cases)
  have only: "l = e" if "l \<in> set (db_ledger d)" "le_id l = i" for l
    using assms(2) that e(1,2) by (intro distinct_key_eq [of le_id "db_ledger d"]) (auto simp: ledger_ok_def)
  have "distinct (map le_id (db_ledger d'))" using assms(2) by (simp add: d' comp_if_id ledger_ok_def)
  moreover have "0 < le_amount l \<and> (le_status l \<noteq> EntryPosted \<longrightarrow> le_type l = Debit)
      \<and> (le_type l = Debit \<and> le_status l = EntryPosted \<longrightarrow> consented d' l)" if "l \<in> set (db_ledger d')" for l
  proof -
    from that obtain k where k: "k \<in> set (db_ledger d)" "l = (if le_id k = i then decided approve member now date k else k)"
      by (auto simp: d')
    have kok: "0 < le_amount k \<and> (le_status k \<noteq> EntryPosted \<longrightarrow> le_type k = Debit)
      \<and> (le_type k = Debit \<and> le_status k = EntryPosted \<longrightarrow> consented d k)"
      using assms(2) k(1) by (simp add: ledger_ok_def)
    show ?thesis
    proof (cases "le_id k = i")
      case True
      then have "k = e" using only k(1) by blast
      then show ?thesis using True kok e k(2) by (simp add: consented_def)
    next
      case False
      then show ?thesis using kok k(2) by (simp add: d' consented_def)
    qed
  qed
  ultimately show ?thesis by (simp add: ledger_ok_def)
next
  case (corrections cs)
  then have "consented d l \<Longrightarrow> consented d' l" for l by (fastforce simp: consented_def)
  with assms(2) corrections show ?thesis by (auto simp: ledger_ok_def)
qed

text \<open>
  (C1) Consent asymmetry of the ledger: starting from an empty ledger, whatever
  adjustments are posted and decided, every posted debit was agreed to by the member it
  bills, who either approved the pending charge or has the approved correction request it
  names; every amount is positive and credits and refunds are never left pending.
\<close>

theorem posted_debits_consented:
  assumes "db_ledger d0 = []" and "ledger_step\<^sup>*\<^sup>* d0 d" and "l \<in> set (db_ledger d)"
  shows "0 < le_amount l \<and> (le_type l = Debit \<and> le_status l = EntryPosted \<longrightarrow> consented d l)
    \<and> (le_type l \<noteq> Debit \<longrightarrow> le_status l = EntryPosted)"
proof -
  from assms(2) have "ledger_ok d"
  proof (induction rule: rtranclp_induct)
    case base
    then show ?case using assms(1) by (simp add: ledger_ok_def)
  next
    case (step y z)
    then show ?case using ledger_ok_step by blast
  qed
  with assms(3) show ?thesis by (auto simp: ledger_ok_def)
qed

section \<open>The ledger respects the lock\<close>

text \<open>The posted rows of each finalized period.\<close>

definition final_rows :: "db \<Rightarrow> period_row \<Rightarrow> ledger_row list" where
  "final_rows d p =
     (if p \<in> set (db_periods d) \<and> bp_status p = Finalized
      then ledger_in d (bp_org p) (bp_group p) (in_period (bp_start p) (bp_end p)) else [])"

lemma in_final_locked:
  "p \<in> set (db_periods d) \<Longrightarrow> bp_status p = Finalized \<Longrightarrow> in_period (bp_start p) (bp_end p) t
     \<Longrightarrow> locked d (bp_org p) (bp_group p) t"
  by (auto simp: locked_def in_period_def)

lemma ledger_in_append:
  "ledger_in (d\<lparr>db_ledger := db_ledger d @ [e]\<rparr>) org gid P
     = ledger_in d org gid P @ (if le_org e = org \<and> le_group e = gid \<and> P (le_date e) \<and> le_status e = EntryPosted then [e] else [])"
  by (simp add: ledger_in_def)

lemma ledger_in_decide:
  assumes "distinct (map le_id (db_ledger d))" and e: "e \<in> set (db_ledger d)" "le_id e = i" "le_status e = EntryPending"
    and "approve \<longrightarrow> \<not> (le_org e = org \<and> le_group e = gid \<and> P date)"
  shows "ledger_in (d\<lparr>db_ledger := map (\<lambda>l. if le_id l = i then decided approve m now date l else l) (db_ledger d)\<rparr>) org gid P
    = ledger_in d org gid P"
proof -
  let ?f = "\<lambda>l. if le_id l = i then decided approve m now date l else l"
  let ?Q = "\<lambda>l. le_org l = org \<and> le_group l = gid \<and> P (le_date l) \<and> le_status l = EntryPosted"
  have only: "l = e" if "l \<in> set (db_ledger d)" "le_id l = i" for l
    using assms(1) that e(1,2) by (intro distinct_key_eq [of le_id "db_ledger d"]) auto
  have "filter ?Q (map ?f ls) = filter ?Q ls" if "set ls \<subseteq> set (db_ledger d)" for ls
    using that
  proof (induction ls)
    case Nil
    then show ?case by simp
  next
    case (Cons l ls)
    then have IH: "filter ?Q (map ?f ls) = filter ?Q ls" and l: "l \<in> set (db_ledger d)" by auto
    show ?case
    proof (cases "le_id l = i")
      case True
      then have "l = e" using only l by blast
      then show ?thesis using IH True e(3) assms(5) by auto
    next
      case False
      then show ?thesis using IH by simp
    qed
  qed
  then show ?thesis by (simp add: ledger_in_def)
qed

lemma final_rows_step:
  assumes "ledger_step d d'" "ledger_ok d"
  shows "final_rows d' = final_rows d"
  using assms(1)
proof cases
  case (create tz_clock i admin org dto)
  from create(1) obtain st date where free: "\<not> locked d org (ad_group dto) date"
    and d': "d' = d\<lparr>db_ledger := db_ledger d @ [entry_of i admin org dto date st]\<rparr>"
    by (rule create_cases)
  have "final_rows d' p = final_rows d p" for p
    using free in_final_locked [of p d date] by (auto simp: final_rows_def d' ledger_in_append)
  then show ?thesis by (simp add: fun_eq_iff)
next
  case (decide tz_clock member org i approve now)
  from decide obtain e date where e: "e \<in> set (db_ledger d)" "le_id e = i" "le_org e = org" "le_status e = EntryPending"
    "approve \<longrightarrow> \<not> locked d org (le_group e) date"
    and d': "d' = d\<lparr>db_ledger := map (\<lambda>l. if le_id l = i then decided approve member now date l else l) (db_ledger d)\<rparr>"
    by (rule decide_cases)
  have "final_rows d' p = final_rows d p" for p
  proof (cases "p \<in> set (db_periods d) \<and> bp_status p = Finalized")
    case True
    have "approve \<longrightarrow> \<not> (le_org e = bp_org p \<and> le_group e = bp_group p \<and> in_period (bp_start p) (bp_end p) date)"
      using e(3,5) True in_final_locked [of p d date] by auto
    then have "ledger_in d' (bp_org p) (bp_group p) (in_period (bp_start p) (bp_end p))
        = ledger_in d (bp_org p) (bp_group p) (in_period (bp_start p) (bp_end p))"
      unfolding d' using assms(2) e by (intro ledger_in_decide) (auto simp: ledger_ok_def)
    then show ?thesis by (simp add: final_rows_def d')
  next
    case False
    then show ?thesis by (auto simp: final_rows_def d')
  qed
  then show ?thesis by (simp add: fun_eq_iff)
next
  case (corrections cs)
  then show ?thesis by (simp add: final_rows_def ledger_in_def fun_eq_iff)
qed

lemma ledger_step_periods: "ledger_step d d' \<Longrightarrow> db_periods d' = db_periods d"
  by (auto elim!: ledger_stepE create_cases decide_cases)

interpretation ledger_lock: guarded_steps ledger_step ledger_ok "\<lambda>d. (db_periods d, final_rows d)"
  by standard (auto simp: ledger_ok_step final_rows_step ledger_step_periods)

text \<open>
  (C2) A finalized period's ledger is frozen: however many adjustments are posted, decided
  or corrected afterwards, the posted rows inside the period and so every member's
  adjustment total for it stay what they were when it was finalized.
\<close>

theorem finalized_totals_frozen:
  assumes "ledger_step\<^sup>*\<^sup>* d d'" and "ledger_ok d" and "p \<in> set (db_periods d)" and "bp_status p = Finalized"
  shows "sum_adjustments_by_user d' (bp_org p) (bp_group p) (bp_start p) (bp_end p)
    = sum_adjustments_by_user d (bp_org p) (bp_group p) (bp_start p) (bp_end p)"
proof -
  have "db_periods d' = db_periods d" "final_rows d' = final_rows d"
    using ledger_lock.obs_run [OF assms(1,2)] by simp_all
  then have "final_rows d' p = final_rows d p" "p \<in> set (db_periods d')" using assms(3) by simp_all
  then show ?thesis
    using assms(3,4) by (simp add: final_rows_def sum_adjustments_by_user_def in_period_eta)
qed

lemma posted_kept:
  assumes "ledger_step d d'" "ledger_ok d" "l \<in> set (db_ledger d)" "le_status l = EntryPosted"
  shows "l \<in> set (db_ledger d')"
  using assms(1)
proof cases
  case (create tz_clock i admin org dto)
  from create(1) show ?thesis by (rule create_cases) (simp add: assms(3))
next
  case (decide tz_clock member org i approve now)
  from decide obtain e date where e: "e \<in> set (db_ledger d)" "le_id e = i" "le_status e = EntryPending"
    and d': "d' = d\<lparr>db_ledger := map (\<lambda>l. if le_id l = i then decided approve member now date l else l) (db_ledger d)\<rparr>"
    by (rule decide_cases)
  have "le_id l \<noteq> i"
    using assms(2-4) e distinct_key_eq [of le_id "db_ledger d" l e] by (auto simp: ledger_ok_def)
  with assms(3) show ?thesis by (force simp: d')
next
  case (corrections cs)
  with assms(3) show ?thesis by simp
qed

text \<open>
  The ledger is append-only: a posted entry is never changed or removed by any later
  operation, and no operation shortens the ledger.
\<close>

lemma posted_entries_immutable:
  assumes "ledger_step\<^sup>*\<^sup>* d d'" and "ledger_ok d" and "l \<in> set (db_ledger d)" and "le_status l = EntryPosted"
  shows "l \<in> set (db_ledger d') \<and> length (db_ledger d) \<le> length (db_ledger d')"
  using assms(1)
proof (induction rule: rtranclp_induct)
  case base
  then show ?case using assms(3) by simp
next
  case (step y z)
  have "ledger_ok y" using ledger_lock.inv_run [OF step(1) assms(2)] .
  then have "l \<in> set (db_ledger z)" using posted_kept [OF step(2)] step(3) assms(4) by blast
  moreover have "length (db_ledger y) \<le> length (db_ledger z)"
    using step(2) by (auto elim!: ledger_stepE create_cases decide_cases)
  ultimately show ?case using step(3) by simp
qed

section \<open>Refunds\<close>

lemma net_balance_append:
  assumes "le_org e = org" "le_group e = gid" "le_user e = u" "le_status e = EntryPosted" "100 dvd le_amount e"
  shows "net_balance (d\<lparr>db_ledger := db_ledger d @ [e]\<rparr>) org gid u pol
    = net_balance d org gid u pol + signed_amount (le_type e) (le_amount e div 100)"
proof -
  let ?d = "d\<lparr>db_ledger := db_ledger d @ [e]\<rparr>"
  have ch: "charges ?d org gid pol (\<lambda>_. True) u = charges d org gid pol (\<lambda>_. True) u"
    by (simp add: charges_def att_in_def guests_in_def)
  obtain k where k: "le_amount e = 100 * k" using assms(5) by (rule dvdE)
  have pa: "paise ?d org gid (\<lambda>_. True) u = 100 * signed_amount (le_type e) k + paise d org gid (\<lambda>_. True) u"
    using assms by (simp add: paise_def ledger_in_append signed_paise_def k signed_amount_def)
  show ?thesis
    unfolding net_balance_sum ch pa round_rupees_add_whole by (simp add: k)
qed

text \<open>
  (C3) A refund never exceeds the member's credit: a posted refund of whole rupees was at
  most what the member had in credit, the balance after it is the balance before plus the
  refund and never positive; a larger one is refused and nothing is written.
\<close>

theorem refund_within_credit:
  assumes "ad_type dto = Refund" and "valid_adjustment dto" and "100 dvd ad_amount dto"
    and "find_group d (ad_group dto) org = Some g"
    and "create_adjustment_inner tz_clock i admin org dto d = Inr d'"
  shows "ad_amount dto div 100 \<le> - net_balance d org (ad_group dto) (ad_user dto) (policy_of (Some g))
    \<and> net_balance d' org (ad_group dto) (ad_user dto) (policy_of (Some g))
      = net_balance d org (ad_group dto) (ad_user dto) (policy_of (Some g)) + ad_amount dto div 100
    \<and> net_balance d' org (ad_group dto) (ad_user dto) (policy_of (Some g)) \<le> 0"
proof -
  let ?net = "\<lambda>d. net_balance d org (ad_group dto) (ad_user dto) (policy_of (Some g))"
  from assms(5) obtain g' st date where h: "find_group d (ad_group dto) org = Some g'"
    "consent_status d org dto = Inr st"
    "post_entry g' org dto (entry_of i admin org dto date st) d = Inr d'"
    and d': "d' = d\<lparr>db_ledger := db_ledger d @ [entry_of i admin org dto date st]\<rparr>"
    by (rule create_cases)
  have st: "st = EntryPosted" using h(2) assms(1) by (simp add: consent_status_def)
  obtain k where k: "ad_amount dto = 100 * k" using assms(3) by (rule dvdE)
  then have "1 \<le> k" using assms(2) by (simp add: valid_adjustment_def)
  moreover have "k \<le> max 0 (- ?net d)"
    using post_entry_cases [OF h(3)] assms(1,4) h(1) k by simp
  ultimately have "k \<le> - ?net d" by linarith
  moreover have "?net d' = ?net d + k"
    unfolding d' using assms(1) st by (subst net_balance_append) (simp_all add: k signed_amount_def)
  ultimately show ?thesis by (simp add: k)
qed

section \<open>Concrete inputs\<close>

definition ex_meal :: "ident \<Rightarrow> string \<Rightarrow> int \<Rightarrow> attendance_row" where
  "ex_meal i ds price = \<lparr>at_id = i, at_org = ''o'', at_group = ''g'', at_user = ''u'', at_meal = ''m'',
     at_date = day_of ds, at_status = Present, at_preference = None, at_preferences = None, at_note = None,
     at_marked_at = None, at_marked_by = None, at_price = Some price, at_bill_absent = None,
     at_source = Some ''self'', at_source_request = None,
     at_guest_adults = 0, at_guest_children = 0\<rparr>"

definition ex_db :: db where
  "ex_db = \<lparr>db_attendance = [ex_meal ''a1'' ''2026-06-05'' 60, ex_meal ''a2'' ''2026-07-03'' 40],
     db_guests = [], db_ledger = [], db_periods = [], db_groups = [ex_group],
     db_members = [\<lparr>gm_group = ''g'', gm_user = ''u'', gm_status = MemberActive, gm_vacation = None, gm_default = None,
       gm_id = ''gm1'', gm_blocked_at = None, gm_removed_at = None, gm_updated_at = 0,
       gm_role = ''member'', gm_functional = None, gm_blocked_by = None, gm_removed_by = None,
       gm_reviewed_by = None, gm_reviewed_at = None, gm_review_note = None\<rparr>],
     db_corrections = []\<rparr>"

definition ex_clock :: "string \<Rightarrow> string" where
  "ex_clock tz = ''2026-08-20''"

definition ex_dto :: "ledger_type \<Rightarrow> int \<Rightarrow> adjustment_dto" where
  "ex_dto ty a = \<lparr>ad_group = ''g'', ad_user = ''u'', ad_type = ty, ad_amount = a, ad_reason = ''r'',
     ad_entry_date = Some ''2026-08-01'', ad_ref_record = None, ad_ref_guest = None, ad_ref_request = None\<rparr>"

definition ex_pending_db :: db where
  "ex_pending_db = ex_db\<lparr>db_ledger := [entry_of ''e1'' ''admin'' ''o'' (ex_dto Debit 500) (day_of ''2026-08-01'') EntryPending]\<rparr>"

definition ex_approved_db :: db where
  "ex_approved_db = ex_db\<lparr>db_ledger := [decided True ''u'' 9 (day_of ''2026-08-01'')
     (entry_of ''e1'' ''admin'' ''o'' (ex_dto Debit 500) (day_of ''2026-08-01'') EntryPending)]\<rparr>"

lemma ex_create: "create_adjustment_inner ex_clock ''e1'' ''admin'' ''o'' (ex_dto Debit 500) ex_db = Inr ex_pending_db"
  by code_simp

lemma ex_decide: "decide_adjustment ex_clock ''u'' ''o'' ''e1'' True 9 ex_pending_db = Inr ex_approved_db"
  by code_simp

lemma ex_run: "ledger_step\<^sup>*\<^sup>* ex_db ex_approved_db"
proof -
  have "ledger_step ex_db ex_pending_db"
    by (rule ledger_step.create [OF ex_create]) (simp_all add: valid_adjustment_def ex_dto_def ex_db_def)
  moreover have "ledger_step ex_pending_db ex_approved_db" by (rule ledger_step.decide [OF ex_decide])
  ultimately show ?thesis by (meson converse_rtranclp_into_rtranclp r_into_rtranclp)
qed

theorem posted_debits_consented_witness:
  "0 < le_amount (hd (db_ledger ex_approved_db)) \<and> consented ex_approved_db (hd (db_ledger ex_approved_db))"
proof -
  have "db_ledger ex_db = []" and l: "hd (db_ledger ex_approved_db) \<in> set (db_ledger ex_approved_db)"
    and "le_type (hd (db_ledger ex_approved_db)) = Debit" "le_status (hd (db_ledger ex_approved_db)) = EntryPosted"
    by (simp_all add: ex_db_def ex_approved_db_def ex_dto_def)
  with posted_debits_consented [OF _ ex_run l] show ?thesis by blast
qed

definition ex_final_db :: "db \<Rightarrow> db" where
  "ex_final_db d = d\<lparr>db_periods := [new_period ''p1'' ''admin'' ''o'' ''g'' (day_of ''2026-06-01'') (day_of ''2026-06-30'')
     (build_totals_snapshot ex_db ''o'' ''g'' (day_of ''2026-06-01'') (day_of ''2026-06-30''))]\<rparr>"

lemma ex_finalize: "finalize_period ex_clock ''p1'' ''admin'' ''o'' ''g'' ''2026-06-01'' ''2026-06-30'' ex_db = Inr (ex_final_db ex_db)"
  by code_simp

theorem finalized_totals_frozen_witness:
  "\<exists>d'. create_adjustment_inner ex_clock ''e1'' ''admin'' ''o'' (ex_dto Credit 500) (ex_final_db ex_db) = Inr d'
    \<and> sum_adjustments_by_user d' ''o'' ''g'' (day_of ''2026-06-01'') (day_of ''2026-06-30'')
      = sum_adjustments_by_user (ex_final_db ex_db) ''o'' ''g'' (day_of ''2026-06-01'') (day_of ''2026-06-30'')"
proof -
  let ?d' = "(ex_final_db ex_db)\<lparr>db_ledger := [entry_of ''e1'' ''admin'' ''o'' (ex_dto Credit 500) (day_of ''2026-08-01'') EntryPosted]\<rparr>"
  let ?p = "hd (db_periods (ex_final_db ex_db))"
  have c: "create_adjustment_inner ex_clock ''e1'' ''admin'' ''o'' (ex_dto Credit 500) (ex_final_db ex_db) = Inr ?d'"
    by code_simp
  have "ledger_step (ex_final_db ex_db) ?d'"
    by (rule ledger_step.create [OF c]) (simp_all add: valid_adjustment_def ex_dto_def ex_db_def ex_final_db_def)
  then have s: "ledger_step\<^sup>*\<^sup>* (ex_final_db ex_db) ?d'" by (rule r_into_rtranclp)
  have ok: "ledger_ok (ex_final_db ex_db)" by (simp add: ledger_ok_def ex_final_db_def ex_db_def)
  have p: "?p \<in> set (db_periods (ex_final_db ex_db))" "bp_status ?p = Finalized"
    and f: "bp_org ?p = ''o''" "bp_group ?p = ''g''" "bp_start ?p = day_of ''2026-06-01''" "bp_end ?p = day_of ''2026-06-30''"
    by (simp_all add: ex_final_db_def new_period_def)
  show ?thesis using finalized_totals_frozen [OF s ok p] c unfolding f by blast
qed

definition ex_credit_db :: db where
  "ex_credit_db = ex_db\<lparr>db_ledger := [entry_of ''c1'' ''admin'' ''o'' (ex_dto Credit 30000) (day_of ''2026-08-01'') EntryPosted]\<rparr>"

theorem refund_within_credit_witness:
  "\<exists>d'. create_adjustment_inner ex_clock ''e1'' ''admin'' ''o'' (ex_dto Refund 15000) ex_credit_db = Inr d'
    \<and> net_balance ex_credit_db ''o'' ''g'' ''u'' (policy_of (Some ex_group)) = -200
    \<and> net_balance d' ''o'' ''g'' ''u'' (policy_of (Some ex_group)) \<le> 0"
proof -
  let ?d' = "ex_credit_db\<lparr>db_ledger := db_ledger ex_credit_db @
     [entry_of ''e1'' ''admin'' ''o'' (ex_dto Refund 15000) (day_of ''2026-08-01'') EntryPosted]\<rparr>"
  have c: "create_adjustment_inner ex_clock ''e1'' ''admin'' ''o'' (ex_dto Refund 15000) ex_credit_db = Inr ?d'"
    by code_simp
  have n: "net_balance ex_credit_db ''o'' ''g'' ''u'' (policy_of (Some ex_group)) = -200" by code_simp
  have p: "ad_type (ex_dto Refund 15000) = Refund" "valid_adjustment (ex_dto Refund 15000)"
    "100 dvd ad_amount (ex_dto Refund 15000)" "ad_group (ex_dto Refund 15000) = ''g''" "ad_user (ex_dto Refund 15000) = ''u''"
    by (simp_all add: ex_dto_def valid_adjustment_def)
  have g: "find_group ex_credit_db (ad_group (ex_dto Refund 15000)) ''o'' = Some ex_group"
    by (simp add: find_group_def ex_credit_db_def ex_db_def ex_group_def ex_dto_def)
  show ?thesis using refund_within_credit [OF p(1-3) g c] c n unfolding p(4,5) by blast
qed

section \<open>Where the rules leak\<close>

definition result_db :: "exn + db \<Rightarrow> db" where
  "result_db r = (case r of Inl _ \<Rightarrow> ex_db | Inr d \<Rightarrow> d)"

text \<open>
  The cap compares the refund rounded to rupees, so refunds below 50 paise pass with no
  credit at all, and enough of them move the balance.
\<close>

definition cheap_refund :: "ident \<Rightarrow> db \<Rightarrow> db" where
  "cheap_refund i d = result_db (create_adjustment_inner ex_clock i ''admin'' ''o'' (ex_dto Refund 49) d)"

lemma sub_rupee_refunds_escape_cap:
  "net_balance ex_db ''o'' ''g'' ''u'' (policy_of (Some ex_group)) = 100
   \<and> net_balance (cheap_refund ''r3'' (cheap_refund ''r2'' (cheap_refund ''r1'' ex_db))) ''o'' ''g'' ''u''
       (policy_of (Some ex_group)) = 101"
  by code_simp

text \<open>Re-finalizing checks no overlap: two finalized periods of a group can overlap.\<close>

definition reopened_db :: db where
  "reopened_db = result_db (reopen_period ''admin'' ''o'' ''p1'' ''fix'' (ex_final_db ex_db))"

definition overlap_db :: db where
  "overlap_db = result_db (refinalize_period ''admin'' ''o'' ''p1''
     (result_db (finalize_period ex_clock ''p2'' ''admin'' ''o'' ''g'' ''2026-06-15'' ''2026-07-15'' reopened_db)))"

lemma refinalize_can_overlap: "\<not> finals_disjoint overlap_db"
  by code_simp

text \<open>
  A month that is never finalized is lost from the snapshot chain: June and August are
  finalized, July's meal of 40 is in the recomputed balance but not in the carried one.
\<close>

definition gap_db :: db where
  "gap_db = result_db (finalize_period ex_clock ''p2'' ''admin'' ''o'' ''g'' ''2026-08-01'' ''2026-08-15''
     (ex_final_db ex_db))"

lemma gap_lost_from_snapshot_chain:
  "fst (compute_opening_balances gap_db ''o'' ''g'' (day_of ''2026-08-16'') (policy_of (Some ex_group)) True) = [(''u'', 60)]
   \<and> fst (compute_opening_balances gap_db ''o'' ''g'' (day_of ''2026-08-16'') (policy_of (Some ex_group)) False) = [(''u'', 100)]"
  by code_simp

text \<open>
  (C4) A finalization snapshot is exact and complete: it has one line per member, each
  line's closing balance is its opening plus the billed meals, guests and adjustments of
  the period, and reading the snapshot back as the next opening gives every member exactly
  that closing, nothing for a member it does not list, and no zero entry.
\<close>

theorem snapshot_carries_closing:
  "\<exists>ms carry. ts_members (build_totals_snapshot d org gid a b) = Some ms
    \<and> distinct (map sm_user ms)
    \<and> (\<forall>m\<in>set ms. sm_closing m = Some (sm_opening m + sm_billed m + sm_guest m + sm_adjustments m))
    \<and> opening_from_snapshot (Some (build_totals_snapshot d org gid a b)) = Some carry
    \<and> (\<forall>u. get0 carry u = closing d org gid a b u)
    \<and> 0 \<notin> snd ` set carry"
  by (rule snapshot_members_closing)

theorem snapshot_carries_closing_witness:
  "\<exists>carry. opening_from_snapshot (Some (build_totals_snapshot ex_db ''o'' ''g'' (day_of ''2026-06-01'') (day_of ''2026-06-30''))) = Some carry
    \<and> get0 carry ''u'' = closing ex_db ''o'' ''g'' (day_of ''2026-06-01'') (day_of ''2026-06-30'') ''u''"
  using snapshot_carries_closing [of ex_db "''o''" "''g''" "day_of ''2026-06-01''" "day_of ''2026-06-30''"] by blast

end
