(* ===== verification/Meal_World.thy ===== *)
theory Meal_World
  imports Vacations Billing_Ledger
begin

text \<open>
  The state the attendance, guest and correction services share (\<open>src/prisma/schema.prisma\<close>),
  what they read of the world around them, and the effective window and price of a meal on
  a day (\<open>AttendanceService.resolveEffectiveWindow\<close>, \<open>GuestsService.resolveEffectiveWindow\<close>).
\<close>

section \<open>Tables\<close>

record meal_row = raw_meal +
  ml_id :: ident
  ml_org :: ident
  ml_group :: ident
  ml_is_active :: bool
  ml_deleted_at :: "int option"
  ml_attendance_enabled :: bool
  ml_prefs_enabled :: bool

text \<open>
  \<open>w_selections\<close> is the child table of preference selections, keyed by the id of the
  attendance record; \<open>w_orgs\<close> gives the time zone of each organisation.
\<close>

record world =
  w_db :: db
  w_meals :: "meal_row list"
  w_users :: "user_row list"
  w_orgs :: "(ident \<times> string) list"
  w_vacations :: "vacation_row list"
  w_schedules :: "schedule_row list"
  w_bindings :: "binding list"
  w_selections :: "(ident \<times> selection_row) list"

text \<open>
  What a call reads from outside: the calendar date and the wall-clock time of a time zone
  (\<open>Intl.DateTimeFormat\<close>), the instant, the reply of Redis to \<open>SET NX\<close>, and fresh ids.
\<close>

record env =
  en_date :: "string \<Rightarrow> string"
  en_time :: "string \<Rightarrow> string"
  en_now :: int
  en_first_writer :: bool
  en_id :: "nat \<Rightarrow> ident"

text \<open>Configuration: quantity and guest ceilings, the dedup window and the correction limits.\<close>

record config =
  cf_quantity_cap :: int
  cf_dedup_seconds :: int
  cf_guest_max :: int
  cf_max_open :: int
  cf_max_per_day :: int
  cf_expiry_hours :: int
  cf_absent_auto :: bool

definition raw_meals :: "world \<Rightarrow> ident \<Rightarrow> raw_meal" where
  "raw_meals w i = raw_meal.truncate (the (find (\<lambda>m. ml_id m = i) (w_meals w)))"

definition slot_meals :: "world \<Rightarrow> taken_meal list" where
  "slot_meals w = map (\<lambda>m. \<lparr>tm_id = ml_id m, tm_org = ml_org m, tm_group = ml_group m,
     tm_slot = rm_slot_key m, tm_name = rm_name m, tm_open = rm_window_open m\<rparr>) (w_meals w)"

definition find_meal :: "world \<Rightarrow> ident \<Rightarrow> ident \<Rightarrow> meal_row option" where
  "find_meal w org i = find (\<lambda>m. ml_id m = i \<and> ml_org m = org) (w_meals w)"

text \<open>\<open>group: \{ select \}\<close> of a meal: the foreign key makes it present.\<close>

definition meal_group :: "world \<Rightarrow> meal_row \<Rightarrow> group_row option" where
  "meal_group w m = find (\<lambda>g. gr_id g = ml_group m) (db_groups (w_db w))"

definition org_tz :: "world \<Rightarrow> ident \<Rightarrow> string" where
  "org_tz w org = nullish (map_of (w_orgs w) org) ''Asia/Kolkata''"

definition find_membership :: "world \<Rightarrow> ident \<Rightarrow> ident \<Rightarrow> member_row option" where
  "find_membership w gid user = find (\<lambda>m. gm_group m = gid \<and> gm_user m = user) (db_members (w_db w))"

definition is_active_member :: "world \<Rightarrow> ident \<Rightarrow> ident \<Rightarrow> bool" where
  "is_active_member w gid user \<longleftrightarrow>
     (\<exists>m\<in>set (db_members (w_db w)). gm_group m = gid \<and> gm_user m = user \<and> gm_status m = MemberActive)"

definition find_user :: "world \<Rightarrow> ident \<Rightarrow> user_row option" where
  "find_user w user = find (\<lambda>u. us_id u = user) (w_users w)"

definition record_at :: "world \<Rightarrow> ident \<Rightarrow> ident \<Rightarrow> int \<Rightarrow> attendance_row option" where
  "record_at w user meal t =
     find (\<lambda>a. at_user a = user \<and> at_meal a = meal \<and> at_date a = t) (db_attendance (w_db w))"

definition period_locked :: "world \<Rightarrow> ident \<Rightarrow> ident \<Rightarrow> int \<Rightarrow> bool" where
  "period_locked w org gid t \<longleftrightarrow> is_date_finalized (w_db w) org gid t \<noteq> None"

definition assert_period_not_finalized :: "world \<Rightarrow> ident \<Rightarrow> ident \<Rightarrow> string \<Rightarrow> exn + int" where
  "assert_period_not_finalized w org gid date_str =
     bindE (orErr (to_utc_midnight date_str) BadDate)
       (\<lambda>t. if period_locked w org gid t then Inl (Locked ''PERIOD_FINALIZED'') else Inr t)"

section \<open>The effective window and price of a day\<close>

definition published_day :: "world \<Rightarrow> ident \<Rightarrow> ident \<Rightarrow> string \<Rightarrow> exn + (ident \<times> day_entry) list" where
  "published_day w org gid date_str =
     resolve_published_day (raw_meals w) (w_schedules w)
       (Some (\<lambda>g o'. map_option gr_day_wise (find_group (w_db w) g o'))) gid org date_str None"

record effective =
  ef_open :: "string option"
  ef_close :: "string option"
  ef_price :: "int option"
  ef_scheduled :: bool
  ef_prefs_enabled :: "bool option"
  ef_group_ids :: "ident list"
  ef_frozen_groups :: "pref_group list option"

text \<open>
  The master values are the arguments; \<open>frozen\<close> is the configuration captured at publish.
  A published opening time decides both ends of the window.
\<close>

definition effective_of ::
  "day_entry option \<Rightarrow> string option \<Rightarrow> string option \<Rightarrow> int option \<Rightarrow> effective" where
  "effective_of entry m_open m_close m_price =
     (let frozen = Option.bind entry (\<lambda>e. if de_frozen e then de_meal e else None);
          base_open = nullish_opt (Option.bind frozen dm_window_open) m_open;
          base_close = nullish_opt (Option.bind frozen dm_window_close) m_close;
          base_price = (case frozen of Some f \<Rightarrow> dm_price f | None \<Rightarrow> m_price)
      in case entry of
           None \<Rightarrow> \<lparr>ef_open = base_open, ef_close = base_close, ef_price = base_price, ef_scheduled = False,
                    ef_prefs_enabled = None, ef_group_ids = [], ef_frozen_groups = None\<rparr>
         | Some e \<Rightarrow>
             \<lparr>ef_open = (if truthy (de_open_time e) then de_open_time e else base_open),
              ef_close = (if truthy (de_open_time e) then de_close_time e else base_close),
              ef_price = nullish_opt (de_price e) base_price, ef_scheduled = True,
              ef_prefs_enabled = de_prefs_enabled e, ef_group_ids = de_enabled_group_ids e,
              ef_frozen_groups =
                (if de_frozen e
                 then Some (case de_preference e of None \<Rightarrow> [] | Some p \<Rightarrow> ps_groups p) else None)\<rparr>)"

definition resolve_effective_window ::
  "world \<Rightarrow> ident \<Rightarrow> ident \<Rightarrow> ident \<Rightarrow> string \<Rightarrow> string option \<Rightarrow> string option \<Rightarrow> int option \<Rightarrow> exn + effective" where
  "resolve_effective_window w meal gid org date_str m_open m_close m_price =
     bindE (published_day w org gid date_str)
       (\<lambda>day. Inr (effective_of (map_of day meal) m_open m_close m_price))"

text \<open>\<open>getEffectiveGroupsForMeal\<close>: the stored bindings in their order.\<close>

definition effective_groups :: "world \<Rightarrow> ident \<Rightarrow> ident \<Rightarrow> pref_group list" where
  "effective_groups w meal org =
     build_effective_groups (sort_key bd_order (filter (\<lambda>b. bd_meal_id b = meal) (w_bindings w))) org meal"

definition planner_active :: "group_row option \<Rightarrow> bool" where
  "planner_active g =
     (case g of None \<Rightarrow> False | Some g \<Rightarrow> gr_meals_enabled g \<and> (gr_weekly_menu g \<or> gr_day_wise g))"

text \<open>
  The groups a Present mark answers to: the frozen set of the published day, the planner
  day's subset, or, outside a planner, none when the group switched preferences off.
\<close>

definition day_groups ::
  "world \<Rightarrow> ident \<Rightarrow> ident \<Rightarrow> group_row option \<Rightarrow> effective \<Rightarrow> pref_group list" where
  "day_groups w meal org g eff =
     (case ef_frozen_groups eff of
        Some gs \<Rightarrow> gs
      | None \<Rightarrow>
          if planner_active g \<and> ef_scheduled eff
          then apply_day_override (effective_groups w meal org) (Some (ef_prefs_enabled eff, ef_group_ids eff))
          else if map_option gr_prefs_enabled g = Some False then []
          else effective_groups w meal org)"

text \<open>
  The price snapshot of a validated set: paise become whole rupees here, and a set is billed
  without a base price only where the group prices meals.
\<close>

definition price_with_delta :: "group_row option \<Rightarrow> int option \<Rightarrow> int \<Rightarrow> int option" where
  "price_with_delta g base delta =
     (case base of
        Some p \<Rightarrow> Some (p + round_rupees delta)
      | None \<Rightarrow>
          if 0 < delta \<and> map_option gr_pricing_enabled g = Some True then Some (round_rupees delta) else None)"

end
