(* ===== verification/Guests.thy ===== *)
theory Guests
  imports Meal_World
begin

text \<open>
  Member-hosted guests: booking, editing, cancelling, the two decision paths and the
  reconciliation with the host's attendance
  (\<open>src/src/features/guests/guests.service.ts\<close>).  Advisory locks serialise the booking
  transactions, so each is one step; caches, events, notices and audit are left out.
\<close>

section \<open>Inputs\<close>

record guest_dto =
  gd_is_adult :: "bool option"
  gd_name :: "string option"
  gd_preference :: "string option"
  gd_selections :: "selection list option"

record book_dto =
  bk_date :: string
  bk_guests :: "guest_dto list"
  bk_host :: "ident option"

text \<open>A field of the patch is \<open>None\<close> when it is undefined.\<close>

record guest_patch =
  gp_name :: "string option option"
  gp_preference :: "string option option"
  gp_selections :: "selection list option option"

text \<open>\<open><\<close> on strings compares character codes from the left.\<close>

fun str_less :: "string \<Rightarrow> string \<Rightarrow> bool" where
  "str_less _ [] = False"
| "str_less [] (_ # _) = True"
| "str_less (a # as) (b # bs) =
     ((of_char a :: nat) < of_char b \<or> (a = b \<and> str_less as bs))"

fun mapE :: "('a \<Rightarrow> exn + 'b) \<Rightarrow> 'a list \<Rightarrow> exn + 'b list" where
  "mapE f [] = Inr []"
| "mapE f (x # xs) = bindE (f x) (\<lambda>y. bindE (mapE f xs) (\<lambda>ys. Inr (y # ys)))"

section \<open>Guests of a host and their counters\<close>

definition guest_of :: "ident \<Rightarrow> ident \<Rightarrow> ident \<Rightarrow> int \<Rightarrow> guest_row \<Rightarrow> bool" where
  "guest_of org host meal t g \<longleftrightarrow> hg_org g = org \<and> hg_host g = host \<and> hg_meal g = meal \<and> hg_date g = t"

definition booked_of :: "world \<Rightarrow> ident \<Rightarrow> ident \<Rightarrow> ident \<Rightarrow> int \<Rightarrow> guest_row list" where
  "booked_of w org host meal t =
     filter (\<lambda>g. guest_of org host meal t g \<and> hg_status g = Booked) (db_guests (w_db w))"

definition confirmed_count :: "world \<Rightarrow> ident \<Rightarrow> ident \<Rightarrow> ident \<Rightarrow> int \<Rightarrow> bool \<Rightarrow> int" where
  "confirmed_count w org host meal t adult =
     int (length (filter (\<lambda>g. \<not> hg_pending g \<and> hg_is_adult g = adult) (booked_of w org host meal t)))"

definition recompute_host_counters :: "ident \<Rightarrow> ident \<Rightarrow> ident \<Rightarrow> int \<Rightarrow> world \<Rightarrow> world" where
  "recompute_host_counters org host meal t w =
     w\<lparr>w_db := (w_db w)\<lparr>db_attendance := map (\<lambda>a.
        if at_org a = org \<and> at_user a = host \<and> at_meal a = meal \<and> at_date a = t
        then a\<lparr>at_guest_adults := confirmed_count w org host meal t True,
               at_guest_children := confirmed_count w org host meal t False\<rparr>
        else a) (db_attendance (w_db w))\<rparr>\<rparr>"

definition set_guests :: "(guest_row list \<Rightarrow> guest_row list) \<Rightarrow> world \<Rightarrow> world" where
  "set_guests f w = w\<lparr>w_db := (w_db w)\<lparr>db_guests := f (db_guests (w_db w))\<rparr>\<rparr>"

definition update_guest_row :: "ident \<Rightarrow> (guest_row \<Rightarrow> guest_row) \<Rightarrow> world \<Rightarrow> world" where
  "update_guest_row i f = set_guests (map (\<lambda>g. if hg_id g = i then f g else g))"

section \<open>Gates\<close>

definition assert_eligible_host :: "world \<Rightarrow> ident \<Rightarrow> ident \<Rightarrow> exn + member_row" where
  "assert_eligible_host w gid host =
     (case find_membership w gid host of
        None \<Rightarrow> Inl (Forbidden ''The host is not an active member of this group'')
      | Some m \<Rightarrow>
          if gm_status m = MemberBlocked then Inl (Forbidden ''MEMBER_BLOCKED'')
          else if gm_status m \<noteq> MemberActive
          then Inl (Forbidden ''The host is not an active member of this group'')
          else Inr m)"

definition cutoff_passed :: "env \<Rightarrow> string \<Rightarrow> int option \<Rightarrow> string option \<Rightarrow> bool" where
  "cutoff_passed e tz cutoff close =
     (truthy close
      \<and> js_ge (hhmm_to_minutes_since_midnight (en_time e tz))
              (js_plus (hhmm_to_minutes_since_midnight (the close)) (- nullish cutoff 0)))"

text \<open>The guest service resolves the window from the meal's own row.\<close>

definition guest_window :: "world \<Rightarrow> meal_row \<Rightarrow> ident \<Rightarrow> string \<Rightarrow> exn + effective" where
  "guest_window w meal org date_str =
     resolve_effective_window w (ml_id meal) (ml_group meal) org date_str
       (rm_window_open meal) (rm_window_close meal) (rm_price meal)"

definition assert_guest_window_open :: "env \<Rightarrow> world \<Rightarrow> meal_row \<Rightarrow> int \<Rightarrow> ident \<Rightarrow> exn + unit" where
  "assert_guest_window_open e w meal t org =
     (let tz = org_tz w (ml_org meal); date_str = format_utc_date t; today = en_date e tz
      in if str_less today date_str then Inr ()
         else if str_less date_str today then Inl (Locked ''GUEST_WINDOW_CLOSED'')
         else
           bindE (guest_window w meal org date_str) (\<lambda>eff.
             if cutoff_passed e tz (Option.bind (meal_group w meal) gr_guest_cutoff) (ef_close eff)
             then Inl (Locked ''GUEST_WINDOW_CLOSED'') else Inr ()))"

text \<open>The groups a guest answers to: the planner day only where the meal has groups at all.\<close>

definition guest_groups ::
  "world \<Rightarrow> meal_row \<Rightarrow> group_row option \<Rightarrow> ident \<Rightarrow> string \<Rightarrow> exn + pref_group list" where
  "guest_groups w meal g org date_str =
     (let gs = effective_groups w (ml_id meal) org;
          planner = (case g of None \<Rightarrow> False | Some g \<Rightarrow> gr_weekly_menu g \<or> gr_day_wise g)
      in if gs = [] \<or> \<not> planner then Inr gs
         else
           bindE (published_day w org (ml_group meal) date_str) (\<lambda>day. Inr
             (case map_of day (ml_id meal) of
                None \<Rightarrow> gs
              | Some en \<Rightarrow>
                  if de_frozen en then (case de_preference en of None \<Rightarrow> [] | Some p \<Rightarrow> ps_groups p)
                  else apply_day_override gs (Some (de_prefs_enabled en, de_enabled_group_ids en)))))"

definition resolve_guest_price :: "group_row \<Rightarrow> int option \<Rightarrow> int option" where
  "resolve_guest_price g price =
     (if \<not> gr_pricing_enabled g then None
      else if nullish (gr_guest_pricing g) ''sameAsMember'' = ''flatSurcharge'' then
        let base = nullish price 0
        in if nullish (gr_guest_surcharge_type g) ''fixed'' = ''percent''
           then Some (base + round_rupees (base * nullish (gr_guest_surcharge g) 0))
           else Some (base + nullish (gr_guest_surcharge g) 0)
      else price)"

text \<open>One guest of a booking: an unknown or missing flat tag is refused.\<close>

definition check_guest_tag :: "group_row \<Rightarrow> pref_group list \<Rightarrow> guest_dto \<Rightarrow> exn + unit" where
  "check_guest_tag g gs x =
     (if gr_guest_pref_required g \<and> \<not> truthy (gd_preference x) \<and> gr_enabled_prefs g \<noteq> [] \<and> gs = []
      then Inl (Unprocessable ''GUEST_PREFERENCE_REQUIRED'')
      else if truthy (gd_preference x) \<and> gr_enabled_prefs g \<noteq> []
              \<and> \<not> is_system_none_preference (gd_preference x)
              \<and> the (gd_preference x) \<notin> set (gr_enabled_prefs g)
      then Inl (Unprocessable ''Preference is not enabled for this group'')
      else Inr ())"

definition guest_row_of ::
  "env \<Rightarrow> ident \<Rightarrow> ident \<Rightarrow> ident \<Rightarrow> ident \<Rightarrow> group_row \<Rightarrow> ident \<Rightarrow> int \<Rightarrow> bool \<Rightarrow> int option
     \<Rightarrow> nat \<Rightarrow> guest_dto \<Rightarrow> validated option \<Rightarrow> guest_row" where
  "guest_row_of e org gid host caller g meal t pending price n x v =
     \<lparr>hg_id = en_id e n, hg_org = org, hg_group = gid, hg_meal = meal, hg_date = t, hg_host = host,
      hg_status = Booked, hg_pending = pending,
      hg_price = (let base = resolve_guest_price g price
                  in case v of None \<Rightarrow> base | Some v \<Rightarrow> price_with_delta (Some g) base (vs_total_delta v)),
      hg_auto_cancelled = False, hg_is_adult = nullish (gd_is_adult x) True, hg_name = gd_name x,
      hg_preference = nullish_opt (gd_preference x)
        (nullish_opt (Option.bind v vs_primary_key)
           (if gr_enabled_prefs g \<noteq> [] then Some none_flat_key else None)),
      hg_selections = (case v of None \<Rightarrow> None
                       | Some v \<Rightarrow> if vs_snapshot v = [] then None else Some (vs_snapshot v)),
      hg_created_by = caller, hg_approved_by = None, hg_approved_at = None,
      hg_cancelled_by = None, hg_cancelled_at = None\<rparr>"

definition booking_rows ::
  "env \<Rightarrow> ident \<Rightarrow> ident \<Rightarrow> ident \<Rightarrow> group_row \<Rightarrow> ident \<Rightarrow> int \<Rightarrow> bool \<Rightarrow> int option
     \<Rightarrow> guest_dto list \<Rightarrow> validated option list \<Rightarrow> guest_row list" where
  "booking_rows e org host caller g meal t pending price xs vs =
     map (\<lambda>(n, x, v). guest_row_of e org (gr_id g) host caller g meal t pending price n x v)
       (zip [0..<length xs] (zip xs vs))"

definition meal_cap :: "config \<Rightarrow> group_row \<Rightarrow> int" where
  "meal_cap cf g = min (nullish (gr_guest_per_meal g) (cf_guest_max cf)) (cf_guest_max cf)"

text \<open>The booking transaction: both limits, the rows, the counters.\<close>

definition book_transaction ::
  "config \<Rightarrow> group_row \<Rightarrow> ident \<Rightarrow> ident \<Rightarrow> ident \<Rightarrow> int \<Rightarrow> guest_row list \<Rightarrow> world \<Rightarrow> exn + world" where
  "book_transaction cf g org host meal t rows w =
     (let meal_count = int (length (booked_of w org host meal t));
          day_count = int (length (filter (\<lambda>x. hg_org x = org \<and> hg_host x = host \<and> hg_group x = gr_id g
                         \<and> hg_date x = t \<and> hg_status x = Booked) (db_guests (w_db w))))
      in if meal_cap cf g < meal_count + int (length rows) then Inl (Unprocessable ''GUEST_LIMIT_REACHED'')
         else if (case gr_guest_per_day g of None \<Rightarrow> False | Some c \<Rightarrow> c < day_count + int (length rows))
         then Inl (Unprocessable ''GUEST_LIMIT_REACHED'')
         else Inr (recompute_host_counters org host meal t (set_guests (\<lambda>gs. gs @ rows) w)))"

text \<open>
  The date rules of a booking: not past, at most the advance days ahead, before the cutoff
  when it is for today (an admin's proposal needs the host's consent instead).
\<close>

definition check_booking_date ::
  "env \<Rightarrow> string \<Rightarrow> group_row \<Rightarrow> bool \<Rightarrow> string \<Rightarrow> effective \<Rightarrow> exn + unit" where
  "check_booking_date e tz g on_behalf date_str eff =
     (if date_str = en_date e tz \<and> \<not> on_behalf \<and> cutoff_passed e tz (gr_guest_cutoff g) (ef_close eff)
      then Inl (Locked ''GUEST_WINDOW_CLOSED'') else Inr ())"

definition check_advance :: "env \<Rightarrow> string \<Rightarrow> group_row \<Rightarrow> string \<Rightarrow> exn + unit" where
  "check_advance e tz g date_str =
     (if str_less date_str (en_date e tz) then Inl (Unprocessable ''Guests cannot be booked for past dates'')
      else if (case (to_utc_midnight date_str, to_utc_midnight (en_date e tz)) of
                 (Some a, Some b) \<Rightarrow> nullish (gr_guest_advance g) 0 * day_ms < a - b
               | _ \<Rightarrow> False)
      then Inl (Unprocessable ''GUEST_ADVANCE_LIMIT'') else Inr ())"

text \<open>
  The vacation gate of a booking.  The meal is read without its slot key, so the identity
  of boundary meals plays no role here.
\<close>

definition host_on_vacation ::
  "world \<Rightarrow> ident \<Rightarrow> meal_row \<Rightarrow> string \<Rightarrow> int \<Rightarrow> effective \<Rightarrow> ident \<Rightarrow> member_row \<Rightarrow> bool" where
  "host_on_vacation w org meal date_str t eff host m \<longleftrightarrow>
     host \<in> set (vacation_covered (w_vacations w) (slot_meals w) (published_day w org (ml_group meal) date_str)
                  org (ml_group meal) t (nullish_opt (ef_open eff) (rm_window_open meal)) None
                  [(host, resolve_member_flag (gm_vacation m) (map_option us_vacation (find_user w host)))])"

definition host_present :: "world \<Rightarrow> ident \<Rightarrow> ident \<Rightarrow> ident \<Rightarrow> int \<Rightarrow> bool" where
  "host_present w org host meal t \<longleftrightarrow>
     map_option at_status (find (\<lambda>a. at_org a = org \<and> at_user a = host \<and> at_meal a = meal \<and> at_date a = t)
       (db_attendance (w_db w))) = Some Present"

section \<open>Operations\<close>

definition book_guests ::
  "config \<Rightarrow> env \<Rightarrow> ident \<Rightarrow> bool \<Rightarrow> ident \<Rightarrow> ident \<Rightarrow> book_dto \<Rightarrow> world \<Rightarrow> exn + world" where
  "book_guests cf e caller is_admin org meal_id dto w =
     (let on_behalf = (is_admin \<and> truthy (bk_host dto) \<and> bk_host dto \<noteq> Some caller);
          host = (if on_behalf then the (bk_host dto) else caller)
      in bindE (orErr (find_meal w org meal_id) (NotFound ''Meal not found'')) (\<lambda>meal.
         bindE (orErr (meal_group w meal) (NotFound ''Group'')) (\<lambda>g.
         if \<not> gr_is_active g then Inl (Forbidden ''GROUP_ARCHIVED'')
         else if \<not> gr_guest_enabled g then Inl (Forbidden ''GUESTS_DISABLED'')
         else if \<not> gr_meals_enabled g then Inl (Forbidden ''GUESTS_REQUIRE_MEALS'')
         else
           let tz = org_tz w (ml_org meal); date_str = bk_date dto
           in bindE (assert_eligible_host w (gr_id g) host) (\<lambda>m.
              bindE (check_advance e tz g date_str) (\<lambda>_.
              bindE (guest_window w meal org date_str) (\<lambda>eff.
              bindE (check_booking_date e tz g on_behalf date_str eff) (\<lambda>_.
              bindE (assert_period_not_finalized w org (gr_id g) date_str) (\<lambda>t.
              if host_on_vacation w org meal date_str t eff host m then Inl (Forbidden ''HOST_ON_VACATION'')
              else if \<not> gr_guest_without_host g \<and> date_str = en_date e tz
                      \<and> \<not> host_present w org host meal_id t
              then Inl (Unprocessable ''HOST_NOT_PRESENT'')
              else
                bindE (guest_groups w meal (Some g) org date_str) (\<lambda>gs.
                bindE (mapE (\<lambda>x. if gs = [] then Inr None
                               else bindE (validate_selections (cf_quantity_cap cf) gs (nullish (gd_selections x) []))
                                      (\<lambda>v. Inr (Some v))) (bk_guests dto)) (\<lambda>vs.
                bindE (mapE (check_guest_tag g gs) (bk_guests dto)) (\<lambda>_.
                  book_transaction cf g org host meal_id t
                    (booking_rows e org host caller g meal_id t
                       (on_behalf \<or> (\<not> is_admin \<and> gr_guest_approval g)) (ef_price eff) (bk_guests dto) vs)
                    w)))))))))))"

definition load_guest :: "world \<Rightarrow> ident \<Rightarrow> ident \<Rightarrow> exn + guest_row \<times> meal_row" where
  "load_guest w i org =
     bindE (orErr (find (\<lambda>g. hg_id g = i \<and> hg_org g = org) (db_guests (w_db w))) (NotFound ''Guest not found''))
       (\<lambda>g. bindE (orErr (find_meal w org (hg_meal g)) (NotFound ''Meal not found'')) (\<lambda>m. Inr (g, m)))"

definition old_delta :: "selection_row list option \<Rightarrow> int" where
  "old_delta snap = (\<Sum>s\<leftarrow>nullish snap []. sr_price_delta s * (if sr_quantity s = 0 then 1 else sr_quantity s))"

text \<open>New picks: the old delta leaves the price, the new one enters it.\<close>

definition repick :: "guest_patch \<Rightarrow> validated \<Rightarrow> guest_row \<Rightarrow> guest_row" where
  "repick p v g =
     g\<lparr>hg_selections := Some (vs_snapshot v),
       hg_preference := (case gp_preference p of None \<Rightarrow> vs_primary_key v | Some q \<Rightarrow> q),
       hg_price := map_option (\<lambda>c. c - round_rupees (old_delta (hg_selections g)) + round_rupees (vs_total_delta v))
                     (hg_price g)\<rparr>"

definition patch_guest :: "guest_patch \<Rightarrow> guest_row \<Rightarrow> guest_row" where
  "patch_guest p g = g\<lparr>hg_name := nullish (gp_name p) (hg_name g),
     hg_preference := nullish (gp_preference p) (hg_preference g)\<rparr>"

definition check_patch_tag :: "group_row option \<Rightarrow> guest_patch \<Rightarrow> exn + unit" where
  "check_patch_tag g p =
     (let allowed = (case g of None \<Rightarrow> [] | Some g \<Rightarrow> gr_enabled_prefs g)
      in case gp_preference p of
           Some (Some q) \<Rightarrow>
             if allowed \<noteq> [] \<and> \<not> is_system_none_preference (Some q) \<and> q \<notin> set allowed
             then Inl (Unprocessable ''Preference is not enabled for this group'') else Inr ()
         | _ \<Rightarrow> Inr ())"

definition update_guest ::
  "config \<Rightarrow> env \<Rightarrow> ident \<Rightarrow> bool \<Rightarrow> ident \<Rightarrow> ident \<Rightarrow> guest_patch \<Rightarrow> world \<Rightarrow> exn + world" where
  "update_guest cf e caller is_admin org i p w =
     bindE (load_guest w i org) (\<lambda>(g, meal).
       if hg_host g \<noteq> caller \<and> \<not> is_admin then Inl (Forbidden ''Only the host may edit this guest'')
       else if hg_status g \<noteq> Booked then Inl (BadRequest ''Only booked guests can be edited'')
       else
         bindE (if is_admin then Inr () else assert_guest_window_open e w meal (hg_date g) org) (\<lambda>_.
         bindE (check_patch_tag (meal_group w meal) p) (\<lambda>_.
         case gp_selections p of
           None \<Rightarrow> Inr (update_guest_row i (patch_guest p) w)
         | Some sel \<Rightarrow>
             bindE (guest_groups w meal (meal_group w meal) org (format_utc_date (hg_date g))) (\<lambda>gs.
               if gs = [] then Inr (update_guest_row i (patch_guest p) w)
               else bindE (validate_selections (cf_quantity_cap cf) gs (nullish sel [])) (\<lambda>v.
                      Inr (update_guest_row i (\<lambda>x. repick p v (patch_guest p x)) w))))))"

definition cancelled_by :: "env \<Rightarrow> ident \<Rightarrow> guest_row \<Rightarrow> guest_row" where
  "cancelled_by e who g = g\<lparr>hg_status := Cancelled, hg_cancelled_by := Some who, hg_cancelled_at := Some (en_now e)\<rparr>"

definition recompute_of :: "guest_row \<Rightarrow> ident \<Rightarrow> world \<Rightarrow> world" where
  "recompute_of g org = recompute_host_counters org (hg_host g) (hg_meal g) (hg_date g)"

definition cancel_guest :: "env \<Rightarrow> ident \<Rightarrow> bool \<Rightarrow> ident \<Rightarrow> ident \<Rightarrow> world \<Rightarrow> exn + world" where
  "cancel_guest e caller is_admin org i w =
     bindE (load_guest w i org) (\<lambda>(g, meal).
       if hg_host g \<noteq> caller \<and> \<not> is_admin then Inl (Forbidden ''Only the host may cancel this guest'')
       else if hg_status g \<noteq> Booked then Inl (BadRequest ''Guest is already cancelled'')
       else
         bindE (if is_admin then Inr () else assert_guest_window_open e w meal (hg_date g) org) (\<lambda>_.
           Inr (recompute_of g org (update_guest_row i (cancelled_by e caller) w))))"

definition assert_pending_booked :: "guest_row \<Rightarrow> exn + unit" where
  "assert_pending_booked g =
     (if hg_status g \<noteq> Booked \<or> \<not> hg_pending g then Inl (BadRequest ''Only pending booked guests can be decided'')
      else Inr ())"

definition clear_pending :: "env \<Rightarrow> ident \<Rightarrow> ident \<Rightarrow> guest_row \<Rightarrow> world \<Rightarrow> world" where
  "clear_pending e actor org g w =
     recompute_of g org
       (update_guest_row (hg_id g)
         (\<lambda>x. x\<lparr>hg_pending := False, hg_approved_by := Some actor, hg_approved_at := Some (en_now e)\<rparr>) w)"

definition approve_guest :: "env \<Rightarrow> ident \<Rightarrow> ident \<Rightarrow> ident \<Rightarrow> world \<Rightarrow> exn + world" where
  "approve_guest e admin org i w =
     bindE (load_guest w i org) (\<lambda>(g, meal).
     bindE (assert_pending_booked g) (\<lambda>_.
       if hg_created_by g \<noteq> hg_host g then Inl (BadRequest ''Host must confirm'')
       else Inr (clear_pending e admin org g w)))"

definition reject_guest :: "env \<Rightarrow> ident \<Rightarrow> ident \<Rightarrow> ident \<Rightarrow> world \<Rightarrow> exn + world" where
  "reject_guest e admin org i w =
     bindE (load_guest w i org) (\<lambda>(g, meal).
     bindE (assert_pending_booked g) (\<lambda>_.
       Inr (recompute_of g org (update_guest_row i (cancelled_by e admin) w))))"

definition confirm_guest :: "env \<Rightarrow> ident \<Rightarrow> ident \<Rightarrow> ident \<Rightarrow> world \<Rightarrow> exn + world" where
  "confirm_guest e host org i w =
     bindE (load_guest w i org) (\<lambda>(g, meal).
     bindE (assert_pending_booked g) (\<lambda>_.
       if hg_host g \<noteq> host then Inl (Forbidden ''Only the host can confirm this guest'')
       else if hg_created_by g = hg_host g then Inl (BadRequest ''Admin must approve'')
       else Inr (clear_pending e host org g w)))"

definition decline_guest :: "env \<Rightarrow> ident \<Rightarrow> ident \<Rightarrow> ident \<Rightarrow> world \<Rightarrow> exn + world" where
  "decline_guest e host org i w =
     bindE (load_guest w i org) (\<lambda>(g, meal).
     bindE (assert_pending_booked g) (\<lambda>_.
       if hg_host g \<noteq> host then Inl (Forbidden ''Only the host can decline this guest'')
       else Inr (update_guest_row i (cancelled_by e host) w)))"

section \<open>Reconciliation with the host\<close>

definition restore_auto_cancelled :: "ident \<Rightarrow> ident \<Rightarrow> ident \<Rightarrow> int \<Rightarrow> world \<Rightarrow> world" where
  "restore_auto_cancelled org host meal t w =
     (let hit = (\<lambda>g. guest_of org host meal t g \<and> hg_status g = Cancelled \<and> hg_auto_cancelled g);
          w1 = set_guests (map (\<lambda>g. if hit g
                 then g\<lparr>hg_status := Booked, hg_cancelled_by := None, hg_cancelled_at := None, hg_auto_cancelled := False\<rparr>
                 else g)) w
      in if \<exists>g\<in>set (db_guests (w_db w)). hit g then recompute_host_counters org host meal t w1 else w)"

definition reconcile_on_host_change ::
  "env \<Rightarrow> ident \<Rightarrow> ident \<Rightarrow> ident \<Rightarrow> ident \<Rightarrow> int \<Rightarrow> att_status \<Rightarrow> ident \<Rightarrow> world \<Rightarrow> world" where
  "reconcile_on_host_change e org gid host meal t st actor w =
     (if st = Present then restore_auto_cancelled org host meal t w
      else
        (case find (\<lambda>g. gr_id g = gid) (db_groups (w_db w)) of
           None \<Rightarrow> w
         | Some g \<Rightarrow>
             if \<not> gr_guest_enabled g \<or> gr_guest_without_host g then w
             else
               let hit = (\<lambda>x. guest_of org host meal t x \<and> hg_status x = Booked);
                   w1 = set_guests (map (\<lambda>x. if hit x
                          then (cancelled_by e actor x)\<lparr>hg_auto_cancelled := True\<rparr> else x)) w
               in if \<exists>x\<in>set (db_guests (w_db w)). hit x then recompute_host_counters org host meal t w1 else w))"

section \<open>Runs of the guest operations\<close>

text \<open>
  Attendance writes reconcile only for a status other than Present
  (\<open>AttendanceService.reconcileGuests\<close>).  The premise of a booking is the primary key.
\<close>

inductive guest_step :: "config \<Rightarrow> world \<Rightarrow> world \<Rightarrow> bool" for cf where
  book: "book_guests cf e caller is_admin org meal dto w = Inr w'
    \<Longrightarrow> distinct (map hg_id (db_guests (w_db w'))) \<Longrightarrow> guest_step cf w w'"
| update: "update_guest cf e caller is_admin org i p w = Inr w' \<Longrightarrow> guest_step cf w w'"
| cancel: "cancel_guest e caller is_admin org i w = Inr w' \<Longrightarrow> guest_step cf w w'"
| approve: "approve_guest e admin org i w = Inr w' \<Longrightarrow> guest_step cf w w'"
| reject: "reject_guest e admin org i w = Inr w' \<Longrightarrow> guest_step cf w w'"
| confirm: "confirm_guest e host org i w = Inr w' \<Longrightarrow> guest_step cf w w'"
| decline: "decline_guest e host org i w = Inr w' \<Longrightarrow> guest_step cf w w'"
| reconcile: "st \<noteq> Present \<Longrightarrow> guest_step cf w (reconcile_on_host_change e org gid host meal t st actor w)"

inductive_cases guest_stepE: "guest_step cf w w'"

subsection \<open>What each operation does to the tables\<close>

abbreviation guests_of :: "world \<Rightarrow> guest_row list" where
  "guests_of w \<equiv> db_guests (w_db w)"

abbreviation records_of :: "world \<Rightarrow> attendance_row list" where
  "records_of w \<equiv> db_attendance (w_db w)"

lemma guests_recompute [simp]: "guests_of (recompute_host_counters org host meal t w) = guests_of w"
  by (simp add: recompute_host_counters_def)

lemma guests_set_guests [simp]: "guests_of (set_guests f w) = f (guests_of w)"
  by (simp add: set_guests_def)

lemma records_set_guests [simp]: "records_of (set_guests f w) = records_of w"
  by (simp add: set_guests_def)

lemma guests_update_row [simp]:
  "guests_of (update_guest_row i f w) = map (\<lambda>g. if hg_id g = i then f g else g) (guests_of w)"
  by (simp add: update_guest_row_def)

lemma records_update_row [simp]: "records_of (update_guest_row i f w) = records_of w"
  by (simp add: update_guest_row_def)

lemma mapE_Inr: "mapE f xs = Inr ys \<Longrightarrow> length ys = length xs \<and> (\<forall>i<length xs. f (xs ! i) = Inr (ys ! i))"
proof (induction xs arbitrary: ys)
  case Nil
  then show ?case by simp
next
  case (Cons x xs)
  then obtain y zs where y: "f x = Inr y" "mapE f xs = Inr zs" "ys = y # zs"
    by (auto simp: bindE_eq_Inr)
  with Cons.IH show ?case by (auto simp: nth_Cons split: nat.splits)
qed

lemma book_cases:
  assumes "book_guests cf e caller is_admin org meal dto w = Inr w'"
  obtains g host t rows pending where
    "gr_guest_enabled g" "gr_is_active g" "gr_meals_enabled g"
    "\<not> period_locked w org (gr_id g) t"
    "host = caller \<or> is_admin \<and> pending"
    "\<And>r. r \<in> set rows \<Longrightarrow> guest_of org host meal t r \<and> hg_status r = Booked \<and> hg_created_by r = caller
        \<and> hg_pending r = pending \<and> hg_approved_by r = None \<and> hg_group r = gr_id g"
    "length rows = length (bk_guests dto)"
    "int (length (booked_of w org host meal t)) + int (length rows) \<le> meal_cap cf g"
    "w' = recompute_host_counters org host meal t (set_guests (\<lambda>gs. gs @ rows) w)"
proof -
  let ?behalf = "is_admin \<and> truthy (bk_host dto) \<and> bk_host dto \<noteq> Some caller"
  let ?host = "if ?behalf then the (bk_host dto) else caller"
  from assms obtain g t gs vs and eff :: effective where
    g: "gr_is_active g" "gr_guest_enabled g" "gr_meals_enabled g"
    and t: "assert_period_not_finalized w org (gr_id g) (bk_date dto) = Inr t"
    and vs: "mapE (\<lambda>x. if gs = [] then Inr None
                else bindE (validate_selections (cf_quantity_cap cf) gs (nullish (gd_selections x) []))
                       (\<lambda>v. Inr (Some v))) (bk_guests dto) = Inr vs"
    and tr: "book_transaction cf g org ?host meal t
               (booking_rows e org ?host caller g meal t (?behalf \<or> (\<not> is_admin \<and> gr_guest_approval g))
                  (ef_price eff) (bk_guests dto) vs) w = Inr w'"
    unfolding book_guests_def Let_def bindE_eq_Inr if_Inl_eq_Inr not_not
    by (elim exE conjE) (rule that; assumption)
  let ?pending = "?behalf \<or> (\<not> is_admin \<and> gr_guest_approval g)"
  define rows where "rows = booking_rows e org ?host caller g meal t ?pending (ef_price eff) (bk_guests dto) vs"
  have len: "length rows = length (bk_guests dto)"
    using mapE_Inr [OF vs] by (simp add: rows_def booking_rows_def)
  have row: "guest_of org ?host meal t r \<and> hg_status r = Booked \<and> hg_created_by r = caller
        \<and> hg_pending r = ?pending \<and> hg_approved_by r = None \<and> hg_group r = gr_id g" if "r \<in> set rows" for r
    using that by (auto simp: rows_def booking_rows_def guest_row_of_def guest_of_def)
  have lim: "int (length (booked_of w org ?host meal t)) + int (length rows) \<le> meal_cap cf g"
    and w': "w' = recompute_host_counters org ?host meal t (set_guests (\<lambda>gs. gs @ rows) w)"
    using tr unfolding rows_def [symmetric] book_transaction_def Let_def if_Inl_eq_Inr by simp_all
  have open': "\<not> period_locked w org (gr_id g) t"
    using t by (simp add: assert_period_not_finalized_def bindE_eq_Inr)
  have host: "?host = caller \<or> is_admin \<and> ?pending" by auto
  show thesis by (rule that [OF g(2,1,3) open' host row len lim w'])
qed

text \<open>
  Every other operation maps a key-preserving change over the rows it selects; a row that
  ends up booked was booked before, and a row that stops being pending is decided by the
  party whose consent it awaits.
\<close>

definition gentle :: "guest_row \<Rightarrow> guest_row \<Rightarrow> bool" where
  "gentle x y \<longleftrightarrow> hg_id y = hg_id x \<and> hg_org y = hg_org x \<and> hg_host y = hg_host x \<and> hg_meal y = hg_meal x
     \<and> hg_date y = hg_date x \<and> hg_group y = hg_group x \<and> hg_created_by y = hg_created_by x
     \<and> hg_is_adult y = hg_is_adult x \<and> (hg_status y = Booked \<longrightarrow> hg_status x = Booked)
     \<and> (hg_pending y = hg_pending x \<and> hg_approved_by y = hg_approved_by x
        \<or> \<not> hg_pending y \<and> (hg_created_by x = hg_host x \<or> hg_approved_by y = Some (hg_host x)))"

lemma gentle_simps [simp]:
  "gentle x x"
  "gentle x (cancelled_by e who x)"
  "gentle x (cancelled_by e who x\<lparr>hg_auto_cancelled := True\<rparr>)"
  "gentle x (patch_guest p x)"
  "gentle x (repick p v (patch_guest p x))"
  by (simp_all add: gentle_def cancelled_by_def patch_guest_def repick_def)

lemma gentle_guest_of: "gentle x y \<Longrightarrow> guest_of org host meal t y = guest_of org host meal t x"
  by (simp add: gentle_def guest_of_def)

text \<open>\<open>touches\<close> keeps the rows of other hosts, meals and days as they count.\<close>

definition touches :: "ident \<Rightarrow> ident \<Rightarrow> ident \<Rightarrow> int \<Rightarrow> guest_row list \<Rightarrow> guest_row list \<Rightarrow> bool" where
  "touches org host meal t xs ys \<longleftrightarrow>
     list_all2 (\<lambda>x y. gentle x y \<and> (\<not> guest_of org host meal t x
        \<longrightarrow> hg_status y = hg_status x \<and> hg_pending y = hg_pending x)) xs ys"

lemma touches_map:
  assumes "\<And>x. x \<in> set xs \<Longrightarrow> gentle x (f x)"
    and "\<And>x. x \<in> set xs \<Longrightarrow> \<not> guest_of org host meal t x \<Longrightarrow> hg_status (f x) = hg_status x \<and> hg_pending (f x) = hg_pending x"
  shows "touches org host meal t xs (map f xs)"
  using assms by (auto simp: touches_def list_all2_conv_all_nth)

lemma touches_refl [simp]: "touches org host meal t xs xs"
  by (simp add: touches_def list_all2_conv_all_nth)

lemma list_all2_filter_le:
  "list_all2 R xs ys \<Longrightarrow> (\<And>x y. R x y \<Longrightarrow> P y \<Longrightarrow> P x) \<Longrightarrow> length (filter P ys) \<le> length (filter P xs)"
  by (induction rule: list_all2_induct) (auto simp: le_SucI)

lemma list_all2_filter_eq:
  "list_all2 R xs ys \<Longrightarrow> (\<And>x y. R x y \<Longrightarrow> P y = P x) \<Longrightarrow> length (filter P ys) = length (filter P xs)"
  by (induction rule: list_all2_induct) auto

lemma load_guestD:
  assumes "load_guest w i org = Inr (g, meal)"
  shows "g \<in> set (guests_of w) \<and> hg_id g = i \<and> hg_org g = org"
  using assms by (auto simp: load_guest_def bindE_eq_Inr dest: find_SomeD)

text \<open>Updating the row with a given id touches only its key, because ids are unique.\<close>

lemma touches_update:
  assumes "distinct (map hg_id (guests_of w))" and g: "g \<in> set (guests_of w)" "hg_id g = i" "hg_org g = org"
    and "gentle g (f g)"
  shows "touches org (hg_host g) (hg_meal g) (hg_date g) (guests_of w) (guests_of (update_guest_row i f w))"
proof -
  have uniq: "x = g" if "x \<in> set (guests_of w)" "hg_id x = i" for x
    using distinct_key_eq [OF assms(1) that(1) g(1)] that(2) g(2) by simp
  have self: "guest_of org (hg_host g) (hg_meal g) (hg_date g) g" by (simp add: guest_of_def g)
  show ?thesis unfolding guests_update_row
    using uniq self assms(5) by (intro touches_map) auto
qed

text \<open>One shape for all operations except booking.\<close>

definition adjusts :: "world \<Rightarrow> world \<Rightarrow> bool" where
  "adjusts w w' \<longleftrightarrow>
     (\<exists>org host meal t v. touches org host meal t (guests_of w) (guests_of v) \<and> records_of v = records_of w
        \<and> (w' = recompute_host_counters org host meal t v
           \<or> w' = v \<and> (\<forall>adult. confirmed_count v org host meal t adult = confirmed_count w org host meal t adult)))"

lemma adjusts_recompute:
  assumes "distinct (map hg_id (guests_of w))" "load_guest w i org = Inr (g, meal)" "gentle g (f g)"
  shows "adjusts w (recompute_of g org (update_guest_row i f w))"
  unfolding adjusts_def recompute_of_def
  using touches_update [OF assms(1), of g i org f] load_guestD [OF assms(2)] assms(3)
  by (intro exI [of _ org] exI [of _ "hg_host g"] exI [of _ "hg_meal g"] exI [of _ "hg_date g"]
        exI [of _ "update_guest_row i f w"]) simp

lemma adjusts_quiet:
  assumes "distinct (map hg_id (guests_of w))" "load_guest w i org = Inr (g, meal)" "gentle g (f g)"
    and quiet: "\<And>adult. (\<not> hg_pending (f g) \<and> hg_is_adult (f g) = adult \<and> hg_status (f g) = Booked)
        = (\<not> hg_pending g \<and> hg_is_adult g = adult \<and> hg_status g = Booked)"
  shows "adjusts w (update_guest_row i f w)"
proof -
  let ?v = "update_guest_row i f w"
  from load_guestD [OF assms(2)] have g: "g \<in> set (guests_of w)" "hg_id g = i" "hg_org g = org" by auto
  have uniq: "x = g" if "x \<in> set (guests_of w)" "hg_id x = i" for x
    using distinct_key_eq [OF assms(1) that(1) g(1)] that(2) g(2) by simp
  have "confirmed_count ?v org (hg_host g) (hg_meal g) (hg_date g) adult
      = confirmed_count w org (hg_host g) (hg_meal g) (hg_date g) adult" for adult
    unfolding confirmed_count_def booked_of_def filter_filter guests_update_row
    using quiet [of adult] gentle_guest_of [OF assms(3)] uniq
    by (intro arg_cong [of _ _ int] length_filter_map_eq) auto
  then show ?thesis unfolding adjusts_def
    using touches_update [OF assms(1) g, of f] assms(3)
    by (intro exI [of _ org] exI [of _ "hg_host g"] exI [of _ "hg_meal g"] exI [of _ "hg_date g"] exI [of _ ?v]) simp
qed

lemma adjusts_reconcile:
  assumes "st \<noteq> Present"
  shows "adjusts w (reconcile_on_host_change e org gid host meal t st actor w)"
proof -
  let ?w' = "reconcile_on_host_change e org gid host meal t st actor w"
  let ?f = "\<lambda>x. if guest_of org host meal t x \<and> hg_status x = Booked
              then (cancelled_by e actor x)\<lparr>hg_auto_cancelled := True\<rparr> else x"
  have "?w' = w \<or> ?w' = recompute_host_counters org host meal t (set_guests (map ?f) w)"
    using assms by (simp add: reconcile_on_host_change_def Let_def split: option.splits)
  moreover have "adjusts w w"
    unfolding adjusts_def by (intro exI [of _ org] exI [of _ host] exI [of _ meal] exI [of _ t] exI [of _ w]) simp
  moreover have "adjusts w (recompute_host_counters org host meal t (set_guests (map ?f) w))"
    unfolding adjusts_def
    by (intro exI [of _ org] exI [of _ host] exI [of _ meal] exI [of _ t] exI [of _ "set_guests (map ?f) w"] conjI disjI1)
      (auto intro!: touches_map)
  ultimately show ?thesis by presburger
qed

text \<open>A booking appends booked rows of one host, meal and day within the ceiling and recounts.\<close>

definition books :: "config \<Rightarrow> world \<Rightarrow> world \<Rightarrow> bool" where
  "books cf w w' \<longleftrightarrow>
     (\<exists>org host meal t rows. w' = recompute_host_counters org host meal t (set_guests (\<lambda>gs. gs @ rows) w)
        \<and> distinct (map hg_id (guests_of w @ rows))
        \<and> int (length (booked_of w org host meal t)) + int (length rows) \<le> cf_guest_max cf
        \<and> (\<forall>r\<in>set rows. guest_of org host meal t r \<and> hg_status r = Booked
             \<and> (hg_pending r \<or> hg_created_by r = hg_host r)))"

lemma guest_step_shape:
  assumes "guest_step cf w w'" "distinct (map hg_id (guests_of w))"
  shows "adjusts w w' \<or> books cf w w'"
  using assms(1)
proof (cases rule: guest_step.cases)
  case (book e caller is_admin org meal dto)
  from book(1) obtain host t rows pending and g :: group_row where
    h: "host = caller \<or> is_admin \<and> pending"
    and rows: "\<And>r. r \<in> set rows \<Longrightarrow> guest_of org host meal t r \<and> hg_status r = Booked \<and> hg_created_by r = caller
        \<and> hg_pending r = pending \<and> hg_approved_by r = None \<and> hg_group r = gr_id g"
    and cap: "int (length (booked_of w org host meal t)) + int (length rows) \<le> meal_cap cf g"
    and w': "w' = recompute_host_counters org host meal t (set_guests (\<lambda>gs. gs @ rows) w)"
    by (rule book_cases) (rule that; assumption)
  have "hg_pending r \<or> hg_created_by r = hg_host r" if "r \<in> set rows" for r
    using rows [OF that] h by (auto simp: guest_of_def)
  moreover have "int (length (booked_of w org host meal t)) + int (length rows) \<le> cf_guest_max cf"
    using cap by (simp add: meal_cap_def)
  ultimately have "books cf w w'"
    unfolding books_def using rows w' book(2)
    by (intro exI [of _ org] exI [of _ host] exI [of _ meal] exI [of _ t] exI [of _ rows]) simp
  then show ?thesis ..
next
  case (update e caller is_admin org i p)
  then obtain g meal where l: "load_guest w i org = Inr (g, meal)"
    by (auto simp: update_guest_def bindE_eq_Inr)
  with update have "w' = update_guest_row i (patch_guest p) w \<or> (\<exists>v. w' = update_guest_row i (\<lambda>x. repick p v (patch_guest p x)) w)"
    by (fastforce simp: update_guest_def bindE_eq_Inr split: option.splits if_splits)
  then obtain f where w': "w' = update_guest_row i f w"
    and f: "f = patch_guest p \<or> (\<exists>v. f = (\<lambda>x. repick p v (patch_guest p x)))"
    by blast
  have "adjusts w (update_guest_row i f w)"
    using f by (intro adjusts_quiet [OF assms(2) l]) (auto simp: patch_guest_def repick_def gentle_def)
  with w' show ?thesis by simp
next
  case (cancel e caller is_admin org i)
  then obtain g meal where "load_guest w i org = Inr (g, meal)"
    "w' = recompute_of g org (update_guest_row i (cancelled_by e caller) w)"
    by (auto simp: cancel_guest_def bindE_eq_Inr split: if_splits)
  then show ?thesis using adjusts_recompute [OF assms(2)] by simp
next
  case (approve e admin org i)
  then obtain g meal where l: "load_guest w i org = Inr (g, meal)" "hg_created_by g = hg_host g"
    "w' = clear_pending e admin org g w"
    by (auto simp: approve_guest_def bindE_eq_Inr)
  then show ?thesis using load_guestD [OF l(1)]
    by (simp add: clear_pending_def adjusts_recompute [OF assms(2)] gentle_def)
next
  case (reject e admin org i)
  then obtain g meal where "load_guest w i org = Inr (g, meal)"
    "w' = recompute_of g org (update_guest_row i (cancelled_by e admin) w)"
    by (auto simp: reject_guest_def bindE_eq_Inr)
  then show ?thesis using adjusts_recompute [OF assms(2)] by simp
next
  case (confirm e host org i)
  then obtain g meal where l: "load_guest w i org = Inr (g, meal)" "hg_host g = host"
    "w' = clear_pending e host org g w"
    by (auto simp: confirm_guest_def bindE_eq_Inr)
  then show ?thesis using load_guestD [OF l(1)]
    by (simp add: clear_pending_def adjusts_recompute [OF assms(2)] gentle_def)
next
  case (decline e host org i)
  then obtain g meal where l: "load_guest w i org = Inr (g, meal)" "assert_pending_booked g = Inr ()"
    "w' = update_guest_row i (cancelled_by e host) w"
    by (auto simp: decline_guest_def bindE_eq_Inr)
  then have "hg_pending g" by (simp add: assert_pending_booked_def split: if_splits)
  then have "adjusts w w'" unfolding l(3)
    by (intro adjusts_quiet [OF assms(2) l(1)]) (simp_all add: cancelled_by_def gentle_def)
  then show ?thesis ..
next
  case (reconcile st e org gid host meal t actor)
  then show ?thesis using adjusts_reconcile by simp
qed

section \<open>What every run keeps\<close>

definition within_cap :: "config \<Rightarrow> world \<Rightarrow> bool" where
  "within_cap cf w \<longleftrightarrow> (\<forall>org host meal t. int (length (booked_of w org host meal t)) \<le> cf_guest_max cf)"

definition consented :: "guest_row \<Rightarrow> bool" where
  "consented g \<longleftrightarrow> hg_pending g \<or> hg_created_by g = hg_host g \<or> hg_approved_by g = Some (hg_host g)"

definition counters_match :: "world \<Rightarrow> attendance_row \<Rightarrow> bool" where
  "counters_match w a \<longleftrightarrow>
     at_guest_adults a = confirmed_count w (at_org a) (at_user a) (at_meal a) (at_date a) True
     \<and> at_guest_children a = confirmed_count w (at_org a) (at_user a) (at_meal a) (at_date a) False"

definition guest_inv :: "config \<Rightarrow> world \<Rightarrow> bool" where
  "guest_inv cf w \<longleftrightarrow> distinct (map hg_id (guests_of w)) \<and> within_cap cf w
     \<and> (\<forall>g\<in>set (guests_of w). consented g) \<and> (\<forall>a\<in>set (records_of w). counters_match w a)"

lemma booked_of_recompute [simp]: "booked_of (recompute_host_counters o' h m d w) org host meal t = booked_of w org host meal t"
  by (simp add: booked_of_def)

lemma confirmed_recompute [simp]:
  "confirmed_count (recompute_host_counters o' h m d w) org host meal t adult = confirmed_count w org host meal t adult"
  by (simp add: confirmed_count_def)

text \<open>A recount repairs the one record whose counts moved.\<close>

lemma counters_recompute:
  assumes "\<forall>a\<in>set (records_of w). counters_match w a" and "records_of v = records_of w"
    and other: "\<And>o' h m d adult. (o', h, m, d) \<noteq> (org, host, meal, t)
      \<Longrightarrow> confirmed_count v o' h m d adult = confirmed_count w o' h m d adult"
  shows "\<forall>a\<in>set (records_of (recompute_host_counters org host meal t v)).
           counters_match (recompute_host_counters org host meal t v) a"
proof
  fix a
  assume "a \<in> set (records_of (recompute_host_counters org host meal t v))"
  then obtain b where b: "b \<in> set (records_of w)"
    and a: "a = (if at_org b = org \<and> at_user b = host \<and> at_meal b = meal \<and> at_date b = t
        then b\<lparr>at_guest_adults := confirmed_count v org host meal t True,
               at_guest_children := confirmed_count v org host meal t False\<rparr> else b)"
    using assms(2) by (auto simp: recompute_host_counters_def)
  show "counters_match (recompute_host_counters org host meal t v) a"
    using a other [of "at_org b" "at_user b" "at_meal b" "at_date b"] assms(1) b
    by (auto simp: counters_match_def)
qed

lemma touches_confirmed:
  assumes "touches org host meal t (guests_of w) (guests_of v)" and "(o', h, m, d) \<noteq> (org, host, meal, t)"
  shows "confirmed_count v o' h m d adult = confirmed_count w o' h m d adult"
  unfolding confirmed_count_def booked_of_def filter_filter
  using assms by (intro arg_cong [of _ _ int] list_all2_filter_eq [OF assms(1) [unfolded touches_def]])
    (auto simp: gentle_def guest_of_def)

lemma touches_booked:
  assumes "touches org host meal t (guests_of w) (guests_of v)"
  shows "length (booked_of v o' h m d) \<le> length (booked_of w o' h m d)"
  unfolding booked_of_def
  by (rule list_all2_filter_le [OF assms [unfolded touches_def]]) (auto simp: gentle_def guest_of_def)

lemma touches_ids:
  "touches org host meal t xs ys \<Longrightarrow> map hg_id ys = map hg_id xs"
  unfolding touches_def by (induction rule: list_all2_induct) (auto simp: gentle_def)

lemma touches_consented:
  "touches org host meal t xs ys \<Longrightarrow> \<forall>g\<in>set xs. consented g \<Longrightarrow> \<forall>g\<in>set ys. consented g"
  unfolding touches_def by (induction rule: list_all2_induct) (auto simp: gentle_def consented_def)

lemma adjusts_inv:
  assumes "adjusts w w'" "guest_inv cf w"
  shows "guest_inv cf w'"
proof -
  from assms(1) obtain org host meal t v where tch: "touches org host meal t (guests_of w) (guests_of v)"
    and rec: "records_of v = records_of w"
    and w': "w' = recompute_host_counters org host meal t v
      \<or> w' = v \<and> (\<forall>adult. confirmed_count v org host meal t adult = confirmed_count w org host meal t adult)"
    unfolding adjusts_def by blast
  have "\<forall>a\<in>set (records_of w'). counters_match w' a"
    using w'
  proof
    assume "w' = recompute_host_counters org host meal t v"
    then show ?thesis
      using counters_recompute [OF _ rec touches_confirmed [OF tch]] assms(2) by (simp add: guest_inv_def)
  next
    assume h: "w' = v \<and> (\<forall>adult. confirmed_count v org host meal t adult = confirmed_count w org host meal t adult)"
    then have "confirmed_count v o' h m d adult = confirmed_count w o' h m d adult" for o' h m d adult
      using touches_confirmed [OF tch] by (cases "(o', h, m, d) = (org, host, meal, t)") auto
    then show ?thesis using h rec assms(2) by (simp add: guest_inv_def counters_match_def)
  qed
  moreover have "within_cap cf w'"
    unfolding within_cap_def
  proof (intro allI)
    fix o' h m d
    have "length (booked_of w' o' h m d) \<le> length (booked_of w o' h m d)"
      using w' touches_booked [OF tch] by auto
    then show "int (length (booked_of w' o' h m d)) \<le> cf_guest_max cf"
      using assms(2) unfolding guest_inv_def within_cap_def by (meson of_nat_mono order_trans)
  qed
  moreover have "guests_of w' = guests_of v" using w' by auto
  ultimately show ?thesis
    using assms(2) touches_ids [OF tch] touches_consented [OF tch] by (simp add: guest_inv_def)
qed

lemma books_inv:
  assumes "books cf w w'" "guest_inv cf w"
  shows "guest_inv cf w'"
proof -
  from assms(1) obtain org host meal t rows where
    w': "w' = recompute_host_counters org host meal t (set_guests (\<lambda>gs. gs @ rows) w)"
    and ids: "distinct (map hg_id (guests_of w @ rows))"
    and cap: "int (length (booked_of w org host meal t)) + int (length rows) \<le> cf_guest_max cf"
    and rows: "\<forall>r\<in>set rows. guest_of org host meal t r \<and> hg_status r = Booked
             \<and> (hg_pending r \<or> hg_created_by r = hg_host r)"
    unfolding books_def by blast
  have other: "filter (\<lambda>g. guest_of o' h m d g \<and> Q g) rows = []" if "(o', h, m, d) \<noteq> (org, host, meal, t)" for o' h m d Q
    using rows that by (auto simp: filter_empty_conv guest_of_def)
  have booked: "booked_of w' o' h m d = booked_of w o' h m d @ filter (\<lambda>g. guest_of o' h m d g \<and> hg_status g = Booked) rows"
    for o' h m d by (simp add: w' booked_of_def)
  have "within_cap cf w'"
    unfolding within_cap_def
  proof (intro allI)
    fix o' h m d
    show "int (length (booked_of w' o' h m d)) \<le> cf_guest_max cf"
    proof (cases "(o', h, m, d) = (org, host, meal, t)")
      case True
      then have "booked_of w' o' h m d = booked_of w org host meal t @ rows"
        using rows by (auto simp: booked filter_id_conv)
      with cap show ?thesis by simp
    next
      case False
      then show ?thesis using assms(2) booked [of o' h m d] other [OF False]
        by (simp add: guest_inv_def within_cap_def)
    qed
  qed
  moreover have "\<forall>a\<in>set (records_of w'). counters_match w' a"
    unfolding w'
  proof (rule counters_recompute [where w = w])
    show "\<forall>a\<in>set (records_of w). counters_match w a" using assms(2) by (simp add: guest_inv_def)
    show "confirmed_count (set_guests (\<lambda>gs. gs @ rows) w) o' h m d adult = confirmed_count w o' h m d adult"
      if "(o', h, m, d) \<noteq> (org, host, meal, t)" for o' h m d adult
      using other [OF that] by (simp add: confirmed_count_def booked_of_def)
  qed simp
  ultimately show ?thesis
    using assms(2) ids rows by (auto simp: guest_inv_def w' consented_def)
qed

interpretation guest_rules: invariant_steps "guest_step cf" "guest_inv cf" for cf
proof unfold_locales
  fix w w'
  assume "guest_inv cf w" "guest_step cf w w'"
  then show "guest_inv cf w'"
    using guest_step_shape adjusts_inv books_inv by (metis guest_inv_def)
qed

section \<open>Properties\<close>

text \<open>
  (C29) No run of guest operations takes a host over the ceiling: at every moment the
  booked guests of one host, meal and day are at most the configured maximum, pending and
  confirmed ones together.
\<close>

theorem guest_ceiling_kept:
  assumes "(guest_step cf)\<^sup>*\<^sup>* w w'" and "guest_inv cf w"
  shows "int (length (booked_of w' org host meal t)) \<le> cf_guest_max cf"
  using guest_rules.inv_run [OF assms] by (simp add: guest_inv_def within_cap_def)

text \<open>
  (C30) A guest is billed only with the host's consent: in every reachable state a guest
  that counts for billing was booked by the host or confirmed by the host.
\<close>

theorem billed_guests_consented:
  assumes "(guest_step cf)\<^sup>*\<^sup>* w w'" and "guest_inv cf w"
    and "g \<in> set (guests_of w')" and "billed_guest no_show g"
  shows "hg_created_by g = hg_host g \<or> hg_approved_by g = Some (hg_host g)"
  using guest_rules.inv_run [OF assms(1,2)] assms(3,4)
  by (auto simp: guest_inv_def consented_def billed_guest_def)

text \<open>
  The host's denormalised counters equal the number of booked, decided adult and
  child guests after every guest operation.
\<close>

lemma host_counters_exact:
  assumes "(guest_step cf)\<^sup>*\<^sup>* w w'" and "guest_inv cf w" and "a \<in> set (records_of w')"
  shows "at_guest_adults a = confirmed_count w' (at_org a) (at_user a) (at_meal a) (at_date a) True
    \<and> at_guest_children a = confirmed_count w' (at_org a) (at_user a) (at_meal a) (at_date a) False"
  using guest_rules.inv_run [OF assms(1,2)] assms(3) by (auto simp: guest_inv_def counters_match_def)

section \<open>Concrete inputs\<close>

definition ex_meal_row :: meal_row where
  "ex_meal_row = \<lparr>rm_slot_key = ''lunch'', rm_name = ''Lunch'', rm_display_name = None, rm_order = Some 1,
     rm_menu_items = Some [], rm_image_url = None, rm_description = None, rm_price = Some 60,
     rm_window_open = Some ''12:00'', rm_window_close = Some ''14:00'',
     ml_id = ''m'', ml_org = ''o'', ml_group = ''g'', ml_is_active = True, ml_deleted_at = None, ml_attendance_enabled = True, ml_prefs_enabled = False\<rparr>"

definition ex_guest_group :: group_row where
  "ex_guest_group = ex_group\<lparr>gr_weekly_menu := False, gr_guest_enabled := True, gr_guest_per_meal := Some 2\<rparr>"

definition ex_world :: world where
  "ex_world = \<lparr>w_db = \<lparr>db_attendance = [ex_meal ''a1'' ''2026-07-10'' 60], db_guests = [], db_ledger = [],
       db_periods = [], db_groups = [ex_guest_group],
       db_members = [\<lparr>gm_group = ''g'', gm_user = ''u'', gm_status = MemberActive, gm_vacation = None, gm_default = None,
       gm_id = ''gm1'', gm_blocked_at = None, gm_removed_at = None, gm_updated_at = 0,
       gm_role = ''member'', gm_functional = None, gm_blocked_by = None, gm_removed_by = None,
       gm_reviewed_by = None, gm_reviewed_at = None, gm_review_note = None\<rparr>],
       db_corrections = []\<rparr>,
     w_meals = [ex_meal_row],
     w_users = [\<lparr>us_id = ''u'', us_org = ''o'', us_vacation = False, us_default = False, us_role = ''student'', us_reminders = True\<rparr>],
     w_orgs = [(''o'', ''Asia/Kolkata'')], w_vacations = [], w_schedules = [], w_bindings = [], w_selections = []\<rparr>"

definition ex_env :: env where
  "ex_env = \<lparr>en_date = (\<lambda>_. ''2026-07-10''), en_time = (\<lambda>_. ''13:00''), en_now = 1783670400000, en_first_writer = True,
     en_id = (\<lambda>n. ''new'' @ pad2 (int n))\<rparr>"

definition ex_config :: config where
  "ex_config = \<lparr>cf_quantity_cap = 10, cf_dedup_seconds = 3, cf_guest_max = 5, cf_max_open = 3, cf_max_per_day = 5,
     cf_expiry_hours = 48, cf_absent_auto = False\<rparr>"

definition ex_booking :: "ident option \<Rightarrow> book_dto" where
  "ex_booking host = \<lparr>bk_date = ''2026-07-10'', bk_guests =
     [\<lparr>gd_is_adult = None, gd_name = Some ''Asha'', gd_preference = None, gd_selections = None\<rparr>], bk_host = host\<rparr>"

definition ex_guest_row :: "ident \<Rightarrow> bool \<Rightarrow> guest_row" where
  "ex_guest_row caller pending = \<lparr>hg_id = ''new00'', hg_org = ''o'', hg_group = ''g'', hg_meal = ''m'',
     hg_date = day_of ''2026-07-10'', hg_host = ''u'', hg_status = Booked, hg_pending = pending, hg_price = Some 60,
     hg_auto_cancelled = False, hg_is_adult = True, hg_name = Some ''Asha'', hg_preference = None,
     hg_selections = None, hg_created_by = caller, hg_approved_by = None, hg_approved_at = None,
     hg_cancelled_by = None, hg_cancelled_at = None\<rparr>"

definition ex_proposed :: world where
  "ex_proposed = set_guests (\<lambda>_. [ex_guest_row ''admin'' True]) ex_world"

definition ex_confirmed :: world where
  "ex_confirmed = recompute_host_counters ''o'' ''u'' ''m'' (day_of ''2026-07-10'')
     (set_guests (\<lambda>_. [ex_guest_row ''admin'' False
        \<lparr>hg_approved_by := Some ''u'', hg_approved_at := Some (en_now ex_env)\<rparr>]) ex_world)"

lemma ex_propose:
  "book_guests ex_config ex_env ''admin'' True ''o'' ''m'' (ex_booking (Some ''u'')) ex_world = Inr ex_proposed"
  by code_simp

lemma ex_confirm: "confirm_guest ex_env ''u'' ''o'' ''new00'' ex_proposed = Inr ex_confirmed"
  by code_simp

lemma ex_guest_run: "(guest_step ex_config)\<^sup>*\<^sup>* ex_world ex_confirmed"
proof -
  have "distinct (map hg_id (guests_of ex_proposed))" by (simp add: ex_proposed_def)
  then have "guest_step ex_config ex_world ex_proposed" by (rule guest_step.book [OF ex_propose])
  moreover have "guest_step ex_config ex_proposed ex_confirmed" by (rule guest_step.confirm [OF ex_confirm])
  ultimately show ?thesis by (meson rtranclp.simps)
qed

lemma ex_world_inv: "guest_inv ex_config ex_world"
  by (simp add: guest_inv_def within_cap_def booked_of_def confirmed_count_def counters_match_def
      ex_world_def ex_config_def ex_meal_def)

theorem guest_ceiling_kept_witness:
  "int (length (booked_of ex_confirmed ''o'' ''u'' ''m'' (day_of ''2026-07-10''))) \<le> 5
   \<and> booked_of ex_confirmed ''o'' ''u'' ''m'' (day_of ''2026-07-10'') \<noteq> []"
proof (rule conjI)
  show "int (length (booked_of ex_confirmed ''o'' ''u'' ''m'' (day_of ''2026-07-10''))) \<le> 5"
    using guest_ceiling_kept [OF ex_guest_run ex_world_inv, of "''o''" "''u''" "''m''" "day_of ''2026-07-10''"]
    by (simp add: ex_config_def)
  show "booked_of ex_confirmed ''o'' ''u'' ''m'' (day_of ''2026-07-10'') \<noteq> []" by code_simp
qed

theorem billed_guests_consented_witness:
  "billed_guest True (hd (guests_of ex_confirmed))
   \<and> (hg_created_by (hd (guests_of ex_confirmed)) = ''u'' \<or> hg_approved_by (hd (guests_of ex_confirmed)) = Some ''u'')"
proof (rule conjI)
  show b: "billed_guest True (hd (guests_of ex_confirmed))" by code_simp
  have h: "hg_host (hd (guests_of ex_confirmed)) = ''u''" by code_simp
  have "hd (guests_of ex_confirmed) \<in> set (guests_of ex_confirmed)" by (simp add: ex_confirmed_def)
  from billed_guests_consented [OF ex_guest_run ex_world_inv this b]
  show "hg_created_by (hd (guests_of ex_confirmed)) = ''u'' \<or> hg_approved_by (hd (guests_of ex_confirmed)) = Some ''u''"
    by (simp only: h)
qed

section \<open>What the code lets through\<close>

text \<open>A world whose confirmed guest lies in a finalized period.\<close>

definition ex_locked :: world where
  "ex_locked = ex_confirmed\<lparr>w_db := (w_db ex_confirmed)\<lparr>db_periods :=
     [new_period ''p'' ''admin'' ''o'' ''g'' (day_of ''2026-07-01'') (day_of ''2026-07-31'')
        (build_totals_snapshot (w_db ex_confirmed) ''o'' ''g'' (day_of ''2026-07-01'') (day_of ''2026-07-31''))]\<rparr>\<rparr>"

text \<open>
  Bookings respect the period lock, but an administrator's cancellation does not: it
  removes a guest charge from a finalized period.
\<close>

lemma cancel_changes_finalized_charges:
  "period_locked ex_locked ''o'' ''g'' (day_of ''2026-07-10'')
   \<and> (case cancel_guest ex_env ''admin'' True ''o'' ''new00'' ex_locked of
        Inl _ \<Rightarrow> False
      | Inr w \<Rightarrow> sum_opt hg_price (guests_in (w_db ex_locked) ''o'' ''g'' True (\<lambda>t. t = day_of ''2026-07-10'')) = 60
          \<and> sum_opt hg_price (guests_in (w_db w) ''o'' ''g'' True (\<lambda>t. t = day_of ''2026-07-10'')) = 0)"
  by code_simp

text \<open>So does a late confirmation: it adds a charge to a finalized period.\<close>

lemma confirm_changes_finalized_charges:
  "case confirm_guest ex_env ''u'' ''o'' ''new00''
      (ex_proposed\<lparr>w_db := (w_db ex_proposed)\<lparr>db_periods := db_periods (w_db ex_locked)\<rparr>\<rparr>) of
     Inl _ \<Rightarrow> False
   | Inr w \<Rightarrow> period_locked w ''o'' ''g'' (day_of ''2026-07-10'')
       \<and> sum_opt hg_price (guests_in (w_db w) ''o'' ''g'' True (\<lambda>t. t = day_of ''2026-07-10'')) = 60"
  by code_simp

end
