(* ===== verification/Attendance.thy ===== *)
theory Attendance
  imports Guests
begin

text \<open>
  Attendance writes: marking, bulk marking, the admin self-mark and the consented change of
  \<open>src/src/features/attendance/attendance.service.ts\<close>, over the upserts of
  \<open>repositories/attendance.repository.ts\<close>.  Caches, realtime events, notifications and
  audit are left out; the reply of the Redis dedup key is part of the environment.
\<close>

section \<open>The upserts\<close>

text \<open>
  The data of an upsert.  \<open>billAbsent\<close>, \<open>source\<close> and \<open>sourceRequestId\<close> are \<open>None\<close> when
  undefined; \<open>wr_selection\<close> holds the JSON snapshot and the child rows when they travel with
  the mark.
\<close>

record att_write =
  wr_org :: ident
  wr_group :: ident
  wr_user :: ident
  wr_meal :: ident
  wr_date :: int
  wr_status :: att_status
  wr_preference :: "string option"
  wr_note :: "string option"
  wr_marked_at :: "int option"
  wr_marked_by :: "ident option"
  wr_price :: "int option"
  wr_bill_absent :: "bool option option"
  wr_source :: "string option option"
  wr_source_request :: "ident option option"
  wr_selection :: "(selection_row list \<times> selection_row list) option"

definition same_slot :: "att_write \<Rightarrow> attendance_row \<Rightarrow> bool" where
  "same_slot wr a \<longleftrightarrow> at_user a = wr_user wr \<and> at_meal a = wr_meal wr \<and> at_date a = wr_date wr"

definition snapshot_json :: "att_write \<Rightarrow> selection_row list option \<Rightarrow> selection_row list option" where
  "snapshot_json wr old =
     (case wr_selection wr of None \<Rightarrow> old | Some (snap, _) \<Rightarrow> if snap = [] then None else Some snap)"

text \<open>A missing preference leaves the stored one; a missing snapshot leaves the stored selections.\<close>

definition upsert_update :: "int \<Rightarrow> att_write \<Rightarrow> attendance_row \<Rightarrow> attendance_row" where
  "upsert_update now wr a =
     a\<lparr>at_status := wr_status wr, at_preference := nullish_opt (wr_preference wr) (at_preference a),
       at_preferences := snapshot_json wr (at_preferences a), at_note := wr_note wr,
       at_marked_at := Some (nullish (wr_marked_at wr) now), at_marked_by := wr_marked_by wr,
       at_price := wr_price wr, at_bill_absent := nullish (wr_bill_absent wr) (at_bill_absent a),
       at_source := nullish (wr_source wr) (at_source a),
       at_source_request := nullish (wr_source_request wr) (at_source_request a)\<rparr>"

definition upsert_create :: "int \<Rightarrow> ident \<Rightarrow> att_write \<Rightarrow> attendance_row" where
  "upsert_create now i wr =
     \<lparr>at_id = i, at_org = wr_org wr, at_group = wr_group wr, at_user = wr_user wr, at_meal = wr_meal wr,
      at_date = wr_date wr, at_status = wr_status wr, at_preference = wr_preference wr,
      at_preferences = snapshot_json wr None, at_note = wr_note wr,
      at_marked_at = Some (nullish (wr_marked_at wr) now), at_marked_by = wr_marked_by wr, at_price = wr_price wr,
      at_bill_absent = nullish (wr_bill_absent wr) None, at_source = nullish (wr_source wr) (Some ''self''),
      at_source_request = nullish (wr_source_request wr) None, at_guest_adults = 0, at_guest_children = 0\<rparr>"

definition set_records :: "(attendance_row list \<Rightarrow> attendance_row list) \<Rightarrow> world \<Rightarrow> world" where
  "set_records f w = w\<lparr>w_db := (w_db w)\<lparr>db_attendance := f (db_attendance (w_db w))\<rparr>\<rparr>"

text \<open>The child rows are replaced with the record, in one transaction.\<close>

definition replace_selections :: "ident \<Rightarrow> att_write \<Rightarrow> world \<Rightarrow> world" where
  "replace_selections i wr w =
     (case wr_selection wr of
        None \<Rightarrow> w
      | Some (_, rows) \<Rightarrow> w\<lparr>w_selections := filter (\<lambda>p. fst p \<noteq> i) (w_selections w) @ map (Pair i) rows\<rparr>)"

definition upsert_with ::
  "(attendance_row \<Rightarrow> attendance_row) \<Rightarrow> attendance_row \<Rightarrow> att_write \<Rightarrow> world \<Rightarrow> attendance_row \<times> world" where
  "upsert_with f fresh wr w =
     (case find (same_slot wr) (records_of w) of
        Some a \<Rightarrow> (f a, replace_selections (at_id (f a)) wr
                     (set_records (map (\<lambda>x. if same_slot wr x then f x else x)) w))
      | None \<Rightarrow> (fresh, replace_selections (at_id fresh) wr (set_records (\<lambda>rs. rs @ [fresh]) w)))"

definition upsert :: "int \<Rightarrow> ident \<Rightarrow> att_write \<Rightarrow> world \<Rightarrow> attendance_row \<times> world" where
  "upsert now i wr w = upsert_with (upsert_update now wr) (upsert_create now i wr) wr w"

text \<open>The bulk upsert overwrites the preference and leaves the fields it does not name.\<close>

definition bulk_update :: "int \<Rightarrow> att_write \<Rightarrow> attendance_row \<Rightarrow> attendance_row" where
  "bulk_update now wr a =
     a\<lparr>at_status := wr_status wr, at_preference := wr_preference wr, at_note := wr_note wr,
       at_marked_at := Some (nullish (wr_marked_at wr) now), at_marked_by := wr_marked_by wr, at_price := wr_price wr\<rparr>"

fun bulk_upsert :: "int \<Rightarrow> (nat \<Rightarrow> ident) \<Rightarrow> nat \<Rightarrow> att_write list \<Rightarrow> world \<Rightarrow> world" where
  "bulk_upsert now ids n [] w = w"
| "bulk_upsert now ids n (wr # wrs) w =
     bulk_upsert now ids (Suc n) wrs
       (snd (upsert_with (bulk_update now wr) (upsert_create now (ids n) wr) wr w))"

section \<open>Marking\<close>

record mark_dto =
  md_meal :: ident
  md_date :: string
  md_status :: "att_status option"
  md_preference :: "string option"
  md_note :: "string option"
  md_selections :: "selection list option"

text \<open>A member's Skip is stored as Absent.\<close>

definition mark_status :: "att_status option \<Rightarrow> att_status" where
  "mark_status s = (if nullish s Present = Skipped then Absent else nullish s Present)"

definition assert_active_member :: "world \<Rightarrow> ident \<Rightarrow> ident \<Rightarrow> exn + member_row" where
  "assert_active_member w gid user =
     (case find_membership w gid user of
        None \<Rightarrow> Inl (Forbidden ''You are not an active member of this group'')
      | Some m \<Rightarrow>
          if gm_status m = MemberBlocked then Inl (Forbidden ''MEMBER_BLOCKED'')
          else if gm_status m \<noteq> MemberActive
          then Inl (Forbidden ''You are not an active member of this group'')
          else Inr m)"

definition covered_by_vacation ::
  "world \<Rightarrow> ident \<Rightarrow> meal_row \<Rightarrow> string \<Rightarrow> int \<Rightarrow> effective \<Rightarrow> ident \<Rightarrow> member_row \<Rightarrow> bool" where
  "covered_by_vacation w org meal date_str t eff user m \<longleftrightarrow>
     user \<in> set (vacation_covered (w_vacations w) (slot_meals w) (published_day w org (ml_group meal) date_str)
                  org (ml_group meal) t (nullish_opt (ef_open eff) (rm_window_open meal)) (Some (rm_slot_key meal))
                  [(user, resolve_member_flag (gm_vacation m) (map_option us_vacation (find_user w user)))])"

definition org_now :: "env \<Rightarrow> world \<Rightarrow> meal_row \<Rightarrow> string" where
  "org_now e w meal = en_date e (org_tz w (ml_org meal))"

text \<open>The gates before the dedup key: who, which meal, which day.\<close>

definition admit_mark ::
  "env \<Rightarrow> ident \<Rightarrow> ident \<Rightarrow> mark_dto \<Rightarrow> world \<Rightarrow> exn + meal_row \<times> effective \<times> int" where
  "admit_mark e user org dto w =
     bindE (orErr (find_meal w org (md_meal dto)) (NotFound ''Meal not found'')) (\<lambda>meal.
       if map_option gr_is_active (meal_group w meal) = Some False then Inl (Forbidden ''GROUP_ARCHIVED'')
       else if \<not> ml_attendance_enabled meal
       then Inl (BadRequest ''Attendance is not enabled for this meal'')
       else
         bindE (assert_active_member w (ml_group meal) user) (\<lambda>m.
           let today = org_now e w meal
           in if md_date dto \<noteq> today then Inl (BadRequest ''Attendance can only be marked for today'')
              else
                bindE (resolve_effective_window w (ml_id meal) (ml_group meal) org today
                         (rm_window_open meal) (rm_window_close meal) (rm_price meal)) (\<lambda>eff.
                bindE (orErr (to_utc_midnight today) BadDate) (\<lambda>t.
                if mark_status (md_status dto) \<noteq> OnVacation \<and> covered_by_vacation w org meal today t eff user m
                then Inl (Unprocessable ''VACATION_ACTIVE'')
                else
                  bindE (assert_period_not_finalized w org (ml_group meal) (md_date dto))
                    (\<lambda>_. Inr (meal, eff, t))))))"

text \<open>A duplicate tap returns the record it finds with the same status.\<close>

definition dedup_hit ::
  "config \<Rightarrow> env \<Rightarrow> world \<Rightarrow> ident \<Rightarrow> ident \<Rightarrow> mark_dto \<Rightarrow> int \<Rightarrow> attendance_row option" where
  "dedup_hit cf e w org user dto t =
     (if 0 < cf_dedup_seconds cf \<and> \<not> en_first_writer e then
        (case find (\<lambda>a. at_org a = org \<and> at_user a = user \<and> at_meal a = md_meal dto \<and> at_date a = t) (records_of w) of
           None \<Rightarrow> None
         | Some a \<Rightarrow> if at_status a = mark_status (md_status dto) then Some a else None)
      else None)"

definition window_gate :: "env \<Rightarrow> world \<Rightarrow> meal_row \<Rightarrow> effective \<Rightarrow> bool \<Rightarrow> exn + window_state" where
  "window_gate e w meal eff allow =
     (if truthy (ef_open eff) \<and> truthy (ef_close eff) then
        let grace = max 0 (nullish (Option.bind (meal_group w meal) gr_grace_minutes) 0);
            ws = get_window_state (en_time e (org_tz w (ml_org meal))) (ef_open eff) (ef_close eff) grace
        in if (ws = Upcoming \<or> ws = Closed) \<and> \<not> (allow \<and> ws = Closed)
           then Inl (Locked ''ATTENDANCE_WINDOW_CLOSED'') else Inr ws
      else Inr Open)"

text \<open>A Present mark without picks reuses the snapshot stored on the record.\<close>

definition prior_selections :: "attendance_row option \<Rightarrow> selection list" where
  "prior_selections prior =
     (case prior of
        None \<Rightarrow> []
      | Some a \<Rightarrow>
          map (\<lambda>r. \<lparr>sel_group = sr_group r, sel_option = sr_option_key r, sel_quantity = Some (sr_quantity r)\<rparr>)
            (filter (\<lambda>r. sr_group r \<noteq> [] \<and> sr_option_key r \<noteq> []) (nullish (at_preferences a) [])))"

definition effective_selections :: "mark_dto \<Rightarrow> attendance_row option \<Rightarrow> selection list" where
  "effective_selections dto prior =
     (if nullish (md_selections dto) [] = [] then prior_selections prior else nullish (md_selections dto) [])"

record priced =
  pr_price :: "int option"
  pr_preference :: "string option"
  pr_selection :: "(selection_row list \<times> selection_row list) option"

definition unpicked :: "effective \<Rightarrow> string option \<Rightarrow> priced" where
  "unpicked eff pref = \<lparr>pr_price = ef_price eff, pr_preference = pref, pr_selection = None\<rparr>"

definition price_selection ::
  "config \<Rightarrow> group_row option \<Rightarrow> pref_group list \<Rightarrow> effective \<Rightarrow> string option \<Rightarrow> selection list \<Rightarrow> exn + priced" where
  "price_selection cf g gs eff pref sels =
     (if gs = [] then Inr (unpicked eff pref)
      else
        bindE (validate_selections (cf_quantity_cap cf) gs sels) (\<lambda>v. Inr
          \<lparr>pr_price = price_with_delta g (ef_price eff) (vs_total_delta v),
           pr_preference = nullish_opt pref (vs_primary_key v),
           pr_selection = Some (vs_snapshot v, vs_rows v)\<rparr>))"

definition bill_absent_snapshot :: "group_row option \<Rightarrow> att_status \<Rightarrow> bool option" where
  "bill_absent_snapshot g st =
     (if st = Absent \<and> Option.bind g gr_bill_absent = Some True then Some True else None)"

text \<open>Guests follow a host that leaves Present; a return to Present stops here.\<close>

definition reconcile_guests ::
  "env \<Rightarrow> ident \<Rightarrow> ident \<Rightarrow> ident \<Rightarrow> ident \<Rightarrow> int \<Rightarrow> att_status \<Rightarrow> ident \<Rightarrow> world \<Rightarrow> world" where
  "reconcile_guests e org gid host meal t st actor w =
     (if st = Present then w else reconcile_on_host_change e org gid host meal t st actor w)"

definition mark_write ::
  "env \<Rightarrow> ident \<Rightarrow> ident \<Rightarrow> mark_dto \<Rightarrow> world \<Rightarrow> meal_row \<Rightarrow> int \<Rightarrow> priced \<Rightarrow> att_write" where
  "mark_write e user org dto w meal t p =
     \<lparr>wr_org = org, wr_group = ml_group meal, wr_user = user, wr_meal = md_meal dto, wr_date = t,
      wr_status = mark_status (md_status dto), wr_preference = pr_preference p, wr_note = md_note dto,
      wr_marked_at = Some (en_now e), wr_marked_by = None, wr_price = pr_price p,
      wr_bill_absent = Some (bill_absent_snapshot (meal_group w meal) (mark_status (md_status dto))),
      wr_source = Some (Some ''self''), wr_source_request = None, wr_selection = pr_selection p\<rparr>"

definition record_mark ::
  "config \<Rightarrow> env \<Rightarrow> ident \<Rightarrow> ident \<Rightarrow> mark_dto \<Rightarrow> bool \<Rightarrow> meal_row \<Rightarrow> effective \<Rightarrow> int \<Rightarrow> world
     \<Rightarrow> exn + attendance_row \<times> world" where
  "record_mark cf e user org dto allow meal eff t w =
     (let st = mark_status (md_status dto); g = meal_group w meal; planner = planner_active g
      in if planner \<and> \<not> ef_scheduled eff then Inl (Unprocessable ''NO_MEAL_TODAY'')
         else if \<not> ml_is_active meal \<and> \<not> (planner \<and> ef_scheduled eff) then Inl (NotFound ''Meal not found'')
         else
           bindE (window_gate e w meal eff allow) (\<lambda>_.
           bindE (if st = Present
                  then price_selection cf g (day_groups w (ml_id meal) org g eff) eff (md_preference dto)
                         (effective_selections dto (record_at w user (md_meal dto) t))
                  else Inr (unpicked eff (md_preference dto))) (\<lambda>p.
             case upsert (en_now e) (en_id e 0) (mark_write e user org dto w meal t p) w of
               (a, w1) \<Rightarrow> Inr (a, reconcile_guests e org (ml_group meal) user (md_meal dto) t st user w1))))"

definition mark_attendance ::
  "config \<Rightarrow> env \<Rightarrow> ident \<Rightarrow> ident \<Rightarrow> mark_dto \<Rightarrow> bool \<Rightarrow> world \<Rightarrow> exn + attendance_row \<times> world" where
  "mark_attendance cf e user org dto allow w =
     bindE (admit_mark e user org dto w) (\<lambda>(meal, eff, t).
       case dedup_hit cf e w org user dto t of
         Some a \<Rightarrow> Inr (a, w)
       | None \<Rightarrow> record_mark cf e user org dto allow meal eff t w)"

section \<open>Bulk marks and admin marks\<close>

record bulk_entry =
  be_meal :: ident
  be_date :: string
  be_status :: "att_status option"
  be_preference :: "string option"
  be_note :: "string option"

definition bulk_write ::
  "env \<Rightarrow> ident \<Rightarrow> ident \<Rightarrow> bulk_entry \<Rightarrow> meal_row \<Rightarrow> int \<Rightarrow> effective \<Rightarrow> att_write" where
  "bulk_write e user org x meal t eff =
     \<lparr>wr_org = org, wr_group = ml_group meal, wr_user = user, wr_meal = be_meal x, wr_date = t,
      wr_status = nullish (be_status x) Present, wr_preference = be_preference x, wr_note = be_note x,
      wr_marked_at = Some (en_now e), wr_marked_by = None, wr_price = ef_price eff,
      wr_bill_absent = None, wr_source = None, wr_source_request = None, wr_selection = None\<rparr>"

definition bulk_entry_write :: "env \<Rightarrow> ident \<Rightarrow> ident \<Rightarrow> world \<Rightarrow> meal_row list \<Rightarrow> bulk_entry \<Rightarrow> exn + att_write" where
  "bulk_entry_write e user org w meals x =
     bindE (orErr (find (\<lambda>m. ml_id m = be_meal x) meals) (BadRequest ''meal'')) (\<lambda>meal.
     bindE (resolve_effective_window w (ml_id meal) (ml_group meal) org (be_date x) None None (rm_price meal)) (\<lambda>eff.
     bindE (orErr (to_utc_midnight (be_date x)) BadDate) (\<lambda>t. Inr (bulk_write e user org x meal t eff))))"

definition bulk_mark_attendance ::
  "env \<Rightarrow> ident \<Rightarrow> ident \<Rightarrow> bulk_entry list \<Rightarrow> world \<Rightarrow> exn + world" where
  "bulk_mark_attendance e user org entries w =
     (let ids = set_union_order [] (map be_meal entries);
          meals = filter (\<lambda>m. ml_id m \<in> set ids \<and> ml_org m = org) (w_meals w)
      in if length meals \<noteq> length ids then Inl (BadRequest ''One or more meals not found or not accessible'')
         else if \<exists>m\<in>set meals. \<not> ml_attendance_enabled m
         then Inl (BadRequest ''Attendance is not enabled for meal'')
         else
           bindE (mapE (bulk_entry_write e user org w meals) entries) (\<lambda>wrs.
           bindE (mapE (\<lambda>wr. if period_locked w org (wr_group wr) (wr_date wr)
                          then Inl (Locked ''PERIOD_FINALIZED'') else Inr ()) wrs) (\<lambda>_.
             Inr (bulk_upsert (en_now e) (en_id e) 0 wrs w))))"

definition admin_override ::
  "config \<Rightarrow> env \<Rightarrow> ident \<Rightarrow> ident \<Rightarrow> ident \<Rightarrow> mark_dto \<Rightarrow> bool \<Rightarrow> world \<Rightarrow> exn + attendance_row \<times> world" where
  "admin_override cf e admin org user dto correction w =
     (if user \<noteq> admin then Inl (Forbidden ''ADMIN_OVERRIDE_REMOVED'')
      else mark_attendance cf e admin org dto correction w)"

definition admin_bulk_override :: "exn + world" where
  "admin_bulk_override = Inl (Forbidden ''ADMIN_OVERRIDE_REMOVED'')"

section \<open>Consented changes\<close>

record consented_change =
  cc_actor :: ident
  cc_user :: ident
  cc_group :: ident
  cc_meal :: ident
  cc_date :: string
  cc_status :: att_status
  cc_preference :: "string option"
  cc_selections :: "selection list option"
  cc_note :: "string option"
  cc_marked_by :: "ident option"
  cc_source :: string
  cc_source_request :: "ident option"

definition consented_write ::
  "env \<Rightarrow> ident \<Rightarrow> consented_change \<Rightarrow> group_row option \<Rightarrow> int \<Rightarrow> priced \<Rightarrow> att_write" where
  "consented_write e org c g t p =
     \<lparr>wr_org = org, wr_group = cc_group c, wr_user = cc_user c, wr_meal = cc_meal c, wr_date = t,
      wr_status = cc_status c, wr_preference = pr_preference p, wr_note = cc_note c,
      wr_marked_at = Some (en_now e), wr_marked_by = cc_marked_by c, wr_price = pr_price p,
      wr_bill_absent = Some (bill_absent_snapshot g (cc_status c)), wr_source = Some (Some (cc_source c)),
      wr_source_request = Some (cc_source_request c), wr_selection = pr_selection p\<rparr>"

definition apply_consented_change ::
  "config \<Rightarrow> env \<Rightarrow> ident \<Rightarrow> consented_change \<Rightarrow> world \<Rightarrow> exn + attendance_row \<times> world" where
  "apply_consented_change cf e org c w =
     bindE (assert_period_not_finalized w org (cc_group c) (cc_date c)) (\<lambda>t.
       let meal = find_meal w org (cc_meal c); g = Option.bind meal (meal_group w)
       in bindE (resolve_effective_window w (cc_meal c) (cc_group c) org (cc_date c) None None
                   (Option.bind meal rm_price)) (\<lambda>eff.
          bindE (if cc_status c = Present \<and> nullish (cc_selections c) [] \<noteq> []
                 then price_selection cf g (day_groups w (cc_meal c) org g eff) eff (cc_preference c)
                        (nullish (cc_selections c) [])
                 else Inr (unpicked eff (cc_preference c))) (\<lambda>p.
            case upsert (en_now e) (en_id e 0) (consented_write e org c g t p) w of
              (a, w1) \<Rightarrow> Inr (a, reconcile_guests e org (cc_group c) (cc_user c) (cc_meal c) t (cc_status c)
                                   (cc_actor c) w1))))"

end
