(* ===== verification/Attendance_Laws.thy ===== *)
theory Attendance_Laws
  imports Attendance
begin

text \<open>
  What attendance writes guarantee: the gates a mark passes, records of exactly the slots a
  request names, exact prices, finalized days left alone, and child rows that agree with
  the stored snapshot.
\<close>

section \<open>The upserts as map updates\<close>

text \<open>
  Guest counters belong to the guest service; \<open>strip_counters\<close> masks them.  The book is
  the abstract store: one record per member, meal and day.
\<close>

definition strip_counters :: "attendance_row \<Rightarrow> attendance_row" where
  "strip_counters a = a\<lparr>at_guest_adults := 0, at_guest_children := 0\<rparr>"

type_synonym book = "ident \<times> ident \<times> int \<Rightarrow> attendance_row option"

definition book_of :: "world \<Rightarrow> book" where
  "book_of w = (\<lambda>(u, m, t). map_option strip_counters (record_at w u m t))"

definition slot_of :: "att_write \<Rightarrow> ident \<times> ident \<times> int" where
  "slot_of wr = (wr_user wr, wr_meal wr, wr_date wr)"

definition row_slot :: "attendance_row \<Rightarrow> ident \<times> ident \<times> int" where
  "row_slot a = (at_user a, at_meal a, at_date a)"

lemma same_slot_iff: "same_slot wr a \<longleftrightarrow> row_slot a = slot_of wr"
  by (auto simp: same_slot_def row_slot_def slot_of_def)

lemma record_at_find: "record_at w u m t = find (\<lambda>a. row_slot a = (u, m, t)) (records_of w)"
  by (simp add: record_at_def row_slot_def)

lemma book_find: "book_of w s = map_option strip_counters (find (\<lambda>a. row_slot a = s) (records_of w))"
  by (cases s) (simp add: book_of_def record_at_find)

lemma records_set_records [simp]: "records_of (set_records f w) = f (records_of w)"
  by (simp add: set_records_def)

lemma records_replace [simp]: "records_of (replace_selections i wr w) = records_of w"
  by (simp add: replace_selections_def split: option.splits)

lemma guests_set_records [simp]: "guests_of (set_records f w) = guests_of w"
  by (simp add: set_records_def)

lemma guests_replace [simp]: "guests_of (replace_selections i wr w) = guests_of w"
  by (simp add: replace_selections_def split: option.splits)

lemma row_slot_updates [simp]:
  "row_slot (upsert_update now wr a) = row_slot a"
  "row_slot (bulk_update now wr a) = row_slot a"
  "row_slot (upsert_create now i wr) = slot_of wr"
  "row_slot (strip_counters a) = row_slot a"
  by (simp_all add: row_slot_def upsert_update_def bulk_update_def upsert_create_def slot_of_def strip_counters_def)

lemma find_map_slot:
  assumes "\<And>a. row_slot (f a) = row_slot a"
  shows "find (\<lambda>a. row_slot a = s) (map f xs) = map_option f (find (\<lambda>a. row_slot a = s) xs)"
  using assms by (induction xs) auto

text \<open>An upsert is a map update at its slot.\<close>

lemma book_upsert:
  assumes "\<And>a. row_slot (f a) = row_slot a" and "row_slot fresh = slot_of wr"
  shows "book_of (snd (upsert_with f fresh wr w))
    = (book_of w)(slot_of wr \<mapsto> strip_counters (fst (upsert_with f fresh wr w)))"
proof
  fix s
  show "book_of (snd (upsert_with f fresh wr w)) s
      = ((book_of w)(slot_of wr \<mapsto> strip_counters (fst (upsert_with f fresh wr w)))) s"
  proof (cases "find (same_slot wr) (records_of w)")
    case None
    then have none: "find (\<lambda>a. row_slot a = slot_of wr) (records_of w) = None"
      by (simp add: same_slot_iff [abs_def])
    with None show ?thesis using assms(2)
      by (auto simp: upsert_with_def book_find find_append_case split: option.splits)
  next
    case (Some a)
    then have some: "find (\<lambda>a. row_slot a = slot_of wr) (records_of w) = Some a"
      by (simp add: same_slot_iff [abs_def])
    have hit: "find (\<lambda>x. row_slot x = s) (map (\<lambda>x. if same_slot wr x then f x else x) (records_of w))
        = map_option (\<lambda>x. if same_slot wr x then f x else x) (find (\<lambda>x. row_slot x = s) (records_of w))"
      by (rule find_map_slot) (simp add: assms(1))
    show ?thesis
    proof (cases "s = slot_of wr")
      case True
      then show ?thesis using Some some hit find_SomeD [OF some]
        by (simp add: upsert_with_def book_find same_slot_iff)
    next
      case False
      then have "map_option (\<lambda>x. if same_slot wr x then f x else x) (find (\<lambda>x. row_slot x = s) (records_of w))
          = find (\<lambda>x. row_slot x = s) (records_of w)"
        by (cases "find (\<lambda>x. row_slot x = s) (records_of w)") (auto simp: same_slot_iff dest: find_SomeD)
      then show ?thesis using False Some hit by (simp add: upsert_with_def book_find)
    qed
  qed
qed

lemmas book_upsert_mark = book_upsert [of "upsert_update now wr" "upsert_create now i wr" wr w for now i wr w,
    folded upsert_def, simplified]

text \<open>Guest effects leave the book alone.\<close>

lemma book_recompute [simp]: "book_of (recompute_host_counters org host meal t w) = book_of w"
proof
  fix s
  let ?f = "\<lambda>a. if at_org a = org \<and> at_user a = host \<and> at_meal a = meal \<and> at_date a = t
        then a\<lparr>at_guest_adults := confirmed_count w org host meal t True,
               at_guest_children := confirmed_count w org host meal t False\<rparr> else a"
  have "find (\<lambda>a. row_slot a = s) (map ?f (records_of w)) = map_option ?f (find (\<lambda>a. row_slot a = s) (records_of w))"
    by (rule find_map_slot) (simp add: row_slot_def)
  moreover have "strip_counters (?f a) = strip_counters a" for a by (simp add: strip_counters_def)
  ultimately show "book_of (recompute_host_counters org host meal t w) s = book_of w s"
    by (simp add: book_find recompute_host_counters_def option.map_comp o_def)
qed

lemma book_set_guests [simp]: "book_of (set_guests f w) = book_of w"
  by (simp add: fun_eq_iff book_find)

lemma book_reconcile [simp]: "book_of (reconcile_guests e org gid host meal t st actor w) = book_of w"
  by (simp add: reconcile_guests_def reconcile_on_host_change_def Let_def split: option.splits)

section \<open>Inversion of the operations\<close>

lemma admit_cases:
  assumes "admit_mark e user org dto w = Inr (meal, eff, t)"
  obtains m where "find_meal w org (md_meal dto) = Some meal" "map_option gr_is_active (meal_group w meal) \<noteq> Some False"
    "ml_attendance_enabled meal" "find_membership w (ml_group meal) user = Some m" "gm_status m = MemberActive"
    "md_date dto = org_now e w meal" "to_utc_midnight (md_date dto) = Some t"
    "resolve_effective_window w (ml_id meal) (ml_group meal) org (md_date dto)
       (rm_window_open meal) (rm_window_close meal) (rm_price meal) = Inr eff"
    "mark_status (md_status dto) = OnVacation \<or> \<not> covered_by_vacation w org meal (md_date dto) t eff user m"
    "\<not> period_locked w org (ml_group meal) t"
proof -
  from assms obtain m where g: "find_meal w org (md_meal dto) = Some meal"
    "map_option gr_is_active (meal_group w meal) \<noteq> Some False" "ml_attendance_enabled meal"
    and m: "assert_active_member w (ml_group meal) user = Inr m"
    and d: "md_date dto = org_now e w meal" "to_utc_midnight (org_now e w meal) = Some t"
    and eff: "resolve_effective_window w (ml_id meal) (ml_group meal) org (org_now e w meal)
       (rm_window_open meal) (rm_window_close meal) (rm_price meal) = Inr eff"
    and vac: "\<not> (mark_status (md_status dto) \<noteq> OnVacation
       \<and> covered_by_vacation w org meal (org_now e w meal) t eff user m)"
    and per: "\<exists>x. assert_period_not_finalized w org (ml_group meal) (md_date dto) = Inr x"
    unfolding admit_mark_def Let_def bindE_eq_Inr if_Inl_eq_Inr orErr_eq_Inr not_not by auto
  from m have "find_membership w (ml_group meal) user = Some m" "gm_status m = MemberActive"
    by (auto simp: assert_active_member_def split: option.splits if_splits)
  moreover have "\<not> period_locked w org (ml_group meal) t"
    using per d by (auto simp: assert_period_not_finalized_def bindE_eq_Inr)
  moreover have "mark_status (md_status dto) = OnVacation \<or> \<not> covered_by_vacation w org meal (md_date dto) t eff user m"
    using vac d by auto
  ultimately show thesis using g d eff that by simp
qed

lemma record_mark_cases:
  assumes "record_mark cf e user org dto allow meal eff t w = Inr (a, w')"
  obtains p w1 where
    "planner_active (meal_group w meal) \<longrightarrow> ef_scheduled eff"
    "ml_is_active meal \<or> planner_active (meal_group w meal)"
    "window_gate e w meal eff allow \<noteq> Inl (Locked ''ATTENDANCE_WINDOW_CLOSED'')"
    "if mark_status (md_status dto) = Present
     then price_selection cf (meal_group w meal) (day_groups w (ml_id meal) org (meal_group w meal) eff) eff
            (md_preference dto) (effective_selections dto (record_at w user (md_meal dto) t)) = Inr p
     else p = unpicked eff (md_preference dto)"
    "upsert (en_now e) (en_id e 0) (mark_write e user org dto w meal t p) w = (a, w1)"
    "w' = reconcile_guests e org (ml_group meal) user (md_meal dto) t (mark_status (md_status dto)) user w1"
proof -
  let ?g = "meal_group w meal"
  from assms obtain p where
    gates: "\<not> (planner_active ?g \<and> \<not> ef_scheduled eff)" "\<not> (\<not> ml_is_active meal \<and> \<not> (planner_active ?g \<and> ef_scheduled eff))"
    and win: "\<exists>ws. window_gate e w meal eff allow = Inr ws"
    and p: "(if mark_status (md_status dto) = Present
     then price_selection cf ?g (day_groups w (ml_id meal) org ?g eff) eff
            (md_preference dto) (effective_selections dto (record_at w user (md_meal dto) t))
     else Inr (unpicked eff (md_preference dto))) = Inr p"
    and up: "(case upsert (en_now e) (en_id e 0) (mark_write e user org dto w meal t p) w of
        (a, w1) \<Rightarrow> Inr (a, reconcile_guests e org (ml_group meal) user (md_meal dto) t (mark_status (md_status dto)) user w1))
       = (Inr (a, w') :: exn + attendance_row \<times> world)"
    unfolding record_mark_def Let_def bindE_eq_Inr if_Inl_eq_Inr by blast
  obtain w1 where "upsert (en_now e) (en_id e 0) (mark_write e user org dto w meal t p) w = (a, w1)"
    "w' = reconcile_guests e org (ml_group meal) user (md_meal dto) t (mark_status (md_status dto)) user w1"
    using up by (cases "upsert (en_now e) (en_id e 0) (mark_write e user org dto w meal t p) w") auto
  with gates win p show thesis by (intro that [of p w1]) (auto split: if_splits)
qed

lemma mark_cases:
  assumes "mark_attendance cf e user org dto allow w = Inr (a, w')"
  obtains (tap) meal eff t where "admit_mark e user org dto w = Inr (meal, eff, t)"
      "dedup_hit cf e w org user dto t = Some a" "w' = w"
  | (put) meal eff t where "admit_mark e user org dto w = Inr (meal, eff, t)"
      "dedup_hit cf e w org user dto t = None" "record_mark cf e user org dto allow meal eff t w = Inr (a, w')"
proof -
  from assms obtain meal t and eff :: effective where ad: "admit_mark e user org dto w = Inr (meal, eff, t)"
    by (cases "admit_mark e user org dto w") (auto simp: mark_attendance_def)
  have "(case dedup_hit cf e w org user dto t of Some a \<Rightarrow> Inr (a, w)
      | None \<Rightarrow> record_mark cf e user org dto allow meal eff t w) = Inr (a, w')"
    using assms by (simp add: mark_attendance_def ad)
  with ad show thesis
    by (cases "dedup_hit cf e w org user dto t") (simp_all add: tap put)
qed

lemma consented_cases:
  assumes "apply_consented_change cf e org c w = Inr (a, w')"
  obtains t p w1 and eff :: effective where "to_utc_midnight (cc_date c) = Some t" "\<not> period_locked w org (cc_group c) t"
    "if cc_status c = Present \<and> nullish (cc_selections c) [] \<noteq> []
     then price_selection cf (Option.bind (find_meal w org (cc_meal c)) (meal_group w))
            (day_groups w (cc_meal c) org (Option.bind (find_meal w org (cc_meal c)) (meal_group w)) eff) eff
            (cc_preference c) (nullish (cc_selections c) []) = Inr p
     else p = unpicked eff (cc_preference c)"
    "upsert (en_now e) (en_id e 0)
       (consented_write e org c (Option.bind (find_meal w org (cc_meal c)) (meal_group w)) t p) w = (a, w1)"
    "w' = reconcile_guests e org (cc_group c) (cc_user c) (cc_meal c) t (cc_status c) (cc_actor c) w1"
proof -
  let ?g = "Option.bind (find_meal w org (cc_meal c)) (meal_group w)"
  from assms obtain t p and eff :: effective where
    t: "assert_period_not_finalized w org (cc_group c) (cc_date c) = Inr t"
    and p: "(if cc_status c = Present \<and> nullish (cc_selections c) [] \<noteq> []
       then price_selection cf ?g (day_groups w (cc_meal c) org ?g eff) eff (cc_preference c) (nullish (cc_selections c) [])
       else Inr (unpicked eff (cc_preference c))) = Inr p"
    and up: "(case upsert (en_now e) (en_id e 0) (consented_write e org c ?g t p) w of
        (a, w1) \<Rightarrow> Inr (a, reconcile_guests e org (cc_group c) (cc_user c) (cc_meal c) t (cc_status c) (cc_actor c) w1))
       = (Inr (a, w') :: exn + attendance_row \<times> world)"
    unfolding apply_consented_change_def Let_def bindE_eq_Inr by blast
  from t have "to_utc_midnight (cc_date c) = Some t" "\<not> period_locked w org (cc_group c) t"
    by (auto simp: assert_period_not_finalized_def bindE_eq_Inr)
  moreover obtain w1 where "upsert (en_now e) (en_id e 0) (consented_write e org c ?g t p) w = (a, w1)"
    "w' = reconcile_guests e org (cc_group c) (cc_user c) (cc_meal c) t (cc_status c) (cc_actor c) w1"
    using up by (cases "upsert (en_now e) (en_id e 0) (consented_write e org c ?g t p) w") auto
  ultimately show thesis using p by (intro that [of t eff p w1]) (auto split: if_splits)
qed

lemma bulk_cases:
  assumes "bulk_mark_attendance e user org entries w = Inr w'"
  obtains wrs where "w' = bulk_upsert (en_now e) (en_id e) 0 wrs w"
    "\<And>wr. wr \<in> set wrs \<Longrightarrow> \<not> period_locked w org (wr_group wr) (wr_date wr)"
    "\<And>wr. wr \<in> set wrs \<Longrightarrow> wr_user wr = user \<and> wr_org wr = org \<and> wr_selection wr = None
       \<and> (\<exists>m\<in>set (w_meals w). ml_id m = wr_meal wr \<and> ml_org m = org \<and> ml_group m = wr_group wr)"
proof -
  let ?meals = "filter (\<lambda>m. ml_id m \<in> set (set_union_order [] (map be_meal entries)) \<and> ml_org m = org) (w_meals w)"
  from assms obtain wrs us where wrs: "mapE (bulk_entry_write e user org w ?meals) entries = Inr wrs"
    and locks: "mapE (\<lambda>wr. if period_locked w org (wr_group wr) (wr_date wr)
                          then Inl (Locked ''PERIOD_FINALIZED'') else Inr ()) wrs = Inr us"
    and w': "w' = bulk_upsert (en_now e) (en_id e) 0 wrs w"
    unfolding bulk_mark_attendance_def Let_def bindE_eq_Inr if_Inl_eq_Inr by auto
  have "\<not> period_locked w org (wr_group wr) (wr_date wr)" if "wr \<in> set wrs" for wr
    using mapE_Inr [OF locks] that by (auto simp: in_set_conv_nth split: if_splits)
  moreover have "wr_user wr = user \<and> wr_org wr = org \<and> wr_selection wr = None
       \<and> (\<exists>m\<in>set (w_meals w). ml_id m = wr_meal wr \<and> ml_org m = org \<and> ml_group m = wr_group wr)"
    if "wr \<in> set wrs" for wr
  proof -
    from that obtain i where "i < length wrs" "wr = wrs ! i" by (auto simp: in_set_conv_nth)
    then have "bulk_entry_write e user org w ?meals (entries ! i) = Inr wr" using mapE_Inr [OF wrs] by auto
    then obtain m t and eff :: effective where m: "find (\<lambda>m. ml_id m = be_meal (entries ! i)) ?meals = Some m"
      and wr: "wr = bulk_write e user org (entries ! i) m t eff"
      by (auto simp: bulk_entry_write_def bindE_eq_Inr)
    from find_SomeD [OF m] show ?thesis by (auto simp: wr bulk_write_def)
  qed
  ultimately show thesis using that w' by blast
qed

section \<open>Runs of attendance writes\<close>

text \<open>
  A step is labelled with the member whose attendance it is about.  A consented change
  comes from a correction request, which carries the group of its meal; the premise
  \<open>row_ids\<close> is the primary key of the table.
\<close>

definition row_ids :: "world \<Rightarrow> bool" where
  "row_ids w \<longleftrightarrow> distinct (map at_id (records_of w))"

inductive att_step :: "config \<Rightarrow> ident \<Rightarrow> world \<Rightarrow> world \<Rightarrow> bool" for cf where
  mark: "mark_attendance cf e user org dto allow w = Inr (a, w') \<Longrightarrow> row_ids w' \<Longrightarrow> att_step cf user w w'"
| override: "admin_override cf e user org who dto correction w = Inr (a, w') \<Longrightarrow> row_ids w' \<Longrightarrow> att_step cf user w w'"
| bulk: "bulk_mark_attendance e user org entries w = Inr w' \<Longrightarrow> row_ids w' \<Longrightarrow> att_step cf user w w'"
| consented: "apply_consented_change cf e org c w = Inr (a, w') \<Longrightarrow> row_ids w'
    \<Longrightarrow> map_option ml_group (find_meal w org (cc_meal c)) = Some (cc_group c) \<Longrightarrow> att_step cf (cc_user c) w w'"

inductive_cases att_stepE: "att_step cf user w w'"

text \<open>
  The abstract specification.  A request names, in order, the slots it writes with the
  status and the marker each record must get; a write puts one such record, stamped with the
  time of the request, into the book, keeping the identity and place of the record it replaces.
\<close>

record book_write =
  bw_slot :: "ident \<times> ident \<times> int"
  bw_status :: att_status
  bw_marker :: "ident option"

definition answers :: "int \<Rightarrow> ident \<Rightarrow> book_write \<Rightarrow> attendance_row option \<Rightarrow> attendance_row \<Rightarrow> bool" where
  "answers now org bw old r \<longleftrightarrow>
     row_slot r = bw_slot bw \<and> at_status r = bw_status bw \<and> at_marked_by r = bw_marker bw \<and> at_marked_at r = Some now
     \<and> (case old of None \<Rightarrow> at_org r = org
        | Some a \<Rightarrow> at_id r = at_id a \<and> at_org r = at_org a \<and> at_group r = at_group a)"

inductive book_puts :: "int \<Rightarrow> ident \<Rightarrow> book_write list \<Rightarrow> book \<Rightarrow> book \<Rightarrow> bool" for now org where
  finished: "book_puts now org [] B B"
| put: "answers now org bw (B (bw_slot bw)) r \<Longrightarrow> book_puts now org bws (B(bw_slot bw \<mapsto> r)) B'
    \<Longrightarrow> book_puts now org (bw # bws) B B'"

inductive_simps book_puts_Cons: "book_puts now org (bw # bws) B B'"

lemma book_puts_elsewhere: "book_puts now org bws B B' \<Longrightarrow> s \<notin> bw_slot ` set bws \<Longrightarrow> B' s = B s"
  by (induction rule: book_puts.induct) auto

text \<open>The requests of the attendance service, and the slots each one names.\<close>

datatype att_request =
    Mark_request ident mark_dto bool
  | Self_override ident ident mark_dto bool
  | Bulk_request ident "bulk_entry list"
  | Consented_request consented_change

fun run_request :: "config \<Rightarrow> env \<Rightarrow> ident \<Rightarrow> att_request \<Rightarrow> world \<Rightarrow> exn + world" where
  "run_request cf e org (Mark_request user dto allow) w = map_sum id snd (mark_attendance cf e user org dto allow w)"
| "run_request cf e org (Self_override admin user dto c) w = map_sum id snd (admin_override cf e admin org user dto c w)"
| "run_request cf e org (Bulk_request user entries) w = bulk_mark_attendance e user org entries w"
| "run_request cf e org (Consented_request c) w = map_sum id snd (apply_consented_change cf e org c w)"

definition mark_target :: "ident \<Rightarrow> mark_dto \<Rightarrow> book_write" where
  "mark_target user dto = \<lparr>bw_slot = (user, md_meal dto, day_of (md_date dto)), bw_status = mark_status (md_status dto), bw_marker = None\<rparr>"

definition bulk_target :: "ident \<Rightarrow> bulk_entry \<Rightarrow> book_write" where
  "bulk_target user x = \<lparr>bw_slot = (user, be_meal x, day_of (be_date x)), bw_status = nullish (be_status x) Present, bw_marker = None\<rparr>"

fun targets :: "att_request \<Rightarrow> book_write list" where
  "targets (Mark_request user dto allow) = [mark_target user dto]"
| "targets (Self_override admin user dto c) = [mark_target admin dto]"
| "targets (Bulk_request user entries) = map (bulk_target user) entries"
| "targets (Consented_request c) =
     [\<lparr>bw_slot = (cc_user c, cc_meal c, day_of (cc_date c)), bw_status = cc_status c, bw_marker = cc_marked_by c\<rparr>]"

definition target_of :: "att_write \<Rightarrow> book_write" where
  "target_of wr = \<lparr>bw_slot = slot_of wr, bw_status = wr_status wr, bw_marker = wr_marked_by wr\<rparr>"

lemma find_slot_book: "find (same_slot wr) (records_of w) = None \<longleftrightarrow> book_of w (slot_of wr) = None"
  "find (same_slot wr) (records_of w) = Some a \<Longrightarrow> book_of w (slot_of wr) = Some (strip_counters a)"
  by (simp_all add: book_find same_slot_iff [abs_def])

lemma stripped [simp]: "at_user (strip_counters a) = at_user a" "at_meal (strip_counters a) = at_meal a" "at_date (strip_counters a) = at_date a"
  "at_status (strip_counters a) = at_status a" "at_marked_by (strip_counters a) = at_marked_by a"
  "at_marked_at (strip_counters a) = at_marked_at a" "at_id (strip_counters a) = at_id a"
  "at_org (strip_counters a) = at_org a" "at_group (strip_counters a) = at_group a"
  by (simp_all add: strip_counters_def)

lemma upsert_answers:
  assumes "f = upsert_update now wr \<or> f = bulk_update now wr" "wr_marked_at wr = Some now"
  shows "answers now (wr_org wr) (target_of wr) (book_of w (slot_of wr))
    (strip_counters (fst (upsert_with f (upsert_create now i wr) wr w)))"
proof (cases "find (same_slot wr) (records_of w)")
  case None
  then have "book_of w (slot_of wr) = None" by (simp add: find_slot_book)
  with None show ?thesis using assms by (simp add: answers_def target_of_def upsert_with_def upsert_create_def row_slot_def slot_of_def)
next
  case (Some a)
  then have b: "book_of w (slot_of wr) = Some (strip_counters a)" by (rule find_slot_book)
  have "row_slot a = slot_of wr" using find_SomeD [OF Some] by (simp add: same_slot_iff)
  with b Some show ?thesis using assms by (auto simp: answers_def target_of_def upsert_with_def upsert_update_def bulk_update_def row_slot_def)
qed

lemma book_bulk:
  "\<forall>wr\<in>set wrs. wr_org wr = org \<and> wr_marked_at wr = Some now \<Longrightarrow>
     book_puts now org (map target_of wrs) (book_of w) (book_of (bulk_upsert now ids n wrs w))"
proof (induction wrs arbitrary: n w)
  case Nil
  then show ?case by (simp add: book_puts.finished)
next
  case (Cons wr wrs)
  let ?up = "upsert_with (bulk_update now wr) (upsert_create now (ids n) wr) wr w"
  have b: "book_of (snd ?up) = (book_of w)(bw_slot (target_of wr) \<mapsto> strip_counters (fst ?up))"
    unfolding target_of_def by (simp add: book_upsert)
  have "answers now org (target_of wr) (book_of w (bw_slot (target_of wr))) (strip_counters (fst ?up))"
    using upsert_answers [of "bulk_update now wr" now wr w "ids n"] Cons.prems by (simp add: target_of_def)
  moreover have "book_puts now org (map target_of wrs) (book_of (snd ?up)) (book_of (bulk_upsert now ids (Suc n) wrs (snd ?up)))"
    using Cons by simp
  ultimately show ?case unfolding b by (simp add: book_puts.put)
qed

lemma fst_upsert_slot: "row_slot (fst (upsert now i wr w)) = slot_of wr"
  by (auto simp: upsert_def upsert_with_def same_slot_iff split: option.splits dest: find_SomeD)

lemma book_single:
  assumes "upsert now i wr w = (a, w1)" "wr_org wr = org" "wr_marked_at wr = Some now"
  shows "book_puts now org [target_of wr] (book_of w) (book_of w1)"
proof -
  have b: "book_of w1 = (book_of w)(bw_slot (target_of wr) \<mapsto> strip_counters a)"
    using book_upsert_mark [of now i wr w] assms(1) by (simp add: target_of_def)
  have "answers now org (target_of wr) (book_of w (bw_slot (target_of wr))) (strip_counters a)"
    using upsert_answers [of "upsert_update now wr" now wr w i] assms by (simp add: upsert_def target_of_def)
  then show ?thesis unfolding b by (blast intro: book_puts.intros)
qed

lemma day_of_midnight: "to_utc_midnight s = Some t \<Longrightarrow> day_of s = t"
  by (simp add: day_of_def)

definition repeated_tap :: "att_request \<Rightarrow> world \<Rightarrow> bool" where
  "repeated_tap req w \<longleftrightarrow> (\<exists>a\<in>set (records_of w). targets req =
     [\<lparr>bw_slot = row_slot a, bw_status = at_status a, bw_marker = None\<rparr>])"

lemma mark_refines:
  assumes "mark_attendance cf e user org dto allow w = Inr (a, w')"
  shows "book_puts (en_now e) org [mark_target user dto] (book_of w) (book_of w')
    \<or> w' = w \<and> repeated_tap (Mark_request user dto allow) w"
  using assms
proof (cases rule: mark_cases)
  case (tap meal eff t)
  then have "a \<in> set (records_of w)" "row_slot a = (user, md_meal dto, t)" "at_status a = mark_status (md_status dto)"
    by (auto simp: dedup_hit_def row_slot_def split: if_splits option.splits dest: find_SomeD)
  moreover have "day_of (md_date dto) = t" using tap(1) by (auto elim!: admit_cases simp: day_of_midnight)
  ultimately have "repeated_tap (Mark_request user dto allow) w"
    unfolding repeated_tap_def by (intro bexI [of _ a]) (simp_all add: mark_target_def)
  then show ?thesis using tap(3) by simp
next
  case (put meal eff t)
  from put(3) obtain p w1 where
    up: "upsert (en_now e) (en_id e 0) (mark_write e user org dto w meal t p) w = (a, w1)"
    and w': "w' = reconcile_guests e org (ml_group meal) user (md_meal dto) t (mark_status (md_status dto)) user w1"
    by (rule record_mark_cases) (rule that; assumption)
  have t: "day_of (md_date dto) = t" using put(1) by (auto elim!: admit_cases simp: day_of_midnight)
  have "target_of (mark_write e user org dto w meal t p) = mark_target user dto"
    by (simp add: target_of_def mark_target_def mark_write_def slot_of_def t)
  with book_single [OF up, of org] show ?thesis by (simp add: w' mark_write_def)
qed

lemma bulk_targets:
  assumes "bulk_mark_attendance e user org entries w = Inr w'"
  obtains wrs where "w' = bulk_upsert (en_now e) (en_id e) 0 wrs w" "map target_of wrs = map (bulk_target user) entries"
    "\<forall>wr\<in>set wrs. wr_org wr = org \<and> wr_marked_at wr = Some (en_now e)"
proof -
  let ?meals = "filter (\<lambda>m. ml_id m \<in> set (set_union_order [] (map be_meal entries)) \<and> ml_org m = org) (w_meals w)"
  from assms obtain wrs where wrs: "mapE (bulk_entry_write e user org w ?meals) entries = Inr wrs"
    and w': "w' = bulk_upsert (en_now e) (en_id e) 0 wrs w"
    unfolding bulk_mark_attendance_def Let_def bindE_eq_Inr if_Inl_eq_Inr by auto
  have each: "target_of wr = bulk_target user x \<and> wr_org wr = org \<and> wr_marked_at wr = Some (en_now e)"
    if "bulk_entry_write e user org w ?meals x = Inr wr" for x wr
    using that by (auto simp: bulk_entry_write_def bindE_eq_Inr orErr_eq_Inr bulk_write_def target_of_def bulk_target_def
        slot_of_def day_of_midnight)
  from mapE_Inr [OF wrs] have l: "length wrs = length entries"
    and n: "\<And>k. k < length entries \<Longrightarrow> bulk_entry_write e user org w ?meals (entries ! k) = Inr (wrs ! k)" by auto
  have "map target_of wrs = map (bulk_target user) entries"
    using l each [OF n] by (intro nth_equalityI) simp_all
  moreover have "\<forall>wr\<in>set wrs. wr_org wr = org \<and> wr_marked_at wr = Some (en_now e)"
    using l each [OF n] by (auto simp: in_set_conv_nth)
  ultimately show thesis using that w' by blast
qed

text \<open>
  (C27) Attendance as a refinement: a mark, an admin's self-mark, a bulk mark or an applied consented
  change that is accepted is, in the book that maps (member, meal, day) to a record,
  exactly the writes the request names, one per named slot and in order, each putting a record with the
  requested status and marker, stamped with the time of the request and keeping the identity of the record it
  replaces; a repeated tap on a slot that already has the requested status changes nothing. Slots the
  request does not name keep their record.
\<close>

theorem attendance_refines_book:
  assumes "run_request cf e org req w = Inr w'"
  shows "(book_puts (en_now e) org (targets req) (book_of w) (book_of w') \<or> w' = w \<and> repeated_tap req w)
    \<and> (\<forall>s. s \<notin> bw_slot ` set (targets req) \<longrightarrow> book_of w' s = book_of w s)"
proof -
  have "book_puts (en_now e) org (targets req) (book_of w) (book_of w') \<or> w' = w \<and> repeated_tap req w"
  proof (cases req)
    case (Mark_request user dto allow)
    then obtain a where "mark_attendance cf e user org dto allow w = Inr (a, w')"
      using assms by (cases "mark_attendance cf e user org dto allow w") auto
    from mark_refines [OF this] show ?thesis by (simp add: Mark_request)
  next
    case (Self_override admin user dto c)
    then obtain a where "mark_attendance cf e admin org dto c w = Inr (a, w')"
      using assms by (cases "mark_attendance cf e admin org dto c w") (auto simp: admin_override_def split: if_splits)
    from mark_refines [OF this] show ?thesis by (simp add: Self_override repeated_tap_def)
  next
    case (Bulk_request user entries)
    then have "bulk_mark_attendance e user org entries w = Inr w'" using assms by simp
    then obtain wrs where "w' = bulk_upsert (en_now e) (en_id e) 0 wrs w" "map target_of wrs = map (bulk_target user) entries"
      "\<forall>wr\<in>set wrs. wr_org wr = org \<and> wr_marked_at wr = Some (en_now e)" by (rule bulk_targets)
    then show ?thesis using book_bulk [of wrs org "en_now e" w "en_id e" 0] by (simp add: Bulk_request)
  next
    case (Consented_request c)
    then obtain a where "apply_consented_change cf e org c w = Inr (a, w')"
      using assms by (cases "apply_consented_change cf e org c w") auto
    then obtain t p w1 where t: "to_utc_midnight (cc_date c) = Some t" and up: "upsert (en_now e) (en_id e 0)
         (consented_write e org c (Option.bind (find_meal w org (cc_meal c)) (meal_group w)) t p) w = (a, w1)"
      and w': "w' = reconcile_guests e org (cc_group c) (cc_user c) (cc_meal c) t (cc_status c) (cc_actor c) w1"
      by (rule consented_cases) (rule that; assumption)
    from book_single [OF up, of org] show ?thesis
      by (simp add: Consented_request w' consented_write_def target_of_def slot_of_def day_of_midnight [OF t])
  qed
  then show ?thesis using book_puts_elsewhere by blast
qed

section \<open>Finalized days\<close>

text \<open>
  Records and guests belong to the organisation and group of their meal, and a slot has one
  record; every write keeps both.
\<close>

definition belongs :: "meal_row list \<Rightarrow> ident \<Rightarrow> ident \<Rightarrow> ident \<Rightarrow> bool" where
  "belongs meals meal org gid \<longleftrightarrow> (\<forall>m\<in>set meals. ml_id m = meal \<longrightarrow> ml_org m = org \<and> ml_group m = gid)"

definition att_inv :: "world \<Rightarrow> bool" where
  "att_inv w \<longleftrightarrow> distinct (map ml_id (w_meals w)) \<and> distinct (map row_slot (records_of w))
     \<and> (\<forall>a\<in>set (records_of w). belongs (w_meals w) (at_meal a) (at_org a) (at_group a))
     \<and> (\<forall>g\<in>set (guests_of w). belongs (w_meals w) (hg_meal g) (hg_org g) (hg_group g))"

text \<open>What a finalized bill is made of.\<close>

definition locked_records :: "world \<Rightarrow> attendance_row list" where
  "locked_records w =
     map strip_counters (filter (\<lambda>a. period_locked w (at_org a) (at_group a) (at_date a)) (records_of w))"

definition locked_guests :: "world \<Rightarrow> guest_row list" where
  "locked_guests w = filter (\<lambda>g. period_locked w (hg_org g) (hg_group g) (hg_date g)) (guests_of w)"

definition final_view :: "world \<Rightarrow> period_row list \<times> meal_row list \<times> attendance_row list \<times> guest_row list" where
  "final_view w = (db_periods (w_db w), w_meals w, locked_records w, locked_guests w)"

text \<open>Parts of the world that the writes do not touch.\<close>

lemma frame_simps [simp]:
  "db_periods (w_db (set_records f w)) = db_periods (w_db w)" "w_meals (set_records f w) = w_meals w"
  "db_periods (w_db (replace_selections i wr w)) = db_periods (w_db w)" "w_meals (replace_selections i wr w) = w_meals w"
  "db_periods (w_db (set_guests h w)) = db_periods (w_db w)" "w_meals (set_guests h w) = w_meals w"
  "db_periods (w_db (recompute_host_counters org host meal t w)) = db_periods (w_db w)"
  "w_meals (recompute_host_counters org host meal t w) = w_meals w"
  by (simp_all add: set_records_def replace_selections_def set_guests_def recompute_host_counters_def split: option.splits)

lemma frame_upsert [simp]:
  "db_periods (w_db (snd (upsert_with f a wr w))) = db_periods (w_db w)" "w_meals (snd (upsert_with f a wr w)) = w_meals w"
  "guests_of (snd (upsert_with f a wr w)) = guests_of w"
  by (simp_all add: upsert_with_def split: option.splits)

lemma period_locked_cong: "db_periods (w_db v) = db_periods (w_db w) \<Longrightarrow> period_locked v = period_locked w"
  by (simp add: fun_eq_iff period_locked_def is_date_finalized_def)

lemma strip_keys [simp]:
  "at_org (strip_counters a) = at_org a" "at_group (strip_counters a) = at_group a"
  "at_date (strip_counters a) = at_date a" "at_meal (strip_counters a) = at_meal a"
  by (simp_all add: strip_counters_def)

text \<open>A write into an open slot of its meal's group leaves the finalized view and the invariant.\<close>

lemma row_slotD: "row_slot a = slot_of wr \<Longrightarrow> at_user a = wr_user wr \<and> at_meal a = wr_meal wr \<and> at_date a = wr_date wr"
  by (simp add: row_slot_def slot_of_def)

lemma filter_map_out:
  assumes "\<And>x. x \<in> set xs \<Longrightarrow> S x \<Longrightarrow> \<not> P x \<and> \<not> P (f x)"
  shows "filter P (map (\<lambda>x. if S x then f x else x) xs) = filter P xs"
  using assms by (induction xs) auto

lemma upsert_with_final:
  assumes inv: "att_inv w" and m: "m \<in> set (w_meals w)" "ml_id m = wr_meal wr" "ml_org m = wr_org wr" "ml_group m = wr_group wr"
    and free: "\<not> period_locked w (wr_org wr) (wr_group wr) (wr_date wr)"
    and f: "\<And>a. row_slot (f a) = row_slot a" "\<And>a. at_org (f a) = at_org a" "\<And>a. at_group (f a) = at_group a"
    and fresh: "row_slot a0 = slot_of wr" "at_org a0 = wr_org wr" "at_group a0 = wr_group wr"
  shows "final_view (snd (upsert_with f a0 wr w)) = final_view w \<and> att_inv (snd (upsert_with f a0 wr w))"
proof -
  let ?v = "snd (upsert_with f a0 wr w)"
  have lock: "period_locked ?v = period_locked w" by (rule period_locked_cong) simp
  have here: "at_org a = wr_org wr \<and> at_group a = wr_group wr \<and> at_date a = wr_date wr"
    if "a \<in> set (records_of w)" "same_slot wr a" for a
    using that inv m row_slotD [of a wr] by (auto simp: att_inv_def belongs_def same_slot_iff)
  have mine: "belongs (w_meals w) (wr_meal wr) (wr_org wr) (wr_group wr)"
    using m inv by (auto simp: belongs_def att_inv_def dest: distinct_key_eq)
  have fd: "at_date (f a) = at_date a" "at_meal (f a) = at_meal a" for a
    using f(1) [of a] by (auto simp: row_slot_def)
  show ?thesis
  proof (cases "find (same_slot wr) (records_of w)")
    case None
    then have recs: "records_of ?v = records_of w @ [a0]" by (simp add: upsert_with_def)
    have a0: "at_date a0 = wr_date wr" "at_meal a0 = wr_meal wr" using row_slotD [OF fresh(1)] by auto
    have new: "row_slot a0 \<notin> row_slot ` set (records_of w)"
      using None fresh(1) by (auto simp: find_None_iff_none same_slot_iff)
    have "final_view ?v = final_view w"
      using free fresh a0 by (simp add: final_view_def locked_records_def locked_guests_def lock recs)
    moreover have "att_inv ?v"
      using inv new mine fresh a0 by (auto simp: att_inv_def recs)
    ultimately show ?thesis ..
  next
    case (Some b)
    then have recs: "records_of ?v = map (\<lambda>x. if same_slot wr x then f x else x) (records_of w)"
      by (simp add: upsert_with_def)
    have "filter (\<lambda>a. period_locked w (at_org a) (at_group a) (at_date a)) (records_of ?v)
        = filter (\<lambda>a. period_locked w (at_org a) (at_group a) (at_date a)) (records_of w)"
      unfolding recs using here free f fd by (intro filter_map_out) auto
    then have "final_view ?v = final_view w"
      by (simp add: final_view_def locked_records_def locked_guests_def lock)
    moreover have slots: "map row_slot (records_of ?v) = map row_slot (records_of w)"
      by (simp add: recs f(1) if_distrib [of row_slot] o_def)
    have "att_inv ?v"
      unfolding att_inv_def slots using inv f fd by (auto simp: att_inv_def recs)
    ultimately show ?thesis ..
  qed
qed

lemma recompute_final:
  "att_inv w \<Longrightarrow> final_view (recompute_host_counters org host meal t w) = final_view w
     \<and> att_inv (recompute_host_counters org host meal t w)"
proof -
  assume inv: "att_inv w"
  let ?v = "recompute_host_counters org host meal t w"
  define f :: "attendance_row \<Rightarrow> attendance_row" where "f = (\<lambda>a. if at_org a = org \<and> at_user a = host \<and> at_meal a = meal \<and> at_date a = t
        then a\<lparr>at_guest_adults := confirmed_count w org host meal t True,
               at_guest_children := confirmed_count w org host meal t False\<rparr> else a)"
  have recs: "records_of ?v = map f (records_of w)" by (simp add: recompute_host_counters_def f_def)
  have f: "strip_counters (f a) = strip_counters a" "row_slot (f a) = row_slot a" "at_org (f a) = at_org a"
    "at_group (f a) = at_group a" "at_date (f a) = at_date a" "at_meal (f a) = at_meal a" for a
    by (simp_all add: f_def strip_counters_def row_slot_def)
  have "locked_records ?v = locked_records w"
    unfolding locked_records_def recs period_locked_cong [of ?v w, simplified]
    by (simp add: filter_map o_def f)
  moreover have "locked_guests ?v = locked_guests w"
    by (simp add: locked_guests_def period_locked_cong [of ?v w, simplified])
  moreover have "att_inv ?v" using inv by (simp add: att_inv_def recs f o_def)
  ultimately show ?thesis by (simp add: final_view_def)
qed

lemma reconcile_final:
  assumes inv: "att_inv w" and m: "m \<in> set (w_meals w)" "ml_id m = meal" "ml_org m = org" "ml_group m = gid"
    and free: "\<not> period_locked w org gid t"
  shows "final_view (reconcile_guests e org gid host meal t st actor w) = final_view w
    \<and> att_inv (reconcile_guests e org gid host meal t st actor w)"
proof -
  let ?S = "\<lambda>x. guest_of org host meal t x \<and> hg_status x = Booked"
  let ?f = "\<lambda>x. (cancelled_by e actor x)\<lparr>hg_auto_cancelled := True\<rparr>"
  let ?w1 = "set_guests (map (\<lambda>x. if ?S x then ?f x else x)) w"
  have keep: "hg_org (?f x) = hg_org x \<and> hg_group (?f x) = hg_group x \<and> hg_date (?f x) = hg_date x
      \<and> hg_meal (?f x) = hg_meal x" for x by (simp add: cancelled_by_def)
  have out: "\<not> period_locked w (hg_org x) (hg_group x) (hg_date x)" if "x \<in> set (guests_of w)" "?S x" for x
    using that inv m free by (auto simp: att_inv_def belongs_def guest_of_def)
  have lock: "period_locked ?w1 = period_locked w" by (rule period_locked_cong) simp
  have "locked_guests ?w1 = locked_guests w"
    unfolding locked_guests_def guests_set_guests lock using out keep by (intro filter_map_out) simp
  then have v1: "final_view ?w1 = final_view w"
    by (simp add: final_view_def locked_records_def lock)
  have i1: "att_inv ?w1" using inv keep by (auto simp: att_inv_def)
  have "reconcile_guests e org gid host meal t st actor w \<in> {w, recompute_host_counters org host meal t ?w1}"
    by (auto simp: reconcile_guests_def reconcile_on_host_change_def Let_def split: option.splits)
  then show ?thesis using inv v1 i1 recompute_final [OF i1] by auto
qed

definition keeps_final :: "world \<Rightarrow> world \<Rightarrow> bool" where
  "keeps_final w w' \<longleftrightarrow> final_view w' = final_view w \<and> att_inv w'"

text \<open>An upsert followed by the guest reconciliation of the same slot.\<close>

lemma upsert_reconcile_final:
  assumes inv: "att_inv w" and m: "m \<in> set (w_meals w)" "ml_id m = wr_meal wr" "ml_org m = wr_org wr" "ml_group m = wr_group wr"
    and free: "\<not> period_locked w (wr_org wr) (wr_group wr) (wr_date wr)"
    and up: "upsert now i wr w = (a, w1)"
  shows "keeps_final w (reconcile_guests e (wr_org wr) (wr_group wr) host (wr_meal wr) (wr_date wr) st actor w1)"
proof -
  have w1: "w1 = snd (upsert_with (upsert_update now wr) (upsert_create now i wr) wr w)"
    using up by (simp add: upsert_def)
  have "final_view w1 = final_view w \<and> att_inv w1"
    unfolding w1 by (rule upsert_with_final [OF inv m free]) (simp_all add: upsert_update_def upsert_create_def row_slot_def slot_of_def)
  moreover have "period_locked w1 = period_locked w" by (rule period_locked_cong) (simp add: w1)
  moreover have "w_meals w1 = w_meals w" by (simp add: w1)
  ultimately show ?thesis
    using reconcile_final [of w1 m "wr_meal wr" "wr_org wr" "wr_group wr" "wr_date wr" e host st actor] m free
    by (simp add: keeps_final_def)
qed

lemma keeps_final_trans: "keeps_final u v \<Longrightarrow> keeps_final v w \<Longrightarrow> keeps_final u w"
  by (simp add: keeps_final_def)

lemma final_view_frame: "final_view v = final_view w \<Longrightarrow> w_meals v = w_meals w \<and> period_locked v = period_locked w"
  using period_locked_cong [of v w] by (simp add: final_view_def)

lemma bulk_final:
  assumes "att_inv w"
    and "\<And>wr. wr \<in> set wrs \<Longrightarrow> \<not> period_locked w (wr_org wr) (wr_group wr) (wr_date wr)
       \<and> (\<exists>m\<in>set (w_meals w). ml_id m = wr_meal wr \<and> ml_org m = wr_org wr \<and> ml_group m = wr_group wr)"
  shows "keeps_final w (bulk_upsert now ids n wrs w)"
  using assms
proof (induction wrs arbitrary: n w)
  case Nil
  then show ?case by (simp add: keeps_final_def)
next
  case (Cons wr wrs)
  let ?v = "snd (upsert_with (bulk_update now wr) (upsert_create now (ids n) wr) wr w)"
  from Cons.prems(2) [of wr] obtain m where
    m: "m \<in> set (w_meals w)" "ml_id m = wr_meal wr" "ml_org m = wr_org wr" "ml_group m = wr_group wr"
    and free: "\<not> period_locked w (wr_org wr) (wr_group wr) (wr_date wr)" by auto
  have v: "final_view ?v = final_view w \<and> att_inv ?v"
    by (rule upsert_with_final [OF Cons.prems(1) m free])
      (simp_all add: bulk_update_def upsert_create_def row_slot_def slot_of_def)
  then have "keeps_final ?v (bulk_upsert now ids (Suc n) wrs ?v)"
    using Cons.prems(2) final_view_frame [of ?v w] by (intro Cons.IH) auto
  with v show ?case by (simp add: keeps_final_def)
qed

lemma find_mealD: "find_meal w org i = Some m \<Longrightarrow> m \<in> set (w_meals w) \<and> ml_id m = i \<and> ml_org m = org"
  by (auto simp: find_meal_def dest: find_SomeD)

lemma mark_final:
  assumes "mark_attendance cf e user org dto allow w = Inr (a, w')" "att_inv w"
  shows "keeps_final w w'"
  using assms(1)
proof (cases rule: mark_cases)
  case (tap meal eff t)
  then show ?thesis using assms(2) by (simp add: keeps_final_def)
next
  case (put meal eff t)
  from put(1) have m: "find_meal w org (md_meal dto) = Some meal" and free: "\<not> period_locked w org (ml_group meal) t"
    by (auto elim: admit_cases)
  from put(3) obtain p w1 where
    up: "upsert (en_now e) (en_id e 0) (mark_write e user org dto w meal t p) w = (a, w1)"
    and w': "w' = reconcile_guests e org (ml_group meal) user (md_meal dto) t (mark_status (md_status dto)) user w1"
    by (rule record_mark_cases) (rule that; assumption)
  let ?wr = "mark_write e user org dto w meal t p"
  have "keeps_final w (reconcile_guests e (wr_org ?wr) (wr_group ?wr) user (wr_meal ?wr) (wr_date ?wr)
      (mark_status (md_status dto)) user w1)"
    by (rule upsert_reconcile_final [OF assms(2) _ _ _ _ _ up, where m = meal])
      (use find_mealD [OF m] free in \<open>simp_all add: mark_write_def\<close>)
  then show ?thesis by (simp add: mark_write_def w')
qed

lemma consented_final:
  assumes "apply_consented_change cf e org c w = Inr (a, w')" "att_inv w"
    and g: "map_option ml_group (find_meal w org (cc_meal c)) = Some (cc_group c)"
  shows "keeps_final w w'"
proof -
  from assms(1) obtain t p w1 where free: "\<not> period_locked w org (cc_group c) t"
    and up: "upsert (en_now e) (en_id e 0)
       (consented_write e org c (Option.bind (find_meal w org (cc_meal c)) (meal_group w)) t p) w = (a, w1)"
    and w': "w' = reconcile_guests e org (cc_group c) (cc_user c) (cc_meal c) t (cc_status c) (cc_actor c) w1"
    by (rule consented_cases) (rule that; assumption)
  from g obtain m where m: "find_meal w org (cc_meal c) = Some m" "ml_group m = cc_group c" by auto
  let ?wr = "consented_write e org c (Option.bind (find_meal w org (cc_meal c)) (meal_group w)) t p"
  have "keeps_final w (reconcile_guests e (wr_org ?wr) (wr_group ?wr) (cc_user c) (wr_meal ?wr) (wr_date ?wr)
      (cc_status c) (cc_actor c) w1)"
    by (rule upsert_reconcile_final [OF assms(2) _ _ _ _ _ up, where m = m])
      (use find_mealD [OF m(1)] m(2) free in \<open>simp_all add: consented_write_def\<close>)
  then show ?thesis by (simp add: consented_write_def w')
qed

lemma att_step_final:
  assumes "att_step cf user w w'" "att_inv w"
  shows "keeps_final w w'"
  using assms(1)
proof (cases rule: att_step.cases)
  case (mark e org dto allow a)
  then show ?thesis using mark_final assms(2) by blast
next
  case (override e org who dto correction a)
  then have "mark_attendance cf e user org dto correction w = Inr (a, w')"
    by (auto simp: admin_override_def)
  then show ?thesis using assms(2) by (rule mark_final)
next
  case (bulk e org entries)
  from bulk(1) obtain wrs where w': "w' = bulk_upsert (en_now e) (en_id e) 0 wrs w"
    and free: "\<And>wr. wr \<in> set wrs \<Longrightarrow> \<not> period_locked w org (wr_group wr) (wr_date wr)"
    and wr: "\<And>wr. wr \<in> set wrs \<Longrightarrow> wr_user wr = user \<and> wr_org wr = org \<and> wr_selection wr = None
       \<and> (\<exists>m\<in>set (w_meals w). ml_id m = wr_meal wr \<and> ml_org m = org \<and> ml_group m = wr_group wr)"
    by (rule bulk_cases) (rule that; assumption)
  show ?thesis unfolding w' using free wr by (intro bulk_final [OF assms(2)]) auto
next
  case (consented e org c a)
  then show ?thesis using consented_final assms(2) by blast
qed

section \<open>Marking\<close>

text \<open>
  (C28) The gates of a mark: an accepted mark is by an active member of an unarchived group,
  for a meal that takes attendance, on the organisation's own current date, outside every
  finalized period and not on vacation for that meal; and unless it repeats a stored record,
  the published schedule of that day serves the meal where the group plans its meals, and the window
  that schedule resolves to is open or in grace, or closed for an admin's same-day self-correction.
\<close>

theorem mark_passes_gates:
  assumes "mark_attendance cf e user org dto allow w = Inr (a, w')"
  shows "\<exists>meal m eff t. find_meal w org (md_meal dto) = Some meal \<and> ml_attendance_enabled meal
    \<and> map_option gr_is_active (meal_group w meal) \<noteq> Some False
    \<and> find_membership w (ml_group meal) user = Some m \<and> gm_status m = MemberActive
    \<and> md_date dto = org_now e w meal \<and> to_utc_midnight (md_date dto) = Some t
    \<and> resolve_effective_window w (ml_id meal) (ml_group meal) org (md_date dto)
        (rm_window_open meal) (rm_window_close meal) (rm_price meal) = Inr eff
    \<and> \<not> period_locked w org (ml_group meal) t
    \<and> (mark_status (md_status dto) = OnVacation \<or> \<not> covered_by_vacation w org meal (md_date dto) t eff user m)
    \<and> (dedup_hit cf e w org user dto t = Some a \<and> w' = w
       \<or> (planner_active (meal_group w meal) \<longrightarrow> ef_scheduled eff)
         \<and> (ml_is_active meal \<or> planner_active (meal_group w meal))
         \<and> (get_window_state (en_time e (org_tz w (ml_org meal))) (ef_open eff) (ef_close eff)
              (nullish (Option.bind (meal_group w meal) gr_grace_minutes) 0) \<in> {Open, Grace}
            \<or> allow \<and> get_window_state (en_time e (org_tz w (ml_org meal))) (ef_open eff) (ef_close eff)
              (nullish (Option.bind (meal_group w meal) gr_grace_minutes) 0) = Closed))"
  using assms
proof (cases rule: mark_cases)
  case (tap meal eff t)
  from tap(1) obtain m where "find_meal w org (md_meal dto) = Some meal" "map_option gr_is_active (meal_group w meal) \<noteq> Some False"
    "ml_attendance_enabled meal" "find_membership w (ml_group meal) user = Some m" "gm_status m = MemberActive"
    "md_date dto = org_now e w meal" "to_utc_midnight (md_date dto) = Some t"
    "resolve_effective_window w (ml_id meal) (ml_group meal) org (md_date dto)
        (rm_window_open meal) (rm_window_close meal) (rm_price meal) = Inr eff"
    "mark_status (md_status dto) = OnVacation \<or> \<not> covered_by_vacation w org meal (md_date dto) t eff user m"
    "\<not> period_locked w org (ml_group meal) t"
    by (rule admit_cases) (rule that; assumption)
  then show ?thesis using tap(2,3) by (intro exI [of _ meal] exI [of _ m] exI [of _ eff] exI [of _ t]) simp
next
  case (put meal eff t)
  from put(1) obtain m where g: "find_meal w org (md_meal dto) = Some meal" "map_option gr_is_active (meal_group w meal) \<noteq> Some False"
    "ml_attendance_enabled meal" "find_membership w (ml_group meal) user = Some m" "gm_status m = MemberActive"
    "md_date dto = org_now e w meal" "to_utc_midnight (md_date dto) = Some t"
    "resolve_effective_window w (ml_id meal) (ml_group meal) org (md_date dto)
        (rm_window_open meal) (rm_window_close meal) (rm_price meal) = Inr eff"
    "mark_status (md_status dto) = OnVacation \<or> \<not> covered_by_vacation w org meal (md_date dto) t eff user m"
    "\<not> period_locked w org (ml_group meal) t"
    by (rule admit_cases) (rule that; assumption)
  from put(3) have s: "planner_active (meal_group w meal) \<longrightarrow> ef_scheduled eff" "ml_is_active meal \<or> planner_active (meal_group w meal)"
    and win: "window_gate e w meal eff allow \<noteq> Inl (Locked ''ATTENDANCE_WINDOW_CLOSED'')"
    by (auto elim: record_mark_cases)
  let ?ws = "get_window_state (en_time e (org_tz w (ml_org meal))) (ef_open eff) (ef_close eff)
              (nullish (Option.bind (meal_group w meal) gr_grace_minutes) 0)"
  have ws: "?ws \<in> {Open, Grace} \<or> allow \<and> ?ws = Closed"
  proof (cases "truthy (ef_open eff) \<and> truthy (ef_close eff)")
    case True
    have "get_window_state tm op cl (max 0 gr) = get_window_state tm op cl gr" for tm op cl gr
      by (simp add: get_window_state_def)
    with True win show ?thesis by (cases ?ws) (auto simp: window_gate_def Let_def split: if_splits)
  next
    case False
    then show ?thesis by (auto simp: get_window_state_def)
  qed
  show ?thesis
    by (intro exI [of _ meal] exI [of _ m] exI [of _ eff] exI [of _ t] conjI)
      (fact g s ws | (rule disjI2, intro conjI; fact s ws))+
qed

lemma upsert_values:
  assumes "upsert now i wr w = (a, w1)"
  shows "at_status a = wr_status wr \<and> at_price a = wr_price wr \<and> at_note a = wr_note wr \<and> row_slot a = slot_of wr
    \<and> (wr_bill_absent wr \<noteq> None \<longrightarrow> Some (at_bill_absent a) = wr_bill_absent wr)
    \<and> (wr_source wr \<noteq> None \<longrightarrow> Some (at_source a) = wr_source wr)
    \<and> (\<forall>snap rows. wr_selection wr = Some (snap, rows) \<longrightarrow> at_preferences a = (if snap = [] then None else Some snap))"
  using assms fst_upsert_slot [of now i wr w]
  by (auto simp: upsert_def upsert_with_def upsert_update_def upsert_create_def snapshot_json_def split: option.splits)

lemma book_after_mark:
  "upsert now i wr w = (a, w1) \<Longrightarrow> book_of (reconcile_guests e org gid host meal t st actor w1) (slot_of wr) = Some (strip_counters a)"
  using book_upsert_mark [of now i wr w] by simp

text \<open>
  The price of a mark: what is stored is the day's effective price, plus, for a Present
  mark on a meal with preference groups that day, the exact price of an accepted selection
  set in whole rupees, and without a base price the set alone where the group prices meals;
  the stored snapshot is that set, and the bill-absent policy is frozen with the record.
\<close>

lemma mark_priced_exactly:
  assumes "mark_attendance cf e user org dto allow w = Inr (a, w')" and "en_first_writer e"
  shows "\<exists>meal eff t. admit_mark e user org dto w = Inr (meal, eff, t)
    \<and> book_of w' (user, md_meal dto, t) = Some (strip_counters a)
    \<and> at_status a = mark_status (md_status dto) \<and> at_source a = Some ''self''
    \<and> at_bill_absent a = bill_absent_snapshot (meal_group w meal) (mark_status (md_status dto))
    \<and> (if at_status a = Present \<and> day_groups w (ml_id meal) org (meal_group w meal) eff \<noteq> []
       then \<exists>v. validate_selections (cf_quantity_cap cf) (day_groups w (ml_id meal) org (meal_group w meal) eff)
                  (effective_selections dto (record_at w user (md_meal dto) t)) = Inr v
              \<and> at_price a = price_with_delta (meal_group w meal) (ef_price eff) (vs_total_delta v)
              \<and> at_preferences a = (if vs_snapshot v = [] then None else Some (vs_snapshot v))
       else at_price a = ef_price eff)"
  using assms(1)
proof (cases rule: mark_cases)
  case (tap meal eff t)
  then show ?thesis using assms(2) by (simp add: dedup_hit_def)
next
  case (put meal eff t)
  let ?g = "meal_group w meal" and ?st = "mark_status (md_status dto)"
  let ?gs = "day_groups w (ml_id meal) org ?g eff"
  from put(3) obtain p w1 where
    p: "if ?st = Present then price_selection cf ?g ?gs eff (md_preference dto)
            (effective_selections dto (record_at w user (md_meal dto) t)) = Inr p
     else p = unpicked eff (md_preference dto)"
    and up: "upsert (en_now e) (en_id e 0) (mark_write e user org dto w meal t p) w = (a, w1)"
    and w': "w' = reconcile_guests e org (ml_group meal) user (md_meal dto) t ?st user w1"
    by (rule record_mark_cases) (rule that; assumption)
  note v = upsert_values [OF up]
  have vals: "at_status a = ?st" "at_price a = pr_price p" "at_source a = Some ''self''"
    "at_bill_absent a = bill_absent_snapshot ?g ?st"
    and sel: "\<And>snap rows. pr_selection p = Some (snap, rows) \<Longrightarrow> at_preferences a = (if snap = [] then None else Some snap)"
    using v by (auto simp: mark_write_def)
  have price: "if at_status a = Present \<and> ?gs \<noteq> []
       then \<exists>v. validate_selections (cf_quantity_cap cf) ?gs
                  (effective_selections dto (record_at w user (md_meal dto) t)) = Inr v
              \<and> at_price a = price_with_delta ?g (ef_price eff) (vs_total_delta v)
              \<and> at_preferences a = (if vs_snapshot v = [] then None else Some (vs_snapshot v))
       else at_price a = ef_price eff"
  proof (cases "at_status a = Present \<and> ?gs \<noteq> []")
    case True
    then have "price_selection cf ?g ?gs eff (md_preference dto)
            (effective_selections dto (record_at w user (md_meal dto) t)) = Inr p" using p vals(1) by simp
    with True obtain x where "validate_selections (cf_quantity_cap cf) ?gs
            (effective_selections dto (record_at w user (md_meal dto) t)) = Inr x"
      "pr_price p = price_with_delta ?g (ef_price eff) (vs_total_delta x)" "pr_selection p = Some (vs_snapshot x, vs_rows x)"
      by (auto simp: price_selection_def bindE_eq_Inr)
    then show ?thesis using True vals(2) sel by simp
  next
    case False
    then have "pr_price p = ef_price eff"
      using p vals(1) by (auto simp: price_selection_def unpicked_def split: if_splits)
    then show ?thesis by (simp only: False if_False vals(2))
  qed
  have book: "book_of w' (user, md_meal dto, t) = Some (strip_counters a)"
    using book_after_mark [OF up] by (simp add: w' slot_of_def mark_write_def)
  show ?thesis
    by (intro exI [of _ meal] exI [of _ eff] exI [of _ t] conjI) (fact put(1) book vals price)+
qed

text \<open>
  No member input stores a Skip or a pending record: a mark through the service stores
  Present, Absent or, where the admin self-mark allows it, On vacation.
\<close>

lemma mark_stores_member_status:
  assumes "mark_attendance cf e user org dto allow w = Inr (a, w')" and "md_status dto \<noteq> Some Pending"
  shows "at_status a \<in> {Present, Absent, OnVacation}"
proof -
  have "mark_status (md_status dto) \<in> {Present, Absent, OnVacation}"
    using assms(2) by (cases "md_status dto"; cases "the (md_status dto)") (auto simp: mark_status_def)
  moreover have "at_status a = mark_status (md_status dto)"
    using assms(1)
  proof (cases rule: mark_cases)
    case (tap meal eff t)
    then show ?thesis by (auto simp: dedup_hit_def split: if_splits option.splits)
  next
    case (put meal eff t)
    from put(3) obtain p w1 where
      "upsert (en_now e) (en_id e 0) (mark_write e user org dto w meal t p) w = (a, w1)"
      by (rule record_mark_cases) (rule that; assumption)
    from upsert_values [OF this] show ?thesis by (simp add: mark_write_def)
  qed
  ultimately show ?thesis by simp
qed

text \<open>
  A double tap is one mark: repeating a mark with the same status while the dedup key
  lives changes nothing and answers with the record of the first, whatever else the second
  request carries.
\<close>

lemma double_tap_idempotent:
  assumes "mark_attendance cf e user org dto allow w = Inr (a, w')" and "att_inv w"
    and "admit_mark e2 user org dto2 w' = Inr x" and "0 < cf_dedup_seconds cf" and "\<not> en_first_writer e2"
    and "md_meal dto2 = md_meal dto" and "md_date dto2 = md_date dto"
    and "mark_status (md_status dto2) = mark_status (md_status dto)"
  shows "\<exists>b. mark_attendance cf e2 user org dto2 allow2 w' = Inr (b, w') \<and> strip_counters b = strip_counters a"
proof -
  obtain meal2 t2 and eff2 :: effective where x: "x = (meal2, eff2, t2)" by (cases x) auto
  from assms(3) have t2: "to_utc_midnight (md_date dto2) = Some t2" unfolding x by (auto elim: admit_cases)
  have inv': "att_inv w'" using mark_final [OF assms(1,2)] by (simp add: keeps_final_def)
  have "\<exists>t. to_utc_midnight (md_date dto) = Some t \<and> at_status a = mark_status (md_status dto)
      \<and> (\<exists>b. find (\<lambda>a. row_slot a = (user, md_meal dto, t)) (records_of w') = Some b \<and> strip_counters b = strip_counters a)
      \<and> (\<exists>m\<in>set (w_meals w'). ml_id m = md_meal dto \<and> ml_org m = org)"
    using assms(1)
  proof (cases rule: mark_cases)
    case (tap meal eff t)
    then have hit: "find (\<lambda>a. at_org a = org \<and> at_user a = user \<and> at_meal a = md_meal dto \<and> at_date a = t) (records_of w) = Some a"
      "at_status a = mark_status (md_status dto)" by (auto simp: dedup_hit_def split: if_splits option.splits)
    from find_SomeD [OF hit(1)] have a: "a \<in> set (records_of w)" "row_slot a = (user, md_meal dto, t)"
      by (auto simp: row_slot_def)
    obtain b where b: "find (\<lambda>a. row_slot a = (user, md_meal dto, t)) (records_of w) = Some b"
      using a by (cases "find (\<lambda>a. row_slot a = (user, md_meal dto, t)) (records_of w)") (auto simp: find_None_iff_none)
    then have "b = a" using find_SomeD [OF b] a assms(2) distinct_key_eq [of row_slot "records_of w" b a]
      by (auto simp: att_inv_def)
    moreover from tap(1) have "to_utc_midnight (md_date dto) = Some t" "find_meal w org (md_meal dto) = Some meal"
      by (auto elim: admit_cases)
    ultimately show ?thesis using b hit(2) tap(3) find_mealD by blast
  next
    case (put meal eff t)
    from put(1) have d: "to_utc_midnight (md_date dto) = Some t" and m: "find_meal w org (md_meal dto) = Some meal"
      by (auto elim: admit_cases)
    from put(3) obtain p w1 where up: "upsert (en_now e) (en_id e 0) (mark_write e user org dto w meal t p) w = (a, w1)"
      and w': "w' = reconcile_guests e org (ml_group meal) user (md_meal dto) t (mark_status (md_status dto)) user w1"
      by (rule record_mark_cases) (rule that; assumption)
    have "book_of w' (user, md_meal dto, t) = Some (strip_counters a)"
      using book_after_mark [OF up] by (simp add: w' slot_of_def mark_write_def)
    moreover have "w_meals w' = w_meals w"
      using mark_final [OF assms(1,2)] final_view_frame [of w' w] by (simp add: keeps_final_def)
    ultimately show ?thesis
      using d upsert_values [OF up] find_mealD [OF m] by (auto simp: book_find mark_write_def)
  qed
  then obtain b m where st: "at_status a = mark_status (md_status dto)"
    and b: "find (\<lambda>a. row_slot a = (user, md_meal dto, t2)) (records_of w') = Some b" "strip_counters b = strip_counters a"
    and m: "m \<in> set (w_meals w')" "ml_id m = md_meal dto" "ml_org m = org"
    using t2 assms(7) by auto
  from find_SomeD [OF b(1)] have bin: "b \<in> set (records_of w')" "row_slot b = (user, md_meal dto, t2)" by auto
  then have "at_org b = org" using inv' m by (auto simp: att_inv_def belongs_def row_slot_def)
  have "find (\<lambda>a. at_org a = org \<and> at_user a = user \<and> at_meal a = md_meal dto \<and> at_date a = t2) (records_of w')
      = find (\<lambda>a. row_slot a = (user, md_meal dto, t2)) (records_of w')"
    using inv' m by (intro find_cong_pred) (auto simp: row_slot_def att_inv_def belongs_def)
  moreover have "at_status b = at_status a" using arg_cong [OF b(2), of at_status] by (simp add: strip_counters_def)
  ultimately have "dedup_hit cf e2 w' org user dto2 t2 = Some b"
    using assms(4-6,8) b(1) st by (simp add: dedup_hit_def)
  then show ?thesis using assms(3) b(2) by (simp add: mark_attendance_def x)
qed

section \<open>Snapshot and child rows\<close>

definition rows_of_record :: "world \<Rightarrow> ident \<Rightarrow> selection_row list" where
  "rows_of_record w i = map snd (filter (\<lambda>p. fst p = i) (w_selections w))"

definition selections_agree :: "world \<Rightarrow> bool" where
  "selections_agree w \<longleftrightarrow> (\<forall>a\<in>set (records_of w). rows_of_record w (at_id a) = nullish (at_preferences a) [])
     \<and> (\<forall>p\<in>set (w_selections w). fst p \<in> at_id ` set (records_of w))"

definition sel_inv :: "world \<Rightarrow> bool" where
  "sel_inv w \<longleftrightarrow> att_inv w \<and> row_ids w \<and> selections_agree w"

text \<open>A write whose snapshot and rows are the same list.\<close>

definition one_list :: "att_write \<Rightarrow> bool" where
  "one_list wr \<longleftrightarrow> (\<forall>snap rows. wr_selection wr = Some (snap, rows) \<longrightarrow> snap = rows)"

lemma selections_set_records [simp]: "w_selections (set_records f w) = w_selections w"
  by (simp add: set_records_def)

lemma rows_replace:
  "rows_of_record (replace_selections i wr w) j =
     (case wr_selection wr of None \<Rightarrow> rows_of_record w j | Some (_, rows) \<Rightarrow> if j = i then rows else rows_of_record w j)"
  by (cases "j = i") (auto simp: rows_of_record_def replace_selections_def filter_map o_def filter_filter
      intro: arg_cong [of _ _ "map snd"] filter_cong split: option.splits)

lemma rows_set_records [simp]: "rows_of_record (set_records f w) i = rows_of_record w i"
  by (simp add: rows_of_record_def)

lemma fst_replace:
  "fst ` set (w_selections (replace_selections i wr w)) \<subseteq> insert i (fst ` set (w_selections w))"
  by (auto simp: replace_selections_def split: option.splits)

lemma upsert_with_agree:
  assumes inv: "att_inv w" "row_ids w" "selections_agree w" and one: "one_list wr"
    and f: "\<And>a. at_id (f a) = at_id a" "\<And>a. at_preferences (f a) = snapshot_json wr (at_preferences a)"
    and fresh: "at_preferences a0 = snapshot_json wr None"
    and ids: "row_ids (snd (upsert_with f a0 wr w))"
  shows "selections_agree (snd (upsert_with f a0 wr w))"
proof -
  let ?v = "snd (upsert_with f a0 wr w)"
  have js: "(case wr_selection wr of None \<Rightarrow> nullish old [] | Some (_, rows) \<Rightarrow> rows) = nullish (snapshot_json wr old) []" for old
    using one by (auto simp: snapshot_json_def one_list_def split: option.splits)
  show ?thesis
  proof (cases "find (same_slot wr) (records_of w)")
    case None
    then have v: "?v = replace_selections (at_id a0) wr (set_records (\<lambda>rs. rs @ [a0]) w)" by (simp add: upsert_with_def)
    have new: "at_id a0 \<notin> at_id ` set (records_of w)" using ids by (auto simp: v row_ids_def)
    then have none: "rows_of_record w (at_id a0) = []"
      using inv(3) by (auto simp: selections_agree_def rows_of_record_def filter_empty_conv)
    have "rows_of_record ?v (at_id a) = nullish (at_preferences a) []" if "a \<in> set (records_of ?v)" for a
    proof (cases "a = a0")
      case True
      then show ?thesis using js [of None] none by (auto simp: v rows_replace fresh split: option.splits)
    next
      case False
      then have a: "a \<in> set (records_of w)" using that by (simp add: v)
      then have "at_id a \<noteq> at_id a0" using new by (metis imageI)
      with a inv(3) show ?thesis by (simp add: v rows_replace selections_agree_def split: option.splits)
    qed
    moreover have "fst p \<in> at_id ` set (records_of ?v)" if "p \<in> set (w_selections ?v)" for p
    proof -
      have "fst p \<in> insert (at_id a0) (fst ` set (w_selections w))"
        using subsetD [OF fst_replace [of "at_id a0" wr "set_records (\<lambda>rs. rs @ [a0]) w"], of "fst p"] that by (simp add: v)
      then show ?thesis using inv(3) by (auto simp: v selections_agree_def)
    qed
    ultimately show ?thesis by (simp add: selections_agree_def)
  next
    case (Some b)
    let ?h = "\<lambda>x. if same_slot wr x then f x else x"
    have v: "?v = replace_selections (at_id b) wr (set_records (map ?h) w)" using Some f(1) by (simp add: upsert_with_def)
    from find_SomeD [OF Some] have b: "b \<in> set (records_of w)" "same_slot wr b" by auto
    have only: "x = b" if "x \<in> set (records_of w)" "same_slot wr x" for x
      using distinct_key_eq [of row_slot "records_of w" x b] inv(1) that b by (simp add: att_inv_def same_slot_iff)
    have each: "rows_of_record ?v (at_id (?h x)) = nullish (at_preferences (?h x)) []" if x: "x \<in> set (records_of w)" for x
    proof (cases "x = b")
      case True
      have "rows_of_record w (at_id b) = nullish (at_preferences b) []"
        using inv(3) b(1) by (simp add: selections_agree_def)
      then show ?thesis using True b(2) js [of "at_preferences b"] f
        by (auto simp: v rows_replace split: option.splits)
    next
      case False
      then have "\<not> same_slot wr x" "at_id x \<noteq> at_id b"
        using only [OF x] distinct_key_eq [of at_id "records_of w" x b] inv(2) x b(1) by (auto simp: row_ids_def)
      then show ?thesis using inv(3) x by (simp add: v rows_replace selections_agree_def split: option.splits)
    qed
    have "rows_of_record ?v (at_id a) = nullish (at_preferences a) []" if "a \<in> set (records_of ?v)" for a
    proof -
      from that obtain x where x: "x \<in> set (records_of w)" "a = ?h x"
        unfolding v records_replace records_set_records set_map by blast
      show ?thesis unfolding x(2) by (rule each [OF x(1)])
    qed
    moreover have "fst p \<in> at_id ` set (records_of ?v)" if "p \<in> set (w_selections ?v)" for p
    proof -
      have "fst p \<in> insert (at_id b) (fst ` set (w_selections w))"
        using subsetD [OF fst_replace [of "at_id b" wr "set_records (map ?h) w"], of "fst p"] that by (simp add: v)
      then have "fst p \<in> at_id ` set (records_of w)" using b(1) inv(3) by (auto simp: selections_agree_def)
      moreover have "map at_id (records_of ?v) = map at_id (records_of w)"
        by (simp add: v f(1) if_distrib [of at_id] o_def)
      then have "at_id ` set (records_of ?v) = at_id ` set (records_of w)" by (metis set_map)
      ultimately show ?thesis by simp
    qed
    ultimately show ?thesis unfolding selections_agree_def by blast
  qed
qed

lemma selections_guest_ops [simp]:
  "w_selections (recompute_host_counters org host meal t w) = w_selections w"
  "w_selections (set_guests g w) = w_selections w"
  by (simp_all add: recompute_host_counters_def set_guests_def)

lemma agree_cong:
  assumes "w_selections v = w_selections w"
    and "map (\<lambda>a. (at_id a, at_preferences a)) (records_of v) = map (\<lambda>a. (at_id a, at_preferences a)) (records_of w)"
  shows "selections_agree v = selections_agree w"
proof -
  have "selections_agree u \<longleftrightarrow>
      (\<forall>(i, ps)\<in>set (map (\<lambda>a. (at_id a, at_preferences a)) (records_of u)). rows_of_record u i = nullish ps [])
      \<and> (\<forall>p\<in>set (w_selections u). fst p \<in> fst ` set (map (\<lambda>a. (at_id a, at_preferences a)) (records_of u)))" for u
    by (simp add: selections_agree_def image_image)
  then show ?thesis using assms by (simp only: rows_of_record_def)
qed

lemma agree_recompute [simp]: "selections_agree (recompute_host_counters org host meal t w) = selections_agree w"
  by (rule agree_cong) (auto simp: recompute_host_counters_def)

lemma agree_set_guests [simp]: "selections_agree (set_guests g w) = selections_agree w"
  by (simp add: selections_agree_def rows_of_record_def)

lemma agree_reconcile [simp]: "selections_agree (reconcile_guests e org gid host meal t st actor w) = selections_agree w"
  by (simp add: reconcile_guests_def reconcile_on_host_change_def Let_def split: option.splits)

lemma ids_recompute: "map at_id (records_of (recompute_host_counters org host meal t w)) = map at_id (records_of w)"
  by (auto simp: recompute_host_counters_def)

lemma ids_reconcile: "map at_id (records_of (reconcile_guests e org gid host meal t st actor w)) = map at_id (records_of w)"
  by (simp add: reconcile_guests_def reconcile_on_host_change_def Let_def ids_recompute split: option.splits)

lemma upsert_agree:
  assumes "sel_inv w" "upsert now i wr w = (a, w1)" "one_list wr" "row_ids w1"
  shows "selections_agree w1"
  using upsert_with_agree [of w wr "upsert_update now wr" "upsert_create now i wr"] assms
  by (simp add: sel_inv_def upsert_def upsert_update_def upsert_create_def)

lemma snapshot_eq_rows: "validate_selections cap gs sels = Inr v \<Longrightarrow> vs_snapshot v = vs_rows v"
  by (metis validate_accepted)

lemma price_one_list:
  "price_selection cf g gs eff pref sels = Inr p \<Longrightarrow> pr_selection p = Some (snap, rows) \<Longrightarrow> snap = rows"
  by (auto simp: price_selection_def unpicked_def bindE_eq_Inr snapshot_eq_rows split: if_splits)

lemma mark_agree:
  assumes "mark_attendance cf e user org dto allow w = Inr (a, w')" "sel_inv w" "row_ids w'"
  shows "selections_agree w'"
  using assms(1)
proof (cases rule: mark_cases)
  case (tap meal eff t)
  then show ?thesis using assms(2) by (simp add: sel_inv_def)
next
  case (put meal eff t)
  from put(3) obtain p w1 where
    p: "if mark_status (md_status dto) = Present
     then price_selection cf (meal_group w meal) (day_groups w (ml_id meal) org (meal_group w meal) eff) eff
            (md_preference dto) (effective_selections dto (record_at w user (md_meal dto) t)) = Inr p
     else p = unpicked eff (md_preference dto)"
    and up: "upsert (en_now e) (en_id e 0) (mark_write e user org dto w meal t p) w = (a, w1)"
    and w': "w' = reconcile_guests e org (ml_group meal) user (md_meal dto) t (mark_status (md_status dto)) user w1"
    by (rule record_mark_cases) (rule that; assumption)
  have "one_list (mark_write e user org dto w meal t p)"
    using p price_one_list by (auto simp: one_list_def mark_write_def unpicked_def split: if_splits)
  moreover have "row_ids w1" using assms(3) by (simp add: w' row_ids_def ids_reconcile)
  ultimately show ?thesis using upsert_agree [OF assms(2) up] by (simp add: w')
qed

lemma ids_upsert_with:
  assumes "\<And>a. at_id (f a) = at_id a"
  shows "\<exists>ys. map at_id (records_of (snd (upsert_with f a0 wr w))) = map at_id (records_of w) @ ys"
proof (cases "find (same_slot wr) (records_of w)")
  case (Some a)
  then have "map at_id (records_of (snd (upsert_with f a0 wr w))) = map at_id (records_of w)"
    by (simp add: upsert_with_def assms if_distrib [of at_id] o_def)
  then show ?thesis by simp
qed (simp add: upsert_with_def)

lemma ids_bulk: "\<exists>ys. map at_id (records_of (bulk_upsert now ids n wrs w)) = map at_id (records_of w) @ ys"
proof (induction wrs arbitrary: n w)
  case (Cons wr wrs)
  let ?v = "snd (upsert_with (bulk_update now wr) (upsert_create now (ids n) wr) wr w)"
  obtain ys where "map at_id (records_of ?v) = map at_id (records_of w) @ ys"
    using ids_upsert_with [of "bulk_update now wr" "upsert_create now (ids n) wr" wr w]
    by (auto simp: bulk_update_def)
  with Cons.IH [of "Suc n" ?v] show ?case by auto
qed simp

lemma bulk_agree:
  assumes "att_inv w" "selections_agree w" "row_ids (bulk_upsert now ids n wrs w)"
    and "\<And>wr. wr \<in> set wrs \<Longrightarrow> wr_selection wr = None \<and> \<not> period_locked w (wr_org wr) (wr_group wr) (wr_date wr)
       \<and> (\<exists>m\<in>set (w_meals w). ml_id m = wr_meal wr \<and> ml_org m = wr_org wr \<and> ml_group m = wr_group wr)"
  shows "selections_agree (bulk_upsert now ids n wrs w)"
  using assms
proof (induction wrs arbitrary: n w)
  case Nil
  then show ?case by simp
next
  case (Cons wr wrs)
  let ?v = "snd (upsert_with (bulk_update now wr) (upsert_create now (ids n) wr) wr w)"
  from Cons.prems(4) [of wr] obtain m where
    m: "m \<in> set (w_meals w)" "ml_id m = wr_meal wr" "ml_org m = wr_org wr" "ml_group m = wr_group wr"
    and free: "\<not> period_locked w (wr_org wr) (wr_group wr) (wr_date wr)" and sel: "wr_selection wr = None" by auto
  have v: "final_view ?v = final_view w \<and> att_inv ?v"
    by (rule upsert_with_final [OF Cons.prems(1) m free])
      (simp_all add: bulk_update_def upsert_create_def row_slot_def slot_of_def)
  have "\<exists>ys. map at_id (records_of (bulk_upsert now ids (Suc n) wrs ?v)) = map at_id (records_of ?v) @ ys"
    by (rule ids_bulk)
  then have idv: "row_ids ?v" using Cons.prems(3) by (auto simp: row_ids_def)
  have "\<exists>ys. map at_id (records_of ?v) = map at_id (records_of w) @ ys"
    by (rule ids_upsert_with) (simp add: bulk_update_def)
  then have "row_ids w" using idv by (auto simp: row_ids_def)
  then have "selections_agree ?v"
    using upsert_with_agree [OF Cons.prems(1) _ Cons.prems(2) _ _ _ _ idv] sel
    by (simp add: one_list_def bulk_update_def upsert_create_def snapshot_json_def)
  with v Cons.prems(3,4) final_view_frame [of ?v w] show ?case by (auto intro!: Cons.IH)
qed

lemma att_step_agree:
  assumes "att_step cf user w w'" "sel_inv w"
  shows "sel_inv w'"
proof -
  have ids: "row_ids w'" using assms(1) by (cases rule: att_step.cases) auto
  moreover have "att_inv w'" using att_step_final [OF assms(1)] assms(2) by (simp add: keeps_final_def sel_inv_def)
  moreover have "selections_agree w'"
    using assms(1)
  proof (cases rule: att_step.cases)
    case (mark e org dto allow a)
    then show ?thesis using mark_agree assms(2) ids by blast
  next
    case (override e org who dto correction a)
    then have "mark_attendance cf e user org dto correction w = Inr (a, w')"
      by (auto simp: admin_override_def)
    then show ?thesis using assms(2) ids by (rule mark_agree)
  next
    case (bulk e org entries)
    from bulk(1) obtain wrs where w': "w' = bulk_upsert (en_now e) (en_id e) 0 wrs w"
      and free: "\<And>wr. wr \<in> set wrs \<Longrightarrow> \<not> period_locked w org (wr_group wr) (wr_date wr)"
      and wr: "\<And>wr. wr \<in> set wrs \<Longrightarrow> wr_user wr = user \<and> wr_org wr = org \<and> wr_selection wr = None
         \<and> (\<exists>m\<in>set (w_meals w). ml_id m = wr_meal wr \<and> ml_org m = org \<and> ml_group m = wr_group wr)"
      by (rule bulk_cases) (rule that; assumption)
    show ?thesis using assms(2) ids free wr unfolding w' by (intro bulk_agree) (auto simp: sel_inv_def)
  next
    case (consented e org c a)
    from consented(2) obtain t p w1 and eff :: effective where
      p: "if cc_status c = Present \<and> nullish (cc_selections c) [] \<noteq> []
       then price_selection cf (Option.bind (find_meal w org (cc_meal c)) (meal_group w))
              (day_groups w (cc_meal c) org (Option.bind (find_meal w org (cc_meal c)) (meal_group w)) eff) eff
              (cc_preference c) (nullish (cc_selections c) []) = Inr p
       else p = unpicked eff (cc_preference c)"
      and up: "upsert (en_now e) (en_id e 0)
         (consented_write e org c (Option.bind (find_meal w org (cc_meal c)) (meal_group w)) t p) w = (a, w1)"
      and w': "w' = reconcile_guests e org (cc_group c) (cc_user c) (cc_meal c) t (cc_status c) (cc_actor c) w1"
      by (rule consented_cases) (rule that; assumption)
    have "one_list (consented_write e org c (Option.bind (find_meal w org (cc_meal c)) (meal_group w)) t p)"
      using p price_one_list by (auto simp: one_list_def consented_write_def unpicked_def split: if_splits)
    moreover have "row_ids w1" using ids by (simp add: w' row_ids_def ids_reconcile)
    ultimately show ?thesis using upsert_agree [OF assms(2) up] by (simp add: w')
  qed
  ultimately show ?thesis by (simp add: sel_inv_def)
qed

interpretation selection_rows: invariant_steps "\<lambda>w w'. \<exists>user. att_step cf user w w'" sel_inv for cf
  by standard (auto dest: att_step_agree)

text \<open>
  The JSON snapshot of a record and its child rows are the same list in every state
  that attendance writes reach, and no child row outlives its record.
\<close>

lemma snapshot_rows_agree:
  assumes "(\<lambda>w w'. \<exists>user. att_step cf user w w')\<^sup>*\<^sup>* w w'" and "sel_inv w" and "a \<in> set (records_of w')"
  shows "rows_of_record w' (at_id a) = nullish (at_preferences a) []"
  using selection_rows.inv_run [OF assms(1,2)] assms(3) by (simp add: sel_inv_def selections_agree_def)

section \<open>Concrete inputs\<close>

text \<open>A member with a record today and one in a finalized June; lunch asks for one main dish.\<close>

definition ex_meal_binding :: binding where
  "ex_meal_binding = ex_binding\<lparr>bd_meal_id := ''m'', bd_group := map_option (\<lambda>g. g\<lparr>sg_org := ''o''\<rparr>) (bd_group ex_binding)\<rparr>"

definition ex_day :: world where
  "ex_day = ex_world\<lparr>w_bindings := [ex_meal_binding], w_db := (w_db ex_world)
     \<lparr>db_attendance := [ex_meal ''a0'' ''2026-06-05'' 50, ex_meal ''a1'' ''2026-07-10'' 60],
      db_periods := [new_period ''p'' ''admin'' ''o'' ''g'' (day_of ''2026-06-01'') (day_of ''2026-06-30'')
        (build_totals_snapshot (w_db ex_world) ''o'' ''g'' (day_of ''2026-06-01'') (day_of ''2026-06-30''))]\<rparr>\<rparr>"

definition ex_mark :: "att_status \<Rightarrow> selection list \<Rightarrow> mark_dto" where
  "ex_mark st sels = \<lparr>md_meal = ''m'', md_date = ''2026-07-10'', md_status = Some st, md_preference = None,
     md_note = None, md_selections = Some sels\<rparr>"

definition ex_record :: attendance_row where
  "ex_record = (ex_meal ''a1'' ''2026-07-10'' 120)\<lparr>at_preference := Some ''paneer'',
     at_preferences := Some (vs_rows ex_validated), at_marked_at := Some (en_now ex_env)\<rparr>"

definition ex_marked :: world where
  "ex_marked = replace_selections ''a1'' (mark_write ex_env ''u'' ''o'' (ex_mark Present ex_picks) ex_day ex_meal_row
      (day_of ''2026-07-10'') \<lparr>pr_price = Some 120, pr_preference = Some ''paneer'',
        pr_selection = Some (vs_rows ex_validated, vs_rows ex_validated)\<rparr>)
     (set_records (\<lambda>_. [ex_meal ''a0'' ''2026-06-05'' 50, ex_record]) ex_day)"

lemma ex_mark_accepted:
  "mark_attendance ex_config ex_env ''u'' ''o'' (ex_mark Present ex_picks) False ex_day = Inr (ex_record, ex_marked)"
  by code_simp

lemma ex_day_inv: "sel_inv ex_day"
  by code_simp

lemma ex_marked_ids: "row_ids ex_marked"
  by code_simp

lemma ex_mark_step: "att_step ex_config ''u'' ex_day ex_marked"
  by (rule att_step.mark [OF ex_mark_accepted ex_marked_ids])

lemma ex_mark_run: "(\<lambda>w w'. \<exists>user. att_step ex_config user w w')\<^sup>*\<^sup>* ex_day ex_marked"
  using ex_mark_step by blast

text \<open>One bulk request: today's record, which exists, and a day ahead; June is not named.\<close>

definition ex_bulk_today :: "bulk_entry list" where
  "ex_bulk_today = [\<lparr>be_meal = ''m'', be_date = ''2026-07-10'', be_status = Some Present, be_preference = None, be_note = None\<rparr>]"

definition ex_bulk_two :: "bulk_entry list" where
  "ex_bulk_two = [\<lparr>be_meal = ''m'', be_date = ''2026-07-10'', be_status = Some Absent, be_preference = None, be_note = None\<rparr>,
     \<lparr>be_meal = ''m'', be_date = ''2026-07-11'', be_status = None, be_preference = None, be_note = None\<rparr>]"

theorem attendance_refines_book_witness:
  "\<exists>w'. run_request ex_config ex_env ''o'' (Bulk_request ''u'' ex_bulk_two) ex_day = Inr w'
     \<and> book_puts (en_now ex_env) ''o''
         [\<lparr>bw_slot = (''u'', ''m'', day_of ''2026-07-10''), bw_status = Absent, bw_marker = None\<rparr>,
          \<lparr>bw_slot = (''u'', ''m'', day_of ''2026-07-11''), bw_status = Present, bw_marker = None\<rparr>] (book_of ex_day) (book_of w')
     \<and> map_option at_id (book_of w' (''u'', ''m'', day_of ''2026-07-10'')) = Some ''a1''
     \<and> map_option at_id (book_of w' (''u'', ''m'', day_of ''2026-07-11'')) = Some ''new01''
     \<and> map_option at_price (book_of w' (''u'', ''m'', day_of ''2026-06-05'')) = Some (Some 50)"
proof -
  let ?run = "run_request ex_config ex_env ''o'' (Bulk_request ''u'' ex_bulk_two) ex_day"
  have "case ?run of Inl _ \<Rightarrow> False | Inr w \<Rightarrow> map_option at_id (book_of w (''u'', ''m'', day_of ''2026-07-10'')) = Some ''a1''
      \<and> map_option at_id (book_of w (''u'', ''m'', day_of ''2026-07-11'')) = Some ''new01''"
    by code_simp
  then obtain w' where run: "?run = Inr w'"
    and ids: "map_option at_id (book_of w' (''u'', ''m'', day_of ''2026-07-10'')) = Some ''a1''"
      "map_option at_id (book_of w' (''u'', ''m'', day_of ''2026-07-11'')) = Some ''new01''"
    by (cases ?run) auto
  have t: "targets (Bulk_request ''u'' ex_bulk_two)
      = [\<lparr>bw_slot = (''u'', ''m'', day_of ''2026-07-10''), bw_status = Absent, bw_marker = None\<rparr>,
         \<lparr>bw_slot = (''u'', ''m'', day_of ''2026-07-11''), bw_status = Present, bw_marker = None\<rparr>]"
    by (simp add: bulk_target_def ex_bulk_two_def)
  note refined = attendance_refines_book [OF run, unfolded t]
  have "day_of ''2026-06-05'' \<noteq> day_of ''2026-07-10'' \<and> day_of ''2026-06-05'' \<noteq> day_of ''2026-07-11''" by code_simp
  then have "book_of w' (''u'', ''m'', day_of ''2026-06-05'') = book_of ex_day (''u'', ''m'', day_of ''2026-06-05'')"
    using refined by simp
  moreover have "map_option at_price (book_of ex_day (''u'', ''m'', day_of ''2026-06-05'')) = Some (Some 50)" by code_simp
  moreover have "\<not> repeated_tap (Bulk_request ''u'' ex_bulk_two) ex_day" by (simp add: repeated_tap_def t del: targets.simps)
  ultimately show ?thesis using run refined ids by auto
qed

text \<open>At 13:00 the mark is accepted, its window open; at 18:00 the same mark is refused.\<close>

theorem mark_passes_gates_witness:
  "(\<exists>meal m eff. find_meal ex_day ''o'' ''m'' = Some meal \<and> find_membership ex_day (ml_group meal) ''u'' = Some m
     \<and> gm_status m = MemberActive
     \<and> resolve_effective_window ex_day (ml_id meal) (ml_group meal) ''o'' ''2026-07-10''
         (rm_window_open meal) (rm_window_close meal) (rm_price meal) = Inr eff
     \<and> get_window_state ''13:00'' (ef_open eff) (ef_close eff) (nullish (Option.bind (meal_group ex_day meal) gr_grace_minutes) 0) \<in> {Open, Grace})
   \<and> mark_attendance ex_config (ex_env\<lparr>en_time := (\<lambda>_. ''18:00'')\<rparr>) ''u'' ''o'' (ex_mark Present ex_picks) False ex_day
       = Inl (Locked ''ATTENDANCE_WINDOW_CLOSED'')"
proof (rule conjI)
  have "dedup_hit ex_config ex_env ex_day ''o'' ''u'' (ex_mark Present ex_picks) t = None" for t
    by (simp add: dedup_hit_def ex_env_def)
  then show "\<exists>meal m eff. find_meal ex_day ''o'' ''m'' = Some meal \<and> find_membership ex_day (ml_group meal) ''u'' = Some m
     \<and> gm_status m = MemberActive
     \<and> resolve_effective_window ex_day (ml_id meal) (ml_group meal) ''o'' ''2026-07-10''
         (rm_window_open meal) (rm_window_close meal) (rm_price meal) = Inr eff
     \<and> get_window_state ''13:00'' (ef_open eff) (ef_close eff) (nullish (Option.bind (meal_group ex_day meal) gr_grace_minutes) 0) \<in> {Open, Grace}"
    using mark_passes_gates [OF ex_mark_accepted] by (elim exE conjE) (auto simp: ex_mark_def ex_env_def)
  show "mark_attendance ex_config (ex_env\<lparr>en_time := (\<lambda>_. ''18:00'')\<rparr>) ''u'' ''o'' (ex_mark Present ex_picks) False ex_day
       = Inl (Locked ''ATTENDANCE_WINDOW_CLOSED'')" by code_simp
qed

lemma ex_skip_accepted:
  "map_option (at_status \<circ> fst) (case mark_attendance ex_config ex_env ''u'' ''o'' (ex_mark Skipped []) False ex_day of
     Inl _ \<Rightarrow> None | Inr r \<Rightarrow> Some r) = Some Absent"
  by code_simp

text \<open>Three seconds later, with other picks.\<close>

definition ex_env2 :: env where
  "ex_env2 = ex_env\<lparr>en_first_writer := False\<rparr>"

definition ex_other_picks :: "selection list" where
  "ex_other_picks = [\<lparr>sel_group = ''main'', sel_option = ''dal'', sel_quantity = Some 1\<rparr>]"

lemma ex_admit2:
  "\<exists>x. admit_mark ex_env2 ''u'' ''o'' (ex_mark Present ex_other_picks) ex_marked = Inr x"
proof -
  have "case admit_mark ex_env2 ''u'' ''o'' (ex_mark Present ex_other_picks) ex_marked of Inl _ \<Rightarrow> False | Inr _ \<Rightarrow> True"
    by code_simp
  then show ?thesis by (auto split: sum.splits)
qed

section \<open>What the code lets through\<close>

text \<open>The dedup key ignores picks, so a change of picks within its life is lost while the answer is a success.\<close>

lemma quick_change_is_lost:
  "(case mark_attendance ex_config ex_env2 ''u'' ''o'' (ex_mark Present ex_other_picks) False ex_marked of
      Inl _ \<Rightarrow> False | Inr (b, w) \<Rightarrow> at_preference b = Some ''paneer'' \<and> w = ex_marked)
   \<and> (case mark_attendance ex_config ex_env ''u'' ''o'' (ex_mark Present ex_other_picks) False ex_marked of
      Inl _ \<Rightarrow> False | Inr (b, w) \<Rightarrow> at_preference b = Some ''dal'')"
proof (rule conjI)
  obtain x where x: "admit_mark ex_env2 ''u'' ''o'' (ex_mark Present ex_other_picks) ex_marked = Inr x" using ex_admit2 ..
  have "case dedup_hit ex_config ex_env2 ex_marked ''o'' ''u'' (ex_mark Present ex_other_picks) (day_of ''2026-07-10'') of
      None \<Rightarrow> False | Some b \<Rightarrow> at_preference b = Some ''paneer''" by code_simp
  moreover have "snd (snd x) = day_of ''2026-07-10''"
  proof -
    obtain meal t and eff :: effective where e: "x = (meal, eff, t)" by (cases x) auto
    have "to_utc_midnight (md_date (ex_mark Present ex_other_picks)) = Some t" using x unfolding e by (auto elim: admit_cases)
    moreover have "to_utc_midnight ''2026-07-10'' = Some (day_of ''2026-07-10'')" by code_simp
    ultimately show ?thesis by (simp add: e ex_mark_def)
  qed
  ultimately show "case mark_attendance ex_config ex_env2 ''u'' ''o'' (ex_mark Present ex_other_picks) False ex_marked of
      Inl _ \<Rightarrow> False | Inr (b, w) \<Rightarrow> at_preference b = Some ''paneer'' \<and> w = ex_marked"
    by (cases x) (auto simp: mark_attendance_def x split: option.splits)
  show "case mark_attendance ex_config ex_env ''u'' ''o'' (ex_mark Present ex_other_picks) False ex_marked of
      Inl _ \<Rightarrow> False | Inr (b, w) \<Rightarrow> at_preference b = Some ''dal''" by code_simp
qed

text \<open>
  The bulk endpoint has none of the gates of a mark: a removed member records a future day,
  and a raw Skip is stored, which bills.
\<close>

definition ex_bulk :: "bulk_entry list" where
  "ex_bulk = [\<lparr>be_meal = ''m'', be_date = ''2026-08-15'', be_status = Some Skipped, be_preference = None, be_note = None\<rparr>]"

lemma bulk_bypasses_gates:
  "case bulk_mark_attendance ex_env ''stranger'' ''o'' ex_bulk ex_day of
     Inl _ \<Rightarrow> False
   | Inr w \<Rightarrow> find_membership ex_day ''g'' ''stranger'' = None
       \<and> (\<exists>a\<in>set (records_of w). at_user a = ''stranger'' \<and> at_status a = Skipped \<and> billed_row a
            \<and> at_price a = Some 60 \<and> at_date a = day_of ''2026-08-15'')"
  by code_simp

text \<open>
  A bulk Present on an existing record writes the bare meal price and keeps the picks: the
  surcharge of the chosen option is gone.
\<close>

lemma bulk_drops_surcharge:
  "case bulk_mark_attendance ex_env ''u'' ''o'' ex_bulk_today ex_marked of
     Inl _ \<Rightarrow> False
   | Inr w \<Rightarrow> \<exists>a\<in>set (records_of w). at_id a = ''a1'' \<and> at_price a = Some 60 \<and> at_preferences a = Some (vs_rows ex_validated)"
  by code_simp

text \<open>A host who leaves Present and returns within the window does not get the guests back.\<close>

definition ex_hosting :: world where
  "ex_hosting = ex_confirmed"

lemma return_to_present_restores_nothing:
  "case mark_attendance ex_config ex_env ''u'' ''o'' (ex_mark Absent []) False ex_hosting of
     Inl _ \<Rightarrow> False
   | Inr (_, w1) \<Rightarrow>
       (case mark_attendance ex_config ex_env ''u'' ''o'' (ex_mark Present []) False w1 of
          Inl _ \<Rightarrow> False
        | Inr (a, w2) \<Rightarrow> at_status a = Present \<and> booked_of ex_hosting ''o'' ''u'' ''m'' (day_of ''2026-07-10'') \<noteq> []
            \<and> booked_of w2 ''o'' ''u'' ''m'' (day_of ''2026-07-10'') = []
            \<and> booked_of (reconcile_on_host_change ex_env ''o'' ''g'' ''u'' ''m'' (day_of ''2026-07-10'') Present ''u'' w2)
                ''o'' ''u'' ''m'' (day_of ''2026-07-10'') \<noteq> [])"
  by code_simp

text \<open>
  A guest booked in advance is counted on a record that does not exist yet; the first mark
  of the day creates the record with zero counters.
\<close>

lemma advance_booking_not_counted:
  "case mark_attendance ex_config ex_env ''u'' ''o'' (ex_mark Present []) False
      (set_records (\<lambda>_. []) ex_confirmed) of
     Inl _ \<Rightarrow> False
   | Inr (a, w) \<Rightarrow> at_guest_adults a = 0 \<and> confirmed_count w ''o'' ''u'' ''m'' (day_of ''2026-07-10'') True = 1"
  by code_simp

end
