(* ===== verification/Corrections.thy ===== *)
theory Corrections
  imports Attendance_Laws
begin

text \<open>
  Attendance correction requests (\<open>src/src/features/corrections/corrections.service.ts\<close> over
  \<open>repositories/correction-requests.repository.ts\<close>): what a member may ask, the automatic
  decisions, the administrator's review, expiry.  Notices, pushes, realtime events and audit
  are left out.

  An operation here may change the tables and still end in an error: a request that expired
  is marked before it is refused, and a created request stays when its automatic decision
  fails.  An outcome is therefore a result with the world it leaves.
\<close>

section \<open>Outcomes\<close>

type_synonym 'a outcome = "(exn + 'a) \<times> world"

definition bindO :: "'a outcome \<Rightarrow> ('a \<Rightarrow> world \<Rightarrow> 'b outcome) \<Rightarrow> 'b outcome" where
  "bindO r f = (case r of (Inl x, w) \<Rightarrow> (Inl x, w) | (Inr a, w) \<Rightarrow> f a w)"

text \<open>A step that writes only when it succeeds.\<close>

definition commit :: "exn + 'a \<times> world \<Rightarrow> world \<Rightarrow> 'a outcome" where
  "commit r w = (case r of Inl x \<Rightarrow> (Inl x, w) | Inr (a, w') \<Rightarrow> (Inr a, w'))"

lemma bindO_Inr_iff: "bindO r f = (Inr b, w') \<longleftrightarrow> (\<exists>a w. r = (Inr a, w) \<and> f a w = (Inr b, w'))"
  by (auto simp: bindO_def split: prod.splits sum.splits)

lemma commit_Inr_iff: "commit r w = (Inr a, w') \<longleftrightarrow> r = Inr (a, w')"
  by (auto simp: commit_def split: sum.splits)

section \<open>Inputs and the table\<close>

record correction_dto =
  cq_meal :: ident
  cq_date :: string
  cq_type :: correction_type
  cq_preference :: "string option"
  cq_selections :: "selection list option"
  cq_reason :: "string option"
  cq_evidence :: "string option"

definition admin_roles :: "string list" where
  "admin_roles = [''messManager'', ''hostelManager'', ''hostelAdmin'', ''organizationManager'']"

fun type_to_status :: "correction_type \<Rightarrow> att_status option" where
  "type_to_status ClaimPresent = Some Present"
| "type_to_status CorrectToAbsent = Some Absent"
| "type_to_status FixPreference = None"
| "type_to_status DisputeCharge = None"

definition status_change :: "correction_type \<Rightarrow> bool" where
  "status_change ty \<longleftrightarrow> ty = ClaimPresent \<or> ty = CorrectToAbsent"

abbreviation corrections_of :: "world \<Rightarrow> correction_row list" where
  "corrections_of w \<equiv> db_corrections (w_db w)"

definition set_corrections :: "(correction_row list \<Rightarrow> correction_row list) \<Rightarrow> world \<Rightarrow> world" where
  "set_corrections f w = w\<lparr>w_db := (w_db w)\<lparr>db_corrections := f (corrections_of w)\<rparr>\<rparr>"

definition update_correction :: "ident \<Rightarrow> ident \<Rightarrow> (correction_row \<Rightarrow> correction_row) \<Rightarrow> world \<Rightarrow> world" where
  "update_correction i org f = set_corrections (map (\<lambda>r. if cr_id r = i \<and> cr_org r = org then f r else r))"

definition find_correction :: "world \<Rightarrow> ident \<Rightarrow> ident \<Rightarrow> correction_row option" where
  "find_correction w i org = find (\<lambda>r. cr_id r = i \<and> cr_org r = org) (corrections_of w)"

definition find_by_key :: "world \<Rightarrow> ident \<Rightarrow> ident \<Rightarrow> int \<Rightarrow> ident \<Rightarrow> attendance_row option" where
  "find_by_key w user meal t org =
     find (\<lambda>a. at_user a = user \<and> at_meal a = meal \<and> at_date a = t \<and> at_org a = org) (records_of w)"

text \<open>The three limits.\<close>

definition open_at :: "ident \<Rightarrow> ident \<Rightarrow> ident \<Rightarrow> int \<Rightarrow> correction_row \<Rightarrow> bool" where
  "open_at org user meal t r \<longleftrightarrow> cr_org r = org \<and> cr_user r = user \<and> cr_meal r = meal \<and> cr_date r = t
     \<and> cr_status r = ReqPending"

definition find_open_duplicate :: "world \<Rightarrow> ident \<Rightarrow> ident \<Rightarrow> ident \<Rightarrow> int \<Rightarrow> bool" where
  "find_open_duplicate w org user meal t \<longleftrightarrow> 0 < length (filter (open_at org user meal t) (corrections_of w))"

definition open_for :: "ident \<Rightarrow> ident \<Rightarrow> correction_row \<Rightarrow> bool" where
  "open_for org user r \<longleftrightarrow> cr_org r = org \<and> cr_user r = user \<and> cr_status r = ReqPending \<and> cr_channel r = ''member''"

definition count_open_for_user :: "world \<Rightarrow> ident \<Rightarrow> ident \<Rightarrow> int" where
  "count_open_for_user w org user = int (length (filter (open_for org user) (corrections_of w)))"

definition count_created_since :: "world \<Rightarrow> ident \<Rightarrow> ident \<Rightarrow> int \<Rightarrow> int" where
  "count_created_since w org user since =
     int (length (filter (\<lambda>r. cr_org r = org \<and> cr_user r = user \<and> cr_channel r = ''member'' \<and> since \<le> cr_created_at r)
       (corrections_of w)))"

definition expired :: "env \<Rightarrow> correction_row \<Rightarrow> bool" where
  "expired e r \<longleftrightarrow> cr_status r = ReqPending \<and> cr_expires_at r < en_now e"

definition expire_due :: "env \<Rightarrow> ident \<Rightarrow> world \<Rightarrow> world" where
  "expire_due e org = set_corrections (map (\<lambda>r. if cr_org r = org \<and> expired e r then r\<lparr>cr_status := ReqExpired\<rparr> else r))"

section \<open>Decisions\<close>

text \<open>The attendance change an approval writes.\<close>

definition change_of ::
  "ident \<Rightarrow> bool \<Rightarrow> correction_row \<Rightarrow> att_status \<Rightarrow> selection list option \<Rightarrow> consented_change" where
  "change_of by auto r st sels =
     \<lparr>cc_actor = by, cc_user = cr_user r, cc_group = cr_group r, cc_meal = cr_meal r,
      cc_date = format_utc_date (cr_date r), cc_status = st, cc_preference = cr_requested_preference r,
      cc_selections = sels, cc_note = None, cc_marked_by = (if auto then None else Some by),
      cc_source = ''request'', cc_source_request = Some (cr_id r)\<rparr>"

definition approved_by :: "env \<Rightarrow> ident \<Rightarrow> string option \<Rightarrow> bool \<Rightarrow> ident option \<Rightarrow> correction_row \<Rightarrow> correction_row" where
  "approved_by e by note auto res r =
     r\<lparr>cr_status := ReqApproved,
       cr_reviewed_by := (if cr_channel r = ''admin_prompt'' then cr_reviewed_by r else if auto then None else Some by),
       cr_reviewed_at := Some (en_now e), cr_review_note := note, cr_result := res\<rparr>"

definition write_decision ::
  "config \<Rightarrow> env \<Rightarrow> ident \<Rightarrow> bool \<Rightarrow> att_status option \<Rightarrow> correction_row \<Rightarrow> world \<Rightarrow> exn + ident option \<times> world" where
  "write_decision cf e by auto existing r w =
     (let put = (\<lambda>st sels. bindE (apply_consented_change cf e (cr_org r) (change_of by auto r st sels) w)
                   (\<lambda>(a, w1). Inr (Some (at_id a), w1)))
      in case cr_type r of
           DisputeCharge \<Rightarrow> Inr (None, w)
         | FixPreference \<Rightarrow>
             (case nullish_opt existing
                     (map_option at_status (find_by_key w (cr_user r) (cr_meal r) (cr_date r) (cr_org r))) of
                None \<Rightarrow> Inl (BadRequest ''No attendance record exists to fix the preference on'')
              | Some st \<Rightarrow> put st None)
         | _ \<Rightarrow> put (nullish (cr_requested_status r) Present) (cr_requested_selections r))"

definition apply_decision ::
  "config \<Rightarrow> env \<Rightarrow> ident \<Rightarrow> string option \<Rightarrow> bool \<Rightarrow> att_status option \<Rightarrow> correction_row \<Rightarrow> world
     \<Rightarrow> exn + correction_row \<times> world" where
  "apply_decision cf e by note auto existing r w =
     bindE (write_decision cf e by auto existing r w) (\<lambda>(res, w1).
       let f = approved_by e by note auto res
       in Inr (f r, update_correction (cr_id r) (cr_org r) f w1))"

definition load_pending :: "env \<Rightarrow> ident \<Rightarrow> ident \<Rightarrow> world \<Rightarrow> correction_row outcome" where
  "load_pending e i org w =
     (case find_correction w i org of
        None \<Rightarrow> (Inl (NotFound ''Correction request not found''), w)
      | Some r \<Rightarrow>
          if expired e r
          then (Inl (BadRequest ''This request has expired and can no longer be actioned''),
                update_correction i org (\<lambda>x. x\<lparr>cr_status := ReqExpired\<rparr>) w)
          else if cr_status r \<noteq> ReqPending
          then (Inl (BadRequest ''Only pending requests can be actioned''), w)
          else (Inr r, w))"

definition approve_correction ::
  "config \<Rightarrow> env \<Rightarrow> ident \<Rightarrow> ident \<Rightarrow> ident \<Rightarrow> string option \<Rightarrow> world \<Rightarrow> correction_row outcome" where
  "approve_correction cf e admin org i note w =
     bindO (load_pending e i org w) (\<lambda>r w.
       if cr_channel r \<noteq> ''member'' then (Inl (BadRequest ''Only the member can confirm or decline this''), w)
       else if cr_user r = admin then (Inl (Forbidden ''You cannot approve your own request''), w)
       else if \<not> is_active_member w (cr_group r) (cr_user r)
       then (Inl (BadRequest ''The member is no longer active in this group''), w)
       else commit (apply_decision cf e admin note False None r w) w)"

definition rejected_by :: "env \<Rightarrow> ident \<Rightarrow> string option \<Rightarrow> correction_row \<Rightarrow> correction_row" where
  "rejected_by e admin note r = r\<lparr>cr_status := ReqRejected, cr_reviewed_by := Some admin,
     cr_reviewed_at := Some (en_now e), cr_review_note := note\<rparr>"

definition reject_correction :: "env \<Rightarrow> ident \<Rightarrow> ident \<Rightarrow> ident \<Rightarrow> string option \<Rightarrow> world \<Rightarrow> unit outcome" where
  "reject_correction e admin org i note w =
     bindO (load_pending e i org w) (\<lambda>r w.
       if cr_channel r \<noteq> ''member'' then (Inl (BadRequest ''Only the member can confirm or decline this''), w)
       else (Inr (), update_correction i org (rejected_by e admin note) w))"

definition cancel_correction :: "env \<Rightarrow> ident \<Rightarrow> ident \<Rightarrow> ident \<Rightarrow> string option \<Rightarrow> world \<Rightarrow> unit outcome" where
  "cancel_correction e user org i note w =
     bindO (load_pending e i org w) (\<lambda>r w.
       if cr_user r \<noteq> user then (Inl (Forbidden ''You can only cancel your own request''), w)
       else (Inr (), update_correction i org
              (\<lambda>x. x\<lparr>cr_status := ReqCancelled, cr_reviewed_at := Some (en_now e),
                     cr_review_note := nullish_opt note (cr_review_note r)\<rparr>) w))"

section \<open>Creating a request\<close>

definition member_role_of :: "world \<Rightarrow> ident \<Rightarrow> ident \<Rightarrow> string" where
  "member_role_of w gid user =
     (case find_membership w gid user of None \<Rightarrow> [] | Some _ \<Rightarrow> (case find_user w user of None \<Rightarrow> [] | Some u \<Rightarrow> us_role u))"

text \<open>A status change waits until marking is no longer possible: not inside the window.\<close>

definition check_window :: "env \<Rightarrow> string \<Rightarrow> correction_type \<Rightarrow> effective \<Rightarrow> exn + unit" where
  "check_window e tz ty eff =
     (if truthy (ef_open eff) \<and> truthy (ef_close eff)
         \<and> is_within_window (en_time e tz) (the (ef_open eff)) (the (ef_close eff)) 0
      then Inl (BadRequest ''Attendance is still open. Mark it directly.'') else Inr ())"

text \<open>A claim answers the groups of the master meal, narrowed on planner days.\<close>

definition claim_groups :: "world \<Rightarrow> meal_row \<Rightarrow> ident \<Rightarrow> effective \<Rightarrow> pref_group list" where
  "claim_groups w meal org eff =
     (let gs = effective_groups w (ml_id meal) org;
          planner = (case meal_group w meal of None \<Rightarrow> False | Some g \<Rightarrow> gr_weekly_menu g \<or> gr_day_wise g)
      in if gs \<noteq> [] \<and> planner \<and> ef_scheduled eff
         then apply_day_override gs (Some (ef_prefs_enabled eff, ef_group_ids eff)) else gs)"

definition check_claim ::
  "config \<Rightarrow> world \<Rightarrow> ident \<Rightarrow> meal_row \<Rightarrow> string \<Rightarrow> int \<Rightarrow> effective \<Rightarrow> ident \<Rightarrow> member_row \<Rightarrow> correction_dto
     \<Rightarrow> exn + unit" where
  "check_claim cf w org meal date_str t eff user m dto =
     (if covered_by_vacation w org meal date_str t eff user m
      then Inl (BadRequest ''You are on vacation, so you cannot switch to Present'')
      else if claim_groups w meal org eff = [] then Inr ()
      else bindE (validate_selections (cf_quantity_cap cf) (claim_groups w meal org eff) (nullish (cq_selections dto) []))
             (\<lambda>_. Inr ()))"

definition check_limits :: "config \<Rightarrow> world \<Rightarrow> ident \<Rightarrow> ident \<Rightarrow> ident \<Rightarrow> int \<Rightarrow> exn + unit" where
  "check_limits cf w org user meal t =
     (if find_open_duplicate w org user meal t
      then Inl (BadRequest ''You already have a pending request for this meal and date'')
      else if cf_max_open cf \<le> count_open_for_user w org user then Inl (BadRequest ''Too many open requests'')
      else if cf_max_per_day cf \<le> count_created_since w org user t then Inl (BadRequest ''Daily limit reached'')
      else Inr ())"

definition check_status_change ::
  "config \<Rightarrow> env \<Rightarrow> ident \<Rightarrow> ident \<Rightarrow> meal_row \<Rightarrow> member_row \<Rightarrow> string \<Rightarrow> int \<Rightarrow> correction_dto \<Rightarrow> world
     \<Rightarrow> exn + unit" where
  "check_status_change cf e user org meal m today t dto w =
     (if status_change (cq_type dto) then
        bindE (resolve_effective_window w (ml_id meal) (ml_group meal) org today
                 (rm_window_open meal) (rm_window_close meal) (rm_price meal)) (\<lambda>eff.
        bindE (check_window e (org_tz w (ml_org meal)) (cq_type dto) eff) (\<lambda>_.
          if cq_type dto = ClaimPresent then check_claim cf w org meal today t eff user m dto else Inr ()))
      else Inr ())"

definition admit_correction ::
  "config \<Rightarrow> env \<Rightarrow> ident \<Rightarrow> ident \<Rightarrow> correction_dto \<Rightarrow> world \<Rightarrow> exn + meal_row \<times> int" where
  "admit_correction cf e user org dto w =
     bindE (orErr (find_meal w org (cq_meal dto)) (NotFound ''Meal not found'')) (\<lambda>meal.
     bindE (if is_active_member w (ml_group meal) user
            then orErr (find_membership w (ml_group meal) user) (Forbidden ''You are not an active member of this group'')
            else Inl (Forbidden ''You are not an active member of this group'')) (\<lambda>m.
       let today = org_now e w meal; date_str = take 10 (cq_date dto)
       in if str_less today date_str then Inl (BadRequest ''Corrections cannot be requested for future dates'')
          else if date_str \<noteq> today then Inl (BadRequest ''Corrections close at 11:59 PM on the same day.'')
          else if cq_type dto = FixPreference \<and> \<not> truthy (cq_preference dto)
          then Inl (BadRequest ''requestedPreference is required for fix_preference'')
          else
            bindE (orErr (to_utc_midnight today) BadDate) (\<lambda>t.
            bindE (check_status_change cf e user org meal m today t dto w) (\<lambda>_.
            bindE (check_limits cf w org user (cq_meal dto) t) (\<lambda>_. Inr (meal, t))))))"

definition new_correction ::
  "config \<Rightarrow> env \<Rightarrow> ident \<Rightarrow> ident \<Rightarrow> correction_dto \<Rightarrow> ident \<Rightarrow> int \<Rightarrow> correction_row" where
  "new_correction cf e user org dto gid t =
     \<lparr>cr_id = en_id e 1, cr_org = org, cr_group = gid, cr_user = user, cr_meal = cq_meal dto, cr_date = t,
      cr_type = cq_type dto, cr_requested_status = type_to_status (cq_type dto),
      cr_requested_preference = cq_preference dto, cr_requested_selections = cq_selections dto,
      cr_reason = cq_reason dto, cr_evidence = cq_evidence dto, cr_status = ReqPending,
      cr_reviewed_by = None, cr_reviewed_at = None, cr_review_note = None, cr_channel = ''member'',
      cr_result = None, cr_created_at = en_now e,
      cr_expires_at = en_now e + cf_expiry_hours cf * 60 * 60 * 1000\<rparr>"

text \<open>
  What decides itself: a correction to Absent where the configuration allows it, a preference
  fix on an existing record, and an administrator's own status change.
\<close>

definition auto_decision ::
  "config \<Rightarrow> ident \<Rightarrow> world \<Rightarrow> correction_row \<Rightarrow> (string \<times> att_status option) option" where
  "auto_decision cf user w r =
     (let existing = map_option at_status (find_by_key w user (cr_meal r) (cr_date r) (cr_org r))
      in if cr_type r = CorrectToAbsent \<and> cf_absent_auto cf
         then Some (''Auto-approved. Your bill does not change.'', None)
         else if cr_type r = FixPreference \<and> existing \<noteq> None
         then Some (''Auto-applied. Your bill does not change.'', existing)
         else if member_role_of w (cr_group r) user \<in> set admin_roles \<and> status_change (cr_type r)
         then Some (''Auto-applied (admin, same day)'', None)
         else None)"

definition create_correction ::
  "config \<Rightarrow> env \<Rightarrow> ident \<Rightarrow> ident \<Rightarrow> correction_dto \<Rightarrow> world \<Rightarrow> correction_row outcome" where
  "create_correction cf e user org dto w =
     (case admit_correction cf e user org dto w of
        Inl x \<Rightarrow> (Inl x, w)
      | Inr (meal, t) \<Rightarrow>
          let r = new_correction cf e user org dto (ml_group meal) t;
              w1 = set_corrections (\<lambda>rs. rs @ [r]) w
          in case auto_decision cf user w1 r of
               None \<Rightarrow> (Inr r, w1)
             | Some (note, existing) \<Rightarrow> commit (apply_decision cf e user (Some note) True existing r w1) w1)"

text \<open>Listing expires what is due, and shows a member only their own requests.\<close>

record correction_query =
  qc_group :: "string option"
  qc_status :: "request_status option"
  qc_channel :: "string option"

definition list_where :: "ident \<Rightarrow> string \<Rightarrow> ident \<Rightarrow> correction_query \<Rightarrow> correction_row \<Rightarrow> bool" where
  "list_where user role org q r \<longleftrightarrow> cr_org r = org \<and> (role \<in> set admin_roles \<or> user = [] \<or> cr_user r = user)
     \<and> (truthy (qc_group q) \<longrightarrow> Some (cr_group r) = qc_group q)
     \<and> (qc_status q \<noteq> None \<longrightarrow> Some (cr_status r) = qc_status q)
     \<and> (truthy (qc_channel q) \<longrightarrow> Some (cr_channel r) = qc_channel q)"

definition list_corrections ::
  "env \<Rightarrow> ident \<Rightarrow> string \<Rightarrow> ident \<Rightarrow> correction_query \<Rightarrow> world \<Rightarrow> correction_row list \<times> world" where
  "list_corrections e user role org q w =
     (let w1 = expire_due e org w in (filter (list_where user role org q) (corrections_of w1), w1))"

end
