(* ===== verification/Correction_Laws.thy ===== *)
theory Correction_Laws
  imports Corrections
begin

text \<open>
  What the correction workflow guarantees: the limits on open requests, that a decision is
  final, that an approval writes exactly what the member asked, and that finalized days stay
  closed to it.
\<close>

section \<open>The table under the operations\<close>

lemma corrections_set [simp]: "corrections_of (set_corrections f w) = f (corrections_of w)"
  by (simp add: set_corrections_def)

lemma corrections_update [simp]:
  "corrections_of (update_correction i org f w)
     = map (\<lambda>r. if cr_id r = i \<and> cr_org r = org then f r else r) (corrections_of w)"
  by (simp add: update_correction_def)

lemma corrections_frames [simp]:
  "corrections_of (set_records f w) = corrections_of w" "corrections_of (replace_selections i wr w) = corrections_of w"
  "corrections_of (set_guests h w) = corrections_of w"
  "corrections_of (recompute_host_counters org host meal t w) = corrections_of w"
  by (simp_all add: set_records_def replace_selections_def set_guests_def recompute_host_counters_def split: option.splits)

lemma corrections_reconcile [simp]:
  "corrections_of (reconcile_guests e org gid host meal t st actor w) = corrections_of w"
  by (simp add: reconcile_guests_def reconcile_on_host_change_def Let_def split: option.splits)

lemma corrections_upsert: "upsert now i wr w = (a, w1) \<Longrightarrow> corrections_of w1 = corrections_of w"
  by (auto simp: upsert_def upsert_with_def split: option.splits)

lemma corrections_consented:
  assumes "apply_consented_change cf e org c w = Inr (a, w')"
  shows "corrections_of w' = corrections_of w"
  using assms by (rule consented_cases) (simp add: corrections_upsert)

text \<open>Attendance, guests and meals do not see the requests.\<close>

lemma set_corrections_frame [simp]:
  "records_of (set_corrections f w) = records_of w" "guests_of (set_corrections f w) = guests_of w"
  "w_meals (set_corrections f w) = w_meals w" "db_periods (w_db (set_corrections f w)) = db_periods (w_db w)"
  "records_of (update_correction i org g w) = records_of w" "guests_of (update_correction i org g w) = guests_of w"
  "w_meals (update_correction i org g w) = w_meals w"
  "db_periods (w_db (update_correction i org g w)) = db_periods (w_db w)"
  by (simp_all add: set_corrections_def update_correction_def)

lemma final_view_set_corrections:
  "final_view (set_corrections f w) = final_view w \<and> (att_inv (set_corrections f w) \<longleftrightarrow> att_inv w)"
  using period_locked_cong [of "set_corrections f w" w]
  by (simp add: final_view_def locked_records_def locked_guests_def att_inv_def)

lemma book_set_corrections [simp]:
  "book_of (set_corrections f w) = book_of w" "book_of (update_correction i org g w) = book_of w"
  by (simp_all add: fun_eq_iff book_find)

section \<open>Inversion of the decisions\<close>

lemma load_pending_cases:
  assumes "load_pending e i org w = (res, w')"
  obtains (none) x where "res = Inl x" "w' = w"
  | (late) x r where "res = Inl x" "find_correction w i org = Some r" "cr_status r = ReqPending"
      "w' = update_correction i org (\<lambda>x. x\<lparr>cr_status := ReqExpired\<rparr>) w"
  | (found) r where "res = Inr r" "find_correction w i org = Some r" "cr_status r = ReqPending" "\<not> expired e r" "w' = w"
  using assms by (auto simp: load_pending_def expired_def split: option.splits if_splits)

text \<open>What an approval writes beside the request itself.\<close>

lemma write_decision_cases:
  assumes "write_decision cf e by auto existing r w = Inr (res, w')"
  obtains (dispute) "cr_type r = DisputeCharge" "res = None" "w' = w"
  | (put) st sels a where "cr_type r \<noteq> DisputeCharge"
      "apply_consented_change cf e (cr_org r) (change_of by auto r st sels) w = Inr (a, w')" "res = Some (at_id a)"
      "status_change (cr_type r) \<longrightarrow> st = nullish (cr_requested_status r) Present \<and> sels = cr_requested_selections r"
      "cr_type r = FixPreference \<longrightarrow> sels = None \<and> nullish_opt existing
         (map_option at_status (find_by_key w (cr_user r) (cr_meal r) (cr_date r) (cr_org r))) = Some st"
  using assms
  by (cases "cr_type r")
    (auto simp: write_decision_def Let_def bindE_eq_Inr status_change_def split: option.splits)

lemma apply_decision_cases:
  assumes "apply_decision cf e by note auto existing r w = Inr (r', w')"
  obtains res w1 where "write_decision cf e by auto existing r w = Inr (res, w1)"
    "r' = approved_by e by note auto res r"
    "w' = update_correction (cr_id r) (cr_org r) (approved_by e by note auto res) w1"
  using assms by (auto simp: apply_decision_def bindE_eq_Inr Let_def)

lemma corrections_write_decision:
  assumes "write_decision cf e by auto existing r w = Inr (res, w')"
  shows "corrections_of w' = corrections_of w"
  using assms by (cases rule: write_decision_cases) (auto dest: corrections_consented)

lemma apply_decision_rows:
  assumes "apply_decision cf e by note auto existing r w = Inr (r', w')"
  shows "\<exists>res. r' = approved_by e by note auto res r \<and> corrections_of w'
    = map (\<lambda>x. if cr_id x = cr_id r \<and> cr_org x = cr_org r then approved_by e by note auto res x else x) (corrections_of w)"
  using assms by (rule apply_decision_cases) (auto simp: corrections_write_decision)

section \<open>Runs of the workflow\<close>

text \<open>Every call is a step, refused or not; the premise of a creation is the primary key.\<close>

inductive correction_step :: "config \<Rightarrow> world \<Rightarrow> world \<Rightarrow> bool" for cf where
  create: "create_correction cf e user org dto w = (res, w') \<Longrightarrow> distinct (map cr_id (corrections_of w'))
    \<Longrightarrow> correction_step cf w w'"
| approve: "approve_correction cf e admin org i note w = (res, w') \<Longrightarrow> correction_step cf w w'"
| reject: "reject_correction e admin org i note w = (res', w') \<Longrightarrow> correction_step cf w w'"
| cancel: "cancel_correction e user org i note w = (res', w') \<Longrightarrow> correction_step cf w w'"
| listing: "list_corrections e user role org q w = (rs, w') \<Longrightarrow> correction_step cf w w'"

inductive_cases correction_stepE: "correction_step cf w w'"

text \<open>
  The part of a request the member wrote; \<open>advances\<close> is the life of a row: it stays, or a
  pending one is decided once.
\<close>

definition request_of :: "correction_row \<Rightarrow> correction_row" where
  "request_of r = r\<lparr>cr_status := ReqPending, cr_reviewed_by := None, cr_reviewed_at := None,
     cr_review_note := None, cr_result := None\<rparr>"

definition advances :: "correction_row \<Rightarrow> correction_row \<Rightarrow> bool" where
  "advances r r' \<longleftrightarrow> r' = r \<or> cr_status r = ReqPending \<and> cr_status r' \<noteq> ReqPending \<and> request_of r' = request_of r"

definition decides :: "(correction_row \<Rightarrow> correction_row) \<Rightarrow> bool" where
  "decides f \<longleftrightarrow> (\<forall>r. cr_status (f r) \<noteq> ReqPending \<and> request_of (f r) = request_of r)"

lemma decides_simps [simp]:
  "decides (approved_by e by note auto res)" "decides (rejected_by e admin note)"
  "decides (\<lambda>x. x\<lparr>cr_status := ReqExpired\<rparr>)"
  "decides (\<lambda>x. x\<lparr>cr_status := ReqCancelled, cr_reviewed_at := t, cr_review_note := n\<rparr>)"
  by (simp_all add: decides_def request_of_def approved_by_def rejected_by_def)

text \<open>The three shapes a call gives the table.\<close>

definition row_inv :: "world \<Rightarrow> bool" where
  "row_inv w \<longleftrightarrow> distinct (map cr_id (corrections_of w))"

definition advanced :: "world \<Rightarrow> world \<Rightarrow> bool" where
  "advanced w w' \<longleftrightarrow> (\<exists>f. corrections_of w' = map f (corrections_of w) \<and> (\<forall>r\<in>set (corrections_of w). advances r (f r)))"

lemma advanced_refl [simp]: "advanced w w"
  unfolding advanced_def by (rule exI [of _ id]) (simp add: advances_def)

lemma advanced_update:
  assumes "row_inv w" "find_correction w i org = Some r" "cr_status r = ReqPending" "decides f"
    and "corrections_of w' = map (\<lambda>x. if cr_id x = i \<and> cr_org x = org then f x else x) (corrections_of w)"
  shows "advanced w w'"
proof -
  have r: "r \<in> set (corrections_of w)" "cr_id r = i"
    using find_SomeD [OF assms(2) [unfolded find_correction_def]] by auto
  have "x = r" if "x \<in> set (corrections_of w)" "cr_id x = i" for x
    using distinct_key_eq [OF assms(1) [unfolded row_inv_def] that(1) r(1)] that(2) r(2) by simp
  then show ?thesis
    unfolding advanced_def assms(5) using assms(3,4)
    by (intro exI [of _ "\<lambda>x. if cr_id x = i \<and> cr_org x = org then f x else x"]) (auto simp: advances_def decides_def)
qed

lemma advanced_update_row:
  "row_inv w \<Longrightarrow> find_correction w i org = Some r \<Longrightarrow> cr_status r = ReqPending \<Longrightarrow> decides f
     \<Longrightarrow> advanced w (update_correction i org f w)"
  by (rule advanced_update [OF _ _ _ _ corrections_update])

lemma load_pending_advanced:
  "row_inv w \<Longrightarrow> load_pending e i org w = (res, w') \<Longrightarrow> advanced w w'"
  by (erule load_pending_cases) (auto intro!: advanced_update_row)

lemma approve_cases:
  assumes "approve_correction cf e admin org i note w = (res, w')"
  obtains (loading) x where "load_pending e i org w = (Inl x, w')" "res = Inl x"
  | (refused) x where "res = Inl x" "w' = w"
  | (applied) r r' where "load_pending e i org w = (Inr r, w)" "cr_channel r = ''member''" "cr_user r \<noteq> admin"
      "is_active_member w (cr_group r) (cr_user r)"
      "apply_decision cf e admin note False None r w = Inr (r', w')" "res = Inr r'"
proof (cases "load_pending e i org w")
  case (Pair l v)
  show thesis
  proof (cases l)
    case (Inl x)
    with Pair assms show thesis by (intro loading [of x]) (auto simp: approve_correction_def bindO_def)
  next
    case (Inr r)
    have v: "v = w" using load_pending_cases [OF Pair] Inr by auto
    show thesis
      using assms Pair Inr v refused applied [of r]
      by (auto simp: approve_correction_def bindO_def commit_def split: if_splits sum.splits)
  qed
qed

lemma find_correctionD: "find_correction w i org = Some r \<Longrightarrow> r \<in> set (corrections_of w) \<and> cr_id r = i \<and> cr_org r = org"
  by (auto simp: find_correction_def dest: find_SomeD)

lemma approve_advanced:
  assumes "row_inv w" "approve_correction cf e admin org i note w = (res, w')"
  shows "advanced w w'"
  using assms(2)
proof (cases rule: approve_cases)
  case (applied r r')
  from applied(1) have r: "find_correction w i org = Some r" "cr_status r = ReqPending"
    by (auto elim: load_pending_cases)
  from apply_decision_rows [OF applied(5)] obtain res where
    "corrections_of w' = map (\<lambda>x. if cr_id x = i \<and> cr_org x = org
       then approved_by e admin note False res x else x) (corrections_of w)"
    using find_correctionD [OF r(1)] by auto
  with assms(1) r show ?thesis by (intro advanced_update [where f = "approved_by e admin note False res"]) auto
qed (auto intro: load_pending_advanced [OF assms(1)])

lemma reject_advanced:
  assumes "row_inv w" "reject_correction e admin org i note w = (res, w')"
  shows "advanced w w'"
proof (cases "load_pending e i org w")
  case (Pair l v)
  show ?thesis
    using load_pending_advanced [OF assms(1) Pair] assms Pair
    by (auto simp: reject_correction_def bindO_def split: sum.splits if_splits
        intro!: advanced_update_row elim!: load_pending_cases)
qed

lemma cancel_advanced:
  assumes "row_inv w" "cancel_correction e user org i note w = (res, w')"
  shows "advanced w w'"
proof (cases "load_pending e i org w")
  case (Pair l v)
  show ?thesis
    using load_pending_advanced [OF assms(1) Pair] assms Pair
    by (auto simp: cancel_correction_def bindO_def split: sum.splits if_splits
        intro!: advanced_update_row elim!: load_pending_cases)
qed

lemma expire_advanced: "advanced w (expire_due e org w)"
  unfolding advanced_def expire_due_def corrections_set
  by (intro exI [of _ "\<lambda>r. if cr_org r = org \<and> expired e r then r\<lparr>cr_status := ReqExpired\<rparr> else r"])
    (auto simp: advances_def expired_def request_of_def)

text \<open>A creation appends one row, within the limits while it is open.\<close>

lemma admit_correction_cases:
  assumes "admit_correction cf e user org dto w = Inr (meal, t)"
  obtains "find_meal w org (cq_meal dto) = Some meal" "is_active_member w (ml_group meal) user"
    "take 10 (cq_date dto) = org_now e w meal" "to_utc_midnight (org_now e w meal) = Some t"
    "\<not> find_open_duplicate w org user (cq_meal dto) t" "count_open_for_user w org user < cf_max_open cf"
    "count_created_since w org user t < cf_max_per_day cf"
proof -
  from assms have m: "find_meal w org (cq_meal dto) = Some meal" "is_active_member w (ml_group meal) user"
    "take 10 (cq_date dto) = org_now e w meal" "to_utc_midnight (org_now e w meal) = Some t"
    and l: "\<exists>u. check_limits cf w org user (cq_meal dto) t = Inr u"
    unfolding admit_correction_def Let_def bindE_eq_Inr if_Inl_eq_Inr by (auto split: if_splits)
  from l have "\<not> find_open_duplicate w org user (cq_meal dto) t" "count_open_for_user w org user < cf_max_open cf"
    "count_created_since w org user t < cf_max_per_day cf"
    by (auto simp: check_limits_def split: if_splits)
  with m that show thesis by simp
qed

lemma create_correction_cases:
  assumes "create_correction cf e user org dto w = (res, w')"
  obtains (refused) x where "res = Inl x" "w' = w"
  | (created) meal t r where "admit_correction cf e user org dto w = Inr (meal, t)"
      "r = new_correction cf e user org dto (ml_group meal) t" "w' = set_corrections (\<lambda>rs. rs @ [r]) w"
  | (decided) meal t r nt existing r' where "admit_correction cf e user org dto w = Inr (meal, t)"
      "r = new_correction cf e user org dto (ml_group meal) t"
      "auto_decision cf user (set_corrections (\<lambda>rs. rs @ [r]) w) r = Some (nt, existing)"
      "apply_decision cf e user (Some nt) True existing r (set_corrections (\<lambda>rs. rs @ [r]) w) = Inr (r', w')"
      "res = Inr r'"
proof (cases "admit_correction cf e user org dto w")
  case (Inl x)
  with assms show thesis by (intro refused [of x]) (auto simp: create_correction_def)
next
  case (Inr p)
  obtain meal t where p: "p = (meal, t)" by (cases p)
  define r where "r = new_correction cf e user org dto (ml_group meal) t"
  define w1 where "w1 = set_corrections (\<lambda>rs. rs @ [r]) w"
  have eq: "(case auto_decision cf user w1 r of None \<Rightarrow> (Inr r, w1)
       | Some (note, existing) \<Rightarrow> commit (apply_decision cf e user (Some note) True existing r w1) w1) = (res, w')"
    using assms unfolding w1_def r_def by (simp add: create_correction_def Inr p Let_def)
  show thesis
  proof (cases "auto_decision cf user w1 r")
    case None
    with eq show thesis using created [OF Inr [unfolded p] r_def] by (simp add: w1_def)
  next
    case (Some q)
    obtain nt existing where q: "q = (nt, existing)" by (cases q)
    show thesis
    proof (cases "apply_decision cf e user (Some nt) True existing r w1")
      case (Inl x)
      with eq Some q show thesis using created [OF Inr [unfolded p] r_def] by (simp add: w1_def commit_def)
    next
      case (Inr y)
      with eq Some q \<open>admit_correction cf e user org dto w = Inr p\<close> show thesis
        using decided [OF _ r_def, of nt existing] by (cases y) (simp add: w1_def commit_def p)
    qed
  qed
qed

definition request_belongs :: "world \<Rightarrow> correction_row \<Rightarrow> bool" where
  "request_belongs w r \<longleftrightarrow> map_option ml_group (find_meal w (cr_org r) (cr_meal r)) = Some (cr_group r)"

definition admitted :: "config \<Rightarrow> world \<Rightarrow> correction_row \<Rightarrow> bool" where
  "admitted cf w r \<longleftrightarrow> request_belongs w r \<and> (cr_status r = ReqPending
     \<longrightarrow> \<not> find_open_duplicate w (cr_org r) (cr_user r) (cr_meal r) (cr_date r)
       \<and> count_open_for_user w (cr_org r) (cr_user r) < cf_max_open cf)"

lemma create_rows:
  assumes "create_correction cf e user org dto w = (res, w')" "row_inv w'"
  shows "advanced w w' \<or> (\<exists>r. corrections_of w' = corrections_of w @ [r] \<and> admitted cf w r)"
  using assms(1)
proof (cases rule: create_correction_cases)
  case (created meal t r)
  then show ?thesis
    by (intro disjI2 exI [of _ r]) (auto simp: admitted_def request_belongs_def new_correction_def elim!: admit_correction_cases)
next
  case (decided meal t r nt existing r')
  let ?f = "approved_by e user (Some nt) True"
  from apply_decision_rows [OF decided(4)] obtain x where rows: "corrections_of w'
    = map (\<lambda>y. if cr_id y = cr_id r \<and> cr_org y = cr_org r then ?f x y else y) (corrections_of w @ [r])" by auto
  have "map cr_id (corrections_of w') = map cr_id (corrections_of w @ [r])"
    unfolding rows by (simp add: o_def approved_by_def)
  then have "cr_id r \<notin> cr_id ` set (corrections_of w)" using assms(2) by (simp add: row_inv_def)
  then have "map (\<lambda>y. if cr_id y = cr_id r \<and> cr_org y = cr_org r then ?f x y else y) (corrections_of w) = corrections_of w"
    by (intro map_idI) (metis imageI)
  then have "corrections_of w' = corrections_of w @ [?f x r]" unfolding rows by simp
  moreover from decided(1) have "find_meal w org (cq_meal dto) = Some meal" by (rule admit_correction_cases)
  then have "admitted cf w (?f x r)"
    by (simp add: admitted_def request_belongs_def approved_by_def decided(2) new_correction_def)
  ultimately show ?thesis by blast
qed simp

lemma request_of_keys:
  "request_of r = request_of r' \<Longrightarrow> cr_id r = cr_id r' \<and> cr_org r = cr_org r' \<and> cr_user r = cr_user r'
     \<and> cr_meal r = cr_meal r' \<and> cr_date r = cr_date r' \<and> cr_group r = cr_group r'"
  by (cases r, cases r') (simp add: request_of_def)

lemma advances_id: "advances r r' \<Longrightarrow> cr_id r' = cr_id r"
  by (auto simp: advances_def dest: request_of_keys)

lemma advanced_row_inv: "advanced w w' \<Longrightarrow> row_inv w \<Longrightarrow> row_inv w'"
proof -
  assume "advanced w w'" "row_inv w"
  moreover from this obtain f where "corrections_of w' = map f (corrections_of w)"
    "\<And>r. r \<in> set (corrections_of w) \<Longrightarrow> cr_id (f r) = cr_id r"
    unfolding advanced_def by (auto dest: advances_id)
  ultimately show "row_inv w'" by (simp add: row_inv_def cong: map_cong)
qed

theorem correction_step_rows:
  assumes "correction_step cf w w'" "row_inv w"
  shows "row_inv w' \<and> (advanced w w' \<or> (\<exists>r. corrections_of w' = corrections_of w @ [r] \<and> admitted cf w r))"
  using assms(1)
proof (cases rule: correction_step.cases)
  case (create e user org dto res)
  then show ?thesis using create_rows by (auto simp: row_inv_def)
next
  case (listing e user role org q rs)
  then have "w' = expire_due e org w" by (simp add: list_corrections_def Let_def)
  then show ?thesis using expire_advanced advanced_row_inv assms(2) by blast
next
  case approve
  then show ?thesis using approve_advanced advanced_row_inv assms(2) by blast
next
  case reject
  then show ?thesis using reject_advanced advanced_row_inv assms(2) by blast
next
  case cancel
  then show ?thesis using cancel_advanced advanced_row_inv assms(2) by blast
qed

section \<open>Limits and finality\<close>

definition within_limits :: "config \<Rightarrow> world \<Rightarrow> bool" where
  "within_limits cf w \<longleftrightarrow>
     (\<forall>org user meal t. length (filter (open_at org user meal t) (corrections_of w)) \<le> 1)
     \<and> (\<forall>org user. count_open_for_user w org user \<le> cf_max_open cf)"

definition correction_inv :: "config \<Rightarrow> world \<Rightarrow> bool" where
  "correction_inv cf w \<longleftrightarrow> row_inv w \<and> within_limits cf w"

lemma advanced_limits:
  assumes "advanced w w'" "within_limits cf w"
  shows "within_limits cf w'"
proof -
  from assms(1) obtain f where rows: "corrections_of w' = map f (corrections_of w)"
    and f: "\<And>r. r \<in> set (corrections_of w) \<Longrightarrow> advances r (f r)" unfolding advanced_def by auto
  have "length (filter (open_at org user meal t) (corrections_of w'))
      \<le> length (filter (open_at org user meal t) (corrections_of w))" for org user meal t
    unfolding rows by (rule length_filter_map_le) (use f in \<open>fastforce simp: advances_def open_at_def\<close>)
  moreover have "length (filter (open_for org user) (corrections_of w'))
      \<le> length (filter (open_for org user) (corrections_of w))" for org user
    unfolding rows by (rule length_filter_map_le) (use f in \<open>fastforce simp: advances_def open_for_def\<close>)
  ultimately show ?thesis
    using assms(2) unfolding within_limits_def count_open_for_user_def by (meson le_trans of_nat_mono order.trans)
qed

lemma append_limits:
  assumes "corrections_of w' = corrections_of w @ [r]" "admitted cf w r" "within_limits cf w"
  shows "within_limits cf w'"
  using assms
  by (auto simp: within_limits_def admitted_def find_open_duplicate_def count_open_for_user_def open_at_def open_for_def)

interpretation correction_rules: invariant_steps "correction_step cf" "correction_inv cf" for cf
  by standard (use correction_step_rows advanced_limits append_limits in \<open>unfold correction_inv_def, blast\<close>)

text \<open>
  (C31) Open requests are limited: in every reachable state a member has at most one pending
  request per meal and day, and at most the configured number of pending requests of their own
  in an organisation.
\<close>

theorem open_requests_limited:
  assumes "(correction_step cf)\<^sup>*\<^sup>* w w'" "correction_inv cf w"
  shows "length (filter (open_at org user meal t) (corrections_of w')) \<le> 1
    \<and> count_open_for_user w' org user \<le> cf_max_open cf"
  using correction_rules.inv_run [OF assms] by (simp add: correction_inv_def within_limits_def)

text \<open>A row and what the member wrote in it outlive every step.\<close>

definition recorded :: "correction_row \<Rightarrow> world \<Rightarrow> bool" where
  "recorded r w \<longleftrightarrow> row_inv w \<and> (\<exists>r'\<in>set (corrections_of w). advances r r')"

lemma advances_trans: "advances r s \<Longrightarrow> advances s t \<Longrightarrow> advances r t"
  by (auto simp: advances_def)

interpretation request_history: invariant_steps "correction_step cf" "recorded r" for cf r
proof
  fix w w'
  assume inv: "recorded r w" and "correction_step cf w w'"
  from correction_step_rows [OF this(2)] inv have "row_inv w'"
    and rows: "advanced w w' \<or> (\<exists>x. corrections_of w' = corrections_of w @ [x] \<and> admitted cf w x)"
    by (auto simp: recorded_def)
  from inv obtain r1 where r1: "r1 \<in> set (corrections_of w)" "advances r r1" by (auto simp: recorded_def)
  have "\<exists>r'\<in>set (corrections_of w'). advances r r'"
    using rows r1 unfolding advanced_def by (metis advances_trans imageI set_map Un_iff set_append)
  with \<open>row_inv w'\<close> show "recorded r w'" by (simp add: recorded_def)
qed

text \<open>
  A request is decided once: whatever the workflow does, a request that was approved,
  rejected, cancelled or expired stays exactly as it is, and a pending one keeps what the
  member wrote.
\<close>

lemma decided_requests_final:
  assumes "(correction_step cf)\<^sup>*\<^sup>* w w'" "row_inv w" "r \<in> set (corrections_of w)"
  shows "\<exists>r'\<in>set (corrections_of w'). request_of r' = request_of r \<and> (cr_status r \<noteq> ReqPending \<longrightarrow> r' = r)"
proof -
  have "recorded r w" using assms(2,3) by (auto simp: recorded_def advances_def)
  from request_history.inv_run [OF assms(1) this] show ?thesis
    by (auto simp: recorded_def advances_def)
qed

section \<open>Finalized days\<close>

text \<open>A request carries the group of its meal; attendance writes keep the requests.\<close>

definition day_inv :: "world \<Rightarrow> bool" where
  "day_inv w \<longleftrightarrow> att_inv w \<and> row_inv w \<and> (\<forall>r\<in>set (corrections_of w). request_belongs w r)"

inductive day_step :: "config \<Rightarrow> world \<Rightarrow> world \<Rightarrow> bool" for cf where
  attendance: "att_step cf user w w' \<Longrightarrow> day_step cf w w'"
| correction: "correction_step cf w w' \<Longrightarrow> day_step cf w w'"

lemma corrections_mark:
  assumes "mark_attendance cf e user org dto allow w = Inr (a, w')"
  shows "corrections_of w' = corrections_of w"
  using assms
proof (cases rule: mark_cases)
  case (put meal eff t)
  from put(3) obtain p w1 where "upsert (en_now e) (en_id e 0) (mark_write e user org dto w meal t p) w = (a, w1)"
    "w' = reconcile_guests e org (ml_group meal) user (md_meal dto) t (mark_status (md_status dto)) user w1"
    by (rule record_mark_cases) (rule that; assumption)
  then show ?thesis by (simp add: corrections_upsert)
qed simp

lemma corrections_bulk [simp]: "corrections_of (bulk_upsert now ids n wrs w) = corrections_of w"
proof (induction wrs arbitrary: n w)
  case (Cons wr wrs)
  have "corrections_of (snd (upsert_with f b wr w)) = corrections_of w" for f b
    by (simp add: upsert_with_def split: option.splits)
  with Cons show ?case by simp
qed simp

lemma att_step_corrections:
  assumes "att_step cf user w w'"
  shows "corrections_of w' = corrections_of w"
  using assms
proof (cases rule: att_step.cases)
  case (override e org who dto correction a)
  then show ?thesis using corrections_mark by (auto simp: admin_override_def split: if_splits)
next
  case (bulk e org entries)
  from bulk(1) show ?thesis by (rule bulk_cases) simp
qed (auto dest: corrections_mark corrections_consented)

lemma find_meal_cong: "w_meals v = w_meals w \<Longrightarrow> find_meal v = find_meal w"
  by (simp add: fun_eq_iff find_meal_def)

lemma keeps_final_meals: "keeps_final w w' \<Longrightarrow> w_meals w' = w_meals w"
  by (auto simp: keeps_final_def dest: final_view_frame)

lemma final_through_requests:
  assumes "keeps_final (set_corrections f w) v" "att_inv w"
  shows "keeps_final w (set_corrections g v)"
  using assms final_view_set_corrections [of f w] final_view_set_corrections [of g v] by (simp add: keeps_final_def)

lemma set_corrections_id [simp]: "set_corrections (\<lambda>x. x) w = w"
  by (simp add: set_corrections_def)

lemma keeps_final_requests: "att_inv w \<Longrightarrow> keeps_final w (set_corrections g w)"
  using final_view_set_corrections [of g w] by (simp add: keeps_final_def)

lemma keeps_final_refl: "att_inv w \<Longrightarrow> keeps_final w w"
  by (simp add: keeps_final_def)

lemma write_decision_final:
  assumes "write_decision cf e by auto existing r w = Inr (res, w')" "att_inv w"
    and "map_option ml_group (find_meal w (cr_org r) (cr_meal r)) = Some (cr_group r)"
  shows "keeps_final w w'"
  using assms(1)
proof (cases rule: write_decision_cases)
  case dispute
  then show ?thesis using assms(2) by (simp add: keeps_final_def)
next
  case (put st sels a)
  show ?thesis by (rule consented_final [OF put(2) assms(2)]) (use assms(3) in \<open>simp add: change_of_def\<close>)
qed

lemma apply_decision_final:
  assumes "apply_decision cf e by nt auto existing r w = Inr (r', w')" "att_inv w"
    and "map_option ml_group (find_meal w (cr_org r) (cr_meal r)) = Some (cr_group r)"
  shows "keeps_final w w'"
proof -
  from assms(1) obtain res w1 f where w: "write_decision cf e by auto existing r w = Inr (res, w1)"
    and w': "w' = update_correction (cr_id r) (cr_org r) f w1" by (rule apply_decision_cases)
  from write_decision_final [OF w assms(2,3)] have "keeps_final (set_corrections (\<lambda>x. x) w) w1" by simp
  then show ?thesis unfolding w' update_correction_def using assms(2) by (rule final_through_requests)
qed

lemma load_pending_final:
  "load_pending e i org w = (res, w') \<Longrightarrow> att_inv w \<Longrightarrow> keeps_final w w'"
  by (erule load_pending_cases) (auto simp: update_correction_def keeps_final_requests keeps_final_refl)

lemma decision_final:
  assumes "day_inv w"
  shows "approve_correction cf e admin org i nt w = (res, w') \<Longrightarrow> keeps_final w w'"
    and "reject_correction e admin org i nt w = (res', w') \<Longrightarrow> keeps_final w w'"
    and "cancel_correction e user org i nt w = (res', w') \<Longrightarrow> keeps_final w w'"
proof -
  have inv: "att_inv w" using assms by (simp add: day_inv_def)
  { assume "approve_correction cf e admin org i nt w = (res, w')"
    then show "keeps_final w w'"
    proof (cases rule: approve_cases)
      case (applied r r')
      from applied(1) have "find_correction w i org = Some r" by (auto elim: load_pending_cases)
      with assms have "map_option ml_group (find_meal w (cr_org r) (cr_meal r)) = Some (cr_group r)"
        by (auto simp: day_inv_def request_belongs_def dest: find_correctionD)
      with applied(5) inv show ?thesis by (rule apply_decision_final)
    qed (use inv load_pending_final in \<open>auto simp: keeps_final_def\<close>) }
  { assume r: "reject_correction e admin org i nt w = (res', w')"
    show "keeps_final w w'"
    proof (cases "load_pending e i org w")
      case (Pair l v)
      with load_pending_final [OF Pair inv] r show ?thesis
        by (auto simp: reject_correction_def bindO_def update_correction_def split: sum.splits if_splits
            intro!: final_through_requests [where f = "\<lambda>x. x"] inv)
    qed }
  { assume r: "cancel_correction e user org i nt w = (res', w')"
    show "keeps_final w w'"
    proof (cases "load_pending e i org w")
      case (Pair l v)
      with load_pending_final [OF Pair inv] r show ?thesis
        by (auto simp: cancel_correction_def bindO_def update_correction_def split: sum.splits if_splits
            intro!: final_through_requests [where f = "\<lambda>x. x"] inv)
    qed }
qed

lemma create_final:
  assumes "create_correction cf e user org dto w = (res, w')" "att_inv w"
  shows "keeps_final w w'"
  using assms(1)
proof (cases rule: create_correction_cases)
  case (refused x)
  then show ?thesis using assms(2) by (simp add: keeps_final_def)
next
  case (created meal t r)
  then show ?thesis using assms(2) by (simp add: keeps_final_requests)
next
  case (decided meal t r nt existing r')
  let ?w1 = "set_corrections (\<lambda>rs. rs @ [r]) w"
  from decided(1) have "find_meal w org (cq_meal dto) = Some meal" by (rule admit_correction_cases)
  then have "map_option ml_group (find_meal ?w1 (cr_org r) (cr_meal r)) = Some (cr_group r)"
    using find_meal_cong [of ?w1 w] by (simp add: decided(2) new_correction_def)
  then have "keeps_final ?w1 w'"
    using decided(4) final_view_set_corrections [of "\<lambda>rs. rs @ [r]" w] assms(2) by (intro apply_decision_final) auto
  then show ?thesis using keeps_final_requests [OF assms(2)] keeps_final_trans by blast
qed

lemma correction_step_final:
  assumes "correction_step cf w w'" "day_inv w"
  shows "keeps_final w w'"
  using assms(1)
proof (cases rule: correction_step.cases)
  case (create e user org dto res)
  then show ?thesis using create_final assms(2) by (auto simp: day_inv_def)
next
  case (listing e user role org q rs)
  then show ?thesis using assms(2)
    by (auto simp: list_corrections_def Let_def expire_due_def day_inv_def keeps_final_requests)
qed (auto dest: decision_final [OF assms(2)])

lemma request_belongs_cong:
  "w_meals v = w_meals w \<Longrightarrow> request_of r = request_of r' \<Longrightarrow> request_belongs v r = request_belongs w r'"
  by (auto simp: request_belongs_def find_meal_cong [of v w] dest: request_of_keys)

lemma advances_request: "advances r r' \<Longrightarrow> request_of r' = request_of r"
  by (auto simp: advances_def)

lemma correction_step_day_inv:
  assumes "correction_step cf w w'" "day_inv w"
  shows "day_inv w'"
proof -
  have final: "keeps_final w w'" by (rule correction_step_final [OF assms])
  from correction_step_rows [OF assms(1)] assms(2) have ids: "row_inv w'"
    and rows: "advanced w w' \<or> (\<exists>r. corrections_of w' = corrections_of w @ [r] \<and> admitted cf w r)"
    by (auto simp: day_inv_def)
  have old: "request_belongs w r" if "r \<in> set (corrections_of w)" for r using assms(2) that by (simp add: day_inv_def)
  have cong: "request_belongs w' r' = request_belongs w r" if "request_of r' = request_of r" for r r'
    using that keeps_final_meals [OF final] by (rule request_belongs_cong [rotated])
  have "request_belongs w' r'" if r': "r' \<in> set (corrections_of w')" for r'
    using rows
  proof
    assume "advanced w w'"
    then obtain f where "corrections_of w' = map f (corrections_of w)"
      "\<forall>r\<in>set (corrections_of w). advances r (f r)" unfolding advanced_def by auto
    with r' obtain r where "r \<in> set (corrections_of w)" "advances r r'" by auto
    then show ?thesis using cong [OF advances_request] old by blast
  next
    assume "\<exists>r. corrections_of w' = corrections_of w @ [r] \<and> admitted cf w r"
    with r' have "request_belongs w r'" using old by (auto simp: admitted_def)
    then show ?thesis using cong [OF refl] by simp
  qed
  with ids final show ?thesis by (simp add: day_inv_def keeps_final_def)
qed

lemma att_step_day_inv:
  assumes "att_step cf user w w'" "day_inv w"
  shows "keeps_final w w' \<and> day_inv w'"
proof -
  have final: "keeps_final w w'" using assms by (auto simp: day_inv_def intro: att_step_final)
  have "request_belongs w' r = request_belongs w r" for r
    using request_belongs_cong [OF keeps_final_meals [OF final] refl] .
  with assms final show ?thesis
    by (simp add: day_inv_def row_inv_def att_step_corrections keeps_final_def)
qed

interpretation day_lock: guarded_steps "day_step cf" day_inv final_view for cf
proof
  fix w w'
  assume inv: "day_inv w" and "day_step cf w w'"
  from this(2) have "keeps_final w w' \<and> day_inv w'"
    by (cases rule: day_step.cases) (use inv in \<open>auto dest: att_step_day_inv correction_step_final correction_step_day_inv\<close>)
  then show "day_inv w'" "final_view w' = final_view w" by (auto simp: keeps_final_def)
qed

text \<open>
  (C26) Finalized days are out of reach of attendance and of the correction workflow: whatever
  sequence of marks, self-marks, bulk marks, correction requests and decisions follows a
  finalization, the records that lie in a finalized period of their group keep status, price
  and policy, and so do the guests of those days.
\<close>

theorem finalized_days_frozen:
  assumes "(day_step cf)\<^sup>*\<^sup>* w w'" and "day_inv w"
  shows "locked_records w' = locked_records w \<and> locked_guests w' = locked_guests w"
  using day_lock.obs_run [OF assms] by (simp add: final_view_def)

section \<open>What an approval writes\<close>

lemma upsert_fields:
  assumes "upsert now i wr w = (a, w1)"
  shows "row_slot a = slot_of wr" "at_status a = wr_status wr" "at_price a = wr_price wr"
    "at_marked_by a = wr_marked_by wr" "wr_source wr = Some s \<Longrightarrow> at_source a = s"
    "wr_source_request wr = Some q \<Longrightarrow> at_source_request a = q"
  using assms fst_upsert_slot [of now i wr w]
  by (auto simp: upsert_def upsert_with_def upsert_update_def upsert_create_def split: option.splits)

lemma consented_writes:
  assumes "apply_consented_change cf e org c w = Inr (a, w')"
  obtains t where "to_utc_midnight (cc_date c) = Some t" "\<not> period_locked w org (cc_group c) t"
    "book_of w' = (book_of w)((cc_user c, cc_meal c, t) \<mapsto> strip_counters a)"
    "at_status a = cc_status c" "at_marked_by a = cc_marked_by c" "at_source a = Some (cc_source c)"
    "at_source_request a = cc_source_request c"
proof -
  from assms obtain t p w1 where t: "to_utc_midnight (cc_date c) = Some t" "\<not> period_locked w org (cc_group c) t"
    and up: "upsert (en_now e) (en_id e 0)
       (consented_write e org c (Option.bind (find_meal w org (cc_meal c)) (meal_group w)) t p) w = (a, w1)"
    and w': "w' = reconcile_guests e org (cc_group c) (cc_user c) (cc_meal c) t (cc_status c) (cc_actor c) w1"
    by (rule consented_cases) (rule that; assumption)
  let ?wr = "consented_write e org c (Option.bind (find_meal w org (cc_meal c)) (meal_group w)) t p"
  have "book_of w1 = (book_of w)(slot_of ?wr \<mapsto> strip_counters a)"
    using book_upsert_mark [of "en_now e" "en_id e 0" ?wr w] by (simp add: up)
  with t w' upsert_fields [OF up] show thesis
    by (intro that [of t]) (simp_all add: consented_write_def slot_of_def)
qed

text \<open>
  An approval is the other person's consent to exactly what was asked.  The reviewer is
  not the requester, who is still an active member; the request was pending and not expired,
  and keeps its text.  A charge dispute writes no record.  Any other approval writes the one
  record of that member, meal and day, outside every finalized period, with the requested
  status (the stored one for a preference fix), the request as its source and the reviewer as
  its author, and the request points to that record.
\<close>

lemma approval_writes_request:
  assumes "approve_correction cf e admin org i nt w = (Inr r', w')"
  shows "\<exists>r. find_correction w i org = Some r \<and> cr_status r = ReqPending \<and> en_now e \<le> cr_expires_at r
    \<and> cr_user r \<noteq> admin \<and> is_active_member w (cr_group r) (cr_user r)
    \<and> request_of r' = request_of r \<and> cr_status r' = ReqApproved \<and> cr_reviewed_by r' = Some admin
    \<and> (if cr_type r = DisputeCharge then book_of w' = book_of w \<and> cr_result r' = None
       else \<exists>t a. to_utc_midnight (format_utc_date (cr_date r)) = Some t \<and> \<not> period_locked w org (cr_group r) t
         \<and> book_of w' = (book_of w)((cr_user r, cr_meal r, t) \<mapsto> strip_counters a) \<and> cr_result r' = Some (at_id a)
         \<and> Some (at_status a) = (if cr_type r = FixPreference
               then map_option at_status (find_by_key w (cr_user r) (cr_meal r) (cr_date r) org)
               else Some (nullish (cr_requested_status r) Present))
         \<and> at_source a = Some ''request'' \<and> at_source_request a = Some i \<and> at_marked_by a = Some admin)"
  using assms
proof (cases rule: approve_cases)
  case (applied r r'')
  from applied(1) have r: "find_correction w i org = Some r" "cr_status r = ReqPending" "\<not> expired e r"
    by (auto elim: load_pending_cases)
  have keys: "cr_id r = i" "cr_org r = org" using find_correctionD [OF r(1)] by auto
  from applied(5) obtain res w1 where d: "write_decision cf e admin False None r w = Inr (res, w1)"
    and r'': "r'' = approved_by e admin nt False res r" and w': "book_of w' = book_of w1"
    by (rule apply_decision_cases) simp
  have fixed: "request_of r' = request_of r \<and> cr_status r' = ReqApproved \<and> cr_reviewed_by r' = Some admin
      \<and> cr_result r' = res"
    using applied(2,6) r'' by (simp add: request_of_def approved_by_def)
  have now: "en_now e \<le> cr_expires_at r" using r by (auto simp: expired_def)
  from d show ?thesis
  proof (cases rule: write_decision_cases)
    case dispute
    then show ?thesis using r applied(3,4) fixed now w' by (intro exI [of _ r]) simp
  next
    case (put st sels a)
    from put(2) obtain t where t: "to_utc_midnight (format_utc_date (cr_date r)) = Some t"
      "\<not> period_locked w org (cr_group r) t"
      "book_of w' = (book_of w)((cr_user r, cr_meal r, t) \<mapsto> strip_counters a)"
      and st: "at_status a = st"
      and src: "at_source a = Some ''request''" "at_source_request a = Some i" "at_marked_by a = Some admin"
      by (rule consented_writes) (simp add: change_of_def keys w')
    have "Some (at_status a) = (if cr_type r = FixPreference
        then map_option at_status (find_by_key w (cr_user r) (cr_meal r) (cr_date r) org)
        else Some (nullish (cr_requested_status r) Present))"
      using put(1,4,5) by (cases "cr_type r") (auto simp: status_change_def keys st)
    moreover have "cr_result r' = Some (at_id a)" using fixed put(3) by simp
    ultimately show ?thesis using r(1,2) applied(3,4) fixed now t src
      by (intro exI [of _ r]) (simp only: put(1) if_False simp_thms, blast)
  qed
qed auto

section \<open>Concrete inputs\<close>

definition ex_at :: "string \<Rightarrow> env" where
  "ex_at time = ex_env\<lparr>en_time := (\<lambda>_. time)\<rparr>"

definition ex_ask :: "correction_type \<Rightarrow> string option \<Rightarrow> correction_dto" where
  "ex_ask ty pref = \<lparr>cq_meal = ''m'', cq_date = ''2026-07-10'', cq_type = ty, cq_preference = pref,
     cq_selections = None, cq_reason = None, cq_evidence = None\<rparr>"

definition ex_request :: correction_row where
  "ex_request = new_correction ex_config (ex_at ''15:00'') ''u'' ''o'' (ex_ask CorrectToAbsent None) ''g'' (day_of ''2026-07-10'')"

definition ex_asked :: world where
  "ex_asked = set_corrections (\<lambda>_. [ex_request]) ex_day"

definition ex_decided :: "correction_row outcome" where
  "ex_decided = approve_correction ex_config (ex_at ''16:00'') ''admin'' ''o'' ''new01'' (Some ''ok'') ex_asked"

lemma ex_request_created:
  "create_correction ex_config (ex_at ''15:00'') ''u'' ''o'' (ex_ask CorrectToAbsent None) ex_day = (Inr ex_request, ex_asked)"
  by code_simp

lemma ex_approve: "\<exists>r'. approve_correction ex_config (ex_at ''16:00'') ''admin'' ''o'' ''new01'' (Some ''ok'') ex_asked
    = (Inr r', snd ex_decided)"
proof -
  have "\<not> isl (fst ex_decided)" by code_simp
  then obtain r' where "fst ex_decided = Inr r'" by (cases "fst ex_decided") auto
  then show ?thesis unfolding ex_decided_def [symmetric] by (metis prod.collapse)
qed

lemma ex_asked_rows: "corrections_of ex_asked = [ex_request]"
  by (simp add: ex_asked_def)

lemma ex_correction_run: "(correction_step ex_config)\<^sup>*\<^sup>* ex_day ex_asked"
  using correction_step.create [OF ex_request_created] by (simp add: ex_asked_rows r_into_rtranclp)

lemma ex_decided_step: "correction_step ex_config ex_asked (snd ex_decided)"
  using ex_approve correction_step.approve by blast

lemma ex_decided_run: "(correction_step ex_config)\<^sup>*\<^sup>* ex_day (snd ex_decided)"
  using ex_correction_run ex_decided_step by (rule rtranclp.rtrancl_into_rtrancl)

lemma ex_day_requests: "corrections_of ex_day = []"
  by (simp add: ex_day_def ex_world_def)

theorem open_requests_limited_witness:
  "length (filter (open_at ''o'' ''u'' ''m'' (day_of ''2026-07-10'')) (corrections_of ex_asked)) = 1
   \<and> count_open_for_user ex_asked ''o'' ''u'' \<le> 3"
proof (rule conjI)
  have "correction_inv ex_config ex_day"
    by (simp add: correction_inv_def row_inv_def within_limits_def count_open_for_user_def ex_day_requests ex_config_def)
  from open_requests_limited [OF ex_correction_run this]
  show "count_open_for_user ex_asked ''o'' ''u'' \<le> 3" by (auto simp: ex_config_def)
  show "length (filter (open_at ''o'' ''u'' ''m'' (day_of ''2026-07-10'')) (corrections_of ex_asked)) = 1" by code_simp
qed

lemma ex_day_day_inv: "day_inv ex_day"
  using ex_day_inv by (simp add: day_inv_def sel_inv_def row_inv_def ex_day_requests)

theorem finalized_days_frozen_witness:
  "locked_records (snd ex_decided) = [ex_meal ''a0'' ''2026-06-05'' 50] \<and> locked_guests (snd ex_decided) = []"
proof -
  have "(day_step ex_config)\<^sup>*\<^sup>* ex_day (snd ex_decided)"
    using ex_decided_run by (rule rtranclp_mono [THEN predicate2D, rotated]) (auto intro: day_step.correction)
  from finalized_days_frozen [OF this ex_day_day_inv]
  have e: "locked_records (snd ex_decided) = locked_records ex_day" "locked_guests (snd ex_decided) = locked_guests ex_day"
    by auto
  have d: "locked_records ex_day = [ex_meal ''a0'' ''2026-06-05'' 50]" "locked_guests ex_day = []" by code_simp+
  show ?thesis unfolding e d by simp
qed

section \<open>What the code lets through\<close>

text \<open>
  A correction is accepted before the window opens: the check only excludes the window itself.
\<close>

lemma early_correction_accepted:
  "get_window_state ''11:00'' (Some ''12:00'') (Some ''14:00'') 0 = Upcoming
   \<and> \<not> isl (fst (create_correction ex_config (ex_at ''11:00'') ''u'' ''o'' (ex_ask CorrectToAbsent None) ex_day))"
  by code_simp

text \<open>
  A preference fix rewrites the price to the bare meal price while the priced picks stay.
\<close>

lemma preference_fix_changes_price:
  "map_option at_price (record_at ex_marked ''u'' ''m'' (day_of ''2026-07-10'')) = Some (Some 120)
   \<and> map_option (\<lambda>a. (at_price a, at_preferences a))
       (record_at (snd (create_correction ex_config (ex_at ''15:00'') ''u'' ''o'' (ex_ask FixPreference (Some ''veg'')) ex_marked))
         ''u'' ''m'' (day_of ''2026-07-10''))
     = Some (Some 60, Some (vs_rows ex_validated))"
  by code_simp

text \<open>The daily limit counts from midnight UTC: requests between local midnight and then do not count.\<close>

definition ex_night_request :: "nat \<Rightarrow> correction_row" where
  "ex_night_request n = ex_request\<lparr>cr_id := ''old'' @ pad2 (int n), cr_status := ReqCancelled,
     cr_created_at := day_of ''2026-07-10'' - 4 * 60 * 60 * 1000\<rparr>"

lemma daily_limit_misses_night:
  "\<not> isl (fst (create_correction ex_config (ex_at ''15:00'') ''u'' ''o'' (ex_ask CorrectToAbsent None)
      (set_corrections (\<lambda>_. map ex_night_request [0, 1, 2, 3, 4]) ex_day)))"
  by code_simp

text \<open>
  Where the group switched preferences off, a mark needs no picks, but a claim of the same
  meal is refused without them.
\<close>

definition ex_prefs_off :: world where
  "ex_prefs_off = ex_day\<lparr>w_db := (w_db ex_day)\<lparr>db_groups := [ex_guest_group\<lparr>gr_prefs_enabled := False\<rparr>]\<rparr>\<rparr>"

lemma claim_demands_hidden_picks:
  "\<not> isl (mark_attendance ex_config ex_env ''u'' ''o'' (ex_mark Present []) False ex_prefs_off)
   \<and> isl (fst (create_correction ex_config (ex_at ''15:00'') ''u'' ''o'' (ex_ask ClaimPresent None) ex_prefs_off))"
  by code_simp

text \<open>
  Loading a pending request and writing its decision are separate queries, and the write does
  not look at the status again.  A rejection loaded before an approval and written after it
  leaves a rejected request whose change stands on the record.
\<close>

lemma stale_rejection_overwrites:
  "let w = update_correction ''new01'' ''o'' (rejected_by (ex_at ''16:00'') ''admin2'' None) (snd ex_decided)
   in map cr_status (corrections_of w) = [ReqRejected]
      \<and> map_option at_status (record_at w ''u'' ''m'' (day_of ''2026-07-10'')) = Some Absent
      \<and> map_option at_source_request (record_at w ''u'' ''m'' (day_of ''2026-07-10'')) = Some (Some ''new01'')"
  by code_simp

end
