(* ===== verification/System_Default.thy ===== *)
theory System_Default
  imports Attendance_Laws
begin

text \<open>
  The two attendance sweeps of \<open>src/src/workers/system-default.worker.ts\<close>: personal
  auto-attendance while a window is open, and the system record for every member who did not
  respond once it has closed.  The jobs run one at a time; pushes, cache keys, realtime events
  and audit are left out.
\<close>

section \<open>Inputs and state\<close>

text \<open>
  Beside the clock a sweep reads whether a reminder was dispatched for a meal (two Redis
  flags) and takes fresh ids.  Its state is the world with the Redis once-keys that are set;
  a key names its date and lives longer than that day, so it never expires within it.
\<close>

record sweep_env = env +
  se_reminded :: "ident \<Rightarrow> ident \<Rightarrow> bool"
  se_fresh :: "ident \<Rightarrow> ident \<Rightarrow> ident"

type_synonym swept = "world \<times> string list"

definition window_minutes :: "string \<Rightarrow> string \<Rightarrow> int option" where
  "window_minutes open close =
     (case (hhmm_to_minutes_since_midnight open, hhmm_to_minutes_since_midnight close) of
        (Some o', Some c) \<Rightarrow> Some (if o' \<le> c then c - o' else 24 * 60 - o' + c)
      | _ \<Rightarrow> None)"

section \<open>What a sweep decides for a meal\<close>

definition group_meals :: "world \<Rightarrow> group_row \<Rightarrow> meal_row list" where
  "group_meals w g =
     filter (\<lambda>m. ml_group m = gr_id g \<and> ml_org m = gr_org g \<and> ml_attendance_enabled m) (w_meals w)"

definition sweep_today :: "sweep_env \<Rightarrow> world \<Rightarrow> group_row \<Rightarrow> string" where
  "sweep_today e w g = en_date e (org_tz w (gr_org g))"

definition sweep_now :: "sweep_env \<Rightarrow> world \<Rightarrow> group_row \<Rightarrow> string" where
  "sweep_now e w g = en_time e (org_tz w (gr_org g))"

definition sweep_entries :: "sweep_env \<Rightarrow> world \<Rightarrow> group_row \<Rightarrow> exn + (ident \<times> day_entry) list" where
  "sweep_entries e w g =
     (if \<not> gr_meals_enabled g then Inr [] else published_day w (gr_org g) (gr_id g) (sweep_today e w g))"

text \<open>Archived meals and planner days without the meal are passed over.\<close>

definition served :: "group_row \<Rightarrow> day_entry option \<Rightarrow> meal_row \<Rightarrow> bool" where
  "served g entry m \<longleftrightarrow>
     (ml_is_active m \<or> planner_active (Some g)) \<and> (planner_active (Some g) \<longrightarrow> entry \<noteq> None)"

definition has_bound_groups :: "world \<Rightarrow> ident \<Rightarrow> bool" where
  "has_bound_groups w meal \<longleftrightarrow> (\<exists>b\<in>set (w_bindings w). bd_meal_id b = meal \<and> bd_is_active b)"

definition frozen_mode :: "string \<Rightarrow> day_entry \<Rightarrow> bool" where
  "frozen_mode mode en \<longleftrightarrow> (case de_preference en of None \<Rightarrow> False | Some p \<Rightarrow> ps_enabled p \<and> ps_mode p = mode)"

definition day_flat_prefs :: "day_entry option \<Rightarrow> meal_row \<Rightarrow> bool" where
  "day_flat_prefs entry m =
     (case entry of
        None \<Rightarrow> ml_prefs_enabled m
      | Some en \<Rightarrow> if de_frozen en then frozen_mode ''standalone'' en
                   else nullish (de_prefs_enabled en) (ml_prefs_enabled m))"

definition day_group_prefs :: "world \<Rightarrow> day_entry option \<Rightarrow> meal_row \<Rightarrow> bool" where
  "day_group_prefs w entry m =
     (case entry of
        None \<Rightarrow> has_bound_groups w (ml_id m)
      | Some en \<Rightarrow> if de_frozen en then frozen_mode ''group'' en
                   else has_bound_groups w (ml_id m) \<and> de_prefs_enabled en \<noteq> Some False)"

definition preference_required :: "world \<Rightarrow> day_entry option \<Rightarrow> meal_row \<Rightarrow> bool" where
  "preference_required w entry m \<longleftrightarrow> day_flat_prefs entry m \<or> day_group_prefs w entry m"

definition sweep_window :: "day_entry option \<Rightarrow> meal_row \<Rightarrow> string option \<times> string option" where
  "sweep_window entry m =
     (case entry of
        None \<Rightarrow> (rm_window_open m, rm_window_close m)
      | Some en \<Rightarrow> if truthy (de_open_time en) then (de_open_time en, de_close_time en)
                   else (rm_window_open m, rm_window_close m))"

definition sweep_price :: "group_row \<Rightarrow> day_entry option \<Rightarrow> meal_row \<Rightarrow> int option" where
  "sweep_price g entry m =
     (if \<not> gr_meals_enabled g then None else nullish_opt (Option.bind entry de_price) (rm_price m))"

definition sweep_grace :: "group_row \<Rightarrow> int" where
  "sweep_grace g = max 0 (nullish (gr_grace_minutes g) 0)"

text \<open>
  At close: Present under the opt-out policy unless the meal asks for picks, Skipped
  otherwise; a Skip carries the price only where the group bills skipped meals.
\<close>

definition close_status :: "world \<Rightarrow> group_row \<Rightarrow> day_entry option \<Rightarrow> meal_row \<Rightarrow> att_status" where
  "close_status w g entry m =
     (if gr_attendance_default g = Some ''present'' \<and> \<not> preference_required w entry m then Present else Skipped)"

definition close_decision ::
  "sweep_env \<Rightarrow> int \<Rightarrow> world \<Rightarrow> group_row \<Rightarrow> day_entry option \<Rightarrow> meal_row
     \<Rightarrow> (att_status \<times> int option \<times> string option) option" where
  "close_decision e default_floor w g entry m =
     (let st = close_status w g entry m; (open, close) = sweep_window entry m
      in if \<not> served g entry m \<or> \<not> truthy open \<or> \<not> truthy close then None
         else if get_window_state (sweep_now e w g) open close (sweep_grace g) \<noteq> Closed then None
         else if st = Present
                 \<and> js_lt (window_minutes (the open) (the close)) (Some (nullish (gr_min_opt_out g) default_floor))
         then None
         else Some (st, if st = Skipped \<and> \<not> gr_bill_skipped g then None else sweep_price g entry m, open))"

text \<open>While open: Present for meals that ask for no picks.\<close>

definition open_decision ::
  "sweep_env \<Rightarrow> world \<Rightarrow> group_row \<Rightarrow> day_entry option \<Rightarrow> meal_row \<Rightarrow> (att_status \<times> int option \<times> string option) option" where
  "open_decision e w g entry m =
     (let (open, close) = sweep_window entry m
      in if \<not> served g entry m \<or> preference_required w entry m \<or> \<not> truthy open \<or> \<not> truthy close then None
         else if get_window_state (sweep_now e w g) open close (sweep_grace g) \<notin> {Open, Grace} then None
         else Some (Present, sweep_price g entry m, open))"

section \<open>Writing the records\<close>

text \<open>\<open>createMany\<close> with \<open>skipDuplicates\<close> on (user, meal, date).\<close>

fun create_missing :: "attendance_row list \<Rightarrow> attendance_row list \<Rightarrow> attendance_row list" where
  "create_missing rs [] = rs"
| "create_missing rs (r # new) =
     create_missing (if row_slot r \<in> row_slot ` set rs then rs else rs @ [r]) new"

definition system_row ::
  "sweep_env \<Rightarrow> group_row \<Rightarrow> ident \<Rightarrow> int \<Rightarrow> att_status \<Rightarrow> int option \<Rightarrow> ident \<Rightarrow> attendance_row" where
  "system_row e g meal t st price user =
     \<lparr>at_id = se_fresh e meal user, at_org = gr_org g, at_group = gr_id g, at_user = user, at_meal = meal,
      at_date = t, at_status = st, at_preference = None, at_preferences = None, at_note = None,
      at_marked_at = Some (en_now e), at_marked_by = None, at_price = price, at_bill_absent = None,
      at_source = Some ''system_default'', at_source_request = None, at_guest_adults = 0, at_guest_children = 0\<rparr>"

definition sweep_candidates :: "world \<Rightarrow> member_row list \<Rightarrow> (ident \<times> bool) list" where
  "sweep_candidates w ms =
     map (\<lambda>x. (gm_user x, resolve_member_flag (gm_vacation x) (map_option us_vacation (find_user w (gm_user x))))) ms"

definition sweep_on_vacation ::
  "sweep_env \<Rightarrow> world \<Rightarrow> group_row \<Rightarrow> meal_row \<Rightarrow> int \<Rightarrow> string option \<Rightarrow> member_row list \<Rightarrow> ident list" where
  "sweep_on_vacation e w g m t open ms =
     vacation_covered (w_vacations w) (slot_meals w) (published_day w (gr_org g) (gr_id g) (format_utc_date t))
       (gr_org g) (gr_id g) t open (Some (rm_slot_key m)) (sweep_candidates w ms)"

definition eligible_members ::
  "sweep_env \<Rightarrow> world \<Rightarrow> group_row \<Rightarrow> meal_row \<Rightarrow> int \<Rightarrow> string option \<Rightarrow> (member_row \<Rightarrow> bool) \<Rightarrow> member_row list
     \<Rightarrow> member_row list" where
  "eligible_members e w g m t open waived ms =
     filter (\<lambda>x. (\<forall>a\<in>set (records_of w). \<not> (at_meal a = ml_id m \<and> at_date a = t \<and> at_user a = gm_user x))
               \<and> gm_user x \<notin> set (sweep_on_vacation e w g m t open ms) \<and> waived x) ms"

definition fill_records ::
  "sweep_env \<Rightarrow> group_row \<Rightarrow> meal_row \<Rightarrow> int \<Rightarrow> att_status \<times> int option \<times> string option
     \<Rightarrow> (member_row \<Rightarrow> bool) \<Rightarrow> member_row list \<Rightarrow> world \<Rightarrow> world" where
  "fill_records e g m t d waived ms w =
     (case d of (st, price, open) \<Rightarrow>
        set_records (\<lambda>rs. create_missing rs
          (map (\<lambda>x. system_row e g (ml_id m) t st price (gm_user x)) (eligible_members e w g m t open waived ms))) w)"

definition active_members :: "world \<Rightarrow> group_row \<Rightarrow> member_row list" where
  "active_members w g = filter (\<lambda>x. gm_group x = gr_id g \<and> gm_status x = MemberActive) (db_members (w_db w))"

definition once_key :: "string \<Rightarrow> group_row \<Rightarrow> meal_row \<Rightarrow> string \<Rightarrow> string" where
  "once_key tag g m date_str = tag @ gr_org g @ '':'' @ ml_id m @ '':'' @ date_str"

text \<open>
  A system Skip goes to every non-responder; a Present needs a reminder that went out, or a
  member who waived reminders.
\<close>

definition materialize_meal ::
  "sweep_env \<Rightarrow> group_row \<Rightarrow> meal_row \<Rightarrow> string \<Rightarrow> int \<Rightarrow> att_status \<times> int option \<times> string option \<Rightarrow> swept \<Rightarrow> swept" where
  "materialize_meal e g m date_str t d s =
     (case s of (w, done) \<Rightarrow>
        if once_key ''sysdefault:done:'' g m date_str \<in> set done then (w, done)
        else
          let reminded = (fst d = Skipped \<or> se_reminded e (gr_org g) (ml_id m));
              waived = (\<lambda>x. reminded \<or> map_option us_reminders (find_user w (gm_user x)) = Some False)
          in (fill_records e g m t d waived (active_members w g) w, once_key ''sysdefault:done:'' g m date_str # done))"

definition auto_member :: "world \<Rightarrow> member_row \<Rightarrow> bool" where
  "auto_member w x =
     (case find_user w (gm_user x) of
        None \<Rightarrow> gm_default x = Some True
      | Some u \<Rightarrow> member_flag_where True (gm_default x) (us_default u))"

definition materialize_auto ::
  "sweep_env \<Rightarrow> group_row \<Rightarrow> meal_row \<Rightarrow> string \<Rightarrow> int \<Rightarrow> att_status \<times> int option \<times> string option \<Rightarrow> swept \<Rightarrow> swept" where
  "materialize_auto e g m date_str t d s =
     (case s of (w, done) \<Rightarrow>
        if once_key ''autoattend:done:'' g m date_str \<in> set done then (w, done)
        else
          (fill_records e g m t d (\<lambda>_. True) (filter (auto_member w) (active_members w g)) w,
           once_key ''autoattend:done:'' g m date_str # done))"

section \<open>The sweeps\<close>

text \<open>An error while a group is prepared is logged, and the next group goes on.\<close>

definition sweep_meals ::
  "(group_row \<Rightarrow> day_entry option \<Rightarrow> meal_row \<Rightarrow> (att_status \<times> int option \<times> string option) option)
     \<Rightarrow> (group_row \<Rightarrow> meal_row \<Rightarrow> string \<Rightarrow> int \<Rightarrow> att_status \<times> int option \<times> string option \<Rightarrow> swept \<Rightarrow> swept)
     \<Rightarrow> sweep_env \<Rightarrow> world \<Rightarrow> group_row \<Rightarrow> swept \<Rightarrow> swept" where
  "sweep_meals decide put e w g s =
     (case (to_utc_midnight (sweep_today e w g), sweep_entries e w g) of
        (Some t, Inr day) \<Rightarrow>
          fold (\<lambda>m s. case decide g (map_of day (ml_id m)) m of
                  None \<Rightarrow> s | Some d \<Rightarrow> put g m (sweep_today e w g) t d s) (group_meals w g) s
      | _ \<Rightarrow> s)"

definition sweep_group :: "sweep_env \<Rightarrow> int \<Rightarrow> group_row \<Rightarrow> swept \<Rightarrow> swept" where
  "sweep_group e default_floor g s =
     sweep_meals (close_decision e default_floor (fst s)) (materialize_meal e) e (fst s) g s"

definition close_sweep :: "sweep_env \<Rightarrow> int \<Rightarrow> swept \<Rightarrow> swept" where
  "close_sweep e default_floor s =
     fold (sweep_group e default_floor) (filter gr_is_active (db_groups (w_db (fst s)))) s"

definition auto_sweep_group :: "sweep_env \<Rightarrow> group_row \<Rightarrow> swept \<Rightarrow> swept" where
  "auto_sweep_group e g s = sweep_meals (open_decision e (fst s)) (materialize_auto e) e (fst s) g s"

definition auto_sweep :: "sweep_env \<Rightarrow> swept \<Rightarrow> swept" where
  "auto_sweep e s =
     fold (auto_sweep_group e)
       (filter (\<lambda>g. gr_is_active g \<and> (\<exists>x\<in>set (active_members (fst s) g). auto_member (fst s) x))
          (db_groups (w_db (fst s)))) s"

end
