(* ===== verification/System_Default_Laws.thy ===== *)
theory System_Default_Laws
  imports System_Default
begin

text \<open>
  What the sweeps guarantee: they only fill empty slots of members the policy names, never a
  member's own record, and a second run changes nothing.
\<close>

section \<open>What the decisions read\<close>

text \<open>Everything a sweep decides from is outside the records it writes.\<close>

lemma set_records_frame [simp]:
  "w_meals (set_records f w) = w_meals w" "w_users (set_records f w) = w_users w" "w_orgs (set_records f w) = w_orgs w"
  "w_vacations (set_records f w) = w_vacations w" "w_schedules (set_records f w) = w_schedules w"
  "w_bindings (set_records f w) = w_bindings w" "db_groups (w_db (set_records f w)) = db_groups (w_db w)"
  "db_members (w_db (set_records f w)) = db_members (w_db w)"
  by (simp_all add: set_records_def)

lemma set_records_comp [simp]: "set_records f (set_records g w) = set_records (f \<circ> g) w"
  by (simp add: set_records_def)

lemma set_records_id: "set_records (\<lambda>rs. rs) w = w"
  by (simp add: set_records_def)

lemma raw_meals_frame [simp]: "raw_meals (set_records f w) = raw_meals w"
  by (simp add: fun_eq_iff raw_meals_def)

lemma sweep_reads_frame [simp]:
  "org_tz (set_records f w) = org_tz w" "find_user (set_records f w) = find_user w"
  "published_day (set_records f w) = published_day w" "slot_meals (set_records f w) = slot_meals w"
  "has_bound_groups (set_records f w) = has_bound_groups w"
  "group_meals (set_records f w) = group_meals w" "active_members (set_records f w) = active_members w"
  by (simp_all add: fun_eq_iff org_tz_def find_user_def published_day_def slot_meals_def
      has_bound_groups_def group_meals_def active_members_def find_group_def)

lemma preference_required_frame [simp]: "preference_required (set_records f w) = preference_required w"
  by (simp add: fun_eq_iff preference_required_def day_group_prefs_def cong: option.case_cong)

lemma sweep_clock_frame [simp]:
  "sweep_today e (set_records f w) = sweep_today e w" "sweep_now e (set_records f w) = sweep_now e w"
  by (simp_all add: fun_eq_iff sweep_today_def sweep_now_def)

lemma sweep_decisions_frame [simp]:
  "sweep_entries e (set_records f w) = sweep_entries e w"
  "close_decision e n (set_records f w) = close_decision e n w" "open_decision e (set_records f w) = open_decision e w"
  "auto_member (set_records f w) = auto_member w"
  "sweep_candidates (set_records f w) = sweep_candidates w"
  by (simp_all add: fun_eq_iff sweep_entries_def close_decision_def close_status_def open_decision_def
      auto_member_def sweep_candidates_def split: prod.split)

lemma sweep_on_vacation_frame [simp]: "sweep_on_vacation e (set_records f w) = sweep_on_vacation e w"
  by (simp add: fun_eq_iff sweep_on_vacation_def)

section \<open>Filling empty slots\<close>

lemma create_missing_append:
  "\<exists>new. create_missing rs rows = rs @ new \<and> set new \<subseteq> set rows
     \<and> (\<forall>r\<in>set new. row_slot r \<notin> row_slot ` set rs) \<and> distinct (map row_slot new)"
proof (induction rs rows rule: create_missing.induct)
  case (2 rs r rows)
  show ?case
  proof (cases "row_slot r \<in> row_slot ` set rs")
    case True
    with 2 show ?thesis by auto
  next
    case False
    with 2 obtain new where "create_missing (rs @ [r]) rows = (rs @ [r]) @ new" "set new \<subseteq> set rows"
      "\<forall>x\<in>set new. row_slot x \<notin> row_slot ` set (rs @ [r])" "distinct (map row_slot new)" by auto
    with False show ?thesis by (intro exI [of _ "r # new"]) auto
  qed
qed simp

text \<open>The record a decision for a meal may write.\<close>

definition member_record ::
  "sweep_env \<Rightarrow> world \<Rightarrow> group_row \<Rightarrow> meal_row \<Rightarrow> int \<Rightarrow> att_status \<times> int option \<times> string option \<Rightarrow> attendance_row \<Rightarrow> bool" where
  "member_record e w g m t d r \<longleftrightarrow>
     (\<exists>x\<in>set (active_members w g). r = system_row e g (ml_id m) t (fst d) (fst (snd d)) (gm_user x)
        \<and> gm_user x \<notin> set (sweep_on_vacation e w g m t (snd (snd d)) [x]))"

lemma on_vacation_single:
  "gm_user x \<in> set (sweep_on_vacation e w g m t open [x]) \<Longrightarrow> x \<in> set ms
     \<Longrightarrow> gm_user x \<in> set (sweep_on_vacation e w g m t open ms)"
  by (auto simp: sweep_on_vacation_def sweep_candidates_def vacation_covered_iff)

text \<open>A run of writes: new records behind the old ones, each in a slot that was empty.\<close>

definition fills :: "(attendance_row \<Rightarrow> bool) \<Rightarrow> world \<Rightarrow> world \<Rightarrow> bool" where
  "fills P w w' \<longleftrightarrow> (\<exists>new. w' = set_records (\<lambda>rs. rs @ new) w \<and> distinct (map row_slot new)
     \<and> (\<forall>r\<in>set new. P r \<and> row_slot r \<notin> row_slot ` set (records_of w)))"

lemma fills_refl [simp]: "fills P w w"
  unfolding fills_def by (intro exI [of _ "[]"]) (simp add: set_records_id)

lemma fills_trans: "fills P u v \<Longrightarrow> fills P v w \<Longrightarrow> fills P u w"
proof -
  assume "fills P u v" "fills P v w"
  then obtain a b where a: "v = set_records (\<lambda>rs. rs @ a) u" "distinct (map row_slot a)"
      "\<forall>r\<in>set a. P r \<and> row_slot r \<notin> row_slot ` set (records_of u)"
    and b: "w = set_records (\<lambda>rs. rs @ b) v" "distinct (map row_slot b)"
      "\<forall>r\<in>set b. P r \<and> row_slot r \<notin> row_slot ` set (records_of v)" unfolding fills_def by auto
  have "w = set_records (\<lambda>rs. rs @ (a @ b)) u" by (simp add: a(1) b(1) o_def)
  moreover have "distinct (map row_slot (a @ b))" using a b by (auto simp: a(1))
  moreover have "\<forall>r\<in>set (a @ b). P r \<and> row_slot r \<notin> row_slot ` set (records_of u)" using a b by (auto simp: a(1))
  ultimately show ?thesis unfolding fills_def by blast
qed

lemma fills_mono: "fills P w w' \<Longrightarrow> (\<And>r. P r \<Longrightarrow> Q r) \<Longrightarrow> fills Q w w'"
  unfolding fills_def by blast

lemma fills_frame: "fills P w w' \<Longrightarrow> \<exists>f. w' = set_records f w"
  unfolding fills_def by blast

lemma fill_records_fills:
  assumes "set ms \<subseteq> set (active_members w g)"
  shows "fills (member_record e w g m t d) w (fill_records e g m t d waived ms w)"
proof -
  obtain st price op where d: "d = (st, price, op)" by (cases d)
  let ?rows = "map (\<lambda>x. system_row e g (ml_id m) t st price (gm_user x)) (eligible_members e w g m t op waived ms)"
  obtain new where new: "create_missing (records_of w) ?rows = records_of w @ new" "set new \<subseteq> set ?rows"
    "\<forall>r\<in>set new. row_slot r \<notin> row_slot ` set (records_of w)" "distinct (map row_slot new)"
    using create_missing_append by blast
  have "fill_records e g m t d waived ms w = set_records (\<lambda>rs. rs @ new) w"
    unfolding fill_records_def d prod.case set_records_def new(1) ..
  moreover have "member_record e w g m t d r" if "r \<in> set ?rows" for r
    using that assms unfolding member_record_def d eligible_members_def by (auto dest: on_vacation_single)
  ultimately show ?thesis unfolding fills_def using new by blast
qed

lemma member_record_frame [simp]: "member_record e (set_records f w) = member_record e w"
  by (simp add: fun_eq_iff member_record_def)

section \<open>Folding over meals and groups\<close>

definition keeps_keys :: "swept \<Rightarrow> swept \<Rightarrow> bool" where
  "keeps_keys s s' \<longleftrightarrow> set (snd s) \<subseteq> set (snd s')"

definition grows :: "(attendance_row \<Rightarrow> bool) \<Rightarrow> swept \<Rightarrow> swept \<Rightarrow> bool" where
  "grows P s s' \<longleftrightarrow> fills P (fst s) (fst s') \<and> keeps_keys s s'"

lemma grows_refl [simp]: "grows P s s"
  by (simp add: grows_def keeps_keys_def)

lemma grows_trans: "grows P s t \<Longrightarrow> grows P t u \<Longrightarrow> grows P s u"
  unfolding grows_def keeps_keys_def by (blast intro: fills_trans)

lemma grows_fold:
  assumes "\<And>x t. x \<in> set xs \<Longrightarrow> grows P s t \<Longrightarrow> grows P t (F x t)"
  shows "grows P s (fold F xs s)"
  using assms
proof (induction xs rule: rev_induct)
  case (snoc x xs)
  then have "grows P s (fold F xs s)" by simp
  moreover from this have "grows P (fold F xs s) (F x (fold F xs s))" by (intro snoc.prems) simp_all
  ultimately show ?case by (auto intro: grows_trans)
qed simp

text \<open>A fold of steps that each settle their own element and unsettle none is idempotent.\<close>

lemma fold_settles:
  assumes "\<And>x s. S x (F x s)" "\<And>x y s. S x s \<Longrightarrow> S x (F y s)"
  shows "\<forall>x\<in>set xs. S x (fold F xs s)"
  by (induction xs rule: rev_induct) (auto intro: assms)

lemma fold_settled:
  assumes "\<And>x s. S x (F x s)" "\<And>x y s. S x s \<Longrightarrow> S x (F y s)" "\<And>x s. S x s \<Longrightarrow> F x s = s"
  shows "fold F xs (fold F xs s) = fold F xs s"
proof -
  have id: "\<forall>x\<in>set ys. S x s \<Longrightarrow> fold F ys s = s" for ys s
    by (induction ys arbitrary: s) (auto simp: assms(3))
  show ?thesis using id fold_settles [of S F] assms(1,2) by blast
qed

text \<open>The record a sweep may write, by the decision it takes for the meal.\<close>

definition swept_record ::
  "(world \<Rightarrow> group_row \<Rightarrow> day_entry option \<Rightarrow> meal_row \<Rightarrow> (att_status \<times> int option \<times> string option) option)
     \<Rightarrow> (world \<Rightarrow> group_row list) \<Rightarrow> sweep_env \<Rightarrow> world \<Rightarrow> attendance_row \<Rightarrow> bool" where
  "swept_record decide chosen e w r \<longleftrightarrow>
     (\<exists>g\<in>set (chosen w). \<exists>m\<in>set (group_meals w g). \<exists>t day d.
        to_utc_midnight (sweep_today e w g) = Some t \<and> sweep_entries e w g = Inr day
        \<and> decide w g (map_of day (ml_id m)) m = Some d \<and> member_record e w g m t d r)"

text \<open>
  What both sweeps ask of the step that writes one meal: it fills slots of that meal under
  its once-key, it unsets no key, and it does nothing when the key is set.  The decision and
  the choice of groups do not read the records.
\<close>

locale meal_sweep =
  fixes put :: "sweep_env \<Rightarrow> group_row \<Rightarrow> meal_row \<Rightarrow> string \<Rightarrow> int \<Rightarrow> att_status \<times> int option \<times> string option \<Rightarrow> swept \<Rightarrow> swept"
    and tag :: string
    and decide :: "sweep_env \<Rightarrow> world \<Rightarrow> group_row \<Rightarrow> day_entry option \<Rightarrow> meal_row
      \<Rightarrow> (att_status \<times> int option \<times> string option) option"
    and chosen :: "world \<Rightarrow> group_row list"
  assumes put_fills: "fills (member_record e w g m t d) w (fst (put e g m ds t d (w, done)))"
    and put_key: "once_key tag g m ds \<in> set (snd (put e g m ds t d (w, done)))"
    and put_keeps: "set done \<subseteq> set (snd (put e g m ds t d (w, done)))"
    and put_once: "once_key tag g m ds \<in> set done \<Longrightarrow> put e g m ds t d (w, done) = (w, done)"
    and decide_frame: "decide e (set_records f w) = decide e w"
    and chosen_frame: "chosen (set_records f w) = chosen w"
begin

lemma put_grows: "grows (member_record e (fst s) g m t d) s (put e g m ds t d s)"
  using put_fills [of e "fst s"] put_keeps [of "snd s"] by (cases s) (simp add: grows_def keeps_keys_def)

lemma group_grows:
  assumes "fst s = set_records f w" "g \<in> set (chosen w)"
  shows "grows (swept_record (decide e) chosen e w) s (sweep_meals (decide e (fst s)) (put e) e (fst s) g s)"
proof (cases "to_utc_midnight (sweep_today e w g)"; cases "sweep_entries e w g")
  fix t day
  assume t: "to_utc_midnight (sweep_today e w g) = Some t" and day: "sweep_entries e w g = Inr day"
  let ?P = "swept_record (decide e) chosen e w"
  let ?F = "\<lambda>m s. case decide e w g (map_of day (ml_id m)) m of None \<Rightarrow> s
      | Some d \<Rightarrow> put e g m (sweep_today e w g) t d s"
  have "grows ?P s (fold ?F (group_meals w g) s)"
  proof (rule grows_fold)
    fix m v
    assume m: "m \<in> set (group_meals w g)" and v: "grows ?P s v"
    show "grows ?P v (?F m v)"
    proof (cases "decide e w g (map_of day (ml_id m)) m")
      case (Some d)
      obtain h where "fst v = set_records h w"
        using v assms(1) unfolding grows_def by (auto dest!: fills_frame)
      then have "grows (member_record e w g m t d) v (put e g m (sweep_today e w g) t d v)"
        using put_grows [of e v g m t d "sweep_today e w g"] by simp
      moreover have "?P r" if "member_record e w g m t d r" for r
        using that Some t day m assms(2) unfolding swept_record_def by blast
      ultimately show ?thesis unfolding Some grows_def by (auto intro: fills_mono)
    qed simp
  qed
  then show ?thesis using t day by (simp add: sweep_meals_def assms(1) decide_frame cong: option.case_cong)
qed (simp_all add: sweep_meals_def assms(1))

definition run :: "sweep_env \<Rightarrow> swept \<Rightarrow> swept" where
  "run e s = fold (\<lambda>g s. sweep_meals (decide e (fst s)) (put e) e (fst s) g s) (chosen (fst s)) s"

lemma run_grows: "grows (swept_record (decide e) chosen e w) (w, done) (run e (w, done))"
  unfolding run_def fst_conv
proof (rule grows_fold)
  fix g t
  assume "g \<in> set (chosen w)" "grows (swept_record (decide e) chosen e w) (w, done) t"
  then show "grows (swept_record (decide e) chosen e w) t (sweep_meals (decide e (fst t)) (put e) e (fst t) g t)"
    by (auto simp: grows_def dest!: fills_frame intro!: group_grows [unfolded grows_def, THEN conjunct1]
        group_grows [unfolded grows_def, THEN conjunct2])
qed

text \<open>A group is settled when every meal with a decision has its key.\<close>

definition meal_settled :: "sweep_env \<Rightarrow> group_row \<Rightarrow> (ident \<times> day_entry) list \<Rightarrow> meal_row \<Rightarrow> swept \<Rightarrow> bool" where
  "meal_settled e g day m s \<longleftrightarrow> (decide e (fst s) g (map_of day (ml_id m)) m \<noteq> None
     \<longrightarrow> once_key tag g m (sweep_today e (fst s) g) \<in> set (snd s))"

definition settled :: "sweep_env \<Rightarrow> group_row \<Rightarrow> swept \<Rightarrow> bool" where
  "settled e g s \<longleftrightarrow> (\<forall>t day. to_utc_midnight (sweep_today e (fst s) g) = Some t \<longrightarrow> sweep_entries e (fst s) g = Inr day
     \<longrightarrow> (\<forall>m\<in>set (group_meals (fst s) g). meal_settled e g day m s))"

lemma meal_settled_grows: "grows P s s' \<Longrightarrow> meal_settled e g day m s \<Longrightarrow> meal_settled e g day m s'"
  by (auto simp: grows_def keeps_keys_def meal_settled_def decide_frame dest!: fills_frame)

lemma settled_grows: "grows P s s' \<Longrightarrow> settled e g s \<Longrightarrow> settled e g s'"
proof -
  assume g: "grows P s s'" and st: "settled e g s"
  obtain f where "fst s' = set_records f (fst s)" using g by (auto simp: grows_def dest: fills_frame)
  with st meal_settled_grows [OF g] show "settled e g s'" by (simp add: settled_def)
qed

definition put_meal :: "sweep_env \<Rightarrow> world \<Rightarrow> group_row \<Rightarrow> int \<Rightarrow> (ident \<times> day_entry) list \<Rightarrow> meal_row \<Rightarrow> swept \<Rightarrow> swept" where
  "put_meal e w g t day m s = (case decide e w g (map_of day (ml_id m)) m of None \<Rightarrow> s
     | Some d \<Rightarrow> put e g m (sweep_today e w g) t d s)"

lemma sweep_meals_put:
  "to_utc_midnight (sweep_today e w g) = Some t \<Longrightarrow> sweep_entries e w g = Inr day
   \<Longrightarrow> sweep_meals (decide e w) (put e) e w g s = fold (put_meal e w g t day) (group_meals w g) s"
  by (simp add: sweep_meals_def put_meal_def [abs_def])

lemma put_meal_grows: "grows (\<lambda>_. True) s (put_meal e w g t day m s)"
proof (cases "decide e w g (map_of day (ml_id m)) m")
  case (Some d)
  then show ?thesis using put_grows [of e s g m t d "sweep_today e w g"]
    by (auto simp: put_meal_def grows_def intro: fills_mono)
qed (simp add: put_meal_def)

lemma put_meal_settles:
  assumes "fst s = set_records h w"
  shows "meal_settled e g day m (put_meal e w g t day m s)"
proof -
  obtain h' where "fst (put_meal e w g t day m s) = set_records h' w"
    using put_meal_grows [of s e w g t day m] assms by (auto simp: grows_def dest!: fills_frame)
  moreover have "decide e w g (map_of day (ml_id m)) m \<noteq> None
      \<Longrightarrow> once_key tag g m (sweep_today e w g) \<in> set (snd (put_meal e w g t day m s))"
    using put_key [of g m "sweep_today e w g" e t _ "fst s" "snd s"] by (auto simp: put_meal_def)
  ultimately show ?thesis by (simp add: meal_settled_def decide_frame)
qed

lemma meals_settle:
  assumes "fst s = set_records h w"
  shows "\<forall>m\<in>set ms. meal_settled e g day m (fold (put_meal e w g t day) ms s)"
proof (induction ms rule: rev_induct)
  case (snoc m ms)
  let ?s = "fold (put_meal e w g t day) ms s"
  have "grows (\<lambda>_. True) s ?s" by (rule grows_fold) (rule put_meal_grows)
  then obtain h' where "fst ?s = set_records h' w" using assms by (auto simp: grows_def dest!: fills_frame)
  then have "meal_settled e g day m (put_meal e w g t day m ?s)" by (rule put_meal_settles)
  with snoc show ?case using meal_settled_grows [OF put_meal_grows] by auto
qed simp

text \<open>One group of a run.\<close>

definition sweep_step :: "sweep_env \<Rightarrow> group_row \<Rightarrow> swept \<Rightarrow> swept" where
  "sweep_step e g s = sweep_meals (decide e (fst s)) (put e) e (fst s) g s"

lemma sweep_step_grows: "grows (\<lambda>_. True) s (sweep_step e g s)"
proof (cases "to_utc_midnight (sweep_today e (fst s) g)"; cases "sweep_entries e (fst s) g")
  fix t day
  assume "to_utc_midnight (sweep_today e (fst s) g) = Some t" "sweep_entries e (fst s) g = Inr day"
  then show ?thesis by (simp add: sweep_step_def sweep_meals_put) (rule grows_fold, rule put_meal_grows)
qed (simp_all add: sweep_step_def sweep_meals_def)

lemma settled_step: "settled e g (sweep_step e g s)"
proof -
  obtain h where h: "fst (sweep_step e g s) = set_records h (fst s)"
    using sweep_step_grows [of s e g] by (auto simp: grows_def dest!: fills_frame)
  have self: "fst s = set_records (\<lambda>rs. rs) (fst s)" by (simp add: set_records_id)
  show ?thesis
    unfolding settled_def h sweep_clock_frame sweep_decisions_frame sweep_reads_frame
    using meals_settle [OF self] by (auto simp: sweep_step_def sweep_meals_put)
qed

lemma settled_id: "settled e g s \<Longrightarrow> sweep_step e g s = s"
proof (cases "to_utc_midnight (sweep_today e (fst s) g)"; cases "sweep_entries e (fst s) g")
  fix t day
  assume st: "settled e g s" and t: "to_utc_midnight (sweep_today e (fst s) g) = Some t" "sweep_entries e (fst s) g = Inr day"
  have one: "put_meal e (fst s) g t day m s = s" if "m \<in> set (group_meals (fst s) g)" for m
    using st t that put_once [of g m _ "snd s" e t _ "fst s"]
    by (auto simp: settled_def meal_settled_def put_meal_def split: option.splits)
  have "fold (put_meal e (fst s) g t day) ms s = s" if "set ms \<subseteq> set (group_meals (fst s) g)" for ms
    using that by (induction ms) (auto simp: one)
  then show ?thesis using t by (simp add: sweep_step_def sweep_meals_put)
qed (simp_all add: sweep_step_def sweep_meals_def)

lemma run_fold: "run e s = fold (sweep_step e) (chosen (fst s)) s"
  by (simp add: run_def sweep_step_def [abs_def])

lemma run_settles: "g \<in> set (chosen (fst s)) \<Longrightarrow> settled e g (run e s)"
  unfolding run_fold using fold_settles [of "settled e" "sweep_step e" "chosen (fst s)" s]
  by (auto intro: settled_step settled_grows [OF sweep_step_grows])

text \<open>A predicate that every write keeps holds after the run.\<close>

lemma run_keeps:
  assumes put: "\<And>g m t day d h v. g \<in> set (chosen (fst s)) \<Longrightarrow> m \<in> set (group_meals (fst s) g)
      \<Longrightarrow> to_utc_midnight (sweep_today e (fst s) g) = Some t \<Longrightarrow> sweep_entries e (fst s) g = Inr day
      \<Longrightarrow> decide e (fst s) g (map_of day (ml_id m)) m = Some d \<Longrightarrow> fst v = set_records h (fst s)
      \<Longrightarrow> I v \<Longrightarrow> I (put e g m (sweep_today e (fst s) g) t d v)"
    and "I s"
  shows "I (run e s)"
proof -
  define reach where "reach v \<longleftrightarrow> (\<exists>h. fst v = set_records h (fst s)) \<and> I v" for v
  have grow: "\<exists>h. fst v' = set_records h (fst s)" if "grows (\<lambda>_. True) v v'" "\<exists>h. fst v = set_records h (fst s)" for v v'
    using that by (auto simp: grows_def dest!: fills_frame)
  have group: "reach (sweep_step e g v)" if g: "g \<in> set (chosen (fst s))" and v: "reach v" for g v
  proof (cases "to_utc_midnight (sweep_today e (fst s) g)"; cases "sweep_entries e (fst s) g")
    fix t day
    assume t: "to_utc_midnight (sweep_today e (fst s) g) = Some t" and day: "sweep_entries e (fst s) g = Inr day"
    obtain h where h: "fst v = set_records h (fst s)" using v by (auto simp: reach_def)
    have "reach (fold (put_meal e (fst s) g t day) ms v)" if "set ms \<subseteq> set (group_meals (fst s) g)" for ms
      using that
    proof (induction ms rule: rev_induct)
      case (snoc m ms)
      then have r: "reach (fold (put_meal e (fst s) g t day) ms v)" by simp
      have "I (put_meal e (fst s) g t day m (fold (put_meal e (fst s) g t day) ms v))"
      proof (cases "decide e (fst s) g (map_of day (ml_id m)) m")
        case None
        then show ?thesis using r by (simp add: put_meal_def reach_def)
      next
        case (Some d)
        obtain h' where h': "fst (fold (put_meal e (fst s) g t day) ms v) = set_records h' (fst s)"
          and iv: "I (fold (put_meal e (fst s) g t day) ms v)" using r by (auto simp: reach_def)
        have "m \<in> set (group_meals (fst s) g)" using snoc.prems by simp
        from put [OF g this t day Some h' iv] show ?thesis by (simp add: put_meal_def Some)
      qed
      then show ?case using r grow [OF put_meal_grows] by (simp add: reach_def)
    qed (simp add: v)
    moreover have "sweep_step e g v = fold (put_meal e (fst s) g t day) (group_meals (fst s) g) v"
      using t day by (simp add: sweep_step_def h sweep_meals_def put_meal_def [abs_def] decide_frame cong: option.case_cong)
    ultimately show ?thesis by simp
  qed (use v in \<open>auto simp: reach_def sweep_step_def sweep_meals_def\<close>)
  have "reach (fold (sweep_step e) gs s)" if "set gs \<subseteq> set (chosen (fst s))" for gs
    using that
  proof (induction gs rule: rev_induct)
    case Nil
    have "fst s = set_records (\<lambda>rs. rs) (fst s)" by (simp add: set_records_id)
    then show ?case using assms(2) unfolding reach_def by auto
  qed (simp add: group)
  then show ?thesis by (simp add: run_fold reach_def)
qed

text \<open>Running a sweep again at the same time changes nothing.\<close>

lemma run_idem: "run e (run e s) = run e s"
proof -
  have "grows (\<lambda>_. True) s (run e s)" unfolding run_fold by (rule grows_fold) (rule sweep_step_grows)
  then have "chosen (fst (run e s)) = chosen (fst s)" by (auto simp: grows_def chosen_frame dest!: fills_frame)
  moreover have "fold (sweep_step e) (chosen (fst s)) (fold (sweep_step e) (chosen (fst s)) s)
      = fold (sweep_step e) (chosen (fst s)) s"
    by (rule fold_settled [where S = "settled e"])
      (auto intro: settled_step settled_grows [OF sweep_step_grows] settled_id)
  ultimately show ?thesis by (simp add: run_fold)
qed

end

section \<open>The two sweeps\<close>

interpretation close_rules: meal_sweep materialize_meal "''sysdefault:done:''" "\<lambda>e. close_decision e n"
  "\<lambda>w. filter gr_is_active (db_groups (w_db w))" for n
  by standard (auto simp: materialize_meal_def Let_def intro: fill_records_fills)

interpretation auto_rules: meal_sweep materialize_auto "''autoattend:done:''" open_decision
  "\<lambda>w. filter (\<lambda>g. gr_is_active g \<and> (\<exists>x\<in>set (active_members w g). auto_member w x)) (db_groups (w_db w))"
  by standard (auto simp: materialize_auto_def intro: fill_records_fills)

lemma close_sweep_run: "close_sweep e n s = close_rules.run n e s"
  by (simp add: close_sweep_def close_rules.run_def sweep_group_def [abs_def])

lemma auto_sweep_run: "auto_sweep e s = auto_rules.run e s"
  by (simp add: auto_sweep_def auto_rules.run_def auto_sweep_group_def [abs_def])

text \<open>
  Running a sweep a second time at the same instant changes nothing, neither records
  nor once-keys.
\<close>

lemma sweeps_idempotent:
  "close_sweep e n (close_sweep e n s) = close_sweep e n s \<and> auto_sweep e (auto_sweep e s) = auto_sweep e s"
  by (simp_all add: close_sweep_run auto_sweep_run close_rules.run_idem auto_rules.run_idem)

definition sweep_entry :: "sweep_env \<Rightarrow> world \<Rightarrow> group_row \<Rightarrow> meal_row \<Rightarrow> day_entry option" where
  "sweep_entry e w g m = (case sweep_entries e w g of Inl _ \<Rightarrow> None | Inr day \<Rightarrow> map_of day (ml_id m))"

text \<open>What a system record is, read off the world the sweep started in.\<close>

definition system_record :: "sweep_env \<Rightarrow> world \<Rightarrow> attendance_row \<Rightarrow> bool" where
  "system_record e w r \<longleftrightarrow>
     (\<exists>g\<in>set (db_groups (w_db w)). \<exists>m\<in>set (group_meals w g). \<exists>x\<in>set (active_members w g).
        gr_is_active g \<and> gm_user x = at_user r \<and> ml_id m = at_meal r \<and> gr_id g = at_group r \<and> gr_org g = at_org r
        \<and> to_utc_midnight (sweep_today e w g) = Some (at_date r)
        \<and> gm_user x \<notin> set (sweep_on_vacation e w g m (at_date r) (fst (sweep_window (sweep_entry e w g m) m)) [x])
        \<and> served g (sweep_entry e w g m) m
        \<and> (at_status r = Skipped \<or> at_status r = Present \<and> \<not> preference_required w (sweep_entry e w g m) m)
        \<and> at_price r = (if at_status r = Skipped \<and> \<not> gr_bill_skipped g then None
                        else sweep_price g (sweep_entry e w g m) m)
        \<and> at_source r = Some ''system_default'')"

lemma swept_system_record:
  assumes "swept_record decide chosen e w r"
    and dec: "\<And>g entry m st price op. decide w g entry m = Some (st, price, op) \<Longrightarrow> op = fst (sweep_window entry m)
       \<and> served g entry m \<and> (st = Skipped \<or> st = Present \<and> \<not> preference_required w entry m)
       \<and> price = (if st = Skipped \<and> \<not> gr_bill_skipped g then None else sweep_price g entry m)"
    and cho: "set (chosen w) \<subseteq> set (filter gr_is_active (db_groups (w_db w)))"
  shows "system_record e w r"
proof -
  from assms(1) obtain g m t day st price op where g: "g \<in> set (chosen w)" and m: "m \<in> set (group_meals w g)"
    and t: "to_utc_midnight (sweep_today e w g) = Some t" and day: "sweep_entries e w g = Inr day"
    and d: "decide w g (map_of day (ml_id m)) m = Some (st, price, op)"
    and r: "member_record e w g m t (st, price, op) r"
    unfolding swept_record_def by (metis prod_cases3)
  from r obtain x where x: "x \<in> set (active_members w g)" and row: "r = system_row e g (ml_id m) t st price (gm_user x)"
    and vac: "gm_user x \<notin> set (sweep_on_vacation e w g m t op [x])"
    by (auto simp: member_record_def)
  have entry: "sweep_entry e w g m = map_of day (ml_id m)" by (simp add: sweep_entry_def day)
  have "g \<in> set (db_groups (w_db w))" "gr_is_active g" using cho g by auto
  then show ?thesis
    unfolding system_record_def using m x t vac dec [OF d] entry
    by (intro bexI [of _ g] bexI [of _ m] bexI [of _ x]) (simp_all add: row system_row_def)
qed

lemma close_decision_cases:
  assumes "close_decision e n w g entry m = Some (st, price, op)"
  shows "op = fst (sweep_window entry m) \<and> served g entry m
    \<and> (st = Skipped \<or> st = Present \<and> \<not> preference_required w entry m)
    \<and> price = (if st = Skipped \<and> \<not> gr_bill_skipped g then None else sweep_price g entry m)"
  using assms by (auto simp: close_decision_def Let_def close_status_def split: prod.splits if_splits)

lemma open_decision_cases:
  assumes "open_decision e w g entry m = Some (st, price, op)"
  shows "op = fst (sweep_window entry m) \<and> served g entry m
    \<and> (st = Skipped \<or> st = Present \<and> \<not> preference_required w entry m)
    \<and> price = (if st = Skipped \<and> \<not> gr_bill_skipped g then None else sweep_price g entry m)"
  using assms by (auto simp: open_decision_def split: prod.splits if_splits)

lemma sweeps_fill:
  "fills (system_record e w) w (fst (close_sweep e n (w, done)))"
  "fills (system_record e w) w (fst (auto_sweep e (w, done)))"
proof -
  let ?A = "\<lambda>w. filter gr_is_active (db_groups (w_db w))"
  have "fills (swept_record (close_decision e n) ?A e w) w (fst (close_sweep e n (w, done)))"
    using close_rules.run_grows [of e n w "done"] by (simp add: close_sweep_run grows_def)
  then show "fills (system_record e w) w (fst (close_sweep e n (w, done)))"
    by (rule fills_mono) (rule swept_system_record, auto dest: close_decision_cases)
  let ?B = "\<lambda>w. filter (\<lambda>g. gr_is_active g \<and> (\<exists>x\<in>set (active_members w g). auto_member w x)) (db_groups (w_db w))"
  have "fills (swept_record (open_decision e) ?B e w) w (fst (auto_sweep e (w, done)))"
    using auto_rules.run_grows [of e w "done"] by (simp add: auto_sweep_run grows_def)
  then show "fills (system_record e w) w (fst (auto_sweep e (w, done)))"
    by (rule fills_mono) (rule swept_system_record, auto dest: open_decision_cases)
qed

text \<open>
  (C32) The sweeps only fill gaps.  Whatever ran before, neither sweep changes or removes a
  record; each record it adds sits in a slot that was empty, is for an active member of an
  active group who is not on vacation for that meal, on the organisation's current date, for a
  meal that is served that day; Present only where the meal asks for no picks; and its price
  follows the policy: none in an attendance-only group, none for a Skip the group does not
  bill, otherwise the day's price or the master price.
\<close>

theorem sweeps_only_fill:
  assumes "w' = fst (close_sweep e n (w, done)) \<or> w' = fst (auto_sweep e (w, done))"
  shows "\<exists>new. records_of w' = records_of w @ new \<and> guests_of w' = guests_of w
    \<and> book_of w \<subseteq>\<^sub>m book_of w' \<and> distinct (map row_slot new)
    \<and> (\<forall>r\<in>set new. record_at w (at_user r) (at_meal r) (at_date r) = None \<and> system_record e w r)"
proof -
  have "fills (system_record e w) w w'" using assms sweeps_fill by blast
  then obtain new where new: "w' = set_records (\<lambda>rs. rs @ new) w" "distinct (map row_slot new)"
    "\<forall>r\<in>set new. system_record e w r \<and> row_slot r \<notin> row_slot ` set (records_of w)" unfolding fills_def by blast
  have "record_at w (at_user r) (at_meal r) (at_date r) = None" if "r \<in> set new" for r
  proof -
    have "row_slot r \<notin> row_slot ` set (records_of w)" using new(3) that by blast
    then have "\<forall>a\<in>set (records_of w). row_slot a \<noteq> row_slot r" by (metis imageI)
    then show ?thesis by (simp add: record_at_find find_None_iff_none row_slot_def [of r])
  qed
  moreover have "book_of w \<subseteq>\<^sub>m book_of w'"
    by (auto simp: map_le_def book_find new(1) find_append_case)
  ultimately show ?thesis using new by (intro exI [of _ new]) simp
qed

section \<open>Nobody stays pending\<close>

text \<open>
  Ids are cuids: no colon occurs in them, so a once-key names one group and meal.
\<close>

definition keyed :: "world \<Rightarrow> bool" where
  "keyed w \<longleftrightarrow> distinct (map ml_id (w_meals w)) \<and> distinct (map gr_id (db_groups (w_db w)))
     \<and> (\<forall>g\<in>set (db_groups (w_db w)). CHR '':'' \<notin> set (gr_org g)) \<and> (\<forall>m\<in>set (w_meals w). CHR '':'' \<notin> set (ml_id m))"

lemma colon_split:
  "xs @ CHR '':'' # ys = us @ CHR '':'' # vs \<Longrightarrow> CHR '':'' \<notin> set xs \<Longrightarrow> CHR '':'' \<notin> set us \<Longrightarrow> xs = us \<and> ys = vs"
  by (auto simp: append_eq_append_conv2 Cons_eq_append_conv append_eq_Cons_conv)

lemma once_key_inj:
  assumes "keyed w" "g \<in> set (db_groups (w_db w))" "g' \<in> set (db_groups (w_db w))"
    and "m \<in> set (group_meals w g)" "m' \<in> set (group_meals w g')" "once_key tag g m ds = once_key tag g' m' ds'"
  shows "g' = g \<and> m' = m"
proof -
  have "gr_org g @ CHR '':'' # ml_id m @ CHR '':'' # ds = gr_org g' @ CHR '':'' # ml_id m' @ CHR '':'' # ds'"
    using assms(6) by (simp add: once_key_def)
  then have "ml_id m @ CHR '':'' # ds = ml_id m' @ CHR '':'' # ds'"
    using colon_split [of "gr_org g" _ "gr_org g'"] assms(1-3) by (auto simp: keyed_def)
  then have "ml_id m = ml_id m'"
    using colon_split [of "ml_id m" _ "ml_id m'"] assms(1,4,5) by (auto simp: keyed_def group_meals_def)
  then have "m' = m" using assms(1,4,5) by (auto simp: keyed_def group_meals_def dest: distinct_key_eq)
  moreover from this have "gr_id g' = gr_id g" using assms(4,5) by (auto simp: group_meals_def)
  ultimately show ?thesis using assms(1-3) by (auto simp: keyed_def dest: distinct_key_eq)
qed

lemma create_missing_slots [simp]:
  "row_slot ` set (create_missing rs rows) = row_slot ` set rs \<union> row_slot ` set rows"
  by (induction rs rows rule: create_missing.induct) auto

definition has_record :: "world \<Rightarrow> ident \<Rightarrow> ident \<Rightarrow> int \<Rightarrow> bool" where
  "has_record w u i t \<longleftrightarrow> (u, i, t) \<in> row_slot ` set (records_of w)"

lemma has_record_iff: "has_record w u i t \<longleftrightarrow> record_at w u i t \<noteq> None"
  by (force simp: has_record_def record_at_find find_None_iff_none)

lemma fills_has_record: "fills P w w' \<Longrightarrow> has_record w u i t \<Longrightarrow> has_record w' u i t"
  by (auto simp: fills_def has_record_def)

lemma skip_fills_member:
  assumes "x \<in> set ms" "gm_user x \<notin> set (sweep_on_vacation e w g m t op ms)" "waived x"
  shows "has_record (fill_records e g m t (st, price, op) waived ms w) (gm_user x) (ml_id m) t"
proof (cases "has_record w (gm_user x) (ml_id m) t")
  case True
  then show ?thesis by (simp add: fill_records_def has_record_def)
next
  case False
  then have "\<forall>a\<in>set (records_of w). \<not> (at_meal a = ml_id m \<and> at_date a = t \<and> at_user a = gm_user x)"
    by (force simp: has_record_def row_slot_def)
  then have "x \<in> set (eligible_members e w g m t op waived ms)"
    using assms by (simp add: eligible_members_def)
  moreover have "row_slot (system_row e g (ml_id m) t st price (gm_user x)) = (gm_user x, ml_id m, t)"
    by (simp add: row_slot_def system_row_def)
  ultimately have "(gm_user x, ml_id m, t) \<in> row_slot ` (\<lambda>x. system_row e g (ml_id m) t st price (gm_user x))
      ` set (eligible_members e w g m t op waived ms)"
    by (metis imageI)
  then show ?thesis by (simp add: fill_records_def has_record_def)
qed

text \<open>
  (C33) Nobody stays pending.  When the close sweep has decided a system Skip for a meal whose
  turn it is, every active member of the group who is not on vacation for it has a record
  afterwards, their own or the system's.
\<close>

theorem nonresponders_leave_pending:
  assumes "keyed w" "g \<in> set (db_groups (w_db w))" "gr_is_active g" "m \<in> set (group_meals w g)"
    and t: "to_utc_midnight (sweep_today e w g) = Some t" and day: "sweep_entries e w g = Inr day"
    and dec: "close_decision e n w g (map_of day (ml_id m)) m = Some (Skipped, price, op)"
    and fresh: "once_key ''sysdefault:done:'' g m (sweep_today e w g) \<notin> set done"
    and x: "x \<in> set (active_members w g)" "gm_user x \<notin> set (sweep_on_vacation e w g m t op (active_members w g))"
  shows "record_at (fst (close_sweep e n (w, done))) (gm_user x) (ml_id m) t \<noteq> None"
proof -
  let ?key = "once_key ''sysdefault:done:'' g m (sweep_today e w g)"
  let ?I = "\<lambda>s. ?key \<in> set (snd s) \<longrightarrow> has_record (fst s) (gm_user x) (ml_id m) t"
  have "?I (close_rules.run n e (w, done))"
  proof (rule close_rules.run_keeps, unfold fst_conv)
    fix g' m' t' day' d h and v :: swept
    assume g': "g' \<in> set (filter gr_is_active (db_groups (w_db w)))" and m': "m' \<in> set (group_meals w g')"
      and t': "to_utc_midnight (sweep_today e w g') = Some t'" and day': "sweep_entries e w g' = Inr day'"
      and d: "close_decision e n w g' (map_of day' (ml_id m')) m' = Some d"
      and v: "fst v = set_records h w" and I: "?I v"
    let ?v = "materialize_meal e g' m' (sweep_today e w g') t' d v"
    show "?I ?v"
    proof (cases "?key \<in> set (snd v)")
      case True
      then show ?thesis using I close_rules.put_grows [of e v g' m' t' d "sweep_today e w g'"]
        by (auto simp: grows_def intro: fills_has_record)
    next
      case False
      show ?thesis
      proof (cases "g' = g \<and> m' = m")
        case True
        with False t' t day' day d dec show ?thesis
          by (cases v) (use x v in \<open>auto simp: materialize_meal_def intro!: skip_fills_member\<close>)
      next
        case False
        moreover have "g' \<in> set (db_groups (w_db w))" using g' by simp
        ultimately have "once_key ''sysdefault:done:'' g' m' (sweep_today e w g') \<noteq> ?key"
          using once_key_inj [OF assms(1,2) _ assms(4) m'] by metis
        with \<open>?key \<notin> set (snd v)\<close> show ?thesis by (cases v) (auto simp: materialize_meal_def Let_def)
      qed
    qed
  qed (simp add: fresh)
  moreover have "?key \<in> set (snd (close_rules.run n e (w, done)))"
  proof -
    have "close_rules.settled n e g (close_rules.run n e (w, done))"
      by (rule close_rules.run_settles) (simp add: assms(2,3))
    moreover obtain h where "fst (close_rules.run n e (w, done)) = set_records h w"
      using close_rules.run_grows [of e n w "done"] by (auto simp: grows_def dest!: fills_frame)
    ultimately show ?thesis
      using t day dec assms(4) by (auto simp: close_rules.settled_def close_rules.meal_settled_def)
  qed
  ultimately have "has_record (fst (close_sweep e n (w, done))) (gm_user x) (ml_id m) t"
    unfolding close_sweep_run by (rule mp)
  then show ?thesis unfolding has_record_iff .
qed

section \<open>Concrete inputs\<close>

text \<open>Three in the afternoon: lunch closed an hour ago, and the member did not mark it.\<close>

definition ex_sweep :: sweep_env where
  "ex_sweep = \<lparr>en_date = (\<lambda>_. ''2026-07-10''), en_time = (\<lambda>_. ''15:00''), en_now = 1783675800000, en_first_writer = True,
     en_id = (\<lambda>n. ''new'' @ pad2 (int n)), se_reminded = (\<lambda>_ _. False), se_fresh = (\<lambda>m u. m @ ''-'' @ u)\<rparr>"

definition ex_silent :: world where
  "ex_silent = set_records (\<lambda>_. []) (ex_world\<lparr>w_db := (w_db ex_world)
     \<lparr>db_groups := [ex_guest_group\<lparr>gr_bill_skipped := True\<rparr>]\<rparr>\<rparr>)"

definition ex_swept :: world where
  "ex_swept = fst (close_sweep ex_sweep 15 (ex_silent, []))"

lemma ex_swept_record:
  "records_of ex_swept = [system_row ex_sweep ex_guest_group ''m'' (day_of ''2026-07-10'') Skipped (Some 60) ''u'']"
  by code_simp

theorem sweeps_only_fill_witness:
  "length (records_of ex_swept) = 1 \<and> guests_of ex_swept = guests_of ex_silent
   \<and> system_record ex_sweep ex_silent (hd (records_of ex_swept))"
proof -
  have "ex_swept = fst (close_sweep ex_sweep 15 (ex_silent, [])) \<or> ex_swept = fst (auto_sweep ex_sweep (ex_silent, []))"
    by (simp add: ex_swept_def)
  from sweeps_only_fill [OF this] obtain new where
    "records_of ex_swept = records_of ex_silent @ new" "guests_of ex_swept = guests_of ex_silent"
    "\<forall>r\<in>set new. system_record ex_sweep ex_silent r" by blast
  moreover have "records_of ex_silent = []" by (simp add: ex_silent_def)
  ultimately show ?thesis by (auto simp: ex_swept_record)
qed

definition ex_silent_group :: group_row where
  "ex_silent_group = ex_guest_group\<lparr>gr_bill_skipped := True\<rparr>"

theorem nonresponders_leave_pending_witness:
  "record_at ex_silent ''u'' ''m'' (day_of ''2026-07-10'') = None
   \<and> record_at (fst (close_sweep ex_sweep 15 (ex_silent, []))) ''u'' ''m'' (day_of ''2026-07-10'') \<noteq> None"
proof (rule conjI)
  show "record_at ex_silent ''u'' ''m'' (day_of ''2026-07-10'') = None" by code_simp
  let ?x = "hd (db_members (w_db ex_silent))"
  have k: "keyed ex_silent" by code_simp
  have g: "ex_silent_group \<in> set (db_groups (w_db ex_silent))"
    by (simp add: ex_silent_group_def ex_silent_def set_records_def)
  have a: "gr_is_active ex_silent_group" by code_simp
  have m: "ex_meal_row \<in> set (group_meals ex_silent ex_silent_group)"
    by (simp add: group_meals_def ex_silent_def ex_silent_group_def ex_guest_group_def ex_group_def ex_meal_row_def ex_world_def)
  have t: "to_utc_midnight (sweep_today ex_sweep ex_silent ex_silent_group) = Some (day_of ''2026-07-10'')" by code_simp
  have day: "sweep_entries ex_sweep ex_silent ex_silent_group = Inr []"
    by code_simp
  have dec: "close_decision ex_sweep 15 ex_silent ex_silent_group (map_of [] (ml_id ex_meal_row)) ex_meal_row
      = Some (Skipped, Some 60, Some ''12:00'')" by code_simp
  have x: "?x \<in> set (active_members ex_silent ex_silent_group)"
    "gm_user ?x \<notin> set (sweep_on_vacation ex_sweep ex_silent ex_silent_group ex_meal_row (day_of ''2026-07-10'')
       (Some ''12:00'') (active_members ex_silent ex_silent_group))"
    by code_simp+
  have u: "gm_user ?x = ''u''" "ml_id ex_meal_row = ''m''" by code_simp+
  show "record_at (fst (close_sweep ex_sweep 15 (ex_silent, []))) ''u'' ''m'' (day_of ''2026-07-10'') \<noteq> None"
    using nonresponders_leave_pending [OF k g a m t day dec _ x, of "[]"] by (simp add: u)
qed

section \<open>What the code lets through\<close>

text \<open>
  A period may be finalized on its last day.  The sweep does not look at the lock and adds a
  billed Skip to the finalized day.
\<close>

definition ex_closed_early :: world where
  "ex_closed_early = ex_silent\<lparr>w_db := (w_db ex_silent)\<lparr>db_periods :=
     [new_period ''p'' ''admin'' ''o'' ''g'' (day_of ''2026-07-01'') (day_of ''2026-07-10'')
        (build_totals_snapshot (w_db ex_silent) ''o'' ''g'' (day_of ''2026-07-01'') (day_of ''2026-07-10''))]\<rparr>\<rparr>"

lemma sweep_bills_finalized_day:
  "period_locked ex_closed_early ''o'' ''g'' (day_of ''2026-07-10'') \<and> records_of ex_closed_early = []
   \<and> map (\<lambda>a. (at_date a, at_status a, at_price a)) (records_of (fst (close_sweep ex_sweep 15 (ex_closed_early, []))))
     = [(day_of ''2026-07-10'', Skipped, Some 60)]
   \<and> billed_row (hd (records_of (fst (close_sweep ex_sweep 15 (ex_closed_early, [])))))"
  by code_simp

text \<open>
  A member who marks Absent loses the guests booked for the meal; a member the sweep skips
  keeps them, and they are billed.
\<close>

lemma skipped_host_keeps_guests:
  "let w = ex_confirmed\<lparr>w_db := (w_db ex_confirmed)\<lparr>db_attendance := []\<rparr>\<rparr>;
       w' = fst (close_sweep ex_sweep 15 (w, []))
   in map at_status (records_of w') = [Skipped]
      \<and> sum_opt hg_price (guests_in (w_db w') ''o'' ''g'' True (\<lambda>t. t = day_of ''2026-07-10'')) = 60"
  by code_simp

text \<open>
  A day published with its configuration frozen is marked at the frozen window and price; the
  sweep takes the live ones.
\<close>

definition ex_frozen_entry :: day_entry where
  "ex_frozen_entry = \<lparr>de_meal_id = ''m'', de_open_time = None, de_close_time = None, de_meal_name = None,
     de_description = None, de_image_url = None, de_prefs_enabled = None, de_enabled_prefs = [],
     de_enabled_group_ids = [], de_menu_items = [], de_price = None,
     de_meal = Some \<lparr>dm_slot_key = ''lunch'', dm_name = ''Lunch'', dm_display_name = None, dm_order = 1,
       dm_menu_items = [], dm_image_url = None, dm_description = None, dm_price = Some 50,
       dm_window_open = Some ''11:00'', dm_window_close = Some ''15:30''\<rparr>,
     de_frozen = True, de_preference = None, de_planner_mode = None\<rparr>"

lemma sweep_ignores_frozen_day:
  "let eff = effective_of (Some ex_frozen_entry) (rm_window_open ex_meal_row) (rm_window_close ex_meal_row) (rm_price ex_meal_row)
   in (ef_open eff, ef_close eff, ef_price eff) = (Some ''11:00'', Some ''15:30'', Some 50)
     \<and> sweep_window (Some ex_frozen_entry) ex_meal_row = (Some ''12:00'', Some ''14:00'')
     \<and> sweep_price ex_silent_group (Some ex_frozen_entry) ex_meal_row = Some 60"
  by code_simp

end
