(* ===== verification/Retention.thy ===== *)
theory Retention
  imports Meal_World Billing_Cycle
begin

text \<open>
  Rolling retention (\<open>src/src/features/retention/retention.service.ts\<close>): each group keeps a
  number of complete billing cycles behind a frozen boundary; once the boundary has passed,
  its periods are closed, the carried balances are proved against the raw rows, an archive
  is stored and the raw rows are deleted.  Reminders, notices sent, the files of an archive,
  audit entries written and the cache version are left out.
\<close>

section \<open>State and inputs\<close>

record archive_row =
  ar_id :: ident
  ar_org :: ident
  ar_group :: ident
  ar_start :: int
  ar_end :: int
  ar_generated :: int
  ar_purged :: "int option"

record notice_row =
  nt_org :: ident
  nt_group :: "ident option"
  nt_created :: int

text \<open>\<open>rt_audit\<close> holds the organisation and target of each audit entry.\<close>

record retained =
  rt_world :: world
  rt_archives :: "archive_row list"
  rt_notices :: "notice_row list"
  rt_audit :: "(ident \<times> ident) list"

abbreviation rt_db :: "retained \<Rightarrow> db" where
  "rt_db s \<equiv> w_db (rt_world s)"

definition set_rt_db :: "(db \<Rightarrow> db) \<Rightarrow> retained \<Rightarrow> retained" where
  "set_rt_db f s = s\<lparr>rt_world := (rt_world s)\<lparr>w_db := f (rt_db s)\<rparr>\<rparr>"

record retention_config =
  rc_cycles :: "int option"
  rc_reminder_days :: "int option"

definition cycles_of :: "retention_config \<Rightarrow> int" where
  "cycles_of cf = max 1 (nullish (rc_cycles cf) 3)"

definition warn_days :: "retention_config \<Rightarrow> int" where
  "warn_days cf = max 0 (nullish (rc_reminder_days cf) 7)"

text \<open>Beside the clock: whether the archive files could be built and stored.\<close>

record retention_env = env +
  rv_stored :: bool

section \<open>The boundary\<close>

fun next_cycles :: "nat \<Rightarrow> int option \<Rightarrow> string \<times> string \<Rightarrow> (string \<times> string) option" where
  "next_cycles 0 cycle p = Some p"
| "next_cycles (Suc n) cycle p =
     (case to_utc_midnight (snd p) of
        None \<Rightarrow> None
      | Some t \<Rightarrow>
          (case resolve_current_period (format_utc_date (t + day_ms)) cycle of
             None \<Rightarrow> None
           | Some q \<Rightarrow> next_cycles n cycle q))"

definition cycle_end_after :: "string \<Rightarrow> int option \<Rightarrow> int \<Rightarrow> int option" where
  "cycle_end_after from_date cycle cycles =
     (case resolve_current_period from_date cycle of
        None \<Rightarrow> None
      | Some p \<Rightarrow> Option.bind (next_cycles (nat (cycles - 1)) cycle p) (\<lambda>q. to_utc_midnight (snd q)))"

text \<open>The adoption guard: whole cycles forward, at most 240, until the warning fits.\<close>

function walk_boundary :: "int option \<Rightarrow> int \<Rightarrow> nat \<Rightarrow> int \<Rightarrow> int option" where
  "walk_boundary cycle min_boundary guard b =
     (if b < min_boundary \<and> guard < 240
      then case cycle_end_after (format_utc_date (b + day_ms)) cycle 1 of
             None \<Rightarrow> None
           | Some b' \<Rightarrow> walk_boundary cycle min_boundary (Suc guard) b'
      else Some b)"
  by pat_completeness auto
termination
  by (relation "measure (\<lambda>(_, _, guard, _). 240 - guard)") auto

declare walk_boundary.simps [simp del]

definition fresh_boundary :: "retention_config \<Rightarrow> int \<Rightarrow> int option \<Rightarrow> int \<Rightarrow> int option" where
  "fresh_boundary cf today cycle start =
     Option.bind (cycle_end_after (format_utc_date start) cycle (cycles_of cf))
       (walk_boundary cycle (today + warn_days cf * day_ms) 0)"

definition write_group :: "ident \<Rightarrow> (group_row \<Rightarrow> group_row) \<Rightarrow> db \<Rightarrow> db" where
  "write_group i f d = d\<lparr>db_groups := map (\<lambda>g. if gr_id g = i then f g else g) (db_groups d)\<rparr>"

definition advance_boundary :: "retention_config \<Rightarrow> group_row \<Rightarrow> int \<Rightarrow> db \<Rightarrow> db" where
  "advance_boundary cf g handled d =
     (case cycle_end_after (format_utc_date (handled + day_ms)) (gr_cycle_day g) (cycles_of cf) of
        None \<Rightarrow> d
      | Some b \<Rightarrow> write_group (gr_id g) (\<lambda>x. x\<lparr>gr_purge_through := Some b\<rparr>) d)"

section \<open>Closing the books\<close>

definition reopened_periods :: "db \<Rightarrow> group_row \<Rightarrow> int \<Rightarrow> period_row list" where
  "reopened_periods d g cutoff =
     filter (\<lambda>p. bp_group p = gr_id g \<and> bp_org p = gr_org g \<and> bp_status p = Reopened \<and> bp_start p \<le> cutoff)
       (db_periods d)"

text \<open>The flag says whether every period closed; the ones that did stay closed.\<close>

fun force_close :: "ident \<Rightarrow> ident \<Rightarrow> ident list \<Rightarrow> db \<Rightarrow> bool \<times> db" where
  "force_close admin org [] d = (True, d)"
| "force_close admin org (i # is) d =
     (case refinalize_period admin org i d of
        Inl _ \<Rightarrow> (False, d)
      | Inr d' \<Rightarrow> force_close admin org is d')"

definition latest_final :: "db \<Rightarrow> group_row \<Rightarrow> (int \<Rightarrow> bool) \<Rightarrow> period_row option" where
  "latest_final d g P =
     (case sort_key (\<lambda>p. - bp_end p)
             (filter (\<lambda>p. bp_org p = gr_org g \<and> bp_group p = gr_id g \<and> bp_status p = Finalized \<and> P (bp_end p))
               (db_periods d)) of
        [] \<Rightarrow> None | p # _ \<Rightarrow> Some p)"

definition attendance_through :: "db \<Rightarrow> group_row \<Rightarrow> int \<Rightarrow> attendance_row list" where
  "attendance_through d g cutoff =
     filter (\<lambda>a. at_group a = gr_id g \<and> at_org a = gr_org g \<and> at_date a \<le> cutoff) (db_attendance d)"

definition earliest_data_date :: "db \<Rightarrow> group_row \<Rightarrow> int \<Rightarrow> int option" where
  "earliest_data_date d g cutoff =
     (case sort_key at_date (attendance_through d g cutoff) of [] \<Rightarrow> None | a # _ \<Rightarrow> Some (at_date a))"

definition auto_finalize :: "retention_env \<Rightarrow> group_row \<Rightarrow> int \<Rightarrow> db \<Rightarrow> bool \<times> db" where
  "auto_finalize e g cutoff d =
     (let last = latest_final d g (\<lambda>_. True);
          start = (case last of None \<Rightarrow> earliest_data_date d g cutoff | Some p \<Rightarrow> Some (bp_end p + day_ms))
      in if (case last of None \<Rightarrow> True | Some p \<Rightarrow> bp_end p < cutoff) \<and> (case start of None \<Rightarrow> False | Some a \<Rightarrow> a \<le> cutoff)
         then case finalize_period (en_date e) (en_id e 0) (nullish (gr_admin g) ''system'') (gr_org g) (gr_id g)
                     (format_utc_date (the start)) (format_utc_date cutoff) d of
                Inl _ \<Rightarrow> (False, d)
              | Inr d' \<Rightarrow> (True, d')
         else (True, d))"

text \<open>The gate: snapshot, next opening and raw recomputation agree for every member.\<close>

definition verify_continuity :: "db \<Rightarrow> group_row \<Rightarrow> int \<Rightarrow> bool" where
  "verify_continuity d g cutoff =
     (case Option.bind (latest_final d g (\<lambda>t. t \<le> cutoff)) (\<lambda>p. opening_from_snapshot (bp_snapshot p)) of
        None \<Rightarrow> False
      | Some carried \<Rightarrow>
          let pol = policy_of (find_group d (gr_id g) (gr_org g));
              opening = fst (compute_opening_balances d (gr_org g) (gr_id g) (cutoff + day_ms) pol True);
              raw = fst (compute_opening_balances d (gr_org g) (gr_id g) (cutoff + day_ms) pol False)
          in \<forall>u\<in>set (keys_of carried @ keys_of opening @ keys_of raw).
               get0 carried u = get0 opening u \<and> get0 carried u = get0 raw u)"

definition close_books :: "retention_env \<Rightarrow> group_row \<Rightarrow> int \<Rightarrow> db \<Rightarrow> bool \<times> db" where
  "close_books e g cutoff d =
     (if \<not> gr_pricing_enabled g then (True, d)
      else
        (case force_close (nullish (gr_admin g) ''system'') (gr_org g) (map bp_id (reopened_periods d g cutoff)) d of
           (False, d1) \<Rightarrow> (False, d1)
         | (True, d1) \<Rightarrow>
             (case auto_finalize e g cutoff d1 of
                (False, d2) \<Rightarrow> (False, d2)
              | (True, d2) \<Rightarrow> (verify_continuity d2 g cutoff, d2))))"

section \<open>Deleting\<close>

definition stale :: "group_row \<Rightarrow> int \<Rightarrow> member_row \<Rightarrow> bool" where
  "stale g cutoff x \<longleftrightarrow> gm_group x = gr_id g \<and> gm_status x \<in> {MemberBlocked, MemberRemoved}
     \<and> nullish (if gm_status x = MemberBlocked then gm_blocked_at x else gm_removed_at x) (gm_updated_at x) \<le> cutoff"

definition purge_stale_memberships :: "group_row \<Rightarrow> int \<Rightarrow> db \<Rightarrow> db" where
  "purge_stale_memberships g cutoff d =
     (if (\<exists>x\<in>set (db_groups d). gr_id x = gr_id g \<and> gr_org x = gr_org g)
      then d\<lparr>db_members := filter (\<lambda>x. gm_id x \<notin> gm_id ` set (filter (stale g cutoff) (db_members d))) (db_members d)\<rparr>
      else d)"

definition purge_audit_for :: "ident \<Rightarrow> ident list \<Rightarrow> (ident \<times> ident) list \<Rightarrow> (ident \<times> ident) list" where
  "purge_audit_for org targets = filter (\<lambda>a. \<not> (fst a = org \<and> snd a \<in> set targets))"

definition in_scope :: "group_row \<Rightarrow> int \<Rightarrow> ident \<Rightarrow> ident \<Rightarrow> int \<Rightarrow> bool" where
  "in_scope g cutoff org gid t \<longleftrightarrow> org = gr_org g \<and> gid = gr_id g \<and> t \<le> cutoff"

definition corrections_through :: "db \<Rightarrow> group_row \<Rightarrow> int \<Rightarrow> correction_row list" where
  "corrections_through d g cutoff =
     filter (\<lambda>r. in_scope g cutoff (cr_org r) (cr_group r) (cr_date r)) (db_corrections d)"

definition drop_rows :: "group_row \<Rightarrow> int \<Rightarrow> db \<Rightarrow> db" where
  "drop_rows g cutoff d =
     d\<lparr>db_guests := filter (\<lambda>x. \<not> in_scope g cutoff (hg_org x) (hg_group x) (hg_date x)) (db_guests d),
       db_corrections := filter (\<lambda>x. \<not> in_scope g cutoff (cr_org x) (cr_group x) (cr_date x)) (db_corrections d),
       db_ledger := filter (\<lambda>x. \<not> in_scope g cutoff (le_org x) (le_group x) (le_date x)) (db_ledger d),
       db_attendance := filter (\<lambda>x. \<not> in_scope g cutoff (at_org x) (at_group x) (at_date x)) (db_attendance d)\<rparr>"

definition group_vacation_through :: "group_row \<Rightarrow> int \<Rightarrow> vacation_row \<Rightarrow> bool" where
  "group_vacation_through g cutoff r \<longleftrightarrow> vr_org r = gr_org g \<and> vr_group r = Some (gr_id g) \<and> vr_end r \<le> cutoff"

text \<open>The child rows of a deleted record go with it (\<open>onDelete: Cascade\<close>).\<close>

definition drop_children :: "group_row \<Rightarrow> int \<Rightarrow> world \<Rightarrow> world" where
  "drop_children g cutoff w =
     w\<lparr>w_vacations := filter (\<lambda>r. \<not> group_vacation_through g cutoff r) (w_vacations w),
       w_selections := filter (\<lambda>r. fst r \<notin> at_id ` set (attendance_through (w_db w) g cutoff)) (w_selections w)\<rparr>"

definition purge_through_boundary ::
  "retention_config \<Rightarrow> retention_env \<Rightarrow> group_row \<Rightarrow> int \<Rightarrow> ident \<Rightarrow> retained \<Rightarrow> retained" where
  "purge_through_boundary cf e g cutoff archive s =
     (let d = rt_db s;
          targets = map at_id (attendance_through d g cutoff) @ map cr_id (corrections_through d g cutoff)
      in s\<lparr>rt_world := (drop_children g cutoff (rt_world s))
             \<lparr>w_db := advance_boundary cf g cutoff (purge_stale_memberships g cutoff (drop_rows g cutoff d))\<rparr>,
           rt_archives := map (\<lambda>a. if ar_id a = archive then a\<lparr>ar_purged := Some (en_now e)\<rparr> else a) (rt_archives s),
           rt_notices := filter (\<lambda>n. \<not> (nt_org n = gr_org g \<and> nt_group n = Some (gr_id g) \<and> nt_created n \<le> cutoff))
             (rt_notices s),
           rt_audit := purge_audit_for (gr_org g) targets (rt_audit s)\<rparr>)"

definition open_archive :: "group_row \<Rightarrow> int \<Rightarrow> archive_row list \<Rightarrow> archive_row option" where
  "open_archive g cutoff as =
     (case sort_key (\<lambda>a. - ar_generated a)
             (filter (\<lambda>a. ar_org a = gr_org g \<and> ar_group a = gr_id g \<and> ar_end a = cutoff \<and> ar_purged a = None) as) of
        [] \<Rightarrow> None | a # _ \<Rightarrow> Some a)"

definition new_archive :: "retention_env \<Rightarrow> group_row \<Rightarrow> int \<Rightarrow> int \<Rightarrow> archive_row" where
  "new_archive e g start cutoff = \<lparr>ar_id = en_id e 1, ar_org = gr_org g, ar_group = gr_id g, ar_start = start,
     ar_end = cutoff, ar_generated = en_now e, ar_purged = None\<rparr>"

definition archive_and_purge ::
  "retention_config \<Rightarrow> retention_env \<Rightarrow> group_row \<Rightarrow> int \<Rightarrow> retained \<Rightarrow> retained" where
  "archive_and_purge cf e g cutoff s =
     (case earliest_data_date (rt_db s) g cutoff of
        None \<Rightarrow> set_rt_db (advance_boundary cf g cutoff) s
      | Some start \<Rightarrow>
          (case open_archive g cutoff (rt_archives s) of
             Some a \<Rightarrow> purge_through_boundary cf e g cutoff (ar_id a) s
           | None \<Rightarrow>
               if \<not> rv_stored e then s
               else
                 let a = new_archive e g start cutoff
                 in purge_through_boundary cf e g cutoff (ar_id a) (s\<lparr>rt_archives := rt_archives s @ [a]\<rparr>)))"

section \<open>The sweep\<close>

datatype phase = Quiet | Warn | Purge

definition retention_phase :: "retention_config \<Rightarrow> int \<Rightarrow> int \<Rightarrow> attendance_row list \<Rightarrow> phase" where
  "retention_phase cf today cutoff at_risk =
     (if today < cutoff - max 0 (warn_days cf - 1) * day_ms then Quiet
      else if today \<le> cutoff then (if at_risk = [] then Quiet else Warn)
      else Purge)"

definition handle_boundary ::
  "retention_config \<Rightarrow> retention_env \<Rightarrow> group_row \<Rightarrow> int \<Rightarrow> retained \<Rightarrow> retained" where
  "handle_boundary cf e g cutoff s =
     (if attendance_through (rt_db s) g cutoff = []
      then set_rt_db (advance_boundary cf g cutoff \<circ> purge_stale_memberships g cutoff) s
      else
        (case close_books e g cutoff (rt_db s) of
           (ok, d) \<Rightarrow>
             let s1 = set_rt_db (\<lambda>_. d) s
             in if ok then archive_and_purge cf e g cutoff s1 else s1))"

definition process_group :: "retention_config \<Rightarrow> retention_env \<Rightarrow> group_row \<Rightarrow> retained \<Rightarrow> retained" where
  "process_group cf e g s =
     (case to_utc_midnight (en_date e (org_tz (rt_world s) (gr_org g))) of
        None \<Rightarrow> s
      | Some today \<Rightarrow>
          if gr_first_published g \<noteq> None \<and> gr_anchored_at g = None
          then
            (case fresh_boundary cf today (gr_cycle_day g) (the (gr_first_published g)) of
               None \<Rightarrow> s
             | Some b \<Rightarrow> set_rt_db (write_group (gr_id g)
                 (\<lambda>x. if gr_org x = gr_org g then x\<lparr>gr_purge_through := Some b, gr_anchored_at := Some (en_now e)\<rparr> else x)) s)
          else
            (case gr_purge_through g of
               None \<Rightarrow>
                 (case fresh_boundary cf today (gr_cycle_day g) (gr_created_at g) of
                    None \<Rightarrow> s
                  | Some b \<Rightarrow> set_rt_db (write_group (gr_id g) (\<lambda>x. x\<lparr>gr_purge_through := Some b\<rparr>)) s)
             | Some cutoff \<Rightarrow>
                 (case retention_phase cf today cutoff (attendance_through (rt_db s) g cutoff) of
                    Purge \<Rightarrow> handle_boundary cf e g cutoff s
                  | _ \<Rightarrow> s)))"

definition retention_due :: "retention_config \<Rightarrow> retention_env \<Rightarrow> group_row \<Rightarrow> bool" where
  "retention_due cf e g \<longleftrightarrow> gr_is_active g
     \<and> ((case gr_purge_through g of None \<Rightarrow> True
           | Some t \<Rightarrow> t \<le> en_now e + nullish (rc_reminder_days cf) 7 * 24 * 60 * 60 * 1000)
        \<or> gr_first_published g \<noteq> None \<and> gr_anchored_at g = None)"

definition retention_sweep :: "retention_config \<Rightarrow> retention_env \<Rightarrow> retained \<Rightarrow> retained" where
  "retention_sweep cf e s = fold (process_group cf e) (filter (retention_due cf e) (db_groups (rt_db s))) s"

end
