(* ===== verification/Retention_Laws.thy ===== *)
theory Retention_Laws
  imports Retention
begin

text \<open>
  What retention guarantees: the boundary search ends at a cycle end that leaves the full
  warning, only aged rows of the group are deleted and only behind an archive, and the
  balances the next cycle opens with are those of the raw rows that went.
\<close>

section \<open>The boundary\<close>

definition cycle_end :: "int option \<Rightarrow> int \<Rightarrow> int" where
  "cycle_end cycle k = (cycle_anchor cycle (k + 1) - 1) * day_ms"

lemma cycle_end_next: "cycle_end cycle k + day_ms = cycle_anchor cycle (k + 1) * day_ms"
  by (simp add: cycle_end_def algebra_simps)

lemma cycle_end_step:
  "cycle_end cycle k + 28 * day_ms \<le> cycle_end cycle (k + 1)" "cycle_end cycle (k + 1) \<le> cycle_end cycle k + 31 * day_ms"
proof -
  have e: "cycle_end cycle (k + 1) - cycle_end cycle k = (cycle_anchor cycle (k + 1 + 1) - cycle_anchor cycle (k + 1)) * day_ms"
    by (simp add: cycle_end_def algebra_simps)
  have "28 * day_ms \<le> (cycle_anchor cycle (k + 1 + 1) - cycle_anchor cycle (k + 1)) * day_ms"
    "(cycle_anchor cycle (k + 1 + 1) - cycle_anchor cycle (k + 1)) * day_ms \<le> 31 * day_ms"
    using cycle_anchor_gap [of cycle "k + 1"] by (intro mult_right_mono; simp add: less_imp_le)+
  then show "cycle_end cycle k + 28 * day_ms \<le> cycle_end cycle (k + 1)"
    "cycle_end cycle (k + 1) \<le> cycle_end cycle k + 31 * day_ms" using e by linarith+
qed

text \<open>Cycles whose neighbours print with four-digit years.\<close>

definition cycle_index :: "int \<Rightarrow> bool" where
  "cycle_index k \<longleftrightarrow> 12 * 101 \<le> k + 1 \<and> k < 12 * 9998"

lemma cycle_index_range:
  assumes "cycle_index k"
  shows "cycle_range (cycle_anchor cycle (k + 1) * day_ms)" "midnight (cycle_anchor cycle (k + 1) * day_ms)"
proof -
  have "month_start (12 * 101) \<le> month_start (k + 1)" "month_start (k + 1 + 1) \<le> month_start (12 * 9999)"
    using assms by (intro month_start_mono; simp add: cycle_index_def)+
  then have "day_from_year 101 \<le> cycle_anchor cycle (k + 1)" "cycle_anchor cycle (k + 1) < day_from_year 9999"
    using cycle_anchor_in_month [of "k + 1" cycle] by (simp_all only: month_start_year) linarith+
  then show "cycle_range (cycle_anchor cycle (k + 1) * day_ms)" by (simp add: cycle_range_def)
  show "midnight (cycle_anchor cycle (k + 1) * day_ms)" by (simp add: midnight_def)
qed

lemma resolve_next_cycle:
  assumes "cycle_index k"
  obtains p where "resolve_current_period (format_utc_date (cycle_end cycle k + day_ms)) cycle = Some p"
    "to_utc_midnight (snd p) = Some (cycle_end cycle (k + 1))"
proof -
  let ?t = "cycle_anchor cycle (k + 1) * day_ms"
  obtain j where j: "cycle_anchor cycle j * day_ms \<le> ?t" "?t < cycle_anchor cycle (j + 1) * day_ms"
    "12 * 100 < j" "j < 12 * 9999"
    "resolve_current_period (format_utc_date ?t) cycle
      = Some (format_utc_date (cycle_anchor cycle j * day_ms), format_utc_date ((cycle_anchor cycle (j + 1) - 1) * day_ms))"
    by (rule resolve_current_period_anchor [OF cycle_index_range [OF assms]])
  have jk: "j = k + 1"
    using j(1,2) cyc.anchor_step [of cycle "k + 1"]
    by (intro cyc.period_unique [of cycle j "cycle_anchor cycle (k + 1)"]) auto
  have "to_utc_midnight (format_utc_date (cycle_end cycle j)) = Some (cycle_end cycle j)"
    using j(3,4) by (simp add: cycle_end_def cycle_anchor_bounds to_utc_midnight_format_midnight)
  then show ?thesis using that j(5) unfolding cycle_end_next by (simp add: jk cycle_end_def)
qed

lemma cycle_end_after_one:
  "cycle_index k \<Longrightarrow> cycle_end_after (format_utc_date (cycle_end cycle k + day_ms)) cycle 1 = Some (cycle_end cycle (k + 1))"
  by (rule resolve_next_cycle [of k cycle]) (auto simp: cycle_end_after_def)

lemma next_cycles_end:
  assumes "to_utc_midnight (snd p) = Some (cycle_end cycle k)" "12 * 101 \<le> k + 1" "k + int n \<le> 12 * 9998"
  shows "\<exists>q. next_cycles n cycle p = Some q \<and> to_utc_midnight (snd q) = Some (cycle_end cycle (k + int n))"
  using assms
proof (induction n arbitrary: p k)
  case (Suc n)
  have "cycle_index k" using Suc.prems by (simp add: cycle_index_def)
  then obtain q where q: "resolve_current_period (format_utc_date (cycle_end cycle k + day_ms)) cycle = Some q"
    "to_utc_midnight (snd q) = Some (cycle_end cycle (k + 1))" by (rule resolve_next_cycle)
  show ?case using Suc.IH [OF q(2)] Suc.prems q(1) by (simp add: add.assoc)
qed simp

lemma format_utc_date_day: "format_utc_date (t div day_ms * day_ms) = format_utc_date t"
  by (simp add: format_utc_date_def)

lemma div_day_less: "t div day_ms < d \<longleftrightarrow> t < d * day_ms"
proof
  assume "t div day_ms < d"
  then have "(t div day_ms + 1) * day_ms \<le> d * day_ms" by (intro mult_right_mono) (simp_all add: less_imp_le)
  then show "t < d * day_ms" using int_div_bounds(2) [of day_ms t] by (simp add: algebra_simps)
next
  assume a: "t < d * day_ms"
  have "(t div day_ms) * day_ms < d * day_ms"
    by (rule le_less_trans [OF _ a]) (metis int_div_bounds(1) mult.commute day_ms_pos(1))
  then show "t div day_ms < d" by simp
qed

text \<open>The boundary counted from an instant: the end of the n-th cycle from the one that holds it.\<close>

lemma cycle_end_after_index:
  assumes "day_from_year 101 * day_ms \<le> t" "t < day_from_year 9000 * day_ms" "1 \<le> n" "n \<le> 1000"
  obtains k where "cycle_anchor cycle k * day_ms \<le> t" "t < cycle_anchor cycle (k + 1) * day_ms"
    "cycle_end_after (format_utc_date t) cycle n = Some (cycle_end cycle (k + (n - 1)))"
    "12 * 101 \<le> k + 1" "k < 12 * 9000"
proof -
  let ?t = "t div day_ms * day_ms"
  have t: "?t \<le> t" "t < ?t + day_ms" using int_div_bounds [of day_ms t] day_ms_pos by (simp_all add: mult.commute)
  have "midnight ?t" by (simp add: midnight_def)
  have le: "day_from_year 101 \<le> t div day_ms" "t div day_ms < day_from_year 9000"
    using zdiv_mono1 [OF assms(1), of day_ms] assms(2) by (simp_all add: div_day_less)
  have mono: "day_from_year 9000 \<le> day_from_year 9999"
    unfolding month_start_year [symmetric] by (intro month_start_mono) simp
  have "cycle_range ?t" using le mono by (simp add: cycle_range_def)
  obtain k where k: "cycle_anchor cycle k * day_ms \<le> ?t" "?t < cycle_anchor cycle (k + 1) * day_ms"
    "12 * 100 < k" "k < 12 * 9999"
    "resolve_current_period (format_utc_date ?t) cycle
      = Some (format_utc_date (cycle_anchor cycle k * day_ms), format_utc_date ((cycle_anchor cycle (k + 1) - 1) * day_ms))"
    by (rule resolve_current_period_anchor [OF \<open>cycle_range ?t\<close> \<open>midnight ?t\<close>])
  have lo: "12 * 101 \<le> k + 1"
  proof (rule ccontr)
    assume "\<not> 12 * 101 \<le> k + 1"
    then have "month_start (k + 1 + 1) \<le> month_start (12 * 101)" by (intro month_start_mono) simp
    then show False
      using cycle_anchor_in_month [of "k + 1" cycle] k(2) le(1) month_start_year [of 101] by simp
  qed
  have hi: "k < 12 * 9000"
  proof (rule ccontr)
    assume "\<not> k < 12 * 9000"
    then have "month_start (12 * 9000) \<le> month_start k" by (intro month_start_mono) simp
    then show False using cycle_anchor_in_month [of k cycle] k(1) le(2) month_start_year [of 9000] by simp
  qed
  let ?p = "(format_utc_date (cycle_anchor cycle k * day_ms), format_utc_date (cycle_end cycle k))"
  have "to_utc_midnight (snd ?p) = Some (cycle_end cycle k)"
    using k(3,4) by (simp add: cycle_end_def cycle_anchor_bounds to_utc_midnight_format_midnight)
  then obtain q where q: "next_cycles (nat (n - 1)) cycle ?p = Some q"
    "to_utc_midnight (snd q) = Some (cycle_end cycle (k + (n - 1)))"
    using next_cycles_end [of ?p cycle k "nat (n - 1)"] lo hi assms(3,4) by auto
  have "cycle_end_after (format_utc_date t) cycle n = Some (cycle_end cycle (k + (n - 1)))"
    using k(5) q unfolding format_utc_date_day by (simp add: cycle_end_after_def cycle_end_def)
  moreover have "cycle_anchor cycle k * day_ms \<le> t" "t < cycle_anchor cycle (k + 1) * day_ms"
    using order_trans [OF k(1) t(1)] k(2) div_day_less [of t] by simp_all
  ultimately show ?thesis using that lo hi by blast
qed

text \<open>The adoption guard reaches the first cycle end that leaves the warning, within its 240 steps.\<close>

lemma walk_boundary_ends:
  assumes "b = cycle_end cycle k" "min_b \<le> cycle_end cycle k + (240 - int guard) * (28 * day_ms)" "guard \<le> 240"
    "12 * 101 \<le> k + 1" "k + (240 - int guard) \<le> 12 * 9998"
  shows "\<exists>m. walk_boundary cycle min_b guard b = Some (cycle_end cycle m) \<and> k \<le> m \<and> min_b \<le> cycle_end cycle m
    \<and> (m = k \<or> cycle_end cycle (m - 1) < min_b)"
  using assms
proof (induction cycle min_b guard b arbitrary: k rule: walk_boundary.induct)
  case (1 cycle min_b guard b)
  show ?case
  proof (cases "b < min_b \<and> guard < 240")
    case True
    then have "cycle_index k" using 1 by (simp add: cycle_index_def)
    then have nx: "cycle_end_after (format_utc_date (b + day_ms)) cycle 1 = Some (cycle_end cycle (k + 1))"
      unfolding 1(2) by (rule cycle_end_after_one)
    have "(240 - int guard) * (28 * day_ms) = (240 - int (Suc guard)) * (28 * day_ms) + 28 * day_ms"
      by (simp add: algebra_simps)
    then have "min_b \<le> cycle_end cycle (k + 1) + (240 - int (Suc guard)) * (28 * day_ms)"
      using 1(3) cycle_end_step(1) [of cycle k] by linarith
    then obtain m where m: "walk_boundary cycle min_b (Suc guard) (cycle_end cycle (k + 1)) = Some (cycle_end cycle m)"
      "k + 1 \<le> m" "min_b \<le> cycle_end cycle m" "m = k + 1 \<or> cycle_end cycle (m - 1) < min_b"
      using 1(1) [OF True nx refl] True 1(4-6) by auto
    then have "walk_boundary cycle min_b guard b = Some (cycle_end cycle m)"
      using True nx by (simp add: walk_boundary.simps [of cycle min_b guard b])
    with m True 1(2) show ?thesis by (intro exI [of _ m]) auto
  next
    case False
    then have "min_b \<le> cycle_end cycle k" using 1(2-4) by auto
    with False 1(2) show ?thesis by (intro exI [of _ k]) (simp add: walk_boundary.simps [of cycle min_b guard "cycle_end cycle k"])
  qed
qed

lemma cycle_end_mono: "j \<le> k \<Longrightarrow> cycle_end cycle j \<le> cycle_end cycle k"
  using cyc.anchor_le [of "j + 1" "k + 1" cycle] day_ms_pos by (simp add: cycle_end_def)

text \<open>
  (C18) The search for a group's first boundary ends, inside its bound of 240 steps, whenever
  the group is at most 240 cycles of 28 days old: it returns the last day of a billing cycle
  that lies at least the configured number of whole cycles ahead of the start date and at
  least the warning days ahead of today, and no earlier cycle end does both.
\<close>

theorem boundary_search_ends:
  assumes "day_from_year 101 * day_ms \<le> start" "start < day_from_year 9000 * day_ms" "cycles_of cf \<le> 1000"
    and "today + warn_days cf * day_ms \<le> start div day_ms * day_ms + 240 * (28 * day_ms)"
  shows "\<exists>k m. cycle_anchor cycle k * day_ms \<le> start \<and> start < cycle_anchor cycle (k + 1) * day_ms
    \<and> fresh_boundary cf today cycle start = Some (cycle_end cycle m)
    \<and> k + (cycles_of cf - 1) \<le> m \<and> today + warn_days cf * day_ms \<le> cycle_end cycle m
    \<and> (m = k + (cycles_of cf - 1) \<or> cycle_end cycle (m - 1) < today + warn_days cf * day_ms)"
proof -
  have one: "1 \<le> cycles_of cf" by (simp add: cycles_of_def)
  obtain k where k: "cycle_anchor cycle k * day_ms \<le> start" "start < cycle_anchor cycle (k + 1) * day_ms"
    "cycle_end_after (format_utc_date start) cycle (cycles_of cf) = Some (cycle_end cycle (k + (cycles_of cf - 1)))"
    "12 * 101 \<le> k + 1" "k < 12 * 9000"
    by (rule cycle_end_after_index [OF assms(1,2) one assms(3)])
  let ?n = "k + (cycles_of cf - 1)"
  have "start div day_ms < cycle_anchor cycle (k + 1)"
    using k(2) by (simp add: div_day_less)
  then have "start div day_ms * day_ms \<le> cycle_end cycle k"
    unfolding cycle_end_def by (intro mult_right_mono) (simp_all add: less_imp_le)
  also have "\<dots> \<le> cycle_end cycle ?n" using one by (intro cycle_end_mono) simp
  finally have "today + warn_days cf * day_ms \<le> cycle_end cycle ?n + (240 - int 0) * (28 * day_ms)"
    using assms(4) by simp
  from walk_boundary_ends [OF refl this] obtain m where
    m: "walk_boundary cycle (today + warn_days cf * day_ms) 0 (cycle_end cycle ?n) = Some (cycle_end cycle m)"
    "?n \<le> m" "today + warn_days cf * day_ms \<le> cycle_end cycle m"
    "m = ?n \<or> cycle_end cycle (m - 1) < today + warn_days cf * day_ms"
    using k(4,5) one assms(3) by auto
  with k show ?thesis by (intro exI [of _ k] exI [of _ m]) (simp add: fresh_boundary_def)
qed

section \<open>What each step leaves alone\<close>

lemma set_rt_db_simps [simp]:
  "rt_world (set_rt_db f s) = (rt_world s)\<lparr>w_db := f (rt_db s)\<rparr>" "rt_archives (set_rt_db f s) = rt_archives s"
  "rt_notices (set_rt_db f s) = rt_notices s" "rt_audit (set_rt_db f s) = rt_audit s"
  by (simp_all add: set_rt_db_def)

lemma write_group_frame [simp]:
  "db_attendance (write_group i f d) = db_attendance d" "db_guests (write_group i f d) = db_guests d"
  "db_ledger (write_group i f d) = db_ledger d" "db_corrections (write_group i f d) = db_corrections d"
  "db_periods (write_group i f d) = db_periods d" "db_members (write_group i f d) = db_members d"
  by (simp_all add: write_group_def)

lemma advance_boundary_frame [simp]:
  "db_attendance (advance_boundary cf g c d) = db_attendance d" "db_guests (advance_boundary cf g c d) = db_guests d"
  "db_ledger (advance_boundary cf g c d) = db_ledger d" "db_corrections (advance_boundary cf g c d) = db_corrections d"
  "db_periods (advance_boundary cf g c d) = db_periods d" "db_members (advance_boundary cf g c d) = db_members d"
  by (simp_all add: advance_boundary_def split: option.split)

lemma purge_stale_frame [simp]:
  "db_attendance (purge_stale_memberships g c d) = db_attendance d" "db_guests (purge_stale_memberships g c d) = db_guests d"
  "db_ledger (purge_stale_memberships g c d) = db_ledger d" "db_corrections (purge_stale_memberships g c d) = db_corrections d"
  "db_periods (purge_stale_memberships g c d) = db_periods d" "db_groups (purge_stale_memberships g c d) = db_groups d"
  by (simp_all add: purge_stale_memberships_def)

lemma drop_rows_frame [simp]:
  "db_periods (drop_rows g c d) = db_periods d" "db_members (drop_rows g c d) = db_members d"
  "db_groups (drop_rows g c d) = db_groups d"
  by (simp_all add: drop_rows_def)

lemma drop_children_frame [simp]:
  "w_db (drop_children g c w) = w_db w" "w_meals (drop_children g c w) = w_meals w" "w_users (drop_children g c w) = w_users w"
  "w_orgs (drop_children g c w) = w_orgs w" "w_schedules (drop_children g c w) = w_schedules w"
  "w_bindings (drop_children g c w) = w_bindings w"
  by (simp_all add: drop_children_def)

lemma stale_members:
  assumes "distinct (map gm_id (db_members d))" "x \<in> set (db_members d)" "x \<notin> set (db_members (purge_stale_memberships g c d))"
  shows "stale g c x"
proof -
  obtain y where y: "y \<in> set (db_members d)" "stale g c y" "gm_id y = gm_id x"
    using assms(2,3) by (auto simp: purge_stale_memberships_def split: if_splits)
  then have "y = x" using assms(1,2) by (simp add: distinct_key_eq)
  with y show ?thesis by simp
qed

text \<open>Closing the books only writes periods, and drops none.\<close>

definition only_periods :: "db \<Rightarrow> db \<Rightarrow> bool" where
  "only_periods d d' \<longleftrightarrow> (\<exists>ps. d' = d\<lparr>db_periods := ps\<rparr> \<and> set (map bp_id (db_periods d)) \<subseteq> set (map bp_id ps))"

lemma only_periods_refl [simp]: "only_periods d d"
  unfolding only_periods_def by (intro exI [of _ "db_periods d"]) simp

lemma only_periods_trans: "only_periods d d' \<Longrightarrow> only_periods d' d'' \<Longrightarrow> only_periods d d''"
  unfolding only_periods_def by force

lemma only_periods_update:
  assumes "\<And>p. bp_id (f p) = bp_id p"
  shows "only_periods d (update_period i f d)"
proof -
  have "set (map bp_id (map (\<lambda>p. if bp_id p = i then f p else p) (db_periods d))) = set (map bp_id (db_periods d))"
    by (force simp: assms)
  then show ?thesis unfolding only_periods_def update_period_def by blast
qed

lemma only_periods_refinalize: "refinalize_period admin org i d = Inr d' \<Longrightarrow> only_periods d d'"
  by (auto simp: refinalize_period_def Let_def bindE_eq_Inr if_Inl_eq_Inr intro!: only_periods_update)

lemma only_periods_finalize: "finalize_period clk i admin org gid ps pe d = Inr d' \<Longrightarrow> only_periods d d'"
  by (erule finalize_cases) (auto simp: only_periods_def)

lemma only_periods_force_close: "only_periods d (snd (force_close admin org is d))"
proof (induction "is" arbitrary: d)
  case (Cons i "is")
  then show ?case
    by (auto split: sum.splits intro: only_periods_trans only_periods_refinalize)
qed simp

lemma only_periods_auto_finalize: "only_periods d (snd (auto_finalize e g c d))"
  by (auto simp: auto_finalize_def Let_def intro: only_periods_finalize split: sum.splits)

lemma only_periods_close_books: "only_periods d (snd (close_books e g c d))"
  using only_periods_force_close [of d "nullish (gr_admin g) ''system''" "gr_org g" "map bp_id (reopened_periods d g c)"]
    only_periods_auto_finalize [of _ e g c]
  by (auto simp: close_books_def split: prod.splits bool.splits) (metis only_periods_trans snd_conv)+

section \<open>Only aged rows go, and only behind an archive\<close>

definition row_tables where
  "row_tables s = (db_attendance (rt_db s), db_guests (rt_db s), db_ledger (rt_db s), db_corrections (rt_db s),
     w_vacations (rt_world s), w_selections (rt_world s), rt_notices s, rt_audit s)"

text \<open>The tables without the rows of the group dated up to the boundary.\<close>

definition aged_tables where
  "aged_tables g c s =
     (filter (\<lambda>x. \<not> in_scope g c (at_org x) (at_group x) (at_date x)) (db_attendance (rt_db s)),
      filter (\<lambda>x. \<not> in_scope g c (hg_org x) (hg_group x) (hg_date x)) (db_guests (rt_db s)),
      filter (\<lambda>x. \<not> in_scope g c (le_org x) (le_group x) (le_date x)) (db_ledger (rt_db s)),
      filter (\<lambda>x. \<not> in_scope g c (cr_org x) (cr_group x) (cr_date x)) (db_corrections (rt_db s)),
      filter (\<lambda>r. \<not> group_vacation_through g c r) (w_vacations (rt_world s)),
      filter (\<lambda>r. fst r \<notin> at_id ` set (attendance_through (rt_db s) g c)) (w_selections (rt_world s)),
      filter (\<lambda>n. \<not> (nt_org n = gr_org g \<and> nt_group n = Some (gr_id g) \<and> nt_created n \<le> c)) (rt_notices s),
      purge_audit_for (gr_org g) (map at_id (attendance_through (rt_db s) g c) @ map cr_id (corrections_through (rt_db s) g c))
        (rt_audit s))"

definition archived :: "retention_env \<Rightarrow> group_row \<Rightarrow> int \<Rightarrow> retained \<Rightarrow> bool" where
  "archived e g c s \<longleftrightarrow> (\<exists>a\<in>set (rt_archives s). ar_org a = gr_org g \<and> ar_group a = gr_id g \<and> ar_end a = c
     \<and> ar_purged a = Some (en_now e))"

lemma open_archiveD:
  "open_archive g c as = Some a \<Longrightarrow> a \<in> set as \<and> ar_org a = gr_org g \<and> ar_group a = gr_id g \<and> ar_end a = c"
proof -
  let ?P = "\<lambda>a. ar_org a = gr_org g \<and> ar_group a = gr_id g \<and> ar_end a = c \<and> ar_purged a = None"
  assume "open_archive g c as = Some a"
  then obtain rest where "sort_key (\<lambda>a. - ar_generated a) (filter ?P as) = a # rest"
    by (auto simp only: open_archive_def split: list.splits)
  then have "a \<in> set (sort_key (\<lambda>a. - ar_generated a) (filter ?P as))" by (simp only: list.set_intros)
  then show ?thesis by simp
qed

lemma purge_through_tables:
  "row_tables (purge_through_boundary cf e g c i s) = aged_tables g c s"
  by (simp add: purge_through_boundary_def Let_def row_tables_def aged_tables_def drop_rows_def drop_children_def)

lemma purge_archived:
  assumes "a \<in> set (rt_archives s)" "ar_org a = gr_org g" "ar_group a = gr_id g" "ar_end a = c"
  shows "archived e g c (purge_through_boundary cf e g c (ar_id a) s)"
proof -
  let ?f = "\<lambda>x. if ar_id x = ar_id a then x\<lparr>ar_purged := Some (en_now e)\<rparr> else x"
  have "?f a \<in> set (map ?f (rt_archives s))" using assms(1) unfolding set_map by (rule imageI)
  moreover have "rt_archives (purge_through_boundary cf e g c (ar_id a) s) = map ?f (rt_archives s)"
    by (simp add: purge_through_boundary_def Let_def)
  ultimately show ?thesis unfolding archived_def by (intro bexI [of _ "?f a"]) (simp_all add: assms)
qed

lemma archive_and_purge_cases:
  obtains (kept) "row_tables (archive_and_purge cf e g c s) = row_tables s"
      "db_members (rt_db (archive_and_purge cf e g c s)) = db_members (rt_db s)"
      "db_periods (rt_db (archive_and_purge cf e g c s)) = db_periods (rt_db s)"
  | (purged) i as where "archive_and_purge cf e g c s = purge_through_boundary cf e g c i (s\<lparr>rt_archives := as\<rparr>)"
      "archived e g c (archive_and_purge cf e g c s)"
proof (cases "earliest_data_date (rt_db s) g c")
  case None
  then show ?thesis by (intro kept) (simp_all add: archive_and_purge_def row_tables_def)
next
  case (Some start)
  show ?thesis
  proof (cases "open_archive g c (rt_archives s)")
    case old: (Some a)
    have s: "s\<lparr>rt_archives := rt_archives s\<rparr> = s" by simp
    have "archive_and_purge cf e g c s = purge_through_boundary cf e g c (ar_id a) (s\<lparr>rt_archives := rt_archives s\<rparr>)"
      by (simp add: archive_and_purge_def Some old)
    moreover from this have "archived e g c (archive_and_purge cf e g c s)"
      using open_archiveD [OF old] by (simp add: purge_archived)
    ultimately show ?thesis by (rule purged)
  next
    case None
    then show ?thesis
    proof (cases "rv_stored e")
      case True
      let ?a = "new_archive e g start c"
      have "archive_and_purge cf e g c s
          = purge_through_boundary cf e g c (ar_id ?a) (s\<lparr>rt_archives := rt_archives s @ [?a]\<rparr>)"
        by (simp add: archive_and_purge_def Some None True Let_def)
      moreover from this have "archived e g c (archive_and_purge cf e g c s)"
        using purge_archived [of ?a "s\<lparr>rt_archives := rt_archives s @ [?a]\<rparr>" g c e cf] by (simp add: new_archive_def)
      ultimately show ?thesis by (rule purged)
    next
      case False
      with None Some show ?thesis by (intro kept) (simp_all add: archive_and_purge_def)
    qed
  qed
qed

lemma retention_phase_Purge: "retention_phase cf today c rows = Purge \<Longrightarrow> c < today"
  by (simp add: retention_phase_def split: if_splits)

text \<open>Before its boundary has passed, a group only has its boundary set.\<close>

lemma process_group_handles:
  obtains (same) "row_tables (process_group cf e g s) = row_tables s"
      "db_members (rt_db (process_group cf e g s)) = db_members (rt_db s)"
      "db_periods (rt_db (process_group cf e g s)) = db_periods (rt_db s)"
  | (handled) c today where "gr_purge_through g = Some c"
      "to_utc_midnight (en_date e (org_tz (rt_world s) (gr_org g))) = Some today" "c < today"
      "process_group cf e g s = handle_boundary cf e g c s"
proof (cases "to_utc_midnight (en_date e (org_tz (rt_world s) (gr_org g)))")
  case None
  then show ?thesis by (intro same) (simp_all add: process_group_def)
next
  case (Some today)
  show ?thesis
  proof (cases "gr_first_published g \<noteq> None \<and> gr_anchored_at g = None")
    case True
    with Some show ?thesis by (intro same) (auto simp: process_group_def row_tables_def split: option.splits)
  next
    case False
    show ?thesis
    proof (cases "gr_purge_through g")
      case None
      with Some False show ?thesis by (intro same) (auto simp: process_group_def row_tables_def split: option.splits)
    next
      case c: (Some c)
      let ?p = "retention_phase cf today c (attendance_through (rt_db s) g c)"
      have e: "process_group cf e g s = (case ?p of Purge \<Rightarrow> handle_boundary cf e g c s | _ \<Rightarrow> s)"
        unfolding process_group_def Some option.case if_not_P [OF False] c ..
      show ?thesis
      proof (cases ?p)
        case Purge
        with e show ?thesis by (intro handled [OF c Some retention_phase_Purge]) simp_all
      qed (use e in \<open>auto intro: same\<close>)
    qed
  qed
qed

text \<open>How a call of \<open>processGroup\<close> ends: rows kept, or aged out behind an archive.\<close>

lemma process_group_cases:
  obtains (kept) "row_tables (process_group cf e g s) = row_tables s"
      "set (map bp_id (db_periods (rt_db s))) \<subseteq> set (map bp_id (db_periods (rt_db (process_group cf e g s))))"
      "db_members (rt_db (process_group cf e g s)) = db_members (rt_db s)"
  | (emptied) c today where "gr_purge_through g = Some c"
      "to_utc_midnight (en_date e (org_tz (rt_world s) (gr_org g))) = Some today" "c < today"
      "process_group cf e g s = set_rt_db (advance_boundary cf g c \<circ> purge_stale_memberships g c) s"
  | (purged) c today d i as where "gr_purge_through g = Some c"
      "to_utc_midnight (en_date e (org_tz (rt_world s) (gr_org g))) = Some today" "c < today"
      "close_books e g c (rt_db s) = (True, d)" "only_periods (rt_db s) d"
      "process_group cf e g s = purge_through_boundary cf e g c i ((set_rt_db (\<lambda>_. d) s)\<lparr>rt_archives := as\<rparr>)"
      "archived e g c (process_group cf e g s)"
proof -
  let ?s' = "process_group cf e g s"
  show ?thesis
  proof (cases rule: process_group_handles [of cf e g s])
    case same
    then show ?thesis by (intro kept) (simp_all add: only_periods_def row_tables_def)
  next
    case (handled c today)
    show ?thesis
    proof (cases "attendance_through (rt_db s) g c = []")
      case True
      then have "?s' = set_rt_db (advance_boundary cf g c \<circ> purge_stale_memberships g c) s"
        by (simp add: handled(4) handle_boundary_def)
      with handled show ?thesis by (intro emptied)
    next
      case False
      obtain ok d where d: "close_books e g c (rt_db s) = (ok, d)" by (cases "close_books e g c (rt_db s)")
      have per: "only_periods (rt_db s) d" using only_periods_close_books [of "rt_db s" e g c] by (simp add: d)
      let ?s1 = "set_rt_db (\<lambda>_. d) s"
      have s': "?s' = (if ok then archive_and_purge cf e g c ?s1 else ?s1)"
        using False by (simp add: handled(4) handle_boundary_def d)
      have one: "row_tables ?s1 = row_tables s" "db_members (rt_db ?s1) = db_members (rt_db s)"
        using per by (auto simp: only_periods_def row_tables_def)
      have ids: "set (map bp_id (db_periods (rt_db s))) \<subseteq> set (map bp_id (db_periods d))"
        using per unfolding only_periods_def by force
      show ?thesis
      proof (cases ok)
        case True
        show ?thesis
        proof (rule archive_and_purge_cases [of cf e g c ?s1])
          fix i as
          assume "archive_and_purge cf e g c ?s1 = purge_through_boundary cf e g c i (?s1\<lparr>rt_archives := as\<rparr>)"
            "archived e g c (archive_and_purge cf e g c ?s1)"
          with True s' d per have "process_group cf e g s = purge_through_boundary cf e g c i (?s1\<lparr>rt_archives := as\<rparr>)"
            "archived e g c (process_group cf e g s)" "close_books e g c (rt_db s) = (True, d)"
            by simp_all
          with handled(1-3) per show ?thesis by (intro purged)
        qed (rule kept; use True s' one ids in simp)
      next
        case False
        with s' one ids show ?thesis by (intro kept) simp_all
      qed
    qed
  qed
qed

text \<open>
  Retention deletes only what has aged out.  One pass over a group either keeps every
  row of every table, or it removes exactly that group's rows dated up to the frozen boundary
  (attendance with its child rows, guests, ledger entries, corrections, vacations, notices,
  and the audit entries of the removed records), in which case the boundary lies before the
  organisation's today and an archive of exactly that span is stored and stamped.  A
  membership disappears only when it was blocked or removed up to a passed boundary, and no
  billing period is ever deleted.
\<close>

lemma retention_purges_only_aged:
  assumes "distinct (map gm_id (db_members (rt_db s)))" and s': "s' = process_group cf e g s"
  shows "(row_tables s' = row_tables s
       \<or> (\<exists>c today. gr_purge_through g = Some c
            \<and> to_utc_midnight (en_date e (org_tz (rt_world s) (gr_org g))) = Some today \<and> c < today
            \<and> row_tables s' = aged_tables g c s \<and> archived e g c s'))
    \<and> (\<forall>x\<in>set (db_members (rt_db s)). x \<notin> set (db_members (rt_db s'))
         \<longrightarrow> (\<exists>c. gr_purge_through g = Some c \<and> stale g c x))
    \<and> set (map bp_id (db_periods (rt_db s))) \<subseteq> set (map bp_id (db_periods (rt_db s')))"
proof (cases rule: process_group_cases [of cf e g s])
  case kept
  then show ?thesis by (simp add: s')
next
  case (emptied c today)
  have "row_tables s' = row_tables s" unfolding s' emptied(4) by (simp add: row_tables_def)
  moreover have "stale g c x" if "x \<in> set (db_members (rt_db s))" "x \<notin> set (db_members (rt_db s'))" for x
    using stale_members [OF assms(1) that(1), of g c] that(2) unfolding s' emptied(4) by simp
  moreover have "db_periods (rt_db s') = db_periods (rt_db s)" unfolding s' emptied(4) by simp
  ultimately show ?thesis using emptied(1) by auto
next
  case (purged c today d i as)
  let ?s1 = "(set_rt_db (\<lambda>_. d) s)\<lparr>rt_archives := as\<rparr>"
  obtain ps where d: "d = (rt_db s)\<lparr>db_periods := ps\<rparr>" "set (map bp_id (db_periods (rt_db s))) \<subseteq> set (map bp_id ps)"
    using purged(5) unfolding only_periods_def by blast
  have "row_tables s' = aged_tables g c ?s1" unfolding s' purged(6) by (rule purge_through_tables)
  also have "\<dots> = aged_tables g c s"
    by (simp add: aged_tables_def d(1) attendance_through_def corrections_through_def)
  finally have "row_tables s' = aged_tables g c s" .
  moreover have "db_members (rt_db s') = db_members (purge_stale_memberships g c (drop_rows g c d))"
    "db_periods (rt_db s') = ps"
    unfolding s' purged(6) by (simp_all add: purge_through_boundary_def Let_def d(1))
  moreover have "stale g c x" if "x \<in> set (db_members (rt_db s))"
    "x \<notin> set (db_members (purge_stale_memberships g c (drop_rows g c d)))" for x
    using stale_members [of "drop_rows g c d" x g c] assms(1) that by (simp add: d(1))
  ultimately show ?thesis using purged(1-3,7) d(2) unfolding s' by auto
qed

section \<open>The balances survive\<close>

lemma latest_final_last_final:
  assumes "\<forall>p\<in>set (db_periods d). midnight (bp_end p)" "midnight c"
  shows "latest_final d g (\<lambda>t. t \<le> c) = last_final d (gr_org g) (gr_id g) (c + day_ms)"
proof -
  have "(bp_end p \<le> c) = (bp_end p < c + day_ms)" if "p \<in> set (db_periods d)" for p
  proof -
    have "midnight (bp_end p)" using assms(1) that by blast
    then have "c < bp_end p \<Longrightarrow> c + day_ms \<le> bp_end p" by (rule midnight_gap [OF assms(2)])
    then show ?thesis using day_ms_pos(1) by linarith
  qed
  then have "filter (\<lambda>p. bp_org p = gr_org g \<and> bp_group p = gr_id g \<and> bp_status p = Finalized \<and> bp_end p \<le> c) (db_periods d)
      = filter (\<lambda>p. bp_org p = gr_org g \<and> bp_group p = gr_id g \<and> bp_status p = Finalized \<and> bp_end p < c + day_ms) (db_periods d)"
    by (intro filter_cong) auto
  then show ?thesis by (simp add: latest_final_def last_final_def)
qed

lemma verified_opening:
  assumes "verify_continuity d g c" "\<forall>p\<in>set (db_periods d). midnight (bp_end p)" "midnight c"
  obtains p m where "last_final d (gr_org g) (gr_id g) (c + day_ms) = Some p" "opening_from_snapshot (bp_snapshot p) = Some m"
    "\<forall>u. get0 m u = get0 (live_opening d (gr_org g) (gr_id g) (policy_of (find_group d (gr_id g) (gr_org g))) (bp_end p)) u"
proof -
  let ?pol = "policy_of (find_group d (gr_id g) (gr_org g))"
  obtain p m where p: "last_final d (gr_org g) (gr_id g) (c + day_ms) = Some p" "opening_from_snapshot (bp_snapshot p) = Some m"
    using assms(1) unfolding verify_continuity_def latest_final_last_final [OF assms(2,3)]
    by (auto split: option.splits simp: bind_eq_Some_conv)
  let ?raw = "live_opening d (gr_org g) (gr_id g) ?pol (bp_end p)"
  have o: "fst (compute_opening_balances d (gr_org g) (gr_id g) (c + day_ms) ?pol True) = m"
    "fst (compute_opening_balances d (gr_org g) (gr_id g) (c + day_ms) ?pol False) = ?raw"
    by (simp_all add: compute_opening_balances_def p)
  have agree: "\<forall>u\<in>set (keys_of m @ keys_of m @ keys_of ?raw). get0 m u = get0 ?raw u"
    using assms(1) unfolding verify_continuity_def latest_final_last_final [OF assms(2,3)] p Option.bind_lunit Let_def o
    by (simp add: p o)
  have "get0 m u = get0 ?raw u" for u
  proof (cases "u \<in> set (keys_of m) \<union> set (keys_of ?raw)")
    case True
    then show ?thesis using agree by auto
  next
    case False
    then show ?thesis by (simp add: get0_keys_notin)
  qed
  then show ?thesis by (intro that [OF p]) simp
qed

lemma force_close_midnight:
  "\<forall>p\<in>set (db_periods d). midnight (bp_end p) \<Longrightarrow> \<forall>p\<in>set (db_periods (snd (force_close admin org is d))). midnight (bp_end p)"
proof (induction "is" arbitrary: d)
  case (Cons i "is")
  have "\<forall>p\<in>set (db_periods d'). midnight (bp_end p)" if "refinalize_period admin org i d = Inr d'" for d'
    using that Cons.prems
    by (auto simp: refinalize_period_def Let_def bindE_eq_Inr if_Inl_eq_Inr update_period_def)
  with Cons show ?case by (auto split: sum.splits)
qed simp

lemma auto_finalize_midnight:
  assumes "\<forall>p\<in>set (db_periods d). midnight (bp_end p)"
  shows "\<forall>p\<in>set (db_periods (snd (auto_finalize e g c d))). midnight (bp_end p)"
proof -
  have "\<forall>p\<in>set (db_periods d'). midnight (bp_end p)"
    if "finalize_period clk i admin org gid ps pe d = Inr d'" for clk i admin org gid ps pe d'
    using that assms to_utc_midnight_is_midnight [of pe] by (auto simp: new_period_def elim!: finalize_cases)
  then show ?thesis using assms by (auto simp: auto_finalize_def Let_def split: sum.splits)
qed

lemma close_books_gate:
  assumes "close_books e g c d = (True, d')" "gr_pricing_enabled g" "\<forall>p\<in>set (db_periods d). midnight (bp_end p)"
  shows "verify_continuity d' g c" "\<forall>p\<in>set (db_periods d'). midnight (bp_end p)"
proof -
  obtain d1 where d1: "force_close (nullish (gr_admin g) ''system'') (gr_org g) (map bp_id (reopened_periods d g c)) d = (True, d1)"
    "auto_finalize e g c d1 = (True, d')" and "verify_continuity d' g c"
    using assms(1,2) by (auto simp: close_books_def split: prod.splits bool.splits)
  then show "verify_continuity d' g c" by simp
  have "\<forall>p\<in>set (db_periods d1). midnight (bp_end p)" using force_close_midnight [OF assms(3)] d1(1) by (metis snd_conv)
  then show "\<forall>p\<in>set (db_periods d'). midnight (bp_end p)" using auto_finalize_midnight d1(2) by (metis snd_conv)
qed

lemma charges_frame:
  "db_attendance d = db_attendance d' \<Longrightarrow> db_guests d = db_guests d' \<Longrightarrow> charges d org gid pol P u = charges d' org gid pol P u"
  by (simp add: charges_def att_in_def guests_in_def)

lemma paise_frame: "db_ledger d = db_ledger d' \<Longrightarrow> paise d org gid P u = paise d' org gid P u"
  by (simp add: paise_def ledger_in_def)

text \<open>The group's periods end at the boundary or before it.\<close>

definition books_within :: "group_row \<Rightarrow> int \<Rightarrow> db \<Rightarrow> bool" where
  "books_within g c d \<longleftrightarrow>
     (\<forall>p\<in>set (db_periods d). midnight (bp_end p) \<and> (bp_org p = gr_org g \<and> bp_group p = gr_id g \<longrightarrow> bp_end p \<le> c))"

lemma force_close_within:
  "books_within g c d \<Longrightarrow> books_within g c (snd (force_close admin org is d))"
proof (induction "is" arbitrary: d)
  case (Cons i "is")
  have "books_within g c d'" if "refinalize_period admin org i d = Inr d'" for d'
    using that Cons.prems
    by (auto simp: books_within_def refinalize_period_def Let_def bindE_eq_Inr if_Inl_eq_Inr update_period_def)
  with Cons show ?case by (auto split: sum.splits)
qed simp

lemma latest_final_SomeD:
  assumes "latest_final d g P = Some p"
  shows "p \<in> set (db_periods d)" "bp_org p = gr_org g" "bp_group p = gr_id g" "bp_status p = Finalized" "P (bp_end p)"
    and "\<And>q. q \<in> set (db_periods d) \<Longrightarrow> bp_org q = gr_org g \<Longrightarrow> bp_group q = gr_id g \<Longrightarrow> bp_status q = Finalized
           \<Longrightarrow> P (bp_end q) \<Longrightarrow> bp_end q \<le> bp_end p"
proof -
  let ?F = "filter (\<lambda>p. bp_org p = gr_org g \<and> bp_group p = gr_id g \<and> bp_status p = Finalized \<and> P (bp_end p)) (db_periods d)"
  obtain ps where s: "sort_key (\<lambda>p. - bp_end p) ?F = p # ps"
    using assms unfolding latest_final_def by (cases "sort_key (\<lambda>p. - bp_end p) ?F") auto
  have "set (p # ps) = set ?F" unfolding s [symmetric] by (rule set_sort)
  then have "p \<in> set ?F" by auto
  then show "p \<in> set (db_periods d)" "bp_org p = gr_org g" "bp_group p = gr_id g" "bp_status p = Finalized" "P (bp_end p)"
    by simp_all
  fix q
  assume q: "q \<in> set (db_periods d)" "bp_org q = gr_org g" "bp_group q = gr_id g" "bp_status q = Finalized" "P (bp_end q)"
  then have "q \<in> set (p # ps)" unfolding s [symmetric] by simp
  moreover have "sorted (map (\<lambda>p. - bp_end p) (p # ps))" unfolding s [symmetric] by simp
  ultimately show "bp_end q \<le> bp_end p" by auto
qed

lemma latest_final_None:
  assumes "latest_final d g P = None" "q \<in> set (db_periods d)" "bp_org q = gr_org g" "bp_group q = gr_id g" "bp_status q = Finalized"
  shows "\<not> P (bp_end q)"
proof
  assume "P (bp_end q)"
  let ?F = "filter (\<lambda>p. bp_org p = gr_org g \<and> bp_group p = gr_id g \<and> bp_status p = Finalized \<and> P (bp_end p)) (db_periods d)"
  have "sort_key (\<lambda>p. - bp_end p) ?F = []"
    using assms(1) unfolding latest_final_def by (cases "sort_key (\<lambda>p. - bp_end p) ?F") auto
  then have "set ?F = {}" using set_sort [of "\<lambda>p. - bp_end p" ?F] by (simp only: list.set(1))
  then show False using assms(2-) \<open>P (bp_end q)\<close> by auto
qed

text \<open>Closing the books of a group with rows up to the boundary leaves a finalized period that ends on it.\<close>

lemma close_books_reaches:
  assumes cb: "close_books e g c d = (True, d')" "gr_pricing_enabled g" and within: "books_within g c d"
    and rows: "attendance_through d g c \<noteq> []" and c: "midnight c" "iso_range c"
  shows "\<exists>p. latest_final d' g (\<lambda>t. t \<le> c) = Some p \<and> bp_end p = c"
proof -
  obtain d1 where d1: "force_close (nullish (gr_admin g) ''system'') (gr_org g) (map bp_id (reopened_periods d g c)) d = (True, d1)"
    "auto_finalize e g c d1 = (True, d')"
    using cb by (auto simp: close_books_def split: prod.splits bool.splits)
  have w1: "books_within g c d1" using force_close_within [OF within] d1(1) by (metis snd_conv)
  have "only_periods d d1" using only_periods_force_close [of d "nullish (gr_admin g) ''system''" "gr_org g"] d1(1) by (metis snd_conv)
  then have "db_attendance d1 = db_attendance d" by (auto simp: only_periods_def)
  then have "attendance_through d1 g c \<noteq> []" using rows by (simp add: attendance_through_def)
  moreover have "x \<in> set (attendance_through d1 g c) \<Longrightarrow> at_date x \<le> c" for x by (simp add: attendance_through_def)
  ultimately obtain s where s: "earliest_data_date d1 g c = Some s" "s \<le> c"
    unfolding earliest_data_date_def
    by (cases "sort_key at_date (attendance_through d1 g c)") (auto dest: arg_cong [where f = set] simp flip: set_empty)
  have "\<exists>p\<in>set (db_periods d'). bp_org p = gr_org g \<and> bp_group p = gr_id g \<and> bp_status p = Finalized \<and> bp_end p = c"
  proof (cases "\<exists>p. latest_final d1 g (\<lambda>_. True) = Some p \<and> c \<le> bp_end p")
    case True
    then obtain p where p: "latest_final d1 g (\<lambda>_. True) = Some p" "c \<le> bp_end p" by blast
    note pd = latest_final_SomeD [OF p(1)]
    have "bp_end p = c" using w1 pd(1-3) p(2) unfolding books_within_def by fastforce
    moreover have "d' = d1" using d1(2) p by (auto simp: auto_finalize_def Let_def split: if_splits)
    ultimately show ?thesis using pd(1-4) by blast
  next
    case False
    let ?start = "case latest_final d1 g (\<lambda>_. True) of None \<Rightarrow> earliest_data_date d1 g c | Some p \<Rightarrow> Some (bp_end p + day_ms)"
    have "\<exists>a. ?start = Some a \<and> a \<le> c"
    proof (cases "latest_final d1 g (\<lambda>_. True)")
      case None
      then show ?thesis using s by simp
    next
      case (Some p)
      then have "bp_end p < c" using False by (simp add: not_le)
      moreover have "midnight (bp_end p)" using w1 latest_final_SomeD(1) [OF Some] by (simp add: books_within_def)
      ultimately show ?thesis using midnight_gap [OF _ c(1)] Some by simp
    qed
    moreover have "case latest_final d1 g (\<lambda>_. True) of None \<Rightarrow> True | Some p \<Rightarrow> bp_end p < c"
      using False by (auto split: option.split)
    ultimately obtain a where "finalize_period (en_date e) (en_id e 0) (nullish (gr_admin g) ''system'') (gr_org g) (gr_id g)
        (format_utc_date a) (format_utc_date c) d1 = Inr d'"
      using d1(2) by (auto simp: auto_finalize_def Let_def split: sum.splits)
    then obtain a' b snap where b: "to_utc_midnight (format_utc_date c) = Some b"
      "d' = d1\<lparr>db_periods := db_periods d1 @ [new_period (en_id e 0) (nullish (gr_admin g) ''system'') (gr_org g) (gr_id g) a' b snap]\<rparr>"
      by (auto elim!: finalize_cases)
    have "b = c" using b(1) to_utc_midnight_format_midnight [OF c(2,1)] by simp
    then show ?thesis by (simp add: b(2) new_period_def)
  qed
  then obtain p where p: "p \<in> set (db_periods d')" "bp_org p = gr_org g" "bp_group p = gr_id g" "bp_status p = Finalized" "bp_end p = c"
    by blast
  then obtain q where q: "latest_final d' g (\<lambda>t. t \<le> c) = Some q"
    using latest_final_None [of d' g "\<lambda>t. t \<le> c"] by (cases "latest_final d' g (\<lambda>t. t \<le> c)") auto
  then have "bp_end q = c" using latest_final_SomeD(5,6) [OF q] p by (metis order.refl order.antisym)
  with q show ?thesis by blast
qed

text \<open>
  (C6) Deleting the raw rows erases no money.  When a pass over a priced group removed any
  attendance row and no billing period of the group runs past the boundary, then every deleted
  meal, guest and ledger row is a row of the group dated up to the boundary, and the next cycle
  opens, for every member, with exactly the balance of all the rows up to the boundary before the
  pass: meals, guests and rounded ledger, credits and debts alike.
\<close>

theorem purge_keeps_balances:
  assumes "gr_pricing_enabled g" "gr_purge_through g = Some c" "midnight c" "iso_range c"
    and within: "books_within g c (rt_db s)"
    and s': "s' = process_group cf e g s" and gone: "db_attendance (rt_db s') \<noteq> db_attendance (rt_db s)"
    and pol: "pol = policy_of (find_group (rt_db s) (gr_id g) (gr_org g))"
  shows "(\<forall>u. get0 (fst (compute_opening_balances (rt_db s') (gr_org g) (gr_id g) (c + day_ms) pol True)) u
        = charges (rt_db s) (gr_org g) (gr_id g) pol (\<lambda>t. t \<le> c) u
          + round_rupees (paise (rt_db s) (gr_org g) (gr_id g) (\<lambda>t. t \<le> c) u))
    \<and> set (db_attendance (rt_db s)) - set (db_attendance (rt_db s')) \<subseteq> {r. in_scope g c (at_org r) (at_group r) (at_date r)}
    \<and> set (db_guests (rt_db s)) - set (db_guests (rt_db s')) \<subseteq> {r. in_scope g c (hg_org r) (hg_group r) (hg_date r)}
    \<and> set (db_ledger (rt_db s)) - set (db_ledger (rt_db s')) \<subseteq> {r. in_scope g c (le_org r) (le_group r) (le_date r)}"
proof (cases rule: process_group_cases [of cf e g s])
  case kept
  then show ?thesis using gone by (simp add: s' row_tables_def)
next
  case (emptied c today)
  then show ?thesis using gone unfolding s' emptied(4) by simp
next
  case (purged c0 today d i as)
  then have c0: "c0 = c" using assms(2) by simp
  obtain ps where d: "d = (rt_db s)\<lparr>db_periods := ps\<rparr>"
    using purged(5) unfolding only_periods_def by blast
  have mid: "\<forall>p\<in>set (db_periods (rt_db s)). midnight (bp_end p)" using within by (simp add: books_within_def)
  note gate = close_books_gate [OF purged(4) assms(1) mid, unfolded c0]
  obtain p m where p: "last_final d (gr_org g) (gr_id g) (c + day_ms) = Some p" "opening_from_snapshot (bp_snapshot p) = Some m"
    "\<forall>u. get0 m u = get0 (live_opening d (gr_org g) (gr_id g) (policy_of (find_group d (gr_id g) (gr_org g))) (bp_end p)) u"
    by (rule verified_opening [OF gate assms(3)])
  have tables: "db_periods (rt_db s') = db_periods d" "db_attendance (rt_db s') = db_attendance (drop_rows g c d)"
    "db_guests (rt_db s') = db_guests (drop_rows g c d)" "db_ledger (rt_db s') = db_ledger (drop_rows g c d)"
    unfolding s' purged(6) c0 by (simp_all add: purge_through_boundary_def Let_def)
  have "attendance_through (rt_db s) g c \<noteq> []"
  proof
    assume "attendance_through (rt_db s) g c = []"
    then have "db_attendance (drop_rows g c d) = db_attendance (rt_db s)"
      by (auto simp: drop_rows_def attendance_through_def in_scope_def d filter_empty_conv intro!: filter_True)
    then show False using gone tables(2) by simp
  qed
  then obtain q where "latest_final d g (\<lambda>t. t \<le> c) = Some q" "bp_end q = c"
    using close_books_reaches [OF purged(4) [unfolded c0] assms(1) within _ assms(3,4)] by blast
  then have at_end: "bp_end p = c" using latest_final_last_final [OF gate(2) assms(3)] p(1) by simp
  have lf: "last_final (rt_db s') (gr_org g) (gr_id g) (c + day_ms) = Some p" using p(1) by (simp add: last_final_def tables(1))
  have "find_group d = find_group (rt_db s)" by (simp add: d find_group_def fun_eq_iff)
  then have "get0 m u = charges (rt_db s) (gr_org g) (gr_id g) pol (\<lambda>t. t \<le> c) u
      + round_rupees (paise (rt_db s) (gr_org g) (gr_id g) (\<lambda>t. t \<le> c) u)" for u
    using p(3) [rule_format, of u] charges_frame [of d "rt_db s"] paise_frame [of d "rt_db s"]
    by (simp add: get0_live_opening pol d at_end)
  then show ?thesis
    using lf p(2) unfolding tables by (auto simp: compute_opening_balances_def drop_rows_def d)
qed

section \<open>Concrete inputs\<close>

text \<open>Three cycles from 1 April end on 30 June; on 20 August a meal of June and one of July are on record.\<close>

definition ex_aged_group :: group_row where
  "ex_aged_group = ex_group\<lparr>gr_purge_through := Some (day_of ''2026-06-30''), gr_created_at := day_of ''2026-04-01''\<rparr>"

definition ex_retained :: retained where
  "ex_retained = \<lparr>rt_world = \<lparr>w_db = ex_db\<lparr>db_groups := [ex_aged_group]\<rparr>, w_meals = [], w_users = [], w_orgs = [],
       w_vacations = [], w_schedules = [], w_bindings = [], w_selections = []\<rparr>,
     rt_archives = [], rt_notices = [], rt_audit = [(''o'', ''a1''), (''o'', ''a2'')]\<rparr>"

definition ex_retention :: retention_config where
  "ex_retention = \<lparr>rc_cycles = Some 3, rc_reminder_days = Some 7\<rparr>"

definition ex_retention_env :: retention_env where
  "ex_retention_env = \<lparr>en_date = ex_clock, en_time = (\<lambda>_. ''03:00''), en_now = day_of ''2026-08-20'', en_first_writer = True,
     en_id = (\<lambda>n. ''new'' @ pad2 (int n)), rv_stored = True\<rparr>"

definition ex_purged :: retained where
  "ex_purged = process_group ex_retention ex_retention_env ex_aged_group ex_retained"

lemma ex_purged_rows:
  "map at_id (db_attendance (rt_db ex_purged)) = [''a2''] \<and> rt_audit ex_purged = [(''o'', ''a2'')]
   \<and> map gr_purge_through (db_groups (rt_db ex_purged)) = [Some (day_of ''2026-09-30'')]"
  by code_simp

theorem boundary_search_ends_witness:
  "fresh_boundary ex_retention (day_of ''2026-06-10'') (Some 31) (day_of ''2026-03-10'' + 1000) = Some (day_of ''2026-06-29'')
   \<and> (\<exists>k m. cycle_anchor (Some 31) k * day_ms \<le> day_of ''2026-03-10'' + 1000
        \<and> fresh_boundary ex_retention (day_of ''2026-06-10'') (Some 31) (day_of ''2026-03-10'' + 1000) = Some (cycle_end (Some 31) m)
        \<and> k + 2 \<le> m \<and> day_of ''2026-06-10'' + 7 * day_ms \<le> cycle_end (Some 31) m)"
proof (rule conjI)
  show "fresh_boundary ex_retention (day_of ''2026-06-10'') (Some 31) (day_of ''2026-03-10'' + 1000) = Some (day_of ''2026-06-29'')"
    by code_simp
  have n: "cycles_of ex_retention = 3" "warn_days ex_retention = 7" by code_simp+
  have h: "day_from_year 101 * day_ms \<le> day_of ''2026-03-10'' + 1000" "day_of ''2026-03-10'' + 1000 < day_from_year 9000 * day_ms"
    "cycles_of ex_retention \<le> 1000"
    "day_of ''2026-06-10'' + warn_days ex_retention * day_ms
      \<le> (day_of ''2026-03-10'' + 1000) div day_ms * day_ms + 240 * (28 * day_ms)" by code_simp+
  from boundary_search_ends [OF h, of "Some 31"]
  show "\<exists>k m. cycle_anchor (Some 31) k * day_ms \<le> day_of ''2026-03-10'' + 1000
        \<and> fresh_boundary ex_retention (day_of ''2026-06-10'') (Some 31) (day_of ''2026-03-10'' + 1000) = Some (cycle_end (Some 31) m)
        \<and> k + 2 \<le> m \<and> day_of ''2026-06-10'' + 7 * day_ms \<le> cycle_end (Some 31) m"
    unfolding n by (elim exE conjE) (intro exI conjI, auto)
qed

theorem purge_keeps_balances_witness:
  "get0 (fst (compute_opening_balances (rt_db ex_purged) ''o'' ''g'' (day_of ''2026-06-30'' + day_ms)
      (policy_of (find_group (rt_db ex_retained) ''g'' ''o'')) True)) ''u'' = 60
   \<and> charges (rt_db ex_retained) ''o'' ''g'' (policy_of (find_group (rt_db ex_retained) ''g'' ''o'')) (\<lambda>t. t \<le> day_of ''2026-06-30'') ''u''
      + round_rupees (paise (rt_db ex_retained) ''o'' ''g'' (\<lambda>t. t \<le> day_of ''2026-06-30'') ''u'') = 60
   \<and> map at_id (db_attendance (rt_db ex_retained)) = [''a1'', ''a2'']
   \<and> map at_id (db_attendance (rt_db ex_purged)) = [''a2'']"
proof -
  have k: "gr_org ex_aged_group = ''o''" "gr_id ex_aged_group = ''g''" by code_simp+
  have g: "gr_pricing_enabled ex_aged_group" "gr_purge_through ex_aged_group = Some (day_of ''2026-06-30'')"
    "midnight (day_of ''2026-06-30'')" "iso_range (day_of ''2026-06-30'')" by code_simp+
  have p: "books_within ex_aged_group (day_of ''2026-06-30'') (rt_db ex_retained)" by code_simp
  have rows: "map at_id (db_attendance (rt_db ex_retained)) = [''a1'', ''a2'']" by code_simp
  then have ne: "db_attendance (rt_db ex_purged) \<noteq> db_attendance (rt_db ex_retained)" using ex_purged_rows by auto
  have "get0 (fst (compute_opening_balances (rt_db ex_purged) ''o'' ''g'' (day_of ''2026-06-30'' + day_ms)
      (policy_of (find_group (rt_db ex_retained) ''g'' ''o'')) True)) ''u'' = 60" by code_simp
  with purge_keeps_balances [OF g p ex_purged_def ne refl] rows ex_purged_rows show ?thesis
    unfolding k by simp
qed

section \<open>What the code lets through\<close>

text \<open>
  Retention keeps the finalized period; an administrator may reopen it later and finalize it
  again.  The new snapshot is built from rows that are gone, and the member's debt with them.
\<close>

lemma refinalize_after_purge_erases_debt:
  "let pol = policy_of (Some ex_aged_group); next_day = day_of ''2026-07-01'';
       reopened = result_db (reopen_period ''admin'' ''o'' ''new00'' ''fix'' (rt_db ex_purged))
   in fst (compute_opening_balances (rt_db ex_purged) ''o'' ''g'' next_day pol True) = [(''u'', 60)]
      \<and> fst (compute_opening_balances (result_db (refinalize_period ''admin'' ''o'' ''new00'' reopened)) ''o'' ''g'' next_day pol True) = []"
  by code_simp

text \<open>
  A priced group that switched its meal system off keeps its pricing flag; finalizing then
  fails, and no sweep ever purges the group or moves its boundary.
\<close>

lemma meals_off_blocks_retention:
  "let s = set_rt_db (\<lambda>d. d\<lparr>db_groups := [ex_aged_group\<lparr>gr_meals_enabled := False\<rparr>]\<rparr>) ex_retained;
       s' = retention_sweep ex_retention ex_retention_env s
   in map at_id (db_attendance (rt_db s')) = [''a1'', ''a2'']
      \<and> map gr_purge_through (db_groups (rt_db s')) = [Some (day_of ''2026-06-30'')] \<and> rt_archives s' = []"
  by code_simp

text \<open>
  The automatic close only looks at the latest finalized period of the group: with a later one
  finalized by hand, the days before it that were never finalized are not closed, the gate compares
  balances as of the period before the gap, and the rows of the gap go with the others.
\<close>

definition ex_gap_retained :: retained where
  "ex_gap_retained = set_rt_db (\<lambda>d. result_db (finalize_period ex_clock ''p2'' ''admin'' ''o'' ''g'' ''2026-07-01'' ''2026-07-31''
     (result_db (finalize_period ex_clock ''p1'' ''admin'' ''o'' ''g'' ''2026-05-01'' ''2026-05-31'' d)))) ex_retained"

lemma purge_loses_gap_rows:
  "let pol = policy_of (Some ex_aged_group); s' = process_group ex_retention ex_retention_env ex_aged_group ex_gap_retained;
       debt = (\<lambda>s b. get0 (fst (compute_opening_balances (rt_db s) ''o'' ''g'' (day_of ''2026-08-01'') pol b)) ''u'')
   in map at_id (db_attendance (rt_db ex_gap_retained)) = [''a1'', ''a2''] \<and> map at_id (db_attendance (rt_db s')) = [''a2'']
      \<and> debt ex_gap_retained False = 100 \<and> debt s' True = 40 \<and> debt s' False = 40"
  by code_simp

end
