(* ===== verification/Group_Config.thy ===== *)
theory Group_Config
  imports Mode_Conversion Retention
begin

text \<open>
  Saving a group's settings: \<open>updateGroup\<close> of
  \<open>src/src/features/groups/groups.service.ts\<close> with its cross-field rules (meal modes, billing
  cycle, opt-out, hosted guests, pricing) and its effects on the planner.
\<close>

section \<open>Reading groups\<close>

text \<open>\<open>findById\<close>: archived groups are found only with \<open>includeInactive\<close>.\<close>

definition group_by_id :: "bool \<Rightarrow> db \<Rightarrow> ident \<Rightarrow> ident \<Rightarrow> group_row option" where
  "group_by_id inactive d gid org =
     find (\<lambda>g. gr_id g = gid \<and> gr_org g = org \<and> (inactive \<or> gr_is_active g)) (db_groups d)"

text \<open>Names compare without case (ASCII letters).\<close>

definition same_name_type :: "string \<Rightarrow> string \<Rightarrow> group_row \<Rightarrow> bool" where
  "same_name_type name type g \<longleftrightarrow> gr_is_active g \<and> gr_type g = type \<and> js_lower (gr_name g) = js_lower name"

definition exists_active_by_name_type :: "db \<Rightarrow> ident \<Rightarrow> string \<Rightarrow> string \<Rightarrow> ident option \<Rightarrow> bool" where
  "exists_active_by_name_type d org name type exclude \<longleftrightarrow>
     (\<exists>g\<in>set (db_groups d). gr_org g = org \<and> same_name_type name type g \<and> Some (gr_id g) \<noteq> exclude)"

definition normalize_type_for_db :: "string \<Rightarrow> string" where
  "normalize_type_for_db t = (if t = ''factory_'' then ''factory'' else t)"

section \<open>The patch\<close>

text \<open>
  A field is \<open>None\<close> when the request leaves it out; a nullable column has a second option
  for an explicit \<open>null\<close>.  A \<open>null\<close> for a column that is \<open>NOT NULL\<close> cannot be written
  (the guest block drops it, the database refuses it elsewhere) and is not represented.
\<close>

record guest_config_patch =
  gc_enabled :: "bool option"
  gc_per_meal :: "int option option"
  gc_per_day :: "int option option"
  gc_pricing :: "string option option"
  gc_adult :: "int option option"
  gc_child :: "int option option"
  gc_surcharge :: "int option option"
  gc_surcharge_type :: "string option option"
  gc_approval :: "bool option"
  gc_cutoff :: "int option option"
  gc_advance :: "int option option"
  gc_pref_required :: "bool option"
  gc_without_host :: "bool option"
  gc_bill_no_show :: "bool option"

record meal_config_patch =
  mc_meals :: "bool option"
  mc_weekly :: "bool option"
  mc_day_wise :: "bool option"
  mc_prefs :: "bool option"
  mc_enabled_prefs :: "string list option"
  mc_vacation :: "bool option"
  mc_vacation_approval :: "bool option"
  mc_cycle_day :: "int option option"
  mc_pricing :: "bool option"
  mc_bill_skipped :: "bool option"
  mc_bill_absent :: "bool option option"
  mc_grace :: "int option option"
  mc_default :: "string option option"
  mc_min_opt_out :: "int option option"
  mc_guest :: "guest_config_patch option"

record group_patch =
  up_name :: "string option"
  up_type :: "string option"
  up_max_members :: "int option option"
  up_is_active :: "bool option"
  up_config :: "meal_config_patch option"
  up_functional :: "string option"

section \<open>Rules\<close>

fun check_tags :: "string list \<Rightarrow> string list \<Rightarrow> exn + unit" where
  "check_tags seen [] = Inr ()"
| "check_tags seen (t # ts) =
     (let norm = js_lower (js_trim t)
      in if norm = ''none'' then Inl (BadRequest ''Validation failed'')
         else if norm \<in> set seen then Inl (Conflict ''Validation failed'')
         else check_tags (norm # seen) ts)"

definition assert_standalone_tag_cap :: "int \<Rightarrow> string list option \<Rightarrow> exn + unit" where
  "assert_standalone_tag_cap cap tags =
     (case tags of
        None \<Rightarrow> Inr ()
      | Some ts \<Rightarrow>
          if int (length ts) > cap
          then Inl (BadRequest ''At most N standalone preference tags are supported'')
          else check_tags [] ts)"

text \<open>
  The update is computed by rewriting the patch: each rule sees the fields that go to the
  database so far, over the stored row.  The mode switched on by the patch wins; meals with
  no mode fall back to weekly.
\<close>

definition resolve_modes :: "group_row \<Rightarrow> meal_config_patch \<Rightarrow> meal_config_patch" where
  "resolve_modes g u =
     (if mc_meals u = None \<and> mc_weekly u = None \<and> mc_day_wise u = None then u
      else
        let w0 = nullish (mc_weekly u) (gr_weekly_menu g);
            d0 = nullish (mc_day_wise u) (gr_day_wise g);
            d = (if mc_weekly u = Some True then False
                 else if mc_day_wise u = Some True then d0
                 else if w0 \<and> d0 then False else d0);
            w1 = (if mc_weekly u = Some True then w0
                  else if mc_day_wise u = Some True then False else w0);
            w = (if nullish (mc_meals u) (gr_meals_enabled g) \<and> \<not> w1 \<and> \<not> d then True else w1)
        in u\<lparr>mc_weekly := Some w, mc_day_wise := Some d\<rparr>)"

text \<open>An unchanged cycle day is dropped from the update before any gate.\<close>

definition cycle_gate :: "group_row \<Rightarrow> meal_config_patch \<Rightarrow> exn + meal_config_patch" where
  "cycle_gate g u =
     (case mc_cycle_day u of
        None \<Rightarrow> Inr u
      | Some day \<Rightarrow>
          if day = gr_cycle_day g then Inr (u\<lparr>mc_cycle_day := None\<rparr>)
          else if \<not> nullish (mc_meals u) (gr_meals_enabled g)
            then Inl (BadRequest ''BILLING_CYCLE_NOT_APPLICABLE'')
          else if \<not> nullish (mc_pricing u) (gr_pricing_enabled g)
            then Inl (BadRequest ''BILLING_CYCLE_NOT_APPLICABLE'')
          else if gr_first_published g \<noteq> None then Inl (BadRequest ''BILLING_CYCLE_LOCKED'')
          else Inr u)"

text \<open>Opt-out attendance and preferences exclude each other; what just changed wins.\<close>

definition resolve_opt_out :: "group_row \<Rightarrow> meal_config_patch \<Rightarrow> meal_config_patch" where
  "resolve_opt_out g u =
     (let prev_default = nullish (gr_attendance_default g) ''absent'';
          next_default = nullish (Option.bind (mc_default u) id) prev_default;
          next_prefs = nullish (mc_prefs u) (gr_prefs_enabled g)
      in if next_default = ''present'' \<and> next_prefs
         then (if prev_default \<noteq> ''present'' \<and> gr_prefs_enabled g
               then u\<lparr>mc_prefs := Some False\<rparr>
               else u\<lparr>mc_default := Some (Some ''absent'')\<rparr>)
         else u)"

definition guest_gate :: "group_row \<Rightarrow> meal_config_patch \<Rightarrow> exn + meal_config_patch" where
  "guest_gate g u =
     (case mc_guest u of
        None \<Rightarrow> Inr u
      | Some gc \<Rightarrow>
          let enabled = nullish (gc_enabled gc) (gr_guest_enabled g);
              inert = (enabled \<and> \<not> nullish (mc_meals u) (gr_meals_enabled g));
              u' = (if inert then u\<lparr>mc_guest := Some (gc\<lparr>gc_enabled := None\<rparr>)\<rparr> else u);
              mode = nullish (gc_pricing gc) (gr_guest_pricing g);
              surcharge = nullish (gc_surcharge gc) (gr_guest_surcharge g);
              kind = nullish (gc_surcharge_type gc) (gr_guest_surcharge_type g)
          in if inert \<and> gc_enabled gc = Some True \<and> \<not> gr_guest_enabled g
             then Inl (Unprocessable ''GUESTS_REQUIRE_MEALS'')
             else if mode = Some ''flatSurcharge'' \<and> surcharge = None
             then Inl (Unprocessable ''GUEST_SURCHARGE_REQUIRED'')
             else if mode = Some ''flatSurcharge'' \<and> kind = Some ''percent'' \<and> nullish surcharge 0 > 100
             then Inl (Unprocessable ''GUEST_SURCHARGE_PERCENT_RANGE'')
             else Inr u')"

definition pricing_gate :: "group_row \<Rightarrow> meal_config_patch \<Rightarrow> exn + meal_config_patch" where
  "pricing_gate g u =
     (if nullish (mc_pricing u) (gr_pricing_enabled g) \<and> \<not> nullish (mc_meals u) (gr_meals_enabled g)
      then (if mc_pricing u = Some True \<and> \<not> gr_pricing_enabled g
            then Inl (Unprocessable ''PRICING_REQUIRES_MEALS'')
            else Inr (u\<lparr>mc_pricing := None\<rparr>))
      else Inr u)"

definition pricing_lock :: "group_row \<Rightarrow> meal_config_patch \<Rightarrow> exn + unit" where
  "pricing_lock g u =
     (if mc_pricing u \<noteq> None \<and> mc_pricing u \<noteq> Some (gr_pricing_enabled g) \<and> gr_first_published g \<noteq> None
      then Inl (BadRequest ''MEAL_PRICING_LOCKED'') else Inr ())"

definition resolve_config :: "int \<Rightarrow> group_row \<Rightarrow> meal_config_patch \<Rightarrow> exn + meal_config_patch" where
  "resolve_config cap g mc =
     (let u = resolve_modes g mc
      in bindE (assert_standalone_tag_cap cap (mc_enabled_prefs u)) (\<lambda>_.
         bindE (cycle_gate g u) (\<lambda>u.
         bindE (guest_gate g (resolve_opt_out g u)) (\<lambda>u.
         bindE (pricing_gate g u) (\<lambda>u.
         bindE (pricing_lock g u) (\<lambda>_. Inr u))))))"

section \<open>Writing\<close>

definition patch_guests :: "guest_config_patch \<Rightarrow> group_row \<Rightarrow> group_row" where
  "patch_guests gc g =
     g\<lparr>gr_guest_enabled := nullish (gc_enabled gc) (gr_guest_enabled g),
       gr_guest_per_meal := nullish (gc_per_meal gc) (gr_guest_per_meal g),
       gr_guest_per_day := nullish (gc_per_day gc) (gr_guest_per_day g),
       gr_guest_pricing := nullish (gc_pricing gc) (gr_guest_pricing g),
       gr_guest_adult := nullish (gc_adult gc) (gr_guest_adult g),
       gr_guest_child := nullish (gc_child gc) (gr_guest_child g),
       gr_guest_surcharge := nullish (gc_surcharge gc) (gr_guest_surcharge g),
       gr_guest_surcharge_type := nullish (gc_surcharge_type gc) (gr_guest_surcharge_type g),
       gr_guest_approval := nullish (gc_approval gc) (gr_guest_approval g),
       gr_guest_cutoff := nullish (gc_cutoff gc) (gr_guest_cutoff g),
       gr_guest_advance := nullish (gc_advance gc) (gr_guest_advance g),
       gr_guest_pref_required := nullish (gc_pref_required gc) (gr_guest_pref_required g),
       gr_guest_without_host := nullish (gc_without_host gc) (gr_guest_without_host g),
       gr_bill_no_show := nullish (gc_bill_no_show gc) (gr_bill_no_show g)\<rparr>"

definition patch_meal_config :: "meal_config_patch \<Rightarrow> group_row \<Rightarrow> group_row" where
  "patch_meal_config u g =
     (case mc_guest u of None \<Rightarrow> id | Some gc \<Rightarrow> patch_guests gc)
     (g\<lparr>gr_meals_enabled := nullish (mc_meals u) (gr_meals_enabled g),
        gr_weekly_menu := nullish (mc_weekly u) (gr_weekly_menu g),
        gr_day_wise := nullish (mc_day_wise u) (gr_day_wise g),
        gr_prefs_enabled := nullish (mc_prefs u) (gr_prefs_enabled g),
        gr_enabled_prefs := nullish (mc_enabled_prefs u) (gr_enabled_prefs g),
        gr_vacation_enabled := nullish (mc_vacation u) (gr_vacation_enabled g),
        gr_vacation_approval := nullish (mc_vacation_approval u) (gr_vacation_approval g),
        gr_cycle_day := nullish (mc_cycle_day u) (gr_cycle_day g),
        gr_pricing_enabled := nullish (mc_pricing u) (gr_pricing_enabled g),
        gr_bill_skipped := nullish (mc_bill_skipped u) (gr_bill_skipped g),
        gr_bill_absent := nullish (mc_bill_absent u) (gr_bill_absent g),
        gr_grace_minutes := nullish (mc_grace u) (gr_grace_minutes g),
        gr_attendance_default := nullish (mc_default u) (gr_attendance_default g),
        gr_min_opt_out := nullish (mc_min_opt_out u) (gr_min_opt_out g)\<rparr>)"

definition patch_header_fields :: "group_patch \<Rightarrow> group_row \<Rightarrow> group_row" where
  "patch_header_fields p g =
     g\<lparr>gr_name := nullish (up_name p) (gr_name g),
       gr_type := nullish (map_option normalize_type_for_db (up_type p)) (gr_type g),
       gr_max_members := nullish (up_max_members p) (gr_max_members g),
       gr_is_active := nullish (up_is_active p) (gr_is_active g)\<rparr>"

definition update_groups :: "ident \<Rightarrow> ident \<Rightarrow> (group_row \<Rightarrow> group_row) \<Rightarrow> world \<Rightarrow> world" where
  "update_groups gid org f w =
     w\<lparr>w_db := (w_db w)\<lparr>db_groups :=
         map (\<lambda>g. if gr_id g = gid \<and> gr_org g = org then f g else g) (db_groups (w_db w))\<rparr>\<rparr>"

definition update_membership :: "group_env \<Rightarrow> ident \<Rightarrow> ident \<Rightarrow> (member_row \<Rightarrow> member_row) \<Rightarrow> world \<Rightarrow> world" where
  "update_membership e gid user f w =
     w\<lparr>w_db := (w_db w)\<lparr>db_members :=
         map (\<lambda>m. if gm_group m = gid \<and> gm_user m = user then (f m)\<lparr>gm_updated_at := en_now e\<rparr> else m)
           (db_members (w_db w))\<rparr>\<rparr>"

definition revert_planner :: "ident \<Rightarrow> ident \<Rightarrow> world \<Rightarrow> world" where
  "revert_planner gid org w = w\<lparr>w_schedules := revert_published_for_group gid org (w_schedules w)\<rparr>"

text \<open>What a real change of a flag does to the planner, from the row before the save.\<close>

definition planner_effects ::
  "group_env \<Rightarrow> group_row \<Rightarrow> meal_config_patch \<Rightarrow> ident \<Rightarrow> ident \<Rightarrow> world \<Rightarrow> world" where
  "planner_effects e g u gid org w =
     (let prefs_changed = (mc_prefs u \<noteq> None \<and> mc_prefs u \<noteq> Some (gr_prefs_enabled g));
          mode_changed = (mc_weekly u \<noteq> None \<and> mc_weekly u \<noteq> Some (gr_weekly_menu g)
                          \<or> mc_day_wise u \<noteq> None \<and> mc_day_wise u \<noteq> Some (gr_day_wise g));
          meals_on = nullish (mc_meals u) (gr_meals_enabled g);
          w1 = (if prefs_changed then revert_planner gid org w else w);
          w2 = (if meals_on \<and> mode_changed
                then convert_on_mode_change e (if mc_day_wise u = Some True then DayWise else Weekly) gid org w1
                else w1)
      in if prefs_changed \<and> meals_on then revert_planner gid org w2 else w2)"

definition check_rename :: "db \<Rightarrow> group_row \<Rightarrow> group_patch \<Rightarrow> exn + unit" where
  "check_rename d g p =
     (if (up_name p \<noteq> None \<or> up_type p \<noteq> None)
         \<and> exists_active_by_name_type d (gr_org g) (gr_name (patch_header_fields p g))
             (gr_type (patch_header_fields p g)) (Some (gr_id g))
      then Inl (Conflict ''GROUP_NAME_DUPLICATE'') else Inr ())"

text \<open>\<open>update\<close> is \<open>None\<close> when the request has no \<open>mealConfig\<close>.\<close>

definition resolve_update :: "int \<Rightarrow> group_row \<Rightarrow> group_patch \<Rightarrow> exn + meal_config_patch option" where
  "resolve_update cap g p =
     (case up_config p of
        None \<Rightarrow> Inr None
      | Some mc \<Rightarrow> bindE (resolve_config cap g mc) (\<lambda>u. Inr (Some u)))"

definition saved_row :: "group_patch \<Rightarrow> meal_config_patch option \<Rightarrow> group_row \<Rightarrow> group_row" where
  "saved_row p u g =
     patch_header_fields p (case u of None \<Rightarrow> g | Some u' \<Rightarrow> patch_meal_config u' g)"

definition set_functional :: "group_env \<Rightarrow> ident \<Rightarrow> ident \<Rightarrow> group_patch \<Rightarrow> world \<Rightarrow> world" where
  "set_functional e gid actor p w =
     (case up_functional p of
        None \<Rightarrow> w
      | Some r \<Rightarrow> update_membership e gid actor (\<lambda>m. m\<lparr>gm_functional := Some r\<rparr>) w)"

definition update_group ::
  "int \<Rightarrow> group_env \<Rightarrow> ident \<Rightarrow> ident \<Rightarrow> ident \<Rightarrow> group_patch \<Rightarrow> world \<Rightarrow> exn + world" where
  "update_group cap e gid org actor p w =
     bindE (orErr (group_by_id False (w_db w) gid org) (NotFound ''Group not found'')) (\<lambda>g.
     bindE (check_rename (w_db w) g p) (\<lambda>_.
     bindE (resolve_update cap g p) (\<lambda>u.
     let w1 = update_groups gid org (saved_row p u) w;
         w2 = (case u of None \<Rightarrow> w1 | Some u' \<Rightarrow> planner_effects e g u' gid org w1)
     in Inr (set_functional e gid actor p w2))))"

end
