(* ===== verification/Group_Life.thy ===== *)
theory Group_Life
  imports Group_Config
begin

text \<open>
  The life of a group and of its memberships
  (\<open>src/src/features/groups/groups.service.ts\<close> with its two repositories, the request
  transforms and \<open>src/src/common/utils/qr-payload.util.ts\<close>): create, archive, restore,
  permanent delete, join codes, join requests and member administration.  Notices, pushes,
  realtime events and audit entries are left out, as are the address columns of a group.
\<close>

section \<open>Limits\<close>

record group_limits =
  gl_max_groups :: int
  gl_min_members :: int
  gl_role_limits :: "(string \<times> int) list"
  gl_default_limit :: int
  gl_qr_days :: int
  gl_tag_cap :: int

definition role_member_limit :: "group_limits \<Rightarrow> string \<Rightarrow> int" where
  "role_member_limit cf role =
     (case map_of (gl_role_limits cf) role of
        Some v \<Rightarrow> if 0 < v then v else gl_default_limit cf
      | None \<Rightarrow> gl_default_limit cf)"

definition count_active_groups :: "db \<Rightarrow> ident \<Rightarrow> int" where
  "count_active_groups d org = int (length (filter (\<lambda>g. gr_org g = org \<and> gr_is_active g) (db_groups d)))"

definition count_status :: "db \<Rightarrow> ident \<Rightarrow> member_status \<Rightarrow> int" where
  "count_status d gid s = int (length (filter (\<lambda>m. gm_group m = gid \<and> gm_status m = s) (db_members d)))"

abbreviation member_count :: "db \<Rightarrow> ident \<Rightarrow> int" where
  "member_count d gid \<equiv> count_status d gid MemberActive"

abbreviation pending_count :: "db \<Rightarrow> ident \<Rightarrow> int" where
  "pending_count d gid \<equiv> count_status d gid MemberPending"

section \<open>Join codes\<close>

definition find_by_join_code :: "db \<Rightarrow> string \<Rightarrow> group_row option" where
  "find_by_join_code d code = find (\<lambda>g. gr_join_token g = code) (db_groups d)"

function generate_unique_join_code :: "group_env \<Rightarrow> db \<Rightarrow> nat \<Rightarrow> exn + string" where
  "generate_unique_join_code e d attempts =
     (if 5 \<le> attempts then Inl (Internal ''Failed to generate unique join code after 5 attempts'')
      else if find_by_join_code d (ge_code e attempts) \<noteq> None
      then generate_unique_join_code e d (Suc attempts)
      else Inr (ge_code e attempts))"
  by pat_completeness auto
termination by (relation "measure (\<lambda>(e, d, n). 5 - n)") auto

declare generate_unique_join_code.simps [simp del]

section \<open>Signed QR payloads\<close>

text \<open>
  The HMAC of a body under the server's secret and the base64 JSON form of a payload are
  library code, so they are parameters; an expiry that does not parse compares as no expiry.
\<close>

record qr_payload =
  qp_org :: ident
  qp_group :: ident
  qp_token :: string
  qp_expires :: "int option"

record qr_codec =
  qc_sign :: "string \<Rightarrow> string"
  qc_body :: "qr_payload \<Rightarrow> string"
  qc_parse :: "string \<Rightarrow> qr_payload option"

definition qr_prefix :: string where
  "qr_prefix = ''emg1.''"

definition encode_qr_payload :: "qr_codec \<Rightarrow> qr_payload \<Rightarrow> string" where
  "encode_qr_payload c p = qr_prefix @ qc_body c p @ ''.'' @ qc_sign c (qc_body c p)"

definition is_signed_qr_payload :: "string \<Rightarrow> bool" where
  "is_signed_qr_payload v \<longleftrightarrow> take 5 v = qr_prefix"

definition decode_qr_payload :: "qr_codec \<Rightarrow> string \<Rightarrow> qr_payload option" where
  "decode_qr_payload c v =
     (if \<not> is_signed_qr_payload v then None
      else case js_split (CHR ''.'') v of
             [_, body, sig] \<Rightarrow>
               if sig \<noteq> qc_sign c body then None
               else (case qc_parse c body of
                       None \<Rightarrow> None
                     | Some p \<Rightarrow> if qp_token p = [] then None else Some p)
           | _ \<Rightarrow> None)"

definition ascii_upper :: "char \<Rightarrow> char" where
  "ascii_upper c = (let n = (of_char c :: nat) in if 97 \<le> n \<and> n \<le> 122 then char_of (n - 32) else c)"

text \<open>The request transforms and validates the code before the service sees it.\<close>

definition join_dto_code :: "string \<Rightarrow> exn + string" where
  "join_dto_code raw =
     (let v = js_trim (map ascii_upper raw)
      in if v = [] \<or> 64 < length v then Inl (Unprocessable ''Validation failed'') else Inr v)"

definition raw_join_code :: "qr_codec \<Rightarrow> group_env \<Rightarrow> string \<Rightarrow> exn + string" where
  "raw_join_code c e code =
     (if is_signed_qr_payload code then
        (case decode_qr_payload c code of
           None \<Rightarrow> Inl (BadRequest ''Invalid QR code'')
         | Some p \<Rightarrow>
             if qp_expires p \<noteq> None \<and> the (qp_expires p) < en_now e
             then Inl (BadRequest ''QR code expired'') else Inr (qp_token p))
      else Inr code)"

text \<open>\<open>getQrToken\<close>: the signed payload an admin shows.\<close>

definition qr_token :: "qr_codec \<Rightarrow> ident \<Rightarrow> ident \<Rightarrow> world \<Rightarrow> exn + string" where
  "qr_token c gid org w =
     bindE (orErr (group_by_id False (w_db w) gid org) (NotFound ''Group not found'')) (\<lambda>g.
     Inr (encode_qr_payload c \<lparr>qp_org = gr_org g, qp_group = gr_id g, qp_token = gr_join_token g,
                               qp_expires = gr_token_expires g\<rparr>))"

section \<open>Creating a group\<close>

record create_dto =
  cd_name :: string
  cd_type :: string
  cd_max_members :: "int option"
  cd_functional :: "string option"
  cd_config :: "meal_config_patch option"
  cd_timezone :: "string option"
  cd_approval :: "bool option"
  cd_qr_days :: "int option"

definition set_groups :: "(group_row list \<Rightarrow> group_row list) \<Rightarrow> world \<Rightarrow> world" where
  "set_groups f w = w\<lparr>w_db := (w_db w)\<lparr>db_groups := f (db_groups (w_db w))\<rparr>\<rparr>"

definition set_members :: "(member_row list \<Rightarrow> member_row list) \<Rightarrow> world \<Rightarrow> world" where
  "set_members f w = w\<lparr>w_db := (w_db w)\<lparr>db_members := f (db_members (w_db w))\<rparr>\<rparr>"

definition new_member :: "group_env \<Rightarrow> ident \<Rightarrow> ident \<Rightarrow> string \<Rightarrow> member_status \<Rightarrow> string option \<Rightarrow> member_row" where
  "new_member e gid user role status functional =
     \<lparr>gm_group = gid, gm_user = user, gm_status = status, gm_vacation = None, gm_default = None,
      gm_id = en_id e 1, gm_blocked_at = None, gm_removed_at = None, gm_updated_at = en_now e,
      gm_role = role, gm_functional = functional, gm_blocked_by = None, gm_removed_by = None,
      gm_reviewed_by = None, gm_reviewed_at = None, gm_review_note = None\<rparr>"

definition check_max_members :: "group_limits \<Rightarrow> world \<Rightarrow> ident \<Rightarrow> create_dto \<Rightarrow> exn + unit" where
  "check_max_members cf w admin dto =
     (case cd_max_members dto of
        None \<Rightarrow> Inr ()
      | Some n \<Rightarrow>
          let role = (if truthy (cd_functional dto) then the (cd_functional dto)
                      else (case find_user w admin of None \<Rightarrow> ''student'' | Some u \<Rightarrow> us_role u))
          in if n < gl_min_members cf \<or> n > role_member_limit cf role
             then Inl (Unprocessable ''MEMBER_LIMIT_EXCEEDED'') else Inr ())"

definition expiry_days :: "group_limits \<Rightarrow> create_dto \<Rightarrow> int option" where
  "expiry_days cf dto =
     (let n = nullish (cd_qr_days dto) (gl_qr_days cf) in if 0 < n then Some n else None)"

text \<open>The stored row: every group starts with pricing off and the columns' defaults.\<close>

definition new_group :: "group_limits \<Rightarrow> group_env \<Rightarrow> ident \<Rightarrow> ident \<Rightarrow> create_dto \<Rightarrow> string \<Rightarrow> group_row" where
  "new_group cf e org admin dto token =
     (let flag = (\<lambda>sel dflt. nullish (Option.bind (cd_config dto) sel) dflt)
      in \<lparr>gr_id = en_id e 0, gr_org = org, gr_is_active = True, gr_timezone = cd_timezone dto,
          gr_meals_enabled = flag mc_meals True, gr_pricing_enabled = False,
          gr_weekly_menu = flag mc_weekly False, gr_day_wise = flag mc_day_wise False,
          gr_vacation_enabled = flag mc_vacation True, gr_vacation_approval = False,
          gr_grace_minutes = None, gr_attendance_default = None, gr_guest_enabled = False,
          gr_bill_no_show = True, gr_bill_skipped = False, gr_bill_absent = None,
          gr_prefs_enabled = flag mc_prefs False,
          gr_enabled_prefs = nullish (Option.bind (cd_config dto) mc_enabled_prefs) [],
          gr_guest_per_meal = None, gr_guest_per_day = None, gr_guest_pricing = None,
          gr_guest_surcharge = None, gr_guest_surcharge_type = None, gr_guest_approval = False,
          gr_guest_cutoff = None, gr_guest_advance = None, gr_guest_pref_required = False,
          gr_guest_without_host = False, gr_min_opt_out = None, gr_admin = Some admin,
          gr_created_at = en_now e, gr_cycle_day = None, gr_purge_through = None,
          gr_first_published = None, gr_anchored_at = None, gr_name = cd_name dto,
          gr_type = normalize_type_for_db (cd_type dto), gr_join_token = token,
          gr_token_expires = map_option (\<lambda>n. en_now e + n * day_ms) (expiry_days cf dto),
          gr_max_members = cd_max_members dto,
          gr_approval_required = nullish (cd_approval dto) False,
          gr_qr_days = expiry_days cf dto, gr_archived_at = None,
          gr_guest_adult = None, gr_guest_child = None\<rparr>)"

definition create_group ::
  "group_limits \<Rightarrow> group_env \<Rightarrow> ident \<Rightarrow> ident \<Rightarrow> create_dto \<Rightarrow> world \<Rightarrow> exn + world" where
  "create_group cf e org admin dto w =
     (if gl_max_groups cf \<le> count_active_groups (w_db w) org then Inl (Conflict ''GROUP_LIMIT_REACHED'')
      else
        bindE (check_max_members cf w admin dto) (\<lambda>_.
        if exists_active_by_name_type (w_db w) org (cd_name dto) (normalize_type_for_db (cd_type dto)) None
        then Inl (Conflict ''GROUP_NAME_DUPLICATE'')
        else
          bindE (generate_unique_join_code e (w_db w) 0) (\<lambda>token.
          bindE (assert_standalone_tag_cap (gl_tag_cap cf) (Option.bind (cd_config dto) mc_enabled_prefs)) (\<lambda>_.
          Inr (set_members (\<lambda>ms. ms @ [new_member e (en_id e 0) admin ''groupManager'' MemberActive (cd_functional dto)])
                (set_groups (\<lambda>gs. gs @ [new_group cf e org admin dto token]) w))))))"

section \<open>Archiving and deleting\<close>

definition delete_group :: "group_env \<Rightarrow> ident \<Rightarrow> ident \<Rightarrow> world \<Rightarrow> exn + world" where
  "delete_group e gid org w =
     bindE (orErr (group_by_id False (w_db w) gid org) (NotFound ''Group not found'')) (\<lambda>_.
     Inr (update_groups gid org
            (\<lambda>g. if gr_is_active g then g\<lparr>gr_is_active := False, gr_archived_at := Some (en_now e)\<rparr> else g) w))"

definition restore_group :: "ident \<Rightarrow> ident \<Rightarrow> world \<Rightarrow> exn + world" where
  "restore_group gid org w =
     bindE (orErr (group_by_id True (w_db w) gid org) (NotFound ''Group not found'')) (\<lambda>g.
     if gr_is_active g then Inl (Conflict ''GROUP_NOT_ARCHIVED'')
     else if exists_active_by_name_type (w_db w) org (gr_name g) (gr_type g) (Some gid)
     then Inl (Conflict ''GROUP_NAME_DUPLICATE'')
     else Inr (update_groups gid org (\<lambda>x. x\<lparr>gr_is_active := True, gr_archived_at := None\<rparr>) w))"

definition last_finalized_end :: "db \<Rightarrow> ident \<Rightarrow> ident \<Rightarrow> int option" where
  "last_finalized_end d gid org =
     (case filter (\<lambda>p. bp_group p = gid \<and> bp_org p = org \<and> bp_status p = Finalized) (db_periods d) of
        [] \<Rightarrow> None
      | p # ps \<Rightarrow> Some (Max (set (map bp_end (p # ps)))))"

text \<open>The unfinished work that blocks an immediate permanent delete.\<close>

definition operational_blockers :: "group_env \<Rightarrow> group_row \<Rightarrow> ident \<Rightarrow> ident \<Rightarrow> world \<Rightarrow> string list" where
  "operational_blockers e g gid org w =
     (let d = w_db w;
          newer = (\<lambda>t. case last_finalized_end d gid org of None \<Rightarrow> True | Some b \<Rightarrow> b < t);
          unsettled = (gr_pricing_enabled g \<and>
            (\<exists>a\<in>set (db_attendance d). at_group a = gid \<and> at_org a = org \<and> at_price a \<noteq> None \<and> newer (at_date a)));
          corrections = (\<exists>c\<in>set (db_corrections d). cr_group c = gid \<and> cr_org c = org \<and> cr_status c = ReqPending);
          vacations = (\<exists>v\<in>set (w_vacations w). vr_group v = Some gid \<and> vr_org v = org \<and> \<not> vr_deleted v
            \<and> (vr_status v = VacPending \<or> vr_status v = VacApproved \<and> en_now e \<le> vr_end v));
          guests = (\<exists>h\<in>set (db_guests d). hg_group h = gid \<and> hg_org h = org \<and> hg_pending h);
          joins = (\<exists>m\<in>set (db_members d). gm_group m = gid \<and> gm_status m = MemberPending)
      in map fst (filter snd [(''billing'', unsettled), (''corrections'', corrections), (''vacations'', vacations),
                              (''guests'', guests), (''joinRequests'', joins)]))"

text \<open>
  The explicit deletes and the cascades of the foreign keys: a member, meal, schedule or
  attendance row goes with its group, an attendance row, a schedule entry and a preference
  binding with its meal, and the selections with their attendance row.
\<close>

definition cascades :: "ident \<Rightarrow> world \<Rightarrow> attendance_row \<Rightarrow> bool" where
  "cascades gid w a \<longleftrightarrow> at_group a = gid \<or> (\<exists>m\<in>set (w_meals w). ml_group m = gid \<and> ml_id m = at_meal a)"

definition hard_delete_group :: "ident \<Rightarrow> world \<Rightarrow> world" where
  "hard_delete_group gid w =
     (let d = w_db w; gone = ml_id ` set (filter (\<lambda>m. ml_group m = gid) (w_meals w))
      in w\<lparr>w_db := d\<lparr>db_attendance := filter (\<lambda>a. \<not> cascades gid w a) (db_attendance d),
                    db_guests := filter (\<lambda>h. hg_group h \<noteq> gid) (db_guests d),
                    db_ledger := filter (\<lambda>l. le_group l \<noteq> gid) (db_ledger d),
                    db_groups := filter (\<lambda>g. gr_id g \<noteq> gid) (db_groups d),
                    db_members := filter (\<lambda>m. gm_group m \<noteq> gid) (db_members d),
                    db_corrections := filter (\<lambda>c. cr_group c \<noteq> gid) (db_corrections d)\<rparr>,
           w_meals := filter (\<lambda>m. ml_group m \<noteq> gid) (w_meals w),
           w_vacations := filter (\<lambda>v. vr_group v \<noteq> Some gid) (w_vacations w),
           w_schedules := map (\<lambda>r. r\<lparr>sc_entries := filter (\<lambda>x. re_meal_id x \<notin> gone) (sc_entries r)\<rparr>)
                            (filter (\<lambda>r. sc_group r \<noteq> gid) (w_schedules w)),
           w_bindings := filter (\<lambda>b. bd_meal_id b \<notin> gone) (w_bindings w),
           w_selections := filter (\<lambda>s. fst s \<notin> at_id ` set (filter (cascades gid w) (db_attendance d)))
                             (w_selections w)\<rparr>)"

definition hard_delete :: "ident \<Rightarrow> retained \<Rightarrow> retained" where
  "hard_delete gid s =
     s\<lparr>rt_world := hard_delete_group gid (rt_world s),
       rt_notices := filter (\<lambda>n. nt_group n \<noteq> Some gid) (rt_notices s)\<rparr>"

definition permanent_delete_group :: "group_env \<Rightarrow> ident \<Rightarrow> ident \<Rightarrow> retained \<Rightarrow> exn + retained" where
  "permanent_delete_group e gid org s =
     bindE (orErr (group_by_id True (rt_db s) gid org) (NotFound ''Group not found'')) (\<lambda>g.
     if operational_blockers e g gid org (rt_world s) \<noteq> [] then Inl (Conflict ''GROUP_DELETE_BLOCKED'')
     else Inr (hard_delete gid s))"

text \<open>
  The sweep that deletes archived groups for good
  (\<open>groupArchivePurgeSweep\<close> of \<open>src/src/workers/system-default.worker.ts\<close>): without the
  blockers, fifty groups a tick; the order of the rows is the database's.
\<close>

definition archive_expired :: "int \<Rightarrow> env \<Rightarrow> group_row \<Rightarrow> bool" where
  "archive_expired days e g \<longleftrightarrow>
     \<not> gr_is_active g \<and> (case gr_archived_at g of None \<Rightarrow> False | Some t \<Rightarrow> t \<le> en_now e - days * day_ms)"

definition group_archive_purge_sweep :: "int option \<Rightarrow> env \<Rightarrow> retained \<Rightarrow> retained" where
  "group_archive_purge_sweep days e s =
     (let n = nullish days 30
      in if n \<le> 0 then s
         else fold (\<lambda>g. hard_delete (gr_id g)) (take 50 (filter (archive_expired n e) (db_groups (rt_db s)))) s)"

definition regenerate_join_code ::
  "group_env \<Rightarrow> ident \<Rightarrow> ident \<Rightarrow> int option \<Rightarrow> world \<Rightarrow> exn + world" where
  "regenerate_join_code e gid org hours w =
     bindE (orErr (group_by_id False (w_db w) gid org) (NotFound ''Group not found'')) (\<lambda>g.
     bindE (generate_unique_join_code e (w_db w) 0) (\<lambda>code.
     let expires = (if 0 < nullish hours 0 then Some (en_now e + the hours * 3600000)
                    else if 0 < nullish (gr_qr_days g) 0 then Some (en_now e + the (gr_qr_days g) * day_ms)
                    else None)
     in Inr (update_groups gid org (\<lambda>x. x\<lparr>gr_join_token := code, gr_token_expires := expires\<rparr>) w)))"

end
