(* ===== verification/Group_Members.thy ===== *)
theory Group_Members
  imports Group_Life
begin

text \<open>
  Joining, leaving and administering members
  (\<open>joinGroup\<close>, \<open>approveJoinRequest\<close>, \<open>rejectJoinRequest\<close>, \<open>cancelJoinRequest\<close>,
  \<open>updateMember\<close>, \<open>removeMember\<close>, \<open>leaveGroup\<close>, \<open>addMemberById\<close>), and the steps that all
  group operations together can take.
\<close>

section \<open>Memberships\<close>

text \<open>\<open>us_org = []\<close> stands for a user without an organisation.\<close>

definition sync_user_organization :: "ident \<Rightarrow> ident \<Rightarrow> world \<Rightarrow> world" where
  "sync_user_organization user org w =
     w\<lparr>w_users := map (\<lambda>u. if us_id u = user \<and> us_org u = [] then u\<lparr>us_org := org\<rparr> else u) (w_users w)\<rparr>"

definition create_membership ::
  "group_env \<Rightarrow> ident \<Rightarrow> ident \<Rightarrow> string \<Rightarrow> member_status \<Rightarrow> string option \<Rightarrow> world \<Rightarrow> world" where
  "create_membership e gid user role status functional =
     set_members (\<lambda>ms. ms @ [new_member e gid user role status functional])"

definition hard_delete_membership :: "ident \<Rightarrow> ident \<Rightarrow> world \<Rightarrow> world" where
  "hard_delete_membership gid user = set_members (filter (\<lambda>m. \<not> (gm_group m = gid \<and> gm_user m = user)))"

definition pending_membership :: "world \<Rightarrow> ident \<Rightarrow> ident \<Rightarrow> exn + member_row" where
  "pending_membership w gid user =
     (case find_membership w gid user of
        None \<Rightarrow> Inl (NotFound ''No pending join request'')
      | Some m \<Rightarrow> if gm_status m = MemberPending then Inr m else Inl (NotFound ''No pending join request''))"

section \<open>Joining\<close>

definition is_full :: "db \<Rightarrow> group_row \<Rightarrow> bool" where
  "is_full d g \<longleftrightarrow>
     (case gr_max_members g of None \<Rightarrow> False
      | Some n \<Rightarrow> n \<le> member_count d (gr_id g) + pending_count d (gr_id g))"

text \<open>A rejoin reuses the removed row and clears its history and its settings.\<close>

definition rejoined :: "member_status \<Rightarrow> string option \<Rightarrow> member_row \<Rightarrow> member_row" where
  "rejoined status functional m =
     m\<lparr>gm_status := status, gm_removed_at := None, gm_removed_by := None, gm_blocked_at := None,
       gm_blocked_by := None, gm_reviewed_by := None, gm_reviewed_at := None, gm_review_note := None,
       gm_vacation := None, gm_default := None,
       gm_functional := (if truthy functional then functional else gm_functional m)\<rparr>"

definition joinable_group :: "group_env \<Rightarrow> world \<Rightarrow> string \<Rightarrow> exn + group_row" where
  "joinable_group e w code =
     (case find_by_join_code (w_db w) code of
        None \<Rightarrow> Inl (BadRequest ''Invalid join code'')
      | Some g \<Rightarrow>
          if \<not> gr_is_active g then Inl (BadRequest ''Invalid join code'')
          else if gr_token_expires g \<noteq> None \<and> the (gr_token_expires g) < en_now e
          then Inl (BadRequest ''Join code expired'')
          else if is_full (w_db w) g then Inl (Conflict ''GROUP_FULL'')
          else Inr g)"

text \<open>The result carries \<open>joinStatus\<close>: the status the member has afterwards.\<close>

definition join_group ::
  "qr_codec \<Rightarrow> group_env \<Rightarrow> ident \<Rightarrow> string \<Rightarrow> string option \<Rightarrow> world \<Rightarrow> exn + world \<times> member_status" where
  "join_group c e user code functional w =
     bindE (raw_join_code c e code) (\<lambda>token.
     bindE (joinable_group e w token) (\<lambda>g.
     let status = (if gr_approval_required g then MemberPending else MemberActive);
         settle = (\<lambda>w'. (if gr_approval_required g then w' else sync_user_organization user (gr_org g) w', status))
     in case find_membership w (gr_id g) user of
          None \<Rightarrow> Inr (settle (create_membership e (gr_id g) user ''member'' status functional w))
        | Some m \<Rightarrow>
            (case gm_status m of
               MemberBlocked \<Rightarrow> Inl (Forbidden ''Access denied'')
             | MemberActive \<Rightarrow> Inr (w, MemberActive)
             | MemberPending \<Rightarrow> Inr (w, MemberPending)
             | MemberRemoved \<Rightarrow>
                 Inr (settle (update_membership e (gr_id g) user (rejoined status functional) w)))))"

definition join_request ::
  "qr_codec \<Rightarrow> group_env \<Rightarrow> ident \<Rightarrow> string \<Rightarrow> string option \<Rightarrow> world \<Rightarrow> exn + world \<times> member_status" where
  "join_request c e user raw functional w =
     bindE (join_dto_code raw) (\<lambda>code. join_group c e user code functional w)"

record join_preview =
  jp_group :: ident
  jp_members :: int
  jp_max :: "int option"
  jp_approval :: bool
  jp_full :: bool
  jp_expired :: bool
  jp_mine :: "member_status option"

definition preview_by_join_code :: "group_env \<Rightarrow> ident \<Rightarrow> string \<Rightarrow> world \<Rightarrow> exn + join_preview" where
  "preview_by_join_code e user code w =
     (case find_by_join_code (w_db w) code of
        None \<Rightarrow> Inl (BadRequest ''Invalid join code'')
      | Some g \<Rightarrow>
          if \<not> gr_is_active g then Inl (BadRequest ''Invalid join code'')
          else Inr \<lparr>jp_group = gr_id g, jp_members = member_count (w_db w) (gr_id g),
                    jp_max = gr_max_members g, jp_approval = gr_approval_required g,
                    jp_full = is_full (w_db w) g,
                    jp_expired = (gr_token_expires g \<noteq> None \<and> the (gr_token_expires g) < en_now e),
                    jp_mine = map_option gm_status (find_membership w (gr_id g) user)\<rparr>)"

section \<open>Deciding requests\<close>

definition approve_join_request ::
  "group_env \<Rightarrow> ident \<Rightarrow> ident \<Rightarrow> ident \<Rightarrow> ident \<Rightarrow> world \<Rightarrow> exn + world" where
  "approve_join_request e gid user org actor w =
     bindE (orErr (group_by_id False (w_db w) gid org) (NotFound ''Group not found'')) (\<lambda>g.
     bindE (pending_membership w gid user) (\<lambda>_.
     if gr_max_members g \<noteq> None \<and> the (gr_max_members g) \<le> member_count (w_db w) gid
     then Inl (Conflict ''GROUP_FULL'')
     else Inr (sync_user_organization user org
            (update_membership e gid user
              (\<lambda>m. m\<lparr>gm_status := MemberActive, gm_reviewed_by := Some actor,
                     gm_reviewed_at := Some (en_now e), gm_review_note := None\<rparr>) w))))"

definition reject_join_request :: "ident \<Rightarrow> ident \<Rightarrow> ident \<Rightarrow> world \<Rightarrow> exn + world" where
  "reject_join_request gid user org w =
     bindE (orErr (group_by_id False (w_db w) gid org) (NotFound ''Group not found'')) (\<lambda>_.
     bindE (pending_membership w gid user) (\<lambda>_. Inr (hard_delete_membership gid user w)))"

definition cancel_join_request :: "ident \<Rightarrow> ident \<Rightarrow> world \<Rightarrow> exn + world" where
  "cancel_join_request gid user w =
     bindE (pending_membership w gid user) (\<lambda>_. Inr (hard_delete_membership gid user w))"

section \<open>Administering members\<close>

record member_patch =
  mp_role :: "string option"
  mp_status :: "member_status option"

definition set_status :: "group_env \<Rightarrow> ident \<Rightarrow> member_status \<Rightarrow> member_row \<Rightarrow> member_row" where
  "set_status e actor s m =
     (case s of
        MemberBlocked \<Rightarrow> m\<lparr>gm_status := s, gm_blocked_at := Some (en_now e), gm_blocked_by := Some actor\<rparr>
      | MemberRemoved \<Rightarrow> m\<lparr>gm_status := s, gm_removed_at := Some (en_now e), gm_removed_by := Some actor,
                           gm_blocked_at := None, gm_blocked_by := None\<rparr>
      | MemberActive \<Rightarrow> m\<lparr>gm_status := s, gm_blocked_at := None, gm_blocked_by := None\<rparr>
      | MemberPending \<Rightarrow> m\<lparr>gm_status := s\<rparr>)"

definition patch_member :: "group_env \<Rightarrow> ident \<Rightarrow> member_patch \<Rightarrow> member_row \<Rightarrow> member_row" where
  "patch_member e actor p m =
     (let m' = m\<lparr>gm_role := nullish (mp_role p) (gm_role m)\<rparr>
      in case mp_status p of None \<Rightarrow> m' | Some s \<Rightarrow> set_status e actor s m')"

definition update_member ::
  "group_env \<Rightarrow> ident \<Rightarrow> ident \<Rightarrow> ident \<Rightarrow> ident \<Rightarrow> member_patch \<Rightarrow> world \<Rightarrow> exn + world" where
  "update_member e gid user org actor p w =
     bindE (orErr (group_by_id False (w_db w) gid org) (NotFound ''Group not found'')) (\<lambda>_.
     bindE (orErr (find_membership w gid user) (NotFound ''Member not found'')) (\<lambda>_.
     if user = actor \<and> mp_status p = Some MemberBlocked then Inl (BadRequest ''Invalid operation'')
     else Inr (update_membership e gid user (patch_member e actor p) w)))"

definition removed_by :: "group_env \<Rightarrow> ident \<Rightarrow> member_row \<Rightarrow> member_row" where
  "removed_by e actor = set_status e actor MemberRemoved"

definition remove_member :: "group_env \<Rightarrow> ident \<Rightarrow> ident \<Rightarrow> ident \<Rightarrow> ident \<Rightarrow> world \<Rightarrow> exn + world" where
  "remove_member e gid user org actor w =
     bindE (orErr (group_by_id False (w_db w) gid org) (NotFound ''Group not found'')) (\<lambda>_.
     bindE (orErr (find_membership w gid user) (NotFound ''Member not found'')) (\<lambda>m.
     if gm_status m = MemberRemoved then Inl (NotFound ''Member not found'')
     else Inr (update_membership e gid user (removed_by e actor) w)))"

definition leave_group :: "group_env \<Rightarrow> ident \<Rightarrow> ident \<Rightarrow> world \<Rightarrow> exn + world" where
  "leave_group e gid user w =
     bindE (orErr (find_membership w gid user) (NotFound ''Not a member'')) (\<lambda>m.
     if gm_status m = MemberRemoved then Inl (NotFound ''Not a member'')
     else if gm_status m = MemberPending then cancel_join_request gid user w
     else Inr (update_membership e gid user (removed_by e user) w))"

text \<open>The direct add re-activates any row that is neither blocked nor active.\<close>

definition readded :: "string option \<Rightarrow> member_row \<Rightarrow> member_row" where
  "readded role m =
     m\<lparr>gm_status := MemberActive, gm_role := nullish role (gm_role m), gm_removed_at := None,
       gm_removed_by := None, gm_vacation := None, gm_default := None\<rparr>"

definition add_member_by_id ::
  "group_env \<Rightarrow> ident \<Rightarrow> ident \<Rightarrow> ident \<Rightarrow> string option \<Rightarrow> world \<Rightarrow> exn + world" where
  "add_member_by_id e gid org user role w =
     bindE (orErr (group_by_id False (w_db w) gid org) (NotFound ''Group not found'')) (\<lambda>_.
     bindE (orErr (find_user w user) (NotFound ''User not found'')) (\<lambda>_.
     case find_membership w gid user of
       None \<Rightarrow> Inr (sync_user_organization user org
                 (create_membership e gid user (nullish role ''member'') MemberActive None w))
     | Some m \<Rightarrow>
         if gm_status m = MemberBlocked then Inl (BadRequest ''User is blocked from this group'')
         else if gm_status m = MemberActive then Inl (Conflict ''You are already a member of this group.'')
         else Inr (sync_user_organization user org (update_membership e gid user (readded role) w))))"

section \<open>Steps\<close>

text \<open>What a member can do without an admin.\<close>

inductive member_step :: "group_env \<Rightarrow> ident \<Rightarrow> world \<Rightarrow> world \<Rightarrow> bool" for e user where
  join: "join_group c e user code functional w = Inr (w', s) \<Longrightarrow> member_step e user w w'"
| cancel: "cancel_join_request gid user w = Inr w' \<Longrightarrow> member_step e user w w'"
| leave: "leave_group e gid user w = Inr w' \<Longrightarrow> member_step e user w w'"

inductive_cases member_stepE: "member_step e user w w'"

text \<open>Any operation of the groups service, by any caller of an organisation.\<close>

inductive groups_step :: "group_limits \<Rightarrow> world \<Rightarrow> world \<Rightarrow> bool" for cf where
  member: "member_step e user w w' \<Longrightarrow> groups_step cf w w'"
| create: "create_group cf e org admin dto w = Inr w' \<Longrightarrow> en_id e 0 \<notin> gr_id ` set (db_groups (w_db w))
            \<Longrightarrow> groups_step cf w w'"
| config: "update_group (gl_tag_cap cf) e gid org actor p w = Inr w' \<Longrightarrow> groups_step cf w w'"
| archive: "delete_group e gid org w = Inr w' \<Longrightarrow> groups_step cf w w'"
| restore: "restore_group gid org w = Inr w' \<Longrightarrow> groups_step cf w w'"
| purge: "permanent_delete_group e gid org s = Inr s' \<Longrightarrow> groups_step cf (rt_world s) (rt_world s')"
| code: "regenerate_join_code e gid org hours w = Inr w' \<Longrightarrow> groups_step cf w w'"
| approve: "approve_join_request e gid user org actor w = Inr w' \<Longrightarrow> groups_step cf w w'"
| reject: "reject_join_request gid user org w = Inr w' \<Longrightarrow> groups_step cf w w'"
| patch_member: "update_member e gid user org actor mp w = Inr w' \<Longrightarrow> groups_step cf w w'"
| remove: "remove_member e gid user org actor w = Inr w' \<Longrightarrow> groups_step cf w w'"
| add: "add_member_by_id e gid org user role w = Inr w' \<Longrightarrow> groups_step cf w w'"

end
