(* ===== verification/Group_Config_Laws.thy ===== *)
theory Group_Config_Laws
  imports Group_Config Guests
begin

text \<open>
  What saving a group's settings keeps: the settings stay consistent, the financial identity
  stays after the first publish, and no save, not even a switch of the planner mode, changes
  what is published on any day.
\<close>

section \<open>The planner mode marker\<close>

definition marked_store :: "schedule_row list \<Rightarrow> bool" where
  "marked_store rows \<longleftrightarrow>
     (\<forall>r\<in>set rows. sc_published_at r \<noteq> None \<longrightarrow>
        (\<forall>x\<in>set (nullish (sc_snapshot r) []). re_planner_mode x \<in> {Some ''WEEKLY'', Some ''DAY_WISE''}))"

lemma marked_entries:
  assumes "frozen_store rows" "marked_store rows" "r \<in> set rows" "sc_published_at r \<noteq> None"
    and "x \<in> set (published_entries_of meals (Some r))"
  shows "de_planner_mode x \<noteq> None"
proof -
  have "sc_snapshot r \<noteq> None \<and> sc_snapshot r \<noteq> Some []"
    using assms(1,3,4) unfolding frozen_store_def by blast
  then obtain y ys where s: "sc_snapshot r = Some (y # ys)"
    by (metis neq_Nil_conv option.exhaust)
  then obtain z where z: "z \<in> set (y # ys)" "x = normalize_entry z"
    using assms(5) by (auto simp: published_entries_of_def)
  have "\<forall>x\<in>set (nullish (sc_snapshot r) []). re_planner_mode x \<in> {Some ''WEEKLY'', Some ''DAY_WISE''}"
    using assms(2,3,4) unfolding marked_store_def by blast
  then have "re_planner_mode z \<in> {Some ''WEEKLY'', Some ''DAY_WISE''}"
    using s z(1) by (auto simp: nullish_def)
  then show ?thesis using z(2) by (auto simp: normalize_entry_def)
qed

lemma find_week_rowD: "find_week_row rows gid org ws = Some r \<Longrightarrow> r \<in> set rows \<and> sc_published_at r \<noteq> None"
  by (auto simp: find_week_row_def dest: find_SomeD)

lemma find_latest_rowD: "find_latest_row rows gid org = Some r \<Longrightarrow> r \<in> set rows \<and> sc_published_at r \<noteq> None"
proof -
  let ?P = "\<lambda>r. sc_group r = gid \<and> sc_org r = org \<and> sc_published_at r \<noteq> None"
  assume "find_latest_row rows gid org = Some r"
  then obtain rs where "sort_key (\<lambda>r. - sc_week_start r) (filter ?P rows) = r # rs"
    by (cases "sort_key (\<lambda>r. - sc_week_start r) (filter ?P rows)") (simp_all add: find_latest_row_def)
  then have "r \<in> set (sort_key (\<lambda>r. - sc_week_start r) (filter ?P rows))"
    by (simp only: list.set_intros)
  then show ?thesis by simp
qed

lemma carries_marked:
  "carried \<noteq> [] \<Longrightarrow> (\<And>x. x \<in> set carried \<Longrightarrow> de_planner_mode x \<noteq> None) \<Longrightarrow>
     carries reader gid org dw carried = carries reader' gid org dw carried"
  by (cases carried) (auto simp: carries_def)

lemma resolve_marked:
  assumes f: "frozen_store rows" and m: "marked_store rows"
  shows "resolve_published_day meals rows reader gid org ds dw
       = resolve_published_day meals rows reader' gid org ds dw"
proof -
  have marks: "de_planner_mode x \<noteq> None"
    if "x \<in> set (published_entries_of meals row)" and "row = find_week_row rows gid org ws \<or> row = find_latest_row rows gid org"
    for x row ws
  proof (cases row)
    case None
    then show ?thesis using that by (simp add: published_entries_of_def)
  next
    case (Some r)
    then have "r \<in> set rows \<and> sc_published_at r \<noteq> None"
      using that(2) find_week_rowD find_latest_rowD by metis
    then show ?thesis using marked_entries [OF f m] that(1) Some by blast
  qed
  have "governing_entries meals rows reader gid org t dw = governing_entries meals rows reader' gid org t dw" for t
  proof -
    obtain a b es where s: "step_entries meals rows gid org t = (a, b, es)" by (cases "step_entries meals rows gid org t") auto
    let ?c = "carry_forward_entries (published_entries_of meals a @ published_entries_of meals b) t"
    have a: "a = find_week_row rows gid org (t - day_of_week t * day_ms)"
      and b: "b = None \<or> b = find_latest_row rows gid org"
      using s by (auto simp: step_entries_def Let_def split: if_splits)
    have "de_planner_mode x \<noteq> None" if "x \<in> set ?c" for x
    proof -
      from that have "x \<in> set (published_entries_of meals a) \<or> x \<in> set (published_entries_of meals b)"
        by (auto simp: carry_forward_entries_def split: option.splits)
      then show ?thesis using marks a b by (auto simp: published_entries_of_def [of meals None])
    qed
    then have "?c \<noteq> [] \<Longrightarrow> carries reader gid org dw ?c = carries reader' gid org dw ?c"
      by (intro carries_marked)
    then show ?thesis by (auto simp: governing_entries_def s Let_def)
  qed
  then show ?thesis by (simp add: resolve_published_day_def split: option.splits)
qed

section \<open>The draft layer\<close>

text \<open>Rows that publish the same, perhaps followed by rows that publish nothing.\<close>

definition same_published :: "schedule_row list \<Rightarrow> schedule_row list \<Rightarrow> bool" where
  "same_published rows rows' \<longleftrightarrow>
     (\<exists>mid new. rows' = mid @ new \<and> list_all2 same_frozen rows mid \<and> (\<forall>r\<in>set new. sc_published_at r = None))"

lemma same_published_refl [simp]: "same_published rows rows"
  unfolding same_published_def by (rule exI [of _ rows], rule exI [of _ "[]"]) (simp add: list_all2_refl)

lemma same_frozen_trans: "same_frozen a b \<Longrightarrow> same_frozen b c \<Longrightarrow> same_frozen a c"
  by (simp add: same_frozen_def)

lemma list_all2_right: "list_all2 R xs ys \<Longrightarrow> y \<in> set ys \<Longrightarrow> \<exists>x. x \<in> set xs \<and> R x y"
  by (induction rule: list_all2_induct) auto

lemma same_published_trans:
  assumes "same_published a b" and "same_published b c"
  shows "same_published a c"
proof -
  obtain m n where b: "b = m @ n" "list_all2 same_frozen a m" "\<forall>r\<in>set n. sc_published_at r = None"
    using assms(1) by (auto simp: same_published_def)
  obtain p q where c: "c = p @ q" "list_all2 same_frozen b p" "\<forall>r\<in>set q. sc_published_at r = None"
    using assms(2) by (auto simp: same_published_def)
  obtain p1 p2 where p: "p = p1 @ p2" "list_all2 same_frozen m p1" "list_all2 same_frozen n p2"
    using c(2) unfolding b(1) list_all2_append1 by blast
  have "list_all2 same_frozen a p1"
    using list_all2_trans [OF same_frozen_trans b(2) p(2)] .
  moreover have "sc_published_at r = None" if "r \<in> set p2" for r
  proof -
    obtain x where "x \<in> set n" "same_frozen x r"
      using list_all2_right [OF p(3) \<open>r \<in> set p2\<close>] by blast
    then show ?thesis using b(3) by (auto simp: same_frozen_def)
  qed
  ultimately show ?thesis
    unfolding same_published_def c(1) p(1) using c(3) by (intro exI [of _ p1] exI [of _ "p2 @ q"]) auto
qed

lemma same_published_frozen: "same_published rows rows' \<Longrightarrow> frozen_store rows \<Longrightarrow> frozen_store rows'"
  by (auto simp: same_published_def frozen_store_def dest!: frozen_store_same [unfolded frozen_store_def])

lemma resolve_append_unpublished:
  assumes "\<forall>r\<in>set new. sc_published_at r = None"
  shows "resolve_published_day meals (rows @ new) reader gid org ds dw
       = resolve_published_day meals rows reader gid org ds dw"
proof -
  have "find_week_row (rows @ new) gid org ws = find_week_row rows gid org ws" for ws
    using assms by (induction rows) (auto simp: find_week_row_def find_None_iff)
  moreover have "find_latest_row (rows @ new) gid org = find_latest_row rows gid org"
    using assms by (simp add: find_latest_row_def cong: conj_cong)
  ultimately show ?thesis
    by (simp add: resolve_published_day_def governing_entries_def step_entries_def Let_def split: option.splits)
qed

lemma resolve_same_published:
  assumes "same_published rows rows'" and "frozen_store rows"
  shows "resolve_published_day meals rows' reader gid org ds dw
       = resolve_published_day meals rows reader gid org ds dw"
proof -
  obtain m n where r: "rows' = m @ n" "list_all2 same_frozen rows m" "\<forall>r\<in>set n. sc_published_at r = None"
    using assms(1) by (auto simp: same_published_def)
  show ?thesis
    unfolding r(1) resolve_append_unpublished [OF r(3)]
    by (rule resolve_same_frozen [OF r(2) assms(2), symmetric])
qed

lemma revert_group_same: "same_published rows (revert_published_for_group gid org rows)"
  unfolding same_published_def
  by (rule exI [of _ "revert_published_for_group gid org rows"], rule exI [of _ "[]"])
    (auto simp: revert_published_for_group_def same_frozen_def intro!: list_all2_map_self)

lemma persist_week_same:
  assumes "persist_week e meals gid org wk cells rows = Inr rows'" and "frozen_store rows"
  shows "same_published rows rows'"
proof (cases "find (\<lambda>r. sc_group r = gid \<and> sc_org r = org \<and> sc_week_start r = wk) rows")
  case None
  then obtain x where "rows' = rows @ [x]" "sc_published_at x = None"
    using assms(1) by (auto simp: persist_week_def Let_def split: if_splits)
  then show ?thesis
    unfolding same_published_def by (intro exI [of _ rows] exI [of _ "[x]"]) (simp add: list_all2_refl)
next
  case (Some x)
  let ?f = "\<lambda>r. if sc_id r = sc_id x
      then (freeze_legacy_snapshot meals (ge_by_meal e) r)
             \<lparr>sc_is_published := False, sc_entries := create_many (\<lambda>n. ge_week_id e wk (Suc n)) cells\<rparr>
      else r"
  have "same_frozen r (?f r)" if "r \<in> set rows" for r
  proof -
    have "freeze_legacy_snapshot meals (ge_by_meal e) r = r"
      using assms(2) that by (intro freeze_noop) (auto simp: frozen_store_def)
    then show ?thesis by (simp add: same_frozen_def)
  qed
  then have "list_all2 same_frozen rows (map ?f rows)" by (rule list_all2_map_self)
  then show ?thesis
    using assms(1) Some unfolding same_published_def
    by (intro exI [of _ rows'] exI [of _ "[]"]) (simp add: persist_week_def)
qed

lemma persist_weeks_same:
  "persist_weeks e meals gid org wks cells rows = Inr rows' \<Longrightarrow> frozen_store rows \<Longrightarrow> same_published rows rows'"
proof (induction wks arbitrary: rows)
  case (Cons wk wks)
  then obtain mid where m: "persist_week e meals gid org wk (filter (\<lambda>c. cell_week c = wk) cells) rows = Inr mid"
      "persist_weeks e meals gid org wks cells mid = Inr rows'"
    by (auto simp: bindE_eq_Inr)
  from persist_week_same [OF m(1) Cons.prems(2)] have "same_published rows mid" .
  then show ?case using Cons.IH [OF m(2)] Cons.prems(2) same_published_frozen same_published_trans by blast
qed simp

lemma convert_same:
  assumes "frozen_store (w_schedules w)"
  shows "same_published (w_schedules w) (w_schedules (convert_on_mode_change e target gid org w))"
  using assms
  by (auto simp: convert_on_mode_change_def persist_draft_def
      intro: persist_weeks_same split: sum.splits list.splits)

lemma convert_frame [simp]:
  "w_db (convert_on_mode_change e target gid org w) = w_db w"
  "w_meals (convert_on_mode_change e target gid org w) = w_meals w"
  by (simp_all add: convert_on_mode_change_def split: sum.splits list.splits)

section \<open>A save\<close>

lemma update_group_cases:
  assumes "update_group cap e gid org actor p w = Inr w'"
  obtains g u where "group_by_id False (w_db w) gid org = Some g" "check_rename (w_db w) g p = Inr ()"
    "resolve_update cap g p = Inr u"
    "w' = set_functional e gid actor p
       (case u of None \<Rightarrow> update_groups gid org (saved_row p u) w
        | Some u' \<Rightarrow> planner_effects e g u' gid org (update_groups gid org (saved_row p u) w))"
  using assms by (auto simp: update_group_def Let_def bindE_eq_Inr)

lemma group_by_idD:
  "group_by_id inactive d gid org = Some g \<Longrightarrow>
     g \<in> set (db_groups d) \<and> gr_id g = gid \<and> gr_org g = org \<and> (inactive \<or> gr_is_active g)"
  by (auto simp: group_by_id_def dest: find_SomeD)

lemma update_groups_frame [simp]:
  "w_schedules (update_groups gid org f w) = w_schedules w" "w_meals (update_groups gid org f w) = w_meals w"
  "db_groups (w_db (update_groups gid org f w)) =
     map (\<lambda>g. if gr_id g = gid \<and> gr_org g = org then f g else g) (db_groups (w_db w))"
  "db_members (w_db (update_groups gid org f w)) = db_members (w_db w)"
  by (simp_all add: update_groups_def)

lemma update_membership_frame [simp]:
  "w_schedules (update_membership e gid user f w) = w_schedules w"
  "w_meals (update_membership e gid user f w) = w_meals w"
  "db_groups (w_db (update_membership e gid user f w)) = db_groups (w_db w)"
  by (simp_all add: update_membership_def)

lemma set_functional_frame [simp]:
  "w_schedules (set_functional e gid actor p w) = w_schedules w"
  "w_meals (set_functional e gid actor p w) = w_meals w"
  "db_groups (w_db (set_functional e gid actor p w)) = db_groups (w_db w)"
  by (simp_all add: set_functional_def split: option.split)

lemma revert_planner_frame [simp]:
  "w_db (revert_planner gid org w) = w_db w" "w_meals (revert_planner gid org w) = w_meals w"
  by (simp_all add: revert_planner_def)

lemma planner_effects_frame [simp]:
  "w_db (planner_effects e g u gid org w) = w_db w" "w_meals (planner_effects e g u gid org w) = w_meals w"
  by (simp_all add: planner_effects_def Let_def)

lemma planner_effects_same:
  assumes "frozen_store (w_schedules w)"
  shows "same_published (w_schedules w) (w_schedules (planner_effects e g u gid org w))"
proof -
  have r: "same_published (w_schedules v) (w_schedules (revert_planner gid org v))" for v
    by (simp add: revert_planner_def revert_group_same)
  have c: "same_published (w_schedules w) (w_schedules v) \<Longrightarrow>
      same_published (w_schedules w) (w_schedules (convert_on_mode_change e t gid org v))" for v t
    using convert_same same_published_frozen same_published_trans assms by blast
  define w1 where "w1 = (if mc_prefs u \<noteq> None \<and> mc_prefs u \<noteq> Some (gr_prefs_enabled g) then revert_planner gid org w else w)"
  have 1: "same_published (w_schedules w) (w_schedules w1)" by (simp add: w1_def r)
  show ?thesis
    unfolding planner_effects_def Let_def w1_def [symmetric]
    using same_published_trans [OF c [OF 1] r] same_published_trans [OF 1 r] 1 c [OF 1] by auto
qed

lemma update_group_groups:
  assumes "update_group cap e gid org actor p w = Inr w'"
  obtains g u where "group_by_id False (w_db w) gid org = Some g" "check_rename (w_db w) g p = Inr ()"
    "resolve_update cap g p = Inr u"
    "db_groups (w_db w') = map (\<lambda>x. if gr_id x = gid \<and> gr_org x = org then saved_row p u x else x) (db_groups (w_db w))"
  using assms by (elim update_group_cases) (auto split: option.splits)

text \<open>
  (C17) Once every published week is frozen with its planner mode, a save of the settings, a
  switch of the planner mode included, does not change what any group sees on any day.
\<close>

theorem config_save_keeps_published:
  assumes "update_group cap e gid org actor p w = Inr w'"
    and "frozen_store (w_schedules w)" and "marked_store (w_schedules w)"
  shows "published_day w' org' gid' ds = published_day w org' gid' ds"
proof -
  have "same_published (w_schedules w) (w_schedules w')" and "w_meals w' = w_meals w"
    using update_group_cases [OF assms(1)] planner_effects_same assms(2)
    by (metis (no_types, lifting) option.case_eq_if planner_effects_frame(2) same_published_refl
        set_functional_frame(1,2) update_groups_frame(1,2))+
  then show ?thesis
    unfolding published_day_def
    by (subst resolve_same_published [OF _ assms(2)])
      (auto simp: raw_meals_def [abs_def] intro: resolve_marked [OF assms(2,3)])
qed

section \<open>Consistent settings\<close>

definition settings_ok :: "group_row \<Rightarrow> bool" where
  "settings_ok g \<longleftrightarrow>
     \<not> (gr_weekly_menu g \<and> gr_day_wise g)
     \<and> (gr_meals_enabled g \<longrightarrow> gr_weekly_menu g \<or> gr_day_wise g)
     \<and> \<not> (gr_attendance_default g = Some ''present'' \<and> gr_prefs_enabled g)
     \<and> (gr_guest_pricing g = Some ''flatSurcharge'' \<longrightarrow>
          gr_guest_surcharge g \<noteq> None
          \<and> (gr_guest_surcharge_type g = Some ''percent'' \<longrightarrow> nullish (gr_guest_surcharge g) 0 \<le> 100))"

lemma cycle_gate_cases:
  assumes "cycle_gate g u = Inr v"
  obtains "v = u" "mc_cycle_day u = None" | "v = u\<lparr>mc_cycle_day := None\<rparr>"
  | day where "v = u" "mc_cycle_day u = Some day" "gr_first_published g = None"
  using assms by (auto simp: cycle_gate_def split: option.splits if_splits)

lemma pricing_gate_cases:
  assumes "pricing_gate g u = Inr v"
  obtains "v = u" | "v = u\<lparr>mc_pricing := None\<rparr>"
  using assms by (auto simp: pricing_gate_def split: if_splits)

definition guests_ok :: "group_row \<Rightarrow> bool" where
  "guests_ok g \<longleftrightarrow>
     (gr_guest_pricing g = Some ''flatSurcharge'' \<longrightarrow>
        gr_guest_surcharge g \<noteq> None
        \<and> (gr_guest_surcharge_type g = Some ''percent'' \<longrightarrow> nullish (gr_guest_surcharge g) 0 \<le> 100))"

lemma guest_gate_cases:
  assumes "guest_gate g u = Inr v"
  obtains x where "v = u\<lparr>mc_guest := x\<rparr>" "guests_ok g \<Longrightarrow> guests_ok (patch_meal_config v g)"
proof (cases "mc_guest u")
  case None
  then have v: "v = u" using assms by (simp add: guest_gate_def)
  then have "v = u\<lparr>mc_guest := mc_guest u\<rparr>" by simp
  moreover have "guests_ok g \<Longrightarrow> guests_ok (patch_meal_config v g)"
    using None v by (simp add: patch_meal_config_def guests_ok_def)
  ultimately show thesis by (rule that)
next
  case (Some gc)
  let ?mode = "nullish (gc_pricing gc) (gr_guest_pricing g)"
    and ?s = "nullish (gc_surcharge gc) (gr_guest_surcharge g)"
    and ?k = "nullish (gc_surcharge_type gc) (gr_guest_surcharge_type g)"
  have ok: "\<not> (?mode = Some ''flatSurcharge'' \<and> ?s = None)"
      "\<not> (?mode = Some ''flatSurcharge'' \<and> ?k = Some ''percent'' \<and> nullish ?s 0 > 100)"
    and v: "v = (if nullish (gc_enabled gc) (gr_guest_enabled g) \<and> \<not> nullish (mc_meals u) (gr_meals_enabled g)
             then u\<lparr>mc_guest := Some (gc\<lparr>gc_enabled := None\<rparr>)\<rparr> else u)"
    using assms Some unfolding guest_gate_def Let_def by (auto split: if_splits)
  obtain gc' where gc': "v = u\<lparr>mc_guest := Some gc'\<rparr>" "gc_pricing gc' = gc_pricing gc"
      "gc_surcharge gc' = gc_surcharge gc" "gc_surcharge_type gc' = gc_surcharge_type gc"
  proof (cases "nullish (gc_enabled gc) (gr_guest_enabled g) \<and> \<not> nullish (mc_meals u) (gr_meals_enabled g)")
    case True
    then show thesis using v that [of "gc\<lparr>gc_enabled := None\<rparr>"] by simp
  next
    case False
    then have "v = u" unfolding v by (rule if_not_P)
    then have "v = u\<lparr>mc_guest := Some gc\<rparr>" by (cases u) (use Some in simp)
    then show thesis using that [of gc] by simp
  qed
  have "guests_ok (patch_meal_config v g)"
    using ok by (auto simp: gc' patch_meal_config_def patch_guests_def guests_ok_def)
  with gc'(1) show thesis using that by blast
qed

lemma resolve_config_cases:
  assumes "resolve_config cap g mc = Inr v"
  obtains u2 u3 u4 where "cycle_gate g (resolve_modes g mc) = Inr u2" "guest_gate g (resolve_opt_out g u2) = Inr u3"
    "pricing_gate g u3 = Inr u4" "pricing_lock g u4 = Inr ()" "v = u4"
  using assms by (auto simp: resolve_config_def Let_def bindE_eq_Inr)

lemma opt_out_frame [simp]:
  "mc_meals (resolve_opt_out g u) = mc_meals u" "mc_weekly (resolve_opt_out g u) = mc_weekly u"
  "mc_day_wise (resolve_opt_out g u) = mc_day_wise u" "mc_cycle_day (resolve_opt_out g u) = mc_cycle_day u"
  "mc_pricing (resolve_opt_out g u) = mc_pricing u"
  by (simp_all add: resolve_opt_out_def Let_def)

text \<open>The fields of the final update the rules decide.\<close>

lemma resolve_config_fields:
  assumes "resolve_config cap g mc = Inr v"
  shows "mc_meals v = mc_meals (resolve_modes g mc)" "mc_weekly v = mc_weekly (resolve_modes g mc)"
    "mc_day_wise v = mc_day_wise (resolve_modes g mc)"
    "\<exists>u. mc_prefs v = mc_prefs (resolve_opt_out g u) \<and> mc_default v = mc_default (resolve_opt_out g u)"
    "guests_ok g \<Longrightarrow> guests_ok (patch_meal_config v g)"
proof -
  from resolve_config_cases [OF assms] obtain u2 u3 u4 where
    s: "cycle_gate g (resolve_modes g mc) = Inr u2" "guest_gate g (resolve_opt_out g u2) = Inr u3"
    "pricing_gate g u3 = Inr u4" and v: "v = u4" by metis
  have 2: "mc_meals u2 = mc_meals (resolve_modes g mc)" "mc_weekly u2 = mc_weekly (resolve_modes g mc)"
      "mc_day_wise u2 = mc_day_wise (resolve_modes g mc)"
    using s(1) by (auto elim!: cycle_gate_cases)
  obtain x where x: "u3 = (resolve_opt_out g u2)\<lparr>mc_guest := x\<rparr>" "guests_ok g \<Longrightarrow> guests_ok (patch_meal_config u3 g)"
    using guest_gate_cases [OF s(2)] by metis
  have p: "u4 = u3 \<or> u4 = u3\<lparr>mc_pricing := None\<rparr>" using s(3) by (auto elim: pricing_gate_cases)
  show "mc_meals v = mc_meals (resolve_modes g mc)" "mc_weekly v = mc_weekly (resolve_modes g mc)"
    "mc_day_wise v = mc_day_wise (resolve_modes g mc)"
    using p 2 by (auto simp: v x(1))
  show "\<exists>u. mc_prefs v = mc_prefs (resolve_opt_out g u) \<and> mc_default v = mc_default (resolve_opt_out g u)"
    using p by (intro exI [of _ u2]) (auto simp: v x(1))
  have "guests_ok (patch_meal_config (u3\<lparr>mc_pricing := None\<rparr>) g) = guests_ok (patch_meal_config u3 g)"
    by (cases "mc_guest u3") (simp_all add: guests_ok_def patch_meal_config_def patch_guests_def)
  then show "guests_ok g \<Longrightarrow> guests_ok (patch_meal_config v g)" using p x(2) v by auto
qed

lemma resolve_modes_ok:
  assumes "\<not> (gr_weekly_menu g \<and> gr_day_wise g)" "gr_meals_enabled g \<Longrightarrow> gr_weekly_menu g \<or> gr_day_wise g"
    and "u = resolve_modes g mc"
  shows "\<not> (nullish (mc_weekly u) (gr_weekly_menu g) \<and> nullish (mc_day_wise u) (gr_day_wise g))"
    and "nullish (mc_meals u) (gr_meals_enabled g) \<Longrightarrow>
           nullish (mc_weekly u) (gr_weekly_menu g) \<or> nullish (mc_day_wise u) (gr_day_wise g)"
  using assms(1,2) unfolding assms(3) by (auto simp: resolve_modes_def Let_def split: if_splits)

text \<open>A patch that touches a mode repairs the modes of any row.\<close>

lemma touched_modes_ok:
  assumes "mc_meals mc \<noteq> None \<or> mc_weekly mc \<noteq> None \<or> mc_day_wise mc \<noteq> None" and "u = resolve_modes g mc"
  shows "\<not> (nullish (mc_weekly u) w \<and> nullish (mc_day_wise u) d)
     \<and> (nullish (mc_meals u) (gr_meals_enabled g) \<longrightarrow> nullish (mc_weekly u) w \<or> nullish (mc_day_wise u) d)"
  using assms(1) unfolding assms(2) by (auto simp: resolve_modes_def Let_def split: if_splits)

lemma opt_out_ok:
  assumes "\<not> (gr_attendance_default g = Some ''present'' \<and> gr_prefs_enabled g)"
  shows "\<not> (nullish (mc_default (resolve_opt_out g u)) (gr_attendance_default g) = Some ''present''
            \<and> nullish (mc_prefs (resolve_opt_out g u)) (gr_prefs_enabled g))"
  using assms
  by (cases "mc_default u"; cases "the (mc_default u)"; cases "gr_attendance_default g"; cases "mc_prefs u")
    (auto simp: resolve_opt_out_def Let_def)

lemma patch_meal_config_fields [simp]:
  "gr_meals_enabled (patch_meal_config u g) = nullish (mc_meals u) (gr_meals_enabled g)"
  "gr_weekly_menu (patch_meal_config u g) = nullish (mc_weekly u) (gr_weekly_menu g)"
  "gr_day_wise (patch_meal_config u g) = nullish (mc_day_wise u) (gr_day_wise g)"
  "gr_prefs_enabled (patch_meal_config u g) = nullish (mc_prefs u) (gr_prefs_enabled g)"
  "gr_attendance_default (patch_meal_config u g) = nullish (mc_default u) (gr_attendance_default g)"
  "gr_pricing_enabled (patch_meal_config u g) = nullish (mc_pricing u) (gr_pricing_enabled g)"
  "gr_cycle_day (patch_meal_config u g) = nullish (mc_cycle_day u) (gr_cycle_day g)"
  "gr_first_published (patch_meal_config u g) = gr_first_published g"
  "gr_id (patch_meal_config u g) = gr_id g" "gr_org (patch_meal_config u g) = gr_org g"
  "gr_name (patch_meal_config u g) = gr_name g" "gr_type (patch_meal_config u g) = gr_type g"
  "gr_is_active (patch_meal_config u g) = gr_is_active g"
  "gr_join_token (patch_meal_config u g) = gr_join_token g"
  "gr_max_members (patch_meal_config u g) = gr_max_members g"
  "gr_approval_required (patch_meal_config u g) = gr_approval_required g"
  by (simp_all add: patch_meal_config_def patch_guests_def split: option.split)

lemma settings_ok_split:
  "settings_ok g \<longleftrightarrow> \<not> (gr_weekly_menu g \<and> gr_day_wise g) \<and> (gr_meals_enabled g \<longrightarrow> gr_weekly_menu g \<or> gr_day_wise g)
     \<and> \<not> (gr_attendance_default g = Some ''present'' \<and> gr_prefs_enabled g) \<and> guests_ok g"
  by (simp add: settings_ok_def guests_ok_def)

lemma header_settings [simp]: "settings_ok (patch_header_fields p g) = settings_ok g"
  by (simp add: settings_ok_def patch_header_fields_def)

lemma saved_row_settings:
  assumes "resolve_update cap g p = Inr u" and "settings_ok g"
  shows "settings_ok (saved_row p u g)"
proof (cases u)
  case None
  then show ?thesis using assms(2) by (simp add: saved_row_def)
next
  case (Some v)
  then obtain mc where r: "resolve_config cap g mc = Inr v"
    using assms(1) by (auto simp: resolve_update_def bindE_eq_Inr split: option.splits)
  note f = resolve_config_fields [OF r]
  from f(4) obtain x where x: "mc_prefs v = mc_prefs (resolve_opt_out g x)" "mc_default v = mc_default (resolve_opt_out g x)"
    by blast
  show ?thesis
    using assms(2) resolve_modes_ok [of g _ mc, OF _ _ refl] opt_out_ok [of g x] f(5) Some
    unfolding saved_row_def Some option.case header_settings unfolding settings_ok_split by (simp add: f(1-3) x)
qed

text \<open>The id of a group is its primary key, so the checked row is the written one.\<close>

lemma update_group_row:
  assumes "update_group cap e gid org actor p w = Inr w'" and "distinct (map gr_id (db_groups (w_db w)))"
  obtains g u where "g \<in> set (db_groups (w_db w))" "gr_id g = gid" "gr_org g = org" "gr_is_active g"
    "check_rename (w_db w) g p = Inr ()"
    "\<forall>x\<in>set (db_groups (w_db w)). gr_id x = gid \<longrightarrow> x = g" "resolve_update cap g p = Inr u"
    "db_groups (w_db w') = map (\<lambda>x. if gr_id x = gid \<and> gr_org x = org then saved_row p u x else x) (db_groups (w_db w))"
proof -
  obtain g u where h: "group_by_id False (w_db w) gid org = Some g" "check_rename (w_db w) g p = Inr ()"
    "resolve_update cap g p = Inr u"
    "db_groups (w_db w') = map (\<lambda>x. if gr_id x = gid \<and> gr_org x = org then saved_row p u x else x) (db_groups (w_db w))"
    by (rule update_group_groups [OF assms(1)])
  have g: "g \<in> set (db_groups (w_db w))" "gr_id g = gid" "gr_org g = org" "gr_is_active g"
    using group_by_idD [OF h(1)] by auto
  have eq: "x = g" if "x \<in> set (db_groups (w_db w))" "gr_id x = gid" for x
    using assms(2) g that by (auto simp: distinct_map dest: inj_onD)
  then have "\<forall>x\<in>set (db_groups (w_db w)). gr_id x = gid \<longrightarrow> x = g" by blast
  from that [OF g h(2) this h(3,4)] show thesis .
qed

text \<open>
  (C16) Every save keeps the settings of every group consistent: exactly one meal mode while
  meals are on and never both, opt-out attendance never beside preferences, and a flat guest
  surcharge with an amount, at most 100 when it is a percentage.
\<close>

theorem saved_settings_consistent:
  assumes "update_group cap e gid org actor p w = Inr w'"
    and "distinct (map gr_id (db_groups (w_db w)))" and "list_all settings_ok (db_groups (w_db w))"
  shows "list_all settings_ok (db_groups (w_db w'))"
proof -
  obtain g u where "g \<in> set (db_groups (w_db w))" "gr_id g = gid" "gr_org g = org" "gr_is_active g"
    "check_rename (w_db w) g p = Inr ()"
    and only: "\<forall>x\<in>set (db_groups (w_db w)). gr_id x = gid \<longrightarrow> x = g"
    and r: "resolve_update cap g p = Inr u"
    and w': "db_groups (w_db w') = map (\<lambda>x. if gr_id x = gid \<and> gr_org x = org then saved_row p u x else x) (db_groups (w_db w))"
    by (rule update_group_row [OF assms(1,2)])
  have ok: "settings_ok x" if "x \<in> set (db_groups (w_db w))" for x
    using assms(3) that by (simp add: list_all_iff)
  have "settings_ok (saved_row p u x)" if "x \<in> set (db_groups (w_db w))" "gr_id x = gid" for x
    using saved_row_settings [OF r] only ok that by metis
  then show ?thesis unfolding w' using ok by (auto simp: list_all_iff)
qed

section \<open>The financial identity\<close>

definition same_identity :: "group_row \<Rightarrow> group_row \<Rightarrow> bool" where
  "same_identity g g' \<longleftrightarrow> gr_pricing_enabled g' = gr_pricing_enabled g \<and> gr_cycle_day g' = gr_cycle_day g
     \<and> gr_first_published g' = gr_first_published g"

lemma header_identity [simp]:
  "gr_pricing_enabled (patch_header_fields p g) = gr_pricing_enabled g"
  "gr_cycle_day (patch_header_fields p g) = gr_cycle_day g"
  "gr_first_published (patch_header_fields p g) = gr_first_published g"
  "gr_id (patch_header_fields p g) = gr_id g" "gr_org (patch_header_fields p g) = gr_org g"
  "gr_join_token (patch_header_fields p g) = gr_join_token g"
  "gr_approval_required (patch_header_fields p g) = gr_approval_required g"
  by (simp_all add: patch_header_fields_def)

lemma saved_row_key [simp]:
  "gr_id (saved_row p u g) = gr_id g" "gr_org (saved_row p u g) = gr_org g"
  "gr_join_token (saved_row p u g) = gr_join_token g"
  "gr_approval_required (saved_row p u g) = gr_approval_required g"
  "gr_first_published (saved_row p u g) = gr_first_published g"
  by (simp_all add: saved_row_def split: option.split)

lemma saved_row_identity:
  assumes "resolve_update cap g p = Inr u" and "gr_first_published g \<noteq> None"
  shows "same_identity g (saved_row p u g)"
proof (cases u)
  case None
  then show ?thesis by (simp add: saved_row_def same_identity_def)
next
  case (Some v)
  then obtain mc where r: "resolve_config cap g mc = Inr v"
    using assms(1) by (auto simp: resolve_update_def bindE_eq_Inr split: option.splits)
  from resolve_config_cases [OF r] obtain u2 u3 u4 where
    s: "cycle_gate g (resolve_modes g mc) = Inr u2" "guest_gate g (resolve_opt_out g u2) = Inr u3"
    "pricing_gate g u3 = Inr u4" "pricing_lock g u4 = Inr ()" and v: "v = u4" by metis
  have c: "mc_cycle_day u2 = None" using s(1) assms(2) by (auto elim!: cycle_gate_cases)
  have "mc_cycle_day u4 = None"
  proof -
    obtain x where "u3 = (resolve_opt_out g u2)\<lparr>mc_guest := x\<rparr>" using guest_gate_cases [OF s(2)] by metis
    then have "mc_cycle_day u3 = None" using c by simp
    with s(3) show ?thesis by (auto elim: pricing_gate_cases)
  qed
  moreover have "nullish (mc_pricing u4) (gr_pricing_enabled g) = gr_pricing_enabled g"
    using s(4) assms(2) by (cases "mc_pricing u4") (auto simp: pricing_lock_def split: if_splits)
  ultimately show ?thesis by (simp add: saved_row_def Some v same_identity_def)
qed

section \<open>Concrete inputs\<close>

definition ex_group_env :: group_env where
  "ex_group_env = \<lparr>en_date = (\<lambda>_. ''2026-07-10''), en_time = (\<lambda>_. ''13:00''), en_now = 1783670400000,
     en_first_writer = True, en_id = (\<lambda>n. ''new'' @ pad2 (int n)),
     ge_week_id = (\<lambda>t n. ''wk'' @ pad2 (int n)), ge_window_order = (\<lambda>_. 0), ge_by_meal = (\<lambda>_. 0),
     ge_code = (\<lambda>n. ''CODE'' @ pad2 (int n))\<rparr>"

definition no_config :: meal_config_patch where
  "no_config = \<lparr>mc_meals = None, mc_weekly = None, mc_day_wise = None, mc_prefs = None, mc_enabled_prefs = None,
     mc_vacation = None, mc_vacation_approval = None, mc_cycle_day = None, mc_pricing = None, mc_bill_skipped = None,
     mc_bill_absent = None, mc_grace = None, mc_default = None, mc_min_opt_out = None, mc_guest = None\<rparr>"

definition no_patch :: group_patch where
  "no_patch = \<lparr>up_name = None, up_type = None, up_max_members = None, up_is_active = None, up_config = None,
     up_functional = None\<rparr>"

text \<open>Preferences off and opt-out attendance on: the planner goes back to draft.\<close>

definition to_opt_out :: group_patch where
  "to_opt_out = no_patch\<lparr>up_config := Some (no_config\<lparr>mc_prefs := Some False, mc_default := Some (Some ''present'')\<rparr>)\<rparr>"

definition ex_published :: schedule_row where
  "ex_published = \<lparr>sc_id = ''s1'', sc_org = ''o'', sc_group = ''g'', sc_week_start = day_of ''2026-07-06'',
     sc_is_published = True, sc_published_at = Some 1,
     sc_snapshot = Some [(master_cell ''m'' (day_of ''2026-07-10''))\<lparr>re_price := Some 60, re_planner_mode := Some ''WEEKLY''\<rparr>],
     sc_entries = []\<rparr>"

definition ex_groups_world :: world where
  "ex_groups_world = ex_world\<lparr>w_db := (w_db ex_world)\<lparr>db_groups := [ex_group]\<rparr>, w_schedules := [ex_published]\<rparr>"

definition opted_out :: world where
  "opted_out = ex_groups_world\<lparr>w_db := (w_db ex_groups_world)\<lparr>db_groups :=
      [ex_group\<lparr>gr_prefs_enabled := False, gr_attendance_default := Some ''present''\<rparr>]\<rparr>,
     w_schedules := [ex_published\<lparr>sc_is_published := False\<rparr>]\<rparr>"

lemma to_opt_out_saved:
  "update_group 5 ex_group_env ''g'' ''o'' ''admin'' to_opt_out ex_groups_world = Inr opted_out"
  by (simp add: update_group_def group_by_id_def ex_groups_world_def ex_group_def check_rename_def to_opt_out_def
      no_patch_def no_config_def resolve_update_def resolve_config_def resolve_modes_def assert_standalone_tag_cap_def
      cycle_gate_def guest_gate_def resolve_opt_out_def pricing_gate_def pricing_lock_def set_functional_def
      planner_effects_def revert_planner_def revert_published_for_group_def update_groups_def saved_row_def
      patch_header_fields_def patch_meal_config_def opted_out_def ex_published_def Let_def)

lemma ex_groups_world_ok:
  "frozen_store (w_schedules ex_groups_world)" "marked_store (w_schedules ex_groups_world)"
  "distinct (map gr_id (db_groups (w_db ex_groups_world)))"
  "list_all settings_ok (db_groups (w_db ex_groups_world))"
  by (simp_all add: frozen_store_def marked_store_def ex_groups_world_def ex_published_def settings_ok_def ex_group_def)

theorem config_save_keeps_published_witness:
  "published_day opted_out ''o'' ''g'' ''2026-07-10'' = published_day ex_groups_world ''o'' ''g'' ''2026-07-10''"
  by (rule config_save_keeps_published [OF to_opt_out_saved ex_groups_world_ok(1,2)])

theorem saved_settings_consistent_witness: "list_all settings_ok (db_groups (w_db opted_out))"
  by (rule saved_settings_consistent [OF to_opt_out_saved ex_groups_world_ok(3,4)])

text \<open>
  A legacy published week without mode markers follows the live flag of the group: it starts
  to carry forward at the switch to day-wise mode itself, before any publish.
\<close>

definition unmarked_world :: "bool \<Rightarrow> world" where
  "unmarked_world b = ex_groups_world\<lparr>w_db := (w_db ex_world)\<lparr>db_groups := [ex_group\<lparr>gr_day_wise := b, gr_weekly_menu := \<not> b\<rparr>]\<rparr>,
     w_schedules := [ex_published\<lparr>sc_snapshot :=
       Some [(master_cell ''m'' (day_of ''2026-07-10''))\<lparr>re_price := Some 60\<rparr>]\<rparr>]\<rparr>"

lemma unmarked_week_follows_flag:
  "published_day (unmarked_world False) ''o'' ''g'' ''2026-07-11'' = Inr []"
  "published_day (unmarked_world True) ''o'' ''g'' ''2026-07-11'' \<noteq> Inr []"
  by code_simp+

end
