(* ===== verification/Group_Laws.thy ===== *)
theory Group_Laws
  imports Group_Members Group_Config_Laws
begin

text \<open>
  Invariants of the groups service: keys stay unique, the financial identity of a published
  group is permanent, seats and the approval gate hold against what members do themselves,
  and a permanent delete leaves nothing behind in the tables it owns.
\<close>

section \<open>Tables under update\<close>

lemma distinct_map_update:
  assumes "distinct xs" and "distinct (map k (filter P xs))"
    and "\<And>x y. x \<in> set xs \<Longrightarrow> y \<in> set xs \<Longrightarrow> c x \<Longrightarrow> c y \<Longrightarrow> x = y"
    and "\<And>x y. x \<in> set xs \<Longrightarrow> y \<in> set xs \<Longrightarrow> c x \<Longrightarrow> \<not> c y \<Longrightarrow> P (f x) \<Longrightarrow> P y \<Longrightarrow> k y \<noteq> k (f x)"
  shows "distinct (map k (filter P (map (\<lambda>x. if c x then f x else x) xs)))"
  using assms
proof (induction xs)
  case (Cons a xs)
  have IH: "distinct (map k (filter P (map (\<lambda>x. if c x then f x else x) xs)))"
    by (rule Cons.IH) (use Cons.prems in \<open>auto split: if_splits\<close>)
  have same: "x \<noteq> a" if "x \<in> set xs" for x using Cons.prems(1) that by auto
  show ?case
  proof (cases "c a")
    case True
    then have "\<not> c y" if "y \<in> set xs" for y
      using Cons.prems(3) [of a y] same [OF that] that by auto
    then have m: "map (\<lambda>x. if c x then f x else x) xs = xs" by (auto intro: map_idI)
    have "k y \<noteq> k (f a)" if "P (f a)" "y \<in> set xs" "P y" for y
      using Cons.prems(4) [of a y] True \<open>\<And>y. y \<in> set xs \<Longrightarrow> \<not> c y\<close> that by auto
    with IH True m show ?thesis by force
  next
    case False
    have "k a \<noteq> k (f x)" if "x \<in> set xs" "c x" "P (f x)" "P a" for x
      using Cons.prems(4) [of x a] False that by auto
    moreover have "k a \<noteq> k x" if "x \<in> set xs" "P x" "P a" for x
      using Cons.prems(2) that by (auto simp: image_iff)
    ultimately show ?thesis using IH False by (auto split: if_splits)
  qed
qed simp

lemma length_filter_map_plus:
  "(\<And>x. x \<in> set xs \<Longrightarrow> Q (h x) \<Longrightarrow> Q x \<or> c x) \<Longrightarrow>
     length (filter Q (map h xs)) \<le> length (filter Q xs) + length (filter c xs)"
proof (induction xs)
  case (Cons a xs)
  then have "length (filter Q (map h xs)) \<le> length (filter Q xs) + length (filter c xs)" by simp
  moreover have "Q (h a) \<Longrightarrow> Q a \<or> c a" using Cons.prems by simp
  ultimately show ?case by auto
qed simp

lemma length_filter_filter: "length (filter Q (filter P xs)) \<le> length (filter Q xs)"
  by (induction xs) auto

lemma keyed_once: "distinct (map k xs) \<Longrightarrow> length (filter (\<lambda>x. k x = v) xs) \<le> 1"
proof (induction xs)
  case (Cons a xs)
  have "filter (\<lambda>x. k x = v) xs = []" if "k a = v"
    using Cons.prems that by (auto simp: filter_empty_conv image_iff)
  with Cons show ?case by auto
qed simp

section \<open>What each operation writes\<close>

lemma set_members_frame [simp]:
  "db_groups (w_db (set_members f w)) = db_groups (w_db w)"
  "db_members (w_db (set_members f w)) = f (db_members (w_db w))"
  by (simp_all add: set_members_def)

lemma set_groups_frame [simp]:
  "db_groups (w_db (set_groups f w)) = f (db_groups (w_db w))"
  "db_members (w_db (set_groups f w)) = db_members (w_db w)"
  by (simp_all add: set_groups_def)

lemma sync_user_frame [simp]: "w_db (sync_user_organization user org w) = w_db w"
  by (simp add: sync_user_organization_def)

lemma membership_frame [simp]:
  "db_groups (w_db (create_membership e gid user role s f w)) = db_groups (w_db w)"
  "db_groups (w_db (hard_delete_membership gid user w)) = db_groups (w_db w)"
  "db_members (w_db (create_membership e gid user role s f w)) =
     db_members (w_db w) @ [new_member e gid user role s f]"
  "db_members (w_db (hard_delete_membership gid user w)) =
     filter (\<lambda>m. \<not> (gm_group m = gid \<and> gm_user m = user)) (db_members (w_db w))"
  "db_members (w_db (update_membership e gid user g w)) =
     map (\<lambda>m. if gm_group m = gid \<and> gm_user m = user then (g m)\<lparr>gm_updated_at := en_now e\<rparr> else m)
       (db_members (w_db w))"
  by (simp_all add: create_membership_def hard_delete_membership_def update_membership_def)

lemma join_group_cases:
  assumes "join_group c e user code functional w = Inr (w', s)"
  obtains (again) "w' = w" "s \<in> {MemberActive, MemberPending}"
  | (fresh) g where "g \<in> set (db_groups (w_db w))" "\<not> is_full (w_db w) g" "find_membership w (gr_id g) user = None"
      "s = (if gr_approval_required g then MemberPending else MemberActive)"
      "w_db w' = w_db (create_membership e (gr_id g) user ''member'' s functional w)"
  | (rejoin) g m where "g \<in> set (db_groups (w_db w))" "\<not> is_full (w_db w) g" "find_membership w (gr_id g) user = Some m"
      "gm_status m = MemberRemoved" "s = (if gr_approval_required g then MemberPending else MemberActive)"
      "w_db w' = w_db (update_membership e (gr_id g) user (rejoined s functional) w)"
proof -
  obtain token g where t: "joinable_group e w token = Inr g"
    and r: "(let status = (if gr_approval_required g then MemberPending else MemberActive);
         settle = (\<lambda>w'. (if gr_approval_required g then w' else sync_user_organization user (gr_org g) w', status))
     in case find_membership w (gr_id g) user of
          None \<Rightarrow> Inr (settle (create_membership e (gr_id g) user ''member'' status functional w))
        | Some m \<Rightarrow>
            (case gm_status m of
               MemberBlocked \<Rightarrow> Inl (Forbidden ''Access denied'')
             | MemberActive \<Rightarrow> Inr (w, MemberActive)
             | MemberPending \<Rightarrow> Inr (w, MemberPending)
             | MemberRemoved \<Rightarrow>
                 Inr (settle (update_membership e (gr_id g) user (rejoined status functional) w)))) = Inr (w', s)"
    using assms unfolding join_group_def bindE_eq_Inr by blast
  have g: "g \<in> set (db_groups (w_db w))" "\<not> is_full (w_db w) g"
    using t by (auto simp: joinable_group_def find_by_join_code_def dest: find_SomeD split: option.splits if_splits)
  show thesis
  proof (cases "find_membership w (gr_id g) user")
    case None
    show thesis by (rule fresh [OF g None]) (use r None in \<open>auto simp: Let_def split: if_splits\<close>)
  next
    case (Some m)
    show thesis
    proof (cases "gm_status m = MemberRemoved")
      case True
      show thesis by (rule rejoin [OF g Some True]) (use r Some True in \<open>auto simp: Let_def split: if_splits\<close>)
    next
      case False
      show thesis by (rule again) (use r Some False in \<open>auto simp: Let_def split: member_status.splits\<close>)
    qed
  qed
qed

lemma pending_membershipD:
  "pending_membership w gid user = Inr m \<Longrightarrow> find_membership w gid user = Some m \<and> gm_status m = MemberPending"
  by (auto simp: pending_membership_def split: option.splits if_splits)

lemma leave_group_cases:
  assumes "leave_group e gid user w = Inr w'"
  obtains "w' = hard_delete_membership gid user w" | "w' = update_membership e gid user (removed_by e user) w"
  using assms
  by (auto simp: leave_group_def cancel_join_request_def bindE_eq_Inr split: if_splits)

lemma member_step_groups:
  "member_step e user w w' \<Longrightarrow> db_groups (w_db w') = db_groups (w_db w)"
  by (auto elim!: member_stepE join_group_cases leave_group_cases simp: cancel_join_request_def bindE_eq_Inr)

section \<open>Keys\<close>

definition name_key :: "group_row \<Rightarrow> ident \<times> string \<times> string" where
  "name_key g = (gr_org g, gr_type g, js_lower (gr_name g))"

definition group_keys :: "group_row list \<Rightarrow> bool" where
  "group_keys gs \<longleftrightarrow> distinct (map gr_id gs) \<and> distinct (map gr_join_token gs)
     \<and> distinct (map name_key (filter gr_is_active gs))"

lemma group_keys_inj: "group_keys gs \<Longrightarrow> x \<in> set gs \<Longrightarrow> y \<in> set gs \<Longrightarrow> gr_id x = gr_id y \<Longrightarrow> x = y"
  by (auto simp: group_keys_def distinct_map dest: inj_onD)

lemma generate_stop: "5 \<le> n \<Longrightarrow> \<exists>x. generate_unique_join_code e d n = Inl x"
  by (subst generate_unique_join_code.simps) simp

lemma generate_found:
  "n < 5 \<Longrightarrow> find_by_join_code d (ge_code e n) = None \<Longrightarrow> generate_unique_join_code e d n = Inr (ge_code e n)"
  by (subst generate_unique_join_code.simps) simp

lemma generate_retry:
  "n < 5 \<Longrightarrow> find_by_join_code d (ge_code e n) \<noteq> None \<Longrightarrow>
     generate_unique_join_code e d n = generate_unique_join_code e d (Suc n)"
  by (subst generate_unique_join_code.simps) simp

lemma generate_unused: "generate_unique_join_code e d n = Inr code \<Longrightarrow> find_by_join_code d code = None"
proof (induction "5 - n" arbitrary: n)
  case 0
  then show ?case using generate_stop [of n e d] by auto
next
  case (Suc k)
  then have n: "n < 5" "k = 5 - Suc n" by auto
  show ?case
  proof (cases "find_by_join_code d (ge_code e n)")
    case None
    then show ?thesis using Suc.prems generate_found [OF n(1) None] by simp
  next
    case (Some g)
    then have "generate_unique_join_code e d (Suc n) = Inr code"
      using Suc.prems generate_retry [OF n(1)] by (metis option.distinct(1))
    then show ?thesis by (rule Suc.hyps(1) [OF n(2)])
  qed
qed

lemma unused_token: "find_by_join_code d code = None \<Longrightarrow> g \<in> set (db_groups d) \<Longrightarrow> gr_join_token g \<noteq> code"
  by (auto simp: find_by_join_code_def find_None_iff)

text \<open>A write to one row keeps the keys when its own key does not meet another row's.\<close>

lemma group_keys_update:
  assumes keys: "group_keys gs"
    and f: "\<And>x. gr_id (f x) = gr_id x" "\<And>x. gr_org (f x) = gr_org x"
    and token: "\<And>x y. x \<in> set gs \<Longrightarrow> y \<in> set gs \<Longrightarrow> gr_id x = gid \<Longrightarrow> gr_id y \<noteq> gid \<Longrightarrow>
                  gr_join_token y \<noteq> gr_join_token (f x)"
    and name: "\<And>x y. x \<in> set gs \<Longrightarrow> y \<in> set gs \<Longrightarrow> gr_id x = gid \<Longrightarrow> gr_org x = org \<Longrightarrow> gr_id y \<noteq> gid \<Longrightarrow>
                  gr_is_active (f x) \<Longrightarrow> gr_is_active y \<Longrightarrow> name_key y \<noteq> name_key (f x)"
  shows "group_keys (map (\<lambda>g. if gr_id g = gid \<and> gr_org g = org then f g else g) gs)"
proof -
  let ?c = "\<lambda>g. gr_id g = gid \<and> gr_org g = org"
  have d: "distinct gs" and i: "distinct (map gr_id gs)" "distinct (map gr_join_token gs)"
      "distinct (map name_key (filter gr_is_active gs))"
    using keys by (auto simp: group_keys_def distinct_map)
  have one: "x = y" if "x \<in> set gs" "y \<in> set gs" "?c x" "?c y" for x y
    by (rule group_keys_inj [OF keys that(1,2)]) (use that in simp)
  have other: "gr_id y \<noteq> gid" if "x \<in> set gs" "y \<in> set gs" "?c x" "\<not> ?c y" for x y
    using group_keys_inj [OF keys that(1,2)] that(3,4) by metis
  have "map gr_id (map (\<lambda>g. if ?c g then f g else g) gs) = map gr_id gs" by (simp add: f)
  moreover have "distinct (map gr_join_token (filter (\<lambda>_. True) (map (\<lambda>g. if ?c g then f g else g) gs)))"
  proof (rule distinct_map_update [OF d])
    fix x y assume "x \<in> set gs" "y \<in> set gs" "?c x"
    then show "?c y \<Longrightarrow> x = y" and "\<not> ?c y \<Longrightarrow> gr_join_token y \<noteq> gr_join_token (f x)"
      using one other token by metis+
  qed (simp add: i)
  moreover have "distinct (map name_key (filter gr_is_active (map (\<lambda>g. if ?c g then f g else g) gs)))"
  proof (rule distinct_map_update [OF d])
    fix x y assume "x \<in> set gs" "y \<in> set gs" "?c x"
    then show "?c y \<Longrightarrow> x = y"
      and "\<not> ?c y \<Longrightarrow> gr_is_active (f x) \<Longrightarrow> gr_is_active y \<Longrightarrow> name_key y \<noteq> name_key (f x)"
      using one other name by metis+
  qed (simp add: i)
  ultimately show ?thesis unfolding group_keys_def using i(1) by (simp del: map_map)
qed

lemma exists_activeD:
  "\<not> exists_active_by_name_type d org name type ex \<Longrightarrow> y \<in> set (db_groups d) \<Longrightarrow> gr_is_active y \<Longrightarrow>
     Some (gr_id y) \<noteq> ex \<Longrightarrow> name_key y \<noteq> (org, type, js_lower name)"
  by (auto simp: exists_active_by_name_type_def same_name_type_def name_key_def)

lemma group_keys_tokens: "group_keys gs \<Longrightarrow> x \<in> set gs \<Longrightarrow> y \<in> set gs \<Longrightarrow> gr_id y \<noteq> gr_id x \<Longrightarrow>
    gr_join_token y \<noteq> gr_join_token x"
  by (auto simp: group_keys_def distinct_map dest: inj_onD)

lemma group_keys_names:
  "group_keys gs \<Longrightarrow> x \<in> set gs \<Longrightarrow> y \<in> set gs \<Longrightarrow> gr_id y \<noteq> gr_id x \<Longrightarrow> gr_is_active x \<Longrightarrow> gr_is_active y \<Longrightarrow>
     name_key y \<noteq> name_key x"
  by (auto simp: group_keys_def distinct_map dest: inj_onD)

lemma saved_row_name:
  "name_key (saved_row p u g) = (gr_org g, nullish (map_option normalize_type_for_db (up_type p)) (gr_type g),
     js_lower (nullish (up_name p) (gr_name g)))"
  by (simp add: name_key_def saved_row_def patch_header_fields_def split: option.split)

lemma create_group_cases:
  assumes "create_group cf e org admin dto w = Inr w'"
  obtains token where "find_by_join_code (w_db w) token = None"
    "\<not> exists_active_by_name_type (w_db w) org (cd_name dto) (normalize_type_for_db (cd_type dto)) None"
    "count_active_groups (w_db w) org < gl_max_groups cf"
    "db_groups (w_db w') = db_groups (w_db w) @ [new_group cf e org admin dto token]"
    "db_members (w_db w') = db_members (w_db w) @
       [new_member e (en_id e 0) admin ''groupManager'' MemberActive (cd_functional dto)]"
  using assms
  by (auto simp: create_group_def bindE_eq_Inr split: if_splits dest!: generate_unused)

lemma new_group_fields [simp]:
  "gr_id (new_group cf e org admin dto t) = en_id e 0" "gr_org (new_group cf e org admin dto t) = org"
  "gr_join_token (new_group cf e org admin dto t) = t" "gr_name (new_group cf e org admin dto t) = cd_name dto"
  "gr_type (new_group cf e org admin dto t) = normalize_type_for_db (cd_type dto)"
  "gr_first_published (new_group cf e org admin dto t) = None"
  "gr_is_active (new_group cf e org admin dto t)"
  by (simp_all add: new_group_def Let_def)

lemma config_keys:
  assumes keys: "group_keys (db_groups (w_db w))" and up: "update_group cap e gid org actor p w = Inr w'"
  shows "group_keys (db_groups (w_db w'))"
proof -
  let ?gs = "db_groups (w_db w)"
  have d: "distinct (map gr_id ?gs)" using keys by (simp add: group_keys_def)
  obtain g u where g: "g \<in> set ?gs" "gr_id g = gid" "gr_org g = org" "gr_is_active g"
    and check: "check_rename (w_db w) g p = Inr ()"
    and only: "\<forall>x\<in>set ?gs. gr_id x = gid \<longrightarrow> x = g" and "resolve_update cap g p = Inr u"
    and w': "db_groups (w_db w') = map (\<lambda>x. if gr_id x = gid \<and> gr_org x = org then saved_row p u x else x) ?gs"
    by (rule update_group_row [OF up d])
  have name: "name_key y \<noteq> name_key (saved_row p u g)"
    if y: "y \<in> set ?gs" "gr_id y \<noteq> gid" "gr_is_active y" for y
  proof (cases "up_name p = None \<and> up_type p = None")
    case True
    then have "name_key (saved_row p u g) = name_key g" by (simp add: saved_row_name) (simp add: name_key_def)
    then show ?thesis using group_keys_names [OF keys g(1) y(1)] y(2,3) g(2,4) by simp
  next
    case False
    with check have "\<not> exists_active_by_name_type (w_db w) (gr_org g) (gr_name (patch_header_fields p g))
        (gr_type (patch_header_fields p g)) (Some (gr_id g))"
      by (auto simp: check_rename_def split: if_splits)
    from exists_activeD [OF this y(1,3)] y(2) g(2) show ?thesis
      by (simp add: saved_row_name patch_header_fields_def)
  qed
  show ?thesis
    unfolding w'
  proof (rule group_keys_update [OF keys])
    fix x y assume xy: "x \<in> set ?gs" "y \<in> set ?gs" "gr_id x = gid" "gr_id y \<noteq> gid"
    show "gr_join_token y \<noteq> gr_join_token (saved_row p u x)"
      using group_keys_tokens [OF keys xy(1,2)] xy by simp
    show "gr_org x = org \<Longrightarrow> gr_is_active (saved_row p u x) \<Longrightarrow> gr_is_active y \<Longrightarrow>
        name_key y \<noteq> name_key (saved_row p u x)"
      using name xy only by metis
  qed simp_all
qed

lemma restore_keys:
  assumes keys: "group_keys (db_groups (w_db w))" and up: "restore_group gid org w = Inr w'"
  shows "group_keys (db_groups (w_db w'))"
proof -
  let ?gs = "db_groups (w_db w)"
  obtain g where g: "g \<in> set ?gs" "gr_id g = gid" "gr_org g = org"
    and free: "\<not> exists_active_by_name_type (w_db w) org (gr_name g) (gr_type g) (Some gid)"
    and w': "w' = update_groups gid org (\<lambda>x. x\<lparr>gr_is_active := True, gr_archived_at := None\<rparr>) w"
    using up by (auto simp: restore_group_def bindE_eq_Inr dest: group_by_idD split: if_splits)
  show ?thesis
    unfolding w' update_groups_frame
  proof (rule group_keys_update [OF keys])
    fix x y assume xy: "x \<in> set ?gs" "y \<in> set ?gs" "gr_id x = gid" "gr_id y \<noteq> gid"
    show "gr_join_token y \<noteq> gr_join_token (x\<lparr>gr_is_active := True, gr_archived_at := None\<rparr>)"
      using group_keys_tokens [OF keys xy(1,2)] xy by simp
    have x: "x = g" by (rule group_keys_inj [OF keys xy(1) g(1)]) (simp add: xy g)
    show "gr_is_active y \<Longrightarrow> name_key y \<noteq> name_key (x\<lparr>gr_is_active := True, gr_archived_at := None\<rparr>)"
      using exists_activeD [OF free xy(2)] xy(4) g(3) unfolding x by (simp add: name_key_def)
  qed simp_all
qed

lemma plain_update_keys:
  assumes "group_keys gs"
    and "\<And>x. gr_id (f x) = gr_id x" "\<And>x. gr_org (f x) = gr_org x" "\<And>x. gr_type (f x) = gr_type x"
      "\<And>x. gr_name (f x) = gr_name x" "\<And>x. gr_is_active (f x) \<Longrightarrow> gr_is_active x"
    and "\<And>x y. x \<in> set gs \<Longrightarrow> y \<in> set gs \<Longrightarrow> gr_id x = gid \<Longrightarrow> gr_id y \<noteq> gid \<Longrightarrow> gr_join_token y \<noteq> gr_join_token (f x)"
  shows "group_keys (map (\<lambda>g. if gr_id g = gid \<and> gr_org g = org then f g else g) gs)"
proof (rule group_keys_update [OF assms(1)])
  fix x y assume "x \<in> set gs" "y \<in> set gs" "gr_id x = gid" "gr_id y \<noteq> gid" "gr_is_active (f x)" "gr_is_active y"
  then show "name_key y \<noteq> name_key (f x)"
    using group_keys_names [OF assms(1), of x y] assms(3-6) by (auto simp: name_key_def)
qed (use assms in auto)

lemma group_keys_filter: "group_keys gs \<Longrightarrow> group_keys (filter P gs)"
  by (auto simp: group_keys_def distinct_map distinct_filter intro: inj_on_subset)

lemma hard_delete_groups [simp]:
  "db_groups (w_db (hard_delete_group gid w)) = filter (\<lambda>g. gr_id g \<noteq> gid) (db_groups (w_db w))"
  by (simp add: hard_delete_group_def Let_def)

lemma quiet_groups:
  "approve_join_request e gid user org actor w = Inr w' \<Longrightarrow> db_groups (w_db w') = db_groups (w_db w)"
  "reject_join_request gid user org w = Inr w' \<Longrightarrow> db_groups (w_db w') = db_groups (w_db w)"
  "update_member e gid user org actor mp w = Inr w' \<Longrightarrow> db_groups (w_db w') = db_groups (w_db w)"
  "remove_member e gid user org actor w = Inr w' \<Longrightarrow> db_groups (w_db w') = db_groups (w_db w)"
  "add_member_by_id e gid user org role w = Inr w' \<Longrightarrow> db_groups (w_db w') = db_groups (w_db w)"
  by (auto simp: approve_join_request_def reject_join_request_def update_member_def remove_member_def
      add_member_by_id_def bindE_eq_Inr split: if_splits option.splits)

text \<open>An archive, a restore and a new join code write one row and nothing else.\<close>

lemma touch_groups:
  assumes "delete_group e gid org w = Inr w' \<or> restore_group gid org w = Inr w' \<or> regenerate_join_code e gid org hours w = Inr w'"
  obtains f where "w' = update_groups gid org f w" "\<And>x. gr_id (f x) = gr_id x"
    "\<And>x. gr_pricing_enabled (f x) = gr_pricing_enabled x" "\<And>x. gr_cycle_day (f x) = gr_cycle_day x"
    "\<And>x. gr_first_published (f x) = gr_first_published x"
  using assms
proof (elim disjE)
  assume "delete_group e gid org w = Inr w'"
  then have "w' = update_groups gid org
      (\<lambda>g. if gr_is_active g then g\<lparr>gr_is_active := False, gr_archived_at := Some (en_now e)\<rparr> else g) w"
    by (auto simp: delete_group_def bindE_eq_Inr)
  then show thesis by (rule that) simp_all
next
  assume "restore_group gid org w = Inr w'"
  then have "w' = update_groups gid org (\<lambda>x. x\<lparr>gr_is_active := True, gr_archived_at := None\<rparr>) w"
    by (auto simp: restore_group_def bindE_eq_Inr split: if_splits)
  then show thesis by (rule that) simp_all
next
  assume "regenerate_join_code e gid org hours w = Inr w'"
  then obtain c x where "w' = update_groups gid org (\<lambda>g. g\<lparr>gr_join_token := c, gr_token_expires := x\<rparr>) w"
    by (auto simp: regenerate_join_code_def bindE_eq_Inr Let_def)
  then show thesis by (rule that) simp_all
qed

lemma purge_groups:
  "permanent_delete_group e gid org s = Inr s' \<Longrightarrow>
     db_groups (rt_db s') = filter (\<lambda>g. gr_id g \<noteq> gid) (db_groups (rt_db s))"
  by (auto simp: hard_delete_def permanent_delete_group_def bindE_eq_Inr split: if_splits)

lemma groups_step_keys:
  assumes "groups_step cf w w'" and keys: "group_keys (db_groups (w_db w))"
  shows "group_keys (db_groups (w_db w'))"
  using assms(1)
proof cases
  case (member e user)
  then show ?thesis using member_step_groups keys by metis
next
  case (create e org admin dto)
  obtain token where t: "find_by_join_code (w_db w) token = None"
    "\<not> exists_active_by_name_type (w_db w) org (cd_name dto) (normalize_type_for_db (cd_type dto)) None"
    and w': "db_groups (w_db w') = db_groups (w_db w) @ [new_group cf e org admin dto token]"
    using create_group_cases [OF create(1)] by metis
  have "name_key y \<noteq> name_key (new_group cf e org admin dto token)"
    if "y \<in> set (db_groups (w_db w))" "gr_is_active y" for y
    using exists_activeD [OF t(2) that] by (simp add: name_key_def)
  then show ?thesis
    using keys create(2) unused_token [OF t(1)] unfolding w' group_keys_def by (fastforce simp: image_iff)
next
  case (config e gid org actor p)
  then show ?thesis using config_keys keys by blast
next
  case (archive e gid org)
  then show ?thesis
    using keys group_keys_tokens [OF keys]
    by (auto simp: delete_group_def bindE_eq_Inr intro!: plain_update_keys split: if_splits)
next
  case (restore gid org)
  then show ?thesis using restore_keys keys by blast
next
  case (purge e gid org s s')
  then show ?thesis
    using keys by (auto simp: permanent_delete_group_def hard_delete_def bindE_eq_Inr intro: group_keys_filter split: if_splits)
next
  case (code e gid org hours)
  then obtain token where "find_by_join_code (w_db w) token = None"
      "\<exists>x. w' = update_groups gid org (\<lambda>g. g\<lparr>gr_join_token := token, gr_token_expires := x\<rparr>) w"
    by (auto simp: regenerate_join_code_def bindE_eq_Inr Let_def dest!: generate_unused)
  then show ?thesis using keys unused_token [of "w_db w" token] by (auto intro!: plain_update_keys)
qed (use keys in \<open>simp_all add: quiet_groups\<close>)

interpretation group_keys: invariant_steps "groups_step cf" "\<lambda>w. group_keys (db_groups (w_db w))" for cf
  by unfold_locales (rule groups_step_keys)

text \<open>
  (C15) Whatever the groups service does, no two groups share an id or a join code, and no two
  active groups of an organisation share type and name, ignoring case: creates, renames,
  changes of type and restores are all checked.
\<close>

theorem group_keys_stay_unique:
  assumes "(groups_step cf)\<^sup>*\<^sup>* w w'" and "group_keys (db_groups (w_db w))"
  shows "group_keys (db_groups (w_db w'))"
  by (rule group_keys.inv_run [OF assms])

section \<open>The identity of a published group\<close>

definition settled_identity :: "ident \<Rightarrow> bool \<Rightarrow> int option \<Rightarrow> world \<Rightarrow> bool" where
  "settled_identity i pricing cycle w \<longleftrightarrow> group_keys (db_groups (w_db w)) \<and>
     (\<forall>g\<in>set (db_groups (w_db w)). gr_id g = i \<longrightarrow> gr_first_published g \<noteq> None \<longrightarrow>
        gr_pricing_enabled g = pricing \<and> gr_cycle_day g = cycle)"

lemma settled_identity_image:
  assumes "settled_identity i pricing cycle w" and "group_keys (db_groups (w_db w'))"
    and "\<And>g'. g' \<in> set (db_groups (w_db w')) \<Longrightarrow> gr_first_published g' \<noteq> None \<Longrightarrow>
           \<exists>g\<in>set (db_groups (w_db w)). gr_id g = gr_id g' \<and> same_identity g g'"
  shows "settled_identity i pricing cycle w'"
  using assms unfolding settled_identity_def same_identity_def by metis

lemma config_identity:
  assumes keys: "group_keys (db_groups (w_db w))" and up: "update_group cap e gid org actor p w = Inr w'"
    and g': "g' \<in> set (db_groups (w_db w'))" "gr_first_published g' \<noteq> None"
  shows "\<exists>g\<in>set (db_groups (w_db w)). gr_id g = gr_id g' \<and> same_identity g g'"
proof -
  have d: "distinct (map gr_id (db_groups (w_db w)))" using keys by (simp add: group_keys_def)
  obtain g u where "g \<in> set (db_groups (w_db w))" "gr_id g = gid" "gr_org g = org" "gr_is_active g"
    "check_rename (w_db w) g p = Inr ()"
    and only: "\<forall>x\<in>set (db_groups (w_db w)). gr_id x = gid \<longrightarrow> x = g"
    and r: "resolve_update cap g p = Inr u"
    and w': "db_groups (w_db w') = map (\<lambda>x. if gr_id x = gid \<and> gr_org x = org then saved_row p u x else x) (db_groups (w_db w))"
    by (rule update_group_row [OF up d])
  obtain x where x: "x \<in> set (db_groups (w_db w))"
    and e: "g' = (if gr_id x = gid \<and> gr_org x = org then saved_row p u x else x)"
    using g'(1) unfolding w' by auto
  have "gr_id x = gr_id g' \<and> same_identity x g'"
  proof (cases "gr_id x = gid \<and> gr_org x = org")
    case True
    then have "x = g" using only x by blast
    moreover have "gr_first_published x \<noteq> None" using g'(2) True by (simp add: e)
    ultimately have "same_identity x (saved_row p u x)" using saved_row_identity [OF r] by blast
    then show ?thesis using True by (simp add: e)
  next
    case False
    then show ?thesis by (auto simp: e same_identity_def)
  qed
  with x show ?thesis by blast
qed

lemma touched:
  assumes "w' = update_groups gid org f w" and "\<And>x. gr_id (f x) = gr_id x \<and> same_identity x (f x)"
    and "g' \<in> set (db_groups (w_db w'))"
  shows "\<exists>g\<in>set (db_groups (w_db w)). gr_id g = gr_id g' \<and> same_identity g g'"
  using assms(2,3) unfolding assms(1) by (auto simp: same_identity_def split: if_splits)

lemma groups_step_identity:
  assumes inv: "settled_identity i pricing cycle w" and st: "groups_step cf w w'"
  shows "settled_identity i pricing cycle w'"
proof (rule settled_identity_image [OF inv])
  have keys: "group_keys (db_groups (w_db w))" using inv by (simp add: settled_identity_def)
  show "group_keys (db_groups (w_db w'))" by (rule groups_step_keys [OF st keys])
  fix g' assume g': "g' \<in> set (db_groups (w_db w'))" "gr_first_published g' \<noteq> None"
  show "\<exists>g\<in>set (db_groups (w_db w)). gr_id g = gr_id g' \<and> same_identity g g'"
    using st
  proof cases
    case (member e user)
    then show ?thesis using member_step_groups g' by (metis same_identity_def)
  next
    case (create e org admin dto)
    then obtain token where "db_groups (w_db w') = db_groups (w_db w) @ [new_group cf e org admin dto token]"
      using create_group_cases by metis
    then have "g' \<in> set (db_groups (w_db w))" using g' by auto
    then show ?thesis by (auto simp: same_identity_def)
  next
    case (config e gid org actor p)
    then show ?thesis using config_identity keys g' by blast
  next
    case (purge e gid org s s')
    then have "g' \<in> set (db_groups (w_db w))" using g' by (auto simp: purge_groups)
    then show ?thesis by (auto simp: same_identity_def)
  next
    case (archive e gid org)
    then obtain f where "w' = update_groups gid org f w" "\<And>x. gr_id (f x) = gr_id x \<and> same_identity x (f x)"
      using touch_groups unfolding same_identity_def by metis
    then show ?thesis using g'(1) by (rule touched)
  next
    case (restore gid org)
    then obtain f where "w' = update_groups gid org f w" "\<And>x. gr_id (f x) = gr_id x \<and> same_identity x (f x)"
      using touch_groups unfolding same_identity_def by metis
    then show ?thesis using g'(1) by (rule touched)
  next
    case (code e gid org hours)
    then obtain f where "w' = update_groups gid org f w" "\<And>x. gr_id (f x) = gr_id x \<and> same_identity x (f x)"
      using touch_groups unfolding same_identity_def by metis
    then show ?thesis using g'(1) by (rule touched)
  qed (use g' in \<open>auto dest!: quiet_groups simp: same_identity_def\<close>)
qed

interpretation identity: invariant_steps "groups_step cf" "settled_identity i pricing cycle" for cf i pricing cycle
  by unfold_locales (rule groups_step_identity)

text \<open>
  (C7) Once a group has published its first schedule, no operation of the groups service
  turns its pricing on or off or moves its billing cycle.
\<close>

theorem pricing_identity_permanent:
  assumes "(groups_step cf)\<^sup>*\<^sup>* w w'" and "group_keys (db_groups (w_db w))"
    and "g \<in> set (db_groups (w_db w))" and "gr_first_published g \<noteq> None"
    and "g' \<in> set (db_groups (w_db w'))" and "gr_id g' = gr_id g" and "gr_first_published g' \<noteq> None"
  shows "gr_pricing_enabled g' = gr_pricing_enabled g \<and> gr_cycle_day g' = gr_cycle_day g"
proof -
  have "settled_identity (gr_id g) (gr_pricing_enabled g) (gr_cycle_day g) w"
    using assms(2,3) group_keys_inj [OF assms(2)] unfolding settled_identity_def by blast
  from identity.inv_run [OF assms(1) this] assms(5-7) show ?thesis by (simp add: settled_identity_def)
qed

section \<open>Seats\<close>

text \<open>What members and deciding admins do, short of a direct add or a direct activation.\<close>

inductive seat_step :: "world \<Rightarrow> world \<Rightarrow> bool" where
  member: "member_step e user w w' \<Longrightarrow> seat_step w w'"
| approve: "approve_join_request e gid user org actor w = Inr w' \<Longrightarrow> seat_step w w'"
| reject: "reject_join_request gid user org w = Inr w' \<Longrightarrow> seat_step w w'"
| remove: "remove_member e gid user org actor w = Inr w' \<Longrightarrow> seat_step w w'"
| block: "update_member e gid user org actor mp w = Inr w' \<Longrightarrow>
            mp_status mp \<in> {None, Some MemberBlocked, Some MemberRemoved} \<Longrightarrow> seat_step w w'"

definition seated :: "ident \<Rightarrow> member_row \<Rightarrow> bool" where
  "seated gid m \<longleftrightarrow> gm_group m = gid \<and> gm_status m \<in> {MemberActive, MemberPending}"

definition seats_taken :: "db \<Rightarrow> ident \<Rightarrow> nat" where
  "seats_taken d gid = length (filter (seated gid) (db_members d))"

definition member_key :: "member_row \<Rightarrow> ident \<times> ident" where
  "member_key m = (gm_group m, gm_user m)"

definition seats_ok :: "world \<Rightarrow> bool" where
  "seats_ok w \<longleftrightarrow> distinct (map gr_id (db_groups (w_db w))) \<and> distinct (map member_key (db_members (w_db w)))
     \<and> (\<forall>g\<in>set (db_groups (w_db w)). \<forall>n. gr_max_members g = Some n \<longrightarrow> int (seats_taken (w_db w) (gr_id g)) \<le> n)"

lemma length_filter_disjoint:
  "(\<And>x. x \<in> set xs \<Longrightarrow> \<not> (P x \<and> Q x)) \<Longrightarrow>
     length (filter (\<lambda>x. P x \<or> Q x) xs) = length (filter P xs) + length (filter Q xs)"
  by (induction xs) auto

lemma seats_taken_counts: "int (seats_taken d gid) = member_count d gid + pending_count d gid"
proof -
  have "filter (seated gid) (db_members d) = filter (\<lambda>m. (gm_group m = gid \<and> gm_status m = MemberActive)
      \<or> (gm_group m = gid \<and> gm_status m = MemberPending)) (db_members d)"
    by (rule filter_cong) (auto simp: seated_def)
  then show ?thesis by (simp add: seats_taken_def count_status_def length_filter_disjoint)
qed

lemma seats_okI:
  assumes ok: "seats_ok w" and "db_groups (w_db w') = db_groups (w_db w)"
    and "distinct (map member_key (db_members (w_db w')))"
    and "\<And>g n. g \<in> set (db_groups (w_db w)) \<Longrightarrow> gr_max_members g = Some n \<Longrightarrow>
           int (seats_taken (w_db w') (gr_id g)) \<le> max n (int (seats_taken (w_db w) (gr_id g)))"
  shows "seats_ok w'"
  unfolding seats_ok_def assms(2)
proof (intro conjI ballI allI impI)
  show "distinct (map gr_id (db_groups (w_db w)))" using ok by (simp add: seats_ok_def)
  show "distinct (map member_key (db_members (w_db w')))" by (rule assms(3))
  fix g n assume g: "g \<in> set (db_groups (w_db w))" "gr_max_members g = Some n"
  then have "int (seats_taken (w_db w) (gr_id g)) \<le> n" using ok by (simp add: seats_ok_def)
  with assms(4) [OF g] show "int (seats_taken (w_db w') (gr_id g)) \<le> n" by simp
qed

lemma update_membership_keys [simp]:
  "(\<And>m. gm_group (f m) = gm_group m) \<Longrightarrow> (\<And>m. gm_user (f m) = gm_user m) \<Longrightarrow>
     map member_key (db_members (w_db (update_membership e gid user f w))) = map member_key (db_members (w_db w))"
  by (simp add: member_key_def)

text \<open>A write that seats nobody, a deletion, and a join that found a free seat.\<close>

lemma seats_no_gain:
  assumes "seats_ok w" and f: "\<And>m. gm_group (f m) = gm_group m" "\<And>m. gm_user (f m) = gm_user m"
    and q: "\<And>m. m \<in> set (db_members (w_db w)) \<Longrightarrow> gm_group m = gid \<Longrightarrow> gm_user m = user \<Longrightarrow>
            gm_status (f m) \<in> {MemberActive, MemberPending} \<Longrightarrow> gm_status m \<in> {MemberActive, MemberPending}"
  shows "seats_ok (update_membership e gid user f w)"
proof (rule seats_okI [OF assms(1)])
  show "distinct (map member_key (db_members (w_db (update_membership e gid user f w))))"
    using assms(1) by (simp add: f seats_ok_def del: membership_frame)
  fix g n
  have "seats_taken (w_db (update_membership e gid user f w)) (gr_id g) \<le> seats_taken (w_db w) (gr_id g)"
    unfolding seats_taken_def membership_frame
    by (rule length_filter_map_le) (use f q in \<open>auto simp: seated_def split: if_splits\<close>)
  then show "int (seats_taken (w_db (update_membership e gid user f w)) (gr_id g))
      \<le> max n (int (seats_taken (w_db w) (gr_id g)))" by simp
qed simp

lemma seats_delete: "seats_ok w \<Longrightarrow> seats_ok (hard_delete_membership gid user w)"
proof (rule seats_okI)
  assume ok: "seats_ok w"
  then show "distinct (map member_key (db_members (w_db (hard_delete_membership gid user w))))"
    unfolding membership_frame by (intro distinct_map_filter) (simp add: seats_ok_def)
  fix g n
  have "seats_taken (w_db (hard_delete_membership gid user w)) (gr_id g) \<le> seats_taken (w_db w) (gr_id g)"
    unfolding seats_taken_def membership_frame by (rule length_filter_filter)
  then show "int (seats_taken (w_db (hard_delete_membership gid user w)) (gr_id g))
      \<le> max n (int (seats_taken (w_db w) (gr_id g)))" by simp
qed simp_all

lemma find_membership_None:
  "find_membership w gid user = None \<Longrightarrow> m \<in> set (db_members (w_db w)) \<Longrightarrow> member_key m \<noteq> (gid, user)"
  by (auto simp: find_membership_def find_None_iff member_key_def)

lemma find_membershipD:
  "find_membership w gid user = Some m \<Longrightarrow> m \<in> set (db_members (w_db w)) \<and> gm_group m = gid \<and> gm_user m = user"
  by (auto simp: find_membership_def dest: find_SomeD)

lemma only_membership:
  assumes "seats_ok w" and "find_membership w gid user = Some m"
    and "x \<in> set (db_members (w_db w))" and "gm_group x = gid" and "gm_user x = user"
  shows "x = m"
proof (rule inj_onD [of member_key "set (db_members (w_db w))"])
  show "inj_on member_key (set (db_members (w_db w)))" using assms(1) by (simp add: seats_ok_def distinct_map)
qed (use assms(3-5) find_membershipD [OF assms(2)] in \<open>simp_all add: member_key_def\<close>)

text \<open>One more seat, in the group of the join alone.\<close>

lemma seats_join:
  assumes ok: "seats_ok w" and g: "g \<in> set (db_groups (w_db w))" "\<not> is_full (w_db w) g"
    and same: "db_groups (w_db w') = db_groups (w_db w)"
    and key: "distinct (map member_key (db_members (w_db w')))"
    and one: "\<And>i. seats_taken (w_db w') i \<le> seats_taken (w_db w) i + (if i = gr_id g then 1 else 0)"
  shows "seats_ok w'"
proof (rule seats_okI [OF ok same key])
  fix x n assume x: "x \<in> set (db_groups (w_db w))" "gr_max_members x = Some n"
  show "int (seats_taken (w_db w') (gr_id x)) \<le> max n (int (seats_taken (w_db w) (gr_id x)))"
  proof (cases "gr_id x = gr_id g")
    case True
    then have "x = g" using ok x(1) g(1) by (auto simp: seats_ok_def distinct_map dest: inj_onD)
    then have "int (seats_taken (w_db w) (gr_id x)) < n"
      using g(2) x(2) by (simp add: is_full_def seats_taken_counts)
    then show ?thesis using one [of "gr_id x"] True by simp
  next
    case False
    then show ?thesis using one [of "gr_id x"] by simp
  qed
qed

lemma join_seats:
  assumes ok: "seats_ok w" and j: "join_group c e user code functional w = Inr (w', s)"
  shows "seats_ok w'"
  using j
proof (cases rule: join_group_cases)
  case again
  then show ?thesis using ok by simp
next
  case (fresh g)
  have m: "db_members (w_db w') = db_members (w_db w) @ [new_member e (gr_id g) user ''member'' s functional]"
    by (simp add: fresh(5))
  show ?thesis
  proof (rule seats_join [OF ok fresh(1,2)])
    show "db_groups (w_db w') = db_groups (w_db w)" by (simp add: fresh(5))
    show "distinct (map member_key (db_members (w_db w')))"
    proof -
      have "(gr_id g, user) \<notin> member_key ` set (db_members (w_db w))"
        using find_membership_None [OF fresh(3)] by (metis imageE)
      moreover have "member_key (new_member e (gr_id g) user ''member'' s functional) = (gr_id g, user)"
        by (simp add: member_key_def new_member_def)
      moreover have "distinct (map member_key (db_members (w_db w)))" using ok by (simp add: seats_ok_def)
      ultimately show ?thesis by (simp add: m)
    qed
    show "seats_taken (w_db w') i \<le> seats_taken (w_db w) i + (if i = gr_id g then 1 else 0)" for i
      by (auto simp: seats_taken_def m seated_def new_member_def)
  qed
next
  case (rejoin g m)
  let ?h = "\<lambda>x. if gm_group x = gr_id g \<and> gm_user x = user
      then (rejoined s functional x)\<lparr>gm_updated_at := en_now e\<rparr> else x"
  have m: "db_members (w_db w') = map ?h (db_members (w_db w))" by (simp add: rejoin(6))
  have k: "member_key (?h x) = member_key x" for x by (simp add: member_key_def rejoined_def)
  have keys: "distinct (map member_key (db_members (w_db w)))" using ok by (simp add: seats_ok_def)
  show ?thesis
  proof (rule seats_join [OF ok rejoin(1,2)])
    show "db_groups (w_db w') = db_groups (w_db w)" by (simp add: rejoin(6))
    show "distinct (map member_key (db_members (w_db w')))"
      unfolding m map_map o_def k by (rule keys)
    fix i
    show "seats_taken (w_db w') i \<le> seats_taken (w_db w) i + (if i = gr_id g then 1 else 0)"
    proof (cases "i = gr_id g")
      case True
      have "seats_taken (w_db w') i \<le> seats_taken (w_db w) i
          + length (filter (\<lambda>x. member_key x = (gr_id g, user)) (db_members (w_db w)))"
        unfolding seats_taken_def m
        by (rule length_filter_map_plus) (auto simp: seated_def member_key_def split: if_splits)
      then show ?thesis using keyed_once [OF keys, of "(gr_id g, user)"] True by simp
    next
      case False
      have "seats_taken (w_db w') i \<le> seats_taken (w_db w) i"
        unfolding seats_taken_def m
        by (rule length_filter_map_le) (use False in \<open>auto simp: seated_def rejoined_def split: if_splits\<close>)
      then show ?thesis using False by simp
    qed
  qed
qed

lemma set_status_keys [simp]:
  "gm_group (set_status e actor s m) = gm_group m" "gm_user (set_status e actor s m) = gm_user m"
  "gm_status (set_status e actor s m) = s"
  by (cases s; simp add: set_status_def)+

lemma seats_sync: "seats_ok (sync_user_organization user org w) = seats_ok w"
  by (simp add: seats_ok_def)

lemma seat_step_ok:
  assumes ok: "seats_ok w" and st: "seat_step w w'"
  shows "seats_ok w'"
  using st
proof cases
  case (member e user)
  then show ?thesis
  proof cases
    case (join c code functional s)
    then show ?thesis using join_seats ok by blast
  next
    case (cancel gid)
    then show ?thesis using seats_delete ok by (auto simp: cancel_join_request_def bindE_eq_Inr)
  next
    case (leave gid)
    then show ?thesis
      by (cases rule: leave_group_cases) (auto simp: removed_by_def intro!: seats_delete seats_no_gain ok)
  qed
next
  case (approve e gid user org actor)
  then obtain m where m: "find_membership w gid user = Some m" "gm_status m = MemberPending"
    and w': "w' = sync_user_organization user org (update_membership e gid user
              (\<lambda>m. m\<lparr>gm_status := MemberActive, gm_reviewed_by := Some actor,
                     gm_reviewed_at := Some (en_now e), gm_review_note := None\<rparr>) w)"
    by (auto simp: approve_join_request_def bindE_eq_Inr dest!: pending_membershipD split: if_splits)
  show ?thesis
    unfolding w' seats_sync
    by (rule seats_no_gain [OF ok]) (use only_membership [OF ok m(1)] m(2) in auto)
next
  case (reject gid user org)
  then show ?thesis using seats_delete ok by (auto simp: reject_join_request_def bindE_eq_Inr)
next
  case (remove e gid user org actor)
  then have "w' = update_membership e gid user (removed_by e actor) w"
    by (auto simp: remove_member_def bindE_eq_Inr split: if_splits)
  then show ?thesis by (auto simp: removed_by_def intro!: seats_no_gain ok)
next
  case (block e gid user org actor mp)
  then have "w' = update_membership e gid user (patch_member e actor mp) w"
    by (auto simp: update_member_def bindE_eq_Inr split: if_splits)
  then show ?thesis
    using block(2) by (auto simp: patch_member_def Let_def intro!: seats_no_gain ok split: option.splits)
qed

interpretation seats: invariant_steps seat_step seats_ok
  by unfold_locales (rule seat_step_ok)

text \<open>
  (C12) A group never seats more active and pending members than its capacity, whatever
  members and deciding admins do: joins, rejoins, approvals, rejections, cancellations,
  leaves, removals and blocks in any order.
\<close>

theorem capacity_kept:
  assumes "seat_step\<^sup>*\<^sup>* w w'" and "seats_ok w"
    and "g \<in> set (db_groups (w_db w'))" and "gr_max_members g = Some n"
  shows "member_count (w_db w') (gr_id g) + pending_count (w_db w') (gr_id g) \<le> n"
  using seats.inv_run [OF assms(1,2)] assms(3,4) by (simp add: seats_ok_def flip: seats_taken_counts)

section \<open>The approval gate\<close>

definition outside :: "ident \<Rightarrow> ident \<Rightarrow> world \<Rightarrow> bool" where
  "outside gid user w \<longleftrightarrow> \<not> is_active_member w gid user
     \<and> (\<forall>g\<in>set (db_groups (w_db w)). gr_id g = gid \<longrightarrow> gr_approval_required g)"

lemma outside_update:
  assumes "outside gid user w"
    and "\<And>m. gm_group (f m) = gm_group m" "\<And>m. gm_user (f m) = gm_user m" "\<And>m. gm_status (f m) \<noteq> MemberActive"
  shows "outside gid user (update_membership e i u f w)"
  using assms by (auto simp: outside_def is_active_member_def split: if_splits)

lemma outside_delete: "outside gid user w \<Longrightarrow> outside gid user (hard_delete_membership i u w)"
  by (auto simp: outside_def is_active_member_def)

lemma outside_db:
  "w_db w' = w_db v \<Longrightarrow> outside gid user w' = outside gid user v"
  by (simp add: outside_def is_active_member_def)

lemma member_step_outside:
  assumes out: "outside gid user w" and st: "\<exists>e u. member_step e u w w'"
  shows "outside gid user w'"
proof -
  from st obtain e u where "member_step e u w w'" by blast
  then show ?thesis
  proof cases
    case (join c code functional s)
    then show ?thesis
    proof (cases rule: join_group_cases)
      case again
      then show ?thesis using out by simp
    next
      case (fresh g)
      have "gr_id g = gid \<Longrightarrow> s = MemberPending" using out fresh by (auto simp: outside_def)
      then show ?thesis
        using out unfolding outside_db [OF fresh(5)]
        by (auto simp: outside_def is_active_member_def new_member_def)
    next
      case (rejoin g m)
      have "gr_id g = gid \<Longrightarrow> s = MemberPending" using out rejoin by (auto simp: outside_def)
      then show ?thesis
        using out unfolding outside_db [OF rejoin(6)]
        by (auto simp: outside_def is_active_member_def rejoined_def split: if_splits)
    qed
  next
    case (cancel i)
    then show ?thesis using out by (auto simp: cancel_join_request_def bindE_eq_Inr intro: outside_delete)
  next
    case (leave i)
    then show ?thesis
      by (cases rule: leave_group_cases) (auto simp: removed_by_def intro!: outside_delete outside_update out)
  qed
qed

interpretation gate: invariant_steps "\<lambda>w w'. \<exists>e u. member_step e u w w'" "outside gid user" for gid user
  by unfold_locales (rule member_step_outside)

text \<open>
  (C11) In a group that requires approval nobody becomes an active member by what members do:
  joining with any code, rejoining after a removal or a block, cancelling and leaving, in any
  order and by anyone, leave a user who is not active outside.
\<close>

theorem approval_gate:
  assumes "(\<lambda>w w'. \<exists>e u. member_step e u w w')\<^sup>*\<^sup>* w w'"
    and "group_keys (db_groups (w_db w))" and "g \<in> set (db_groups (w_db w))" and "gr_approval_required g"
    and "\<not> is_active_member w (gr_id g) user"
  shows "\<not> is_active_member w' (gr_id g) user"
proof -
  have "outside (gr_id g) user w"
    using assms(4,5) group_keys_inj [OF assms(2) _ assms(3)] unfolding outside_def by metis
  then show ?thesis using gate.inv_run [OF assms(1)] by (simp add: outside_def)
qed

section \<open>Permanent delete\<close>

lemma flags_Nil:
  "map fst (filter snd [(a, p), (b, q), (c, r), (d, s), (e, t)]) = [] \<longleftrightarrow> \<not> p \<and> \<not> q \<and> \<not> r \<and> \<not> s \<and> \<not> t"
  by simp

lemma no_blockers:
  "operational_blockers e g gid org w = [] \<longleftrightarrow>
     \<not> (gr_pricing_enabled g \<and> (\<exists>a\<in>set (db_attendance (w_db w)). at_group a = gid \<and> at_org a = org \<and> at_price a \<noteq> None
          \<and> (case last_finalized_end (w_db w) gid org of None \<Rightarrow> True | Some b \<Rightarrow> b < at_date a)))
     \<and> \<not> (\<exists>c\<in>set (db_corrections (w_db w)). cr_group c = gid \<and> cr_org c = org \<and> cr_status c = ReqPending)
     \<and> \<not> (\<exists>v\<in>set (w_vacations w). vr_group v = Some gid \<and> vr_org v = org \<and> \<not> vr_deleted v
            \<and> (vr_status v = VacPending \<or> vr_status v = VacApproved \<and> en_now e \<le> vr_end v))
     \<and> \<not> (\<exists>h\<in>set (db_guests (w_db w)). hg_group h = gid \<and> hg_org h = org \<and> hg_pending h)
     \<and> \<not> (\<exists>m\<in>set (db_members (w_db w)). gm_group m = gid \<and> gm_status m = MemberPending)"
  unfolding operational_blockers_def Let_def flags_Nil ..

definition owns_nothing :: "ident \<Rightarrow> world \<Rightarrow> bool" where
  "owns_nothing gid w \<longleftrightarrow>
     (let d = w_db w in
       gid \<notin> gr_id ` set (db_groups d) \<and> gid \<notin> gm_group ` set (db_members d) \<and> gid \<notin> at_group ` set (db_attendance d)
       \<and> gid \<notin> hg_group ` set (db_guests d) \<and> gid \<notin> le_group ` set (db_ledger d)
       \<and> gid \<notin> cr_group ` set (db_corrections d) \<and> gid \<notin> ml_group ` set (w_meals w)
       \<and> Some gid \<notin> vr_group ` set (w_vacations w) \<and> gid \<notin> sc_group ` set (w_schedules w))"

lemma hard_delete_owns_nothing: "owns_nothing gid (hard_delete_group gid w)"
  unfolding owns_nothing_def hard_delete_group_def Let_def
  by (simp add: image_image) (auto simp: cascades_def)

text \<open>The rows of other groups, where a row names the group of its own meal.\<close>

definition meals_agree :: "world \<Rightarrow> bool" where
  "meals_agree w \<longleftrightarrow> (\<forall>a\<in>set (db_attendance (w_db w)). \<forall>m\<in>set (w_meals w). ml_id m = at_meal a \<longrightarrow> ml_group m = at_group a)"

lemma hard_delete_others:
  assumes "meals_agree w"
  shows "db_attendance (w_db (hard_delete_group gid w)) = filter (\<lambda>a. at_group a \<noteq> gid) (db_attendance (w_db w))"
    and "db_ledger (w_db (hard_delete_group gid w)) = filter (\<lambda>l. le_group l \<noteq> gid) (db_ledger (w_db w))"
    and "db_members (w_db (hard_delete_group gid w)) = filter (\<lambda>m. gm_group m \<noteq> gid) (db_members (w_db w))"
    and "db_periods (w_db (hard_delete_group gid w)) = db_periods (w_db w)"
  using assms by (auto simp: hard_delete_group_def Let_def cascades_def meals_agree_def intro!: filter_cong)

text \<open>Priced attendance newer than the last finalized period.\<close>

definition unsettled :: "db \<Rightarrow> ident \<Rightarrow> ident \<Rightarrow> bool" where
  "unsettled d gid org \<longleftrightarrow>
     (\<exists>a\<in>set (db_attendance d). at_group a = gid \<and> at_org a = org \<and> at_price a \<noteq> None
        \<and> (case last_finalized_end d gid org of None \<Rightarrow> True | Some b \<Rightarrow> b < at_date a))"

text \<open>
  An immediate permanent delete succeeds only on a group without pending requests and,
  when it is priced, without unsettled attendance; afterwards no table the delete covers has a
  row of the group, and the attendance, ledger and members of every other group are as before.
\<close>

lemma permanent_delete_clean:
  assumes del: "permanent_delete_group e gid org s = Inr s'" and agree: "meals_agree (rt_world s)"
    and g: "find_group (rt_db s) gid org = Some g" and other: "i \<noteq> gid"
  shows "owns_nothing gid (rt_world s') \<and> pending_count (rt_db s) gid = 0
     \<and> \<not> (gr_pricing_enabled g \<and> unsettled (rt_db s) gid org)
     \<and> filter (\<lambda>a. at_group a = i) (db_attendance (rt_db s')) = filter (\<lambda>a. at_group a = i) (db_attendance (rt_db s))
     \<and> filter (\<lambda>l. le_group l = i) (db_ledger (rt_db s')) = filter (\<lambda>l. le_group l = i) (db_ledger (rt_db s))
     \<and> filter (\<lambda>m. gm_group m = i) (db_members (rt_db s')) = filter (\<lambda>m. gm_group m = i) (db_members (rt_db s))"
proof -
  have "group_by_id True (rt_db s) gid org = Some g" using g by (simp add: group_by_id_def find_group_def)
  then have b: "operational_blockers e g gid org (rt_world s) = []"
    and s': "rt_world s' = hard_delete_group gid (rt_world s)"
    using del by (auto simp: permanent_delete_group_def hard_delete_def split: if_splits)
  have f: "(\<And>x. P x \<Longrightarrow> Q x) \<Longrightarrow> filter P (filter Q xs) = filter P xs" for P Q :: "'a \<Rightarrow> bool" and xs
    by (induction xs) auto
  have m: "\<not> (\<exists>m\<in>set (db_members (rt_db s)). gm_group m = gid \<and> gm_status m = MemberPending)"
    and u: "\<not> (gr_pricing_enabled g \<and> unsettled (rt_db s) gid org)"
    using b unfolding no_blockers unsettled_def by blast+
  have "pending_count (rt_db s) gid = 0" using m by (simp add: count_status_def filter_empty_conv)
  moreover have "owns_nothing gid (rt_world s')" unfolding s' by (rule hard_delete_owns_nothing)
  ultimately show ?thesis
    unfolding s' hard_delete_others [OF agree] using u other by (intro conjI f) auto
qed

section \<open>Signed payloads\<close>

lemma split_signed:
  assumes "CHR ''.'' \<notin> set b" and "CHR ''.'' \<notin> set s"
  shows "js_split (CHR ''.'') (qr_prefix @ b @ ''.'' @ s) = [''emg1'', b, s]"
proof -
  have "js_split (CHR ''.'') (''emg1'' @ CHR ''.'' # (b @ CHR ''.'' # s)) = [''emg1'', b, s]"
    using assms by (simp add: js_split_append_sep js_split_notin del: append.simps)
  then show ?thesis by (simp add: qr_prefix_def)
qed

text \<open>
  A QR payload the server signed is read back as its join code until it expires, and the
  same body with any other signature is refused.
\<close>

lemma qr_roundtrip:
  assumes "CHR ''.'' \<notin> set (qc_body c p)" and "CHR ''.'' \<notin> set (qc_sign c (qc_body c p))"
    and "CHR ''.'' \<notin> set forged" and "qc_parse c (qc_body c p) = Some p" and "qp_token p \<noteq> []"
    and "forged \<noteq> qc_sign c (qc_body c p)"
  shows "raw_join_code c e (encode_qr_payload c p) =
           (case qp_expires p of
              Some t \<Rightarrow> if t < en_now e then Inl (BadRequest ''QR code expired'') else Inr (qp_token p)
            | None \<Rightarrow> Inr (qp_token p))
     \<and> raw_join_code c e (qr_prefix @ qc_body c p @ ''.'' @ forged) = Inl (BadRequest ''Invalid QR code'')"
proof -
  have signed: "is_signed_qr_payload (qr_prefix @ x)" for x
    by (simp add: is_signed_qr_payload_def qr_prefix_def)
  have "decode_qr_payload c (encode_qr_payload c p) = Some p"
    using split_signed [OF assms(1,2)] assms(4,5) by (simp add: decode_qr_payload_def encode_qr_payload_def signed)
  moreover have "decode_qr_payload c (qr_prefix @ qc_body c p @ ''.'' @ forged) = None"
    using split_signed [OF assms(1,3)] assms(6) by (simp add: decode_qr_payload_def signed)
  ultimately show ?thesis
    by (simp add: raw_join_code_def signed encode_qr_payload_def split: option.split)
qed

text \<open>
  The request transform upper-cases the scanned text, so no payload reaches the decoder: the
  prefix is lower-case.
\<close>

lemma ascii_upper_not_e: "ascii_upper x \<noteq> CHR ''e''"
proof
  assume h: "ascii_upper x = CHR ''e''"
  show False
  proof (cases "97 \<le> (of_char x :: nat) \<and> (of_char x :: nat) \<le> 122")
    case True
    then have "of_char (ascii_upper x) = ((of_char x :: nat) - 32) mod 256" by (simp add: ascii_upper_def)
    also have "\<dots> \<le> of_char x - 32" by (rule mod_less_eq_dividend)
    finally have "(101 :: nat) \<le> of_char x - 32" using h by simp
    then show False using True by linarith
  next
    case False
    then have "x = CHR ''e''" using h by (auto simp: ascii_upper_def Let_def)
    then show False using False by simp
  qed
qed

lemma join_dto_never_signed:
  assumes "join_dto_code raw = Inr v"
  shows "\<not> is_signed_qr_payload v"
proof
  assume "is_signed_qr_payload v"
  then have "CHR ''e'' \<in> set v" by (cases v) (auto simp: is_signed_qr_payload_def qr_prefix_def)
  moreover have "set v \<subseteq> ascii_upper ` set raw"
  proof -
    have "v = js_trim (map ascii_upper raw)"
      using assms by (auto simp: join_dto_code_def Let_def split: if_splits)
    then show ?thesis unfolding js_trim_def by (auto dest!: set_dropWhileD)
  qed
  ultimately show False using ascii_upper_not_e by fastforce
qed

section \<open>Concrete inputs\<close>

definition ex_codec :: qr_codec where
  "ex_codec = \<lparr>qc_sign = (\<lambda>b. rev b), qc_body = qp_token,
     qc_parse = (\<lambda>b. Some \<lparr>qp_org = ''o'', qp_group = ''g'', qp_token = b, qp_expires = None\<rparr>)\<rparr>"

definition ex_member :: "ident \<Rightarrow> member_status \<Rightarrow> member_row" where
  "ex_member u s = (new_member ex_group_env ''g'' u ''member'' s None)\<lparr>gm_id := u\<rparr>"

definition joined_world :: "bool \<Rightarrow> int option \<Rightarrow> member_row list \<Rightarrow> world" where
  "joined_world approval cap ms = ex_world\<lparr>w_db := (w_db ex_world)\<lparr>db_attendance := [], db_members := ms,
     db_groups := [ex_group\<lparr>gr_approval_required := approval, gr_max_members := cap, gr_first_published := Some 1,
                            gr_cycle_day := Some 5\<rparr>]\<rparr>\<rparr>"

lemma joined_world_ok:
  "group_keys (db_groups (w_db (joined_world b n ms)))"
  by (simp add: group_keys_def joined_world_def)

lemma ex_join:
  "join_group ex_codec ex_group_env ''v'' ''JOINCODE'' None (joined_world True (Some 2) [ex_member ''a'' MemberActive])
     = Inr (joined_world True (Some 2) [ex_member ''a'' MemberActive,
              new_member ex_group_env ''g'' ''v'' ''member'' MemberPending None], MemberPending)"
  by (simp add: join_group_def raw_join_code_def is_signed_qr_payload_def qr_prefix_def joinable_group_def
      find_by_join_code_def is_full_def count_status_def find_membership_def create_membership_def set_members_def
      joined_world_def ex_group_def ex_member_def new_member_def Let_def)

lemma ex_join_step:
  "member_step ex_group_env ''v'' (joined_world True (Some 2) [ex_member ''a'' MemberActive])
     (joined_world True (Some 2) [ex_member ''a'' MemberActive,
        new_member ex_group_env ''g'' ''v'' ''member'' MemberPending None])"
  by (rule member_step.join [OF ex_join])

definition before_join :: world where
  "before_join = joined_world True (Some 2) [ex_member ''a'' MemberActive]"

definition after_join :: world where
  "after_join = joined_world True (Some 2) [ex_member ''a'' MemberActive,
     new_member ex_group_env ''g'' ''v'' ''member'' MemberPending None]"

lemma ex_join_runs:
  "(groups_step cf)\<^sup>*\<^sup>* before_join after_join" "seat_step\<^sup>*\<^sup>* before_join after_join"
  "(\<lambda>w w'. \<exists>e u. member_step e u w w')\<^sup>*\<^sup>* before_join after_join"
  using ex_join_step unfolding before_join_def after_join_def
  by (blast intro: groups_step.member seat_step.member)+

theorem group_keys_stay_unique_witness: "group_keys (db_groups (w_db after_join))"
  by (rule group_keys_stay_unique [OF ex_join_runs(1)]) (simp add: before_join_def joined_world_ok)

theorem capacity_kept_witness:
  "member_count (w_db after_join) ''g'' = 1 \<and> pending_count (w_db after_join) ''g'' = 1
   \<and> member_count (w_db after_join) ''g'' + pending_count (w_db after_join) ''g'' \<le> 2"
proof -
  have "seats_ok before_join"
    by (simp add: seats_ok_def before_join_def joined_world_def seats_taken_def seated_def)
  from capacity_kept [OF ex_join_runs(2) this,
      of "ex_group\<lparr>gr_approval_required := True, gr_max_members := Some 2, gr_first_published := Some 1, gr_cycle_day := Some 5\<rparr>" 2]
  show ?thesis
    by (simp add: after_join_def joined_world_def ex_group_def count_status_def ex_member_def new_member_def)
qed

theorem approval_gate_witness: "\<not> is_active_member after_join ''g'' ''v''"
proof -
  let ?g = "ex_group\<lparr>gr_approval_required := True, gr_max_members := Some 2, gr_first_published := Some 1, gr_cycle_day := Some 5\<rparr>"
  have "?g \<in> set (db_groups (w_db before_join))" "group_keys (db_groups (w_db before_join))"
    by (simp_all add: before_join_def joined_world_def group_keys_def)
  from approval_gate [OF ex_join_runs(3) this(2,1), of "''v''"]
  show ?thesis
    by (simp add: is_active_member_def before_join_def joined_world_def ex_member_def new_member_def ex_group_def)
qed

definition archived_world :: world where
  "archived_world = update_groups ''g'' ''o'' (\<lambda>g. if gr_is_active g then g\<lparr>gr_is_active := False,
      gr_archived_at := Some (en_now ex_group_env)\<rparr> else g) (joined_world True None [])"

text \<open>A published priced group is archived; its identity is still there.\<close>

theorem pricing_identity_permanent_witness:
  "map gr_is_active (db_groups (w_db archived_world)) = [False]
   \<and> map (\<lambda>g. (gr_pricing_enabled g, gr_cycle_day g)) (db_groups (w_db archived_world)) = [(True, Some 5)]"
proof -
  let ?w = "joined_world True None []"
  let ?g = "ex_group\<lparr>gr_approval_required := True, gr_max_members := None, gr_first_published := Some 1, gr_cycle_day := Some 5\<rparr>"
  obtain g' where g': "db_groups (w_db archived_world) = [g']" "gr_id g' = ''g''" "gr_first_published g' = Some 1"
      "\<not> gr_is_active g'"
    by (simp add: archived_world_def joined_world_def ex_group_def)
  have "delete_group ex_group_env ''g'' ''o'' ?w = Inr archived_world"
    by (simp add: archived_world_def delete_group_def group_by_id_def joined_world_def ex_group_def)
  then have st: "(groups_step cf)\<^sup>*\<^sup>* ?w archived_world" for cf
    by (blast intro: groups_step.archive)
  have g: "?g \<in> set (db_groups (w_db ?w))" "gr_id ?g = ''g''" "gr_first_published ?g \<noteq> None"
    "gr_pricing_enabled ?g" "gr_cycle_day ?g = Some 5"
    by (simp_all add: joined_world_def ex_group_def)
  have "gr_pricing_enabled g' = gr_pricing_enabled ?g \<and> gr_cycle_day g' = gr_cycle_day ?g"
    by (rule pricing_identity_permanent [OF st joined_world_ok g(1,3)]) (simp_all add: g'(1-3) ex_group_def)
  then show ?thesis using g' g(4,5) by simp
qed

end
