(* ===== verification/Group_Edges.thy ===== *)
theory Group_Edges
  imports Group_Laws
begin

text \<open>
  Edge behaviours of the groups service that its comments describe differently: each lemma
  evaluates an operation where the rule a comment states does not hold.
\<close>

text \<open>A group created with the defaults has meals on and no meal mode.\<close>

lemma created_group_without_mode:
  "cd_config dto = None \<Longrightarrow> \<not> settings_ok (new_group cf e org admin dto token)"
  by (simp add: settings_ok_def new_group_def)

text \<open>A full group refuses everybody, its own active members included.\<close>

lemma full_group_refuses_members:
  assumes "\<not> is_signed_qr_payload code" and "find_by_join_code (w_db w) code = Some g" and "gr_is_active g"
    and "gr_token_expires g = None" and "is_full (w_db w) g"
  shows "join_group c e user code functional w = Inl (Conflict ''GROUP_FULL'')"
  using assms by (simp add: join_group_def raw_join_code_def joinable_group_def)

text \<open>A direct add takes a seat whether or not one is free.\<close>

lemma direct_add_ignores_capacity:
  assumes "group_by_id False (w_db w) gid org = Some g" and "find_user w user = Some u"
    and "find_membership w gid user = None"
  shows "\<exists>w'. add_member_by_id e gid org user role w = Inr w'
           \<and> member_count (w_db w') gid = member_count (w_db w) gid + 1"
  using assms by (simp add: add_member_by_id_def count_status_def new_member_def)

text \<open>A blocked member leaves, which clears the block, and joins again as an active member.\<close>

lemma blocked_member_rejoins:
  "\<exists>w1 w2. leave_group ex_group_env ''g'' ''b'' (joined_world False None [ex_member ''b'' MemberBlocked]) = Inr w1
     \<and> join_group ex_codec ex_group_env ''b'' ''JOINCODE'' None w1 = Inr (w2, MemberActive)"
  by (simp add: leave_group_def find_membership_def joined_world_def ex_member_def new_member_def update_membership_def
      removed_by_def set_status_def join_group_def raw_join_code_def is_signed_qr_payload_def qr_prefix_def
      joinable_group_def find_by_join_code_def is_full_def ex_group_def Let_def)

text \<open>Archiving by a PATCH leaves no archive instant.\<close>

lemma patch_archives_without_instant:
  "\<exists>w'. update_group 5 ex_group_env ''g'' ''o'' ''admin'' (no_patch\<lparr>up_is_active := Some False\<rparr>) ex_groups_world = Inr w'
     \<and> map (\<lambda>g. (gr_is_active g, gr_archived_at g)) (db_groups (w_db w')) = [(False, None)]"
  by (simp add: update_group_def group_by_id_def ex_groups_world_def ex_group_def check_rename_def no_patch_def
      resolve_update_def set_functional_def update_groups_def saved_row_def patch_header_fields_def Let_def)

text \<open>A PATCH lowers the capacity below the members there are.\<close>

lemma patch_capacity_below_members:
  "\<exists>w'. update_group 5 ex_group_env ''g'' ''o'' ''admin'' (no_patch\<lparr>up_max_members := Some (Some 1)\<rparr>)
          (joined_world False None [ex_member ''a'' MemberActive, ex_member ''b'' MemberActive]) = Inr w'
     \<and> map gr_max_members (db_groups (w_db w')) = [Some 1] \<and> member_count (w_db w') ''g'' = 2"
  by (simp add: update_group_def group_by_id_def joined_world_def ex_group_def check_rename_def no_patch_def
      resolve_update_def set_functional_def update_groups_def saved_row_def patch_header_fields_def Let_def
      count_status_def ex_member_def new_member_def)

text \<open>A vacation whose last day is today does not block the delete: midnight lies before now.\<close>

lemma vacation_ending_today_is_no_blocker:
  assumes "vr_end v < en_now e" and "vr_status v = VacApproved" and "w_vacations w = [v]"
    and "db_members (w_db w) = []" "db_guests (w_db w) = []" "db_corrections (w_db w) = []"
    and "\<not> gr_pricing_enabled g"
  shows "operational_blockers e g gid org w = []"
  using assms by (simp add: no_blockers)

text \<open>A member an admin re-activates keeps the removal stamp and the settings of before.\<close>

lemma reactivation_keeps_removal_stamp:
  "gm_removed_at (patch_member e actor \<lparr>mp_role = None, mp_status = Some MemberActive\<rparr> m) = gm_removed_at m
   \<and> gm_vacation (patch_member e actor \<lparr>mp_role = None, mp_status = Some MemberActive\<rparr> m) = gm_vacation m"
  by (simp add: patch_member_def set_status_def)

text \<open>The periods and archives of a permanently deleted group stay.\<close>

lemma permanent_delete_keeps_periods:
  "permanent_delete_group e gid org s = Inr s' \<Longrightarrow>
     db_periods (rt_db s') = db_periods (rt_db s) \<and> rt_archives s' = rt_archives s"
  by (auto simp: permanent_delete_group_def hard_delete_def hard_delete_group_def bindE_eq_Inr Let_def split: if_splits)

text \<open>The archive purge deletes expired groups only, and never one archived without an instant.\<close>

lemma hard_deletes_groups:
  "db_groups (rt_db (fold (\<lambda>g. hard_delete (gr_id g)) gs s)) =
     filter (\<lambda>g. gr_id g \<notin> gr_id ` set gs) (db_groups (rt_db s))"
  by (induction gs arbitrary: s) (auto simp: hard_delete_def intro: filter_cong)

lemma archive_purge_only_expired:
  assumes "distinct (map gr_id (db_groups (rt_db s)))" and "g \<in> set (db_groups (rt_db s))"
    and "g \<notin> set (db_groups (rt_db (group_archive_purge_sweep days e s)))"
  shows "\<not> gr_is_active g \<and> (\<exists>t. gr_archived_at g = Some t \<and> t + nullish days 30 * day_ms \<le> en_now e)"
proof -
  let ?x = "take 50 (filter (archive_expired (nullish days 30) e) (db_groups (rt_db s)))"
  have "gr_id g \<in> gr_id ` set ?x"
    using assms(2,3) by (auto simp: group_archive_purge_sweep_def Let_def hard_deletes_groups split: if_splits)
  then obtain h where h: "h \<in> set ?x" "gr_id h = gr_id g" by auto
  then have "h \<in> set (db_groups (rt_db s))" "archive_expired (nullish days 30) e h"
    by (auto dest!: in_set_takeD)
  moreover from this have "h = g" using assms(1,2) h(2) by (auto simp: distinct_map dest: inj_onD)
  ultimately show ?thesis by (auto simp: archive_expired_def split: option.splits)
qed

end
