(* ===== verification/Vacation_Sweep.thy ===== *)
theory Vacation_Sweep
  imports Guests
begin

text \<open>
  The sweep that starts and ends approved vacations
  (\<open>SystemDefaultWorker.vacationSweep\<close> in \<open>src/src/workers/system-default.worker.ts\<close>): it
  raises and lowers the account flag from organisation-level requests and the flag of a
  membership from the requests of its own group.
\<close>

section \<open>What a tick reads\<close>

definition flagged_user :: "world \<Rightarrow> ident \<Rightarrow> bool" where
  "flagged_user w user \<longleftrightarrow> (\<exists>u\<in>set (w_users w). us_id u = user \<and> us_vacation u)"

definition flagged_member :: "world \<Rightarrow> ident \<Rightarrow> ident \<Rightarrow> bool" where
  "flagged_member w user gid \<longleftrightarrow>
     (\<exists>m\<in>set (db_members (w_db w)). gm_user m = user \<and> gm_group m = gid \<and> gm_vacation m = Some True)"

text \<open>Approved requests whose range meets the two days around now, in any time zone.\<close>

definition active_requests :: "env \<Rightarrow> world \<Rightarrow> vacation_row list" where
  "active_requests e w =
     filter (\<lambda>r. vr_status r = VacApproved \<and> \<not> vr_deleted r
               \<and> vr_start r \<le> en_now e + 2 * day_ms \<and> en_now e - 2 * day_ms \<le> vr_end r) (w_vacations w)"

text \<open>The business day of an organisation; an unknown one has none.\<close>

definition vac_today :: "env \<Rightarrow> world \<Rightarrow> ident \<Rightarrow> int option" where
  "vac_today e w org = Option.bind (map_of (w_orgs w) org) (\<lambda>tz. to_utc_midnight (en_date e tz))"

definition covers_today :: "env \<Rightarrow> world \<Rightarrow> vacation_row \<Rightarrow> bool" where
  "covers_today e w r \<longleftrightarrow>
     (case vac_today e w (vr_org r) of None \<Rightarrow> False | Some t \<Rightarrow> vr_start r \<le> t \<and> t \<le> vr_end r)"

definition just_ended :: "env \<Rightarrow> world \<Rightarrow> vacation_row \<Rightarrow> bool" where
  "just_ended e w r \<longleftrightarrow> (case vac_today e w (vr_org r) of None \<Rightarrow> False | Some t \<Rightarrow> vr_end r < t)"

section \<open>Decisions\<close>

definition covered_now :: "env \<Rightarrow> world \<Rightarrow> ident option \<Rightarrow> ident \<Rightarrow> bool" where
  "covered_now e w scope user \<longleftrightarrow>
     (\<exists>r\<in>set (active_requests e w). vr_group r = scope \<and> vr_user r = user \<and> covers_today e w r)"

definition recently_ended :: "env \<Rightarrow> world \<Rightarrow> ident option \<Rightarrow> ident \<Rightarrow> bool" where
  "recently_ended e w scope user \<longleftrightarrow>
     (\<exists>r\<in>set (active_requests e w). vr_group r = scope \<and> vr_user r = user \<and> just_ended e w r)"

definition to_activate :: "env \<Rightarrow> world \<Rightarrow> ident \<Rightarrow> bool" where
  "to_activate e w user \<longleftrightarrow> covered_now e w None user \<and> \<not> flagged_user w user"

definition to_resume :: "env \<Rightarrow> world \<Rightarrow> ident \<Rightarrow> bool" where
  "to_resume e w user \<longleftrightarrow>
     (\<exists>u\<in>set (w_users w). us_id u = user \<and> us_vacation u \<and> us_org u \<noteq> [])
     \<and> \<not> covered_now e w None user \<and> \<not> to_activate e w user \<and> recently_ended e w None user"

definition member_activate :: "env \<Rightarrow> world \<Rightarrow> ident \<Rightarrow> ident \<Rightarrow> bool" where
  "member_activate e w gid user \<longleftrightarrow> covered_now e w (Some gid) user \<and> \<not> flagged_member w user gid"

definition member_resume :: "env \<Rightarrow> world \<Rightarrow> ident \<Rightarrow> ident \<Rightarrow> bool" where
  "member_resume e w gid user \<longleftrightarrow>
     recently_ended e w (Some gid) user \<and> \<not> covered_now e w (Some gid) user \<and> flagged_member w user gid"

section \<open>The writes\<close>

text \<open>
  \<open>isVacationMode: \{ not: true \}\<close> is \<open><> true\<close> in the database, which a null column does not
  satisfy: the activation reaches memberships with an explicit \<open>false\<close> only.
\<close>

definition sweep_member :: "env \<Rightarrow> world \<Rightarrow> member_row \<Rightarrow> member_row" where
  "sweep_member e w m =
     (if member_activate e w (gm_group m) (gm_user m) \<and> gm_vacation m = Some False
      then m\<lparr>gm_vacation := Some True, gm_updated_at := en_now e\<rparr>
      else if member_resume e w (gm_group m) (gm_user m) \<and> gm_vacation m = Some True
      then m\<lparr>gm_vacation := None, gm_updated_at := en_now e\<rparr>
      else m)"

definition sweep_user :: "env \<Rightarrow> world \<Rightarrow> user_row \<Rightarrow> user_row" where
  "sweep_user e w u =
     (if to_activate e w (us_id u) then u\<lparr>us_vacation := True\<rparr>
      else if to_resume e w (us_id u) then u\<lparr>us_vacation := False\<rparr> else u)"

definition vacation_sweep :: "env \<Rightarrow> world \<Rightarrow> world" where
  "vacation_sweep e w =
     (if \<not> list_ex us_vacation (w_users w) \<and> active_requests e w = [] then w
      else w\<lparr>w_db := (w_db w)\<lparr>db_members := map (sweep_member e w) (db_members (w_db w))\<rparr>,
             w_users := map (sweep_user e w) (w_users w)\<rparr>)"

section \<open>What a tick does\<close>

lemma idle_sweep:
  assumes "\<not> list_ex us_vacation (w_users w)" and "active_requests e w = []"
  shows "map (sweep_member e w) (db_members (w_db w)) = db_members (w_db w)"
    and "map (sweep_user e w) (w_users w) = w_users w"
  using assms
  by (auto intro!: map_idI simp: sweep_member_def sweep_user_def member_activate_def member_resume_def
      to_activate_def to_resume_def covered_now_def recently_ended_def)

lemma vacation_sweep_tables:
  "db_members (w_db (vacation_sweep e w)) = map (sweep_member e w) (db_members (w_db w))"
  "w_users (vacation_sweep e w) = map (sweep_user e w) (w_users w)"
  "w_vacations (vacation_sweep e w) = w_vacations w" "w_orgs (vacation_sweep e w) = w_orgs w"
  using idle_sweep [of w e] by (auto simp: vacation_sweep_def)

lemma sweep_reads [simp]:
  "active_requests e (vacation_sweep e w) = active_requests e w"
  "covers_today e (vacation_sweep e w) = covers_today e w"
  "just_ended e (vacation_sweep e w) = just_ended e w"
  "covered_now e (vacation_sweep e w) = covered_now e w"
  "recently_ended e (vacation_sweep e w) = recently_ended e w"
  by (simp_all add: active_requests_def covers_today_def [abs_def] just_ended_def [abs_def] vac_today_def [abs_def]
      covered_now_def [abs_def] recently_ended_def [abs_def] vacation_sweep_tables)

lemma flagged_user_after:
  "flagged_user (vacation_sweep e w) user \<longleftrightarrow>
     (\<exists>u\<in>set (w_users w). us_id u = user) \<and> (to_activate e w user \<or> flagged_user w user \<and> \<not> to_resume e w user)"
proof -
  have "us_id (sweep_user e w u) = us_id u" for u by (simp add: sweep_user_def)
  moreover have "us_vacation (sweep_user e w u) \<longleftrightarrow>
      to_activate e w (us_id u) \<or> us_vacation u \<and> \<not> to_resume e w (us_id u)" for u
    by (auto simp: sweep_user_def to_resume_def)
  ultimately show ?thesis by (auto simp: flagged_user_def vacation_sweep_tables)
qed

lemma sweep_user_key [simp]: "us_id (sweep_user e w u) = us_id u" "us_org (sweep_user e w u) = us_org u"
  by (simp_all add: sweep_user_def)

lemma sweep_member_key [simp]:
  "gm_group (sweep_member e w m) = gm_group m" "gm_user (sweep_member e w m) = gm_user m"
  by (simp_all add: sweep_member_def)

lemma settled_user:
  assumes "u \<in> set (w_users w)"
  shows "\<not> to_activate e (vacation_sweep e w) (us_id u)" and "\<not> to_resume e (vacation_sweep e w) (us_id u)"
proof -
  show "\<not> to_activate e (vacation_sweep e w) (us_id u)"
    using assms by (auto simp: to_activate_def flagged_user_after to_resume_def)
  show "\<not> to_resume e (vacation_sweep e w) (us_id u)"
  proof
    assume r: "to_resume e (vacation_sweep e w) (us_id u)"
    then obtain v where v: "v \<in> set (w_users w)" "us_id v = us_id u" "us_vacation (sweep_user e w v)" "us_org v \<noteq> []"
      by (auto simp: to_resume_def vacation_sweep_tables)
    have c: "\<not> covered_now e w None (us_id u)" "recently_ended e w None (us_id u)"
      using r by (auto simp: to_resume_def)
    then have "\<not> to_activate e w (us_id v)" by (simp add: to_activate_def v(2))
    then have "us_vacation v" "\<not> to_resume e w (us_id v)"
      using v(3) by (auto simp: sweep_user_def split: if_splits)
    then show False using v(1,2,4) c \<open>\<not> to_activate e w (us_id v)\<close> by (auto simp: to_resume_def)
  qed
qed

lemma settled_member:
  assumes m: "m \<in> set (db_members (w_db w))"
  shows "sweep_member e (vacation_sweep e w) (sweep_member e w m) = sweep_member e w m"
proof -
  let ?g = "gm_group m" and ?u = "gm_user m"
  have "\<not> (member_activate e (vacation_sweep e w) ?g ?u \<and> gm_vacation (sweep_member e w m) = Some False)"
  proof
    assume a: "member_activate e (vacation_sweep e w) ?g ?u \<and> gm_vacation (sweep_member e w m) = Some False"
    then have c: "covered_now e w (Some ?g) ?u" and nf: "\<not> flagged_member (vacation_sweep e w) ?u ?g"
      by (auto simp: member_activate_def)
    have "\<not> member_activate e w ?g ?u" using a by (auto simp: sweep_member_def split: if_splits)
    then obtain x where x: "x \<in> set (db_members (w_db w))" "gm_user x = ?u" "gm_group x = ?g" "gm_vacation x = Some True"
      using c by (auto simp: member_activate_def flagged_member_def)
    have "gm_vacation (sweep_member e w x) = Some True"
      using x c by (auto simp: sweep_member_def member_resume_def)
    with x nf show False by (auto simp: flagged_member_def vacation_sweep_tables)
  qed
  moreover have "\<not> (member_resume e (vacation_sweep e w) ?g ?u \<and> gm_vacation (sweep_member e w m) = Some True)"
  proof
    assume a: "member_resume e (vacation_sweep e w) ?g ?u \<and> gm_vacation (sweep_member e w m) = Some True"
    then have c: "\<not> covered_now e w (Some ?g) ?u" "recently_ended e w (Some ?g) ?u" by (auto simp: member_resume_def)
    then have "gm_vacation m = Some True" "\<not> member_resume e w ?g ?u"
      using a by (auto simp: sweep_member_def member_activate_def split: if_splits)
    then show False using c m by (auto simp: member_resume_def flagged_member_def)
  qed
  ultimately show ?thesis
    unfolding sweep_member_def [of e "vacation_sweep e w"] sweep_member_key by (simp only: if_False)
qed

text \<open>A second tick at the same instant changes nothing.\<close>

lemma vacation_sweep_idempotent: "vacation_sweep e (vacation_sweep e w) = vacation_sweep e w"
proof -
  have "map (sweep_member e (vacation_sweep e w)) (db_members (w_db (vacation_sweep e w))) = db_members (w_db (vacation_sweep e w))"
    by (simp add: vacation_sweep_tables settled_member)
  moreover have "map (sweep_user e (vacation_sweep e w)) (w_users (vacation_sweep e w)) = w_users (vacation_sweep e w)"
  proof (rule map_idI)
    fix v assume "v \<in> set (w_users (vacation_sweep e w))"
    then obtain u where "u \<in> set (w_users w)" "v = sweep_user e w u" by (auto simp: vacation_sweep_tables)
    then show "sweep_user e (vacation_sweep e w) v = v"
      using settled_user [of u w e] by (simp add: sweep_user_def [of e "vacation_sweep e w"])
  qed
  ultimately show ?thesis by (simp add: vacation_sweep_def [of e "vacation_sweep e w"])
qed

section \<open>The outcome\<close>

text \<open>What the flags ought to be after a tick, row by row.\<close>

definition account_outcome :: "env \<Rightarrow> world \<Rightarrow> user_row \<Rightarrow> bool" where
  "account_outcome e w u \<longleftrightarrow>
     covered_now e w None (us_id u)
     \<or> us_vacation u \<and> \<not> (us_org u \<noteq> [] \<and> recently_ended e w None (us_id u))"

definition membership_outcome :: "env \<Rightarrow> world \<Rightarrow> member_row \<Rightarrow> bool option" where
  "membership_outcome e w m =
     (if covered_now e w (Some (gm_group m)) (gm_user m)
      then (if gm_vacation m = Some False then Some True else gm_vacation m)
      else if gm_vacation m = Some True \<and> recently_ended e w (Some (gm_group m)) (gm_user m) then None
      else gm_vacation m)"

text \<open>
  (C34) One tick sets the account flag of every user from organisation-level requests alone and
  the flag of every membership from the requests of its own group alone: a covered account is
  on, one whose range has just ended is off again, an explicit membership override is raised
  while covered and goes back to inheriting after the end, and everything else is as before.
\<close>

theorem vacation_sweep_outcome:
  assumes "distinct (map us_id (w_users w))"
    and "distinct (map (\<lambda>m. (gm_group m, gm_user m)) (db_members (w_db w)))"
  shows "map us_vacation (w_users (vacation_sweep e w)) = map (account_outcome e w) (w_users w)
     \<and> map gm_vacation (db_members (w_db (vacation_sweep e w))) = map (membership_outcome e w) (db_members (w_db w))"
proof
  have one: "flagged_user w (us_id u) = us_vacation u" if "u \<in> set (w_users w)" for u
  proof -
    have "v = u" if "v \<in> set (w_users w)" "us_id v = us_id u" for v
      using assms(1) that \<open>u \<in> set (w_users w)\<close> by (auto simp: distinct_map dest: inj_onD)
    then show ?thesis using that unfolding flagged_user_def by blast
  qed
  have org: "(\<exists>v\<in>set (w_users w). us_id v = us_id u \<and> us_vacation v \<and> us_org v \<noteq> []) \<longleftrightarrow> us_vacation u \<and> us_org u \<noteq> []"
    if "u \<in> set (w_users w)" for u
  proof -
    have "v = u" if "v \<in> set (w_users w)" "us_id v = us_id u" for v
      using assms(1) that \<open>u \<in> set (w_users w)\<close> by (auto simp: distinct_map dest: inj_onD)
    then show ?thesis using that by blast
  qed
  show "map us_vacation (w_users (vacation_sweep e w)) = map (account_outcome e w) (w_users w)"
    unfolding vacation_sweep_tables map_map
    by (rule map_cong [OF refl])
      (auto simp: sweep_user_def to_activate_def to_resume_def one org account_outcome_def)
  have pair: "flagged_member w (gm_user m) (gm_group m) \<longleftrightarrow> gm_vacation m = Some True" if "m \<in> set (db_members (w_db w))" for m
  proof -
    have "x = m" if "x \<in> set (db_members (w_db w))" "gm_user x = gm_user m" "gm_group x = gm_group m" for x
      using assms(2) that \<open>m \<in> set (db_members (w_db w))\<close> by (auto simp: distinct_map dest: inj_onD)
    then show ?thesis using that unfolding flagged_member_def by blast
  qed
  show "map gm_vacation (db_members (w_db (vacation_sweep e w))) = map (membership_outcome e w) (db_members (w_db w))"
    unfolding vacation_sweep_tables map_map
    by (rule map_cong [OF refl])
      (auto simp: sweep_member_def member_activate_def member_resume_def pair membership_outcome_def)
qed

definition ex_vacation :: vacation_row where
  "ex_vacation = \<lparr>vr_group = None, vr_start = day_of ''2026-07-10'', vr_end = day_of ''2026-07-12'', vr_start_slot = None,
     vr_end_slot = None, vr_id = ''v1'', vr_org = ''o'', vr_user = ''u'', vr_status = VacApproved, vr_reviewed_by = None,
     vr_review_note = None, vr_deleted = False\<rparr>"

definition ex_vacation_world :: world where
  "ex_vacation_world = ex_world\<lparr>w_vacations := [ex_vacation]\<rparr>"

theorem vacation_sweep_outcome_witness:
  "map us_vacation (w_users ex_vacation_world) = [False]
   \<and> map us_vacation (w_users (vacation_sweep ex_env ex_vacation_world)) = [True]"
proof -
  have "map (account_outcome ex_env ex_vacation_world) (w_users ex_vacation_world) = [True]" by code_simp
  moreover have "map us_vacation (w_users ex_vacation_world) = [False]"
    by (simp add: ex_vacation_world_def ex_world_def)
  ultimately show ?thesis
    using vacation_sweep_outcome [of ex_vacation_world ex_env] by (simp add: ex_vacation_world_def ex_world_def)
qed

text \<open>
  A membership that inherits is never raised: a group vacation that was approved before its
  first day does not reach the flag of its own group.
\<close>

lemma inheriting_membership_never_raised:
  "gm_vacation m = None \<Longrightarrow> sweep_member e w m = m"
  by (simp add: sweep_member_def)

end
