(* ===== verification/Accounts.thy ===== *)
theory Accounts
  imports Preferences Js_Date
begin

text \<open>
  Accounts and sign-up: phone numbers (\<open>src/src/common/utils/phone.util.ts\<close>), the account
  lookups and writes of \<open>src/src/features/users/repositories/users.repository.ts\<close>, one-time
  codes (\<open>src/src/features/auth/repositories/auth.repository.ts\<close>) and the sign-up operations
  of \<open>src/src/features/auth/auth.service.ts\<close>.  Mail, SMS, audit entries and the address a
  request comes from are left out.
\<close>

section \<open>Phone numbers\<close>

definition phone_filler :: "char \<Rightarrow> bool" where
  "phone_filler c \<longleftrightarrow> is_space c \<or> c \<in> set ''-().''"

definition all_digits :: "string \<Rightarrow> bool" where
  "all_digits s \<longleftrightarrow> s \<noteq> [] \<and> list_all (\<lambda>c. digit_val c \<noteq> None) s"

definition mobile_lead :: "char \<Rightarrow> bool" where
  "mobile_lead c \<longleftrightarrow> c \<in> set ''6789''"

text \<open>A cleaned number without the prefix of the country or the trunk.\<close>

definition national_number :: "string \<Rightarrow> string" where
  "national_number cleaned =
     (let digits = (if hd cleaned = CHR ''+'' then tl cleaned else cleaned)
      in if \<not> all_digits digits then cleaned
         else if length digits = 12 \<and> take 2 digits = ''91'' \<and> mobile_lead (digits ! 2) then drop 2 digits
         else if length digits = 11 \<and> hd digits = CHR ''0'' \<and> mobile_lead (digits ! 1) then drop 1 digits
         else if hd cleaned = CHR ''+'' then cleaned else digits)"

definition normalize_phone :: "string option \<Rightarrow> string option" where
  "normalize_phone raw =
     (case raw of None \<Rightarrow> None
      | Some r \<Rightarrow>
          let cleaned = filter (\<lambda>c. \<not> phone_filler c) r
          in if cleaned = [] then None else Some (national_number cleaned))"

text \<open>The stored spellings of one number that a lookup accepts.\<close>

definition phone_variants :: "string \<Rightarrow> string list" where
  "phone_variants phone =
     (let p = js_trim phone
      in if length p = 10 \<and> mobile_lead (hd p) \<and> all_digits p
         then [p, ''+91'' @ p, ''91'' @ p, ''0'' @ p] else [p])"

definition normalize_email :: "string option \<Rightarrow> string option" where
  "normalize_email e = (if truthy e then Some (js_lower (js_trim (the e))) else e)"

definition is_email_identifier :: "string \<Rightarrow> bool" where
  "is_email_identifier i \<longleftrightarrow> CHR ''@'' \<in> set i"

definition normalize_identifier :: "string \<Rightarrow> string" where
  "normalize_identifier i =
     (let t = js_trim i
      in if is_email_identifier t then js_lower t else nullish (normalize_phone (Some t)) t)"

section \<open>Rows\<close>

record account =
  ac_id :: ident
  ac_org :: "ident option"
  ac_name :: string
  ac_email :: "string option"
  ac_phone :: "string option"
  ac_password :: "string option"
  ac_role :: string
  ac_gender :: "string option"
  ac_age :: "int option"
  ac_avatar :: "string option"
  ac_vacation :: bool
  ac_default :: bool
  ac_reminders :: bool
  ac_login_pref :: "string option"
  ac_fcm :: "string option"
  ac_verified :: "int option"
  ac_active :: bool
  ac_last_login :: "int option"

record refresh_row =
  tk_id :: ident
  tk_user :: ident
  tk_hash :: string
  tk_family :: ident
  tk_expires :: int
  tk_revoked :: bool
  tk_created :: int
  tk_used :: "int option"
  tk_replaced_by :: "ident option"

record otp_row =
  ot_id :: ident
  ot_user :: "ident option"
  ot_identifier :: string
  ot_hash :: string
  ot_purpose :: string
  ot_expires :: int
  ot_used :: bool
  ot_attempts :: int

record org_row =
  og_id :: ident
  og_name :: string
  og_slug :: string
  og_timezone :: string

record event_row =
  ev_id :: ident
  ev_org :: ident
  ev_admin :: ident
  ev_name :: string
  ev_type :: string
  ev_date :: int
  ev_expected :: int
  ev_auto_delete :: bool
  ev_auto_delete_at :: "int option"

text \<open>
  \<open>ad_keys\<close> is the part of Redis the sessions use: a key with the instant it expires at.
\<close>

record auth_db =
  ad_accounts :: "account list"
  ad_orgs :: "org_row list"
  ad_tokens :: "refresh_row list"
  ad_otps :: "otp_row list"
  ad_events :: "event_row list"
  ad_keys :: "string \<rightharpoonup> int"

section \<open>What a call reads\<close>

text \<open>
  The libraries: JWT signing and decoding under the refresh secret (\<open>decode\<close> checks the
  signature), the access token, SHA-256 and bcrypt with its salt.
\<close>

record jwt =
  jw_sub :: ident
  jw_org :: "ident option"
  jw_role :: string
  jw_family :: ident
  jw_jti :: ident
  jw_exp :: int

record crypto =
  cy_sign :: "jwt \<Rightarrow> string"
  cy_decode :: "string \<Rightarrow> jwt option"
  cy_access :: "ident \<Rightarrow> ident option \<Rightarrow> string \<Rightarrow> int \<Rightarrow> string"
  cy_sha :: "string \<Rightarrow> string"
  cy_hash :: "string \<Rightarrow> string \<Rightarrow> string"
  cy_compare :: "string \<Rightarrow> string \<Rightarrow> bool"

text \<open>The instant, whether Redis answers, fresh ids, the salt and \<open>randomInt\<close>.\<close>

record auth_env =
  ae_now :: int
  ae_redis :: bool
  ae_id :: "nat \<Rightarrow> ident"
  ae_salt :: string
  ae_draw :: "int \<Rightarrow> int"

record auth_config =
  au_otp_ttl :: int
  au_otp_length :: int
  au_otp_attempts :: int
  au_reset_kills :: bool
  au_mobile_otp :: bool
  au_grace :: int
  au_access_ttl :: int
  au_refresh_ttl :: int
  au_dev :: bool

text \<open>An operation that may throw after it has written: the result and the tables it leaves.\<close>

type_synonym ('a, 's) act = "(exn + 'a) \<times> 's"

definition andthen :: "('a, 's) act \<Rightarrow> ('a \<Rightarrow> 's \<Rightarrow> ('b, 's) act) \<Rightarrow> ('b, 's) act" where
  "andthen r f = (case r of (Inl x, s) \<Rightarrow> (Inl x, s) | (Inr a, s) \<Rightarrow> f a s)"

section \<open>Accounts\<close>

definition find_account :: "'a auth_db_scheme \<Rightarrow> ident \<Rightarrow> account option" where
  "find_account s i = find (\<lambda>a. ac_id a = i) (ad_accounts s)"

definition email_is :: "string \<Rightarrow> account \<Rightarrow> bool" where
  "email_is e a \<longleftrightarrow> (case ac_email a of None \<Rightarrow> False | Some x \<Rightarrow> js_lower x = js_lower (js_trim e))"

definition phone_is :: "string \<Rightarrow> account \<Rightarrow> bool" where
  "phone_is p a \<longleftrightarrow> (case ac_phone a of None \<Rightarrow> False | Some x \<Rightarrow> x \<in> set (phone_variants p))"

definition find_by_email :: "'a auth_db_scheme \<Rightarrow> string \<Rightarrow> account option" where
  "find_by_email s e = find (email_is e) (ad_accounts s)"

definition find_by_phone :: "'a auth_db_scheme \<Rightarrow> string \<Rightarrow> account option" where
  "find_by_phone s p = find (phone_is p) (ad_accounts s)"

definition find_by_identifier :: "'a auth_db_scheme \<Rightarrow> string \<Rightarrow> account option" where
  "find_by_identifier s i = (if is_email_identifier i then find_by_email s i else find_by_phone s i)"

text \<open>
  The unique constraints \<open>(organizationId, email)\<close> and \<open>(organizationId, phone)\<close>; a null in
  one of the columns satisfies them.  The role column is an enum.
\<close>

definition clashes :: "account \<Rightarrow> account \<Rightarrow> bool" where
  "clashes a b \<longleftrightarrow> ac_org a \<noteq> None \<and> ac_org a = ac_org b
     \<and> (ac_email a \<noteq> None \<and> ac_email a = ac_email b \<or> ac_phone a \<noteq> None \<and> ac_phone a = ac_phone b)"

definition user_roles :: "string list" where
  "user_roles = [''student'', ''member'', ''guest'', ''messManager'', ''hostelManager'', ''hostelAdmin'',
     ''organizationManager'', ''eventAdmin'', ''eventGuest'']"

definition insert_account :: "account \<Rightarrow> 'a auth_db_scheme \<Rightarrow> (account, 'a auth_db_scheme) act" where
  "insert_account a s =
     (let b = a\<lparr>ac_email := normalize_email (ac_email a)\<rparr>
      in if ac_role b \<notin> set user_roles then (Inl (Internal ''PrismaClientValidationError''), s)
         else if \<exists>c\<in>set (ad_accounts s). clashes b c then (Inl (Conflict ''P2002''), s)
         else (Inr b, s\<lparr>ad_accounts := ad_accounts s @ [b]\<rparr>))"

definition new_account :: "ident \<Rightarrow> account" where
  "new_account i =
     \<lparr>ac_id = i, ac_org = None, ac_name = [], ac_email = None, ac_phone = None, ac_password = None,
      ac_role = ''student'', ac_gender = None, ac_age = None, ac_avatar = None, ac_vacation = False,
      ac_default = False, ac_reminders = True, ac_login_pref = Some ''email'', ac_fcm = None,
      ac_verified = None, ac_active = True, ac_last_login = None\<rparr>"

definition set_account :: "ident \<Rightarrow> (account \<Rightarrow> account) \<Rightarrow> 'a auth_db_scheme \<Rightarrow> 'a auth_db_scheme" where
  "set_account i f s = s\<lparr>ad_accounts := map (\<lambda>a. if ac_id a = i then f a else a) (ad_accounts s)\<rparr>"

definition claim_fcm_token :: "ident \<Rightarrow> string \<Rightarrow> 'a auth_db_scheme \<Rightarrow> 'a auth_db_scheme" where
  "claim_fcm_token user token s =
     s\<lparr>ad_accounts := map (\<lambda>a. if ac_id a = user then a\<lparr>ac_fcm := Some token\<rparr>
        else if ac_fcm a = Some token then a\<lparr>ac_fcm := None\<rparr> else a) (ad_accounts s)\<rparr>"

section \<open>One-time codes\<close>

definition otp_lower :: "int \<Rightarrow> int" where
  "otp_lower len = 10 ^ nat (len - 1)"

definition otp_len :: "int \<Rightarrow> int" where
  "otp_len len = max 4 (min 10 (if len = 0 then 6 else len))"

text \<open>\<open>min + randomInt (10 ** len - min)\<close>, printed in decimal.\<close>

fun decimal_digits :: "nat \<Rightarrow> int \<Rightarrow> string" where
  "decimal_digits 0 n = []"
| "decimal_digits (Suc k) n = decimal_digits k (n div 10) @ [digit_char n]"

definition generate_otp :: "auth_env \<Rightarrow> int \<Rightarrow> string" where
  "generate_otp e len =
     (let k = otp_len len; lo = otp_lower k; span = 10 ^ nat k - lo
      in decimal_digits (nat k) (lo + ae_draw e span))"

definition create_otp_request ::
  "auth_env \<Rightarrow> string \<Rightarrow> string \<Rightarrow> string \<Rightarrow> int \<Rightarrow> ident option \<Rightarrow> 'a auth_db_scheme \<Rightarrow> 'a auth_db_scheme" where
  "create_otp_request e identifier hash purpose expires user s =
     s\<lparr>ad_otps := map (\<lambda>q. if ot_identifier q = identifier \<and> ot_purpose q = purpose \<and> \<not> ot_used q
                            then q\<lparr>ot_used := True\<rparr> else q) (ad_otps s)
        @ [\<lparr>ot_id = ae_id e 3, ot_user = user, ot_identifier = identifier, ot_hash = hash, ot_purpose = purpose,
            ot_expires = expires, ot_used = False, ot_attempts = 0\<rparr>]\<rparr>"

text \<open>Newest first: the rows are kept in the order they were created in.\<close>

definition find_valid_otp :: "auth_env \<Rightarrow> string \<Rightarrow> string \<Rightarrow> int \<Rightarrow> 'a auth_db_scheme \<Rightarrow> otp_row option" where
  "find_valid_otp e identifier purpose max_attempts s =
     find (\<lambda>q. ot_identifier q = identifier \<and> ot_purpose q = purpose \<and> \<not> ot_used q
             \<and> ae_now e < ot_expires q \<and> ot_attempts q < max_attempts) (rev (ad_otps s))"

definition set_otp :: "ident \<Rightarrow> (otp_row \<Rightarrow> otp_row) \<Rightarrow> 'a auth_db_scheme \<Rightarrow> 'a auth_db_scheme" where
  "set_otp i f s = s\<lparr>ad_otps := map (\<lambda>q. if ot_id q = i then f q else q) (ad_otps s)\<rparr>"

definition mark_otp_used :: "ident \<Rightarrow> 'a auth_db_scheme \<Rightarrow> 'a auth_db_scheme" where
  "mark_otp_used i = set_otp i (\<lambda>q. q\<lparr>ot_used := True\<rparr>)"

definition increment_otp_attempts :: "ident \<Rightarrow> 'a auth_db_scheme \<Rightarrow> 'a auth_db_scheme" where
  "increment_otp_attempts i = set_otp i (\<lambda>q. q\<lparr>ot_attempts := ot_attempts q + 1\<rparr>)"

definition send_signup_verification ::
  "auth_config \<Rightarrow> crypto \<Rightarrow> auth_env \<Rightarrow> string option \<Rightarrow> ident \<Rightarrow> 'a auth_db_scheme \<Rightarrow> 'a auth_db_scheme" where
  "send_signup_verification cf cy e email user s =
     (if \<not> truthy email then s
      else create_otp_request e (the email) (cy_hash cy (ae_salt e) (generate_otp e (au_otp_length cf))) ''signup''
             (ae_now e + au_otp_ttl cf * 1000) (Some user) s)"

section \<open>Token pairs\<close>

record session =
  se_access :: string
  se_refresh :: string
  se_expires :: int
  se_user :: account

definition set_token :: "ident \<Rightarrow> (refresh_row \<Rightarrow> refresh_row) \<Rightarrow> 'a auth_db_scheme \<Rightarrow> 'a auth_db_scheme" where
  "set_token i f s = s\<lparr>ad_tokens := map (\<lambda>t. if tk_id t = i then f t else t) (ad_tokens s)\<rparr>"

definition mark_rotated :: "auth_env \<Rightarrow> ident \<Rightarrow> ident \<Rightarrow> 'a auth_db_scheme \<Rightarrow> 'a auth_db_scheme" where
  "mark_rotated e i successor =
     set_token i (\<lambda>t. t\<lparr>tk_revoked := True, tk_used := Some (ae_now e), tk_replaced_by := Some successor\<rparr>)"

definition jwt_for :: "auth_config \<Rightarrow> auth_env \<Rightarrow> account \<Rightarrow> ident \<Rightarrow> jwt" where
  "jwt_for cf e u family =
     \<lparr>jw_sub = ac_id u, jw_org = ac_org u, jw_role = ac_role u, jw_family = family, jw_jti = ae_id e 5,
      jw_exp = ae_now e div 1000 + au_refresh_ttl cf\<rparr>"

text \<open>
  \<open>sadd\<close> of the family set is the one Redis call that is not wrapped: it throws after the
  token row has been written.  Nothing reads the set.
\<close>

definition issue_tokens ::
  "auth_config \<Rightarrow> crypto \<Rightarrow> auth_env \<Rightarrow> account \<Rightarrow> ident option \<Rightarrow> ident option
     \<Rightarrow> 'a auth_db_scheme \<Rightarrow> (session, 'a auth_db_scheme) act" where
  "issue_tokens cf cy e u existing rotated s =
     (let family = nullish existing (ae_id e 4);
          raw = cy_sign cy (jwt_for cf e u family);
          row = \<lparr>tk_id = ae_id e 6, tk_user = ac_id u, tk_hash = cy_sha cy raw, tk_family = family,
                 tk_expires = ae_now e + au_refresh_ttl cf * 1000, tk_revoked = False, tk_created = ae_now e,
                 tk_used = None, tk_replaced_by = None\<rparr>
      in if \<exists>t\<in>set (ad_tokens s). tk_hash t = tk_hash row \<or> tk_id t = tk_id row
         then (Inl (Conflict ''P2002''), s)
         else let s1 = s\<lparr>ad_tokens := ad_tokens s @ [row]\<rparr>;
                  s2 = (case rotated of None \<Rightarrow> s1 | Some r \<Rightarrow> mark_rotated e r (tk_id row) s1)
              in if \<not> ae_redis e then (Inl (Internal ''Redis unavailable''), s2)
                 else (Inr \<lparr>se_access = cy_access cy (ac_id u) (ac_org u) (ac_role u) (ae_now e),
                            se_refresh = raw, se_expires = au_access_ttl cf, se_user = u\<rparr>, s2))"

section \<open>Signing up\<close>

record signup_dto =
  sg_name :: string
  sg_role :: "string option"
  sg_email :: "string option"
  sg_phone :: "string option"
  sg_mobile :: "string option"
  sg_password :: "string option"
  sg_gender :: "string option"
  sg_age :: "int option"
  sg_login_pref :: "string option"
  sg_org_name :: "string option"
  sg_org_slug :: "string option"
  sg_event_name :: string
  sg_event_type :: string
  sg_event_date :: int
  sg_expected :: "int option"
  sg_auto_delete :: "bool option"

definition auth_admin_roles :: "string list" where
  "auth_admin_roles = [''messManager'', ''hostelManager'', ''hostelAdmin'', ''organizationManager'']"

definition context_for_role :: "string \<Rightarrow> string" where
  "context_for_role role =
     (if role \<in> set auth_admin_roles then ''admin''
      else if role \<in> set [''eventAdmin'', ''eventGuest''] then ''event'' else ''student'')"

definition check_identifiers :: "string option \<Rightarrow> string option \<Rightarrow> 'a auth_db_scheme \<Rightarrow> exn + unit" where
  "check_identifiers email phone s =
     (if truthy email \<and> find_by_email s (the email) \<noteq> None
      then Inl (Conflict (''email: '' @ context_for_role (ac_role (the (find_by_email s (the email))))))
      else if truthy phone \<and> find_by_phone s (the phone) \<noteq> None
      then Inl (Conflict (''mobileNumber: '' @ context_for_role (ac_role (the (find_by_phone s (the phone))))))
      else Inr ())"

text \<open>What the three sign-ups share: the column values they all write.\<close>

definition signup_row :: "auth_env \<Rightarrow> crypto \<Rightarrow> signup_dto \<Rightarrow> account" where
  "signup_row e cy dto =
     (new_account (ae_id e 0))\<lparr>ac_name := sg_name dto, ac_email := sg_email dto,
        ac_phone := normalize_phone (sg_phone dto),
        ac_password := Some (cy_hash cy (ae_salt e) (the (sg_password dto)))\<rparr>"

definition default_login_pref :: "signup_dto \<Rightarrow> string option" where
  "default_login_pref dto = Some (if truthy (sg_email dto) then ''email'' else ''mobile'')"

definition finish_signup ::
  "auth_config \<Rightarrow> crypto \<Rightarrow> auth_env \<Rightarrow> account \<Rightarrow> 'a auth_db_scheme \<Rightarrow> (session, 'a auth_db_scheme) act" where
  "finish_signup cf cy e u s =
     issue_tokens cf cy e u None None (send_signup_verification cf cy e (ac_email u) (ac_id u) s)"

definition signup_student ::
  "auth_config \<Rightarrow> crypto \<Rightarrow> auth_env \<Rightarrow> signup_dto \<Rightarrow> 'a auth_db_scheme \<Rightarrow> (session, 'a auth_db_scheme) act" where
  "signup_student cf cy e dto s =
     (if \<not> truthy (sg_email dto) \<and> \<not> truthy (sg_phone dto) then (Inl (BadRequest ''identifier''), s)
      else if \<not> truthy (sg_password dto) then (Inl (BadRequest ''password''), s)
      else case check_identifiers (sg_email dto) (normalize_phone (sg_phone dto)) s of
        Inl x \<Rightarrow> (Inl x, s)
      | Inr _ \<Rightarrow>
          andthen (insert_account ((signup_row e cy dto)\<lparr>ac_role := nullish (sg_role dto) ''student'',
              ac_gender := sg_gender dto, ac_age := sg_age dto,
              ac_login_pref := nullish_opt (sg_login_pref dto) (default_login_pref dto)\<rparr>) s)
            (finish_signup cf cy e))"

text \<open>\<open>findUnique\<close> by slug; the name of an organisation becomes its slug.\<close>

definition slug_exists :: "string \<Rightarrow> 'a auth_db_scheme \<Rightarrow> bool" where
  "slug_exists slug s \<longleftrightarrow> (\<exists>g\<in>set (ad_orgs s). og_slug g = slug)"

fun collapse_spaces :: "bool \<Rightarrow> string \<Rightarrow> string" where
  "collapse_spaces in_run [] = []"
| "collapse_spaces in_run (c # cs) =
     (if is_space c then (if in_run then [] else [CHR ''-'']) @ collapse_spaces True cs
      else c # collapse_spaces False cs)"

definition slug_char :: "char \<Rightarrow> bool" where
  "slug_char c \<longleftrightarrow> (let n = (of_char c :: nat) in 97 \<le> n \<and> n \<le> 122) \<or> digit_val c \<noteq> None \<or> c = CHR ''-''"

fun collapse_dashes :: "bool \<Rightarrow> string \<Rightarrow> string" where
  "collapse_dashes in_run [] = []"
| "collapse_dashes in_run (c # cs) =
     (if c = CHR ''-'' then (if in_run then [] else [c]) @ collapse_dashes True cs
      else c # collapse_dashes False cs)"

definition trim_dashes :: "string \<Rightarrow> string" where
  "trim_dashes s = rev (dropWhile (\<lambda>c. c = CHR ''-'') (rev (dropWhile (\<lambda>c. c = CHR ''-'') s)))"

definition slugify :: "string \<Rightarrow> string" where
  "slugify s = trim_dashes (collapse_dashes False (filter slug_char (collapse_spaces False (js_lower s))))"

definition admin_slug :: "signup_dto \<Rightarrow> string \<Rightarrow> string" where
  "admin_slug dto org_name =
     slugify (case sg_org_slug dto of None \<Rightarrow> org_name | Some v \<Rightarrow> if js_trim v = [] then org_name else js_trim v)"

text \<open>The slug column is unique; the violation is translated into the same 409.\<close>

definition create_organization :: "auth_env \<Rightarrow> string \<Rightarrow> string \<Rightarrow> 'a auth_db_scheme \<Rightarrow> (ident, 'a auth_db_scheme) act" where
  "create_organization e name slug s =
     (if slug_exists slug s then (Inl (Conflict ''P2002''), s)
      else (Inr (ae_id e 1),
            s\<lparr>ad_orgs := ad_orgs s @ [\<lparr>og_id = ae_id e 1, og_name = name, og_slug = slug,
                                       og_timezone = ''Asia/Kolkata''\<rparr>]\<rparr>))"

definition organization_gate :: "signup_dto \<Rightarrow> 'a auth_db_scheme \<Rightarrow> exn + string \<times> string" where
  "organization_gate dto s =
     (let name = js_trim (nullish (sg_org_name dto) [])
      in if name = [] then Inl (BadRequest ''Organization name is required'')
         else if length name < 2 \<or> 30 < length name then Inl (BadRequest ''Use 2-30 characters'')
         else let slug = admin_slug dto name
              in if slug = [] then Inl (BadRequest ''Enter a valid organization name'')
                 else if slug_exists slug s then Inl (Conflict ''organizationName'')
                 else Inr (name, slug))"

definition signup_admin ::
  "auth_config \<Rightarrow> crypto \<Rightarrow> auth_env \<Rightarrow> signup_dto \<Rightarrow> 'a auth_db_scheme \<Rightarrow> (session, 'a auth_db_scheme) act" where
  "signup_admin cf cy e dto s =
     (if \<not> truthy (sg_email dto) \<and> \<not> truthy (sg_phone dto) then (Inl (BadRequest ''identifier''), s)
      else case check_identifiers (sg_email dto) (normalize_phone (sg_phone dto)) s of
        Inl x \<Rightarrow> (Inl x, s)
      | Inr _ \<Rightarrow>
          if sg_password dto = None then (Inl (Internal ''bcrypt''), s)
          else case organization_gate dto s of
            Inl x \<Rightarrow> (Inl x, s)
          | Inr (name, slug) \<Rightarrow>
              andthen (create_organization e name slug s) (\<lambda>org s1.
              andthen (insert_account ((signup_row e cy dto)\<lparr>ac_role := nullish (sg_role dto) ''student'',
                  ac_org := Some org, ac_gender := sg_gender dto, ac_age := sg_age dto,
                  ac_login_pref := nullish_opt (sg_login_pref dto) (default_login_pref dto)\<rparr>) s1)
                (finish_signup cf cy e)))"

text \<open>The slug of an event organisation is a ULID of its own.\<close>

definition signup_event_admin ::
  "auth_config \<Rightarrow> crypto \<Rightarrow> auth_env \<Rightarrow> signup_dto \<Rightarrow> 'a auth_db_scheme \<Rightarrow> (session, 'a auth_db_scheme) act" where
  "signup_event_admin cf cy e dto s =
     (if \<not> truthy (sg_email dto) \<and> \<not> truthy (sg_phone dto) then (Inl (BadRequest ''identifier''), s)
      else case check_identifiers (sg_email dto) (normalize_phone (sg_phone dto)) s of
        Inl x \<Rightarrow> (Inl x, s)
      | Inr _ \<Rightarrow>
          if sg_password dto = None then (Inl (Internal ''bcrypt''), s)
          else andthen (create_organization e (sg_event_name dto) (''event-'' @ js_lower (ae_id e 7)) s) (\<lambda>org s1.
               andthen (insert_account ((signup_row e cy dto)\<lparr>ac_role := ''eventAdmin'', ac_org := Some org,
                   ac_login_pref := default_login_pref dto\<rparr>) s1) (\<lambda>u s2.
                 finish_signup cf cy e u
                   (s2\<lparr>ad_events := ad_events s2 @
                      [\<lparr>ev_id = ae_id e 2, ev_org = org, ev_admin = ac_id u, ev_name = sg_event_name dto,
                        ev_type = sg_event_type dto, ev_date = sg_event_date dto,
                        ev_expected = nullish (sg_expected dto) 0,
                        ev_auto_delete = nullish (sg_auto_delete dto) False,
                        ev_auto_delete_at =
                          (if sg_auto_delete dto = Some True then Some (sg_event_date dto + 7 * day_ms) else None)\<rparr>]\<rparr>))))"

text \<open>
  \<open>POST /auth/signup\<close> and \<open>/auth/register\<close> take the raw body: the request class is chosen by
  the role and none of its validators runs.
\<close>

definition dispatch_signup ::
  "auth_config \<Rightarrow> crypto \<Rightarrow> auth_env \<Rightarrow> signup_dto \<Rightarrow> 'a auth_db_scheme \<Rightarrow> (session, 'a auth_db_scheme) act" where
  "dispatch_signup cf cy e dto s =
     (if \<not> truthy (sg_email dto) \<and> \<not> truthy (sg_mobile dto) \<and> \<not> truthy (sg_phone dto)
      then (Inl (BadRequest ''email or mobile is required''), s)
      else let role = nullish (sg_role dto) ''student''
           in if role \<in> set auth_admin_roles then signup_admin cf cy e dto s
              else if role = ''eventAdmin'' then signup_event_admin cf cy e dto s
              else signup_student cf cy e dto s)"

section \<open>Laws of the numbers\<close>

lemma dropWhile_unspaced: "list_all (\<lambda>c. \<not> is_space c) s \<Longrightarrow> dropWhile is_space s = s"
  by (cases s) auto

lemma js_trim_unspaced: "list_all (\<lambda>c. \<not> is_space c) s \<Longrightarrow> js_trim s = s"
  by (simp add: js_trim_def dropWhile_unspaced list_all_rev)

lemma ascii_lower_idem [simp]: "ascii_lower (ascii_lower c) = ascii_lower c"
  by (auto simp: ascii_lower_def Let_def)

lemma js_lower_idem [simp]: "js_lower (js_lower s) = js_lower s"
  by (simp add: js_lower_def)

text \<open>A normalised number has no filler and stays as it is.\<close>

lemma national_number_subset: "c \<noteq> [] \<Longrightarrow> set (national_number c) \<subseteq> set c"
  by (auto simp: national_number_def Let_def dest!: in_set_dropD list.set_sel(2) [rotated])

lemma national_number_nonempty: "c \<noteq> [] \<Longrightarrow> national_number c \<noteq> []"
  by (auto simp: national_number_def Let_def)

lemma normalize_phone_clean: "normalize_phone raw = Some p \<Longrightarrow> p \<noteq> [] \<and> list_all (\<lambda>c. \<not> phone_filler c) p"
  using national_number_subset national_number_nonempty
  by (fastforce simp: normalize_phone_def Let_def list_all_iff split: option.splits if_splits)

end
