(* ===== verification/Sessions.thy ===== *)
theory Sessions
  imports Accounts
begin

text \<open>
  Sign-in and sessions (\<open>src/src/features/auth/auth.service.ts\<close>): password and one-time-code
  login, password reset, rotation of refresh tokens with its two rescues for lost responses,
  theft detection, and sign-out.
\<close>

section \<open>Families of tokens\<close>

definition revoked_key :: "ident \<Rightarrow> string" where
  "revoked_key family = ''revoked:family:'' @ family"

definition grace_key :: "string \<Rightarrow> string" where
  "grace_key hash = ''auth:refresh:grace:'' @ hash"

text \<open>Redis reads and writes swallow a failure: a key then does not exist and is not set.\<close>

definition redis_exists :: "auth_env \<Rightarrow> string \<Rightarrow> 'a auth_db_scheme \<Rightarrow> bool" where
  "redis_exists e k s \<longleftrightarrow>
     ae_redis e \<and> (case ad_keys s k of None \<Rightarrow> False | Some expiry \<Rightarrow> ae_now e < expiry)"

definition redis_set :: "auth_env \<Rightarrow> string \<Rightarrow> int \<Rightarrow> 'a auth_db_scheme \<Rightarrow> 'a auth_db_scheme" where
  "redis_set e k ttl s = (if ae_redis e then s\<lparr>ad_keys := (ad_keys s)(k \<mapsto> ae_now e + ttl * 1000)\<rparr> else s)"

definition family_ttl :: int where
  "family_ttl = 7 * 24 * 60 * 60"

definition is_family_revoked :: "auth_env \<Rightarrow> ident \<Rightarrow> 'a auth_db_scheme \<Rightarrow> bool" where
  "is_family_revoked e family s = redis_exists e (revoked_key family) s"

definition revoke_tokens :: "(refresh_row \<Rightarrow> bool) \<Rightarrow> 'a auth_db_scheme \<Rightarrow> 'a auth_db_scheme" where
  "revoke_tokens p s = s\<lparr>ad_tokens := map (\<lambda>t. if p t then t\<lparr>tk_revoked := True\<rparr> else t) (ad_tokens s)\<rparr>"

definition revoke_all_by_user :: "ident \<Rightarrow> 'a auth_db_scheme \<Rightarrow> 'a auth_db_scheme" where
  "revoke_all_by_user user = revoke_tokens (\<lambda>t. tk_user t = user)"

text \<open>\<open>revokeAllTokensByFamily\<close>, then \<open>revokeFamily\<close>.\<close>

definition kill_family :: "auth_env \<Rightarrow> ident \<Rightarrow> 'a auth_db_scheme \<Rightarrow> 'a auth_db_scheme" where
  "kill_family e family s =
     redis_set e (revoked_key family) family_ttl (revoke_tokens (\<lambda>t. tk_family t = family) s)"

definition find_token :: "(refresh_row \<Rightarrow> bool) \<Rightarrow> 'a auth_db_scheme \<Rightarrow> refresh_row option" where
  "find_token p s = find p (ad_tokens s)"

text \<open>\<open>jwt.verify\<close>: the signature, then the expiry in whole seconds.\<close>

definition verify_refresh :: "crypto \<Rightarrow> auth_env \<Rightarrow> string \<Rightarrow> jwt option" where
  "verify_refresh cy e raw =
     (case cy_decode cy raw of None \<Rightarrow> None
      | Some p \<Rightarrow> if jw_exp p \<le> ae_now e div 1000 then None else Some p)"

section \<open>Rotation\<close>

definition security_alert :: exn where
  "security_alert = Unauthorized ''Security alert: session invalidated''"

definition session_expired :: exn where
  "session_expired = Unauthorized ''Session expired''"

text \<open>\<open>findById\<close> with the check every branch makes before it issues a pair.\<close>

definition with_active_user ::
  "ident \<Rightarrow> (account \<Rightarrow> (session, 'a auth_db_scheme) act) \<Rightarrow> 'a auth_db_scheme \<Rightarrow> (session, 'a auth_db_scheme) act" where
  "with_active_user user f s =
     (case find_account s user of
        None \<Rightarrow> (Inl (Unauthorized ''Account not found or deactivated''), s)
      | Some u \<Rightarrow> if ac_active u then f u else (Inl (Unauthorized ''Account not found or deactivated''), s))"

text \<open>The successor of a rotated token that no client has ever presented.\<close>

definition undelivered_successor :: "auth_env \<Rightarrow> refresh_row \<Rightarrow> 'a auth_db_scheme \<Rightarrow> refresh_row option" where
  "undelivered_successor e t s =
     (if truthy (tk_replaced_by t) \<and> ae_now e \<le> tk_expires t
      then (case find_token (\<lambda>n. tk_id n = the (tk_replaced_by t)) s of
              None \<Rightarrow> None
            | Some n \<Rightarrow> if tk_used n = None \<and> \<not> tk_revoked n then Some n else None)
      else None)"

definition refresh_tokens ::
  "auth_config \<Rightarrow> crypto \<Rightarrow> auth_env \<Rightarrow> string \<Rightarrow> 'a auth_db_scheme \<Rightarrow> (session, 'a auth_db_scheme) act" where
  "refresh_tokens cf cy e raw s =
     (case verify_refresh cy e raw of
        None \<Rightarrow> (Inl (Unauthorized ''Invalid refresh token''), s)
      | Some p \<Rightarrow>
          let user = jw_sub p; family = jw_family p; h = cy_sha cy raw
          in if is_family_revoked e family s then (Inl session_expired, s)
             else
               let rec' = find_token (\<lambda>t. tk_hash t = h) s;
                   grace = redis_exists e (grace_key h) s
               in if (rec' = None \<or> tk_revoked (the rec')) \<and> grace
                  then with_active_user user
                         (\<lambda>u. issue_tokens cf cy e u (Some family) (map_option tk_id rec') s) s
                  else (case rec' of
                    None \<Rightarrow> (Inl security_alert, kill_family e family s)
                  | Some t \<Rightarrow>
                      if tk_revoked t then
                        (case undelivered_successor e t s of
                           None \<Rightarrow> (Inl security_alert, kill_family e family s)
                         | Some n \<Rightarrow>
                             let s1 = set_token (tk_id n) (\<lambda>x. x\<lparr>tk_revoked := True\<rparr>) s
                             in with_active_user user
                                  (\<lambda>u. issue_tokens cf cy e u (Some family) (Some (tk_id t)) s1) s1)
                      else if tk_expires t < ae_now e then (Inl session_expired, s)
                      else
                        let s1 = (if 0 < au_grace cf then redis_set e (grace_key h) (au_grace cf) s else s)
                        in with_active_user user
                             (\<lambda>u. issue_tokens cf cy e u (Some family) (Some (tk_id t)) s1) s1))"

definition logout ::
  "crypto \<Rightarrow> auth_env \<Rightarrow> ident \<Rightarrow> string option \<Rightarrow> 'a auth_db_scheme \<Rightarrow> 'a auth_db_scheme" where
  "logout cy e user raw s =
     (if truthy raw then
        (case verify_refresh cy e (the raw) of
           None \<Rightarrow> revoke_all_by_user user s
         | Some p \<Rightarrow> if jw_family p \<noteq> [] then kill_family e (jw_family p) s else s)
      else revoke_all_by_user user s)"

section \<open>Signing in\<close>

definition invalid_credentials :: exn where
  "invalid_credentials = Unauthorized ''Invalid email/mobile or password''"

definition login ::
  "auth_config \<Rightarrow> crypto \<Rightarrow> auth_env \<Rightarrow> string \<Rightarrow> string option \<Rightarrow> 'a auth_db_scheme
     \<Rightarrow> (session, 'a auth_db_scheme) act" where
  "login cf cy e identifier password s =
     (let i = normalize_identifier identifier
      in if \<not> truthy password then (Inl (BadRequest ''password''), s)
         else case find_by_identifier s i of
           None \<Rightarrow> (Inl invalid_credentials, s)
         | Some u \<Rightarrow>
             if \<not> ac_active u then (Inl (Unauthorized ''Account deactivated''), s)
             else case Option.bind (find_account s (ac_id u)) ac_password of
               None \<Rightarrow> (Inl invalid_credentials, s)
             | Some h \<Rightarrow>
                 if h = [] \<or> \<not> cy_compare cy (the password) h then (Inl invalid_credentials, s)
                 else issue_tokens cf cy e u None None
                        (set_account (ac_id u) (\<lambda>a. a\<lparr>ac_last_login := Some (ae_now e)\<rparr>) s))"

section \<open>One-time codes\<close>

record otp_reply =
  or_message :: string
  or_expires :: int
  or_dev :: "string option"

definition reset_generic_message :: string where
  "reset_generic_message = ''If an account exists for this email, a reset code has been sent.''"

definition role_matches_context :: "string \<Rightarrow> string \<Rightarrow> bool" where
  "role_matches_context role ctx \<longleftrightarrow> context_for_role role = ctx"

definition request_otp ::
  "auth_config \<Rightarrow> crypto \<Rightarrow> auth_env \<Rightarrow> string \<Rightarrow> string option \<Rightarrow> string option \<Rightarrow> 'a auth_db_scheme
     \<Rightarrow> (otp_reply, 'a auth_db_scheme) act" where
  "request_otp cf cy e identifier purpose role_context s =
     (let i = normalize_identifier identifier; p = nullish purpose ''login''
      in if \<not> is_email_identifier i \<and> \<not> au_mobile_otp cf
         then (Inl (BadRequest ''Mobile OTP is coming soon''), s)
         else
           let otp = generate_otp e (au_otp_length cf); u = find_by_identifier s i
           in if p = ''reset''
                 \<and> \<not> (u \<noteq> None \<and> truthy role_context \<and> role_matches_context (ac_role (the u)) (the role_context))
              then (Inr \<lparr>or_message = reset_generic_message, or_expires = au_otp_ttl cf, or_dev = None\<rparr>, s)
              else (Inr \<lparr>or_message = (if p = ''reset'' then reset_generic_message else ''Code sent''),
                         or_expires = au_otp_ttl cf, or_dev = (if au_dev cf then Some otp else None)\<rparr>,
                    create_otp_request e i (cy_hash cy (ae_salt e) otp) p (ae_now e + au_otp_ttl cf * 1000)
                      (map_option ac_id u) s))"

text \<open>\<open>POST /auth/forgot-password\<close>.\<close>

definition forgot_password ::
  "auth_config \<Rightarrow> crypto \<Rightarrow> auth_env \<Rightarrow> string \<Rightarrow> string option \<Rightarrow> 'a auth_db_scheme
     \<Rightarrow> (otp_reply, 'a auth_db_scheme) act" where
  "forgot_password cf cy e identifier role_context = request_otp cf cy e identifier (Some ''reset'') role_context"

text \<open>The check both users of a code make: find the live row, compare, count a wrong guess.\<close>

definition consume_otp ::
  "auth_config \<Rightarrow> crypto \<Rightarrow> auth_env \<Rightarrow> string \<Rightarrow> string \<Rightarrow> string \<Rightarrow> 'a auth_db_scheme
     \<Rightarrow> (otp_row, 'a auth_db_scheme) act" where
  "consume_otp cf cy e identifier purpose otp s =
     (case find_valid_otp e identifier purpose (au_otp_attempts cf) s of
        None \<Rightarrow> (Inl (Unauthorized ''Invalid or expired OTP''), s)
      | Some r \<Rightarrow>
          if \<not> cy_compare cy otp (ot_hash r)
          then (Inl (Unauthorized ''Invalid OTP''), increment_otp_attempts (ot_id r) s)
          else (Inr r, mark_otp_used (ot_id r) s))"

definition verify_otp ::
  "auth_config \<Rightarrow> crypto \<Rightarrow> auth_env \<Rightarrow> string \<Rightarrow> string \<Rightarrow> string option \<Rightarrow> 'a auth_db_scheme
     \<Rightarrow> (session, 'a auth_db_scheme) act" where
  "verify_otp cf cy e identifier otp purpose s =
     (let i = normalize_identifier identifier; is_email = is_email_identifier i
      in andthen (consume_otp cf cy e i (nullish purpose ''login'') otp s) (\<lambda>_ s1.
         andthen (case find_by_identifier s1 i of
                    Some u \<Rightarrow> (Inr u, s1)
                  | None \<Rightarrow>
                      insert_account ((new_account (ae_id e 0))\<lparr>ac_name := ''User'',
                        ac_email := (if is_email then Some i else None),
                        ac_phone := (if is_email then None else Some i),
                        ac_login_pref := Some (if is_email then ''email'' else ''mobile'')\<rparr>) s1) (\<lambda>u s2.
         let fresh = (is_email \<and> ac_verified u = None);
             u' = (if fresh then u\<lparr>ac_verified := Some (ae_now e)\<rparr> else u);
             s3 = (if fresh then set_account (ac_id u) (\<lambda>a. a\<lparr>ac_verified := Some (ae_now e)\<rparr>) s2 else s2)
         in issue_tokens cf cy e u' None None
              (set_account (ac_id u) (\<lambda>a. a\<lparr>ac_last_login := Some (ae_now e)\<rparr>) s3))))"

definition reset_password ::
  "auth_config \<Rightarrow> crypto \<Rightarrow> auth_env \<Rightarrow> string \<Rightarrow> string \<Rightarrow> string \<Rightarrow> 'a auth_db_scheme
     \<Rightarrow> (unit, 'a auth_db_scheme) act" where
  "reset_password cf cy e identifier otp new_password s =
     (let i = normalize_identifier identifier
      in if \<not> is_email_identifier i then (Inl (BadRequest ''Password reset is available via email only.''), s)
         else andthen (consume_otp cf cy e i ''reset'' otp s) (\<lambda>_ s1.
           case find_by_identifier s1 i of
             None \<Rightarrow> (Inl (BadRequest ''reset''), s1)
           | Some u \<Rightarrow>
               let s2 = set_account (ac_id u) (\<lambda>a. a\<lparr>ac_password := Some (cy_hash cy (ae_salt e) new_password),
                          ac_verified := (if ac_verified u = None then Some (ae_now e) else ac_verified a)\<rparr>) s1
               in (Inr (), if au_reset_kills cf then revoke_all_by_user (ac_id u) s2 else s2)))"

section \<open>Cleaning up\<close>

text \<open>\<open>StaleTokenService.process\<close>; the cutoff is the day \<open>older_than\<close> days ago.\<close>

definition purge_stale_tokens :: "auth_env \<Rightarrow> int \<Rightarrow> 'a auth_db_scheme \<Rightarrow> 'a auth_db_scheme" where
  "purge_stale_tokens e cutoff s =
     s\<lparr>ad_tokens := filter (\<lambda>t. \<not> (tk_expires t < ae_now e \<or> tk_revoked t \<and> tk_created t < cutoff)) (ad_tokens s),
       ad_otps := filter (\<lambda>q. \<not> (ot_expires q < ae_now e \<and> ot_used q \<or> ot_expires q < cutoff)) (ad_otps s)\<rparr>"

end
