(* ===== verification/Session_Laws.thy ===== *)
theory Session_Laws
  imports Sessions
begin

text \<open>
  What a run of the authentication service keeps: a family of refresh tokens that was revoked
  for theft or by signing out never yields a session again, a one-time code opens at most once
  and survives a bounded number of guesses, and asking for a reset reveals nothing.
\<close>

section \<open>Runs\<close>

text \<open>The operations of the service and the job that purges its tables.\<close>

inductive auth_op :: "auth_config \<Rightarrow> crypto \<Rightarrow> auth_env \<Rightarrow> 'a auth_db_scheme \<Rightarrow> 'a auth_db_scheme \<Rightarrow> bool"
  for cf :: auth_config and cy :: crypto and e :: auth_env and s :: "'a auth_db_scheme" where
  signup: "auth_op cf cy e s (snd (dispatch_signup cf cy e dto s))"
| signup_student: "auth_op cf cy e s (snd (signup_student cf cy e dto s))"
| signup_admin: "auth_op cf cy e s (snd (signup_admin cf cy e dto s))"
| signup_event: "auth_op cf cy e s (snd (signup_event_admin cf cy e dto s))"
| login: "auth_op cf cy e s (snd (login cf cy e identifier password s))"
| request_otp: "auth_op cf cy e s (snd (request_otp cf cy e identifier purpose ctx s))"
| verify_otp: "auth_op cf cy e s (snd (verify_otp cf cy e identifier otp purpose s))"
| reset: "auth_op cf cy e s (snd (reset_password cf cy e identifier otp pw s))"
| refresh: "auth_op cf cy e s (snd (refresh_tokens cf cy e raw s))"
| logout: "auth_op cf cy e s (logout cy e user token s)"
| fcm: "auth_op cf cy e s (claim_fcm_token user device s)"
| stale: "auth_op cf cy e s (purge_stale_tokens e cutoff s)"

inductive_cases auth_opE: "auth_op cf cy e s s'"

text \<open>
  A run carries the clock and the identifiers drawn so far: time does not go back and
  \<open>cuid()\<close> and \<open>ulid()\<close> do not repeat.
\<close>

type_synonym 'a auth_world = "int \<times> ident set \<times> 'a auth_db_scheme"

inductive auth_step :: "auth_config \<Rightarrow> crypto \<Rightarrow> 'a auth_world \<Rightarrow> 'a auth_world \<Rightarrow> bool"
  for cf :: auth_config and cy :: crypto where
  call: "t \<le> ae_now e \<Longrightarrow> range (ae_id e) \<inter> U = {} \<Longrightarrow> auth_op cf cy e s s'
     \<Longrightarrow> auth_step cf cy (t, U, s) (ae_now e, U \<union> range (ae_id e), s')"

inductive_cases auth_stepE: "auth_step cf cy w w'"

section \<open>Frames\<close>

named_theorems auth_frames \<open>what a write leaves alone\<close>

lemma redis_set_frame [auth_frames]:
  "ad_tokens (redis_set e k n s) = ad_tokens s" "ad_otps (redis_set e k n s) = ad_otps s"
  "ad_accounts (redis_set e k n s) = ad_accounts s"
  by (simp_all add: redis_set_def)

lemma revoke_tokens_frame [auth_frames]:
  "ad_keys (revoke_tokens p s) = ad_keys s" "ad_otps (revoke_tokens p s) = ad_otps s"
  "ad_accounts (revoke_tokens p s) = ad_accounts s"
  by (simp_all add: revoke_tokens_def)

lemma set_token_frame [auth_frames]:
  "ad_keys (set_token i f s) = ad_keys s" "ad_otps (set_token i f s) = ad_otps s"
  "ad_accounts (set_token i f s) = ad_accounts s"
  by (simp_all add: set_token_def)

lemma mark_rotated_frame [auth_frames]:
  "ad_keys (mark_rotated e i n s) = ad_keys s" "ad_otps (mark_rotated e i n s) = ad_otps s"
  "ad_accounts (mark_rotated e i n s) = ad_accounts s"
  by (simp_all add: mark_rotated_def auth_frames)

lemma set_account_frame [auth_frames]:
  "ad_keys (set_account i f s) = ad_keys s" "ad_otps (set_account i f s) = ad_otps s"
  "ad_tokens (set_account i f s) = ad_tokens s"
  by (simp_all add: set_account_def)

lemma set_otp_frame [auth_frames]:
  "ad_keys (set_otp i g s) = ad_keys s" "ad_accounts (set_otp i g s) = ad_accounts s"
  "ad_tokens (set_otp i g s) = ad_tokens s"
  by (simp_all add: set_otp_def)

lemma otp_writes_frame [auth_frames]:
  "ad_keys (mark_otp_used i s) = ad_keys s" "ad_tokens (mark_otp_used i s) = ad_tokens s"
  "ad_accounts (mark_otp_used i s) = ad_accounts s"
  "ad_keys (increment_otp_attempts i s) = ad_keys s" "ad_tokens (increment_otp_attempts i s) = ad_tokens s"
  "ad_accounts (increment_otp_attempts i s) = ad_accounts s"
  by (simp_all add: mark_otp_used_def increment_otp_attempts_def auth_frames)

lemma create_otp_frame [auth_frames]:
  "ad_keys (create_otp_request e i h p x u s) = ad_keys s"
  "ad_tokens (create_otp_request e i h p x u s) = ad_tokens s"
  "ad_accounts (create_otp_request e i h p x u s) = ad_accounts s"
  by (simp_all add: create_otp_request_def)

lemma signup_verification_frame [auth_frames]:
  "ad_keys (send_signup_verification cf cy e m u s) = ad_keys s"
  "ad_tokens (send_signup_verification cf cy e m u s) = ad_tokens s"
  "ad_accounts (send_signup_verification cf cy e m u s) = ad_accounts s"
  by (simp_all add: send_signup_verification_def auth_frames)

lemma claim_fcm_frame [auth_frames]:
  "ad_keys (claim_fcm_token u d s) = ad_keys s" "ad_otps (claim_fcm_token u d s) = ad_otps s"
  "ad_tokens (claim_fcm_token u d s) = ad_tokens s"
  by (simp_all add: claim_fcm_token_def)

lemma insert_account_cases:
  obtains x where "insert_account a s = (Inl x, s)"
  | b where "insert_account a s = (Inr b, s\<lparr>ad_accounts := ad_accounts s @ [b]\<rparr>)"
      "b = a\<lparr>ac_email := normalize_email (ac_email a)\<rparr>"
  by atomize_elim (auto simp: insert_account_def Let_def)

lemma create_organization_cases:
  obtains x where "create_organization e name slug s = (Inl x, s)"
  | i orgs where "create_organization e name slug s = (Inr i, s\<lparr>ad_orgs := orgs\<rparr>)"
  by (cases "slug_exists slug s") (auto simp: create_organization_def)

text \<open>
  Every operation but three is a prefix that leaves tokens and keys alone, followed by at most
  one pair of the family it has just drawn.
\<close>

definition opens_at_most ::
  "auth_config \<Rightarrow> crypto \<Rightarrow> auth_env \<Rightarrow> 'a auth_db_scheme \<Rightarrow> 'a auth_db_scheme \<Rightarrow> bool" where
  "opens_at_most cf cy e s s' \<longleftrightarrow>
     (\<exists>m u. ad_tokens m = ad_tokens s \<and> ad_keys m = ad_keys s
        \<and> (s' = m \<or> s' = snd (issue_tokens cf cy e u None None m)))"

lemma opens_same: "ad_tokens s' = ad_tokens s \<Longrightarrow> ad_keys s' = ad_keys s \<Longrightarrow> opens_at_most cf cy e s s'"
  by (auto simp: opens_at_most_def)

lemma opens_pair: "ad_tokens m = ad_tokens s \<Longrightarrow> ad_keys m = ad_keys s
    \<Longrightarrow> opens_at_most cf cy e s (snd (issue_tokens cf cy e u None None m))"
  by (auto simp: opens_at_most_def)

lemma opens_self [simp]: "opens_at_most cf cy e s s"
  by (simp add: opens_same)

lemma opens_after:
  "opens_at_most cf cy e m s' \<Longrightarrow> ad_tokens m = ad_tokens s \<Longrightarrow> ad_keys m = ad_keys s \<Longrightarrow> opens_at_most cf cy e s s'"
  by (auto simp: opens_at_most_def)

lemma andthen_simps [simp]: "andthen (Inl x, s) f = (Inl x, s)" "andthen (Inr a, s) f = f a s"
  by (simp_all add: andthen_def)

lemma opens_insert:
  assumes "ad_tokens n = ad_tokens s" "ad_keys n = ad_keys s"
    and "\<And>b m. ad_tokens m = ad_tokens s \<Longrightarrow> ad_keys m = ad_keys s \<Longrightarrow> opens_at_most cf cy e s (snd (f b m))"
  shows "opens_at_most cf cy e s (snd (andthen (insert_account a n) f))"
proof (cases rule: insert_account_cases [of a n])
  case 1
  with assms(1,2) show ?thesis by (simp add: opens_same)
next
  case 2
  with assms show ?thesis by simp
qed

lemma opens_organization:
  assumes "\<And>i m. ad_tokens m = ad_tokens s \<Longrightarrow> ad_keys m = ad_keys s \<Longrightarrow> opens_at_most cf cy e s (snd (f i m))"
  shows "opens_at_most cf cy e s (snd (andthen (create_organization e name slug s) f))"
  by (cases rule: create_organization_cases [of e name slug s]) (auto intro!: assms)

lemma finish_opens:
  "ad_tokens m = ad_tokens s \<Longrightarrow> ad_keys m = ad_keys s \<Longrightarrow> opens_at_most cf cy e s (snd (finish_signup cf cy e u m))"
  by (simp add: finish_signup_def opens_pair auth_frames)

lemma signup_student_opens: "opens_at_most cf cy e s (snd (signup_student cf cy e dto s))"
  by (auto simp: signup_student_def split: sum.splits intro!: opens_insert finish_opens)

lemma signup_admin_opens: "opens_at_most cf cy e s (snd (signup_admin cf cy e dto s))"
  by (auto simp: signup_admin_def split: sum.splits intro!: opens_organization opens_insert finish_opens)

lemma signup_event_opens: "opens_at_most cf cy e s (snd (signup_event_admin cf cy e dto s))"
  by (auto simp: signup_event_admin_def split: sum.splits
      intro!: opens_organization opens_insert finish_opens)

lemma dispatch_opens: "opens_at_most cf cy e s (snd (dispatch_signup cf cy e dto s))"
  by (simp add: dispatch_signup_def Let_def signup_student_opens signup_admin_opens signup_event_opens)

lemma login_opens: "opens_at_most cf cy e s (snd (login cf cy e i pw s))"
  by (auto simp: login_def Let_def auth_frames split: option.splits intro!: opens_pair)

lemma request_otp_opens: "opens_at_most cf cy e s (snd (request_otp cf cy e i p c s))"
  by (auto simp: request_otp_def Let_def auth_frames intro!: opens_same)

lemma consume_otp_cases:
  obtains x where "consume_otp cf cy e i p otp s = (Inl x, s)"
  | x r where "consume_otp cf cy e i p otp s = (Inl x, increment_otp_attempts (ot_id r) s)"
      "find_valid_otp e i p (au_otp_attempts cf) s = Some r" "\<not> cy_compare cy otp (ot_hash r)"
  | r where "consume_otp cf cy e i p otp s = (Inr r, mark_otp_used (ot_id r) s)"
      "find_valid_otp e i p (au_otp_attempts cf) s = Some r" "cy_compare cy otp (ot_hash r)"
  by (cases "find_valid_otp e i p (au_otp_attempts cf) s")
    (auto simp: consume_otp_def split: if_splits)

lemma opens_consume:
  assumes "\<And>r m. ad_tokens m = ad_tokens s \<Longrightarrow> ad_keys m = ad_keys s \<Longrightarrow> opens_at_most cf cy e s (snd (f r m))"
  shows "opens_at_most cf cy e s (snd (andthen (consume_otp cf cy e i p otp s) f))"
  using assms by (cases rule: consume_otp_cases [of cf cy e i p otp s]) (simp_all add: auth_frames opens_same)

lemma verify_otp_opens: "opens_at_most cf cy e s (snd (verify_otp cf cy e i otp p s))"
  by (auto simp: verify_otp_def Let_def auth_frames split: option.split
      intro!: opens_consume opens_insert opens_pair)

section \<open>Tokens and their families\<close>

text \<open>
  What the libraries promise: two tokens with one hash belong to one family, as a token that
  verifies carries the payload it was signed for and SHA-256 does not collide.
\<close>

definition hash_tells_family :: "crypto \<Rightarrow> bool" where
  "hash_tells_family cy \<longleftrightarrow>
     (\<forall>raw p q. cy_decode cy raw = Some p \<and> cy_sha cy raw = cy_sha cy (cy_sign cy q) \<longrightarrow> jw_family p = jw_family q)"

text \<open>
  Stored tokens were signed for their family, have distinct ids, and are replaced by tokens of
  their own family; a grace period ends within its length.
\<close>

definition drawn :: "ident set \<Rightarrow> refresh_row list \<Rightarrow> bool" where
  "drawn U ts \<longleftrightarrow> (\<forall>t\<in>set ts. tk_id t \<in> U \<and> (\<forall>n. tk_replaced_by t = Some n \<longrightarrow> n \<in> U))"

definition signed :: "crypto \<Rightarrow> refresh_row list \<Rightarrow> bool" where
  "signed cy ts \<longleftrightarrow> (\<forall>t\<in>set ts. \<exists>q. tk_hash t = cy_sha cy (cy_sign cy q) \<and> tk_family t = jw_family q)"

definition lineage :: "refresh_row list \<Rightarrow> bool" where
  "lineage ts \<longleftrightarrow>
     (\<forall>t\<in>set ts. \<forall>n\<in>set ts. tk_replaced_by t = Some (tk_id n) \<longrightarrow> tk_family n = tk_family t)"

definition tokens_ok :: "crypto \<Rightarrow> ident set \<Rightarrow> refresh_row list \<Rightarrow> bool" where
  "tokens_ok cy U ts \<longleftrightarrow> distinct (map tk_id ts) \<and> drawn U ts \<and> signed cy ts \<and> lineage ts"

definition graces_end :: "int \<Rightarrow> (string \<rightharpoonup> int) \<Rightarrow> bool" where
  "graces_end limit keys \<longleftrightarrow> (\<forall>h x. keys (grace_key h) = Some x \<longrightarrow> x \<le> limit)"

fun sessions_ok :: "auth_config \<Rightarrow> crypto \<Rightarrow> 'a auth_world \<Rightarrow> bool" where
  "sessions_ok cf cy (t, U, s) \<longleftrightarrow>
     tokens_ok cy U (ad_tokens s) \<and> graces_end (t + family_ttl * 1000) (ad_keys s)"

text \<open>A dead family: every token revoked, and the mark outlives the grace of all of them.\<close>

definition dead :: "crypto \<Rightarrow> ident \<Rightarrow> refresh_row list \<Rightarrow> (string \<rightharpoonup> int) \<Rightarrow> bool" where
  "dead cy f ts keys \<longleftrightarrow>
     (\<forall>t\<in>set ts. tk_family t = f \<longrightarrow> tk_revoked t)
     \<and> (\<exists>r. keys (revoked_key f) = Some r
          \<and> (\<forall>raw p x. cy_decode cy raw = Some p \<and> jw_family p = f \<and> keys (grace_key (cy_sha cy raw)) = Some x
               \<longrightarrow> x \<le> r))"

fun family_dead :: "crypto \<Rightarrow> ident \<Rightarrow> 'a auth_world \<Rightarrow> bool" where
  "family_dead cy f (t, U, s) \<longleftrightarrow> f \<in> U \<and> dead cy f (ad_tokens s) (ad_keys s)"

lemma keys_apart [simp]: "revoked_key f \<noteq> grace_key h" "grace_key h \<noteq> revoked_key f"
  "revoked_key f = revoked_key g \<longleftrightarrow> f = g" "grace_key h = grace_key k \<longleftrightarrow> h = k"
  by (simp_all add: revoked_key_def grace_key_def)

lemma keys_set: "ad_keys (redis_set e k n s) =
    (if ae_redis e then (ad_keys s)(k \<mapsto> ae_now e + n * 1000) else ad_keys s)"
  by (simp add: redis_set_def)

lemma tokens_revoke: "ad_tokens (revoke_tokens p s) = map (\<lambda>t. if p t then t\<lparr>tk_revoked := True\<rparr> else t) (ad_tokens s)"
  by (simp add: revoke_tokens_def)

lemma tokens_set: "ad_tokens (set_token i f s) = map (\<lambda>t. if tk_id t = i then f t else t) (ad_tokens s)"
  by (simp add: set_token_def)

text \<open>Revoking or dropping rows keeps both.\<close>

lemma tokens_ok_map:
  assumes "\<And>t. tk_id (g t) = tk_id t" "\<And>t. tk_family (g t) = tk_family t"
    and "\<And>t. tk_hash (g t) = tk_hash t" "\<And>t. tk_replaced_by (g t) = tk_replaced_by t"
  shows "tokens_ok cy U (map g ts) \<longleftrightarrow> tokens_ok cy U ts"
  by (simp add: tokens_ok_def drawn_def signed_def lineage_def comp_def assms)

lemma tokens_ok_revoke:
  "tokens_ok cy U (ad_tokens (revoke_tokens p s)) \<longleftrightarrow> tokens_ok cy U (ad_tokens s)"
  by (simp add: tokens_revoke tokens_ok_map)

lemma tokens_ok_filter: "tokens_ok cy U ts \<Longrightarrow> tokens_ok cy U (filter p ts)"
  by (auto simp: tokens_ok_def drawn_def signed_def lineage_def distinct_map_filter)

lemma tokens_ok_mono: "tokens_ok cy U ts \<Longrightarrow> U \<subseteq> V \<Longrightarrow> tokens_ok cy V ts"
  by (auto simp: tokens_ok_def drawn_def)

text \<open>A new pair: a row with fresh identifiers, linked from a row of the same family.\<close>

lemma tokens_ok_add:
  assumes "tokens_ok cy U ts" "tk_id n \<notin> U" "tk_replaced_by n = None" "tk_id n \<in> V" "U \<subseteq> V"
    and "\<exists>q. tk_hash n = cy_sha cy (cy_sign cy q) \<and> tk_family n = jw_family q"
  shows "tokens_ok cy V (ts @ [n])"
  using assms by (auto simp: tokens_ok_def drawn_def signed_def lineage_def)

lemma tokens_ok_link:
  assumes "tokens_ok cy V ts" "n \<in> V" "r \<noteq> n"
    and "\<And>t m. t \<in> set ts \<Longrightarrow> m \<in> set ts \<Longrightarrow> tk_id t = r \<Longrightarrow> tk_id m = n \<Longrightarrow> tk_family m = tk_family t"
  shows "tokens_ok cy V (map (\<lambda>t. if tk_id t = r
            then t\<lparr>tk_revoked := True, tk_used := u, tk_replaced_by := Some n\<rparr> else t) ts)"
proof -
  let ?g = "\<lambda>t. if tk_id t = r then t\<lparr>tk_revoked := True, tk_used := u, tk_replaced_by := Some n\<rparr> else t"
  have keeps: "tk_id (?g t) = tk_id t" "tk_family (?g t) = tk_family t" "tk_hash (?g t) = tk_hash t"
    "tk_replaced_by (?g t) = (if tk_id t = r then Some n else tk_replaced_by t)" for t by simp_all
  have "lineage (map ?g ts)"
    unfolding lineage_def
  proof (intro ballI impI)
    fix x y
    assume "x \<in> set (map ?g ts)" "y \<in> set (map ?g ts)" "tk_replaced_by x = Some (tk_id y)"
    then obtain a b where "a \<in> set ts" "b \<in> set ts" "x = ?g a" "y = ?g b"
      "(if tk_id a = r then Some n else tk_replaced_by a) = Some (tk_id b)"
      by (auto simp del: if_split simp: keeps)
    with assms show "tk_family y = tk_family x"
      unfolding tokens_ok_def lineage_def by (auto simp del: if_split simp: keeps split: if_split_asm)
  qed
  moreover have "distinct (map tk_id (map ?g ts))"
    using assms(1) by (simp add: tokens_ok_def comp_if_id)
  moreover have "drawn V (map ?g ts)" using assms by (auto simp: tokens_ok_def drawn_def)
  moreover have "signed cy (map ?g ts)" using assms by (auto simp: tokens_ok_def signed_def)
  ultimately show ?thesis unfolding tokens_ok_def by blast
qed

lemma issue_cases:
  obtains "snd (issue_tokens cf cy e u existing rotated m) = m"
  | n where "tk_id n = ae_id e 6" "tk_family n = nullish existing (ae_id e 4)" "tk_replaced_by n = None"
      "\<exists>q. tk_hash n = cy_sha cy (cy_sign cy q) \<and> tk_family n = jw_family q"
      "ad_keys (snd (issue_tokens cf cy e u existing rotated m)) = ad_keys m"
      "ad_tokens (snd (issue_tokens cf cy e u existing rotated m)) =
         (case rotated of None \<Rightarrow> ad_tokens m @ [n]
          | Some r \<Rightarrow> map (\<lambda>t. if tk_id t = r then t\<lparr>tk_revoked := True, tk_used := Some (ae_now e),
                                    tk_replaced_by := Some (ae_id e 6)\<rparr> else t) (ad_tokens m @ [n]))"
proof -
  let ?p = "jwt_for cf e u (nullish existing (ae_id e 4))"
  define n where "n = \<lparr>tk_id = ae_id e 6, tk_user = ac_id u, tk_hash = cy_sha cy (cy_sign cy ?p),
      tk_family = nullish existing (ae_id e 4), tk_expires = ae_now e + au_refresh_ttl cf * 1000,
      tk_revoked = False, tk_created = ae_now e, tk_used = None, tk_replaced_by = None\<rparr>"
  show thesis
  proof (cases "\<exists>t\<in>set (ad_tokens m). tk_hash t = tk_hash n \<or> tk_id t = tk_id n")
    case True
    then show thesis using that(1) unfolding issue_tokens_def Let_def n_def by simp
  next
    case False
    then have s': "snd (issue_tokens cf cy e u existing rotated m) =
        (case rotated of None \<Rightarrow> m\<lparr>ad_tokens := ad_tokens m @ [n]\<rparr>
         | Some r \<Rightarrow> mark_rotated e r (ae_id e 6) (m\<lparr>ad_tokens := ad_tokens m @ [n]\<rparr>))"
      by (cases rotated; cases "ae_redis e") (auto simp: issue_tokens_def Let_def n_def)
    show thesis
    proof (rule that(2) [of n])
      show "\<exists>q. tk_hash n = cy_sha cy (cy_sign cy q) \<and> tk_family n = jw_family q"
        by (rule exI [of _ ?p]) (simp add: n_def jwt_for_def)
    qed (simp_all add: s' n_def mark_rotated_def tokens_set auth_frames split: option.split)
  qed
qed

lemma issue_ok:
  assumes "tokens_ok cy U (ad_tokens m)" "range (ae_id e) \<inter> U = {}"
    and "\<And>r t. rotated = Some r \<Longrightarrow> t \<in> set (ad_tokens m) \<Longrightarrow> tk_id t = r \<Longrightarrow> existing = Some (tk_family t)"
    and "\<And>r. rotated = Some r \<Longrightarrow> r \<in> U"
  shows "tokens_ok cy (U \<union> range (ae_id e)) (ad_tokens (snd (issue_tokens cf cy e u existing rotated m)))"
proof (cases rule: issue_cases [of cf cy e u existing rotated m])
  case 1
  with assms(1) show ?thesis by (auto elim: tokens_ok_mono)
next
  case (2 n)
  let ?V = "U \<union> range (ae_id e)"
  have new: "ae_id e 6 \<notin> U" using assms(2) by auto
  have base: "tokens_ok cy ?V (ad_tokens m @ [n])"
    by (rule tokens_ok_add [OF assms(1)]) (use 2 new in auto)
  show ?thesis
  proof (cases rotated)
    case None
    with base 2(6) show ?thesis by simp
  next
    case (Some r)
    have r: "r \<in> U" "r \<noteq> ae_id e 6" using assms(4) [OF Some] new by auto
    have "tokens_ok cy ?V (map (\<lambda>t. if tk_id t = r then t\<lparr>tk_revoked := True, tk_used := Some (ae_now e),
             tk_replaced_by := Some (ae_id e 6)\<rparr> else t) (ad_tokens m @ [n]))"
    proof (rule tokens_ok_link [OF base])
      fix t x
      assume t: "t \<in> set (ad_tokens m @ [n])" "tk_id t = r" and x: "x \<in> set (ad_tokens m @ [n])" "tk_id x = ae_id e 6"
      have "t \<in> set (ad_tokens m)" using t r 2(1) by auto
      then have "existing = Some (tk_family t)" using assms(3) [OF Some] t by simp
      moreover have "x = n" using x assms(1) new 2(1) by (auto simp: tokens_ok_def drawn_def)
      ultimately show "tk_family x = tk_family t" using 2(2) by simp
    qed (use r in auto)
    with Some 2(6) show ?thesis by simp
  qed
qed

lemma issue_error:
  "issue_tokens cf cy e u existing rotated m = (Inl x, m') \<Longrightarrow> x = Conflict ''P2002'' \<or> x = Internal ''Redis unavailable''"
  by (auto simp: issue_tokens_def Let_def split: if_splits)

lemma issue_keys: "ad_keys (snd (issue_tokens cf cy e u existing rotated m)) = ad_keys m"
  by (cases rule: issue_cases [of cf cy e u existing rotated m]) auto

lemma issue_dead:
  assumes "dead cy f (ad_tokens m) (ad_keys m)" "f \<in> U" "range (ae_id e) \<inter> U = {}" "existing \<noteq> Some f"
  shows "dead cy f (ad_tokens (snd (issue_tokens cf cy e u existing rotated m))) (ad_keys m)"
proof (cases rule: issue_cases [of cf cy e u existing rotated m])
  case 1
  with assms(1) show ?thesis by simp
next
  case (2 n)
  have "tk_family n \<noteq> f" using 2(2) assms(2-4) by (cases existing) auto
  with 2(6) assms(1) show ?thesis by (auto simp: dead_def split: option.split)
qed

section \<open>A family that was revoked stays dead\<close>

lemma find_tokenD: "find_token P s = Some t \<Longrightarrow> t \<in> set (ad_tokens s) \<and> P t"
  by (auto simp: find_token_def dest: find_SomeD)

lemma refresh_invalid: "verify_refresh cy e raw = None \<Longrightarrow> refresh_tokens cf cy e raw s = (Inl (Unauthorized ''Invalid refresh token''), s)"
  by (simp add: refresh_tokens_def)

text \<open>The writes of a rotation before the pair: an undelivered successor, or the grace.\<close>

definition prepares :: "crypto \<Rightarrow> auth_config \<Rightarrow> auth_env \<Rightarrow> string \<Rightarrow> 'a auth_db_scheme \<Rightarrow> 'a auth_db_scheme \<Rightarrow> bool" where
  "prepares cy cf e raw s m \<longleftrightarrow>
     (m = s \<or> (\<exists>n. m = set_token n (\<lambda>x. x\<lparr>tk_revoked := True\<rparr>) s)
      \<or> (\<exists>t\<in>set (ad_tokens s). tk_hash t = cy_sha cy raw \<and> m = redis_set e (grace_key (cy_sha cy raw)) (au_grace cf) s))"

lemma refresh_cases:
  assumes p: "verify_refresh cy e raw = Some p"
  obtains "refresh_tokens cf cy e raw s = (Inl session_expired, s)"
  | "refresh_tokens cf cy e raw s = (Inl security_alert, kill_family e (jw_family p) s)"
  | m x where "prepares cy cf e raw s m" "refresh_tokens cf cy e raw s = (Inl (Unauthorized x), m)"
      "x = ''Account not found or deactivated''"
  | m u rot where "prepares cy cf e raw s m"
      "refresh_tokens cf cy e raw s = issue_tokens cf cy e u (Some (jw_family p)) rot m"
      "\<And>r. rot = Some r \<Longrightarrow> \<exists>t\<in>set (ad_tokens s). tk_id t = r \<and> tk_hash t = cy_sha cy raw"
proof -
  let ?h = "cy_sha cy raw" and ?f = "jw_family p" and ?R = "refresh_tokens cf cy e raw s"
  let ?r = "find_token (\<lambda>t. tk_hash t = ?h) s"
  note outs = that
  have pair: thesis
    if R: "?R = with_active_user (jw_sub p) (\<lambda>u. issue_tokens cf cy e u (Some ?f) rot m) m"
      and m: "prepares cy cf e raw s m"
      and rot: "\<And>r. rot = Some r \<Longrightarrow> \<exists>t\<in>set (ad_tokens s). tk_id t = r \<and> tk_hash t = ?h" for rot m
  proof (cases "find_account m (jw_sub p)")
    case None
    with R m show thesis by (intro outs(3)) (simp_all add: with_active_user_def)
  next
    case (Some u)
    show thesis
    proof (cases "ac_active u")
      case True
      with R Some m rot show thesis by (intro outs(4)) (simp_all add: with_active_user_def)
    next
      case False
      with R Some m show thesis by (intro outs(3)) (simp_all add: with_active_user_def)
    qed
  qed
  consider "is_family_revoked e ?f s"
    | "\<not> is_family_revoked e ?f s" "(?r = None \<or> tk_revoked (the ?r)) \<and> redis_exists e (grace_key ?h) s"
    | "\<not> is_family_revoked e ?f s" "\<not> ((?r = None \<or> tk_revoked (the ?r)) \<and> redis_exists e (grace_key ?h) s)" "?r = None"
    | t where "\<not> is_family_revoked e ?f s" "\<not> redis_exists e (grace_key ?h) s" "?r = Some t" "tk_revoked t"
    | t where "\<not> is_family_revoked e ?f s" "?r = Some t" "\<not> tk_revoked t"
    by (cases ?r) auto
  then show thesis
  proof cases
    case 1
    then show thesis using outs(1) p by (simp add: refresh_tokens_def Let_def)
  next
    case 2
    show thesis
    proof (rule pair)
      show "?R = with_active_user (jw_sub p) (\<lambda>u. issue_tokens cf cy e u (Some ?f) (map_option tk_id ?r) s) s"
        using 2 p by (simp add: refresh_tokens_def Let_def)
      show "prepares cy cf e raw s s" by (simp add: prepares_def)
    qed (auto dest: find_tokenD)
  next
    case 3
    then show thesis using outs(2) p by (simp add: refresh_tokens_def Let_def)
  next
    case (4 t)
    show thesis
    proof (cases "undelivered_successor e t s")
      case None
      with 4 show thesis using outs(2) p by (simp add: refresh_tokens_def Let_def)
    next
      case (Some n)
      show thesis
      proof (rule pair)
        show "?R = with_active_user (jw_sub p) (\<lambda>u. issue_tokens cf cy e u (Some ?f) (Some (tk_id t))
            (set_token (tk_id n) (\<lambda>x. x\<lparr>tk_revoked := True\<rparr>) s)) (set_token (tk_id n) (\<lambda>x. x\<lparr>tk_revoked := True\<rparr>) s)"
          using 4 Some p by (simp add: refresh_tokens_def Let_def)
        show "prepares cy cf e raw s (set_token (tk_id n) (\<lambda>x. x\<lparr>tk_revoked := True\<rparr>) s)"
          by (auto simp: prepares_def)
      qed (use 4 find_tokenD in force)
    qed
  next
    case (5 t)
    show thesis
    proof (cases "tk_expires t < ae_now e")
      case True
      with 5 show thesis using outs(1) p by (simp add: refresh_tokens_def Let_def)
    next
      case False
      let ?m = "if 0 < au_grace cf then redis_set e (grace_key ?h) (au_grace cf) s else s"
      show thesis
      proof (rule pair)
        show "?R = with_active_user (jw_sub p) (\<lambda>u. issue_tokens cf cy e u (Some ?f) (Some (tk_id t)) ?m) ?m"
          using 5 False p by (simp add: refresh_tokens_def Let_def)
        show "prepares cy cf e raw s ?m" using 5 by (auto simp: prepares_def dest: find_tokenD)
      qed (use 5 find_tokenD in force)
    qed
  qed
qed

lemma kill_family_state:
  "ad_tokens (kill_family e f s) = map (\<lambda>t. if tk_family t = f then t\<lparr>tk_revoked := True\<rparr> else t) (ad_tokens s)"
  "ad_keys (kill_family e f s) =
     (if ae_redis e then (ad_keys s)(revoked_key f \<mapsto> ae_now e + family_ttl * 1000) else ad_keys s)"
  by (simp_all add: kill_family_def keys_set auth_frames tokens_revoke)

lemma prepares_ok:
  assumes "prepares cy cf e raw s m" "tokens_ok cy U (ad_tokens s)"
  shows "tokens_ok cy U (ad_tokens m)"
    "map (\<lambda>t. (tk_id t, tk_hash t, tk_family t)) (ad_tokens m)
       = map (\<lambda>t. (tk_id t, tk_hash t, tk_family t)) (ad_tokens s)"
  using assms by (auto simp: prepares_def auth_frames tokens_set tokens_ok_map)

lemma prepares_keys:
  "prepares cy cf e raw s m \<Longrightarrow> ad_keys m = ad_keys s
     \<or> (\<exists>t\<in>set (ad_tokens s). tk_hash t = cy_sha cy raw)
       \<and> ad_keys m = (ad_keys s)(grace_key (cy_sha cy raw) \<mapsto> ae_now e + au_grace cf * 1000)"
  by (auto simp: prepares_def keys_set auth_frames)

lemma graces_end_simps [simp]:
  "graces_end limit (keys(revoked_key f \<mapsto> x)) \<longleftrightarrow> graces_end limit keys"
  "graces_end limit keys \<Longrightarrow> x \<le> limit \<Longrightarrow> graces_end limit (keys(grace_key h \<mapsto> x))"
  by (auto simp: graces_end_def)

lemma graces_end_mono: "graces_end a keys \<Longrightarrow> a \<le> b \<Longrightarrow> graces_end b keys"
  by (fastforce simp: graces_end_def)

lemma verify_decodes: "verify_refresh cy e raw = Some p \<Longrightarrow> cy_decode cy raw = Some p"
  by (auto simp: verify_refresh_def split: option.splits if_splits)

text \<open>The row a presented token finds belongs to the family it names.\<close>

lemma found_family:
  assumes "hash_tells_family cy" "tokens_ok cy U (ad_tokens s)" "t \<in> set (ad_tokens s)"
    and "tk_hash t = cy_sha cy raw" "cy_decode cy raw = Some p"
  shows "tk_family t = jw_family p"
proof -
  obtain q where "tk_hash t = cy_sha cy (cy_sign cy q)" "tk_family t = jw_family q"
    using assms(2,3) by (auto simp: tokens_ok_def signed_def)
  with assms(1,4,5) show ?thesis unfolding hash_tells_family_def by metis
qed

lemma opens_ok:
  assumes "opens_at_most cf cy e s s'" "tokens_ok cy U (ad_tokens s)" "range (ae_id e) \<inter> U = {}"
  shows "tokens_ok cy (U \<union> range (ae_id e)) (ad_tokens s')" "ad_keys s' = ad_keys s"
proof -
  obtain m u where m: "ad_tokens m = ad_tokens s" "ad_keys m = ad_keys s"
    "s' = m \<or> s' = snd (issue_tokens cf cy e u None None m)"
    using assms(1) by (auto simp: opens_at_most_def)
  from m show "tokens_ok cy (U \<union> range (ae_id e)) (ad_tokens s')"
    using assms(2,3) by (auto intro!: issue_ok elim: tokens_ok_mono)
  from m show "ad_keys s' = ad_keys s" by (auto simp: issue_keys)
qed

lemma opens_dead:
  assumes "opens_at_most cf cy e s s'" "dead cy f (ad_tokens s) (ad_keys s)" "f \<in> U" "range (ae_id e) \<inter> U = {}"
  shows "dead cy f (ad_tokens s') (ad_keys s')"
proof -
  obtain m u where m: "ad_tokens m = ad_tokens s" "ad_keys m = ad_keys s"
    "s' = m \<or> s' = snd (issue_tokens cf cy e u None None m)"
    using assms(1) by (auto simp: opens_at_most_def)
  with assms show ?thesis using issue_dead [of cy f m U e None cf u None] by (auto simp: issue_keys)
qed

text \<open>A reset writes accounts and codes, and revokes the tokens of the account.\<close>

lemma reset_password_tokens:
  "ad_keys (snd (reset_password cf cy e i otp pw s)) = ad_keys s"
  "ad_tokens (snd (reset_password cf cy e i otp pw s)) = ad_tokens s
   \<or> (\<exists>u. ad_tokens (snd (reset_password cf cy e i otp pw s)) = ad_tokens (revoke_all_by_user u s))"
proof -
  have "ad_keys (snd (reset_password cf cy e i otp pw s)) = ad_keys s
      \<and> (ad_tokens (snd (reset_password cf cy e i otp pw s)) = ad_tokens s
        \<or> (\<exists>u. ad_tokens (snd (reset_password cf cy e i otp pw s)) = ad_tokens (revoke_all_by_user u s)))"
  proof (cases rule: consume_otp_cases [of cf cy e "normalize_identifier i" "''reset''" otp s])
    case (3 r)
    then show ?thesis
      by (cases "find_by_identifier (mark_otp_used (ot_id r) s) (normalize_identifier i)")
        (auto simp: reset_password_def Let_def auth_frames revoke_all_by_user_def tokens_revoke)
  qed (auto simp: reset_password_def Let_def auth_frames)
  then show "ad_keys (snd (reset_password cf cy e i otp pw s)) = ad_keys s"
    "ad_tokens (snd (reset_password cf cy e i otp pw s)) = ad_tokens s
     \<or> (\<exists>u. ad_tokens (snd (reset_password cf cy e i otp pw s)) = ad_tokens (revoke_all_by_user u s))"
    by simp_all
qed

lemma auth_op_kinds:
  assumes "auth_op cf cy e s s'"
  obtains (opens) "opens_at_most cf cy e s s'"
  | (refresh) raw where "s' = snd (refresh_tokens cf cy e raw s)"
  | (revoke) p where "ad_tokens s' = ad_tokens (revoke_tokens p s)" "ad_keys s' = ad_keys s"
  | (kill) f where "s' = kill_family e f s"
  | (purge) p where "ad_tokens s' = filter p (ad_tokens s)" "ad_keys s' = ad_keys s"
  using assms
proof (cases rule: auth_op.cases)
  case (reset i otp pw)
  from reset_password_tokens(2) [of cf cy e i otp pw s] show thesis
  proof (elim disjE exE)
    assume "ad_tokens (snd (reset_password cf cy e i otp pw s)) = ad_tokens s"
    then show thesis using opens reset by (simp add: opens_same reset_password_tokens(1))
  next
    fix u
    assume "ad_tokens (snd (reset_password cf cy e i otp pw s)) = ad_tokens (revoke_all_by_user u s)"
    then show thesis using revoke reset unfolding revoke_all_by_user_def by (simp add: reset_password_tokens(1))
  qed
next
  case (logout user token)
  show thesis
  proof (cases "truthy token \<and> verify_refresh cy e (the token) \<noteq> None")
    case True
    then obtain p where "verify_refresh cy e (the token) = Some p" by auto
    with True logout kill [of "jw_family p"] opens show thesis
      by (cases "jw_family p = []") (auto simp: logout_def)
  next
    case False
    with logout have "s' = revoke_all_by_user user s" by (auto simp: logout_def)
    then show thesis using revoke unfolding revoke_all_by_user_def by (simp add: auth_frames)
  qed
next
  case (fcm user device)
  then show thesis using opens by (simp add: opens_same auth_frames)
next
  case (stale cutoff)
  then show thesis using purge by (simp add: purge_stale_tokens_def)
qed (use opens refresh in \<open>auto simp: dispatch_opens signup_student_opens signup_admin_opens signup_event_opens
       login_opens request_otp_opens verify_otp_opens\<close>)

lemma refresh_ok:
  assumes law: "hash_tells_family cy" and g: "au_grace cf \<le> family_ttl"
    and ok: "tokens_ok cy U (ad_tokens s)" "graces_end (ae_now e + family_ttl * 1000) (ad_keys s)"
    and fresh: "range (ae_id e) \<inter> U = {}"
  shows "tokens_ok cy (U \<union> range (ae_id e)) (ad_tokens (snd (refresh_tokens cf cy e raw s)))
    \<and> graces_end (ae_now e + family_ttl * 1000) (ad_keys (snd (refresh_tokens cf cy e raw s)))"
proof (cases "verify_refresh cy e raw")
  case None
  with ok show ?thesis by (auto simp: refresh_invalid elim: tokens_ok_mono)
next
  case (Some p)
  let ?V = "U \<union> range (ae_id e)"
  have grow: "tokens_ok cy U ts \<Longrightarrow> tokens_ok cy ?V ts" for ts by (auto elim: tokens_ok_mono)
  have prep: "graces_end (ae_now e + family_ttl * 1000) (ad_keys m)" if "prepares cy cf e raw s m" for m
    using prepares_keys [OF that] g ok(2) by auto
  show ?thesis
  proof (cases rule: refresh_cases [OF Some, where s = s and cf = cf])
    case 1
    with ok grow show ?thesis by simp
  next
    case 2
    with ok grow show ?thesis by (simp add: kill_family_state tokens_ok_map)
  next
    case 3
    then show ?thesis using prep prepares_ok(1) [OF _ ok(1)] grow by auto
  next
    case (4 m u rot)
    have m: "tokens_ok cy U (ad_tokens m)" using prepares_ok(1) [OF 4(1) ok(1)] .
    let ?k = "\<lambda>t. (tk_id t, tk_hash t, tk_family t)"
    have rows: "\<exists>x\<in>set (ad_tokens s). ?k x = ?k t" if "t \<in> set (ad_tokens m)" for t
    proof -
      have "?k t \<in> set (map ?k (ad_tokens s))"
        using that prepares_ok(2) [OF 4(1) ok(1), symmetric] by simp
      then show ?thesis by auto
    qed
    have fam: "tk_family t = jw_family p" if r: "rot = Some r" "t \<in> set (ad_tokens m)" "tk_id t = r" for r t
    proof -
      obtain x where x: "x \<in> set (ad_tokens s)" "tk_id x = r" "tk_hash x = cy_sha cy raw" using 4(3) r(1) by blast
      obtain y where y: "y \<in> set (ad_tokens s)" "tk_id y = tk_id t" "tk_family y = tk_family t" using rows [OF r(2)] by auto
      have "x = y" using ok(1) x y r(3) by (auto simp: tokens_ok_def distinct_map inj_on_def)
      then show ?thesis using found_family [OF law ok(1) x(1,3) verify_decodes [OF Some]] y by simp
    qed
    have "tokens_ok cy ?V (ad_tokens (snd (issue_tokens cf cy e u (Some (jw_family p)) rot m)))"
    proof (rule issue_ok [OF m fresh])
      show "r \<in> U" if "rot = Some r" for r
        using 4(3) [OF that] ok(1) by (auto simp: tokens_ok_def drawn_def)
    qed (use fam in auto)
    then show ?thesis using 4(1,2) prep by (simp add: issue_keys)
  qed
qed

lemma auth_op_ok:
  assumes "hash_tells_family cy" "au_grace cf \<le> family_ttl" "sessions_ok cf cy (t, U, s)" "t \<le> ae_now e"
    and "range (ae_id e) \<inter> U = {}" "auth_op cf cy e s s'"
  shows "sessions_ok cf cy (ae_now e, U \<union> range (ae_id e), s')"
proof -
  have ok: "tokens_ok cy U (ad_tokens s)" "graces_end (ae_now e + family_ttl * 1000) (ad_keys s)"
    using assms(3,4) by (auto elim: graces_end_mono)
  have grow: "tokens_ok cy U ts \<Longrightarrow> tokens_ok cy (U \<union> range (ae_id e)) ts" for ts by (auto elim: tokens_ok_mono)
  from assms(6) show ?thesis
  proof (cases rule: auth_op_kinds)
    case opens
    then show ?thesis using opens_ok [OF opens ok(1) assms(5)] ok(2) by simp
  next
    case (refresh raw)
    then show ?thesis using refresh_ok [OF assms(1,2) ok assms(5)] by simp
  next
    case (revoke p)
    then show ?thesis using ok grow by (simp add: tokens_ok_revoke)
  next
    case (kill f)
    then show ?thesis using ok grow by (simp add: kill_family_state tokens_ok_map)
  next
    case (purge p)
    then show ?thesis using ok grow by (simp add: tokens_ok_filter)
  qed
qed

text \<open>A dead family refuses every token of its own.\<close>

lemma dead_refuses:
  assumes law: "hash_tells_family cy" and ok: "tokens_ok cy U (ad_tokens s)"
    and dead: "dead cy f (ad_tokens s) (ad_keys s)"
    and p: "verify_refresh cy e raw = Some p" "jw_family p = f"
  shows "refresh_tokens cf cy e raw s \<in> {(Inl session_expired, s), (Inl security_alert, kill_family e f s)}"
proof (cases "is_family_revoked e f s")
  case True
  with p show ?thesis by (simp add: refresh_tokens_def Let_def)
next
  case False
  let ?h = "cy_sha cy raw"
  obtain r where r: "ad_keys s (revoked_key f) = Some r"
    "\<And>raw' q x. cy_decode cy raw' = Some q \<Longrightarrow> jw_family q = f \<Longrightarrow> ad_keys s (grace_key (cy_sha cy raw')) = Some x \<Longrightarrow> x \<le> r"
    using dead unfolding dead_def by blast
  have grace: "\<not> redis_exists e (grace_key ?h) s"
    using False r(1) r(2) [OF verify_decodes [OF p(1)] p(2)]
    by (fastforce simp: is_family_revoked_def redis_exists_def split: option.splits)
  show ?thesis
  proof (cases "find_token (\<lambda>t. tk_hash t = ?h) s")
    case None
    with False grace p show ?thesis by (simp add: refresh_tokens_def Let_def)
  next
    case (Some t)
    then have t: "t \<in> set (ad_tokens s)" "tk_hash t = ?h" by (auto dest: find_tokenD)
    have fam: "tk_family t = f" using found_family [OF law ok t verify_decodes [OF p(1)]] p(2) by simp
    then have "tk_revoked t" using dead t by (auto simp: dead_def)
    moreover have "undelivered_successor e t s = None"
      using ok dead t fam
      by (fastforce simp: undelivered_successor_def tokens_ok_def lineage_def dead_def truthy_def
          split: option.splits dest!: find_tokenD)
    ultimately show ?thesis using False grace p Some by (simp add: refresh_tokens_def Let_def)
  qed
qed

lemma dead_revoke: "dead cy f ts keys \<Longrightarrow> dead cy f (map (\<lambda>t. if p t then t\<lparr>tk_revoked := True\<rparr> else t) ts) keys"
  by (auto simp: dead_def)

lemma kill_other_dead:
  "dead cy f (ad_tokens s) (ad_keys s) \<Longrightarrow> g \<noteq> f \<Longrightarrow> dead cy f (ad_tokens (kill_family e g s)) (ad_keys (kill_family e g s))"
  by (auto simp: dead_def kill_family_state)

text \<open>Both ways a family is killed leave it dead, when Redis answers.\<close>

lemma kill_dead:
  assumes "graces_end (ae_now e + family_ttl * 1000) (ad_keys s)" "ae_redis e"
  shows "dead cy f (ad_tokens (kill_family e f s)) (ad_keys (kill_family e f s))"
proof -
  have keys: "ad_keys (kill_family e f s) (revoked_key f) = Some (ae_now e + family_ttl * 1000)"
    "ad_keys (kill_family e f s) (grace_key h) = ad_keys s (grace_key h)" for h
    using assms(2) by (simp_all add: kill_family_state(2))
  have "x \<le> ae_now e + family_ttl * 1000" if "ad_keys s (grace_key h) = Some x" for h x
    using assms(1) that unfolding graces_end_def by blast
  then have "\<forall>raw p x. cy_decode cy raw = Some p \<and> jw_family p = f
      \<and> ad_keys (kill_family e f s) (grace_key (cy_sha cy raw)) = Some x \<longrightarrow> x \<le> ae_now e + family_ttl * 1000"
    unfolding keys by blast
  moreover have "\<forall>t\<in>set (ad_tokens (kill_family e f s)). tk_family t = f \<longrightarrow> tk_revoked t"
  proof (intro ballI impI)
    fix t
    assume t: "t \<in> set (ad_tokens (kill_family e f s))" "tk_family t = f"
    then obtain x where "t = (if tk_family x = f then x\<lparr>tk_revoked := True\<rparr> else x)"
      unfolding kill_family_state(1) set_map by blast
    with t(2) show "tk_revoked t" by (cases "tk_family x = f") simp_all
  qed
  ultimately show ?thesis unfolding dead_def using keys(1) by blast
qed

lemma kill_again_dead:
  assumes "dead cy f (ad_tokens s) (ad_keys s)" "graces_end (ae_now e + family_ttl * 1000) (ad_keys s)"
  shows "dead cy f (ad_tokens (kill_family e g s)) (ad_keys (kill_family e g s))"
proof (cases "g = f")
  case True
  show ?thesis
  proof (cases "ae_redis e")
    case True
    with \<open>g = f\<close> kill_dead [OF assms(2)] show ?thesis by simp
  next
    case False
    with assms(1) show ?thesis by (auto simp: dead_def kill_family_state)
  qed
next
  case False
  with kill_other_dead [OF assms(1)] show ?thesis by simp
qed

lemma prepares_dead:
  assumes "prepares cy cf e raw s m" "dead cy f (ad_tokens s) (ad_keys s)" "hash_tells_family cy"
    and "tokens_ok cy U (ad_tokens s)" "cy_decode cy raw = Some p" "jw_family p \<noteq> f"
  shows "dead cy f (ad_tokens m) (ad_keys m)"
proof -
  consider "m = s" | n where "m = set_token n (\<lambda>x. x\<lparr>tk_revoked := True\<rparr>) s"
    | t where "t \<in> set (ad_tokens s)" "tk_hash t = cy_sha cy raw"
        "m = redis_set e (grace_key (cy_sha cy raw)) (au_grace cf) s"
    using assms(1) by (auto simp: prepares_def)
  then show ?thesis
  proof cases
    case 3
    have "jw_family q \<noteq> f" if "cy_decode cy raw' = Some q" "cy_sha cy raw' = cy_sha cy raw" for raw' q
      using found_family [OF assms(3,4) 3(1) _ that(1)] found_family [OF assms(3,4) 3(1,2) assms(5)] 3(2) that(2) assms(6)
      by simp
    then have "cy_decode cy raw' = Some q \<Longrightarrow> jw_family q = f \<Longrightarrow> cy_sha cy raw' \<noteq> cy_sha cy raw" for raw' q
      by blast
    with assms(2) show ?thesis unfolding 3 dead_def by (simp add: keys_set auth_frames) blast
  qed (use assms(2) in \<open>auto simp: auth_frames tokens_set intro: dead_revoke\<close>)
qed

lemma auth_op_dead:
  assumes law: "hash_tells_family cy" and ok: "sessions_ok cf cy (t, U, s)" "t \<le> ae_now e"
    and f: "f \<in> U" "dead cy f (ad_tokens s) (ad_keys s)"
    and fresh: "range (ae_id e) \<inter> U = {}" and run: "auth_op cf cy e s s'"
  shows "dead cy f (ad_tokens s') (ad_keys s')"
proof -
  have tok: "tokens_ok cy U (ad_tokens s)" and g: "graces_end (ae_now e + family_ttl * 1000) (ad_keys s)"
    using ok by (auto elim: graces_end_mono)
  from run show ?thesis
  proof (cases rule: auth_op_kinds)
    case opens
    then show ?thesis using opens_dead f fresh by blast
  next
    case (refresh raw)
    show ?thesis
    proof (cases "verify_refresh cy e raw")
      case None
      with refresh f show ?thesis by (simp add: refresh_invalid)
    next
      case (Some p)
      show ?thesis
      proof (cases "jw_family p = f")
        case True
        with dead_refuses [OF law tok f(2) Some, of cf] refresh f(2) kill_again_dead [OF f(2) g]
        show ?thesis by auto
      next
        case False
        note prep = prepares_dead [OF _ f(2) law tok verify_decodes [OF Some] False]
        show ?thesis
        proof (cases rule: refresh_cases [OF Some, where s = s and cf = cf])
          case (4 m u rot)
          have "dead cy f (ad_tokens (snd (issue_tokens cf cy e u (Some (jw_family p)) rot m))) (ad_keys m)"
            using issue_dead [OF prep [OF 4(1)] f(1) fresh] False by simp
          with 4(2) refresh show ?thesis by (simp add: issue_keys)
        qed (use refresh f(2) prep kill_other_dead [OF f(2) False] in auto)
      qed
    qed
  next
    case (revoke p)
    with f show ?thesis by (simp add: tokens_revoke dead_revoke)
  next
    case (kill g')
    with kill_again_dead [OF f(2) g] show ?thesis by simp
  next
    case (purge p)
    with f show ?thesis by (auto simp: dead_def)
  qed
qed

text \<open>Runs start from tables without tokens.\<close>

fun no_sessions :: "'a auth_world \<Rightarrow> bool" where
  "no_sessions (t, U, s) \<longleftrightarrow> ad_tokens s = [] \<and> ad_keys s = Map.empty"

lemma no_sessions_ok: "no_sessions w \<Longrightarrow> sessions_ok cf cy w"
  by (cases w) (simp add: tokens_ok_def drawn_def signed_def lineage_def graces_end_def)

interpretation session_rules: invariant_steps "auth_step cf cy"
    "\<lambda>w. hash_tells_family cy \<and> au_grace cf \<le> family_ttl \<and> sessions_ok cf cy w" for cf cy
proof unfold_locales
  fix w w' :: "'a auth_world"
  assume inv: "hash_tells_family cy \<and> au_grace cf \<le> family_ttl \<and> sessions_ok cf cy w" and "auth_step cf cy w w'"
  from this(2) show "hash_tells_family cy \<and> au_grace cf \<le> family_ttl \<and> sessions_ok cf cy w'"
  proof cases
    case (call t e U s s')
    with inv show ?thesis using auth_op_ok [of cy cf t U s e s'] by simp
  qed
qed

interpretation dead_families: invariant_steps "auth_step cf cy"
    "\<lambda>w. hash_tells_family cy \<and> au_grace cf \<le> family_ttl \<and> sessions_ok cf cy w \<and> family_dead cy f w" for cf cy f
proof unfold_locales
  fix w w' :: "'a auth_world"
  assume inv: "hash_tells_family cy \<and> au_grace cf \<le> family_ttl \<and> sessions_ok cf cy w \<and> family_dead cy f w"
    and st: "auth_step cf cy w w'"
  have ok: "sessions_ok cf cy w'" using inv st session_rules.inv_step by blast
  from st show "hash_tells_family cy \<and> au_grace cf \<le> family_ttl \<and> sessions_ok cf cy w' \<and> family_dead cy f w'"
  proof cases
    case (call t e U s s')
    with inv ok auth_op_dead [of cy cf t U s e f s'] show ?thesis by simp
  qed
qed

text \<open>
  (C8) A killed session stays dead: once a replayed token has raised the security alert, or a
  sign-out has presented a valid refresh token of the family, while Redis answers, no token of that
  family is ever exchanged again, whatever runs in between (sign-ups, logins, codes, resets,
  rotations, the purge of old rows), before and after the mark in Redis expires.
\<close>

theorem killed_family_stays_dead:
  assumes "hash_tells_family cy" "au_grace cf \<le> family_ttl"
    and "no_sessions w0" "(auth_step cf cy)\<^sup>*\<^sup>* w0 (t, U, s)"
    and killed: "refresh_tokens cf cy e raw s = (Inl security_alert, s1)
      \<or> s1 = logout cy e user (Some raw) s \<and> raw \<noteq> [] \<and> jw_family p \<noteq> []"
    and "t \<le> ae_now e" "ae_redis e" "range (ae_id e) \<inter> U = {}"
    and "verify_refresh cy e raw = Some p" "jw_family p \<in> U"
    and "(auth_step cf cy)\<^sup>*\<^sup>* (ae_now e, U \<union> range (ae_id e), s1) (t2, U2, s2)"
    and "verify_refresh cy e2 raw2 = Some p2" "jw_family p2 = jw_family p"
  shows "fst (refresh_tokens cf cy e2 raw2 s2) \<in> {Inl session_expired, Inl security_alert}"
proof -
  have ok: "sessions_ok cf cy (t, U, s)"
    using session_rules.inv_run [OF assms(4)] no_sessions_ok assms(1-3) by blast
  have "s1 = kill_family e (jw_family p) s \<and> auth_op cf cy e s s1"
    using killed
  proof
    assume alert: "refresh_tokens cf cy e raw s = (Inl security_alert, s1)"
    have "s1 = kill_family e (jw_family p) s"
      by (cases rule: refresh_cases [OF assms(9), where s = s and cf = cf])
        (use alert in \<open>auto simp: security_alert_def session_expired_def dest: issue_error [OF sym]\<close>)
    then show ?thesis using auth_op.refresh [of cf cy e s raw] alert by simp
  next
    assume "s1 = logout cy e user (Some raw) s \<and> raw \<noteq> [] \<and> jw_family p \<noteq> []"
    then show ?thesis using auth_op.logout [of cf cy e s user "Some raw"] assms(9)
      by (simp add: logout_def truthy_def)
  qed
  then have kill: "s1 = kill_family e (jw_family p) s" and op: "auth_op cf cy e s s1" by blast+
  have "dead cy (jw_family p) (ad_tokens s1) (ad_keys s1)"
    using kill_dead [OF graces_end_mono assms(7), of "t + family_ttl * 1000" s] ok assms(6) by (simp add: kill)
  moreover have "sessions_ok cf cy (ae_now e, U \<union> range (ae_id e), s1)"
    using auth_op_ok [OF assms(1,2) ok assms(6,8) op] .
  ultimately have "sessions_ok cf cy (t2, U2, s2) \<and> family_dead cy (jw_family p) (t2, U2, s2)"
    using dead_families.inv_run [OF assms(11), of "jw_family p"] assms(1,2,10) by simp
  then show ?thesis
    using dead_refuses [OF assms(1) _ _ assms(12,13), of U2 s2 cf] by auto
qed

section \<open>One-time codes\<close>

definition live_code :: "string \<Rightarrow> string \<Rightarrow> otp_row \<Rightarrow> bool" where
  "live_code i p q \<longleftrightarrow> ot_identifier q = i \<and> ot_purpose q = p \<and> \<not> ot_used q"

text \<open>What an operation does to the codes.\<close>

lemma otps_issue: "ad_otps (snd (issue_tokens cf cy e u existing rotated m)) = ad_otps m"
  by (auto simp: issue_tokens_def Let_def auth_frames split: option.split)

lemma otps_insert: "ad_otps (snd (insert_account a s)) = ad_otps s"
  by (cases rule: insert_account_cases [of a s]) auto

text \<open>The codes of a table: kept, one superseding the live code of its key, one guessed, one used, or some purged.\<close>

inductive otps_move :: "auth_config \<Rightarrow> auth_env \<Rightarrow> otp_row list \<Rightarrow> otp_row list \<Rightarrow> bool"
  for cf :: auth_config and e :: auth_env and qs :: "otp_row list" where
  keep: "otps_move cf e qs qs"
| supersede: "ot_id n = ae_id e 3 \<Longrightarrow> \<not> ot_used n \<Longrightarrow> ot_attempts n = 0
    \<Longrightarrow> otps_move cf e qs (map (\<lambda>q. if live_code (ot_identifier n) (ot_purpose n) q then q\<lparr>ot_used := True\<rparr> else q) qs @ [n])"
| guess: "r \<in> set qs \<Longrightarrow> ot_attempts r < au_otp_attempts cf
    \<Longrightarrow> otps_move cf e qs (map (\<lambda>q. if ot_id q = ot_id r then q\<lparr>ot_attempts := ot_attempts q + 1\<rparr> else q) qs)"
| use_up: "otps_move cf e qs (map (\<lambda>q. if ot_id q = i then q\<lparr>ot_used := True\<rparr> else q) qs)"
| purge: "otps_move cf e qs (filter p qs)"

lemma create_otp_move:
  assumes "ad_otps m = ad_otps s"
  shows "otps_move cf e (ad_otps s) (ad_otps (create_otp_request e i h p x u m))"
proof -
  let ?n = "\<lparr>ot_id = ae_id e 3, ot_user = u, ot_identifier = i, ot_hash = h, ot_purpose = p,
     ot_expires = x, ot_used = False, ot_attempts = 0\<rparr>"
  have "ad_otps (create_otp_request e i h p x u m) = map (\<lambda>q. if live_code (ot_identifier ?n) (ot_purpose ?n) q
      then q\<lparr>ot_used := True\<rparr> else q) (ad_otps s) @ [?n]"
    by (simp add: create_otp_request_def live_code_def assms)
  then show ?thesis using otps_move.supersede [of ?n e cf "ad_otps s"] by simp
qed

lemma finish_move: "ad_otps m = ad_otps s \<Longrightarrow> otps_move cf e (ad_otps s) (ad_otps (snd (finish_signup cf cy e u m)))"
  by (cases "truthy (ac_email u)")
    (simp_all add: finish_signup_def otps_issue send_signup_verification_def create_otp_move keep)

lemma consume_move: "otps_move cf e (ad_otps s) (ad_otps (snd (consume_otp cf cy e i p otp s)))"
proof (cases rule: consume_otp_cases [of cf cy e i p otp s])
  case (2 x r)
  then have "r \<in> set (ad_otps s)" "ot_attempts r < au_otp_attempts cf"
    by (auto simp: find_valid_otp_def dest!: find_SomeD)
  then show ?thesis using 2(1) otps_move.guess by (simp add: increment_otp_attempts_def set_otp_def)
qed (auto simp: mark_otp_used_def set_otp_def intro: otps_move.intros)

lemma move_insert:
  assumes "ad_otps n = ad_otps s"
    and "\<And>b m. ad_otps m = ad_otps s \<Longrightarrow> otps_move cf e (ad_otps s) (ad_otps (snd (f b m)))"
  shows "otps_move cf e (ad_otps s) (ad_otps (snd (andthen (insert_account a n) f)))"
  using assms by (cases rule: insert_account_cases [of a n]) (simp_all add: keep)

lemma move_organization:
  assumes "\<And>b m. ad_otps m = ad_otps s \<Longrightarrow> otps_move cf e (ad_otps s) (ad_otps (snd (f b m)))"
  shows "otps_move cf e (ad_otps s) (ad_otps (snd (andthen (create_organization e name slug s) f)))"
  using assms by (cases rule: create_organization_cases [of e name slug s]) (simp_all add: keep)

lemma otps_find_or_insert:
  assumes "\<And>u m. ad_otps (snd (f u m)) = ad_otps m"
  shows "ad_otps (snd (andthen (case find_by_identifier s i of Some u \<Rightarrow> (Inr u, s) | None \<Rightarrow> insert_account a s) f))
    = ad_otps s"
  using assms by (cases "find_by_identifier s i"; cases rule: insert_account_cases [of a s]) simp_all

lemma signup_student_move: "otps_move cf e (ad_otps s) (ad_otps (snd (signup_student cf cy e dto s)))"
  by (auto simp: signup_student_def keep split: sum.splits intro!: move_insert finish_move)

lemma signup_admin_move: "otps_move cf e (ad_otps s) (ad_otps (snd (signup_admin cf cy e dto s)))"
  by (auto simp: signup_admin_def keep split: sum.splits
      intro!: move_organization move_insert finish_move)

lemma signup_event_move: "otps_move cf e (ad_otps s) (ad_otps (snd (signup_event_admin cf cy e dto s)))"
  by (auto simp: signup_event_admin_def keep split: sum.splits
      intro!: move_organization move_insert finish_move)

lemma consume_and:
  assumes "\<And>r m. ad_otps (snd (f r m)) = ad_otps m"
  shows "otps_move cf e (ad_otps s) (ad_otps (snd (andthen (consume_otp cf cy e i p otp s) f)))"
  using consume_move [of cf e s cy i p otp] assms
  by (cases rule: consume_otp_cases [of cf cy e i p otp s]) simp_all

lemma otps_refresh: "ad_otps (snd (refresh_tokens cf cy e raw s)) = ad_otps s"
proof (cases "verify_refresh cy e raw")
  case (Some p)
  show ?thesis
    by (cases rule: refresh_cases [OF Some, where s = s and cf = cf])
      (auto simp: prepares_def kill_family_def otps_issue auth_frames)
qed (simp add: refresh_invalid)

lemma auth_op_move:
  assumes "auth_op cf cy e s s'"
  shows "otps_move cf e (ad_otps s) (ad_otps s')"
  using assms
proof (cases rule: auth_op.cases)
  case (verify_otp i otp p)
  then show ?thesis by (auto simp: verify_otp_def Let_def otps_issue auth_frames intro!: consume_and otps_find_or_insert)
next
  case (reset i otp pw)
  then show ?thesis by (auto simp: reset_password_def Let_def revoke_all_by_user_def auth_frames keep
        intro!: consume_and split: option.split)
next
  case (request_otp i p c)
  then show ?thesis by (auto simp: request_otp_def Let_def keep intro!: create_otp_move)
next
  case (login i pw)
  then show ?thesis by (auto simp: login_def Let_def otps_issue auth_frames keep split: option.splits)
next
  case (refresh raw)
  then show ?thesis by (simp add: otps_refresh keep)
next
  case (logout user token)
  then show ?thesis
    by (auto simp: logout_def revoke_all_by_user_def kill_family_def auth_frames keep split: option.splits)
next
  case (fcm user device)
  then show ?thesis by (simp add: auth_frames keep)
next
  case (stale cutoff)
  then show ?thesis by (simp add: purge_stale_tokens_def purge)
qed (auto simp: dispatch_signup_def Let_def keep signup_student_move signup_admin_move signup_event_move)

text \<open>Codes have ids of their own, few enough guesses, and one live code per key.\<close>

definition same_key :: "otp_row \<Rightarrow> otp_row \<Rightarrow> bool" where
  "same_key a b \<longleftrightarrow> \<not> ot_used a \<and> \<not> ot_used b \<and> ot_identifier a = ot_identifier b \<and> ot_purpose a = ot_purpose b"

definition codes_ok :: "auth_config \<Rightarrow> ident set \<Rightarrow> otp_row list \<Rightarrow> bool" where
  "codes_ok cf U qs \<longleftrightarrow> distinct (map ot_id qs) \<and> ot_id ` set qs \<subseteq> U
     \<and> (\<forall>q\<in>set qs. ot_attempts q \<le> au_otp_attempts cf) \<and> apart same_key ot_id qs"

text \<open>A used code stays used, and the count of its guesses does not go back.\<close>

definition spent :: "otp_row \<Rightarrow> otp_row list \<Rightarrow> bool" where
  "spent r qs \<longleftrightarrow> (\<forall>q\<in>set qs. ot_id q = ot_id r \<longrightarrow> ot_used q)"

lemma same_key_sym: "same_key a b \<Longrightarrow> same_key b a"
  by (auto simp: same_key_def)

lemma codes_ok_move:
  assumes "otps_move cf e qs qs'" "codes_ok cf U qs" "range (ae_id e) \<inter> U = {}" "0 \<le> au_otp_attempts cf"
  shows "codes_ok cf (U \<union> range (ae_id e)) qs'"
  using assms(1)
proof cases
  case keep
  with assms(2) show ?thesis by (auto simp: codes_ok_def)
next
  case (supersede n)
  let ?m = "map (\<lambda>q. if live_code (ot_identifier n) (ot_purpose n) q then q\<lparr>ot_used := True\<rparr> else q) qs"
  have "apart same_key ot_id ?m"
    by (rule apart_map) (use assms(2) in \<open>auto simp: codes_ok_def same_key_def split: if_splits\<close>)
  then have "apart same_key ot_id (?m @ [n])"
    by (rule apart_append) (auto simp: same_key_def live_code_def)
  moreover have "ae_id e 3 \<notin> U" using assms(3) by auto
  ultimately show ?thesis using assms(2,4) supersede
    by (auto simp: codes_ok_def comp_if_id image_iff)
next
  case (guess r)
  have "ot_attempts q + 1 \<le> au_otp_attempts cf" if "q \<in> set qs" "ot_id q = ot_id r" for q
  proof -
    have "q = r" using assms(2) guess(2) that by (auto simp: codes_ok_def dest: distinct_key_eq)
    with guess(3) show ?thesis by simp
  qed
  moreover have "apart same_key ot_id qs'"
    unfolding guess(1) by (rule apart_map) (use assms(2) in \<open>auto simp: codes_ok_def same_key_def split: if_splits\<close>)
  ultimately show ?thesis using assms(2) guess(3) unfolding codes_ok_def guess(1) by (auto simp: comp_if_id)
next
  case (use_up i)
  have "apart same_key ot_id qs'"
    unfolding use_up by (rule apart_map) (use assms(2) in \<open>auto simp: codes_ok_def same_key_def split: if_splits\<close>)
  with assms(2) show ?thesis unfolding codes_ok_def use_up by (auto simp: comp_if_id)
next
  case (purge p)
  with assms(2) show ?thesis by (auto simp: codes_ok_def apart_def distinct_map_filter)
qed

lemma spent_move:
  assumes "otps_move cf e qs qs'" "spent r qs" "ot_id r \<in> U" "range (ae_id e) \<inter> U = {}"
  shows "spent r qs'"
  using assms(1)
proof cases
  case (supersede n)
  have "ae_id e 3 \<notin> U" using assms(4) by auto
  then have "ot_id n \<noteq> ot_id r" using supersede(2) assms(3) by auto
  with assms(2) supersede(1) show ?thesis by (auto simp: spent_def)
qed (use assms(2) in \<open>auto simp: spent_def\<close>)

fun spent_in :: "auth_config \<Rightarrow> otp_row \<Rightarrow> 'a auth_world \<Rightarrow> bool" where
  "spent_in cf r (t, U, s) \<longleftrightarrow>
     0 \<le> au_otp_attempts cf \<and> codes_ok cf U (ad_otps s) \<and> ot_id r \<in> U \<and> spent r (ad_otps s)"

fun codes_in :: "auth_config \<Rightarrow> 'a auth_world \<Rightarrow> bool" where
  "codes_in cf (t, U, s) \<longleftrightarrow> 0 \<le> au_otp_attempts cf \<and> codes_ok cf U (ad_otps s)"

interpretation codes: invariant_steps "auth_step cf cy" "codes_in cf" for cf cy
proof unfold_locales
  fix w w' :: "'a auth_world"
  assume inv: "codes_in cf w" and "auth_step cf cy w w'"
  from this(2) show "codes_in cf w'"
  proof cases
    case (call t e U s s')
    with inv codes_ok_move [OF auth_op_move [OF call(5)]] show ?thesis by simp
  qed
qed

interpretation spent_codes: invariant_steps "auth_step cf cy" "spent_in cf r" for cf cy r
proof unfold_locales
  fix w w' :: "'a auth_world"
  assume inv: "spent_in cf r w" and "auth_step cf cy w w'"
  from this(2) show "spent_in cf r w'"
  proof cases
    case (call t e U s s')
    note move = auth_op_move [OF call(5)]
    show ?thesis using inv call codes_ok_move [OF move] spent_move [OF move] by auto
  qed
qed

text \<open>An accepted code was live and matched, and is used afterwards.\<close>

lemma verify_accepts:
  assumes "verify_otp cf cy e i otp p s = (Inr se, s')"
  obtains r where "find_valid_otp e (normalize_identifier i) (nullish p ''login'') (au_otp_attempts cf) s = Some r"
    "cy_compare cy otp (ot_hash r)" "ad_otps s' = ad_otps (mark_otp_used (ot_id r) s)"
proof (cases rule: consume_otp_cases [of cf cy e "normalize_identifier i" "nullish p ''login''" otp s])
  case (3 r)
  have "ad_otps (snd (verify_otp cf cy e i otp p s)) = ad_otps (mark_otp_used (ot_id r) s)"
    by (auto simp: verify_otp_def Let_def 3(1) otps_issue auth_frames intro!: otps_find_or_insert)
  with 3 assms that show thesis by simp
qed (use assms in \<open>auto simp: verify_otp_def Let_def\<close>)

lemma one_live_code:
  assumes "codes_ok cf U qs"
  shows "length (filter (live_code i p) qs) \<le> 1"
proof (rule ccontr)
  let ?l = "filter (live_code i p) qs"
  assume "\<not> length ?l \<le> 1"
  then obtain a ys where "?l = a # ys" "ys \<noteq> []" by (cases ?l) auto
  then obtain b xs where l: "?l = a # b # xs" by (cases ys) auto
  have "set (a # b # xs) = set ?l" by (simp only: l)
  then have "a \<in> set qs" "b \<in> set qs" "live_code i p a" "live_code i p b" by auto
  moreover have "distinct (map ot_id ?l)" using assms by (auto simp: codes_ok_def distinct_map_filter)
  then have "ot_id a \<noteq> ot_id b" by (simp add: l)
  ultimately show False
    using assms apartD [of same_key ot_id qs a b] by (auto simp: codes_ok_def same_key_def live_code_def)
qed

text \<open>The same for a password reset.\<close>

lemma reset_accepts:
  assumes "reset_password cf cy e i otp pw s = (Inr (), s')"
  obtains r where "find_valid_otp e (normalize_identifier i) ''reset'' (au_otp_attempts cf) s = Some r"
    "cy_compare cy otp (ot_hash r)" "ad_otps s' = ad_otps (mark_otp_used (ot_id r) s)"
proof (cases rule: consume_otp_cases [of cf cy e "normalize_identifier i" "''reset''" otp s])
  case (3 r)
  have "ad_otps s' = ad_otps (mark_otp_used (ot_id r) s)"
    using assms 3(1)
    by (auto simp: reset_password_def Let_def revoke_all_by_user_def auth_frames split: if_splits option.splits)
  with 3 that show thesis by simp
qed (use assms in \<open>auto simp: reset_password_def Let_def split: if_splits\<close>)

text \<open>
  (C9) A one-time code opens once: a code that signed somebody in or reset a password was live,
  unexpired and matched, and no later request of any kind, a sign-in or a reset, finds it valid again;
  at every moment each code has had at most the configured number of wrong guesses, and an identifier
  has at most one live code per purpose.
\<close>

theorem otp_opens_once:
  assumes "ad_otps s0 = []" "0 \<le> au_otp_attempts cf" "(auth_step cf cy)\<^sup>*\<^sup>* (t0, U0, s0) (t, U, s)"
    and used: "verify_otp cf cy e i otp p s = (Inr se, s1) \<and> purpose = nullish p ''login''
      \<or> reset_password cf cy e i otp pw s = (Inr (), s1) \<and> purpose = ''reset''"
    and "range (ae_id e) \<inter> U = {}"
    and "(auth_step cf cy)\<^sup>*\<^sup>* (ae_now e, U \<union> range (ae_id e), s1) (t2, U2, s2)"
  shows "\<exists>r. find_valid_otp e (normalize_identifier i) purpose (au_otp_attempts cf) s = Some r
    \<and> cy_compare cy otp (ot_hash r)
    \<and> (\<forall>e2 i2 p2 q. find_valid_otp e2 i2 p2 (au_otp_attempts cf) s2 = Some q \<longrightarrow> ot_id q \<noteq> ot_id r)
    \<and> (\<forall>x\<in>set (ad_otps s2). ot_attempts x \<le> au_otp_attempts cf)
    \<and> (\<forall>i2 p2. length (filter (live_code i2 p2) (ad_otps s2)) \<le> 1)"
proof -
  have ok: "codes_ok cf U (ad_otps s)"
    using codes.inv_run [OF assms(3)] assms(1,2) by (simp add: codes_ok_def apart_def)
  obtain r where r: "find_valid_otp e (normalize_identifier i) purpose (au_otp_attempts cf) s = Some r"
    "cy_compare cy otp (ot_hash r)" "ad_otps s1 = ad_otps (mark_otp_used (ot_id r) s)"
    using used by (elim disjE conjE) (auto elim: verify_accepts reset_accepts)
  then have "r \<in> set (ad_otps s)" by (auto simp: find_valid_otp_def dest!: find_SomeD)
  then have mem: "ot_id r \<in> U" using ok by (auto simp: codes_ok_def)
  have "otps_move cf e (ad_otps s) (ad_otps s1)"
    using otps_move.use_up [of cf e "ad_otps s" "ot_id r"] by (simp add: r(3) mark_otp_used_def set_otp_def)
  then have "codes_ok cf (U \<union> range (ae_id e)) (ad_otps s1)"
    using codes_ok_move ok assms(2,5) by blast
  moreover have "spent r (ad_otps s1)" by (auto simp: r(3) spent_def mark_otp_used_def set_otp_def)
  ultimately have fin: "spent r (ad_otps s2)" "codes_ok cf U2 (ad_otps s2)"
    using spent_codes.inv_run [OF assms(6), of r] mem assms(2) by auto
  have never: "ot_id q \<noteq> ot_id r" if "find_valid_otp e2 i2 p2 (au_otp_attempts cf) s2 = Some q" for e2 i2 p2 q
    using fin(1) that by (auto simp: find_valid_otp_def spent_def dest!: find_SomeD)
  have one: "length (filter (live_code i2 p2) (ad_otps s2)) \<le> 1" for i2 p2
    using fin(2) by (rule one_live_code)
  show ?thesis using r(1,2) never one fin(2) by (auto simp: codes_ok_def)
qed

section \<open>Asking for a reset\<close>

text \<open>
  A request for a password reset reveals nothing about the accounts: outside development
  its answer is the same whatever accounts, codes and sessions the tables hold, and with the
  database unchanged when no account of the named workspace has the address.
\<close>

lemma reset_request_reveals_nothing:
  assumes "\<not> au_dev cf"
  shows "fst (forgot_password cf cy e identifier ctx s) = fst (forgot_password cf cy e identifier ctx s')
    \<and> ((\<forall>u. find_by_identifier s (normalize_identifier identifier) = Some u
            \<longrightarrow> \<not> truthy ctx \<or> context_for_role (ac_role u) \<noteq> the ctx)
       \<longrightarrow> snd (forgot_password cf cy e identifier ctx s) = s)"
  using assms by (auto simp: forgot_password_def request_otp_def role_matches_context_def Let_def
      split: if_splits)

section \<open>A session from login to theft\<close>

definition ex_crypto :: crypto where
  "ex_crypto =
     \<lparr>cy_sign = (\<lambda>p. replicate (length (jw_family p)) (CHR ''1'') @ CHR ''0'' # jw_family p @ jw_jti p),
      cy_decode = (\<lambda>raw. let n = length (takeWhile (\<lambda>c. c = CHR ''1'') raw)
         in Some \<lparr>jw_sub = ''u'', jw_org = None, jw_role = ''student'', jw_family = take n (drop (n + 1) raw),
                  jw_jti = drop (2 * n + 1) raw, jw_exp = 1000000\<rparr>),
      cy_access = (\<lambda>_ _ _ _. ''access''), cy_sha = (\<lambda>raw. raw), cy_hash = (\<lambda>salt pw. salt @ pw),
      cy_compare = (\<lambda>pw h. h = ''salt'' @ pw)\<rparr>"

lemma ex_crypto_law: "hash_tells_family ex_crypto"
  by (auto simp: hash_tells_family_def ex_crypto_def Let_def takeWhile_append)

definition ex_auth_config :: auth_config where
  "ex_auth_config = \<lparr>au_otp_ttl = 600, au_otp_length = 6, au_otp_attempts = 5, au_reset_kills = True,
     au_mobile_otp = False, au_grace = 90, au_access_ttl = 900, au_refresh_ttl = 604800, au_dev = False\<rparr>"

definition ex_auth_env :: "char \<Rightarrow> int \<Rightarrow> auth_env" where
  "ex_auth_env c now = \<lparr>ae_now = now, ae_redis = True, ae_id = (\<lambda>n. c # replicate n CHR ''x''),
     ae_salt = ''salt'', ae_draw = (\<lambda>_. 0)\<rparr>"

definition ex_account :: account where
  "ex_account = (new_account ''u'')\<lparr>ac_name := ''Asha'', ac_email := Some ''a@b.in'',
     ac_password := Some ''saltsecret''\<rparr>"

definition ex_auth :: auth_db where
  "ex_auth = \<lparr>ad_accounts = [ex_account], ad_orgs = [], ad_tokens = [], ad_otps = [], ad_events = [],
     ad_keys = Map.empty\<rparr>"

definition ex_pair :: "char \<Rightarrow> string" where
  "ex_pair c = cy_sign ex_crypto (jwt_for ex_auth_config (ex_auth_env c 0) ex_account ''axxxx'')"

definition ex_logged_in :: auth_db where
  "ex_logged_in = snd (login ex_auth_config ex_crypto (ex_auth_env CHR ''a'' 0) ''A@b.in'' (Some ''secret'') ex_auth)"

definition ex_rotated :: auth_db where
  "ex_rotated = snd (refresh_tokens ex_auth_config ex_crypto (ex_auth_env CHR ''b'' 1000) (ex_pair CHR ''a'') ex_logged_in)"

definition ex_forked :: auth_db where
  "ex_forked = snd (refresh_tokens ex_auth_config ex_crypto (ex_auth_env CHR ''c'' 2000) (ex_pair CHR ''b'') ex_rotated)"

definition ex_alerted :: auth_db where
  "ex_alerted = snd (refresh_tokens ex_auth_config ex_crypto (ex_auth_env CHR ''d'' 200000) (ex_pair CHR ''a'') ex_forked)"

lemma ex_ids: "range (ae_id (ex_auth_env c now)) \<inter> range (ae_id (ex_auth_env d now')) = {} \<longleftrightarrow> c \<noteq> d"
  by (auto simp: ex_auth_env_def)

lemma ex_session_run:
  "(auth_step ex_auth_config ex_crypto)\<^sup>*\<^sup>* (0, {}, ex_auth)
     (2000, range (ae_id (ex_auth_env CHR ''a'' 0)) \<union> range (ae_id (ex_auth_env CHR ''b'' 1000))
        \<union> range (ae_id (ex_auth_env CHR ''c'' 2000)), ex_forked)"
proof -
  let ?cf = ex_auth_config and ?cy = ex_crypto
  let ?a = "ex_auth_env CHR ''a'' 0" and ?b = "ex_auth_env CHR ''b'' 1000" and ?c = "ex_auth_env CHR ''c'' 2000"
  have now: "ae_now ?a = 0" "ae_now ?b = 1000" "ae_now ?c = 2000" by (simp_all add: ex_auth_env_def)
  have 1: "(auth_step ?cf ?cy)\<^sup>*\<^sup>* (0, {}, ex_auth) (0, range (ae_id ?a), ex_logged_in)"
    using auth_step.call [OF _ _ auth_op.login [of ?cf ?cy ?a ex_auth "''A@b.in''" "Some ''secret''"], of 0 "{}"]
    by (simp add: now ex_logged_in_def r_into_rtranclp)
  have 2: "(auth_step ?cf ?cy)\<^sup>*\<^sup>* (0, range (ae_id ?a), ex_logged_in)
      (1000, range (ae_id ?a) \<union> range (ae_id ?b), ex_rotated)"
    using auth_step.call [OF _ _ auth_op.refresh [of ?cf ?cy ?b ex_logged_in "ex_pair CHR ''a''"], of 0 "range (ae_id ?a)"]
    by (simp add: now ex_ids ex_rotated_def r_into_rtranclp)
  have 3: "(auth_step ?cf ?cy)\<^sup>*\<^sup>* (1000, range (ae_id ?a) \<union> range (ae_id ?b), ex_rotated)
      (2000, range (ae_id ?a) \<union> range (ae_id ?b) \<union> range (ae_id ?c), ex_forked)"
    using auth_step.call [OF _ _ auth_op.refresh [of ?cf ?cy ?c ex_rotated "ex_pair CHR ''b''"], of 1000
        "range (ae_id ?a) \<union> range (ae_id ?b)"]
    by (simp add: now ex_ids Int_Un_distrib ex_forked_def r_into_rtranclp)
  show ?thesis by (rule rtranclp_trans [OF rtranclp_trans [OF 1 2] 3])
qed

lemma ex_families:
  "verify_refresh ex_crypto (ex_auth_env CHR ''d'' 200000) (ex_pair CHR ''a'')
     = Some (the (cy_decode ex_crypto (ex_pair CHR ''a'')))"
  "verify_refresh ex_crypto (ex_auth_env CHR ''e'' 300000) (ex_pair CHR ''c'')
     = Some (the (cy_decode ex_crypto (ex_pair CHR ''c'')))"
  "jw_family (the (cy_decode ex_crypto (ex_pair CHR ''a''))) = ''axxxx''"
  "jw_family (the (cy_decode ex_crypto (ex_pair CHR ''c''))) = ''axxxx''"
  by code_simp+

text \<open>The member signs out with the first token of the family; the last one of it is presented later.\<close>

definition ex_signed_out :: auth_db where
  "ex_signed_out = logout ex_crypto (ex_auth_env CHR ''d'' 200000) ''u'' (Some (ex_pair CHR ''a'')) ex_forked"

theorem killed_family_stays_dead_witness:
  "fst (refresh_tokens ex_auth_config ex_crypto (ex_auth_env CHR ''e'' 300000) (ex_pair CHR ''c'') ex_alerted)
     \<in> {Inl session_expired, Inl security_alert}
   \<and> fst (refresh_tokens ex_auth_config ex_crypto (ex_auth_env CHR ''e'' 300000) (ex_pair CHR ''c'') ex_signed_out)
     \<in> {Inl session_expired, Inl security_alert}"
proof -
  let ?d = "ex_auth_env CHR ''d'' 200000" and ?e = "ex_auth_env CHR ''e'' 300000"
  let ?U = "range (ae_id (ex_auth_env CHR ''a'' 0)) \<union> range (ae_id (ex_auth_env CHR ''b'' 1000))
        \<union> range (ae_id (ex_auth_env CHR ''c'' 2000))"
  let ?p = "the (cy_decode ex_crypto (ex_pair CHR ''a''))"
  have start: "au_grace ex_auth_config \<le> family_ttl" "no_sessions (0, {}, ex_auth)" "2000 \<le> ae_now ?d" "ae_redis ?d"
    by (simp_all add: ex_auth_config_def ex_auth_env_def ex_auth_def family_ttl_def)
  have alert: "refresh_tokens ex_auth_config ex_crypto ?d (ex_pair CHR ''a'') ex_forked = (Inl security_alert, ex_alerted)"
    unfolding ex_alerted_def by (rule prod_eqI, code_simp, simp only: snd_conv)
  have out: "ex_signed_out = logout ex_crypto ?d ''u'' (Some (ex_pair CHR ''a'')) ex_forked
      \<and> ex_pair CHR ''a'' \<noteq> [] \<and> jw_family ?p \<noteq> []"
    unfolding ex_signed_out_def by (intro conjI refl) code_simp+
  have "''axxxx'' = ae_id (ex_auth_env CHR ''a'' 0) 4" by code_simp
  then have fam: "jw_family ?p \<in> ?U" unfolding ex_families by blast
  have ids: "range (ae_id ?d) \<inter> ?U = {}" by (simp add: Int_Un_distrib ex_ids)
  have same: "jw_family (the (cy_decode ex_crypto (ex_pair CHR ''c''))) = jw_family ?p" by (simp add: ex_families)
  note dead = killed_family_stays_dead [OF ex_crypto_law start(1,2) ex_session_run _ start(3,4) ids ex_families(1) fam
      rtranclp.rtrancl_refl ex_families(2) same]
  show ?thesis using dead [OF disjI1 [OF alert]] dead [OF disjI2 [OF out]] by (rule conjI)
qed

definition ex_asked :: auth_db where
  "ex_asked = snd (request_otp ex_auth_config ex_crypto (ex_auth_env CHR ''a'' 0) ''a@b.in'' None None ex_auth)"

definition ex_entered :: auth_db where
  "ex_entered = snd (verify_otp ex_auth_config ex_crypto (ex_auth_env CHR ''b'' 1000) ''a@b.in'' ''100000'' None ex_asked)"

definition ex_asked_again :: auth_db where
  "ex_asked_again =
     snd (request_otp ex_auth_config ex_crypto (ex_auth_env CHR ''c'' 2000) ''a@b.in'' None None ex_entered)"

text \<open>A password is reset with the first code; a second one is asked for.\<close>

definition ex_reset_asked :: auth_db where
  "ex_reset_asked = snd (forgot_password ex_auth_config ex_crypto (ex_auth_env CHR ''a'' 0) ''a@b.in'' (Some ''student'') ex_auth)"

definition ex_reset_done :: auth_db where
  "ex_reset_done = snd (reset_password ex_auth_config ex_crypto (ex_auth_env CHR ''b'' 1000) ''a@b.in'' ''100000'' ''newpass1'' ex_reset_asked)"

theorem otp_opens_once_witness:
  "(\<exists>r. find_valid_otp (ex_auth_env CHR ''b'' 1000) ''a@b.in'' ''login'' 5 ex_asked = Some r
        \<and> ot_id (the (find_valid_otp (ex_auth_env CHR ''d'' 3000) ''a@b.in'' ''login'' 5 ex_asked_again)) \<noteq> ot_id r)
   \<and> (\<exists>r. find_valid_otp (ex_auth_env CHR ''b'' 1000) ''a@b.in'' ''reset'' 5 ex_reset_asked = Some r
        \<and> cy_compare ex_crypto ''100000'' (ot_hash r))
   \<and> find_valid_otp (ex_auth_env CHR ''b'' 1000) ''a@b.in'' ''reset'' 5 ex_reset_done = None"
proof -
  let ?cf = ex_auth_config and ?cy = ex_crypto
  let ?a = "ex_auth_env CHR ''a'' 0" and ?b = "ex_auth_env CHR ''b'' 1000" and ?c = "ex_auth_env CHR ''c'' 2000"
  have now: "ae_now ?a = 0" "ae_now ?b = 1000" "ae_now ?c = 2000" by (simp_all add: ex_auth_env_def)
  have none: "ad_otps ex_auth = []" "0 \<le> au_otp_attempts ?cf" "range (ae_id ?b) \<inter> range (ae_id ?a) = {}"
    by (simp_all add: ex_auth_def ex_auth_config_def ex_ids)
  have 1: "(auth_step ?cf ?cy)\<^sup>*\<^sup>* (0, {}, ex_auth) (0, range (ae_id ?a), ex_asked)"
    using auth_step.call [OF _ _ auth_op.request_otp [of ?cf ?cy ?a ex_auth "''a@b.in''" None None], of 0 "{}"]
    by (simp add: now ex_asked_def r_into_rtranclp)
  have 2: "verify_otp ?cf ?cy ?b ''a@b.in'' ''100000'' None ex_asked
      = (Inr (projr (fst (verify_otp ?cf ?cy ?b ''a@b.in'' ''100000'' None ex_asked))), ex_entered) \<and> ''login'' = nullish None ''login''"
    unfolding ex_entered_def by (rule conjI, rule prod_eqI, code_simp, simp only: snd_conv, code_simp)
  have 3: "(auth_step ?cf ?cy)\<^sup>*\<^sup>* (ae_now ?b, range (ae_id ?a) \<union> range (ae_id ?b), ex_entered)
      (2000, range (ae_id ?a) \<union> range (ae_id ?b) \<union> range (ae_id ?c), ex_asked_again)"
    using auth_step.call [OF _ _ auth_op.request_otp [of ?cf ?cy ?c ex_entered "''a@b.in''" None None], of 1000
        "range (ae_id ?a) \<union> range (ae_id ?b)"]
    by (simp add: now ex_ids Int_Un_distrib ex_asked_again_def r_into_rtranclp)
  have 4: "find_valid_otp (ex_auth_env CHR ''d'' 3000) ''a@b.in'' ''login'' 5 ex_asked_again
      = Some (the (find_valid_otp (ex_auth_env CHR ''d'' 3000) ''a@b.in'' ''login'' 5 ex_asked_again))"
    by code_simp
  have 5: "normalize_identifier ''a@b.in'' = ''a@b.in''" "au_otp_attempts ?cf = 5" by code_simp+
  have 6: "(auth_step ?cf ?cy)\<^sup>*\<^sup>* (0, {}, ex_auth) (0, range (ae_id ?a), ex_reset_asked)"
    using auth_step.call [OF _ _ auth_op.request_otp [of ?cf ?cy ?a ex_auth "''a@b.in''" "Some ''reset''" "Some ''student''"], of 0 "{}"]
    by (simp add: now ex_reset_asked_def forgot_password_def r_into_rtranclp)
  have 7: "reset_password ?cf ?cy ?b ''a@b.in'' ''100000'' ''newpass1'' ex_reset_asked = (Inr (), ex_reset_done) \<and> ''reset'' = ''reset''"
    unfolding ex_reset_done_def by (rule conjI, rule prod_eqI, code_simp, simp only: snd_conv, rule refl)
  have 8: "find_valid_otp ?b ''a@b.in'' ''reset'' 5 ex_reset_done = None" by code_simp
  show ?thesis
    using otp_opens_once [OF none(1,2) 1 disjI1 [OF 2] none(3) 3] 4
      otp_opens_once [OF none(1,2) 6 disjI2 [OF 7] none(3) rtranclp.rtrancl_refl] 8
    unfolding 5 by blast
qed

end
