(* ===== verification/Profiles.thy ===== *)
theory Profiles
  imports Session_Laws System_Default
begin

text \<open>
  Profiles (\<open>src/src/features/users/users.service.ts\<close> with its repository and controller): the
  read-time synchronisation of the vacation flag, profile edits, the vacation and
  auto-attendance switches, removal by an administrator and deletion of one's own account.
  Pushes, audit entries and stored images are left out; an uploaded avatar is its URL.
\<close>

section \<open>Tables and clock\<close>

record people = auth_db +
  pe_db :: db
  pe_requests :: "vacation_row list"
  pe_meals :: "meal_row list"

record clock_env = auth_env +
  ae_date :: "string \<Rightarrow> string"
  ae_upload :: "string \<Rightarrow> string option"

definition org_timezone :: "people \<Rightarrow> ident option \<Rightarrow> string" where
  "org_timezone s org =
     (case Option.bind org (\<lambda>i. find (\<lambda>g. og_id g = i) (ad_orgs s)) of
        None \<Rightarrow> ''Asia/Kolkata'' | Some g \<Rightarrow> og_timezone g)"

definition business_day :: "clock_env \<Rightarrow> people \<Rightarrow> account \<Rightarrow> int option" where
  "business_day e s u = to_utc_midnight (ae_date e (org_timezone s (ac_org u)))"

definition update_members :: "(member_row \<Rightarrow> bool) \<Rightarrow> (member_row \<Rightarrow> member_row) \<Rightarrow> people \<Rightarrow> people" where
  "update_members p f s =
     s\<lparr>pe_db := (pe_db s)\<lparr>db_members := map (\<lambda>m. if p m then f m else m) (db_members (pe_db s))\<rparr>\<rparr>"

definition set_member_flag :: "clock_env \<Rightarrow> bool option \<Rightarrow> member_row \<Rightarrow> member_row" where
  "set_member_flag e v m = m\<lparr>gm_vacation := v, gm_updated_at := ae_now e\<rparr>"

definition set_account_flag :: "ident \<Rightarrow> bool \<Rightarrow> people \<Rightarrow> people" where
  "set_account_flag user b = set_account user (\<lambda>a. a\<lparr>ac_vacation := b\<rparr>)"

section \<open>The vacation flag at read time\<close>

definition live_approved :: "people \<Rightarrow> ident \<Rightarrow> vacation_row list" where
  "live_approved s user = filter (\<lambda>r. vr_user r = user \<and> vr_status r = VacApproved \<and> \<not> vr_deleted r) (pe_requests s)"

definition covers_day :: "int \<Rightarrow> vacation_row \<Rightarrow> bool" where
  "covers_day today r \<longleftrightarrow> vr_start r \<le> today \<and> today \<le> vr_end r"

definition targets_of :: "vacation_row list \<Rightarrow> bool \<times> ident list" where
  "targets_of rs = split_vacation_targets (map vacation_range.truncate rs) False []"

text \<open>
  \<open>isVacationMode: \{ not: true \}\<close> does not match a null column: only memberships with an
  explicit \<open>false\<close> are raised.
\<close>

definition raise_members :: "clock_env \<Rightarrow> ident \<Rightarrow> ident list \<Rightarrow> people \<Rightarrow> people" where
  "raise_members e user gids =
     update_members (\<lambda>m. gm_user m = user \<and> gm_group m \<in> set gids \<and> gm_vacation m = Some False)
       (set_member_flag e (Some True))"

definition sync_vacation_expiry :: "clock_env \<Rightarrow> ident \<Rightarrow> people \<Rightarrow> people" where
  "sync_vacation_expiry e user s =
     (case find_account s user of
        None \<Rightarrow> s
      | Some u \<Rightarrow>
          (case business_day e s u of
             None \<Rightarrow> s
           | Some today \<Rightarrow>
               let covering = filter (covers_day today) (live_approved s user);
                   (org_level, gids) = targets_of covering;
                   s1 = (if gids = [] then s else raise_members e user gids s)
               in if org_level \<and> \<not> ac_vacation u then set_account_flag user True s1
                  else if \<not> org_level \<and> ac_vacation u
                       \<and> list_ex (\<lambda>r. vr_group r = None) (live_approved s user)
                  then set_account_flag user False s1
                  else s1))"

text \<open>The approved requests around now, and the membership flags of the profile bundle.\<close>

definition approved_near :: "clock_env \<Rightarrow> people \<Rightarrow> ident \<Rightarrow> vacation_row list" where
  "approved_near e s user =
     filter (\<lambda>r. vr_start r \<le> ae_now e + 2 * day_ms \<and> ae_now e - 2 * day_ms \<le> vr_end r) (live_approved s user)"

definition member_vacation :: "people \<Rightarrow> ident \<Rightarrow> ident \<Rightarrow> bool option" where
  "member_vacation s user gid =
     Option.bind (find (\<lambda>m. gm_user m = user \<and> gm_group m = gid \<and> gm_status m = MemberActive) (db_members (pe_db s)))
       gm_vacation"

definition resolve_vacation_flag ::
  "clock_env \<Rightarrow> ident \<Rightarrow> bool \<Rightarrow> int \<Rightarrow> vacation_row list \<Rightarrow> (ident \<Rightarrow> bool option) \<Rightarrow> people \<Rightarrow> bool \<times> people" where
  "resolve_vacation_flag e user flag today near mv s =
     (let (org_level, gids) = targets_of (filter (covers_day today) near);
          rising = filter (\<lambda>g. mv g \<noteq> Some True) gids;
          s1 = (if rising = [] then s else raise_members e user rising s)
      in if org_level \<and> \<not> flag then (True, set_account_flag user True s1)
         else
           let ended = filter (\<lambda>r. vr_end r < today) near;
               falling = filter (\<lambda>g. g \<notin> set gids \<and> mv g = Some True) (snd (targets_of ended));
               s2 = (if falling = [] then s1
                     else update_members (\<lambda>m. gm_user m = user \<and> gm_group m \<in> set falling \<and> gm_vacation m = Some True)
                            (set_member_flag e None) s1)
           in if \<not> org_level \<and> flag \<and> list_ex (\<lambda>r. vr_group r = None \<and> vr_end r < today) near
              then (False, set_account_flag user False s2)
              else (flag, s2))"

definition get_me :: "clock_env \<Rightarrow> ident \<Rightarrow> people \<Rightarrow> (account \<times> ident list option, people) act" where
  "get_me e user s =
     (case find_account s user of
        None \<Rightarrow> (Inl (NotFound ''User not found''), s)
      | Some u \<Rightarrow>
          (case business_day e s u of
             None \<Rightarrow> (Inl BadDate, s)
           | Some today \<Rightarrow>
               let near = approved_near e s user;
                   (flag, s') = resolve_vacation_flag e user (ac_vacation u) today near (member_vacation s user) s
               in (Inr (u\<lparr>ac_vacation := flag\<rparr>, resolve_vacation_scope (map vacation_range.truncate near) today), s')))"

section \<open>Returning early\<close>

definition ends_now :: "int \<Rightarrow> ident \<Rightarrow> ident option \<Rightarrow> vacation_row \<Rightarrow> bool" where
  "ends_now today user grp r \<longleftrightarrow>
     vr_user r = user \<and> vr_status r = VacApproved \<and> \<not> vr_deleted r \<and> covers_day today r
     \<and> (truthy grp \<longrightarrow> vr_group r = grp \<or> vr_group r = None)"

definition end_request :: "int \<Rightarrow> vacation_row \<Rightarrow> vacation_row" where
  "end_request today r =
     (if vr_start r < today then r\<lparr>vr_end := today - day_ms\<rparr> else r\<lparr>vr_status := VacCancelled\<rparr>)"

definition end_covering_requests :: "clock_env \<Rightarrow> ident \<Rightarrow> ident option \<Rightarrow> people \<Rightarrow> ident list \<times> people" where
  "end_covering_requests e user grp s =
     (case find_account s user of
        None \<Rightarrow> ([], s)
      | Some u \<Rightarrow>
          (case business_day e s u of
             None \<Rightarrow> ([], s)
           | Some today \<Rightarrow>
               (map vr_id (filter (ends_now today user grp) (pe_requests s)),
                s\<lparr>pe_requests := map (\<lambda>r. if ends_now today user grp r then end_request today r else r)
                                  (pe_requests s)\<rparr>)))"

section \<open>Per-group settings\<close>

text \<open>An active membership of an active group of the caller's organisation.\<close>

definition writable_membership :: "people \<Rightarrow> ident \<Rightarrow> ident \<Rightarrow> ident \<Rightarrow> member_row \<Rightarrow> bool" where
  "writable_membership s user gid org m \<longleftrightarrow>
     gm_user m = user \<and> gm_group m = gid \<and> gm_status m = MemberActive
     \<and> (\<exists>g\<in>set (db_groups (pe_db s)). gr_id g = gid \<and> gr_org g = org \<and> gr_is_active g)"

definition find_active_membership :: "people \<Rightarrow> ident \<Rightarrow> ident \<Rightarrow> ident \<Rightarrow> ident option" where
  "find_active_membership s user gid org =
     map_option gm_id (find (writable_membership s user gid org) (db_members (pe_db s)))"

definition set_member_default_attendance ::
  "clock_env \<Rightarrow> ident \<Rightarrow> ident \<Rightarrow> ident \<Rightarrow> bool \<Rightarrow> people \<Rightarrow> bool \<times> people" where
  "set_member_default_attendance e user gid org b s =
     (list_ex (writable_membership s user gid org) (db_members (pe_db s)),
      update_members (writable_membership s user gid org)
        (\<lambda>m. m\<lparr>gm_default := Some b, gm_updated_at := ae_now e\<rparr>) s)"

definition set_member_vacation_mode ::
  "clock_env \<Rightarrow> ident \<Rightarrow> ident \<Rightarrow> ident \<Rightarrow> bool option \<Rightarrow> people \<Rightarrow> bool \<times> people" where
  "set_member_vacation_mode e user gid org v s =
     (list_ex (writable_membership s user gid org) (db_members (pe_db s)),
      update_members (writable_membership s user gid org) (set_member_flag e v) s)"

definition set_vacation_org_wide :: "clock_env \<Rightarrow> ident \<Rightarrow> bool \<Rightarrow> people \<Rightarrow> people" where
  "set_vacation_org_wide e user b s =
     update_members (\<lambda>m. gm_user m = user \<and> gm_vacation m \<noteq> None) (set_member_flag e None) (set_account_flag user b s)"

definition vacation_requires_approval :: "people \<Rightarrow> ident \<Rightarrow> ident option \<Rightarrow> bool" where
  "vacation_requires_approval s user grp \<longleftrightarrow>
     (\<exists>m\<in>set (db_members (pe_db s)). (truthy grp \<longrightarrow> Some (gm_group m) = grp) \<and> gm_user m = user
        \<and> gm_status m = MemberActive
        \<and> (\<exists>g\<in>set (db_groups (pe_db s)). gr_id g = gm_group m \<and> gr_is_active g \<and> gr_vacation_approval g))"

text \<open>\<open>resumeAutoAttendanceForUser\<close>: the once-keys of today's meals are cleared.\<close>

definition resume_groups :: "people \<Rightarrow> account \<Rightarrow> ident \<Rightarrow> ident list" where
  "resume_groups s u org =
     map gm_group (filter (\<lambda>m. gm_user m = ac_id u \<and> gm_status m = MemberActive
       \<and> (\<exists>g\<in>set (db_groups (pe_db s)). gr_id g = gm_group m \<and> gr_org g = org \<and> gr_is_active g)
       \<and> member_flag_where True (gm_default m) (ac_default u)) (db_members (pe_db s)))"

definition auto_once_key :: "ident \<Rightarrow> ident \<Rightarrow> string \<Rightarrow> string" where
  "auto_once_key org meal date = ''autoattend:done:'' @ org @ '':'' @ meal @ '':'' @ date"

definition resume_auto_attendance :: "clock_env \<Rightarrow> ident \<Rightarrow> people \<Rightarrow> people" where
  "resume_auto_attendance e user s =
     (case find_account s user of
        None \<Rightarrow> s
      | Some u \<Rightarrow>
          (case ac_org u of
             None \<Rightarrow> s
           | Some org \<Rightarrow>
               let date = ae_date e (org_timezone s (Some org));
                   keys = map (\<lambda>m. auto_once_key org (ml_id m) date)
                     (filter (\<lambda>m. ml_org m = org \<and> ml_group m \<in> set (resume_groups s u org)
                        \<and> ml_attendance_enabled m) (pe_meals s))
               in if org = [] \<or> \<not> ae_redis e then s
                  else s\<lparr>ad_keys := (\<lambda>k. if k \<in> set keys then None else ad_keys s k)\<rparr>))"

section \<open>Profile edits\<close>

record profile_dto =
  pf_name :: "string option"
  pf_email :: "string option"
  pf_phone :: "string option"
  pf_avatar :: "string option"
  pf_gender :: "string option"
  pf_age :: "int option"
  pf_vacation :: "bool option"
  pf_default :: "bool option"
  pf_reminders :: "bool option"
  pf_login_pref :: "string option"

definition exists_by_email :: "string \<Rightarrow> 'a auth_db_scheme \<Rightarrow> bool" where
  "exists_by_email e s \<longleftrightarrow> list_ex (email_is e) (ad_accounts s)"

definition exists_by_phone :: "string \<Rightarrow> 'a auth_db_scheme \<Rightarrow> bool" where
  "exists_by_phone p s \<longleftrightarrow> list_ex (phone_is p) (ad_accounts s)"

definition starts_with :: "string \<Rightarrow> string \<Rightarrow> bool" where
  "starts_with pre v \<longleftrightarrow> take (length pre) v = pre"

definition image_data :: "string \<Rightarrow> bool" where
  "image_data v \<longleftrightarrow>
     (starts_with ''data:image/jpeg;base64,'' v \<and> 23 < length v)
     \<or> (starts_with ''data:image/png;base64,'' v \<and> 22 < length v)"

text \<open>The pattern \<open>^\+?[1-9]\d\{7,14\}$\<close> of the phone field of the request.\<close>

definition phone_dto_ok :: "string option \<Rightarrow> bool" where
  "phone_dto_ok p \<longleftrightarrow>
     (case p of None \<Rightarrow> True
      | Some v \<Rightarrow> let d = (if v \<noteq> [] \<and> hd v = CHR ''+'' then tl v else v)
                  in all_digits d \<and> hd d \<noteq> CHR ''0'' \<and> 8 \<le> length d \<and> length d \<le> 15)"

definition resolve_avatar :: "clock_env \<Rightarrow> string option \<Rightarrow> string option \<Rightarrow> string option" where
  "resolve_avatar e incoming previous =
     (case incoming of None \<Rightarrow> None
      | Some v \<Rightarrow> if \<not> starts_with ''data:image'' v \<or> \<not> image_data v then incoming
                  else nullish_opt (ae_upload e v) previous)"

definition or_keep :: "'a option \<Rightarrow> 'a \<Rightarrow> 'a" where
  "or_keep v old = nullish v old"

definition edited :: "clock_env \<Rightarrow> profile_dto \<Rightarrow> string option \<Rightarrow> account \<Rightarrow> account" where
  "edited e dto phone a =
     a\<lparr>ac_name := or_keep (pf_name dto) (ac_name a),
       ac_email := (if pf_email dto = None then ac_email a else normalize_email (pf_email dto)),
       ac_phone := nullish_opt phone (ac_phone a),
       ac_avatar := nullish_opt (resolve_avatar e (pf_avatar dto) (ac_avatar a)) (ac_avatar a),
       ac_gender := nullish_opt (pf_gender dto) (ac_gender a),
       ac_age := nullish_opt (pf_age dto) (ac_age a),
       ac_vacation := or_keep (pf_vacation dto) (ac_vacation a),
       ac_default := or_keep (pf_default dto) (ac_default a),
       ac_reminders := or_keep (pf_reminders dto) (ac_reminders a),
       ac_login_pref := nullish_opt (pf_login_pref dto) (ac_login_pref a)\<rparr>"

definition profile_phone :: "profile_dto \<Rightarrow> string option" where
  "profile_phone dto = (case pf_phone dto of None \<Rightarrow> None | Some p \<Rightarrow> Some (nullish (normalize_phone (Some p)) p))"

definition profile_gate :: "profile_dto \<Rightarrow> account \<Rightarrow> people \<Rightarrow> exn + unit" where
  "profile_gate dto u s =
     (let phone = profile_phone dto
      in if truthy (pf_email dto) \<and> pf_email dto \<noteq> ac_email u \<and> exists_by_email (the (pf_email dto)) s
         then Inl (Conflict ''Email already in use'')
         else if truthy phone \<and> phone \<noteq> ac_phone u \<and> exists_by_phone (the phone) s
         then Inl (Conflict ''Phone number already in use'')
         else if pf_login_pref dto = Some ''mobile'' \<and> \<not> truthy (nullish_opt phone (ac_phone u))
         then Inl (BadRequest ''loginPreference'')
         else if pf_vacation dto = Some True \<and> \<not> ac_vacation u \<and> vacation_requires_approval s (ac_id u) None
         then Inl (Unprocessable ''VACATION_REQUIRES_APPROVAL'')
         else Inr ())"

definition update_me :: "clock_env \<Rightarrow> ident \<Rightarrow> profile_dto \<Rightarrow> people \<Rightarrow> (account, people) act" where
  "update_me e user dto s =
     (case find_account s user of
        None \<Rightarrow> (Inl (NotFound ''User not found''), s)
      | Some u \<Rightarrow>
          (case profile_gate dto u s of
             Inl x \<Rightarrow> (Inl x, s)
           | Inr _ \<Rightarrow>
               let s1 = (if pf_vacation dto = Some False \<and> ac_vacation u
                         then snd (end_covering_requests e user None s) else s);
                   b = edited e dto (profile_phone dto) u
               in if \<exists>c\<in>set (ad_accounts s1). ac_id c \<noteq> user \<and> clashes b c
                  then (Inl (Conflict ''P2002''), s1)
                  else (Inr b, set_account user (edited e dto (profile_phone dto)) s1)))"

section \<open>The switches\<close>

definition membership_required :: exn where
  "membership_required = Forbidden ''GROUP_MEMBERSHIP_REQUIRED''"

text \<open>The actor is absent or a pair of its id and its organisation.\<close>

definition set_vacation_mode ::
  "clock_env \<Rightarrow> ident \<Rightarrow> bool \<Rightarrow> (ident \<times> ident option) option \<Rightarrow> ident option \<Rightarrow> people \<Rightarrow> (bool, people) act" where
  "set_vacation_mode e user b actor grp s =
     (let is_self = (case actor of None \<Rightarrow> True | Some (i, _) \<Rightarrow> i = user);
          org = nullish (Option.bind actor snd) []
      in if truthy grp \<and> find_active_membership s user (the grp) org = None then (Inl membership_required, s)
         else if is_self \<and> b \<and> vacation_requires_approval s user grp
         then (Inl (Unprocessable ''VACATION_REQUIRES_APPROVAL''), s)
         else
           let s1 = (if b then s else snd (end_covering_requests e user grp s));
               (applied, s2) = (if truthy grp then set_member_vacation_mode e user (the grp) org (Some b) s1
                                else (find_account s1 user \<noteq> None, set_vacation_org_wide e user b s1))
           in if truthy grp \<and> \<not> applied then (Inl membership_required, s1)
              else if \<not> applied then (Inl (Internal ''P2025''), s1)
              else (Inr b, if b then s2 else resume_auto_attendance e user s2))"

definition set_default_attendance ::
  "clock_env \<Rightarrow> ident \<Rightarrow> bool \<Rightarrow> ident option \<Rightarrow> ident option \<Rightarrow> people \<Rightarrow> (bool, people) act" where
  "set_default_attendance e user b grp org s =
     (if truthy grp then
        let (applied, s1) = set_member_default_attendance e user (the grp) (nullish org []) b s
        in if \<not> applied then (Inl membership_required, s)
           else (Inr b, if b then resume_auto_attendance e user s1 else s1)
      else if find_account s user = None then (Inl (Internal ''P2025''), s)
      else (Inr b, set_account user (\<lambda>a. a\<lparr>ac_default := b\<rparr>) s))"

section \<open>Listing, removing and deleting\<close>

definition list_by_org :: "ident \<Rightarrow> int \<Rightarrow> int \<Rightarrow> people \<Rightarrow> account list \<times> int" where
  "list_by_org org page limit s =
     (let p = max 1 page; l = min 100 (max 1 limit);
          us = filter (\<lambda>a. ac_org a = Some org \<and> ac_active a) (ad_accounts s)
      in (take (nat l) (drop (nat ((p - 1) * l)) (rev us)), int (length us)))"

definition remove_user :: "ident \<Rightarrow> ident option \<Rightarrow> people \<Rightarrow> (unit, people) act" where
  "remove_user user org s =
     (case find_account s user of
        None \<Rightarrow> (Inl (NotFound ''User not found''), s)
      | Some u \<Rightarrow>
          if ac_org u \<noteq> org then (Inl (NotFound ''User not found''), s)
          else (Inr (), set_account user (\<lambda>a. a\<lparr>ac_active := False\<rparr>) s))"

definition purge_person :: "ident \<Rightarrow> db \<Rightarrow> db" where
  "purge_person user d =
     d\<lparr>db_corrections := filter (\<lambda>c. cr_user c \<noteq> user) (db_corrections d),
       db_guests := filter (\<lambda>g. hg_host g \<noteq> user) (db_guests d),
       db_ledger := filter (\<lambda>l. le_user l \<noteq> user) (db_ledger d),
       db_attendance := map (\<lambda>r. if at_marked_by r = Some user then r\<lparr>at_marked_by := None\<rparr> else r)
                          (filter (\<lambda>r. at_user r \<noteq> user) (db_attendance d)),
       db_members := filter (\<lambda>m. gm_user m \<noteq> user) (db_members d),
       db_groups := map (\<lambda>g. if gr_admin g = Some user then g\<lparr>gr_admin := None\<rparr> else g) (db_groups d)\<rparr>"

definition hard_delete_account :: "ident \<Rightarrow> string option \<Rightarrow> string option \<Rightarrow> people \<Rightarrow> people" where
  "hard_delete_account user email phone s =
     (let identifiers = map the (filter truthy [email, phone])
      in s\<lparr>ad_tokens := filter (\<lambda>t. tk_user t \<noteq> user) (ad_tokens s),
           ad_otps := filter (\<lambda>q. \<not> (ot_user q = Some user \<or> ot_identifier q \<in> set identifiers)) (ad_otps s),
           ad_events := filter (\<lambda>v. ev_admin v \<noteq> user) (ad_events s),
           ad_accounts := filter (\<lambda>a. ac_id a \<noteq> user) (ad_accounts s),
           pe_db := purge_person user (pe_db s),
           pe_requests := filter (\<lambda>r. vr_user r \<noteq> user) (pe_requests s)\<rparr>)"

text \<open>\<open>includes\<close> of \<open>-archived-\<close>; the suffix of the new slug is the clock.\<close>

fun contains_text :: "string \<Rightarrow> string \<Rightarrow> bool" where
  "contains_text pat [] \<longleftrightarrow> pat = []"
| "contains_text pat (c # cs) \<longleftrightarrow> starts_with pat (c # cs) \<or> contains_text pat cs"

definition archive_organization_if_empty :: "clock_env \<Rightarrow> ident \<Rightarrow> people \<Rightarrow> people" where
  "archive_organization_if_empty e org s =
     (if \<exists>a\<in>set (ad_accounts s). ac_org a = Some org \<and> ac_active a then s
      else case find (\<lambda>g. og_id g = org) (ad_orgs s) of
        None \<Rightarrow> s
      | Some g \<Rightarrow>
          if contains_text ''-archived-'' (og_slug g) then s
          else s\<lparr>ad_orgs := map (\<lambda>x. if og_id x = org
                   then x\<lparr>og_name := og_name g @ '' (archived)'',
                          og_slug := og_slug g @ ''-archived-'' @ decimal_digits 13 (ae_now e)\<rparr> else x) (ad_orgs s)\<rparr>)"

definition delete_my_account :: "crypto \<Rightarrow> clock_env \<Rightarrow> ident \<Rightarrow> string option \<Rightarrow> people \<Rightarrow> (unit, people) act" where
  "delete_my_account cy e user password s =
     (case find_account s user of
        None \<Rightarrow> (Inl (NotFound ''User not found''), s)
      | Some u \<Rightarrow>
          if \<not> ac_active u then (Inl (NotFound ''User not found''), s)
          else if truthy (ac_password u) \<and> \<not> cy_compare cy (nullish password []) (the (ac_password u))
          then (Inl (Unprocessable ''Incorrect password''), s)
          else let s1 = hard_delete_account user (ac_email u) (ac_phone u) s
               in (Inr (), if truthy (ac_org u) then archive_organization_if_empty e (the (ac_org u)) s1 else s1))"

section \<open>The routes\<close>

text \<open>
  The claims of the access token.  \<open>GET\<close> and \<open>PATCH /users/:userId\<close> and the two switches ask
  for an administrator's role or the account itself; only the list and the removal sit behind
  the role guard.
\<close>

definition all_admin_roles :: "string list" where
  "all_admin_roles = auth_admin_roles @ [''eventAdmin'']"

definition self_or_admin :: "jwt \<Rightarrow> ident \<Rightarrow> bool" where
  "self_or_admin j user \<longleftrightarrow> jw_role j \<in> set all_admin_roles \<or> jw_sub j = user"

definition get_user_by_id :: "clock_env \<Rightarrow> jwt \<Rightarrow> ident \<Rightarrow> people \<Rightarrow> (account \<times> ident list option, people) act" where
  "get_user_by_id e j user s =
     (if \<not> self_or_admin j user then (Inl (Forbidden ''Cannot access other users''), s)
      else get_me e user s)"

definition update_user_by_id :: "clock_env \<Rightarrow> jwt \<Rightarrow> ident \<Rightarrow> profile_dto \<Rightarrow> people \<Rightarrow> (account, people) act" where
  "update_user_by_id e j user dto s =
     (if \<not> self_or_admin j user then (Inl (Forbidden ''Cannot update other users''), s)
      else update_me e user dto s)"

definition route_vacation_mode ::
  "clock_env \<Rightarrow> jwt \<Rightarrow> ident \<Rightarrow> bool \<Rightarrow> ident option \<Rightarrow> people \<Rightarrow> (bool, people) act" where
  "route_vacation_mode e j user b grp s =
     (if \<not> self_or_admin j user then (Inl (Forbidden ''You can only modify your own profile''), s)
      else set_vacation_mode e user b (Some (jw_sub j, jw_org j)) grp s)"

definition route_default_attendance ::
  "clock_env \<Rightarrow> jwt \<Rightarrow> ident \<Rightarrow> bool \<Rightarrow> ident option \<Rightarrow> people \<Rightarrow> (bool, people) act" where
  "route_default_attendance e j user b grp s =
     (if \<not> self_or_admin j user then (Inl (Forbidden ''You can only modify your own profile''), s)
      else set_default_attendance e user b grp (jw_org j) s)"

definition route_delete_user :: "jwt \<Rightarrow> ident \<Rightarrow> people \<Rightarrow> (unit, people) act" where
  "route_delete_user j user s =
     (if jw_role j \<notin> set all_admin_roles then (Inl (Forbidden ''Insufficient permissions''), s)
      else remove_user user (jw_org j) s)"

definition route_delete_me ::
  "crypto \<Rightarrow> clock_env \<Rightarrow> jwt \<Rightarrow> string \<Rightarrow> string option \<Rightarrow> people \<Rightarrow> (unit, people) act" where
  "route_delete_me cy e j confirm password s =
     (if confirm \<noteq> ''DELETE'' then (Inl (BadRequest ''Type DELETE to confirm account deletion''), s)
      else delete_my_account cy e (jw_sub j) password s)"

end
