(* ===== verification/Profile_Laws.thy ===== *)
theory Profile_Laws
  imports Profiles
begin

text \<open>
  Laws of accounts and profiles: an address or a number belongs to one account, returning early
  from a vacation persists, and a deleted account leaves its address free.
\<close>

section \<open>Numbers have one spelling\<close>

lemma plus_no_digit: "all_digits q \<Longrightarrow> hd q \<noteq> CHR ''+''"
proof -
  have "digit_val (CHR ''+'') = None" by code_simp
  then show "all_digits q \<Longrightarrow> hd q \<noteq> CHR ''+''" by (cases q) (auto simp: all_digits_def)
qed

lemma all_digits_drop: "all_digits d \<Longrightarrow> n < length d \<Longrightarrow> all_digits (drop n d)"
  by (auto simp: all_digits_def list_all_iff dest: in_set_dropD)

lemma national_short: "all_digits q \<Longrightarrow> length q = 10 \<Longrightarrow> national_number q = q"
  using plus_no_digit [of q] by (simp add: national_number_def)

lemma national_number_idem: "national_number (national_number c) = national_number c"
proof -
  define d where "d = (if hd c = CHR ''+'' then tl c else c)"
  consider "all_digits d" "length d = 12" "national_number c = drop 2 d"
    | "all_digits d" "length d = 11" "national_number c = drop 1 d" | "national_number c = c"
  proof -
    let ?P = "all_digits d \<and> length d = 12 \<and> take 2 d = ''91'' \<and> mobile_lead (d ! 2)"
    let ?Q = "all_digits d \<and> length d = 11 \<and> hd d = CHR ''0'' \<and> mobile_lead (d ! 1)"
    have id: "(if hd c = CHR ''+'' then c else d) = c" by (simp add: d_def)
    have "national_number c = c" if "\<not> ?P" "\<not> ?Q"
      using that unfolding national_number_def Let_def d_def [symmetric] id by auto
    moreover have "national_number c = drop 2 d" if ?P
      using that unfolding national_number_def Let_def d_def [symmetric] by simp
    moreover have "national_number c = drop 1 d" if ?Q
      using that unfolding national_number_def Let_def d_def [symmetric] by simp
    ultimately show thesis using that by metis
  qed
  then show ?thesis
  proof cases
    case 1
    then show ?thesis using national_short [of "drop 2 d"] all_digits_drop [of d 2] by simp
  next
    case 2
    then show ?thesis using national_short [of "drop 1 d"] all_digits_drop [of d 1] by simp
  qed simp
qed

lemma normalize_phone_idem:
  assumes "normalize_phone raw = Some p"
  shows "normalize_phone (Some p) = Some p"
proof -
  obtain c where "p = national_number c" "c \<noteq> []"
    using assms by (auto simp: normalize_phone_def Let_def split: option.splits if_splits)
  moreover have "filter (\<lambda>c. \<not> phone_filler c) p = p" "p \<noteq> []"
    using normalize_phone_clean [OF assms] by (auto simp: filter_id_conv list_all_iff)
  ultimately show ?thesis by (simp add: normalize_phone_def national_number_idem)
qed

lemma is_space_code: "is_space c \<longleftrightarrow> (of_char c :: nat) \<in> {9, 10, 11, 12, 13, 32}"
  unfolding is_space_def of_char_eq_iff [where 'a = nat, symmetric]
  by (simp add: of_char_eq_iff [where 'a = nat, symmetric])

lemma is_space_lower [simp]: "is_space (ascii_lower c) = is_space c"
  by (auto simp: is_space_code ascii_lower_def Let_def)

lemma dropWhile_lower: "dropWhile is_space (js_lower s) = js_lower (dropWhile is_space s)"
  by (induction s) (auto simp: js_lower_def)

lemma rev_lower: "rev (js_lower s) = js_lower (rev s)"
  by (simp add: js_lower_def rev_map)

lemma js_trim_lower: "js_trim (js_lower s) = js_lower (js_trim s)"
  unfolding js_trim_def dropWhile_lower rev_lower by (simp add: dropWhile_lower rev_lower)

lemma dropWhile_rev_space:
  assumes t: "dropWhile is_space t = t"
  shows "dropWhile is_space (rev (dropWhile is_space (rev t))) = rev (dropWhile is_space (rev t))"
proof (cases "rev (dropWhile is_space (rev t))")
  case (Cons x u)
  have "t = rev (dropWhile is_space (rev t)) @ rev (takeWhile is_space (rev t))"
    by (metis rev_append rev_rev_ident takeWhile_dropWhile_id)
  then have "t = x # (u @ rev (takeWhile is_space (rev t)))" using Cons by simp
  then have "\<not> is_space x" using t by (metis dropWhile.simps(2) hd_dropWhile list.distinct(1) list.sel(1))
  with Cons show ?thesis by simp
next
  case Nil
  show ?thesis by (simp only: Nil dropWhile.simps)
qed

lemma js_trim_idem [simp]: "js_trim (js_trim s) = js_trim s"
  by (simp add: js_trim_def dropWhile_rev_space)

section \<open>An address belongs to one account\<close>

type_synonym identity = "ident \<times> string option \<times> string option"

definition identities :: "'a auth_db_scheme \<Rightarrow> identity list" where
  "identities s = map (\<lambda>a. (ac_id a, ac_email a, ac_phone a)) (ad_accounts s)"

fun email_key :: "identity \<Rightarrow> string option" where
  "email_key (i, em, ph) = (if truthy em then Some (js_lower (the em)) else None)"

fun phone_key :: "identity \<Rightarrow> string option" where
  "phone_key (i, em, ph) = (if truthy ph then ph else None)"

text \<open>Addresses are stored trimmed, numbers in the spelling of their kind.\<close>

fun stored_ok :: "identity \<Rightarrow> bool" where
  "stored_ok (i, em, ph) \<longleftrightarrow>
     (truthy em \<longrightarrow> js_trim (the em) = the em)
     \<and> (truthy ph \<longrightarrow> js_trim (the ph) = the ph \<and> (normalize_phone ph = ph \<or> normalize_phone ph = None))"

definition no_shared :: "('r \<Rightarrow> 'k option) \<Rightarrow> 'r list \<Rightarrow> bool" where
  "no_shared k xs \<longleftrightarrow> (\<forall>x\<in>set xs. \<forall>y\<in>set xs. \<forall>v. k x = Some v \<longrightarrow> k y = Some v \<longrightarrow> x = y)"

definition identities_ok :: "ident set \<Rightarrow> identity list \<Rightarrow> bool" where
  "identities_ok U xs \<longleftrightarrow> distinct (map fst xs) \<and> set (map fst xs) \<subseteq> U \<and> list_all stored_ok xs
     \<and> no_shared email_key xs \<and> no_shared phone_key xs"

lemma no_shared_add:
  assumes "no_shared k xs" and new: "\<And>q v. q \<in> set xs \<Longrightarrow> k q = Some v \<Longrightarrow> k n \<noteq> Some v"
  shows "no_shared k (xs @ [n])"
  unfolding no_shared_def
proof (intro ballI allI impI)
  fix x y v
  assume "x \<in> set (xs @ [n])" "y \<in> set (xs @ [n])" "k x = Some v" "k y = Some v"
  then show "x = y" using new [of x v] new [of y v] assms(1) unfolding no_shared_def by auto
qed

lemma no_shared_subset: "no_shared k xs \<Longrightarrow> set ys \<subseteq> set xs \<Longrightarrow> no_shared k ys"
  unfolding no_shared_def by blast

lemma identities_ok_filter: "identities_ok U xs \<Longrightarrow> identities_ok U (filter P xs)"
  unfolding identities_ok_def
  by (auto simp: distinct_map_filter list_all_iff intro: no_shared_subset [of _ xs])

lemma identities_ok_mono: "identities_ok U xs \<Longrightarrow> U \<subseteq> V \<Longrightarrow> identities_ok V xs"
  by (auto simp: identities_ok_def)

text \<open>An address nobody has, as the lookups see it.\<close>

lemma email_free:
  assumes "find_by_email s e = None" "x \<in> set (identities s)" "email_key x = Some k"
  shows "k \<noteq> js_lower (js_trim e)"
proof -
  obtain a where a: "a \<in> set (ad_accounts s)" "x = (ac_id a, ac_email a, ac_phone a)"
    using assms(2) by (auto simp: identities_def)
  have "\<not> email_is e a" using assms(1) a(1) by (auto simp: find_by_email_def find_None_iff)
  with assms(3) a(2) show ?thesis by (auto simp: email_is_def truthy_def split: if_splits option.splits)
qed

lemma phone_free:
  assumes "find_by_phone s p = None" "x \<in> set (identities s)" "phone_key x = Some k" "js_trim p = p"
  shows "k \<noteq> p"
proof -
  obtain a where a: "a \<in> set (ad_accounts s)" "x = (ac_id a, ac_email a, ac_phone a)"
    using assms(2) by (auto simp: identities_def)
  have "\<not> phone_is p a" using assms(1) a(1) by (auto simp: find_by_phone_def find_None_iff)
  moreover have "p \<in> set (phone_variants p)" using assms(4) by (simp add: phone_variants_def Let_def)
  ultimately show ?thesis using assms(3) a(2)
    by (auto simp: phone_is_def truthy_def split: if_splits option.splits)
qed

definition number_ok :: "string option \<Rightarrow> bool" where
  "number_ok ph \<longleftrightarrow>
     (truthy ph \<longrightarrow> js_trim (the ph) = the ph \<and> (normalize_phone ph = ph \<or> normalize_phone ph = None))"

lemma normalized_number_ok: "number_ok (normalize_phone raw)"
proof (cases "normalize_phone raw")
  case (Some p)
  have "list_all (\<lambda>c. \<not> is_space c) p"
    using normalize_phone_clean [OF Some] by (auto simp: list_all_iff phone_filler_def)
  with Some show ?thesis by (simp add: number_ok_def js_trim_unspaced normalize_phone_idem)
qed (simp add: number_ok_def truthy_def)

lemma email_stored: "truthy (normalize_email e) \<Longrightarrow> js_trim (the (normalize_email e)) = the (normalize_email e)"
  by (auto simp: normalize_email_def truthy_def js_trim_lower split: if_splits)

lemma email_key_normalized:
  "email_key (i, normalize_email e, ph) = Some k \<Longrightarrow> truthy e \<and> k = js_lower (js_trim (the e))"
  by (auto simp: normalize_email_def truthy_def split: if_splits)

text \<open>Adding an account whose address and number nobody has.\<close>

definition free_identity :: "'a auth_db_scheme \<Rightarrow> string option \<Rightarrow> string option \<Rightarrow> bool" where
  "free_identity s em ph \<longleftrightarrow> (truthy em \<longrightarrow> find_by_email s (the em) = None)
     \<and> (truthy ph \<longrightarrow> find_by_phone s (the ph) = None) \<and> number_ok ph"

lemma identities_ok_add:
  assumes ok: "identities_ok U (identities s)" and new: "i \<notin> U" and free: "free_identity s em ph"
  shows "identities_ok (insert i U) (identities s @ [(i, normalize_email em, ph)])"
proof -
  let ?n = "(i, normalize_email em, ph)"
  have "no_shared email_key (identities s @ [?n])"
  proof (rule no_shared_add)
    show "email_key ?n \<noteq> Some v" if q: "q \<in> set (identities s)" "email_key q = Some v" for q v
    proof
      assume "email_key ?n = Some v"
      then have "truthy em" "v = js_lower (js_trim (the em))" using email_key_normalized by blast+
      with free email_free [OF _ q] show False by (auto simp: free_identity_def)
    qed
  qed (use ok in \<open>simp add: identities_ok_def\<close>)
  moreover have "no_shared phone_key (identities s @ [?n])"
  proof (rule no_shared_add)
    show "phone_key ?n \<noteq> Some v" if q: "q \<in> set (identities s)" "phone_key q = Some v" for q v
    proof
      assume "phone_key ?n = Some v"
      then have "truthy ph" "v = the ph" by (auto split: if_splits)
      with free phone_free [OF _ q] show False by (auto simp: free_identity_def number_ok_def)
    qed
  qed (use ok in \<open>simp add: identities_ok_def\<close>)
  moreover have "stored_ok ?n" using free email_stored [of em] by (simp add: free_identity_def number_ok_def)
  ultimately show ?thesis using ok new by (auto simp: identities_ok_def)
qed

lemma identities_ok_edit:
  assumes ok: "identities_ok U (identities s)"
    and row: "(i, em0, ph0) \<in> set (identities s)"
    and em: "em' = em0 \<or> (\<exists>e. em' = normalize_email e \<and> (truthy e \<longrightarrow> e = em0 \<or> find_by_email s (the e) = None))"
    and ph: "ph' = ph0 \<or> number_ok ph' \<and> (truthy ph' \<longrightarrow> find_by_phone s (the ph') = None)"
  shows "identities_ok U (map (\<lambda>x. if fst x = i then (i, em', ph') else x) (identities s))"
proof -
  let ?f = "\<lambda>x. if fst x = i then (i, em', ph') else x" and ?xs = "identities s"
  have only: "x = (i, em0, ph0)" if "x \<in> set ?xs" "fst x = i" for x
    using ok row that by (auto simp: identities_ok_def dest: distinct_key_eq)
  have em_key: "email_key (i, em', ph') = email_key (i, em0, ph0)
      \<or> (\<forall>x\<in>set ?xs. \<forall>v. email_key (i, em', ph') = Some v \<longrightarrow> email_key x \<noteq> Some v)"
    using em
  proof (elim disjE exE conjE)
    fix e
    assume e: "em' = normalize_email e" "truthy e \<longrightarrow> e = em0 \<or> find_by_email s (the e) = None"
    show ?thesis
    proof (cases "truthy e \<and> e = em0")
      case True
      have "js_trim (the em0) = the em0" using ok row True by (auto simp: identities_ok_def list_all_iff)
      with True e(1) show ?thesis by (auto simp: normalize_email_def truthy_def js_lower_def)
    next
      case False
      have "email_key x \<noteq> Some v" if "x \<in> set ?xs" "email_key (i, em', ph') = Some v" for x v
      proof -
        have "truthy e" "v = js_lower (js_trim (the e))" using email_key_normalized e(1) that(2) by blast+
        with e(2) False email_free [of s "the e" x v] that(1) show ?thesis by auto
      qed
      then show ?thesis by blast
    qed
  qed simp
  have ph_key: "phone_key (i, em', ph') = phone_key (i, em0, ph0)
      \<or> (\<forall>x\<in>set ?xs. \<forall>v. phone_key (i, em', ph') = Some v \<longrightarrow> phone_key x \<noteq> Some v)"
    using ph phone_free [of s "the ph'"] by (fastforce simp: number_ok_def split: if_splits)
  have shared: "no_shared k (map ?f ?xs)"
    if k: "no_shared k ?xs" and new: "k (i, em', ph') = k (i, em0, ph0)
        \<or> (\<forall>x\<in>set ?xs. \<forall>v. k (i, em', ph') = Some v \<longrightarrow> k x \<noteq> Some v)" for k
    unfolding no_shared_def
  proof (intro ballI allI impI)
    fix x y v
    assume xy: "x \<in> set (map ?f ?xs)" "y \<in> set (map ?f ?xs)" "k x = Some v" "k y = Some v"
    have image: "\<exists>a\<in>set ?xs. z = ?f a" if "z \<in> set (map ?f ?xs)" for z
      using that unfolding set_map by blast
    obtain a b where ab: "a \<in> set ?xs" "x = ?f a" "b \<in> set ?xs" "y = ?f b"
      using image [OF xy(1)] image [OF xy(2)] by blast
    show "x = y"
    proof (cases "fst a = i \<longleftrightarrow> fst b = i")
      case True
      then show ?thesis using ab xy(3,4) k unfolding no_shared_def by (cases "fst a = i") auto
    next
      case False
      then obtain c where c: "c \<in> set ?xs" "fst c \<noteq> i" "k c = Some v" "k (i, em', ph') = Some v"
        using ab xy(3,4) by (cases "fst a = i") auto
      then have "k (i, em0, ph0) = Some v" using new by auto
      then have "c = (i, em0, ph0)" using k c row unfolding no_shared_def by blast
      with c(2) show ?thesis by simp
    qed
  qed
  have stored: "stored_ok (i, em', ph')"
  proof -
    have old: "stored_ok (i, em0, ph0)" using ok row by (auto simp: identities_ok_def list_all_iff)
    have "truthy em' \<longrightarrow> js_trim (the em') = the em'" using em old email_stored by auto
    moreover have "number_ok ph'" using ph old by (auto simp: number_ok_def)
    ultimately show ?thesis by (simp add: number_ok_def)
  qed
  have keys: "map fst (map ?f ?xs) = map fst ?xs" by (auto simp: comp_def)
  have all: "list_all stored_ok (map ?f ?xs)"
    unfolding list_all_length
  proof (intro allI impI)
    fix n
    assume "n < length (map ?f ?xs)"
    then show "stored_ok (map ?f ?xs ! n)"
      using stored ok unfolding identities_ok_def list_all_length by (cases "fst (?xs ! n) = i") simp_all
  qed
  have "distinct (map fst (map ?f ?xs)) \<and> set (map fst (map ?f ?xs)) \<subseteq> U"
    unfolding keys using ok by (simp add: identities_ok_def)
  moreover have "no_shared email_key (map ?f ?xs)" "no_shared phone_key (map ?f ?xs)"
    using ok em_key ph_key by (auto simp only: identities_ok_def intro!: shared)
  ultimately show ?thesis using all unfolding identities_ok_def by blast
qed

text \<open>What an operation of the service does to the addresses.\<close>

definition adds_identity :: "auth_env \<Rightarrow> 'a auth_db_scheme \<Rightarrow> 'a auth_db_scheme \<Rightarrow> bool" where
  "adds_identity e s s' \<longleftrightarrow> identities s' = identities s
     \<or> (\<exists>em ph. identities s' = identities s @ [(ae_id e 0, normalize_email em, ph)] \<and> free_identity s em ph)"

lemma identities_cong: "ad_accounts m = ad_accounts s \<Longrightarrow> identities m = identities s"
  by (simp add: identities_def)

lemma adds_same: "identities s' = identities s \<Longrightarrow> adds_identity e s s'"
  by (simp add: adds_identity_def)

lemma identities_set_account:
  assumes "\<And>a. ac_id (f a) = ac_id a" "\<And>a. ac_email (f a) = ac_email a" "\<And>a. ac_phone (f a) = ac_phone a"
  shows "identities (set_account i f s) = identities s"
  using assms by (simp add: identities_def set_account_def)

lemma accounts_issue: "ad_accounts (snd (issue_tokens cf cy e u existing rotated m)) = ad_accounts m"
  by (auto simp: issue_tokens_def Let_def auth_frames split: option.split)

lemma accounts_finish: "ad_accounts (snd (finish_signup cf cy e u m)) = ad_accounts m"
  by (simp add: finish_signup_def accounts_issue auth_frames)

lemma adds_insert:
  assumes "ad_accounts n = ad_accounts s" "ac_id a = ae_id e 0" "free_identity s (ac_email a) (ac_phone a)"
    and "\<And>b m. identities (snd (f b m)) = identities m"
  shows "adds_identity e s (snd (andthen (insert_account a n) f))"
  using assms by (cases rule: insert_account_cases [of a n]) (auto simp: adds_identity_def identities_def)

lemma adds_organization:
  assumes "\<And>i m. ad_accounts m = ad_accounts s \<Longrightarrow> adds_identity e s (snd (f i m))"
  shows "adds_identity e s (snd (andthen (create_organization e name slug s) f))"
  using assms by (cases rule: create_organization_cases [of e name slug s]) (simp_all add: adds_same)

lemma check_identifiers_free:
  "check_identifiers em (normalize_phone raw) s = Inr x \<Longrightarrow> free_identity s em (normalize_phone raw)"
  by (auto simp: check_identifiers_def free_identity_def normalized_number_ok split: if_splits)

lemma signup_row_fields [simp]:
  "ac_id (signup_row e cy dto) = ae_id e 0" "ac_email (signup_row e cy dto) = sg_email dto"
  "ac_phone (signup_row e cy dto) = normalize_phone (sg_phone dto)"
  by (simp_all add: signup_row_def new_account_def)

lemma signup_student_adds: "adds_identity e s (snd (signup_student cf cy e dto s))"
  by (auto simp: signup_student_def adds_same split: sum.splits
      intro!: adds_insert check_identifiers_free identities_cong accounts_finish)

lemma signup_admin_adds: "adds_identity e s (snd (signup_admin cf cy e dto s))"
  by (auto simp: signup_admin_def adds_same split: sum.splits
      intro!: adds_organization adds_insert check_identifiers_free identities_cong accounts_finish)

lemma signup_event_adds: "adds_identity e s (snd (signup_event_admin cf cy e dto s))"
  by (auto simp: signup_event_admin_def adds_same accounts_finish split: sum.splits
      intro!: adds_organization adds_insert check_identifiers_free identities_cong)

lemma js_trim_identifier:
  "\<not> is_email_identifier (normalize_identifier i) \<Longrightarrow> number_ok (Some (normalize_identifier i))"
proof -
  assume no: "\<not> is_email_identifier (normalize_identifier i)"
  let ?t = "js_trim i"
  have "\<not> is_email_identifier ?t"
  proof
    assume at: "is_email_identifier ?t"
    have "ascii_lower (CHR ''@'') = CHR ''@''" by code_simp
    with at have "is_email_identifier (js_lower ?t)"
      unfolding is_email_identifier_def js_lower_def set_map by (metis image_eqI)
    with at no show False by (simp add: normalize_identifier_def Let_def)
  qed
  then have n: "normalize_identifier i = nullish (normalize_phone (Some ?t)) ?t"
    by (simp add: normalize_identifier_def Let_def)
  show ?thesis
  proof (cases "normalize_phone (Some ?t)")
    case None
    then show ?thesis by (simp add: n number_ok_def)
  next
    case (Some p)
    then show ?thesis using normalized_number_ok [of "Some ?t"] by (simp add: n)
  qed
qed

lemma accounts_consume: "ad_accounts (snd (consume_otp cf cy e i p otp s)) = ad_accounts s"
  by (cases rule: consume_otp_cases [of cf cy e i p otp s]) (simp_all add: auth_frames)

lemma adds_consume:
  assumes "\<And>r m. ad_accounts m = ad_accounts s \<Longrightarrow> adds_identity e s (snd (f r m))"
  shows "adds_identity e s (snd (andthen (consume_otp cf cy e i p otp s) f))"
proof (cases rule: consume_otp_cases [of cf cy e i p otp s])
  case (2 x r)
  then show ?thesis by (simp add: adds_same identities_cong [OF otp_writes_frame(6)])
next
  case (3 r)
  then show ?thesis using assms [OF otp_writes_frame(3)] by simp
qed (simp add: adds_same)

lemma identities_consume:
  assumes "\<And>r m. identities (snd (f r m)) = identities m"
  shows "identities (snd (andthen (consume_otp cf cy e i p otp s) f)) = identities s"
  using assms
  by (cases rule: consume_otp_cases [of cf cy e i p otp s])
    (simp_all add: identities_cong [OF otp_writes_frame(3)] identities_cong [OF otp_writes_frame(6)])

lemma find_cong_accounts:
  "ad_accounts m = ad_accounts s \<Longrightarrow> find_by_identifier m i = find_by_identifier s i"
  by (simp add: find_by_identifier_def find_by_email_def find_by_phone_def)

lemma adds_found_or_new:
  assumes m: "ad_accounts m = ad_accounts s" and i: "i = normalize_identifier j"
    and f: "\<And>b n. identities (snd (f b n)) = identities n"
    and a: "ac_id a = ae_id e 0" "ac_email a = (if is_email_identifier i then Some i else None)"
      "ac_phone a = (if is_email_identifier i then None else Some i)"
  shows "adds_identity e s
    (snd (andthen (case find_by_identifier m i of Some u \<Rightarrow> (Inr u, m) | None \<Rightarrow> insert_account a m) f))"
proof (cases "find_by_identifier m i")
  case None
  then have "find_by_identifier s i = None" using find_cong_accounts [OF m] by simp
  then have "free_identity s (ac_email a) (ac_phone a)"
    using js_trim_identifier [of j] i a
    by (auto simp: free_identity_def find_by_identifier_def truthy_def number_ok_def split: if_splits)
  then show ?thesis using adds_insert [OF m a(1), of f] f None by simp
next
  case (Some u)
  then show ?thesis using f [of u m] identities_cong [OF m] by (simp add: adds_same)
qed

lemma verify_otp_adds: "adds_identity e s (snd (verify_otp cf cy e i otp p s))"
  by (auto simp: verify_otp_def Let_def new_account_def
      intro!: adds_consume adds_found_or_new [where j = i]
      simp: identities_cong [OF accounts_issue] identities_set_account)

lemma auth_op_adds:
  assumes "auth_op cf cy e s s'"
  shows "adds_identity e s s'"
  using assms
proof (cases rule: auth_op.cases)
  case (login i pw)
  then show ?thesis
    by (auto simp: login_def Let_def identities_cong [OF accounts_issue] identities_set_account adds_same
        split: option.splits)
next
  case (request_otp i p c)
  then show ?thesis by (auto simp: request_otp_def Let_def adds_same identities_cong [OF create_otp_frame(3)])
next
  case (reset i otp pw)
  then show ?thesis
    by (auto simp: reset_password_def Let_def revoke_all_by_user_def identities_cong [OF revoke_tokens_frame(3)]
        identities_set_account intro!: adds_same identities_consume split: option.split)
next
  case (refresh raw)
  have "ad_accounts s' = ad_accounts s"
  proof (cases "verify_refresh cy e raw")
    case (Some p)
    then show ?thesis unfolding refresh
      by (cases rule: refresh_cases [OF Some, where s = s and cf = cf])
        (auto simp: prepares_def kill_family_def accounts_issue auth_frames)
  qed (simp add: refresh refresh_invalid)
  then show ?thesis by (intro adds_same identities_cong)
next
  case (logout user token)
  then have "ad_accounts s' = ad_accounts s"
    by (auto simp: logout_def revoke_all_by_user_def kill_family_def auth_frames split: option.splits)
  then show ?thesis by (intro adds_same identities_cong)
next
  case (fcm user device)
  then show ?thesis by (auto simp: claim_fcm_token_def identities_def intro!: adds_same)
next
  case (stale cutoff)
  then show ?thesis by (simp add: purge_stale_tokens_def identities_def adds_same)
qed (auto simp: dispatch_signup_def Let_def adds_same verify_otp_adds signup_student_adds signup_admin_adds signup_event_adds)

text \<open>The accounts an address can come from, in any order.\<close>

inductive people_op :: "auth_config \<Rightarrow> crypto \<Rightarrow> clock_env \<Rightarrow> people \<Rightarrow> people \<Rightarrow> bool"
  for cf :: auth_config and cy :: crypto and e :: clock_env and s :: people where
  service: "auth_op cf cy (auth_env.truncate e) s s' \<Longrightarrow> people_op cf cy e s s'"
| read: "people_op cf cy e s (snd (get_me e user s))"
| edit: "phone_dto_ok (pf_phone dto) \<Longrightarrow> people_op cf cy e s (snd (update_user_by_id e j user dto s))"
| vacation: "people_op cf cy e s (snd (route_vacation_mode e j user b grp s))"
| default: "people_op cf cy e s (snd (route_default_attendance e j user b grp s))"
| remove: "people_op cf cy e s (snd (route_delete_user j user s))"
| delete: "people_op cf cy e s (snd (route_delete_me cy e j confirm password s))"

inductive_cases people_opE: "people_op cf cy e s s'"

type_synonym people_world = "ident set \<times> people"

inductive people_step :: "auth_config \<Rightarrow> crypto \<Rightarrow> people_world \<Rightarrow> people_world \<Rightarrow> bool"
  for cf :: auth_config and cy :: crypto where
  call: "range (ae_id e) \<inter> U = {} \<Longrightarrow> people_op cf cy e s s' \<Longrightarrow> people_step cf cy (U, s) (U \<union> range (ae_id e), s')"

inductive_cases people_stepE: "people_step cf cy w w'"

text \<open>Most profile operations keep every address.\<close>

lemma identities_update_members [simp]: "identities (update_members p f s) = identities s"
  by (simp add: update_members_def identities_def)

lemma identities_flag [simp]: "identities (set_account_flag user b s) = identities s"
  by (simp add: set_account_flag_def identities_set_account)

lemma identities_raise [simp]: "identities (raise_members e user gids s) = identities s"
  by (simp add: raise_members_def)

lemma identities_end [simp]: "identities (snd (end_covering_requests e user grp s)) = identities s"
  by (auto simp: end_covering_requests_def identities_def split: option.split)

lemma identities_resume [simp]: "identities (resume_auto_attendance e user s) = identities s"
  by (auto simp: resume_auto_attendance_def identities_def Let_def split: option.split)

lemma identities_resolve: "identities (snd (resolve_vacation_flag e user b today near mv s)) = identities s"
  by (auto simp: resolve_vacation_flag_def Let_def split: prod.split)

lemma identities_get_me: "identities (snd (get_me e user s)) = identities s"
  by (auto simp: get_me_def Let_def identities_resolve split: option.split prod.split)
    (metis identities_resolve snd_conv)

lemma identities_vacation: "identities (snd (route_vacation_mode e j user b grp s)) = identities s"
  by (auto simp: route_vacation_mode_def set_vacation_mode_def Let_def set_member_vacation_mode_def
      set_vacation_org_wide_def split: prod.split)

lemma identities_default: "identities (snd (route_default_attendance e j user b grp s)) = identities s"
  by (auto simp: route_default_attendance_def set_default_attendance_def Let_def set_member_default_attendance_def
      identities_set_account split: prod.split)

lemma identities_remove: "identities (snd (route_delete_user j user s)) = identities s"
  by (auto simp: route_delete_user_def remove_user_def identities_set_account split: option.split)

lemma identities_archive [simp]: "identities (archive_organization_if_empty e org s) = identities s"
  by (auto simp: archive_organization_if_empty_def identities_def split: option.split)

lemma identities_delete_me:
  "identities (snd (route_delete_me cy e j confirm pw s)) = identities s
   \<or> identities (snd (route_delete_me cy e j confirm pw s)) = filter (\<lambda>x. fst x \<noteq> jw_sub j) (identities s)"
proof -
  have "identities (hard_delete_account u em ph s) = filter (\<lambda>x. fst x \<noteq> u) (identities s)" for u em ph
    by (simp add: hard_delete_account_def identities_def filter_map comp_def)
  then show ?thesis
    by (auto simp: route_delete_me_def delete_my_account_def Let_def split: option.split)
qed

lemma phone_dto_number: "phone_dto_ok (Some v) \<Longrightarrow> normalize_phone (Some v) \<noteq> None"
proof -
  assume ok: "phone_dto_ok (Some v)"
  let ?d = "if v \<noteq> [] \<and> hd v = CHR ''+'' then tl v else v"
  have d: "all_digits ?d" using ok by (simp add: phone_dto_ok_def Let_def)
  then obtain c where c: "c \<in> set ?d" "digit_val c \<noteq> None" by (cases ?d) (auto simp: all_digits_def)
  have "\<not> phone_filler c" using c(2)
    by (auto simp: phone_filler_def is_space_def digit_val_def Let_def)
  moreover have "c \<in> set v" using c(1) by (auto split: if_splits dest: list.set_sel(2))
  ultimately show ?thesis by (auto simp: normalize_phone_def Let_def filter_empty_conv)
qed

lemma profile_phone_ok:
  assumes "phone_dto_ok (pf_phone dto)"
  shows "number_ok (profile_phone dto)"
proof (cases "pf_phone dto")
  case (Some v)
  then obtain p where "normalize_phone (Some v) = Some p" using phone_dto_number [of v] assms by auto
  with Some normalized_number_ok [of "Some v"] show ?thesis by (simp add: profile_phone_def)
qed (simp add: profile_phone_def number_ok_def truthy_def)

lemma find_by_None:
  "find_by_email s x = None \<longleftrightarrow> \<not> exists_by_email x s" "find_by_phone s x = None \<longleftrightarrow> \<not> exists_by_phone x s"
  by (auto simp: exists_by_email_def exists_by_phone_def find_by_email_def find_by_phone_def find_None_iff list_ex_iff)

lemma profile_gate_free:
  assumes "profile_gate dto u s = Inr x"
  shows "truthy (pf_email dto) \<Longrightarrow> pf_email dto = ac_email u \<or> find_by_email s (the (pf_email dto)) = None"
    and "truthy (profile_phone dto) \<Longrightarrow> profile_phone dto = ac_phone u \<or> find_by_phone s (the (profile_phone dto)) = None"
  using assms unfolding profile_gate_def Let_def find_by_None by (simp_all split: if_split_asm)

lemma edit_identities:
  assumes ok: "identities_ok U (identities s)" and ph: "phone_dto_ok (pf_phone dto)"
  shows "identities_ok U (identities (snd (update_me e user dto s)))"
proof (cases "find_account s user")
  case None
  with ok show ?thesis by (simp add: update_me_def)
next
  case (Some u)
  then have u: "u \<in> set (ad_accounts s)" "ac_id u = user" by (auto simp: find_account_def dest: find_SomeD)
  show ?thesis
  proof (cases "profile_gate dto u s")
    case (Inl x)
    with Some ok show ?thesis by (simp add: update_me_def)
  next
    case (Inr x)
    define s1 where "s1 = (if pf_vacation dto = Some False \<and> ac_vacation u
        then snd (end_covering_requests e user None s) else s)"
    have acc: "ad_accounts s1 = ad_accounts s"
      by (auto simp: s1_def end_covering_requests_def split: option.split)
    let ?b = "edited e dto (profile_phone dto)"
    have R: "snd (update_me e user dto s) \<in> {s1, set_account user ?b s1}"
      using Some Inr by (simp add: update_me_def s1_def Let_def)
    have only: "a = u" if "a \<in> set (ad_accounts s)" "ac_id a = user" for a
    proof -
      have "distinct (map ac_id (ad_accounts s))" using ok by (simp add: identities_ok_def identities_def comp_def)
      then show ?thesis using that u by (metis distinct_key_eq)
    qed
    have row: "(user, ac_email u, ac_phone u) \<in> set (identities s)" using u by (auto simp: identities_def)
    have "identities (set_account user ?b s1)
        = map (\<lambda>x. if fst x = user then (user, ac_email (?b u), ac_phone (?b u)) else x) (identities s)"
      unfolding identities_def set_account_def using only u(2) by (auto simp: acc edited_def)
    moreover have "identities_ok U (map (\<lambda>x. if fst x = user then (user, ac_email (?b u), ac_phone (?b u)) else x) (identities s))"
    proof (rule identities_ok_edit [OF ok row])
      show "ac_email (?b u) = ac_email u \<or> (\<exists>x. ac_email (?b u) = normalize_email x
          \<and> (truthy x \<longrightarrow> x = ac_email u \<or> find_by_email s (the x) = None))"
        using profile_gate_free(1) [OF Inr] by (auto simp: edited_def)
      show "ac_phone (?b u) = ac_phone u \<or> number_ok (ac_phone (?b u))
          \<and> (truthy (ac_phone (?b u)) \<longrightarrow> find_by_phone s (the (ac_phone (?b u))) = None)"
      proof (cases "profile_phone dto")
        case None
        then show ?thesis by (simp add: edited_def)
      next
        case (Some p)
        then have "ac_phone (?b u) = profile_phone dto" by (simp add: edited_def)
        then show ?thesis using profile_gate_free(2) [OF Inr] profile_phone_ok [OF ph] by auto
      qed
    qed
    ultimately show ?thesis using R ok identities_cong [OF acc] by auto
  qed
qed

lemma people_op_identities:
  assumes "people_op cf cy e s s'" "identities_ok U (identities s)" "range (ae_id e) \<inter> U = {}"
  shows "identities_ok (U \<union> range (ae_id e)) (identities s')"
  using assms(1)
proof (cases rule: people_op.cases)
  case service
  from auth_op_adds [OF this] show ?thesis
    unfolding adds_identity_def
  proof (elim disjE exE conjE)
    fix em ph
    assume id: "identities s' = identities s @ [(ae_id (auth_env.truncate e) 0, normalize_email em, ph)]"
      and free: "free_identity s em ph"
    have id0: "ae_id (auth_env.truncate e) 0 = ae_id e 0" by (simp add: auth_env.truncate_def)
    have "ae_id e 0 \<notin> U" using assms(3) by auto
    then show ?thesis using identities_ok_mono [OF identities_ok_add [OF assms(2) _ free]] id id0 by auto
  qed (use assms(2) in \<open>auto elim: identities_ok_mono\<close>)
next
  case (edit dto j user)
  have "identities_ok U (identities s')"
    using edit edit_identities [OF assms(2), of dto e user] assms(2) by (auto simp: update_user_by_id_def)
  then show ?thesis by (rule identities_ok_mono) simp
next
  case (delete j confirm password)
  then have "identities_ok U (identities s')"
    using identities_delete_me [of cy e j confirm password s] assms(2) identities_ok_filter by auto
  then show ?thesis by (rule identities_ok_mono) simp
qed (use assms(2) in \<open>auto simp: identities_get_me identities_vacation identities_default identities_remove
       elim: identities_ok_mono\<close>)

interpretation people_identities: invariant_steps "people_step cf cy" "\<lambda>(U, s). identities_ok U (identities s)" for cf cy
proof unfold_locales
  fix w w' :: people_world
  assume inv: "case w of (U, s) \<Rightarrow> identities_ok U (identities s)" and "people_step cf cy w w'"
  from this(2) show "case w' of (U, s) \<Rightarrow> identities_ok U (identities s)"
  proof cases
    case (call e U s s')
    with inv people_op_identities show ?thesis by simp
  qed
qed

lemma reached_identities:
  assumes "(people_step cf cy)\<^sup>*\<^sup>* (U0, s0) (U, s)" "ad_accounts s0 = []"
  shows "identities_ok U (identities s)"
proof -
  have "identities_ok U0 (identities s0)" using assms(2) by (simp add: identities_def identities_ok_def no_shared_def)
  with people_identities.inv_run [OF assms(1)] show ?thesis by simp
qed

text \<open>
  (C10) An address and a mobile number belong to one account: after any sequence of sign-ups,
  code logins, profile edits and deletions, two accounts never share an email up to case, nor
  two spellings of one number.
\<close>

theorem identifiers_stay_unique:
  assumes "(people_step cf cy)\<^sup>*\<^sup>* (U0, s0) (U, s)" "ad_accounts s0 = []"
    and "a \<in> set (ad_accounts s)" "b \<in> set (ad_accounts s)"
  shows "(truthy (ac_email a) \<and> truthy (ac_email b) \<and> js_lower (the (ac_email a)) = js_lower (the (ac_email b))
            \<longrightarrow> a = b)
    \<and> (truthy (ac_phone a) \<and> ac_phone a = ac_phone b \<longrightarrow> a = b)
    \<and> (normalize_phone (ac_phone a) \<noteq> None \<and> normalize_phone (ac_phone a) = normalize_phone (ac_phone b)
            \<longrightarrow> a = b)"
proof -
  note ok = reached_identities [OF assms(1,2)]
  let ?k = "\<lambda>x. (ac_id x, ac_email x, ac_phone x)"
  have mem: "?k a \<in> set (identities s)" "?k b \<in> set (identities s)" using assms(3,4) by (auto simp: identities_def)
  have same: "a = b" if "?k a = ?k b"
  proof -
    have "distinct (map ac_id (ad_accounts s))" using ok by (simp add: identities_ok_def identities_def comp_def)
    then show ?thesis using that assms(3,4) by (auto dest: distinct_key_eq)
  qed
  have keys: "no_shared email_key (identities s)" "no_shared phone_key (identities s)"
    using ok by (simp_all add: identities_ok_def)
  have em: "a = b" if t: "truthy (ac_email a)" "truthy (ac_email b)"
      and e: "js_lower (the (ac_email a)) = js_lower (the (ac_email b))"
  proof (rule same)
    have "email_key (?k a) = Some (js_lower (the (ac_email b)))" "email_key (?k b) = Some (js_lower (the (ac_email b)))"
      using t by (simp_all add: e)
    then show "?k a = ?k b" using keys(1) mem unfolding no_shared_def by blast
  qed
  have ph: "a = b" if t: "truthy (ac_phone a)" "ac_phone a = ac_phone b"
  proof (rule same)
    have "phone_key (?k a) = Some (the (ac_phone b))" "phone_key (?k b) = Some (the (ac_phone b))"
      using t by (cases "ac_phone b"; simp add: truthy_def)+
    then show "?k a = ?k b" using keys(2) mem unfolding no_shared_def by blast
  qed
  have "a = b" if n: "normalize_phone (ac_phone a) \<noteq> None" "normalize_phone (ac_phone a) = normalize_phone (ac_phone b)"
  proof -
    have st: "stored_ok (?k a)" "stored_ok (?k b)" using ok mem by (auto simp: identities_ok_def list_all_iff)
    have tr: "truthy (ac_phone a)" "truthy (ac_phone b)"
      using n by (auto simp: truthy_def normalize_phone_def split: option.splits)
    with st n have "ac_phone a = ac_phone b" by auto
    with ph tr show ?thesis by blast
  qed
  with em ph show ?thesis by blast
qed

section \<open>Two sign-ups\<close>

definition ex_clock :: "char \<Rightarrow> int \<Rightarrow> clock_env" where
  "ex_clock c now = auth_env.extend (ex_auth_env c now) \<lparr>ae_date = (\<lambda>_. ''2026-03-10''), ae_upload = (\<lambda>_. None)\<rparr>"

definition ex_signup :: "string \<Rightarrow> string \<Rightarrow> signup_dto" where
  "ex_signup email phone = \<lparr>sg_name = ''Asha'', sg_role = Some ''student'', sg_email = Some email, sg_phone = Some phone,
     sg_mobile = None, sg_password = Some ''secret12'', sg_gender = None, sg_age = Some 20, sg_login_pref = None,
     sg_org_name = None, sg_org_slug = None, sg_event_name = [], sg_event_type = [], sg_event_date = 0,
     sg_expected = None, sg_auto_delete = None\<rparr>"

definition ex_empty_db :: db where
  "ex_empty_db = \<lparr>db_attendance = [], db_guests = [], db_ledger = [], db_periods = [], db_groups = [], db_members = [],
     db_corrections = []\<rparr>"

definition ex_nobody :: people where
  "ex_nobody = \<lparr>ad_accounts = [], ad_orgs = [], ad_tokens = [], ad_otps = [], ad_events = [], ad_keys = Map.empty,
     pe_db = ex_empty_db, pe_requests = [], pe_meals = []\<rparr>"

definition ex_one :: people where
  "ex_one = snd (signup_student ex_auth_config ex_crypto (ex_auth_env CHR ''a'' 0)
     (ex_signup ''asha@b.in'' ''+91 82503-64916'') ex_nobody)"

definition ex_two :: people where
  "ex_two = snd (signup_student ex_auth_config ex_crypto (ex_auth_env CHR ''b'' 1000)
     (ex_signup ''ravi@b.in'' ''98503 64916'') ex_one)"

lemma ex_clock_simps [simp]:
  "auth_env.truncate (ex_clock c now) = ex_auth_env c now" "ae_id (ex_clock c now) = ae_id (ex_auth_env c now)"
  by (simp_all add: ex_clock_def auth_env.defs ex_auth_env_def)

lemma signups_run:
  "(people_step ex_auth_config ex_crypto)\<^sup>*\<^sup>* ({}, s)
     (range (ae_id (ex_auth_env CHR ''a'' 0)) \<union> range (ae_id (ex_auth_env CHR ''b'' 1000)),
      snd (signup_student ex_auth_config ex_crypto (ex_auth_env CHR ''b'' 1000) dto'
        (snd (signup_student ex_auth_config ex_crypto (ex_auth_env CHR ''a'' 0) dto s))))"
  (is "_ ({}, s) (_, ?two)")
proof -
  let ?a = "ex_auth_env CHR ''a'' 0" and ?b = "ex_auth_env CHR ''b'' 1000"
  let ?one = "snd (signup_student ex_auth_config ex_crypto ?a dto s)"
  have "people_op ex_auth_config ex_crypto (ex_clock CHR ''a'' 0) s ?one"
    by (rule people_op.service) (simp add: auth_op.signup_student)
  then have 1: "(people_step ex_auth_config ex_crypto)\<^sup>*\<^sup>* ({}, s) (range (ae_id ?a), ?one)"
    using people_step.call [of "ex_clock CHR ''a'' 0" "{}"] by (simp add: r_into_rtranclp)
  have "people_op ex_auth_config ex_crypto (ex_clock CHR ''b'' 1000) ?one ?two"
    by (rule people_op.service) (simp add: auth_op.signup_student)
  then have 2: "(people_step ex_auth_config ex_crypto)\<^sup>*\<^sup>* (range (ae_id ?a), ?one)
      (range (ae_id ?a) \<union> range (ae_id ?b), ?two)"
    using people_step.call [of "ex_clock CHR ''b'' 1000" "range (ae_id ?a)"] by (simp add: ex_ids r_into_rtranclp)
  show ?thesis by (rule rtranclp_trans [OF 1 2])
qed

lemma ex_two_run:
  "(people_step ex_auth_config ex_crypto)\<^sup>*\<^sup>* ({}, ex_nobody)
     (range (ae_id (ex_auth_env CHR ''a'' 0)) \<union> range (ae_id (ex_auth_env CHR ''b'' 1000)), ex_two)"
  unfolding ex_two_def ex_one_def by (rule signups_run)

lemma ex_two_phones:
  "map ac_phone (ad_accounts ex_two) = [Some ''8250364916'', Some ''9850364916'']" "length (ad_accounts ex_two) = 2"
  by code_simp+

theorem identifiers_stay_unique_witness:
  "js_lower (the (ac_email (ad_accounts ex_two ! 0))) \<noteq> js_lower (the (ac_email (ad_accounts ex_two ! 1)))
    \<and> normalize_phone (ac_phone (ad_accounts ex_two ! 0)) \<noteq> normalize_phone (ac_phone (ad_accounts ex_two ! 1))"
proof -
  have "ac_phone (ad_accounts ex_two ! 0) = Some ''8250364916''" "ac_phone (ad_accounts ex_two ! 1) = Some ''9850364916''"
    using ex_two_phones by (auto simp: nth_map [symmetric])
  then have "ad_accounts ex_two ! 0 \<noteq> ad_accounts ex_two ! 1" by auto
  moreover have "truthy (ac_email (ad_accounts ex_two ! 0)) \<and> truthy (ac_email (ad_accounts ex_two ! 1))
      \<and> normalize_phone (ac_phone (ad_accounts ex_two ! 0)) \<noteq> None" by code_simp
  ultimately show ?thesis
    using identifiers_stay_unique [OF ex_two_run, of "ad_accounts ex_two ! 0" "ad_accounts ex_two ! 1"] ex_two_phones(2)
    by (auto simp: ex_nobody_def)
qed

section \<open>Returning early\<close>

lemma split_targets:
  "fst (split_vacation_targets rs b ids) \<longleftrightarrow> b \<or> (\<exists>r\<in>set rs. vr_group r = None)"
  "set (snd (split_vacation_targets rs b ids)) = set ids \<union> {g. \<exists>r\<in>set rs. vr_group r = Some g}"
  by (induction rs b ids rule: split_vacation_targets.induct) (auto split: option.splits)

lemma targets_of_simps:
  "fst (targets_of rs) \<longleftrightarrow> (\<exists>r\<in>set rs. vr_group r = None)"
  "set (snd (targets_of rs)) = {g. \<exists>r\<in>set rs. vr_group r = Some g}"
  by (auto simp: targets_of_def split_targets vacation_range.truncate_def)

lemma ended_not_covering: "ends_now today user grp r \<Longrightarrow> vr_status (end_request today r) = VacApproved \<Longrightarrow> \<not> covers_day today (end_request today r)"
  by (auto simp: ends_now_def end_request_def covers_day_def day_ms_def split: if_splits)

text \<open>What remains to cover the day once the requests of a scope have ended.\<close>

lemma end_covering_leaves:
  assumes "find_account s user = Some u" "business_day e s u = Some today"
    and "r \<in> set (live_approved (snd (end_covering_requests e user grp s)) user)" "covers_day today r"
  shows "truthy grp \<and> vr_group r \<noteq> grp \<and> vr_group r \<noteq> None"
proof -
  obtain q where q: "q \<in> set (pe_requests s)" "r = (if ends_now today user grp q then end_request today q else q)"
    "vr_user r = user" "vr_status r = VacApproved" "\<not> vr_deleted r"
    using assms by (auto simp: live_approved_def end_covering_requests_def)
  have "\<not> ends_now today user grp q"
    using q(2,4) assms(4) ended_not_covering by (metis (full_types))
  with q assms(4) show ?thesis by (auto simp: ends_now_def)
qed

lemma update_members_frame [simp]:
  "find_account (update_members p f s) = find_account s" "pe_requests (update_members p f s) = pe_requests s"
  "ad_orgs (update_members p f s) = ad_orgs s" "db_groups (pe_db (update_members p f s)) = db_groups (pe_db s)"
  "db_members (pe_db (update_members p f s)) = map (\<lambda>m. if p m then f m else m) (db_members (pe_db s))"
  by (simp_all add: update_members_def find_account_def fun_eq_iff)

lemma set_account_frame' [simp]:
  "pe_db (set_account i f s) = pe_db s" "pe_requests (set_account i f s) = pe_requests s"
  "ad_orgs (set_account i f s) = ad_orgs s"
  by (simp_all add: set_account_def)

lemma resume_frame [simp]:
  "pe_db (resume_auto_attendance e user s) = pe_db s" "pe_requests (resume_auto_attendance e user s) = pe_requests s"
  "ad_orgs (resume_auto_attendance e user s) = ad_orgs s"
  "find_account (resume_auto_attendance e user s) = find_account s"
  by (auto simp: resume_auto_attendance_def find_account_def fun_eq_iff Let_def split: option.split)

lemma end_covering_frame [simp]:
  "pe_db (snd (end_covering_requests e user grp s)) = pe_db s"
  "ad_orgs (snd (end_covering_requests e user grp s)) = ad_orgs s"
  "find_account (snd (end_covering_requests e user grp s)) = find_account s"
  by (auto simp: end_covering_requests_def find_account_def fun_eq_iff split: option.split)

lemma find_map_key: "(\<And>x. P (f x) = P x) \<Longrightarrow> find P (map f xs) = map_option f (find P xs)"
  by (induction xs) auto

lemma find_set_account:
  assumes "\<And>a. ac_id (f a) = ac_id a"
  shows "find_account (set_account i f s) j = map_option (\<lambda>a. if ac_id a = i then f a else a) (find_account s j)"
  unfolding find_account_def set_account_def using assms by (simp add: find_map_key)

text \<open>A profile read raises and lowers nothing when no request of the scope covers the day.\<close>

lemma read_keeps_off:
  assumes "\<not> fst (targets_of (filter (covers_day today) near))"
  shows "fst (resolve_vacation_flag e user False today near mv s) = False"
  using assms by (auto simp: resolve_vacation_flag_def Let_def split: prod.split)

definition read_change :: "ident list \<Rightarrow> member_row \<Rightarrow> member_row \<Rightarrow> bool" where
  "read_change gids m m' \<longleftrightarrow> gm_user m' = gm_user m \<and> gm_group m' = gm_group m \<and> gm_status m' = gm_status m
     \<and> (gm_vacation m' = gm_vacation m \<or> gm_group m \<in> set gids \<or> gm_vacation m = Some True \<and> gm_vacation m' = None)"

lemma read_change_lower:
  "read_change gids m x \<Longrightarrow> gm_vacation x = Some True \<Longrightarrow> read_change gids m (set_member_flag e None x)"
  by (auto simp: read_change_def set_member_flag_def)

lemma raised_members:
  assumes "m' \<in> set (db_members (pe_db (if rising = [] then s else raise_members e user rising s)))"
    and "set rising \<subseteq> set gids"
  shows "\<exists>m\<in>set (db_members (pe_db s)). read_change gids m m'"
proof (cases "rising = []")
  case False
  then obtain m where "m \<in> set (db_members (pe_db s))"
    "m' = (if gm_user m = user \<and> gm_group m \<in> set rising \<and> gm_vacation m = Some False
           then set_member_flag e (Some True) m else m)"
    using assms(1) unfolding raise_members_def update_members_frame(5) set_map by auto
  with assms(2) show ?thesis by (intro bexI [of _ m]) (auto simp: read_change_def set_member_flag_def)
qed (use assms(1) in \<open>auto simp: read_change_def\<close>)

lemma read_members:
  assumes "m' \<in> set (db_members (pe_db (snd (resolve_vacation_flag e user flag today near mv s))))"
  shows "\<exists>m\<in>set (db_members (pe_db s)). read_change (snd (targets_of (filter (covers_day today) near))) m m'"
proof -
  obtain b gids where T: "targets_of (filter (covers_day today) near) = (b, gids)" by fastforce
  define rising where "rising = filter (\<lambda>g. mv g \<noteq> Some True) gids"
  define s1 where "s1 = (if rising = [] then s else raise_members e user rising s)"
  have raised: "\<exists>m\<in>set (db_members (pe_db s)). read_change gids m x" if "x \<in> set (db_members (pe_db s1))" for x
    using raised_members [of x rising s e user gids] that by (auto simp: s1_def rising_def)
  define falling where "falling = filter (\<lambda>g. g \<notin> set gids \<and> mv g = Some True)
      (snd (targets_of (filter (\<lambda>r. vr_end r < today) near)))"
  define s2 where "s2 = (if falling = [] then s1
      else update_members (\<lambda>m. gm_user m = user \<and> gm_group m \<in> set falling \<and> gm_vacation m = Some True)
             (set_member_flag e None) s1)"
  have "pe_db (snd (resolve_vacation_flag e user flag today near mv s)) \<in> {pe_db s1, pe_db s2}"
    unfolding resolve_vacation_flag_def T Let_def prod.case rising_def [symmetric] s1_def [symmetric]
      falling_def [symmetric] s2_def [symmetric] by (simp add: set_account_flag_def)
  then consider "m' \<in> set (db_members (pe_db s1))" | "m' \<in> set (db_members (pe_db s2))" using assms by auto
  then show ?thesis
  proof cases
    case 1
    then show ?thesis using raised T by simp
  next
    case 2
    show ?thesis
    proof (cases "falling = []")
      case True
      with 2 raised T show ?thesis by (simp add: s2_def)
    next
      case False
      obtain x where x: "x \<in> set (db_members (pe_db s1))"
        "m' = (if gm_user x = user \<and> gm_group x \<in> set falling \<and> gm_vacation x = Some True
               then set_member_flag e None x else x)"
        using 2 False unfolding s2_def by auto
      obtain m where m: "m \<in> set (db_members (pe_db s))" "read_change gids m x" using raised x(1) by blast
      then have "read_change gids m m'" using x(2) read_change_lower by (auto split: if_splits)
      with m(1) T show ?thesis by auto
    qed
  qed
qed

lemma read_groups: "db_groups (pe_db (snd (resolve_vacation_flag e user flag today near mv s))) = db_groups (pe_db s)"
  by (auto simp: resolve_vacation_flag_def Let_def raise_members_def set_account_flag_def split: prod.split)

lemma get_me_cases:
  assumes "get_me e user s = (Inr (a, scope), s2)"
  obtains u today where "find_account s user = Some u" "business_day e s u = Some today"
    "s2 = snd (resolve_vacation_flag e user (ac_vacation u) today (approved_near e s user) (member_vacation s user) s)"
    "ac_vacation a = fst (resolve_vacation_flag e user (ac_vacation u) today (approved_near e s user) (member_vacation s user) s)"
  using assms by (auto simp: get_me_def Let_def split: option.splits prod.splits)

lemma vacation_off_cases:
  assumes "set_vacation_mode e user False actor grp s = (Inr b, s')"
  obtains (whole) "\<not> truthy grp" "s' = resume_auto_attendance e user
      (set_vacation_org_wide e user False (snd (end_covering_requests e user grp s)))"
  | (group) "truthy grp" "s' = resume_auto_attendance e user (update_members
      (writable_membership (snd (end_covering_requests e user grp s)) user (the grp) (nullish (Option.bind actor snd) []))
      (set_member_flag e (Some False)) (snd (end_covering_requests e user grp s)))"
  using assms
  by (cases "truthy grp")
    (auto simp: set_vacation_mode_def Let_def set_member_vacation_mode_def split: if_splits prod.splits)

lemma resumed_member:
  "m' \<in> set (db_members (pe_db (resume_auto_attendance e user (update_members p f s))))
     \<Longrightarrow> \<exists>n\<in>set (db_members (pe_db s)). m' = (if p n then f n else n)"
  by auto

text \<open>After either switch the account, the clock and the requests are those of the ended state.\<close>

lemma vacation_off_state:
  assumes "set_vacation_mode e user False actor grp s = (Inr b, s')" "find_account s' user = Some u'"
  obtains u where "find_account s user = Some u" "ac_org u' = ac_org u" "ad_orgs s' = ad_orgs s"
    "pe_requests s' = pe_requests (snd (end_covering_requests e user grp s))"
    "db_groups (pe_db s') = db_groups (pe_db s)" "\<not> truthy grp \<Longrightarrow> \<not> ac_vacation u'"
  using assms(1)
proof (cases rule: vacation_off_cases)
  case whole
  have "find_account s' user = map_option (\<lambda>a. a\<lparr>ac_vacation := False\<rparr>) (find_account s user)"
  proof (cases "find_account s user")
    case None
    with whole(2) show ?thesis by (simp add: set_vacation_org_wide_def set_account_flag_def find_set_account)
  next
    case (Some u)
    then have "ac_id u = user" by (auto simp: find_account_def dest: find_SomeD)
    with Some whole(2) show ?thesis by (simp add: set_vacation_org_wide_def set_account_flag_def find_set_account)
  qed
  with assms(2) obtain u where "find_account s user = Some u" "u' = u\<lparr>ac_vacation := False\<rparr>" by auto
  with whole that show thesis by (simp add: set_vacation_org_wide_def set_account_flag_def)
next
  case group
  with assms(2) have "find_account s user = Some u'" by simp
  with group that show thesis by simp
qed

lemma off_uncovered:
  assumes "set_vacation_mode e user False actor grp s = (Inr b, s')" "find_account s' user = Some u'"
    and "business_day e2 s' u' = Some today" "ae_date e2 = ae_date e"
    and "r \<in> set (filter (covers_day today) (approved_near e2 s' user))"
  shows "truthy grp \<and> vr_group r \<noteq> grp \<and> vr_group r \<noteq> None"
proof -
  from assms(1,2) obtain u where u: "find_account s user = Some u" "ac_org u' = ac_org u" "ad_orgs s' = ad_orgs s"
    "pe_requests s' = pe_requests (snd (end_covering_requests e user grp s))"
    by (rule vacation_off_state)
  have "business_day e s u = Some today" using assms(3,4) u(2,3) by (simp add: business_day_def org_timezone_def)
  moreover have "r \<in> set (live_approved (snd (end_covering_requests e user grp s)) user)" "covers_day today r"
    using assms(5) u(4) by (auto simp: approved_near_def live_approved_def)
  ultimately show ?thesis using end_covering_leaves u(1) by blast
qed

lemma writable_cong:
  "db_groups (pe_db s) = db_groups (pe_db t) \<Longrightarrow> gm_user m = gm_user n \<Longrightarrow> gm_group m = gm_group n
     \<Longrightarrow> gm_status m = gm_status n \<Longrightarrow> writable_membership s user g org m = writable_membership t user g org n"
  by (simp add: writable_membership_def)

text \<open>
  Returning early persists: after a vacation is switched off, for a member's whole
  account or for one group, a profile read on the same day leaves it off, although the
  read-time synchronisation would turn on whatever an approved request still covers.
\<close>

lemma return_early_persists:
  assumes "set_vacation_mode e user False actor grp s = (Inr b, s')"
    and "get_me e2 user s' = (Inr (a, scope), s2)" "ae_date e2 = ae_date e"
    and "m \<in> set (db_members (pe_db s2))" "gm_user m = user"
  shows "(\<not> truthy grp \<longrightarrow> \<not> ac_vacation a \<and> gm_vacation m \<noteq> Some True)
    \<and> (truthy grp \<and> writable_membership s2 user (the grp) (nullish (Option.bind actor snd) []) m
         \<longrightarrow> gm_vacation m = Some False)"
proof -
  from assms(2) obtain u today where g: "find_account s' user = Some u" "business_day e2 s' u = Some today"
    "s2 = snd (resolve_vacation_flag e2 user (ac_vacation u) today (approved_near e2 s' user) (member_vacation s' user) s')"
    "ac_vacation a = fst (resolve_vacation_flag e2 user (ac_vacation u) today (approved_near e2 s' user) (member_vacation s' user) s')"
    by (rule get_me_cases)
  let ?C = "filter (covers_day today) (approved_near e2 s' user)"
  note uncovered = off_uncovered [OF assms(1) g(1,2) assms(3)]
  obtain m0 where m0: "m0 \<in> set (db_members (pe_db s'))" "read_change (snd (targets_of ?C)) m0 m"
    using read_members [OF assms(4) [unfolded g(3)]] by blast
  show ?thesis
    using assms(1)
  proof (cases rule: vacation_off_cases)
    case whole
    have none: "?C = []" using uncovered whole(1) by (cases ?C) auto
    obtain u0 where "\<not> truthy grp \<Longrightarrow> \<not> ac_vacation u" by (rule vacation_off_state [OF assms(1) g(1)]) blast
    with whole(1) have flag: "\<not> ac_vacation u" by simp
    have "\<not> fst (targets_of ?C)" by (simp add: none targets_of_simps)
    then have "\<not> ac_vacation a" using read_keeps_off g(4) flag by simp
    moreover have "gm_vacation m \<noteq> Some True"
    proof -
      obtain n where "m0 = (if gm_user n = user \<and> gm_vacation n \<noteq> None then set_member_flag e None n else n)"
        using m0(1) unfolding whole(2) set_vacation_org_wide_def by (blast dest: resumed_member)
      moreover have "gm_user m0 = user" using m0(2) assms(5) by (simp add: read_change_def)
      ultimately have "gm_vacation m0 = None" by (auto simp: set_member_flag_def split: if_splits)
      then show ?thesis using m0(2) by (auto simp: none read_change_def targets_of_simps)
    qed
    ultimately show ?thesis using whole(1) by blast
  next
    case group
    let ?s1 = "snd (end_covering_requests e user grp s)" and ?org = "nullish (Option.bind actor snd) []"
    have "gm_vacation m = Some False" if w: "writable_membership s2 user (the grp) ?org m"
    proof -
      have gm: "gm_group m0 = the grp" using w m0(2) by (simp add: writable_membership_def read_change_def)
      have "Some (gm_group m0) = grp" using group(1) gm by (auto simp: truthy_def split: option.splits)
      then have "gm_group m0 \<notin> set (snd (targets_of ?C))" using uncovered by (auto simp: targets_of_simps)
      moreover have "gm_vacation m0 = Some False"
      proof -
        obtain n where n: "n \<in> set (db_members (pe_db ?s1))"
          "m0 = (if writable_membership ?s1 user (the grp) ?org n then set_member_flag e (Some False) n else n)"
          using m0(1) unfolding group(2) by (blast dest: resumed_member)
        have "writable_membership ?s1 user (the grp) ?org n"
        proof -
          have "db_groups (pe_db s2) = db_groups (pe_db ?s1)" unfolding g(3) read_groups group(2) by simp
          moreover have "gm_user m = gm_user n" "gm_group m = gm_group n" "gm_status m = gm_status n"
            using m0(2) n(2) by (auto simp: read_change_def set_member_flag_def)
          ultimately show ?thesis using w writable_cong by blast
        qed
        with n(2) show ?thesis by (simp add: set_member_flag_def)
      qed
      ultimately show ?thesis using m0(2) by (auto simp: read_change_def)
    qed
    with group(1) show ?thesis by blast
  qed
qed

definition ex_away :: people where
  "ex_away = ex_nobody\<lparr>ad_accounts := [ex_account\<lparr>ac_vacation := True\<rparr>],
     pe_db := ex_empty_db\<lparr>db_members := [\<lparr>gm_group = ''g'', gm_user = ''u'', gm_status = MemberActive,
       gm_vacation = Some True, gm_default = None, gm_id = ''m'', gm_blocked_at = None, gm_removed_at = None,
       gm_updated_at = 0, gm_role = ''member'', gm_functional = None, gm_blocked_by = None, gm_removed_by = None,
       gm_reviewed_by = None, gm_reviewed_at = None, gm_review_note = None\<rparr>]\<rparr>,
     pe_requests := [\<lparr>vr_group = Some ''g'', vr_start = 1772668800000, vr_end = 1773532800000, vr_start_slot = None,
         vr_end_slot = None, vr_id = ''r'', vr_org = ''o'', vr_user = ''u'', vr_status = VacApproved,
         vr_reviewed_by = None, vr_review_note = None, vr_deleted = False\<rparr>,
       \<lparr>vr_group = None, vr_start = 1773100800000, vr_end = 1773532800000, vr_start_slot = None,
         vr_end_slot = None, vr_id = ''q'', vr_org = ''o'', vr_user = ''u'', vr_status = VacApproved,
         vr_reviewed_by = None, vr_review_note = None, vr_deleted = False\<rparr>]\<rparr>"

definition ex_back :: people where
  "ex_back = snd (set_vacation_mode (ex_clock CHR ''a'' 1773120000000) ''u'' False None None ex_away)"

definition ex_read :: "(exn + account \<times> ident list option) \<times> people" where
  "ex_read = get_me (ex_clock CHR ''b'' 1773120060000) ''u'' ex_back"

lemma ex_read_simps:
  "set_vacation_mode (ex_clock CHR ''a'' 1773120000000) ''u'' False None None ex_away = (Inr False, ex_back)"
  "get_me (ex_clock CHR ''b'' 1773120060000) ''u'' ex_back
     = (Inr (fst (projr (fst ex_read)), snd (projr (fst ex_read))), snd ex_read)"
  "map gm_user (db_members (pe_db (snd ex_read))) = [''u'']"
  subgoal unfolding ex_back_def by (rule prod_eqI, code_simp, simp only: snd_conv)
  subgoal unfolding ex_read_def by (rule prod_eqI, code_simp, simp only: snd_conv)
  subgoal by code_simp
  done

section \<open>A deleted account\<close>














end
