(* ===== verification/Account_Edges.thy ===== *)
theory Account_Edges
  imports Profile_Laws
begin

text \<open>
  What the model shows at the edges of sign-in, sessions and profiles: each lemma states a
  behaviour of the code that its own comments or documents rule out or do not mention.
\<close>

section \<open>Signing in\<close>

text \<open>A deactivated account is told so before its password is compared.\<close>

lemma deactivated_before_password:
  assumes "find_by_identifier s (normalize_identifier i) = Some u" "\<not> ac_active u" "truthy pw"
  shows "login cf cy e i pw s = (Inl (Unauthorized ''Account deactivated''), s)"
  using assms by (simp add: login_def Let_def)

definition ex_deactivated :: auth_db where
  "ex_deactivated = ex_auth\<lparr>ad_accounts := [ex_account\<lparr>ac_active := False\<rparr>]\<rparr>"

text \<open>A code signs a deactivated account in, which a password does not.\<close>

lemma code_opens_deactivated:
  "isl (fst (login ex_auth_config ex_crypto (ex_auth_env CHR ''b'' 1000) ''a@b.in'' (Some ''secret'') ex_deactivated))"
  "\<not> isl (fst (verify_otp ex_auth_config ex_crypto (ex_auth_env CHR ''b'' 1000) ''a@b.in'' ''100000'' None
     (snd (request_otp ex_auth_config ex_crypto (ex_auth_env CHR ''a'' 0) ''a@b.in'' None None ex_deactivated))))"
  by code_simp+

text \<open>Without Redis a correct password still writes a token row, and the caller gets an error.\<close>

lemma login_without_redis:
  "fst (login ex_auth_config ex_crypto ((ex_auth_env CHR ''a'' 0)\<lparr>ae_redis := False\<rparr>) ''a@b.in'' (Some ''secret'') ex_auth)
     = Inl (Internal ''Redis unavailable'')"
  "map tk_revoked (ad_tokens (snd (login ex_auth_config ex_crypto ((ex_auth_env CHR ''a'' 0)\<lparr>ae_redis := False\<rparr>)
     ''a@b.in'' (Some ''secret'') ex_auth))) = [False]"
  by code_simp+

text \<open>A revoked family is not seen as revoked while Redis does not answer.\<close>

lemma revocation_unseen: "\<not> ae_redis e \<Longrightarrow> \<not> is_family_revoked e family s"
  by (simp add: is_family_revoked_def redis_exists_def)

section \<open>Sessions\<close>

text \<open>Presenting a token again within the grace forks its family: two tokens are live.\<close>

lemma grace_forks_family:
  "\<not> isl (fst (refresh_tokens ex_auth_config ex_crypto (ex_auth_env CHR ''c'' 2000) (ex_pair CHR ''a'') ex_rotated))"
  "map (\<lambda>t. (tk_family t, tk_revoked t))
     (ad_tokens (snd (refresh_tokens ex_auth_config ex_crypto (ex_auth_env CHR ''c'' 2000) (ex_pair CHR ''a'') ex_rotated)))
   = [(''axxxx'', True), (''axxxx'', False), (''axxxx'', False)]"
  by code_simp+

definition ex_reset :: auth_db where
  "ex_reset = snd (reset_password ex_auth_config ex_crypto (ex_auth_env CHR ''d'' 1600) ''a@b.in'' ''100000'' ''fresh''
     (snd (forgot_password ex_auth_config ex_crypto (ex_auth_env CHR ''c'' 1500) ''a@b.in'' (Some ''student'') ex_rotated)))"

text \<open>
  A password reset revokes every row, and a token rotated less than the grace before it is
  exchanged for a new session after it.
\<close>

lemma grace_outlives_reset:
  "list_all tk_revoked (ad_tokens ex_reset)"
  "map ac_password (ad_accounts ex_reset) = [Some ''saltfresh'']"
  "\<not> isl (fst (refresh_tokens ex_auth_config ex_crypto (ex_auth_env CHR ''e'' 2000) (ex_pair CHR ''a'') ex_reset))"
  by code_simp+

section \<open>Signing up\<close>

text \<open>The raw route creates accounts every validator of the typed routes refuses.\<close>

lemma raw_signup_unvalidated:
  "\<not> isl (fst (dispatch_signup ex_auth_config ex_crypto (ex_auth_env CHR ''a'' 0)
      ((ex_signup ''kid@b.in'' ''8250364916'')\<lparr>sg_age := Some 5, sg_password := Some ''x'', sg_role := Some ''eventGuest''\<rparr>)
      ex_nobody))"
  "map (\<lambda>a. (ac_role a, ac_age a)) (ad_accounts (snd (dispatch_signup ex_auth_config ex_crypto (ex_auth_env CHR ''a'' 0)
      ((ex_signup ''kid@b.in'' ''8250364916'')\<lparr>sg_age := Some 5, sg_password := Some ''x'', sg_role := Some ''eventGuest''\<rparr>)
      ex_nobody))) = [(''eventGuest'', Some 5)]"
  by code_simp+

section \<open>Profiles\<close>

text \<open>An administrator's role opens every account, whatever the organisation.\<close>

lemma admin_of_any_organization:
  assumes "jw_role j \<in> set all_admin_roles"
  shows "update_user_by_id e j user dto s = update_me e user dto s" "get_user_by_id e j user s = get_me e user s"
    "route_vacation_mode e j user b None s = set_vacation_mode e user b (Some (jw_sub j, jw_org j)) None s"
  using assms by (simp_all add: update_user_by_id_def get_user_by_id_def route_vacation_mode_def self_or_admin_def)

definition ex_profile :: profile_dto where
  "ex_profile = \<lparr>pf_name = None, pf_email = None, pf_phone = None, pf_avatar = None, pf_gender = None, pf_age = None,
     pf_vacation = None, pf_default = None, pf_reminders = None, pf_login_pref = None\<rparr>"

lemma admin_takes_over:
  "map ac_email (ad_accounts (snd (update_user_by_id (ex_clock CHR ''c'' 2000)
     \<lparr>jw_sub = ''x'', jw_org = Some ''elsewhere'', jw_role = ''messManager'', jw_family = [], jw_jti = [], jw_exp = 0\<rparr>
     ''a'' (ex_profile\<lparr>pf_email := Some ''mine@evil.in''\<rparr>) ex_two))) = [Some ''mine@evil.in'', Some ''ravi@b.in'']"
  by code_simp

text \<open>One's own address in another case is refused as somebody else's.\<close>

lemma own_email_conflicts:
  assumes "find_account s user = Some u" "ac_email u = Some em" "js_lower x = js_lower em" "x \<noteq> em" "x \<noteq> []"
    "js_trim x = x"
  shows "fst (update_me e user (ex_profile\<lparr>pf_email := Some x\<rparr>) s) = Inl (Conflict ''Email already in use'')"
proof -
  have "u \<in> set (ad_accounts s)" using assms(1) by (auto simp: find_account_def dest: find_SomeD)
  moreover have "email_is x u" using assms by (simp add: email_is_def)
  ultimately have "exists_by_email x s" by (auto simp: exists_by_email_def list_ex_iff)
  then show ?thesis using assms by (simp add: update_me_def profile_gate_def ex_profile_def truthy_def Let_def)
qed

text \<open>A profile edit that switches a vacation off keeps the overrides of every group.\<close>

lemma edit_keeps_overrides: "db_members (pe_db (snd (update_me e user dto s))) = db_members (pe_db s)"
proof -
  have "db_members (pe_db (snd (end_covering_requests e user grp s))) = db_members (pe_db s)" for grp
    by (auto simp: end_covering_requests_def split: option.split)
  then show ?thesis
    by (auto simp: update_me_def Let_def set_account_def split: option.split sum.split)
qed

text \<open>An approved request of a group does not raise a membership without an override.\<close>

lemma unset_membership_not_raised:
  "\<forall>m\<in>set (db_members (pe_db s)). gm_user m = user \<longrightarrow> gm_vacation m = None
     \<Longrightarrow> db_members (pe_db (raise_members e user gids s)) = db_members (pe_db s)"
  by (auto simp: raise_members_def update_members_def intro!: map_idI)

text \<open>Deleting an account erases its charges and its attendance.\<close>

lemma deletion_erases_charges:
  "\<forall>l\<in>set (db_ledger (purge_person user d)). le_user l \<noteq> user"
  "\<forall>r\<in>set (db_attendance (purge_person user d)). at_user r \<noteq> user"
  by (auto simp: purge_person_def)

end
