(* ===== verification/Master_Meals.thy ===== *)
theory Master_Meals
  imports Group_Life "HOL-Library.List_Lexorder" "HOL-Library.Char_ord"
begin

text \<open>
  The master meal template of a group (\<open>src/src/features/meals/meals.service.ts\<close> with
  \<open>meals.repository.ts\<close> and the request transforms): create, edit, delete and reorder meals,
  the hidden slot of attendance-only groups, and the list a member sees today.  Pushes, audit
  entries, the cache of the list and its paging are left out; storing an image is a function
  from the data to its address, \<open>None\<close> when the store fails.
\<close>

section \<open>Rows and requests\<close>

text \<open>The world with the column of standalone preference tags of each meal.\<close>

record kitchen =
  kt_world :: world
  kt_tags :: "ident \<Rightarrow> string list"

record meal_limits =
  lm_max_meals :: int
  lm_max_windows :: int
  lm_min_tags :: int
  lm_max_tags :: int

type_synonym meal_window_dto = "string \<times> string"

record create_meal_dto =
  md_group :: ident
  md_slot :: string
  md_name :: string
  md_display :: "string option"
  md_order :: "int option"
  md_attendance :: "bool option"
  md_description :: "string option"
  md_menu :: "string list option"
  md_image :: "string option"
  md_prefs :: "bool option"
  md_tags :: "string list option"
  md_window :: "meal_window_dto option"
  md_price :: "int option"

text \<open>A field that may be absent or null has two options: the outer one is its presence.\<close>

record meal_patch =
  mp_name :: "string option"
  mp_display :: "string option option"
  mp_order :: "int option"
  mp_enabled :: "bool option"
  mp_attendance :: "bool option"
  mp_description :: "string option option"
  mp_menu :: "string list option"
  mp_image :: "string option option"
  mp_prefs :: "bool option"
  mp_tags :: "string list option"
  mp_window :: "meal_window_dto option option"
  mp_price :: "int option option"

text \<open>The transforms of the request: trimmed, runs of white space to one space.\<close>

fun one_space :: "bool \<Rightarrow> string \<Rightarrow> string" where
  "one_space in_run [] = []"
| "one_space in_run (c # cs) =
     (if is_space c then (if in_run then [] else [CHR '' '']) @ one_space True cs
      else c # one_space False cs)"

definition normalize_meal_name :: "string \<Rightarrow> string" where
  "normalize_meal_name v = one_space False (js_trim v)"

definition normalize_slot_key :: "string \<Rightarrow> string" where
  "normalize_slot_key v = js_lower (one_space False (js_trim v))"

definition meal_dto :: "create_meal_dto \<Rightarrow> create_meal_dto" where
  "meal_dto d = d\<lparr>md_slot := normalize_slot_key (md_slot d), md_name := normalize_meal_name (md_name d),
     md_display := map_option normalize_meal_name (md_display d)\<rparr>"

definition patch_dto :: "meal_patch \<Rightarrow> meal_patch" where
  "patch_dto p = p\<lparr>mp_name := map_option normalize_meal_name (mp_name p),
     mp_display := map_option (map_option normalize_meal_name) (mp_display p)\<rparr>"

section \<open>Rules\<close>

definition attendance_only_fields ::
  "int option \<Rightarrow> bool option \<Rightarrow> string list option \<Rightarrow> string list option \<Rightarrow> string option \<Rightarrow> exn + unit" where
  "attendance_only_fields price prefs tags menu img =
     (if price \<noteq> None \<or> prefs = Some True \<or> nullish tags [] \<noteq> [] \<or> nullish menu [] \<noteq> [] \<or> truthy img
      then Inl (BadRequest ''Not available in Attendance-Only mode.'') else Inr ())"

definition meal_tag_cap :: "meal_limits \<Rightarrow> string list option \<Rightarrow> bool \<Rightarrow> exn + unit" where
  "meal_tag_cap lm tags enabled =
     (case tags of
        None \<Rightarrow> Inr ()
      | Some ts \<Rightarrow>
          if enabled \<and> int (length ts) < lm_min_tags lm then Inl (BadRequest ''Enable at least N preference options'')
          else if lm_max_tags lm < int (length ts)
          then Inl (BadRequest ''A meal supports at most N standalone preference tags'')
          else check_tags [] ts)"

definition counted_meal :: "ident \<Rightarrow> ident \<Rightarrow> meal_row \<Rightarrow> bool" where
  "counted_meal gid org m \<longleftrightarrow>
     ml_group m = gid \<and> ml_org m = org \<and> ml_is_active m \<and> rm_slot_key m \<noteq> general_slot_key"

definition count_active_in_group :: "world \<Rightarrow> ident \<Rightarrow> ident \<Rightarrow> int" where
  "count_active_in_group w gid org = int (length (filter (counted_meal gid org) (w_meals w)))"

definition exists_by_name_in_group :: "world \<Rightarrow> ident \<Rightarrow> ident \<Rightarrow> string \<Rightarrow> ident option \<Rightarrow> bool" where
  "exists_by_name_in_group w gid org name except \<longleftrightarrow>
     (\<exists>m\<in>set (w_meals w). ml_group m = gid \<and> ml_org m = org \<and> ml_is_active m
        \<and> js_lower (rm_name m) = js_lower name \<and> Some (ml_id m) \<noteq> except)"

definition template_cap :: "meal_limits \<Rightarrow> bool \<Rightarrow> int" where
  "template_cap lm attendance_only = (if attendance_only then lm_max_windows lm else lm_max_meals lm)"

definition window_of :: "ident \<Rightarrow> string \<Rightarrow> string \<Rightarrow> string option \<Rightarrow> string option \<Rightarrow> meal_window" where
  "window_of i label slot op cl =
     \<lparr>mw_meal_id = i, mw_label = label, mw_slot_key = Some slot, mw_open = op, mw_close = cl\<rparr>"

definition meal_label :: "string option \<Rightarrow> string \<Rightarrow> string" where
  "meal_label display name = (if js_trim (nullish display []) = [] then name else js_trim (the display))"

definition image_uri :: "string \<Rightarrow> bool" where
  "image_uri v \<longleftrightarrow> take 10 v = ''data:image''"

definition meal_image_data :: "string \<Rightarrow> bool" where
  "meal_image_data v \<longleftrightarrow>
     (take 23 v = ''data:image/jpeg;base64,'' \<and> 23 < length v)
     \<or> (take 22 v = ''data:image/png;base64,'' \<and> 22 < length v)"

definition resolve_meal_image :: "(string \<Rightarrow> string option) \<Rightarrow> string option \<Rightarrow> string option" where
  "resolve_meal_image upload incoming =
     (case incoming of None \<Rightarrow> None
      | Some v \<Rightarrow> if \<not> image_uri v \<or> \<not> meal_image_data v then incoming else nullish_opt (upload v) incoming)"

section \<open>Writes\<close>

definition set_meals :: "(meal_row list \<Rightarrow> meal_row list) \<Rightarrow> kitchen \<Rightarrow> kitchen" where
  "set_meals f k = k\<lparr>kt_world := (kt_world k)\<lparr>w_meals := f (w_meals (kt_world k))\<rparr>\<rparr>"

definition insert_meal :: "meal_row \<Rightarrow> string list \<Rightarrow> kitchen \<Rightarrow> exn + kitchen" where
  "insert_meal m tags k =
     (if ml_id m \<in> ml_id ` set (w_meals (kt_world k)) then Inl (Conflict ''P2002'')
      else Inr ((set_meals (\<lambda>ms. ms @ [m]) k)\<lparr>kt_tags := (kt_tags k)(ml_id m := tags)\<rparr>))"

definition new_meal :: "(string \<Rightarrow> string option) \<Rightarrow> ident \<Rightarrow> ident \<Rightarrow> create_meal_dto \<Rightarrow> meal_row" where
  "new_meal upload i org dto =
     \<lparr>rm_slot_key = md_slot dto, rm_name = md_name dto, rm_display_name = md_display dto,
      rm_order = Some (nullish (md_order dto) 0), rm_menu_items = Some (nullish (md_menu dto) []),
      rm_image_url = resolve_meal_image upload (md_image dto), rm_description = md_description dto,
      rm_price = md_price dto, rm_window_open = map_option fst (md_window dto),
      rm_window_close = map_option snd (md_window dto), ml_id = i, ml_org = org, ml_group = md_group dto,
      ml_is_active = True, ml_deleted_at = None, ml_attendance_enabled = nullish (md_attendance dto) True,
      ml_prefs_enabled = nullish (md_prefs dto) False\<rparr>"

definition create_meal ::
  "meal_limits \<Rightarrow> env \<Rightarrow> (string \<Rightarrow> string option) \<Rightarrow> ident \<Rightarrow> create_meal_dto \<Rightarrow> kitchen \<Rightarrow> exn + kitchen" where
  "create_meal lm e upload org dto k =
     (let w = kt_world k
      in bindE (orErr (group_by_id False (w_db w) (md_group dto) org) (NotFound ''Group not found'')) (\<lambda>g.
         if md_slot dto = general_slot_key then Inl (BadRequest ''MEAL_SLOT_KEY_RESERVED'')
         else
           let ao = \<not> gr_meals_enabled g
           in bindE (if ao then attendance_only_fields (md_price dto) (md_prefs dto) (md_tags dto) (md_menu dto) (md_image dto)
                     else Inr ()) (\<lambda>_.
              if ao \<and> md_window dto = None then Inl (BadRequest ''An attendance window needs an open and close time'')
              else if template_cap lm ao \<le> count_active_in_group w (md_group dto) org
              then Inl (BadRequest ''A group supports at most N meals'')
              else if exists_by_name_in_group w (md_group dto) org (md_name dto) None
              then Inl (Conflict ''A meal with this name already exists in this group'')
              else bindE (meal_tag_cap lm (md_tags dto) (nullish (md_prefs dto) False)) (\<lambda>_.
                   bindE (assert_meal_windows_valid
                            [window_of ''new'' (meal_label (md_display dto) (md_name dto)) (md_slot dto)
                               (map_option fst (md_window dto)) (map_option snd (md_window dto))]) (\<lambda>_.
                   insert_meal (new_meal upload (en_id e 0) org dto) (nullish (md_tags dto) []) k)))))"

text \<open>The price is locked while the stored window is open, both ends included.\<close>

definition price_lock :: "env \<Rightarrow> world \<Rightarrow> ident \<Rightarrow> meal_row \<Rightarrow> meal_patch \<Rightarrow> exn + unit" where
  "price_lock e w org m p =
     (if mp_price p \<noteq> None \<and> the (mp_price p) \<noteq> rm_price m \<and> truthy (rm_window_open m) \<and> truthy (rm_window_close m)
         \<and> the (rm_window_open m) \<le> en_time e (org_tz w org) \<and> en_time e (org_tz w org) \<le> the (rm_window_close m)
      then Inl (BadRequest ''Meal price cannot be changed while attendance is open for this meal.'') else Inr ())"

definition has_history :: "world \<Rightarrow> ident \<Rightarrow> ident \<Rightarrow> bool" where
  "has_history w org i \<longleftrightarrow> (\<exists>a\<in>set (db_attendance (w_db w)). at_meal a = i \<and> at_org a = org)"

definition identity_rename :: "meal_row \<Rightarrow> meal_patch \<Rightarrow> bool" where
  "identity_rename m p \<longleftrightarrow>
     (mp_name p \<noteq> None \<and> the (mp_name p) \<noteq> rm_name m) \<or> (mp_display p \<noteq> None \<and> the (mp_display p) \<noteq> rm_display_name m)"

definition re_enabling :: "meal_row \<Rightarrow> meal_patch \<Rightarrow> bool" where
  "re_enabling m p \<longleftrightarrow> mp_enabled p = Some True \<and> \<not> ml_is_active m"

definition re_enable_gate :: "meal_limits \<Rightarrow> world \<Rightarrow> bool \<Rightarrow> meal_row \<Rightarrow> meal_patch \<Rightarrow> exn + unit" where
  "re_enable_gate lm w ao m p =
     (if \<not> re_enabling m p then Inr ()
      else if template_cap lm ao \<le> count_active_in_group w (ml_group m) (ml_org m)
      then Inl (BadRequest ''A group supports at most N meals'')
      else if exists_by_name_in_group w (ml_group m) (ml_org m) (nullish (mp_name p) (rm_name m)) (Some (ml_id m))
      then Inl (Conflict ''A meal with this name already exists in this group'') else Inr ())"

definition patched_open :: "meal_row \<Rightarrow> meal_patch \<Rightarrow> string option" where
  "patched_open m p = (case mp_window p of None \<Rightarrow> rm_window_open m | Some v \<Rightarrow> map_option fst v)"

definition patched_close :: "meal_row \<Rightarrow> meal_patch \<Rightarrow> string option" where
  "patched_close m p = (case mp_window p of None \<Rightarrow> rm_window_close m | Some v \<Rightarrow> map_option snd v)"

definition window_gate_meal :: "meal_row \<Rightarrow> meal_patch \<Rightarrow> exn + unit" where
  "window_gate_meal m p =
     (if mp_window p = None \<and> \<not> re_enabling m p then Inr ()
      else assert_meal_windows_valid
             [window_of (ml_id m)
                (meal_label (nullish (mp_display p) (rm_display_name m)) (nullish (mp_name p) (rm_name m)))
                (rm_slot_key m) (patched_open m p) (patched_close m p)])"

definition patch_meal :: "(string \<Rightarrow> string option) \<Rightarrow> meal_patch \<Rightarrow> meal_row \<Rightarrow> meal_row" where
  "patch_meal upload p m =
     m\<lparr>rm_name := nullish (mp_name p) (rm_name m),
       rm_display_name := nullish (mp_display p) (rm_display_name m),
       rm_order := nullish_opt (mp_order p) (rm_order m),
       ml_is_active := nullish (mp_enabled p) (ml_is_active m),
       ml_attendance_enabled := nullish (mp_attendance p) (ml_attendance_enabled m),
       rm_description := nullish (mp_description p) (rm_description m),
       rm_menu_items := nullish_opt (mp_menu p) (rm_menu_items m),
       rm_image_url := (case mp_image p of None \<Rightarrow> rm_image_url m | Some v \<Rightarrow> resolve_meal_image upload v),
       ml_prefs_enabled := nullish (mp_prefs p) (ml_prefs_enabled m),
       rm_price := nullish (mp_price p) (rm_price m),
       rm_window_open := patched_open m p, rm_window_close := patched_close m p\<rparr>"

definition update_gate :: "meal_limits \<Rightarrow> env \<Rightarrow> ident \<Rightarrow> meal_row \<Rightarrow> meal_patch \<Rightarrow> world \<Rightarrow> exn + unit" where
  "update_gate lm e org m p w =
     bindE (price_lock e w org m p) (\<lambda>_.
     if mp_name p \<noteq> None \<and> the (mp_name p) \<noteq> rm_name m
        \<and> exists_by_name_in_group w (ml_group m) org (the (mp_name p)) (Some (ml_id m))
     then Inl (Conflict ''A meal with this name already exists in this group'')
     else
       let ao = (case group_by_id False (w_db w) (ml_group m) org of None \<Rightarrow> False | Some g \<Rightarrow> \<not> gr_meals_enabled g)
       in bindE (if ao then attendance_only_fields (nullish (mp_price p) None) (mp_prefs p) (mp_tags p) (mp_menu p)
                              (nullish (mp_image p) None) else Inr ()) (\<lambda>_.
          if mp_enabled p = Some True \<and> ml_deleted_at m \<noteq> None
          then Inl (Conflict ''Deleted meals are permanently removed from the Master Meal Template'')
          else
            bindE (re_enable_gate lm w ao m p) (\<lambda>_.
            bindE (window_gate_meal m p) (\<lambda>_.
            if identity_rename m p \<and> has_history w org (ml_id m) then Inl (Conflict ''MEAL_IDENTITY_LOCKED'')
            else if mp_tags p \<noteq> None then meal_tag_cap lm (mp_tags p) (nullish (mp_prefs p) (ml_prefs_enabled m))
            else Inr ()))))"

definition revert_group_planners :: "ident \<Rightarrow> ident \<Rightarrow> kitchen \<Rightarrow> kitchen" where
  "revert_group_planners gid org k =
     k\<lparr>kt_world := (kt_world k)\<lparr>w_schedules := revert_published_for_group gid org (w_schedules (kt_world k))\<rparr>\<rparr>"

definition update_meal ::
  "meal_limits \<Rightarrow> env \<Rightarrow> (string \<Rightarrow> string option) \<Rightarrow> ident \<Rightarrow> ident \<Rightarrow> meal_patch \<Rightarrow> kitchen \<Rightarrow> exn + kitchen" where
  "update_meal lm e upload org i p k =
     bindE (orErr (find_meal (kt_world k) org i) (NotFound ''Meal not found'')) (\<lambda>m.
     bindE (update_gate lm e org m p (kt_world k)) (\<lambda>_.
       let k1 = (set_meals (map (\<lambda>x. if ml_id x = i \<and> ml_org x = org then patch_meal upload p x else x)) k)
                  \<lparr>kt_tags := (if mp_tags p = None then kt_tags k else (kt_tags k)(i := the (mp_tags p)))\<rparr>
       in Inr (if mp_enabled p \<noteq> None \<and> the (mp_enabled p) \<noteq> ml_is_active m
               then revert_group_planners (ml_group m) org k1 else k1)))"

definition soft_delete :: "env \<Rightarrow> meal_row \<Rightarrow> meal_row" where
  "soft_delete e m = m\<lparr>ml_is_active := False, ml_deleted_at := Some (en_now e)\<rparr>"

definition delete_meal :: "env \<Rightarrow> ident \<Rightarrow> ident \<Rightarrow> kitchen \<Rightarrow> exn + kitchen" where
  "delete_meal e org i k =
     (case find (\<lambda>m. ml_id m = i \<and> ml_org m = org \<and> ml_deleted_at m = None) (w_meals (kt_world k)) of
        None \<Rightarrow> Inl (NotFound ''Meal not found or already deleted'')
      | Some m \<Rightarrow>
          let k1 = set_meals (map (\<lambda>x. if ml_id x = i \<and> ml_org x = org \<and> ml_deleted_at x = None
                                        then soft_delete e x else x)) k;
              k2 = k1\<lparr>kt_world := (kt_world k1)\<lparr>w_schedules :=
                      delete_draft_entries_for_meal i org (w_schedules (kt_world k1))\<rparr>\<rparr>
          in Inr (revert_group_planners (ml_group m) org k2))"

fun reorder :: "ident \<Rightarrow> nat \<Rightarrow> ident list \<Rightarrow> meal_row list \<Rightarrow> meal_row list" where
  "reorder org n [] ms = ms"
| "reorder org n (i # is') ms =
     reorder org (Suc n) is' (map (\<lambda>m. if ml_id m = i \<and> ml_org m = org then m\<lparr>rm_order := Some (int n)\<rparr> else m) ms)"

definition reorder_meals :: "ident \<Rightarrow> ident \<Rightarrow> ident list \<Rightarrow> kitchen \<Rightarrow> exn + kitchen" where
  "reorder_meals org gid ids k =
     bindE (orErr (group_by_id False (w_db (kt_world k)) gid org) (NotFound ''Group not found'')) (\<lambda>_.
     if ids = [] then Inl (BadRequest ''mealIds must not be empty'')
     else Inr (set_meals (reorder org 0 ids) k))"

section \<open>The hidden slot of attendance-only groups\<close>

definition general_slot :: "ident \<Rightarrow> ident \<Rightarrow> ident \<Rightarrow> meal_row" where
  "general_slot i gid org =
     \<lparr>rm_slot_key = general_slot_key, rm_name = ''Attendance'', rm_display_name = Some ''Daily Attendance'',
      rm_order = Some 0, rm_menu_items = Some [], rm_image_url = None, rm_description = None, rm_price = None,
      rm_window_open = None, rm_window_close = None, ml_id = i, ml_org = org, ml_group = gid,
      ml_is_active = True, ml_deleted_at = None, ml_attendance_enabled = True, ml_prefs_enabled = False\<rparr>"

definition ensure_general_slot :: "env \<Rightarrow> ident \<Rightarrow> ident \<Rightarrow> kitchen \<Rightarrow> exn + meal_row \<times> kitchen" where
  "ensure_general_slot e gid org k =
     (case find (\<lambda>m. ml_group m = gid \<and> ml_org m = org \<and> ml_deleted_at m = None \<and> rm_slot_key m = general_slot_key)
             (w_meals (kt_world k)) of
        Some m \<Rightarrow> Inr (m, k)
      | None \<Rightarrow> bindE (insert_meal (general_slot (en_id e 0) gid org) [] k)
                  (\<lambda>k'. Inr (general_slot (en_id e 0) gid org, k')))"

section \<open>The routes\<close>

definition post_meal ::
  "meal_limits \<Rightarrow> env \<Rightarrow> (string \<Rightarrow> string option) \<Rightarrow> ident \<Rightarrow> create_meal_dto \<Rightarrow> kitchen \<Rightarrow> exn + kitchen" where
  "post_meal lm e upload org dto k = create_meal lm e upload org (meal_dto dto) k"

definition patch_meal_by_id ::
  "meal_limits \<Rightarrow> env \<Rightarrow> (string \<Rightarrow> string option) \<Rightarrow> ident \<Rightarrow> ident \<Rightarrow> meal_patch \<Rightarrow> kitchen \<Rightarrow> exn + kitchen" where
  "patch_meal_by_id lm e upload org i p k = update_meal lm e upload org i (patch_dto p) k"

end
