(* ===== verification/Master_Laws.thy ===== *)
theory Master_Laws
  imports Master_Meals Guests
begin

text \<open>
  Laws of the master meal template: its limits, names and windows under every sequence of
  operations, the identity of a meal with history, and the price lock.
\<close>

section \<open>Stored names\<close>

lemma is_space_blank [simp]: "is_space (CHR '' '')"
  by code_simp

lemma one_space_idem: "one_space b (one_space b xs) = one_space b xs"
  by (induction xs arbitrary: b) auto

lemma last_one_space: "xs \<noteq> [] \<Longrightarrow> \<not> is_space (last xs) \<Longrightarrow> one_space b xs \<noteq> [] \<and> last (one_space b xs) = last xs"
proof (induction xs arbitrary: b)
  case (Cons x xs)
  then show ?case by (cases xs) auto
qed simp

lemma trimmed_ends:
  assumes "js_trim v = v" "v \<noteq> []"
  shows "\<not> is_space (hd v) \<and> \<not> is_space (last v)"
proof -
  define a where "a = dropWhile is_space v"
  define d where "d = dropWhile is_space (rev a)"
  have v: "v = rev d" using assms(1) by (simp add: js_trim_def a_def d_def)
  then have "d \<noteq> []" using assms(2) by simp
  then have "\<not> is_space (hd d)" unfolding d_def by (rule hd_dropWhile)
  moreover have "last v = hd d" using v \<open>d \<noteq> []\<close> by (simp add: last_rev)
  moreover have "a = v @ rev (takeWhile is_space (rev a))"
    unfolding v d_def by (metis rev_append rev_rev_ident takeWhile_dropWhile_id)
  then have "hd a = hd v" "a \<noteq> []" using assms(2) by (metis hd_append2, auto)
  then have "\<not> is_space (hd v)" using hd_dropWhile [of is_space v] by (simp add: a_def)
  ultimately show ?thesis by simp
qed

lemma trimmedI: "v = [] \<or> \<not> is_space (hd v) \<and> \<not> is_space (last v) \<Longrightarrow> js_trim v = v"
proof -
  assume *: "v = [] \<or> \<not> is_space (hd v) \<and> \<not> is_space (last v)"
  have "dropWhile is_space x = x" if "x = [] \<or> \<not> is_space (hd x)" for x using that by (cases x) auto
  from this [of v] this [of "rev v"] * show ?thesis by (auto simp: js_trim_def hd_rev)
qed

lemma trim_twice: "js_trim (js_trim s) = js_trim s"
proof (cases "js_trim s = []")
  case True
  have "js_trim [] = []" by (simp add: js_trim_def)
  with True show ?thesis by simp
next
  case False
  define a where "a = dropWhile is_space s"
  define d where "d = dropWhile is_space (rev a)"
  have v: "js_trim s = rev d" by (simp add: js_trim_def a_def d_def)
  then have "d \<noteq> []" using False by simp
  then have l: "\<not> is_space (hd d)" unfolding d_def by (rule hd_dropWhile)
  have "a = rev d @ rev (takeWhile is_space (rev a))"
    unfolding d_def by (metis rev_append rev_rev_ident takeWhile_dropWhile_id)
  then have "hd a = hd (rev d)" "a \<noteq> []" using \<open>d \<noteq> []\<close> by (metis hd_append2 rev_is_Nil_conv, auto)
  then have "\<not> is_space (hd (rev d))" using hd_dropWhile [of is_space s] by (simp add: a_def)
  then show ?thesis unfolding v using l \<open>d \<noteq> []\<close> by (intro trimmedI) (simp add: last_rev)
qed

lemma normalize_meal_name_idem: "normalize_meal_name (normalize_meal_name v) = normalize_meal_name v"
proof -
  define t where "t = js_trim v"
  have "js_trim (one_space False t) = one_space False t"
  proof (cases "t = []")
    case False
    have "js_trim t = t" by (simp add: t_def trim_twice)
    then have e: "\<not> is_space (hd t)" "\<not> is_space (last t)" using trimmed_ends False by blast+
    then have "hd (one_space False t) = hd t" using False by (cases t) auto
    with e last_one_space [OF False e(2), of False] show ?thesis by (intro trimmedI) simp
  qed (simp add: js_trim_def)
  then show ?thesis by (simp add: normalize_meal_name_def t_def [symmetric] one_space_idem)
qed

section \<open>A well-formed template\<close>

definition named_meal :: "meal_row \<Rightarrow> meal_row \<Rightarrow> bool" where
  "named_meal a b \<longleftrightarrow> ml_group a = ml_group b \<and> ml_org a = ml_org b \<and> ml_is_active a \<and> ml_is_active b
     \<and> rm_slot_key a \<noteq> general_slot_key \<and> rm_slot_key b \<noteq> general_slot_key
     \<and> js_lower (rm_name a) = js_lower (rm_name b)"

definition meal_row_ok :: "meal_row \<Rightarrow> bool" where
  "meal_row_ok m \<longleftrightarrow> normalize_meal_name (rm_name m) = rm_name m \<and> (ml_deleted_at m \<noteq> None \<longrightarrow> \<not> ml_is_active m)
     \<and> (rm_slot_key m \<noteq> general_slot_key
        \<longrightarrow> same_day_window (window_of (ml_id m) [] (rm_slot_key m) (rm_window_open m) (rm_window_close m)))"

definition template_limit :: "meal_limits \<Rightarrow> int" where
  "template_limit lm = max 0 (max (lm_max_meals lm) (lm_max_windows lm))"

definition template_ok :: "meal_limits \<Rightarrow> meal_row list \<Rightarrow> bool" where
  "template_ok lm ms \<longleftrightarrow> distinct (map ml_id ms) \<and> list_all meal_row_ok ms \<and> apart named_meal ml_id ms
     \<and> (\<forall>gid org. int (length (filter (counted_meal gid org) ms)) \<le> template_limit lm)"

lemma le_int_trans: "a \<le> b \<Longrightarrow> int b \<le> c \<Longrightarrow> int a \<le> c"
  by linarith

lemma same_day_window_any:
  "same_day_window (window_of i l s op cl) = same_day_window (window_of j l' s' op cl)"
  by (simp add: same_day_window_def window_of_def)

lemma window_valid_iff:
  "assert_meal_windows_valid [window_of i l slot op cl] = Inr u \<longleftrightarrow>
     (slot \<noteq> general_slot_key \<longrightarrow> same_day_window (window_of i l slot op cl))"
proof -
  have "assert_meal_windows_valid [window_of i l slot op cl] = Inr u \<longleftrightarrow> assert_meal_windows_valid [window_of i l slot op cl] = Inr ()"
    by simp
  then show ?thesis unfolding assert_meal_windows_iff by (simp add: window_of_def)
qed

lemma named_meal_sym: "named_meal a b \<Longrightarrow> named_meal b a"
  by (auto simp: named_meal_def)

lemma template_filter: "template_ok lm ms \<Longrightarrow> template_ok lm (filter P ms)"
proof -
  assume ok: "template_ok lm ms"
  have "length (filter (counted_meal g o') (filter P ms)) \<le> length (filter (counted_meal g o') ms)" for g o'
    by (induction ms) auto
  with ok have "int (length (filter (counted_meal g o') (filter P ms))) \<le> template_limit lm" for g o'
    unfolding template_ok_def by (blast intro: le_int_trans)
  then show ?thesis using ok
    unfolding template_ok_def by (simp add: distinct_map_filter list_all_iff apart_def)
qed

text \<open>A change that keeps the key of a row and does not bring a meal back keeps the template.\<close>

lemma template_map:
  assumes ok: "template_ok lm ms" and row: "\<And>m. m \<in> set ms \<Longrightarrow> meal_row_ok (f m)"
    and key: "\<And>m. ml_id (f m) = ml_id m \<and> ml_group (f m) = ml_group m \<and> ml_org (f m) = ml_org m \<and> rm_slot_key (f m) = rm_slot_key m"
    and keep: "\<And>m. m \<in> set ms \<Longrightarrow> ml_is_active (f m) \<Longrightarrow> ml_is_active m \<and> rm_name (f m) = rm_name m"
  shows "template_ok lm (map f ms)"
proof -
  have "length (filter (counted_meal g o') (map f ms)) \<le> length (filter (counted_meal g o') ms)" for g o'
    by (rule length_filter_map_le) (use key keep in \<open>auto simp: counted_meal_def\<close>)
  with ok have count: "int (length (filter (counted_meal g o') (map f ms))) \<le> template_limit lm" for g o'
    unfolding template_ok_def by (blast intro: le_int_trans)
  have apart: "apart named_meal ml_id (map f ms)"
    by (rule apart_map) (use ok key keep in \<open>auto simp: template_ok_def named_meal_def\<close>)
  have "map ml_id (map f ms) = map ml_id ms" using key by simp
  then have ids: "distinct (map ml_id (map f ms))" using ok by (simp only: template_ok_def)
  have rows: "list_all meal_row_ok (map f ms)" using row by (simp add: list_all_iff)
  from ids rows apart count show ?thesis unfolding template_ok_def by blast
qed

lemma template_add:
  assumes ok: "template_ok lm ms" and new: "ml_id m \<notin> ml_id ` set ms" and row: "meal_row_ok m"
    and name: "\<And>x. x \<in> set ms \<Longrightarrow> \<not> named_meal x m"
    and count: "\<And>gid org. counted_meal gid org m \<Longrightarrow> int (length (filter (counted_meal gid org) ms)) < template_limit lm"
  shows "template_ok lm (ms @ [m])"
proof -
  have "apart named_meal ml_id (ms @ [m])"
    by (rule apart_append) (use ok name named_meal_sym in \<open>auto simp: template_ok_def\<close>)
  moreover have "int (length (filter (counted_meal gid org) (ms @ [m]))) \<le> template_limit lm" for gid org
  proof -
    have "int (length (filter (counted_meal gid org) ms)) \<le> template_limit lm" using ok by (simp add: template_ok_def)
    then show ?thesis using count [of gid org] by (cases "counted_meal gid org m") auto
  qed
  ultimately show ?thesis using ok new row by (auto simp: template_ok_def)
qed

lemma length_filter_replace:
  "distinct (map ml_id ms) \<Longrightarrow>
     length (filter P (map (\<lambda>x. if ml_id x = i then m' else x) ms)) \<le> Suc (length (filter P ms))"
proof (induction ms)
  case (Cons a ms)
  show ?case
  proof (cases "ml_id a = i")
    case True
    then have "i \<notin> ml_id ` set ms" using Cons.prems by auto
    then have "map (\<lambda>x. if ml_id x = i then m' else x) ms = ms" by (intro map_idI) auto
    with True show ?thesis by simp
  next
    case False
    then show ?thesis using Cons by auto
  qed
qed simp

text \<open>One row is replaced by a row with the same keys.\<close>

lemma template_replace:
  assumes ok: "template_ok lm ms" and m: "m \<in> set ms" and row: "meal_row_ok m'"
    and key: "ml_id m' = ml_id m" "ml_group m' = ml_group m" "ml_org m' = ml_org m" "rm_slot_key m' = rm_slot_key m"
    and name: "\<And>x. x \<in> set ms \<Longrightarrow> ml_id x \<noteq> ml_id m \<Longrightarrow> \<not> named_meal m' x"
    and count: "ml_is_active m' \<Longrightarrow> \<not> ml_is_active m
      \<Longrightarrow> int (length (filter (counted_meal (ml_group m) (ml_org m)) ms)) < template_limit lm"
  shows "template_ok lm (map (\<lambda>x. if ml_id x = ml_id m then m' else x) ms)"
proof -
  let ?f = "\<lambda>x. if ml_id x = ml_id m then m' else x"
  have dist: "distinct (map ml_id ms)" using ok by (simp add: template_ok_def)
  have same: "x = m" if "x \<in> set ms" "ml_id x = ml_id m" for x using distinct_key_eq [OF dist that(1) m that(2)] .
  have c: "int (length (filter (counted_meal gid org) (map ?f ms))) \<le> template_limit lm" for gid org
  proof (cases "counted_meal gid org m' \<and> \<not> counted_meal gid org m")
    case True
    then have "gid = ml_group m \<and> org = ml_org m \<and> ml_is_active m' \<and> \<not> ml_is_active m"
      using key by (auto simp: counted_meal_def)
    with count length_filter_replace [OF dist, of "counted_meal gid org" "ml_id m" m'] show ?thesis by auto
  next
    case False
    have "length (filter (counted_meal gid org) (map ?f ms)) \<le> length (filter (counted_meal gid org) ms)"
    proof (rule length_filter_map_le)
      fix x
      assume x: "x \<in> set ms" "counted_meal gid org (?f x)"
      show "counted_meal gid org x" using x False same [OF x(1)] by (cases "ml_id x = ml_id m") auto
    qed
    with ok show ?thesis unfolding template_ok_def by (blast intro: le_int_trans)
  qed
  have a: "apart named_meal ml_id (map ?f ms)"
  proof (rule apartI)
    fix p q
    assume pq: "p \<in> set (map ?f ms)" "q \<in> set (map ?f ms)" "named_meal p q"
    then obtain x y where xy: "x \<in> set ms" "y \<in> set ms" "p = ?f x" "q = ?f y" by auto
    have ids: "ml_id p = ml_id x" "ml_id q = ml_id y" using xy key(1) by auto
    show "ml_id p = ml_id q"
    proof (cases "ml_id x = ml_id m"; cases "ml_id y = ml_id m")
      assume "ml_id x = ml_id m" "ml_id y \<noteq> ml_id m"
      then show ?thesis using name [OF xy(2)] pq(3) xy by simp
    next
      assume "ml_id x \<noteq> ml_id m" "ml_id y = ml_id m"
      then show ?thesis using name [OF xy(1)] named_meal_sym [OF pq(3)] xy by simp
    next
      assume "ml_id x \<noteq> ml_id m" "ml_id y \<noteq> ml_id m"
      then show ?thesis using ok xy pq(3) unfolding template_ok_def apart_def by auto
    qed (use ids in simp)
  qed
  have "map ml_id (map ?f ms) = map ml_id ms" using key(1) by simp
  then have i: "distinct (map ml_id (map ?f ms))" using dist by (simp only:)
  have r: "list_all meal_row_ok (map ?f ms)" using ok row by (auto simp: template_ok_def list_all_iff)
  from i r a c show ?thesis unfolding template_ok_def by blast
qed

section \<open>Operations\<close>

lemma not_taken:
  "\<not> exists_by_name_in_group w gid org name except \<Longrightarrow> x \<in> set (w_meals w) \<Longrightarrow> Some (ml_id x) \<noteq> except
     \<Longrightarrow> ml_group m = gid \<Longrightarrow> ml_org m = org \<Longrightarrow> rm_name m = name \<Longrightarrow> \<not> named_meal m x \<and> \<not> named_meal x m"
  by (auto simp: exists_by_name_in_group_def named_meal_def)

lemma insert_meal_cases:
  "insert_meal m tags k = Inr k' \<longleftrightarrow> ml_id m \<notin> ml_id ` set (w_meals (kt_world k))
     \<and> k' = (set_meals (\<lambda>ms. ms @ [m]) k)\<lparr>kt_tags := (kt_tags k)(ml_id m := tags)\<rparr>"
  by (auto simp: insert_meal_def)

lemma cap_below_limit: "n < template_cap lm ao \<Longrightarrow> n < template_limit lm"
  by (auto simp: template_cap_def template_limit_def split: if_splits)

lemma post_meal_template:
  assumes ok: "template_ok lm (w_meals (kt_world k))" and post: "post_meal lm e upload org dto k = Inr k'"
  shows "template_ok lm (w_meals (kt_world k'))"
proof -
  let ?d = "meal_dto dto" and ?w = "kt_world k"
  let ?m = "new_meal upload (en_id e 0) org ?d"
  from post obtain ao where g: "md_slot ?d \<noteq> general_slot_key" "count_active_in_group ?w (md_group ?d) org < template_cap lm ao"
    "\<not> exists_by_name_in_group ?w (md_group ?d) org (md_name ?d) None"
    "assert_meal_windows_valid [window_of ''new'' (meal_label (md_display ?d) (md_name ?d)) (md_slot ?d)
       (map_option fst (md_window ?d)) (map_option snd (md_window ?d))] = Inr ()"
    "insert_meal ?m (nullish (md_tags ?d) []) k = Inr k'"
    unfolding post_meal_def create_meal_def Let_def bindE_eq_Inr if_Inl_eq_Inr not_le
    by (elim exE conjE) (rule that; (assumption | simp del: assert_meal_windows_valid.simps))
  have m: "ml_id ?m = en_id e 0" "ml_group ?m = md_group ?d" "ml_org ?m = org" "rm_name ?m = md_name ?d"
    "rm_slot_key ?m = md_slot ?d" "rm_window_open ?m = map_option fst (md_window ?d)"
    "rm_window_close ?m = map_option snd (md_window ?d)" "ml_deleted_at ?m = None"
    by (simp_all add: new_meal_def)
  have "template_ok lm (w_meals ?w @ [?m])"
  proof (rule template_add [OF ok])
    show "ml_id ?m \<notin> ml_id ` set (w_meals ?w)" using g(5) by (simp add: insert_meal_cases)
    show "meal_row_ok ?m"
      using g(4) unfolding window_valid_iff meal_row_ok_def m
      by (simp add: meal_dto_def normalize_meal_name_idem same_day_window_any [of _ "[]" _ _ _ "''new''" ])
        (metis same_day_window_any)
    show "\<not> named_meal x ?m" if "x \<in> set (w_meals ?w)" for x
      using not_taken [OF g(3) that _ m(2) m(3) m(4)] by simp
    show "int (length (filter (counted_meal gid o') (w_meals ?w))) < template_limit lm" if "counted_meal gid o' ?m" for gid o'
    proof -
      have "gid = md_group ?d" "o' = org" using that m by (auto simp: counted_meal_def)
      then show ?thesis using cap_below_limit [OF g(2)] by (simp add: count_active_in_group_def)
    qed
  qed
  then show ?thesis using g(5) by (simp add: insert_meal_cases set_meals_def)
qed

lemma update_gate_cases:
  assumes "update_gate lm e org m p w = Inr u"
  obtains ao where "price_lock e w org m p = Inr ()"
    "mp_name p \<noteq> None \<Longrightarrow> the (mp_name p) \<noteq> rm_name m
       \<Longrightarrow> \<not> exists_by_name_in_group w (ml_group m) org (the (mp_name p)) (Some (ml_id m))"
    "\<not> (mp_enabled p = Some True \<and> ml_deleted_at m \<noteq> None)" "re_enable_gate lm w ao m p = Inr ()"
    "window_gate_meal m p = Inr ()" "\<not> (identity_rename m p \<and> has_history w org (ml_id m))"
proof -
  from assms obtain b where *: "price_lock e w org m p = Inr ()"
    "\<not> (mp_name p \<noteq> None \<and> the (mp_name p) \<noteq> rm_name m
        \<and> exists_by_name_in_group w (ml_group m) org (the (mp_name p)) (Some (ml_id m)))"
    "\<not> (mp_enabled p = Some True \<and> ml_deleted_at m \<noteq> None)" "re_enable_gate lm w b m p = Inr ()"
    "window_gate_meal m p = Inr ()" "\<not> (identity_rename m p \<and> has_history w org (ml_id m))"
    unfolding update_gate_def Let_def bindE_eq_Inr if_Inl_eq_Inr
    by (elim exE conjE) (rule that; (assumption | simp))
  then show thesis by (intro that [of b]) blast+
qed

lemma patch_meal_keys [simp]:
  "ml_id (patch_meal upload p m) = ml_id m" "ml_group (patch_meal upload p m) = ml_group m"
  "ml_org (patch_meal upload p m) = ml_org m" "rm_slot_key (patch_meal upload p m) = rm_slot_key m"
  "rm_name (patch_meal upload p m) = nullish (mp_name p) (rm_name m)"
  "rm_display_name (patch_meal upload p m) = nullish (mp_display p) (rm_display_name m)"
  "ml_is_active (patch_meal upload p m) = nullish (mp_enabled p) (ml_is_active m)"
  "ml_deleted_at (patch_meal upload p m) = ml_deleted_at m"
  "rm_window_open (patch_meal upload p m) = patched_open m p"
  "rm_window_close (patch_meal upload p m) = patched_close m p"
  "rm_price (patch_meal upload p m) = nullish (mp_price p) (rm_price m)"
  by (simp_all add: patch_meal_def)

lemma find_meal_unique:
  assumes "find_meal w org i = Some m" "distinct (map ml_id (w_meals w))"
  shows "m \<in> set (w_meals w)" "ml_id m = i" "ml_org m = org"
    "\<And>x. x \<in> set (w_meals w) \<Longrightarrow> (ml_id x = i \<and> ml_org x = org) = (ml_id x = ml_id m)"
    "\<And>x. x \<in> set (w_meals w) \<Longrightarrow> ml_id x = ml_id m \<Longrightarrow> x = m"
proof -
  show m: "m \<in> set (w_meals w)" "ml_id m = i" "ml_org m = org"
    using assms(1) by (auto simp: find_meal_def dest: find_SomeD)
  show same: "x = m" if "x \<in> set (w_meals w)" "ml_id x = ml_id m" for x
    using distinct_key_eq [OF assms(2) that(1) m(1) that(2)] .
  show "(ml_id x = i \<and> ml_org x = org) = (ml_id x = ml_id m)" if "x \<in> set (w_meals w)" for x
    using same [OF that] m by auto
qed

lemma update_meal_cases:
  assumes "update_meal lm e upload org i p k = Inr k'" "distinct (map ml_id (w_meals (kt_world k)))"
  obtains m where "find_meal (kt_world k) org i = Some m" "update_gate lm e org m p (kt_world k) = Inr ()"
    "w_meals (kt_world k') = map (\<lambda>x. if ml_id x = ml_id m then patch_meal upload p m else x) (w_meals (kt_world k))"
    "w_db (kt_world k') = w_db (kt_world k)"
proof -
  from assms(1) obtain m where m: "find_meal (kt_world k) org i = Some m" "update_gate lm e org m p (kt_world k) = Inr ()"
    and k': "w_meals (kt_world k') = map (\<lambda>x. if ml_id x = i \<and> ml_org x = org then patch_meal upload p x else x) (w_meals (kt_world k))"
      "w_db (kt_world k') = w_db (kt_world k)"
    by (auto simp: update_meal_def Let_def err_simps set_meals_def revert_group_planners_def split: if_splits)
  note u = find_meal_unique [OF m(1) assms(2)]
  have "w_meals (kt_world k') = map (\<lambda>x. if ml_id x = ml_id m then patch_meal upload p m else x) (w_meals (kt_world k))"
    unfolding k'(1) using u(4,5) by (intro map_cong) auto
  from that [OF m this k'(2)] show thesis .
qed

text \<open>An accepted edit keeps the row well formed and its name free.\<close>

lemma patched_row_ok:
  assumes ok: "meal_row_ok m" and gate: "update_gate lm e org m (patch_dto p) w = Inr u"
  shows "meal_row_ok (patch_meal upload (patch_dto p) m)"
proof -
  let ?p = "patch_dto p"
  from gate obtain ao where g: "\<not> (mp_enabled ?p = Some True \<and> ml_deleted_at m \<noteq> None)" "window_gate_meal m ?p = Inr ()"
    by (rule update_gate_cases)
  have "normalize_meal_name (nullish (mp_name ?p) (rm_name m)) = nullish (mp_name ?p) (rm_name m)"
    using ok by (cases "mp_name p") (simp_all add: patch_dto_def meal_row_ok_def normalize_meal_name_idem)
  moreover have "\<not> nullish (mp_enabled ?p) (ml_is_active m)" if "ml_deleted_at m \<noteq> None"
    using g(1) ok that by (cases "mp_enabled ?p") (auto simp: meal_row_ok_def)
  moreover have "same_day_window (window_of (ml_id m) [] (rm_slot_key m) (patched_open m ?p) (patched_close m ?p))"
    if "rm_slot_key m \<noteq> general_slot_key"
  proof (cases "mp_window ?p = None")
    case True
    with ok that show ?thesis by (simp add: meal_row_ok_def patched_open_def patched_close_def)
  next
    case False
    with g(2) that show ?thesis unfolding window_gate_meal_def
      by (simp add: window_valid_iff del: assert_meal_windows_valid.simps) (metis same_day_window_any)
  qed
  ultimately show ?thesis by (simp add: meal_row_ok_def)
qed

lemma patch_template:
  assumes ok: "template_ok lm (w_meals (kt_world k))" and edit: "patch_meal_by_id lm e upload org i p k = Inr k'"
  shows "template_ok lm (w_meals (kt_world k'))"
proof -
  let ?p = "patch_dto p" and ?w = "kt_world k"
  have dist: "distinct (map ml_id (w_meals ?w))" using ok by (simp add: template_ok_def)
  from edit dist obtain m where m: "find_meal ?w org i = Some m" and gate: "update_gate lm e org m ?p ?w = Inr ()"
    and k': "w_meals (kt_world k') = map (\<lambda>x. if ml_id x = ml_id m then patch_meal upload ?p m else x) (w_meals ?w)"
    unfolding patch_meal_by_id_def by (rule update_meal_cases)
  note u = find_meal_unique [OF m dist]
  from gate obtain ao where g: "mp_name ?p \<noteq> None \<Longrightarrow> the (mp_name ?p) \<noteq> rm_name m
       \<Longrightarrow> \<not> exists_by_name_in_group ?w (ml_group m) org (the (mp_name ?p)) (Some (ml_id m))"
    "re_enable_gate lm ?w ao m ?p = Inr ()"
    by (rule update_gate_cases) blast
  have "template_ok lm (map (\<lambda>x. if ml_id x = ml_id m then patch_meal upload ?p m else x) (w_meals ?w))"
  proof (rule template_replace [OF ok u(1)])
    show "meal_row_ok (patch_meal upload ?p m)"
      using ok u(1) gate by (intro patched_row_ok) (auto simp: template_ok_def list_all_iff)
    show "\<not> named_meal (patch_meal upload ?p m) x" if x: "x \<in> set (w_meals ?w)" "ml_id x \<noteq> ml_id m" for x
    proof (cases "re_enabling m ?p")
      case True
      with g(2) have "\<not> exists_by_name_in_group ?w (ml_group m) (ml_org m) (nullish (mp_name ?p) (rm_name m)) (Some (ml_id m))"
        by (auto simp: re_enable_gate_def split: if_splits)
      then show ?thesis using not_taken [OF _ x(1), of _ _ _ _ "patch_meal upload ?p m"] x(2) by simp
    next
      case False
      show ?thesis
      proof (cases "nullish (mp_name ?p) (rm_name m) = rm_name m")
        case True
        have "\<not> named_meal m x" using ok u(1) x by (auto simp: template_ok_def apart_def)
        with True False show ?thesis by (cases "mp_enabled ?p") (auto simp: named_meal_def re_enabling_def)
      next
        case renamed: False
        then have "mp_name ?p \<noteq> None" "the (mp_name ?p) \<noteq> rm_name m" by (cases "mp_name ?p"; simp)+
        from g(1) [OF this] have "\<not> exists_by_name_in_group ?w (ml_group m) (ml_org m)
            (nullish (mp_name ?p) (rm_name m)) (Some (ml_id m))"
          using u(3) \<open>mp_name ?p \<noteq> None\<close> by auto
        then show ?thesis using not_taken [OF _ x(1), of _ _ _ _ "patch_meal upload ?p m"] x(2) by simp
      qed
    qed
    show "int (length (filter (counted_meal (ml_group m) (ml_org m)) (w_meals ?w))) < template_limit lm"
      if "ml_is_active (patch_meal upload ?p m)" "\<not> ml_is_active m"
    proof -
      have "re_enabling m ?p" using that by (cases "mp_enabled ?p") (auto simp: re_enabling_def)
      with g(2) have "count_active_in_group ?w (ml_group m) (ml_org m) < template_cap lm ao"
        by (auto simp: re_enable_gate_def split: if_splits)
      then show ?thesis using cap_below_limit by (simp add: count_active_in_group_def)
    qed
  qed simp_all
  with k' show ?thesis by simp
qed

section \<open>Runs\<close>

text \<open>
  The operations of the template; everything else the server does leaves the meals alone or,
  with a group, removes them.
\<close>

inductive meal_step :: "meal_limits \<Rightarrow> (string \<Rightarrow> string option) \<Rightarrow> kitchen \<Rightarrow> kitchen \<Rightarrow> bool"
  for lm :: meal_limits and upload :: "string \<Rightarrow> string option" where
  create: "post_meal lm e upload org dto k = Inr k' \<Longrightarrow> meal_step lm upload k k'"
| edit: "patch_meal_by_id lm e upload org i p k = Inr k' \<Longrightarrow> meal_step lm upload k k'"
| delete: "delete_meal e org i k = Inr k' \<Longrightarrow> meal_step lm upload k k'"
| reorder: "reorder_meals org gid ids k = Inr k' \<Longrightarrow> meal_step lm upload k k'"
| general: "ensure_general_slot e gid org k = Inr (m, k') \<Longrightarrow> meal_step lm upload k k'"
| outside: "w_meals (kt_world k') = filter P (w_meals (kt_world k)) \<Longrightarrow> meal_step lm upload k k'"

inductive_cases meal_stepE: "meal_step lm upload k k'"

definition reordered :: "meal_row \<Rightarrow> meal_row \<Rightarrow> bool" where
  "reordered m m' \<longleftrightarrow> (\<exists>n. m' = m\<lparr>rm_order := n\<rparr>)"

lemma reorder_maps: "\<exists>f. reorder org n ids ms = map f ms \<and> (\<forall>m. reordered m (f m))"
proof (induction org n ids ms rule: reorder.induct)
  case (1 org n ms)
  have "reordered m m" for m by (auto simp: reordered_def intro: exI [of _ "rm_order m"])
  then show ?case by (intro exI [of _ id]) simp
next
  case (2 org n i is' ms)
  let ?g = "\<lambda>m. if ml_id m = i \<and> ml_org m = org then m\<lparr>rm_order := Some (int n)\<rparr> else m"
  from 2 obtain f where f: "reorder org (Suc n) is' (map ?g ms) = map f (map ?g ms)" "\<And>m. reordered m (f m)" by blast
  have "reordered m (f (?g m))" for m
    using f(2) [of "?g m"] by (auto simp: reordered_def)
  then show ?case using f(1) by (intro exI [of _ "f \<circ> ?g"]) simp
qed

lemma reordered_keeps:
  "reordered m m' \<Longrightarrow> ml_id m' = ml_id m \<and> ml_group m' = ml_group m \<and> ml_org m' = ml_org m
     \<and> rm_slot_key m' = rm_slot_key m \<and> rm_name m' = rm_name m \<and> rm_display_name m' = rm_display_name m
     \<and> ml_is_active m' = ml_is_active m \<and> ml_deleted_at m' = ml_deleted_at m
     \<and> rm_window_open m' = rm_window_open m \<and> rm_window_close m' = rm_window_close m"
  by (auto simp: reordered_def)

lemma delete_meal_meals:
  assumes "delete_meal e org i k = Inr k'"
  obtains f where "w_meals (kt_world k') = map f (w_meals (kt_world k))" "\<And>m. f m = m \<or> f m = soft_delete e m"
proof -
  let ?f = "\<lambda>x. if ml_id x = i \<and> ml_org x = org \<and> ml_deleted_at x = None then soft_delete e x else x"
  from assms have "w_meals (kt_world k') = map ?f (w_meals (kt_world k))"
    by (auto simp: delete_meal_def Let_def set_meals_def revert_group_planners_def split: option.splits)
  then show thesis by (rule that) simp
qed

lemma general_slot_meals:
  assumes "ensure_general_slot e gid org k = Inr (m, k')"
  shows "w_meals (kt_world k') = w_meals (kt_world k)
    \<or> ml_id (general_slot (en_id e 0) gid org) \<notin> ml_id ` set (w_meals (kt_world k))
      \<and> w_meals (kt_world k') = w_meals (kt_world k) @ [general_slot (en_id e 0) gid org]"
  using assms by (auto simp: ensure_general_slot_def err_simps insert_meal_cases set_meals_def split: option.splits)

lemma meal_step_template:
  assumes "meal_step lm upload k k'" and ok: "template_ok lm (w_meals (kt_world k))"
  shows "template_ok lm (w_meals (kt_world k'))"
  using assms(1)
proof cases
  case (create e org dto)
  with ok show ?thesis by (rule post_meal_template)
next
  case (edit e org i p)
  with ok show ?thesis by (rule patch_template)
next
  case (delete e org i)
  then obtain f where f: "w_meals (kt_world k') = map f (w_meals (kt_world k))" "\<And>m. f m = m \<or> f m = soft_delete e m"
    by (rule delete_meal_meals) blast
  have "template_ok lm (map f (w_meals (kt_world k)))"
  proof (rule template_map [OF ok])
    fix m
    assume "m \<in> set (w_meals (kt_world k))"
    then have "meal_row_ok m" using ok by (simp add: template_ok_def list_all_iff)
    then show "meal_row_ok (f m)" using f(2) [of m] by (auto simp: meal_row_ok_def soft_delete_def)
    show "ml_is_active m \<and> rm_name (f m) = rm_name m" if "ml_is_active (f m)"
      using that f(2) [of m] by (auto simp: soft_delete_def)
  next
    fix m
    show "ml_id (f m) = ml_id m \<and> ml_group (f m) = ml_group m \<and> ml_org (f m) = ml_org m \<and> rm_slot_key (f m) = rm_slot_key m"
      using f(2) [of m] by (auto simp: soft_delete_def)
  qed
  with f(1) show ?thesis by simp
next
  case (reorder org gid ids)
  then have "w_meals (kt_world k') = Master_Meals.reorder org 0 ids (w_meals (kt_world k))"
    by (auto simp: reorder_meals_def err_simps set_meals_def)
  moreover obtain f where f: "Master_Meals.reorder org 0 ids (w_meals (kt_world k)) = map f (w_meals (kt_world k))"
    "\<And>m. reordered m (f m)" using reorder_maps by blast
  moreover have "template_ok lm (map f (w_meals (kt_world k)))"
  proof (rule template_map [OF ok])
    fix m
    assume "m \<in> set (w_meals (kt_world k))"
    then have "meal_row_ok m" using ok by (simp add: template_ok_def list_all_iff)
    then show "meal_row_ok (f m)" using reordered_keeps [OF f(2) [of m]] by (simp add: meal_row_ok_def)
  qed (use reordered_keeps [OF f(2)] in auto)
  ultimately show ?thesis by simp
next
  case (general e gid org m)
  let ?g = "general_slot (en_id e 0) gid org"
  have "template_ok lm (w_meals (kt_world k) @ [?g])" if "ml_id ?g \<notin> ml_id ` set (w_meals (kt_world k))"
  proof (rule template_add [OF ok that])
    have "normalize_meal_name ''Attendance'' = ''Attendance''" by code_simp
    then show "meal_row_ok ?g" by (simp add: meal_row_ok_def general_slot_def)
  qed (simp_all add: named_meal_def counted_meal_def general_slot_def)
  with general_slot_meals [OF general] ok show ?thesis by auto
next
  case (outside P)
  with ok show ?thesis by (simp add: template_filter)
qed

interpretation template: invariant_steps "meal_step lm upload" "\<lambda>k. template_ok lm (w_meals (kt_world k))" for lm upload
  by unfold_locales (rule meal_step_template)

lemma reached_template:
  "(meal_step lm upload)\<^sup>*\<^sup>* k k' \<Longrightarrow> w_meals (kt_world k) = [] \<Longrightarrow> template_ok lm (w_meals (kt_world k'))"
  by (erule template.inv_run) (simp add: template_ok_def apart_def template_limit_def)

text \<open>
  (C13) The master meal template stays well formed under every sequence of operations: a group
  never has more active meals than its limit, two of its active meals never share a name up to
  case and white space, every meal has a window that opens and closes on one day, and a
  deleted meal is never active again.
\<close>

theorem template_stays_wellformed:
  assumes "(meal_step lm upload)\<^sup>*\<^sup>* k k'" "w_meals (kt_world k) = []"
    and "a \<in> set (w_meals (kt_world k'))" "b \<in> set (w_meals (kt_world k'))"
  shows "count_active_in_group (kt_world k') gid org \<le> max 0 (max (lm_max_meals lm) (lm_max_windows lm))
    \<and> (ml_group a = ml_group b \<and> ml_org a = ml_org b \<and> ml_is_active a \<and> ml_is_active b
         \<and> rm_slot_key a \<noteq> general_slot_key \<and> rm_slot_key b \<noteq> general_slot_key
         \<and> js_lower (normalize_meal_name (rm_name a)) = js_lower (normalize_meal_name (rm_name b)) \<longrightarrow> a = b)
    \<and> (rm_slot_key a \<noteq> general_slot_key
         \<longrightarrow> assert_meal_windows_valid [window_of (ml_id a) [] (rm_slot_key a) (rm_window_open a) (rm_window_close a)] = Inr ())
    \<and> (ml_deleted_at a \<noteq> None \<longrightarrow> \<not> ml_is_active a)"
proof -
  have ok: "template_ok lm (w_meals (kt_world k'))" using assms(1,2) by (rule reached_template)
  then have rows: "meal_row_ok a" "meal_row_ok b" using assms(3,4) by (auto simp: template_ok_def list_all_iff)
  have "a = b" if "named_meal a b"
  proof -
    have "ml_id a = ml_id b" using ok assms(3,4) that by (auto simp: template_ok_def apart_def)
    then show ?thesis using distinct_key_eq assms(3,4) ok by (auto simp: template_ok_def)
  qed
  moreover have "count_active_in_group (kt_world k') gid org \<le> template_limit lm"
    using ok by (simp add: template_ok_def count_active_in_group_def)
  ultimately show ?thesis
    using rows unfolding window_valid_iff by (auto simp: meal_row_ok_def named_meal_def template_limit_def)
qed

section \<open>The identity of a meal with history\<close>

text \<open>A step while the meal has attendance and its row stays.\<close>

definition recorded_step ::
  "meal_limits \<Rightarrow> (string \<Rightarrow> string option) \<Rightarrow> ident \<Rightarrow> ident \<Rightarrow> kitchen \<Rightarrow> kitchen \<Rightarrow> bool" where
  "recorded_step lm upload org i k k' \<longleftrightarrow> meal_step lm upload k k' \<and> has_history (kt_world k) org i
     \<and> i \<in> ml_id ` set (w_meals (kt_world k'))"

definition identity_is :: "meal_row \<Rightarrow> meal_row \<Rightarrow> bool" where
  "identity_is m x \<longleftrightarrow> ml_id x = ml_id m \<and> ml_org x = ml_org m \<and> rm_slot_key x = rm_slot_key m
     \<and> rm_name x = rm_name m \<and> rm_display_name x = rm_display_name m"

text \<open>The template is well formed and every row of the meal carries its identity.\<close>

definition identity_inv :: "meal_limits \<Rightarrow> meal_row \<Rightarrow> kitchen \<Rightarrow> bool" where
  "identity_inv lm m k \<longleftrightarrow> template_ok lm (w_meals (kt_world k)) \<and> ml_id m \<in> ml_id ` set (w_meals (kt_world k))
     \<and> (\<forall>x\<in>set (w_meals (kt_world k)). ml_id x = ml_id m \<longrightarrow> identity_is m x)"

lemma patch_keeps_identity:
  assumes edit: "patch_meal_by_id lm e upload org i p k = Inr k'" and ok: "template_ok lm (w_meals (kt_world k))"
    and hist: "has_history (kt_world k) (ml_org m) (ml_id m)" and m: "m \<in> set (w_meals (kt_world k))"
  obtains f where "w_meals (kt_world k') = map f (w_meals (kt_world k))" "identity_is m (f m)" "\<And>x. ml_id (f x) = ml_id x"
proof -
  have dist: "distinct (map ml_id (w_meals (kt_world k)))" using ok by (simp add: template_ok_def)
  from edit dist obtain y where y: "find_meal (kt_world k) org i = Some y"
    and gate: "update_gate lm e org y (patch_dto p) (kt_world k) = Inr ()"
    and k': "w_meals (kt_world k') = map (\<lambda>x. if ml_id x = ml_id y then patch_meal upload (patch_dto p) y else x) (w_meals (kt_world k))"
    unfolding patch_meal_by_id_def by (rule update_meal_cases)
  note u = find_meal_unique [OF y dist]
  from gate have lock: "\<not> (identity_rename y (patch_dto p) \<and> has_history (kt_world k) org (ml_id y))"
    by (rule update_gate_cases)
  let ?f = "\<lambda>x. if ml_id x = ml_id y then patch_meal upload (patch_dto p) y else x"
  have "identity_is m (?f m)"
  proof (cases "ml_id m = ml_id y")
    case True
    then have "m = y" using u(5) m by blast
    with lock hist u(3) have "\<not> identity_rename y (patch_dto p)" by simp
    with \<open>m = y\<close> show ?thesis
      by (cases "mp_name (patch_dto p)"; cases "mp_display (patch_dto p)") (auto simp: identity_is_def identity_rename_def)
  qed (simp add: identity_is_def)
  from that [OF k' this] show thesis by simp
qed

lemma identity_mapped:
  assumes inv: "identity_inv lm m k" and k': "w_meals (kt_world k') = map f (w_meals (kt_world k))"
    and f: "\<And>x. x \<in> set (w_meals (kt_world k)) \<Longrightarrow> ml_id x = ml_id m \<Longrightarrow> identity_is x (f x)" "\<And>x. ml_id (f x) = ml_id x"
    and ok: "template_ok lm (w_meals (kt_world k'))"
  shows "identity_inv lm m k'"
  using inv f ok unfolding identity_inv_def k' by (auto simp: identity_is_def image_iff)

lemma identity_step:
  assumes inv: "identity_inv lm m k" and step: "recorded_step lm upload (ml_org m) (ml_id m) k k'"
  shows "identity_inv lm m k'"
proof -
  have st: "meal_step lm upload k k'" and hist: "has_history (kt_world k) (ml_org m) (ml_id m)"
    and stays: "ml_id m \<in> ml_id ` set (w_meals (kt_world k'))"
    using step by (auto simp: recorded_step_def)
  have ok: "template_ok lm (w_meals (kt_world k))" using inv by (simp add: identity_inv_def)
  have ok': "template_ok lm (w_meals (kt_world k'))" using st ok by (rule meal_step_template)
  have same: "x = y" if "x \<in> set (w_meals (kt_world k))" "y \<in> set (w_meals (kt_world k))" "ml_id x = ml_id y" for x y
    using distinct_key_eq [of ml_id "w_meals (kt_world k)"] ok that by (simp add: template_ok_def)
  have added: "identity_inv lm m k'"
    if "w_meals (kt_world k') = w_meals (kt_world k) @ [n]" "ml_id n \<notin> ml_id ` set (w_meals (kt_world k))" for n
    using inv that ok' unfolding identity_inv_def by (auto simp: image_iff)
  from st show ?thesis
  proof cases
    case (create e org dto)
    then obtain n where "w_meals (kt_world k') = w_meals (kt_world k) @ [n]" "ml_id n \<notin> ml_id ` set (w_meals (kt_world k))"
      unfolding post_meal_def create_meal_def Let_def bindE_eq_Inr if_Inl_eq_Inr insert_meal_cases set_meals_def
      by (elim exE conjE) (rule that; simp)
    then show ?thesis by (rule added)
  next
    case (edit e org i p)
    obtain x where x: "x \<in> set (w_meals (kt_world k))" "ml_id x = ml_id m" using inv by (auto simp: identity_inv_def)
    then have "ml_org x = ml_org m" using inv by (auto simp: identity_inv_def identity_is_def)
    with hist x(2) have "has_history (kt_world k) (ml_org x) (ml_id x)" by simp
    with edit ok obtain f where f: "w_meals (kt_world k') = map f (w_meals (kt_world k))" "identity_is x (f x)" "\<And>y. ml_id (f y) = ml_id y"
      using x(1) by (rule patch_keeps_identity) (rule that)
    show ?thesis
      by (rule identity_mapped [OF inv f(1) _ f(3) ok']) (use f(2) same [OF x(1)] x(2) in auto)
  next
    case (delete e org i)
    then obtain f where f: "w_meals (kt_world k') = map f (w_meals (kt_world k))" "\<And>y. f y = y \<or> f y = soft_delete e y"
      by (rule delete_meal_meals) blast
    have g: "identity_is y (f y) \<and> ml_id (f y) = ml_id y" for y
      using f(2) [of y] by (auto simp: identity_is_def soft_delete_def)
    show ?thesis by (rule identity_mapped [OF inv f(1) _ _ ok']) (use g in blast)+
  next
    case (reorder org gid ids)
    then have r: "w_meals (kt_world k') = Master_Meals.reorder org 0 ids (w_meals (kt_world k))"
      by (auto simp: reorder_meals_def err_simps set_meals_def)
    obtain f where f: "Master_Meals.reorder org 0 ids (w_meals (kt_world k)) = map f (w_meals (kt_world k))"
      "\<And>y. reordered y (f y)" using reorder_maps by blast
    have g: "identity_is y (f y) \<and> ml_id (f y) = ml_id y" for y
      using reordered_keeps [OF f(2) [of y]] by (simp add: identity_is_def)
    show ?thesis by (rule identity_mapped [OF inv r [unfolded f(1)] _ _ ok']) (use g in blast)+
  next
    case (general e gid org n)
    from general_slot_meals [OF this] show ?thesis
    proof
      assume "w_meals (kt_world k') = w_meals (kt_world k)"
      with inv show ?thesis by (simp add: identity_inv_def)
    qed (use added in blast)
  next
    case (outside P)
    with inv ok' stays show ?thesis by (auto simp: identity_inv_def)
  qed
qed

interpretation recorded: invariant_steps "recorded_step lm upload (ml_org m) (ml_id m)" "identity_inv lm m" for lm upload m
  by unfold_locales (rule identity_step)

text \<open>
  (C14) A meal somebody has an attendance record for keeps its name, its display name and its
  slot key: under every sequence of template operations, from any template the server can
  reach, the row of the meal shows the same identity as long as the record and the row exist.
\<close>

theorem meal_identity_locked:
  assumes "(meal_step lm upload)\<^sup>*\<^sup>* k0 k" "w_meals (kt_world k0) = []"
    and "(\<lambda>s s'. meal_step lm upload s s' \<and> has_history (kt_world s) (ml_org m) (ml_id m)
            \<and> ml_id m \<in> ml_id ` set (w_meals (kt_world s')))\<^sup>*\<^sup>* k k'"
    and "m \<in> set (w_meals (kt_world k))" "m' \<in> set (w_meals (kt_world k'))" "ml_id m' = ml_id m"
  shows "rm_name m' = rm_name m \<and> rm_display_name m' = rm_display_name m \<and> rm_slot_key m' = rm_slot_key m"
proof -
  have ok: "template_ok lm (w_meals (kt_world k))" using assms(1,2) by (rule reached_template)
  then have "x = m" if "x \<in> set (w_meals (kt_world k))" "ml_id x = ml_id m" for x
    using distinct_key_eq assms(4) that by (auto simp: template_ok_def)
  then have inv: "identity_inv lm m k" using ok assms(4) by (auto simp: identity_inv_def identity_is_def)
  have "(recorded_step lm upload (ml_org m) (ml_id m))\<^sup>*\<^sup>* k k'" using assms(3) by (simp add: recorded_step_def [abs_def])
  then have "identity_inv lm m k'" using inv by (rule recorded.inv_run)
  then show ?thesis using assms(5,6) by (auto simp: identity_inv_def identity_is_def)
qed

section \<open>The price lock\<close>

lemma open_window_locks_price:
  assumes "patch_meal_by_id lm e upload org i p k = Inr k'" "distinct (map ml_id (w_meals (kt_world k)))"
    and "m \<in> set (w_meals (kt_world k))" "ml_id m = i" "ml_org m = org"
    and "rm_window_open m = Some op" "rm_window_close m = Some cl" "op \<noteq> []" "cl \<noteq> []"
    and "op \<le> en_time e (org_tz (kt_world k) org)" "en_time e (org_tz (kt_world k) org) \<le> cl"
  shows "\<forall>m'\<in>set (w_meals (kt_world k')). ml_id m' = i \<longrightarrow> rm_price m' = rm_price m"
proof -
  from assms(1,2) obtain y where y: "find_meal (kt_world k) org i = Some y"
    and gate: "update_gate lm e org y (patch_dto p) (kt_world k) = Inr ()"
    and k': "w_meals (kt_world k') = map (\<lambda>x. if ml_id x = ml_id y then patch_meal upload (patch_dto p) y else x) (w_meals (kt_world k))"
    unfolding patch_meal_by_id_def by (rule update_meal_cases)
  note u = find_meal_unique [OF y assms(2)]
  have "y = m" using u(5) [OF assms(3)] u(2) assms(4) by simp
  from gate have "price_lock e (kt_world k) org y (patch_dto p) = Inr ()" by (rule update_gate_cases)
  then have "rm_price (patch_meal upload (patch_dto p) y) = rm_price y"
    using assms(6-11) \<open>y = m\<close> by (cases "mp_price (patch_dto p)") (auto simp: price_lock_def split: if_splits)
  then show ?thesis unfolding k' using \<open>y = m\<close> u(5) u(2) by auto
qed

section \<open>Concrete inputs\<close>

definition ex_limits :: meal_limits where
  "ex_limits = \<lparr>lm_max_meals = 10, lm_max_windows = 5, lm_min_tags = 2, lm_max_tags = 6\<rparr>"

definition ex_kitchen :: "meal_row list \<Rightarrow> attendance_row list \<Rightarrow> kitchen" where
  "ex_kitchen ms as = \<lparr>kt_world = ex_world\<lparr>w_db := (w_db ex_world)\<lparr>db_attendance := as\<rparr>, w_meals := ms\<rparr>,
     kt_tags = (\<lambda>_. [])\<rparr>"

definition ex_lunch :: create_meal_dto where
  "ex_lunch = \<lparr>md_group = ''g'', md_slot = ''Lunch'', md_name = ''  Thali   lunch '', md_display = None, md_order = None,
     md_attendance = None, md_description = None, md_menu = None, md_image = None, md_prefs = None, md_tags = None,
     md_window = Some (''12:00'', ''14:00''), md_price = Some 60\<rparr>"

definition ex_lunch_row :: meal_row where
  "ex_lunch_row = new_meal (\<lambda>_. None) ''new00'' ''o'' (meal_dto ex_lunch)"

definition ex_no_change :: meal_patch where
  "ex_no_change = \<lparr>mp_name = None, mp_display = None, mp_order = None, mp_enabled = None, mp_attendance = None,
     mp_description = None, mp_menu = None, mp_image = None, mp_prefs = None, mp_tags = None, mp_window = None, mp_price = None\<rparr>"

definition ex_evening :: env where
  "ex_evening = ex_env\<lparr>en_time := (\<lambda>_. ''21:00'')\<rparr>"

definition ex_meal_record :: attendance_row where
  "ex_meal_record = (ex_meal ''a1'' ''2026-07-10'' 60)\<lparr>at_meal := ''new00''\<rparr>"

definition world_after :: "exn + kitchen \<Rightarrow> world option" where
  "world_after r = (case r of Inl _ \<Rightarrow> None | Inr k \<Rightarrow> Some (kt_world k))"

lemma world_afterD: "world_after r = Some w \<Longrightarrow> \<exists>k. r = Inr k \<and> kt_world k = w"
  by (auto simp: world_after_def split: sum.splits)

lemma ex_created_meal:
  "world_after (post_meal ex_limits ex_env (\<lambda>_. None) ''o'' ex_lunch (ex_kitchen [] []))
     = Some (kt_world (ex_kitchen [ex_lunch_row] []))"
  by code_simp

lemma ex_repriced:
  "world_after (patch_meal_by_id ex_limits ex_evening (\<lambda>_. None) ''o'' ''new00'' (ex_no_change\<lparr>mp_price := Some (Some 70)\<rparr>)
     (ex_kitchen [ex_lunch_row] [ex_meal_record])) = Some (kt_world (ex_kitchen [ex_lunch_row\<lparr>rm_price := Some 70\<rparr>] [ex_meal_record]))"
  by code_simp

text \<open>A meal is created, somebody marks it, and its price changes after the window.\<close>

lemma ex_template_run:
  obtains k' where "(meal_step ex_limits (\<lambda>_. None))\<^sup>*\<^sup>* (ex_kitchen [] []) (ex_kitchen [ex_lunch_row] [ex_meal_record])"
    "meal_step ex_limits (\<lambda>_. None) (ex_kitchen [ex_lunch_row] [ex_meal_record]) k'"
    "w_meals (kt_world k') = [ex_lunch_row\<lparr>rm_price := Some 70\<rparr>]"
proof -
  obtain k1 where k1: "post_meal ex_limits ex_env (\<lambda>_. None) ''o'' ex_lunch (ex_kitchen [] []) = Inr k1"
    "kt_world k1 = kt_world (ex_kitchen [ex_lunch_row] [])"
    using world_afterD [OF ex_created_meal] by blast
  obtain k3 where k3: "patch_meal_by_id ex_limits ex_evening (\<lambda>_. None) ''o'' ''new00'' (ex_no_change\<lparr>mp_price := Some (Some 70)\<rparr>)
      (ex_kitchen [ex_lunch_row] [ex_meal_record]) = Inr k3"
    "kt_world k3 = kt_world (ex_kitchen [ex_lunch_row\<lparr>rm_price := Some 70\<rparr>] [ex_meal_record])"
    using world_afterD [OF ex_repriced] by blast
  have "meal_step ex_limits (\<lambda>_. None) k1 (ex_kitchen [ex_lunch_row] [ex_meal_record])"
    by (rule meal_step.outside [where P = "\<lambda>_. True"]) (simp add: k1(2) ex_kitchen_def)
  with r_into_rtranclp [of "meal_step ex_limits (\<lambda>_. None)", OF meal_step.create [OF k1(1)]]
  have run: "(meal_step ex_limits (\<lambda>_. None))\<^sup>*\<^sup>* (ex_kitchen [] []) (ex_kitchen [ex_lunch_row] [ex_meal_record])"
    by (rule rtranclp.rtrancl_into_rtrancl)
  have "w_meals (kt_world k3) = [ex_lunch_row\<lparr>rm_price := Some 70\<rparr>]" unfolding k3(2) by (simp add: ex_kitchen_def)
  with run meal_step.edit [OF k3(1)] show thesis by (rule that)
qed

theorem template_stays_wellformed_witness:
  "rm_name ex_lunch_row = ''Thali lunch''
   \<and> count_active_in_group (kt_world (ex_kitchen [ex_lunch_row] [ex_meal_record])) ''g'' ''o'' \<le> 10
   \<and> assert_meal_windows_valid [window_of ''new00'' [] ''lunch'' (Some ''12:00'') (Some ''14:00'')] = Inr ()"
proof -
  obtain k' where run: "(meal_step ex_limits (\<lambda>_. None))\<^sup>*\<^sup>* (ex_kitchen [] []) (ex_kitchen [ex_lunch_row] [ex_meal_record])"
    by (rule ex_template_run)
  have r: "rm_name ex_lunch_row = ''Thali lunch''" "ml_id ex_lunch_row = ''new00''" "rm_slot_key ex_lunch_row = ''lunch''"
    "rm_window_open ex_lunch_row = Some ''12:00''" "rm_window_close ex_lunch_row = Some ''14:00''"
    "general_slot_key \<noteq> ''lunch''"
    by code_simp+
  from template_stays_wellformed [OF run, of ex_lunch_row ex_lunch_row "''g''" "''o''"] r show ?thesis
    by (simp add: ex_kitchen_def ex_limits_def del: assert_meal_windows_valid.simps)
qed

theorem meal_identity_locked_witness:
  "\<exists>k'. patch_meal_by_id ex_limits ex_evening (\<lambda>_. None) ''o'' ''new00'' (ex_no_change\<lparr>mp_price := Some (Some 70)\<rparr>)
       (ex_kitchen [ex_lunch_row] [ex_meal_record]) = Inr k'
     \<and> has_history (kt_world (ex_kitchen [ex_lunch_row] [ex_meal_record])) ''o'' ''new00''
     \<and> map rm_price (w_meals (kt_world k')) = [Some 70] \<and> map rm_name (w_meals (kt_world k')) = [''Thali lunch'']
     \<and> map rm_slot_key (w_meals (kt_world k')) = [''lunch'']
     \<and> world_after (patch_meal_by_id ex_limits ex_evening (\<lambda>_. None) ''o'' ''new00'' (ex_no_change\<lparr>mp_name := Some ''Dinner''\<rparr>)
         (ex_kitchen [ex_lunch_row] [ex_meal_record])) = None"
proof -
  let ?k = "ex_kitchen [ex_lunch_row] [ex_meal_record]" and ?m' = "ex_lunch_row\<lparr>rm_price := Some 70\<rparr>"
  obtain k' where p: "patch_meal_by_id ex_limits ex_evening (\<lambda>_. None) ''o'' ''new00'' (ex_no_change\<lparr>mp_price := Some (Some 70)\<rparr>) ?k = Inr k'"
    and "kt_world k' = kt_world (ex_kitchen [?m'] [ex_meal_record])"
    using world_afterD [OF ex_repriced] by blast
  then have k': "w_meals (kt_world k') = [?m']" by (simp add: ex_kitchen_def)
  obtain k1 where run: "(meal_step ex_limits (\<lambda>_. None))\<^sup>*\<^sup>* (ex_kitchen [] []) ?k" by (rule ex_template_run)
  have h: "has_history (kt_world ?k) ''o'' ''new00''" by code_simp
  have r: "rm_name ex_lunch_row = ''Thali lunch''" "rm_slot_key ex_lunch_row = ''lunch''" "ml_org ex_lunch_row = ''o''"
    "ml_id ex_lunch_row = ''new00''" by code_simp+
  have "(\<lambda>s s'. meal_step ex_limits (\<lambda>_. None) s s' \<and> has_history (kt_world s) (ml_org ex_lunch_row) (ml_id ex_lunch_row)
      \<and> ml_id ex_lunch_row \<in> ml_id ` set (w_meals (kt_world s')))\<^sup>*\<^sup>* ?k k'"
    by (rule r_into_rtranclp) (use meal_step.edit [OF p] h k' r in simp)
  from meal_identity_locked [OF run _ this, of ?m'] r k' have "rm_name ?m' = ''Thali lunch''" "rm_slot_key ?m' = ''lunch''"
    by (simp_all add: ex_kitchen_def)
  moreover have "world_after (patch_meal_by_id ex_limits ex_evening (\<lambda>_. None) ''o'' ''new00'' (ex_no_change\<lparr>mp_name := Some ''Dinner''\<rparr>) ?k) = None"
    by code_simp
  ultimately show ?thesis using p h k' by (intro exI [of _ k']) simp
qed

section \<open>What the code lets through\<close>

text \<open>
  The price lock reads the stored window, which has no lock: closing the window early is accepted
  while it is open, and the price is free from then on.
\<close>

lemma window_edit_unlocks_price:
  "world_after (patch_meal_by_id ex_limits ex_env (\<lambda>_. None) ''o'' ''new00'' (ex_no_change\<lparr>mp_price := Some (Some 70)\<rparr>)
     (ex_kitchen [ex_lunch_row] [ex_meal_record])) = None
   \<and> world_after (bindE (patch_meal_by_id ex_limits ex_env (\<lambda>_. None) ''o'' ''new00''
        (ex_no_change\<lparr>mp_window := Some (Some (''12:00'', ''12:30''))\<rparr>) (ex_kitchen [ex_lunch_row] [ex_meal_record]))
      (patch_meal_by_id ex_limits ex_env (\<lambda>_. None) ''o'' ''new00'' (ex_no_change\<lparr>mp_price := Some (Some 70)\<rparr>)))
     = Some (kt_world (ex_kitchen [ex_lunch_row\<lparr>rm_price := Some 70, rm_window_close := Some ''12:30''\<rparr>] [ex_meal_record]))"
  by code_simp

text \<open>Clearing the window of a meal, which the request documents, is refused.\<close>

lemma window_cannot_be_cleared:
  "world_after (patch_meal_by_id ex_limits ex_env (\<lambda>_. None) ''o'' ''new00'' (ex_no_change\<lparr>mp_window := Some None\<rparr>)
     (ex_kitchen [ex_lunch_row] [])) = None"
  by code_simp

text \<open>An image the store refuses is kept as data in the row.\<close>

lemma failed_upload_keeps_data:
  "image_uri v \<Longrightarrow> upload v = None \<Longrightarrow> resolve_meal_image upload (Some v) = Some v"
  by (simp add: resolve_meal_image_def)

text \<open>The hidden slot of a group blocks the name it carries.\<close>

lemma hidden_slot_blocks_name:
  "post_meal ex_limits ex_env (\<lambda>_. None) ''o'' (ex_lunch\<lparr>md_name := ''attendance''\<rparr>)
     (ex_kitchen [general_slot ''h'' ''g'' ''o''] []) = Inl (Conflict ''A meal with this name already exists in this group'')"
proof -
  have "group_by_id False (w_db (kt_world (ex_kitchen [general_slot ''h'' ''g'' ''o''] []))) ''g'' ''o'' = Some ex_guest_group"
    by code_simp
  moreover have "exists_by_name_in_group (kt_world (ex_kitchen [general_slot ''h'' ''g'' ''o''] [])) ''g'' ''o'' ''attendance'' None"
    by code_simp
  moreover have "\<not> template_cap ex_limits False \<le> count_active_in_group (kt_world (ex_kitchen [general_slot ''h'' ''g'' ''o''] [])) ''g'' ''o''"
    by code_simp
  moreover have "md_slot (meal_dto ex_lunch) \<noteq> general_slot_key" "gr_meals_enabled ex_guest_group"
    "normalize_meal_name ''attendance'' = ''attendance''"
    by code_simp+
  ultimately show ?thesis by (simp add: post_meal_def create_meal_def meal_dto_def ex_lunch_def Let_def)
qed

text \<open>Reordering one group's meals moves those of any group of the organization.\<close>

lemma reorder_ignores_group:
  "ml_org m = org \<Longrightarrow> reorder org 0 [ml_id m] [m] = [m\<lparr>rm_order := Some 0\<rparr>]"
  by simp

end
