(* ===== verification/Today.thy ===== *)
theory Today
  imports Group_Config_Laws Master_Laws Attendance
begin

text \<open>
  The meal lists of \<open>src/src/features/meals/meals.service.ts\<close>: the list of a group's template
  and the list a member sees today, as cards rebased on the published day.  The cache of today's
  list and the fields that only repeat the server clock are left out.  The main result: a card
  shows exactly what a mark on its meal enforces.
\<close>

section \<open>Cards\<close>

record meal_card =
  cd_id :: ident
  cd_group :: ident
  cd_org :: ident
  cd_name :: string
  cd_display :: "string option"
  cd_slot :: string
  cd_order :: int
  cd_active :: bool
  cd_attendance :: bool
  cd_prefs :: bool
  cd_tags :: "string list"
  cd_description :: "string option"
  cd_menu :: "string list"
  cd_image :: "string option"
  cd_window :: "(string option \<times> string option) option"
  cd_price :: "int option"
  cd_general :: bool
  cd_groups :: "pref_group list"

text \<open>The serialized meal, with its preference groups attached.\<close>

definition meal_response :: "string list \<Rightarrow> pref_group list \<Rightarrow> meal_row \<Rightarrow> meal_card" where
  "meal_response tags groups m =
     \<lparr>cd_id = ml_id m, cd_group = ml_group m, cd_org = ml_org m, cd_name = nullish (rm_display_name m) (rm_name m),
      cd_display = None, cd_slot = rm_slot_key m, cd_order = nullish (rm_order m) 0, cd_active = ml_is_active m,
      cd_attendance = ml_attendance_enabled m, cd_prefs = ml_prefs_enabled m, cd_tags = tags,
      cd_description = rm_description m, cd_menu = nullish (rm_menu_items m) [], cd_image = rm_image_url m,
      cd_window = (if rm_window_open m = None then None else Some (rm_window_open m, rm_window_close m)),
      cd_price = rm_price m, cd_general = (rm_slot_key m = general_slot_key), cd_groups = groups\<rparr>"

definition card_of :: "kitchen \<Rightarrow> meal_row \<Rightarrow> meal_card" where
  "card_of k m = meal_response (kt_tags k (ml_id m)) (effective_groups (kt_world k) (ml_id m) (ml_org m)) m"

text \<open>Opening time as text with missing windows last, then order, then creation.\<close>

definition by_window :: "meal_row list \<Rightarrow> meal_row list" where
  "by_window ms =
     (let s = sort_key (\<lambda>m. nullish (rm_order m) 0) ms
      in sort_key (\<lambda>m. the (rm_window_open m)) (filter (\<lambda>m. rm_window_open m \<noteq> None) s)
         @ filter (\<lambda>m. rm_window_open m = None) s)"

definition find_by_group ::
  "kitchen \<Rightarrow> ident \<Rightarrow> ident \<Rightarrow> string option \<Rightarrow> bool \<Rightarrow> nat \<Rightarrow> nat \<Rightarrow> meal_row list \<times> nat" where
  "find_by_group k gid org slot disabled page limit =
     (let found = by_window (filter (\<lambda>m. ml_group m = gid \<and> ml_org m = org \<and> ml_deleted_at m = None
                    \<and> (disabled \<or> ml_is_active m) \<and> (truthy slot \<longrightarrow> Some (rm_slot_key m) = slot)) (w_meals (kt_world k)))
      in (take limit (drop ((page - 1) * limit) found), length found))"

definition list_group_meals ::
  "kitchen \<Rightarrow> ident \<Rightarrow> ident \<Rightarrow> string option \<Rightarrow> bool \<Rightarrow> nat \<Rightarrow> nat \<Rightarrow> meal_card list \<times> nat" where
  "list_group_meals k gid org slot disabled page limit =
     (case find_by_group k gid org slot disabled page limit of
        (rows, n) \<Rightarrow>
          let visible = filter (\<lambda>m. rm_slot_key m \<noteq> general_slot_key) rows
          in (map (card_of k) visible, n - (length rows - length visible)))"

definition meal_admin_roles :: "string list" where
  "meal_admin_roles = [''messManager'', ''hostelManager'', ''hostelAdmin'', ''organizationManager'']"

definition get_meals ::
  "kitchen \<Rightarrow> string \<Rightarrow> ident \<Rightarrow> ident option \<Rightarrow> string option \<Rightarrow> bool \<Rightarrow> nat option \<Rightarrow> nat option
     \<Rightarrow> exn + meal_card list \<times> nat" where
  "get_meals k role org gid slot disabled page limit =
     (if \<not> truthy gid then Inl (BadRequest ''groupId is required'')
      else if group_by_id False (w_db (kt_world k)) (the gid) org = None then Inl (NotFound ''Group not found'')
      else Inr (list_group_meals k (the gid) org slot (role \<in> set meal_admin_roles \<and> disabled) (nullish page 1) (nullish limit 20)))"

section \<open>A published day on a card\<close>

definition rebase_card :: "day_entry \<Rightarrow> meal_card \<Rightarrow> meal_card" where
  "rebase_card o' c =
     (if \<not> de_frozen o' then c
      else
        let c1 = (case de_meal o' of None \<Rightarrow> c
                  | Some fm \<Rightarrow> c\<lparr>cd_name := dm_name fm, cd_display := Some (nullish (dm_display_name fm) (dm_name fm)),
                      cd_slot := dm_slot_key fm, cd_order := dm_order fm, cd_menu := dm_menu_items fm,
                      cd_image := dm_image_url fm, cd_description := dm_description fm, cd_price := dm_price fm,
                      cd_window := Some (dm_window_open fm, dm_window_close fm)\<rparr>)
        in (case de_preference o' of None \<Rightarrow> c1
            | Some p \<Rightarrow> c1\<lparr>cd_prefs := ps_enabled p, cd_tags := ps_tags p, cd_groups := ps_groups p\<rparr>))"

definition narrow_card :: "day_entry \<Rightarrow> meal_card \<Rightarrow> meal_card" where
  "narrow_card o' c =
     (if de_frozen o' then c
      else
        let c1 = (case de_prefs_enabled o' of None \<Rightarrow> c
                  | Some b \<Rightarrow> c\<lparr>cd_prefs := b,
                      cd_tags := (if de_enabled_prefs o' = [] then cd_tags c else de_enabled_prefs o'),
                      cd_groups := (if b then cd_groups c else [])\<rparr>)
        in if de_enabled_group_ids o' = [] then c1
           else c1\<lparr>cd_groups := filter (\<lambda>g. pg_id g \<in> set (de_enabled_group_ids o')) (cd_groups c1)\<rparr>)"

definition apply_day_entry :: "day_entry \<Rightarrow> meal_card \<Rightarrow> meal_card" where
  "apply_day_entry o' c =
     (let c1 = rebase_card o' c;
          c2 = narrow_card o' (if truthy (de_open_time o')
                 then c1\<lparr>cd_window := Some (de_open_time o', de_close_time o')\<rparr> else c1)
      in c2\<lparr>cd_menu := (if de_menu_items o' = [] then cd_menu c2 else de_menu_items o'),
            cd_description := (if truthy (de_description o') then de_description o' else cd_description c2),
            cd_image := (if truthy (de_image_url o') then de_image_url o' else cd_image c2),
            cd_price := nullish_opt (de_price o') (cd_price c2)\<rparr>)"

section \<open>Today\<close>

definition find_by_ids_any_state :: "kitchen \<Rightarrow> ident list \<Rightarrow> ident \<Rightarrow> ident \<Rightarrow> meal_row list" where
  "find_by_ids_any_state k ids gid org =
     by_window (filter (\<lambda>m. ml_id m \<in> set ids \<and> ml_group m = gid \<and> ml_org m = org) (w_meals (kt_world k)))"

definition open_minutes :: "meal_card \<Rightarrow> int" where
  "open_minutes c = entry_hhmm_to_minutes (Option.bind (cd_window c) fst)"

text \<open>The published cards: the live meals of the overlay, then the archived ones it still carries.\<close>

definition overlaid_cards :: "kitchen \<Rightarrow> ident \<Rightarrow> ident \<Rightarrow> meal_card list \<Rightarrow> (ident \<times> day_entry) list \<Rightarrow> meal_card list" where
  "overlaid_cards k gid org live overlay =
     (let shown = map (\<lambda>c. apply_day_entry (the (map_of overlay (cd_id c))) c) (filter (\<lambda>c. map_of overlay (cd_id c) \<noteq> None) live);
          archived = filter (\<lambda>i. i \<notin> cd_id ` set live) (map fst overlay);
          again = map (\<lambda>m. apply_day_entry (the (map_of overlay (ml_id m))) ((card_of k m)\<lparr>cd_active := True\<rparr>))
                    (find_by_ids_any_state k archived gid org)
      in sort_key open_minutes (sort_key cd_order (shown @ again)))"

definition strip_preferences :: "meal_card \<Rightarrow> meal_card" where
  "strip_preferences c = c\<lparr>cd_prefs := False, cd_tags := [], cd_groups := []\<rparr>"

definition assemble_today ::
  "env \<Rightarrow> kitchen \<Rightarrow> group_row \<Rightarrow> ident \<Rightarrow> meal_card list \<Rightarrow> (ident \<times> day_entry) list \<Rightarrow> exn + meal_card list \<times> kitchen" where
  "assemble_today e k g org live overlay =
     (if planner_active (Some g) \<and> (live \<noteq> [] \<or> overlay \<noteq> [])
      then Inr (overlaid_cards k (gr_id g) org live overlay, k)
      else if live \<noteq> [] then Inr (if gr_prefs_enabled g then live else map strip_preferences live, k)
      else if \<not> gr_meals_enabled g
      then bindE (ensure_general_slot e (gr_id g) org k) (\<lambda>(m, k'). Inr ([meal_response (kt_tags k' (ml_id m)) [] m], k'))
      else Inr ([], k))"

definition card_state :: "env \<Rightarrow> world \<Rightarrow> ident \<Rightarrow> group_row \<Rightarrow> meal_card \<Rightarrow> window_state" where
  "card_state e w org g c =
     get_window_state (en_time e (org_tz w org)) (Option.bind (cd_window c) fst) (Option.bind (cd_window c) snd)
       (max 0 (nullish (gr_grace_minutes g) 0))"

text \<open>\<open>/^\d{4}-\d{2}-\d{2}$/\<close>: a date of another form is dropped, and today is shown.\<close>

definition is_day_string :: "string \<Rightarrow> bool" where
  "is_day_string s =
     (case js_split (CHR ''-'') s of
        [y, m, d] \<Rightarrow> length y = 4 \<and> length m = 2 \<and> length d = 2 \<and> list_all (\<lambda>c. digit_val c \<noteq> None) (y @ m @ d)
      | _ \<Rightarrow> False)"

definition find_today_overlay ::
  "env \<Rightarrow> world \<Rightarrow> ident \<Rightarrow> ident \<Rightarrow> string option \<Rightarrow> exn + (ident \<times> day_entry) list" where
  "find_today_overlay e w org gid date =
     published_day w org gid (if date \<noteq> None \<and> is_day_string (the date) then the date else en_date e (org_tz w org))"

definition get_today_meals ::
  "env \<Rightarrow> ident \<Rightarrow> ident \<Rightarrow> string option \<Rightarrow> kitchen \<Rightarrow> exn + (meal_card \<times> window_state) list \<times> kitchen" where
  "get_today_meals e org gid date k =
     (let w = kt_world k
      in bindE (orErr (group_by_id False (w_db w) gid org) (NotFound ''Group not found'')) (\<lambda>g.
         bindE (find_today_overlay e w org gid date) (\<lambda>overlay.
         bindE (assemble_today e k g org (fst (list_group_meals k gid org None False 1 50)) overlay) (\<lambda>(cards, k').
           Inr (map (\<lambda>c. (c, card_state e w org g c)) cards, k')))))"

section \<open>What a card shows is what a mark enforces\<close>

lemma set_by_window [simp]: "set (by_window ms) = set ms"
  by (auto simp: by_window_def Let_def)

lemma published_entries_frozen:
  assumes "e \<in> set (published_entries_of meals row)" "de_frozen e"
  shows "de_preference e \<noteq> None"
proof -
  have "set (published_entries_of meals row) \<subseteq> range normalize_entry"
  proof (cases row)
    case (Some r)
    then show ?thesis by (cases "sc_snapshot r"; cases "the (sc_snapshot r)") (auto simp: published_entries_of_def)
  qed (simp add: published_entries_of_def)
  then obtain r where "e = normalize_entry r" using assms(1) by auto
  then show ?thesis using assms(2) by (simp add: normalize_entry_def)
qed

lemma governing_frozen:
  assumes "e \<in> set (governing_entries meals rows reader gid org t dw)" "de_frozen e"
  shows "de_preference e \<noteq> None"
proof -
  obtain wr lr es where s: "step_entries meals rows gid org t = (wr, lr, es)" by (cases "step_entries meals rows gid org t")
  have "e \<in> set (published_entries_of meals wr) \<or> (\<exists>r. e \<in> set (published_entries_of meals r))"
    using assms(1) s by (auto simp: governing_entries_def step_entries_def Let_def carry_forward_entries_def split: if_splits option.splits)
  then show ?thesis using published_entries_frozen assms(2) by blast
qed

lemma entry_map_values:
  "(i, d) \<in> set (entry_map es m) \<Longrightarrow> (\<exists>e\<in>set es. d = day_entry.truncate e) \<or> (i, d) \<in> set m"
proof (induction es m rule: entry_map.induct)
  case (2 e es m)
  then consider "\<exists>x\<in>set es. d = day_entry.truncate x" | "(i, d) \<in> set (AList.update (de_meal_id e) (day_entry.truncate e) m)" by auto
  then show ?case
  proof cases
    case 2
    have "set (AList.update k v m) \<subseteq> insert (k, v) (set m)" for k :: ident and v :: day_entry
      by (induction m) auto
    with 2 show ?thesis by auto
  qed auto
qed simp

lemma published_day_frozen:
  assumes "published_day w org gid d = Inr day" "map_of day i = Some o'" "de_frozen o'"
  shows "de_preference o' \<noteq> None"
proof -
  obtain t where "day = entry_map (governing_entries (raw_meals w) (w_schedules w)
      (Some (\<lambda>g o'. map_option gr_day_wise (find_group (w_db w) g o'))) gid org t None) []"
    using assms(1) by (auto simp: published_day_def resolve_published_day_def split: option.splits)
  then obtain e where e: "e \<in> set (governing_entries (raw_meals w) (w_schedules w)
      (Some (\<lambda>g o'. map_option gr_day_wise (find_group (w_db w) g o'))) gid org t None)" "o' = day_entry.truncate e"
    using entry_map_values map_of_SomeD [OF assms(2)] by fastforce
  then have "de_frozen e" "de_preference o' = de_preference e" using assms(3) by (simp_all add: day_entry.defs)
  then show ?thesis using governing_frozen [OF e(1)] by simp
qed

text \<open>The configuration captured at publish has both ends of its window or neither, as a mark reads it.\<close>

definition window_frozen :: "day_entry \<Rightarrow> meal_row \<Rightarrow> bool" where
  "window_frozen o' m \<longleftrightarrow>
     (de_frozen o' \<and> \<not> truthy (de_open_time o')
      \<longrightarrow> (case de_meal o' of None \<Rightarrow> True
           | Some fm \<Rightarrow> (dm_window_open fm = None \<longrightarrow> rm_window_open m = None) \<and> (dm_window_close fm = None \<longrightarrow> rm_window_close m = None)))"

lemma day_entry_frame:
  "cd_window (apply_day_entry o' c) =
     (if truthy (de_open_time o') then Some (de_open_time o', de_close_time o')
      else if de_frozen o' \<and> de_meal o' \<noteq> None then Some (dm_window_open (the (de_meal o')), dm_window_close (the (de_meal o')))
      else cd_window c)"
  "cd_price (apply_day_entry o' c) =
     nullish_opt (de_price o') (if de_frozen o' \<and> de_meal o' \<noteq> None then dm_price (the (de_meal o')) else cd_price c)"
  "cd_id (apply_day_entry o' c) = cd_id c"
  "cd_groups (apply_day_entry o' c) =
     (if de_frozen o' then (case de_preference o' of None \<Rightarrow> cd_groups c | Some p \<Rightarrow> ps_groups p)
      else apply_day_override (cd_groups c) (Some (de_prefs_enabled o', de_enabled_group_ids o')))"
  by (cases "de_frozen o'"; cases "de_meal o'"; cases "de_preference o'"; cases "de_prefs_enabled o'";
      simp add: apply_day_entry_def rebase_card_def narrow_card_def apply_day_override_def Let_def)+

text \<open>The card of a meal under a published entry shows the price, the window and the groups of a mark.\<close>

definition shows_mark :: "world \<Rightarrow> group_row \<Rightarrow> meal_row \<Rightarrow> effective \<Rightarrow> meal_card \<Rightarrow> bool" where
  "shows_mark w g m eff c \<longleftrightarrow> cd_id c = ml_id m \<and> cd_price c = ef_price eff
     \<and> cd_groups c = day_groups w (ml_id m) (ml_org m) (Some g) eff
     \<and> (\<forall>t gr. get_window_state t (Option.bind (cd_window c) fst) (Option.bind (cd_window c) snd) gr
          = get_window_state t (ef_open eff) (ef_close eff) gr)"

lemma day_card_matches:
  assumes frozen: "de_frozen o' \<Longrightarrow> de_preference o' \<noteq> None" and win: "window_frozen o' m" and g: "planner_active (Some g)"
  shows "shows_mark (kt_world k) g m (effective_of (Some o') (rm_window_open m) (rm_window_close m) (rm_price m))
           (apply_day_entry o' ((card_of k m)\<lparr>cd_active := b\<rparr>))"
proof -
  let ?eff = "effective_of (Some o') (rm_window_open m) (rm_window_close m) (rm_price m)"
  let ?c = "(card_of k m)\<lparr>cd_active := b\<rparr>"
  have c: "cd_id ?c = ml_id m" "cd_price ?c = rm_price m" "cd_groups ?c = effective_groups (kt_world k) (ml_id m) (ml_org m)"
    "cd_window ?c = (if rm_window_open m = None then None else Some (rm_window_open m, rm_window_close m))"
    by (simp_all add: card_of_def meal_response_def)
  have "cd_price (apply_day_entry o' ?c) = ef_price ?eff"
    unfolding day_entry_frame c by (cases "de_frozen o'"; cases "de_meal o'"; simp add: effective_of_def Let_def)
  moreover have "cd_groups (apply_day_entry o' ?c) = day_groups (kt_world k) (ml_id m) (ml_org m) (Some g) ?eff"
    unfolding day_entry_frame c using frozen g
    by (cases "de_frozen o'"; cases "de_preference o'"; simp add: effective_of_def day_groups_def Let_def)
  moreover have "get_window_state t (Option.bind (cd_window (apply_day_entry o' ?c)) fst) (Option.bind (cd_window (apply_day_entry o' ?c)) snd) gr
      = get_window_state t (ef_open ?eff) (ef_close ?eff) gr" for t gr
  proof (cases "truthy (de_open_time o')")
    case True
    then show ?thesis unfolding day_entry_frame by (simp add: effective_of_def Let_def)
  next
    case False
    show ?thesis
    proof (cases "de_frozen o' \<and> de_meal o' \<noteq> None")
      case True
      then obtain fm where fm: "de_frozen o'" "de_meal o' = Some fm" by auto
      with win False have "dm_window_open fm = None \<longrightarrow> rm_window_open m = None" "dm_window_close fm = None \<longrightarrow> rm_window_close m = None"
        by (simp_all add: window_frozen_def)
      then have "ef_open ?eff = dm_window_open fm" "ef_close ?eff = dm_window_close fm"
        using fm False by (cases "dm_window_open fm"; cases "dm_window_close fm"; simp add: effective_of_def Let_def)+
      then show ?thesis using fm False unfolding day_entry_frame by simp
    next
      case nf: False
      then have "ef_open ?eff = rm_window_open m" "ef_close ?eff = rm_window_close m"
        using False by (cases "de_frozen o'"; simp add: effective_of_def Let_def)+
      moreover have "cd_window (apply_day_entry o' ?c) = (if rm_window_open m = None then None else Some (rm_window_open m, rm_window_close m))"
        unfolding day_entry_frame c using nf False by (simp only: if_False)
      ultimately show ?thesis by (cases "rm_window_open m") (simp_all add: get_window_state_def)
    qed
  qed
  ultimately show ?thesis by (simp add: shows_mark_def day_entry_frame c)
qed

text \<open>Every row of the overlay is listed, from the live page or rehydrated, and nothing else.\<close>

lemma live_from_rows:
  assumes "c \<in> set (fst (list_group_meals k gid org slot disabled page limit))"
  shows "\<exists>m\<in>set (w_meals (kt_world k)). c = card_of k m \<and> ml_group m = gid \<and> ml_org m = org"
proof -
  let ?f = "by_window (filter (\<lambda>m. ml_group m = gid \<and> ml_org m = org \<and> ml_deleted_at m = None
                    \<and> (disabled \<or> ml_is_active m) \<and> (truthy slot \<longrightarrow> Some (rm_slot_key m) = slot)) (w_meals (kt_world k)))"
  have "set (take limit (drop ((page - 1) * limit) ?f)) \<subseteq> set ?f"
    using set_take_subset set_drop_subset by (rule subset_trans)
  then show ?thesis using assms by (fastforce simp: list_group_meals_def find_by_group_def Let_def)
qed

lemma card_id [simp]: "cd_id (card_of k m) = ml_id m" "cd_active (card_of k m) = ml_is_active m"
  by (simp_all add: card_of_def meal_response_def)

lemma overlaid_member:
  assumes "c \<in> set (overlaid_cards k gid org live overlay)"
  obtains (shown) c0 o' where "c0 \<in> set live" "map_of overlay (cd_id c0) = Some o'" "c = apply_day_entry o' c0"
  | (again) m' o' where "m' \<in> set (w_meals (kt_world k))" "map_of overlay (ml_id m') = Some o'"
      "c = apply_day_entry o' ((card_of k m')\<lparr>cd_active := True\<rparr>)"
proof -
  have "(\<exists>c0\<in>set live. map_of overlay (cd_id c0) \<noteq> None \<and> c = apply_day_entry (the (map_of overlay (cd_id c0))) c0)
    \<or> (\<exists>m'\<in>set (w_meals (kt_world k)). ml_id m' \<in> fst ` set overlay
         \<and> c = apply_day_entry (the (map_of overlay (ml_id m'))) ((card_of k m')\<lparr>cd_active := True\<rparr>))"
    using assms by (auto simp: overlaid_cards_def find_by_ids_any_state_def Let_def)
  then show thesis
  proof (elim disjE bexE conjE)
    fix c0 assume h: "c0 \<in> set live" "map_of overlay (cd_id c0) \<noteq> None" "c = apply_day_entry (the (map_of overlay (cd_id c0))) c0"
    then obtain o' where "map_of overlay (cd_id c0) = Some o'" by auto
    with h show thesis by (intro shown [of c0 o']) auto
  next
    fix m' assume h: "m' \<in> set (w_meals (kt_world k))" "ml_id m' \<in> fst ` set overlay"
      "c = apply_day_entry (the (map_of overlay (ml_id m'))) ((card_of k m')\<lparr>cd_active := True\<rparr>)"
    then obtain o' where "map_of overlay (ml_id m') = Some o'"
      by (metis map_of_eq_None_iff option.exhaust)
    with h show thesis by (intro again [of m' o']) auto
  qed
qed

lemma row_of_id:
  "\<lbrakk>distinct (map ml_id ms); m \<in> set ms; m' \<in> set ms; ml_id m' = ml_id m\<rbrakk> \<Longrightarrow> m' = m"
  by (auto simp: distinct_map inj_on_def)

lemma overlaid_card:
  assumes "c \<in> set (overlaid_cards k gid org (fst (list_group_meals k gid org None False 1 50)) overlay)"
    "cd_id c = ml_id m" "m \<in> set (w_meals (kt_world k))" "distinct (map ml_id (w_meals (kt_world k)))"
  shows "\<exists>o' b. map_of overlay (ml_id m) = Some o' \<and> c = apply_day_entry o' ((card_of k m)\<lparr>cd_active := b\<rparr>)"
  using assms(1)
proof (cases rule: overlaid_member)
  case (shown c0 o')
  then obtain m0 where m0: "m0 \<in> set (w_meals (kt_world k))" "c0 = card_of k m0" using live_from_rows by blast
  with shown assms(2) have "ml_id m0 = ml_id m" by (simp add: day_entry_frame)
  then have "m0 = m" using row_of_id assms m0 by blast
  moreover have "card_of k m = (card_of k m)\<lparr>cd_active := ml_is_active m\<rparr>" by simp
  ultimately show ?thesis using shown m0 by (metis card_id(1))
next
  case (again m' o')
  then have "ml_id m' = ml_id m" using assms(2) by (simp add: day_entry_frame)
  then have "m' = m" using row_of_id assms again by blast
  then show ?thesis using again by blast
qed

lemma overlaid_complete:
  assumes "map_of overlay (ml_id m) = Some o'" "m \<in> set (w_meals (kt_world k))" "ml_group m = gid" "ml_org m = org"
  shows "\<exists>c\<in>set (overlaid_cards k gid org live overlay). cd_id c = ml_id m"
proof (cases "\<exists>c0\<in>set live. cd_id c0 = ml_id m")
  case True
  then obtain c0 where "c0 \<in> set live" "cd_id c0 = ml_id m" by blast
  then show ?thesis using assms(1)
    by (intro bexI [of _ "apply_day_entry o' c0"]) (auto simp: overlaid_cards_def day_entry_frame Let_def image_iff)
next
  case False
  have "ml_id m \<in> fst ` set overlay" using assms(1) by (force dest: map_of_SomeD)
  then show ?thesis using False assms
    by (intro bexI [of _ "apply_day_entry o' ((card_of k m)\<lparr>cd_active := True\<rparr>)"])
       (auto simp: overlaid_cards_def find_by_ids_any_state_def day_entry_frame Let_def image_iff)
qed

text \<open>The gate of a mark, read off the state of the window.\<close>

definition gate_of_state :: "window_state \<Rightarrow> exn + window_state" where
  "gate_of_state s = (if s = Open \<or> s = Grace then Inr s else Inl (Locked ''ATTENDANCE_WINDOW_CLOSED''))"

lemma gate_of_shown:
  assumes "shows_mark w g m eff c" "meal_group w m = Some g" "ml_org m = org"
  shows "window_gate e w m eff False = gate_of_state (card_state e w org g c)"
proof (cases "truthy (ef_open eff) \<and> truthy (ef_close eff)")
  case True
  then show ?thesis using assms
    by (cases "card_state e w org g c"; auto simp: window_gate_def gate_of_state_def card_state_def shows_mark_def Let_def)
next
  case False
  then have "get_window_state t (ef_open eff) (ef_close eff) gr = Open" for t gr
    by (simp add: get_window_state_def)
  then show ?thesis using assms False by (auto simp: window_gate_def gate_of_state_def card_state_def shows_mark_def)
qed

text \<open>(C23) For a group that runs a planner, the list a member sees today and what a mark enforces are the
  same: a meal is listed exactly when a mark finds it scheduled, and its card shows the price a mark bills,
  the preference groups a mark validates, and a window state that is open or in grace exactly when the window
  gate lets the mark through.  The list is only read: nothing is written.\<close>

theorem today_list_matches_gate:
  assumes today: "get_today_meals e org gid (Some date) k = Inr (cards, k')" "is_day_string date"
    and group: "group_by_id False (w_db (kt_world k)) gid org = Some g" "planner_active (Some g)"
    and m: "m \<in> set (w_meals (kt_world k))" "ml_group m = gid" "ml_org m = org" "meal_group (kt_world k) m = Some g"
    and ids: "distinct (map ml_id (w_meals (kt_world k)))"
    and day: "published_day (kt_world k) org gid date = Inr day" "case_option True (\<lambda>o'. window_frozen o' m) (map_of day (ml_id m))"
    and eff: "resolve_effective_window (kt_world k) (ml_id m) gid org date (rm_window_open m) (rm_window_close m) (rm_price m) = Inr eff"
  shows "k' = k \<and> (ef_scheduled eff \<longleftrightarrow> ml_id m \<in> cd_id ` fst ` set cards)
    \<and> (\<forall>c s. (c, s) \<in> set cards \<longrightarrow> cd_id c = ml_id m
          \<longrightarrow> shows_mark (kt_world k) g m eff c \<and> window_gate e (kt_world k) m eff False = gate_of_state s)"
proof -
  let ?w = "kt_world k" and ?live = "fst (list_group_meals k gid org None False 1 50)"
  have gid: "gr_id g = gid" using group_by_idD [OF group(1)] by simp
  have e: "eff = effective_of (map_of day (ml_id m)) (rm_window_open m) (rm_window_close m) (rm_price m)"
    using eff day(1) by (simp add: resolve_effective_window_def)
  have sch: "ef_scheduled eff \<longleftrightarrow> map_of day (ml_id m) \<noteq> None"
    by (simp add: e effective_of_def Let_def split: option.split)
  obtain cs where cs: "assemble_today e k g org ?live day = Inr (cs, k')" "cards = map (\<lambda>c. (c, card_state e ?w org g c)) cs"
    using today group(1) day(1) by (auto simp: get_today_meals_def find_today_overlay_def bindE_eq_Inr orErr_eq_Inr)
  have cs': "k' = k \<and> (cs = overlaid_cards k gid org ?live day \<or> cs = [] \<and> day = [])"
    using cs(1) group(2) gid by (auto simp: assemble_today_def planner_active_def split: if_splits)
  have each: "\<exists>o' b. map_of day (ml_id m) = Some o' \<and> c = apply_day_entry o' ((card_of k m)\<lparr>cd_active := b\<rparr>)"
    if "c \<in> set cs" "cd_id c = ml_id m" for c
    using that cs' overlaid_card [OF _ _ m(1) ids] by auto
  have mark: "shows_mark ?w g m eff c" if "c \<in> set cs" "cd_id c = ml_id m" for c
  proof -
    from each [OF that] obtain o' b
      where ob: "map_of day (ml_id m) = Some o'" "c = apply_day_entry o' ((card_of k m)\<lparr>cd_active := b\<rparr>)" by blast
    have "de_frozen o' \<Longrightarrow> de_preference o' \<noteq> None" using published_day_frozen [OF day(1) ob(1)] .
    moreover have "window_frozen o' m" using day(2) ob(1) by simp
    ultimately show ?thesis unfolding e ob(1) ob(2) by (intro day_card_matches [OF _ _ group(2)]) blast+
  qed
  have "ef_scheduled eff \<longleftrightarrow> ml_id m \<in> cd_id ` set cs"
  proof
    assume "ef_scheduled eff"
    then obtain o' where o': "map_of day (ml_id m) = Some o'" using sch by auto
    then have "cs = overlaid_cards k gid org ?live day" using cs' by auto
    then show "ml_id m \<in> cd_id ` set cs" using overlaid_complete [OF o' m(1-3)] by (metis image_eqI)
  next
    assume "ml_id m \<in> cd_id ` set cs"
    then show "ef_scheduled eff" using each sch by force
  qed
  moreover have "fst ` set cards = set cs" by (simp add: cs(2) image_image)
  moreover have "shows_mark ?w g m eff c \<and> window_gate e ?w m eff False = gate_of_state s"
    if "(c, s) \<in> set cards" "cd_id c = ml_id m" for c s
  proof -
    from that(1) have c: "c \<in> set cs" "s = card_state e ?w org g c" by (auto simp: cs(2))
    then show ?thesis using gate_of_shown [OF mark [OF c(1) that(2)] m(4) m(3)] mark [OF c(1) that(2)] by simp
  qed
  ultimately show ?thesis using cs' by blast
qed

section \<open>Concrete inputs\<close>

text \<open>A published week with lunch on Wednesday at a price of its own.\<close>

definition ex_weekly_group :: group_row where
  "ex_weekly_group = ex_guest_group\<lparr>gr_weekly_menu := True\<rparr>"

definition ex_planned :: "raw_entry \<Rightarrow> kitchen" where
  "ex_planned r = (ex_kitchen [ex_lunch_row] [])\<lparr>kt_world :=
     (kt_world (ex_kitchen [ex_lunch_row] []))\<lparr>w_db := (w_db ex_world)\<lparr>db_groups := [ex_weekly_group]\<rparr>,
        w_schedules := [sample_row ''s1'' ''2026-07-06'' (Some [r]) []]\<rparr>\<rparr>"

definition ex_wednesday :: raw_entry where
  "ex_wednesday = (sample_entry ''new00'' ''2026-07-08'')\<lparr>re_price := Some 75\<rparr>"

lemma ex_planned_list:
  "map_option (map (\<lambda>(c, s). (cd_id c, cd_price c, s)))
     (case get_today_meals ex_env ''o'' ''g'' (Some ''2026-07-08'') (ex_planned ex_wednesday) of Inl _ \<Rightarrow> None | Inr r \<Rightarrow> Some (fst r))
   = Some [(''new00'', Some 75, Open)]"
  by code_simp

theorem today_list_matches_gate_witness:
  "\<exists>c. shows_mark (kt_world (ex_planned ex_wednesday)) ex_weekly_group ex_lunch_row
        (effective_of (Some (day_entry.truncate (normalize_entry ex_wednesday))) (Some ''12:00'') (Some ''14:00'') (Some 60)) c
     \<and> cd_price c = Some 75
     \<and> window_gate ex_env (kt_world (ex_planned ex_wednesday)) ex_lunch_row
         (effective_of (Some (day_entry.truncate (normalize_entry ex_wednesday))) (Some ''12:00'') (Some ''14:00'') (Some 60)) False = Inr Open"
proof -
  let ?k = "ex_planned ex_wednesday"
  let ?e = "effective_of (Some (day_entry.truncate (normalize_entry ex_wednesday))) (Some ''12:00'') (Some ''14:00'') (Some 60)"
  obtain cards k' where t: "get_today_meals ex_env ''o'' ''g'' (Some ''2026-07-08'') ?k = Inr (cards, k')"
    "map (\<lambda>(c, s). (cd_id c, cd_price c, s)) cards = [(''new00'', Some 75, Open)]"
    using ex_planned_list by (auto split: sum.splits)
  then obtain c where c: "(c, Open) \<in> set cards" "cd_id c = ''new00''" "cd_price c = Some 75" by auto
  have group: "group_by_id False (w_db (kt_world ?k)) ''g'' ''o'' = Some ex_weekly_group" "planner_active (Some ex_weekly_group)"
    by code_simp+
  have m: "ex_lunch_row \<in> set (w_meals (kt_world ?k))" "ml_group ex_lunch_row = ''g''" "ml_org ex_lunch_row = ''o''"
    "meal_group (kt_world ?k) ex_lunch_row = Some ex_weekly_group" "distinct (map ml_id (w_meals (kt_world ?k)))"
    "ml_id ex_lunch_row = ''new00''" "rm_window_open ex_lunch_row = Some ''12:00''" "rm_window_close ex_lunch_row = Some ''14:00''"
    "rm_price ex_lunch_row = Some 60"
    by code_simp+
  have day: "published_day (kt_world ?k) ''o'' ''g'' ''2026-07-08'' = Inr [(''new00'', day_entry.truncate (normalize_entry ex_wednesday))]"
    by code_simp
  have "window_frozen (day_entry.truncate (normalize_entry ex_wednesday)) ex_lunch_row"
    by code_simp
  then have f: "case_option True (\<lambda>o'. window_frozen o' ex_lunch_row)
      (map_of [(''new00'', day_entry.truncate (normalize_entry ex_wednesday))] (ml_id ex_lunch_row))"
    by (simp add: m(6))
  have eff: "resolve_effective_window (kt_world ?k) (ml_id ex_lunch_row) ''g'' ''o'' ''2026-07-08''
      (rm_window_open ex_lunch_row) (rm_window_close ex_lunch_row) (rm_price ex_lunch_row) = Inr ?e"
    by (simp add: resolve_effective_window_def day m)
  have dated: "is_day_string ''2026-07-08''" by code_simp
  have "shows_mark (kt_world ?k) ex_weekly_group ex_lunch_row ?e c
      \<and> window_gate ex_env (kt_world ?k) ex_lunch_row ?e False = gate_of_state Open"
    using today_list_matches_gate [OF t(1) dated group m(1-5) day f eff] c by (simp add: m(6))
  then show ?thesis using c(3) by (auto simp: gate_of_state_def)
qed

text \<open>A meal published without a window: the frozen card shows none, while a mark answers to the window
  the master meal was given since.\<close>

definition ex_frozen_open :: raw_entry where
  "ex_frozen_open = ex_wednesday\<lparr>re_frozen := Some True,
     re_preference := Some \<lparr>ps_enabled = False, ps_mode = ''standalone'', ps_tags = [], ps_groups = []\<rparr>,
     re_meal := Some (raw_meal.truncate ex_lunch_row\<lparr>rm_window_open := None, rm_window_close := None\<rparr>)\<rparr>"

lemma published_without_window:
  "map_option (map snd)
     (case get_today_meals ex_evening ''o'' ''g'' (Some ''2026-07-08'') (ex_planned ex_frozen_open) of Inl _ \<Rightarrow> None | Inr r \<Rightarrow> Some (fst r))
   = Some [Open]
   \<and> bindE (resolve_effective_window (kt_world (ex_planned ex_frozen_open)) ''new00'' ''g'' ''o'' ''2026-07-08'' (Some ''12:00'') (Some ''14:00'') (Some 60))
       (\<lambda>eff. window_gate ex_evening (kt_world (ex_planned ex_frozen_open)) ex_lunch_row eff False) = Inl (Locked ''ATTENDANCE_WINDOW_CLOSED'')"
  by code_simp

text \<open>The display name of a frozen meal moves out of the name, where the live card has it.\<close>

lemma frozen_card_name:
  "cd_name (card_of k m) = nullish (rm_display_name m) (rm_name m)
   \<and> (de_frozen o' \<longrightarrow> de_meal o' = Some fm \<longrightarrow> cd_name (apply_day_entry o' (card_of k m)) = dm_name fm)"
  by (cases "de_preference o'") (simp_all add: card_of_def meal_response_def apply_day_entry_def rebase_card_def narrow_card_def Let_def)

end
