(* ===== verification/Events.thy ===== *)
theory Events
  imports Accounts
begin

text \<open>
  The event system (\<open>src/src/features/events\<close>, the event steps of \<open>cleanup.worker.ts\<close> and
  \<open>orphan.worker.ts\<close>): one-day events with a join code, guest parties that join by scanning it,
  their persons, meal types, statistics and the life of an event.  Audit entries, realtime
  messages and the display name of the admin are left out; rows keep their insertion order, which
  is the order of their creation instants.  Counts and the numbers of placeholder names are
  integers; the source's doubles agree with them below \<open>2 ^ 53\<close>.
\<close>

section \<open>Rows\<close>

record full_event = event_row +
  fe_token :: string
  fe_active :: bool
  fe_closed :: "int option"
  fe_archived :: "int option"

record event_meal =
  em_id :: ident
  em_event :: ident
  em_title :: string
  em_emoji :: "string option"
  em_color :: "int option"
  em_veg :: bool

record party =
  pt_id :: ident
  pt_event :: ident
  pt_org :: ident
  pt_name :: string
  pt_adults :: int
  pt_children :: int
  pt_joined :: int
  pt_device :: "string option"

record person =
  pe_id :: ident
  pe_party :: ident
  pe_name :: string
  pe_adult :: bool
  pe_primary :: bool
  pe_edited :: bool
  pe_present :: bool
  pe_meal :: "ident option"
  pe_meal_key :: "ident option"
  pe_pref :: "string option"

record event_stats =
  es_total :: int
  es_adults :: int
  es_children :: int
  es_present :: int
  es_pending :: int
  es_veg :: int
  es_nonveg :: int
  es_breakdown :: "(ident \<times> string \<times> int) list"

text \<open>The tables, and the statistics Redis holds with the instant they expire at.\<close>

record hall =
  ha_events :: "full_event list"
  ha_meals :: "event_meal list"
  ha_parties :: "party list"
  ha_persons :: "person list"
  ha_stats :: "(ident \<times> event_stats \<times> int) list"

record hall_env =
  he_now :: int
  he_id :: "nat \<Rightarrow> ident"
  he_token :: string
  he_org_date :: "ident \<Rightarrow> string"

section \<open>The status of an event\<close>

datatype event_phase = EvUpcoming | EvClosed | EvExpired | EvArchived

definition end_of_event_day :: "int \<Rightarrow> int" where
  "end_of_event_day t = t div day_ms * day_ms + day_ms - 1"

definition event_status :: "int \<Rightarrow> full_event \<Rightarrow> event_phase" where
  "event_status now v =
     (if fe_archived v \<noteq> None \<or> \<not> fe_active v then EvArchived
      else if end_of_event_day (ev_date v) < now then EvExpired
      else if fe_closed v \<noteq> None then EvClosed else EvUpcoming)"

definition event_viewer_roles :: "string list" where
  "event_viewer_roles = [''messManager'', ''hostelManager'', ''hostelAdmin'', ''organizationManager'', ''eventAdmin'']"

definition event_admin_roles :: "string list" where
  "event_admin_roles = [''eventAdmin'', ''hostelAdmin'', ''organizationManager'']"

definition find_event :: "hall \<Rightarrow> ident \<Rightarrow> ident \<Rightarrow> full_event option" where
  "find_event h i org = find (\<lambda>v. ev_id v = i \<and> ev_org v = org) (ha_events h)"

definition event_by_token :: "hall \<Rightarrow> string \<Rightarrow> full_event option" where
  "event_by_token h t = find (\<lambda>v. fe_token v = t) (ha_events h)"

definition assert_event_admin :: "string \<Rightarrow> exn + unit" where
  "assert_event_admin role =
     (if role \<notin> set event_admin_roles then Inl (Forbidden ''Insufficient permissions'') else Inr ())"

definition assert_event_ownership :: "hall \<Rightarrow> ident \<Rightarrow> ident \<Rightarrow> exn + full_event" where
  "assert_event_ownership h i org = orErr (find_event h i org) (NotFound ''Event not found'')"

definition assert_event_modifiable :: "int \<Rightarrow> hall \<Rightarrow> ident \<Rightarrow> ident \<Rightarrow> exn + full_event" where
  "assert_event_modifiable now h i org =
     bindE (assert_event_ownership h i org) (\<lambda>v.
     if event_status now v \<noteq> EvUpcoming
     then Inl (Locked ''This event is closed and can no longer be modified.'') else Inr v)"

section \<open>Table writes\<close>

definition invalidate_stats :: "ident \<Rightarrow> hall \<Rightarrow> hall" where
  "invalidate_stats i h = h\<lparr>ha_stats := filter (\<lambda>c. fst c \<noteq> i) (ha_stats h)\<rparr>"

definition party_ids :: "(party \<Rightarrow> bool) \<Rightarrow> hall \<Rightarrow> ident list" where
  "party_ids P h = map pt_id (filter P (ha_parties h))"

text \<open>Deleting parties deletes their persons; deleting meal types clears the foreign key of their guests.\<close>

definition drop_parties :: "(party \<Rightarrow> bool) \<Rightarrow> hall \<Rightarrow> hall" where
  "drop_parties P h = h\<lparr>ha_parties := filter (\<lambda>p. \<not> P p) (ha_parties h),
     ha_persons := filter (\<lambda>q. pe_party q \<notin> set (party_ids P h)) (ha_persons h)\<rparr>"

definition drop_event_meals :: "(event_meal \<Rightarrow> bool) \<Rightarrow> hall \<Rightarrow> hall" where
  "drop_event_meals P h = h\<lparr>ha_meals := filter (\<lambda>m. \<not> P m) (ha_meals h),
     ha_persons := map (\<lambda>q. if pe_meal_key q \<in> Some ` em_id ` set (filter P (ha_meals h))
                            then q\<lparr>pe_meal_key := None\<rparr> else q) (ha_persons h)\<rparr>"

definition drop_events :: "(full_event \<Rightarrow> bool) \<Rightarrow> hall \<Rightarrow> hall" where
  "drop_events P h =
     (let gone = map ev_id (filter P (ha_events h))
      in drop_event_meals (\<lambda>m. em_event m \<in> set gone)
           (drop_parties (\<lambda>p. pt_event p \<in> set gone) (h\<lparr>ha_events := filter (\<lambda>v. \<not> P v) (ha_events h)\<rparr>)))"

definition set_event :: "ident \<Rightarrow> (full_event \<Rightarrow> full_event) \<Rightarrow> hall \<Rightarrow> hall" where
  "set_event i f h = h\<lparr>ha_events := map (\<lambda>v. if ev_id v = i then f v else v) (ha_events h)\<rparr>"

section \<open>Events\<close>

record event_dto =
  vd_name :: string
  vd_type :: string
  vd_date :: int
  vd_expected :: "int option"
  vd_auto_delete :: "bool option"

record event_patch =
  vp_name :: "string option"
  vp_type :: "string option"
  vp_date :: "int option"
  vp_expected :: "int option"
  vp_auto_delete :: "bool option"
  vp_active :: "bool option"

definition delete_instant :: "int \<Rightarrow> int" where
  "delete_instant t = t + 7 * day_ms"

definition new_event :: "hall_env \<Rightarrow> ident \<Rightarrow> ident \<Rightarrow> event_dto \<Rightarrow> full_event" where
  "new_event e admin org dto =
     \<lparr>ev_id = he_id e 0, ev_org = org, ev_admin = admin, ev_name = vd_name dto, ev_type = vd_type dto,
      ev_date = vd_date dto, ev_expected = nullish (vd_expected dto) 0,
      ev_auto_delete = nullish (vd_auto_delete dto) False,
      ev_auto_delete_at = (if vd_auto_delete dto = Some True then Some (delete_instant (vd_date dto)) else None),
      fe_token = he_token e, fe_active = True, fe_closed = None, fe_archived = None\<rparr>"

definition create_event :: "hall_env \<Rightarrow> ident \<Rightarrow> ident \<Rightarrow> string \<Rightarrow> event_dto \<Rightarrow> hall \<Rightarrow> exn + hall" where
  "create_event e admin org role dto h =
     bindE (assert_event_admin role) (\<lambda>_.
     let v = new_event e admin org dto
     in if ev_id v \<in> ev_id ` set (ha_events h) \<or> fe_token v \<in> fe_token ` set (ha_events h)
        then Inl (Conflict ''P2002'') else Inr (h\<lparr>ha_events := ha_events h @ [v]\<rparr>))"

text \<open>A page of a sorted table: \<open>skip\<close> and \<open>take\<close>; pages count from one.\<close>

definition page_of :: "nat \<Rightarrow> nat \<Rightarrow> 'a list \<Rightarrow> 'a list" where
  "page_of page limit xs = take limit (drop ((page - 1) * limit) xs)"

definition get_events ::
  "ident \<Rightarrow> string \<Rightarrow> nat option \<Rightarrow> nat option \<Rightarrow> bool option \<Rightarrow> string option \<Rightarrow> hall \<Rightarrow> full_event list \<times> nat" where
  "get_events org role page limit active_only type h =
     (let active = role \<notin> set event_viewer_roles \<or> nullish active_only False;
          found = filter (\<lambda>v. ev_org v = org \<and> (active \<longrightarrow> fe_active v) \<and> (truthy type \<longrightarrow> Some (ev_type v) = type)) (ha_events h)
      in (page_of (nullish page 1) (nullish limit 20) (sort_key (\<lambda>v. - ev_date v) found), length found))"

definition get_event_by_id :: "ident \<Rightarrow> ident \<Rightarrow> string \<Rightarrow> hall \<Rightarrow> exn + full_event" where
  "get_event_by_id i org role h =
     bindE (assert_event_ownership h i org) (\<lambda>v.
     if role \<notin> set event_viewer_roles \<and> \<not> fe_active v then Inl (NotFound ''Event not found'') else Inr v)"

definition get_event_by_token :: "string \<Rightarrow> hall \<Rightarrow> exn + full_event" where
  "get_event_by_token t h =
     bindE (orErr (event_by_token h t) (NotFound ''Event not found'')) (\<lambda>v.
     if \<not> fe_active v then Inl (NotFound ''Event not found'') else Inr v)"

text \<open>The auto-delete instant of an edit: \<open>None\<close> leaves it, \<open>Some None\<close> clears it.\<close>

definition patched_delete_at :: "event_patch \<Rightarrow> full_event \<Rightarrow> int option option" where
  "patched_delete_at p v =
     (if vp_date p = None \<and> vp_auto_delete p = None then None
      else if nullish (vp_auto_delete p) (ev_auto_delete v)
      then Some (Some (delete_instant (nullish (vp_date p) (ev_date v)))) else Some None)"

definition patch_event :: "event_patch \<Rightarrow> full_event \<Rightarrow> full_event" where
  "patch_event p v =
     v\<lparr>ev_name := nullish (vp_name p) (ev_name v), ev_type := nullish (vp_type p) (ev_type v),
       ev_date := nullish (vp_date p) (ev_date v), ev_expected := nullish (vp_expected p) (ev_expected v),
       ev_auto_delete := nullish (vp_auto_delete p) (ev_auto_delete v),
       ev_auto_delete_at := nullish (patched_delete_at p v) (ev_auto_delete_at v),
       fe_active := nullish (vp_active p) (fe_active v)\<rparr>"

definition edit_event :: "(full_event \<Rightarrow> full_event) \<Rightarrow> ident \<Rightarrow> ident \<Rightarrow> string \<Rightarrow> hall \<Rightarrow> exn + hall" where
  "edit_event f i org role h =
     bindE (assert_event_admin role) (\<lambda>_.
     bindE (assert_event_ownership h i org) (\<lambda>_. Inr (invalidate_stats i (set_event i f h))))"

definition update_event :: "ident \<Rightarrow> ident \<Rightarrow> string \<Rightarrow> event_patch \<Rightarrow> hall \<Rightarrow> exn + hall" where
  "update_event i org role p h = edit_event (patch_event p) i org role h"

definition close_event :: "hall_env \<Rightarrow> ident \<Rightarrow> ident \<Rightarrow> string \<Rightarrow> hall \<Rightarrow> exn + hall" where
  "close_event e i org role h = edit_event (\<lambda>v. v\<lparr>fe_closed := Some (he_now e)\<rparr>) i org role h"

definition archive_event :: "hall_env \<Rightarrow> ident \<Rightarrow> ident \<Rightarrow> string \<Rightarrow> hall \<Rightarrow> exn + hall" where
  "archive_event e i org role h = edit_event (\<lambda>v. v\<lparr>fe_archived := Some (he_now e)\<rparr>) i org role h"

definition restore_event :: "ident \<Rightarrow> ident \<Rightarrow> string \<Rightarrow> hall \<Rightarrow> exn + hall" where
  "restore_event i org role h = edit_event (\<lambda>v. v\<lparr>fe_archived := None, fe_active := True\<rparr>) i org role h"

definition delete_event :: "ident \<Rightarrow> ident \<Rightarrow> string \<Rightarrow> hall \<Rightarrow> exn + hall" where
  "delete_event i org role h =
     bindE (assert_event_admin role) (\<lambda>_.
     bindE (assert_event_ownership h i org) (\<lambda>_.
       Inr (invalidate_stats i (drop_events (\<lambda>v. ev_id v = i \<and> ev_org v = org) h))))"

section \<open>Meal types\<close>

record event_meal_dto =
  ed_title :: string
  ed_emoji :: "string option"
  ed_color :: "int option"
  ed_veg :: "bool option"

record event_meal_patch =
  ep_title :: "string option"
  ep_emoji :: "string option"
  ep_color :: "int option"
  ep_veg :: "bool option"

definition create_event_meal ::
  "hall_env \<Rightarrow> ident \<Rightarrow> ident \<Rightarrow> string \<Rightarrow> event_meal_dto \<Rightarrow> hall \<Rightarrow> exn + hall" where
  "create_event_meal e i org role dto h =
     bindE (assert_event_admin role) (\<lambda>_.
     bindE (assert_event_ownership h i org) (\<lambda>_.
       if he_id e 0 \<in> em_id ` set (ha_meals h) then Inl (Conflict ''P2002'')
       else Inr (h\<lparr>ha_meals := ha_meals h @ [\<lparr>em_id = he_id e 0, em_event = i, em_title = ed_title dto,
                    em_emoji = ed_emoji dto, em_color = ed_color dto, em_veg = nullish (ed_veg dto) True\<rparr>]\<rparr>)))"

definition owned_event_meal :: "hall \<Rightarrow> ident \<Rightarrow> ident \<Rightarrow> ident \<Rightarrow> bool" where
  "owned_event_meal h mt i org \<longleftrightarrow>
     (\<exists>m\<in>set (ha_meals h). em_id m = mt \<and> em_event m = i) \<and> find_event h i org \<noteq> None"

definition update_event_meal ::
  "ident \<Rightarrow> ident \<Rightarrow> ident \<Rightarrow> string \<Rightarrow> event_meal_patch \<Rightarrow> hall \<Rightarrow> exn + hall" where
  "update_event_meal i mt org role p h =
     bindE (assert_event_admin role) (\<lambda>_.
     if \<not> owned_event_meal h mt i org then Inl (NotFound ''Meal type not found'')
     else Inr (h\<lparr>ha_meals := map (\<lambda>m. if em_id m = mt
            then m\<lparr>em_title := nullish (ep_title p) (em_title m), em_emoji := nullish_opt (ep_emoji p) (em_emoji m),
                   em_color := nullish_opt (ep_color p) (em_color m), em_veg := nullish (ep_veg p) (em_veg m)\<rparr>
            else m) (ha_meals h)\<rparr>))"

text \<open>The persons of an event: those of its parties.\<close>

definition event_persons :: "hall \<Rightarrow> ident \<Rightarrow> person list" where
  "event_persons h i = filter (\<lambda>q. pe_party q \<in> set (party_ids (\<lambda>p. pt_event p = i) h)) (ha_persons h)"

definition meal_selections :: "hall \<Rightarrow> ident \<Rightarrow> ident \<Rightarrow> int" where
  "meal_selections h mt i =
     int (length (filter (\<lambda>q. pe_meal q = Some mt \<or> pe_meal_key q = Some mt) (event_persons h i)))"

definition delete_event_meal :: "ident \<Rightarrow> ident \<Rightarrow> ident \<Rightarrow> string \<Rightarrow> hall \<Rightarrow> exn + hall" where
  "delete_event_meal i mt org role h =
     bindE (assert_event_admin role) (\<lambda>_.
     if \<not> owned_event_meal h mt i org then Inl (NotFound ''Meal type not found'')
     else if 0 < meal_selections h mt i
     then Inl (Conflict ''Cannot delete this meal type: guests have already selected it.'')
     else Inr (invalidate_stats i (drop_event_meals (\<lambda>m. em_id m = mt \<and> em_event m = i) h)))"

section \<open>Parties\<close>

fun nat_decimal :: "nat \<Rightarrow> string" where
  "nat_decimal n = (if n < 10 then [] else nat_decimal (n div 10)) @ [digit_char (int (n mod 10))]"

declare nat_decimal.simps [simp del]

definition guest_name :: "int \<Rightarrow> string" where
  "guest_name n = ''Guest-'' @ nat_decimal (nat n)"

text \<open>The match of \<open>/^Guest-(\<backslash>d+)$/\<close>, read as a number.\<close>

definition guest_number :: "string \<Rightarrow> int option" where
  "guest_number s = (if take 6 s = ''Guest-'' \<and> drop 6 s \<noteq> [] then js_number (drop 6 s) else None)"

definition placeholder :: "ident \<Rightarrow> ident \<Rightarrow> bool \<Rightarrow> int \<Rightarrow> person" where
  "placeholder i party adult n =
     \<lparr>pe_id = i, pe_party = party, pe_name = guest_name n, pe_adult = adult, pe_primary = False, pe_edited = False,
      pe_present = True, pe_meal = None, pe_meal_key = None, pe_pref = None\<rparr>"

definition primary_person :: "ident \<Rightarrow> ident \<Rightarrow> string \<Rightarrow> person" where
  "primary_person i party name =
     \<lparr>pe_id = i, pe_party = party, pe_name = name, pe_adult = True, pe_primary = True, pe_edited = True,
      pe_present = True, pe_meal = None, pe_meal_key = None, pe_pref = None\<rparr>"

definition party_persons :: "hall_env \<Rightarrow> ident \<Rightarrow> string \<Rightarrow> int \<Rightarrow> int \<Rightarrow> person list" where
  "party_persons e party name adults children =
     primary_person (he_id e 1) party name
     # map (\<lambda>i. placeholder (he_id e (i + 1)) party True (int (i + 1))) [1..<nat adults]
     @ map (\<lambda>i. placeholder (he_id e (nat adults + i + 1)) party False (adults + int i + 1)) [0..<nat children]"

definition add_persons :: "person list \<Rightarrow> hall \<Rightarrow> exn + hall" where
  "add_persons qs h =
     (if \<not> distinct (map pe_id qs) \<or> pe_id ` set qs \<inter> pe_id ` set (ha_persons h) \<noteq> {} then Inl (Conflict ''P2002'')
      else Inr (h\<lparr>ha_persons := ha_persons h @ qs\<rparr>))"

definition party_by_device :: "hall \<Rightarrow> ident \<Rightarrow> string \<Rightarrow> party option" where
  "party_by_device h i device = find (\<lambda>p. pt_event p = i \<and> pt_device p = Some device) (ha_parties h)"

text \<open>The transaction of the repository: the party with its persons; the unique index on the device holds where there is one.\<close>

definition new_party :: "hall_env \<Rightarrow> full_event \<Rightarrow> string \<Rightarrow> int \<Rightarrow> int \<Rightarrow> string option \<Rightarrow> party" where
  "new_party e v name adults children device =
     \<lparr>pt_id = he_id e 0, pt_event = ev_id v, pt_org = ev_org v, pt_name = name, pt_adults = adults,
      pt_children = children, pt_joined = he_now e, pt_device = (if truthy device then device else None)\<rparr>"

definition insert_party ::
  "hall_env \<Rightarrow> ident \<Rightarrow> string \<Rightarrow> int \<Rightarrow> int \<Rightarrow> string option \<Rightarrow> hall \<Rightarrow> exn + party \<times> hall" where
  "insert_party e i name adults children device h =
     bindE (orErr (find (\<lambda>v. ev_id v = i) (ha_events h)) (Internal ''TypeError'')) (\<lambda>v.
     let p = new_party e v name adults children device
     in if pt_id p \<in> pt_id ` set (ha_parties h)
           \<or> (pt_device p \<noteq> None \<and> party_by_device h i (the (pt_device p)) \<noteq> None)
        then Inl (Conflict ''P2002'')
        else bindE (add_persons (party_persons e (pt_id p) name adults children) (h\<lparr>ha_parties := ha_parties h @ [p]\<rparr>))
               (\<lambda>h'. Inr (p, h')))"

text \<open>
  Joining by code reads the event and the party of the device (in \<open>seen\<close>, the state at that
  instant) and writes later (in \<open>h\<close>): a join of the same device in between makes the insert fail,
  and the loser returns the winner's party.
\<close>

definition join_event_by_code ::
  "hall_env \<Rightarrow> string \<Rightarrow> string \<Rightarrow> int \<Rightarrow> int \<Rightarrow> string option \<Rightarrow> hall \<Rightarrow> hall \<Rightarrow> exn + party \<times> bool \<times> hall" where
  "join_event_by_code e code name adults children device seen h =
     (case event_by_token seen code of
        None \<Rightarrow> Inl (NotFound ''Invalid join code. Please check with your admin.'')
      | Some v \<Rightarrow>
          if \<not> fe_active v then Inl (NotFound ''Invalid join code. Please check with your admin.'')
          else
            (case (if truthy device then party_by_device seen (ev_id v) (the device) else None) of
               Some p \<Rightarrow> Inr (p, True, h)
             | None \<Rightarrow>
                 if event_status (he_now e) v \<noteq> EvUpcoming
                 then Inl (Locked ''This event is closed and no longer accepting guests.'')
                 else
                   (case insert_party e (ev_id v) name (max 1 adults) (max 0 children) device h of
                      Inr (p, h') \<Rightarrow> Inr (p, False, invalidate_stats (ev_id v) h')
                    | Inl x \<Rightarrow>
                        if truthy device \<and> x = Conflict ''P2002''
                        then (case party_by_device h (ev_id v) (the device) of
                                Some p \<Rightarrow> Inr (p, True, h) | None \<Rightarrow> Inl x)
                        else Inl x)))"

text \<open>The public route: the device key is trimmed, dropped when it is longer than 80.\<close>

definition post_join ::
  "hall_env \<Rightarrow> string \<Rightarrow> string \<Rightarrow> int option \<Rightarrow> int option \<Rightarrow> string option \<Rightarrow> hall \<Rightarrow> hall \<Rightarrow> exn + party \<times> bool \<times> hall" where
  "post_join e code name adults children device seen h =
     join_event_by_code e code name (nullish adults 1) (nullish children 0)
       (case device of None \<Rightarrow> None
        | Some d \<Rightarrow> if length d \<le> 80 \<and> js_trim d \<noteq> [] then Some (js_trim d) else None) seen h"

record party_dto =
  pd_name :: "string option"
  pd_adults :: "int option"
  pd_children :: "int option"

definition party_dto_ok :: "bool \<Rightarrow> party_dto \<Rightarrow> exn + unit" where
  "party_dto_ok new d =
     (if (new \<and> \<not> truthy (pd_name d)) \<or> 120 < length (nullish (pd_name d) [])
         \<or> nullish (pd_adults d) 1 < 1 \<or> nullish (pd_children d) 0 < 0
      then Inl (BadRequest ''Validation failed'') else Inr ())"

definition create_party :: "hall_env \<Rightarrow> ident \<Rightarrow> ident \<Rightarrow> party_dto \<Rightarrow> hall \<Rightarrow> exn + hall" where
  "create_party e i org dto h =
     bindE (party_dto_ok True dto) (\<lambda>_.
     bindE (assert_event_modifiable (he_now e) h i org) (\<lambda>_.
     bindE (insert_party e i (nullish (pd_name dto) []) (nullish (pd_adults dto) 1) (nullish (pd_children dto) 0) None h)
       (\<lambda>(p, h'). Inr (invalidate_stats i h'))))"

definition get_parties :: "ident \<Rightarrow> ident \<Rightarrow> nat option \<Rightarrow> nat option \<Rightarrow> hall \<Rightarrow> exn + party list \<times> nat" where
  "get_parties i org page limit h =
     bindE (assert_event_ownership h i org) (\<lambda>_.
       let found = filter (\<lambda>p. pt_event p = i) (ha_parties h)
       in Inr (page_of (nullish page 1) (nullish limit 50) (sort_key pt_joined found), length found))"

definition owned_party :: "hall \<Rightarrow> ident \<Rightarrow> ident \<Rightarrow> ident \<Rightarrow> bool" where
  "owned_party h pid i org \<longleftrightarrow>
     (\<exists>p\<in>set (ha_parties h). pt_id p = pid \<and> pt_event p = i) \<and> find_event h i org \<noteq> None"

definition persons_in :: "hall \<Rightarrow> ident \<Rightarrow> person list" where
  "persons_in h pid = filter (\<lambda>q. pe_party q = pid) (ha_persons h)"

definition next_guest_number :: "person list \<Rightarrow> int" where
  "next_guest_number qs =
     foldl (\<lambda>m q. case guest_number (pe_name q) of None \<Rightarrow> m | Some n \<Rightarrow> max m n) (int (length qs)) qs + 1"

definition removable :: "person list \<Rightarrow> person list" where
  "removable qs = sort_key (\<lambda>q. if pe_present q then 1 else 0 :: int) (filter (\<lambda>q. \<not> pe_primary q \<and> \<not> pe_edited q) qs)"

text \<open>
  One kind of person: the placeholders to add, numbered from \<open>next\<close> with the ids from \<open>k\<close>, and the
  ids to delete.
\<close>

definition reconcile_kind ::
  "hall_env \<Rightarrow> nat \<Rightarrow> ident \<Rightarrow> bool \<Rightarrow> int \<Rightarrow> int \<Rightarrow> person list \<Rightarrow> exn + person list \<times> ident list" where
  "reconcile_kind e k pid adult target next_n qs =
     (let grp = filter (\<lambda>q. pe_adult q = adult) qs; diff = target - int (length grp)
      in if 0 < diff
         then Inr (map (\<lambda>i. placeholder (he_id e (k + i)) pid adult (next_n + int i)) [0..<nat diff], [])
         else if diff < 0
         then (if int (length (removable grp)) < - diff then Inl (Unprocessable ''PARTY_PERSONS_CONFLICT'')
               else Inr ([], map pe_id (take (nat (- diff)) (removable grp))))
         else Inr ([], []))"

definition reconcile_party :: "hall_env \<Rightarrow> party \<Rightarrow> hall \<Rightarrow> exn + hall" where
  "reconcile_party e p h =
     (let qs = persons_in h (pt_id p); n = next_guest_number qs
      in bindE (reconcile_kind e 0 (pt_id p) True (pt_adults p) n qs) (\<lambda>(add1, del1).
         bindE (reconcile_kind e (length add1) (pt_id p) False (pt_children p) (n + int (length add1)) qs) (\<lambda>(add2, del2).
           add_persons (add1 @ add2)
             (h\<lparr>ha_persons := filter (\<lambda>q. pe_id q \<notin> set (del1 @ del2)) (ha_persons h)\<rparr>))))"

definition patch_party :: "party_dto \<Rightarrow> party \<Rightarrow> party" where
  "patch_party d p = p\<lparr>pt_name := nullish (pd_name d) (pt_name p), pt_adults := nullish (pd_adults d) (pt_adults p),
     pt_children := nullish (pd_children d) (pt_children p)\<rparr>"

definition write_party :: "hall_env \<Rightarrow> ident \<Rightarrow> party_dto \<Rightarrow> hall \<Rightarrow> exn + hall" where
  "write_party e pid d h =
     bindE (orErr (find (\<lambda>p. pt_id p = pid) (ha_parties h)) (Internal ''P2025'')) (\<lambda>p.
       let h1 = h\<lparr>ha_parties := map (\<lambda>x. if pt_id x = pid then patch_party d x else x) (ha_parties h)\<rparr>
       in if pd_adults d = None \<and> pd_children d = None then Inr h1
          else reconcile_party e (patch_party d p) h1)"

definition update_party :: "hall_env \<Rightarrow> ident \<Rightarrow> ident \<Rightarrow> ident \<Rightarrow> party_dto \<Rightarrow> hall \<Rightarrow> exn + hall" where
  "update_party e i pid org d h =
     bindE (party_dto_ok False d) (\<lambda>_.
     if \<not> owned_party h pid i org then Inl (NotFound ''Guest party not found'')
     else bindE (assert_event_modifiable (he_now e) h i org) (\<lambda>_.
          bindE (write_party e pid d h) (\<lambda>h'. Inr (invalidate_stats i h'))))"

definition delete_party :: "hall_env \<Rightarrow> ident \<Rightarrow> ident \<Rightarrow> ident \<Rightarrow> string \<Rightarrow> hall \<Rightarrow> exn + hall" where
  "delete_party e i pid org role h =
     bindE (assert_event_admin role) (\<lambda>_.
     if \<not> owned_party h pid i org then Inl (NotFound ''Guest party not found'')
     else bindE (assert_event_modifiable (he_now e) h i org) (\<lambda>_.
            Inr (invalidate_stats i (drop_parties (\<lambda>p. pt_id p = pid \<and> pt_event p = i) h))))"

section \<open>Persons\<close>

record person_dto =
  nd_name :: "string option"
  nd_meal :: "ident option option"
  nd_pref :: "string option option"

definition event_person :: "hall \<Rightarrow> ident \<Rightarrow> ident \<Rightarrow> person option" where
  "event_person h qid i = find (\<lambda>q. pe_id q = qid) (event_persons h i)"

definition patch_person :: "person_dto \<Rightarrow> person \<Rightarrow> person" where
  "patch_person d q =
     q\<lparr>pe_name := nullish (nd_name d) (pe_name q), pe_edited := (pe_edited q \<or> nd_name d \<noteq> None),
       pe_meal := nullish (nd_meal d) (pe_meal q), pe_meal_key := nullish (nd_meal d) (pe_meal_key q),
       pe_pref := nullish (nd_pref d) (pe_pref q)\<rparr>"

definition set_person :: "ident \<Rightarrow> (person \<Rightarrow> person) \<Rightarrow> hall \<Rightarrow> hall" where
  "set_person qid f h = h\<lparr>ha_persons := map (\<lambda>q. if pe_id q = qid then f q else q) (ha_persons h)\<rparr>"

text \<open>The foreign key refuses a meal type that is no row; it may be a row of any event.\<close>

definition update_person_details :: "hall_env \<Rightarrow> ident \<Rightarrow> ident \<Rightarrow> ident \<Rightarrow> person_dto \<Rightarrow> hall \<Rightarrow> exn + hall" where
  "update_person_details e i qid org d h =
     bindE (assert_event_modifiable (he_now e) h i org) (\<lambda>_.
     if event_person h qid i = None then Inl (NotFound ''Person not found'')
     else if nullish (nd_meal d) None \<noteq> None \<and> the (the (nd_meal d)) \<notin> em_id ` set (ha_meals h)
     then Inl (Internal ''P2003'')
     else Inr (invalidate_stats i (set_person qid (patch_person d) h)))"

definition update_person_presence :: "hall_env \<Rightarrow> ident \<Rightarrow> ident \<Rightarrow> ident \<Rightarrow> bool \<Rightarrow> hall \<Rightarrow> exn + hall" where
  "update_person_presence e i qid org present h =
     bindE (assert_event_modifiable (he_now e) h i org) (\<lambda>_.
     if event_person h qid i = None then Inl (NotFound ''Person not found'')
     else Inr (invalidate_stats i (set_person qid (\<lambda>q. q\<lparr>pe_present := present\<rparr>) h)))"

section \<open>Statistics\<close>

definition how_many :: "('a \<Rightarrow> bool) \<Rightarrow> 'a list \<Rightarrow> int" where
  "how_many P xs = int (length (filter P xs))"

definition veg_prefs :: "string list" where
  "veg_prefs = [''veg'', ''jain'']"

definition meal_kinds :: "hall \<Rightarrow> ident \<Rightarrow> bool \<Rightarrow> ident list" where
  "meal_kinds h i veg = map em_id (filter (\<lambda>m. em_event m = i \<and> em_veg m = veg) (ha_meals h))"

definition eats_veg :: "hall \<Rightarrow> ident \<Rightarrow> person \<Rightarrow> bool" where
  "eats_veg h i q =
     (if truthy (pe_meal q) then the (pe_meal q) \<in> set (meal_kinds h i True)
      else truthy (pe_pref q) \<and> the (pe_pref q) \<in> set veg_prefs)"

definition eats_nonveg :: "hall \<Rightarrow> ident \<Rightarrow> person \<Rightarrow> bool" where
  "eats_nonveg h i q =
     (if truthy (pe_meal q) then the (pe_meal q) \<in> set (meal_kinds h i False)
      else truthy (pe_pref q) \<and> the (pe_pref q) \<notin> set veg_prefs)"

fun count_meals :: "person list \<Rightarrow> (ident \<times> int) list \<Rightarrow> (ident \<times> int) list" where
  "count_meals [] m = m"
| "count_meals (q # qs) m =
     count_meals qs (if truthy (pe_meal q) then acc_add (the (pe_meal q)) 1 m else m)"

definition compute_event_stats :: "hall \<Rightarrow> ident \<Rightarrow> event_stats" where
  "compute_event_stats h i =
     (let qs = event_persons h i; attending = filter pe_present qs; picked = count_meals attending []
      in \<lparr>es_total = int (length qs), es_adults = how_many pe_adult qs, es_children = how_many (\<lambda>q. \<not> pe_adult q) qs,
          es_present = int (length attending),
          es_pending = how_many (\<lambda>q. \<not> truthy (pe_meal q) \<and> \<not> truthy (pe_pref q)) attending,
          es_veg = how_many (eats_veg h i) attending, es_nonveg = how_many (eats_nonveg h i) attending,
          es_breakdown = map (\<lambda>m. (em_id m, em_title m, get0 picked (em_id m))) (filter (\<lambda>m. em_event m = i) (ha_meals h))\<rparr>)"

definition event_stats_ttl :: int where
  "event_stats_ttl = 120 * 1000"

definition cached_stats :: "int \<Rightarrow> hall \<Rightarrow> ident \<Rightarrow> event_stats option" where
  "cached_stats now h i = map_option (fst \<circ> snd) (find (\<lambda>c. fst c = i \<and> now < snd (snd c)) (ha_stats h))"

definition get_event_stats :: "hall_env \<Rightarrow> ident \<Rightarrow> ident \<Rightarrow> hall \<Rightarrow> exn + event_stats \<times> hall" where
  "get_event_stats e i org h =
     bindE (assert_event_ownership h i org) (\<lambda>_.
     case cached_stats (he_now e) h i of
       Some s \<Rightarrow> Inr (s, h)
     | None \<Rightarrow>
         let s = compute_event_stats h i; h1 = invalidate_stats i h
         in Inr (s, h1\<lparr>ha_stats := (i, s, he_now e + event_stats_ttl) # ha_stats h1\<rparr>))"

section \<open>Scheduled clean-up\<close>

text \<open>The daily job of an organization deactivates, then removes a week after the event day.\<close>

definition deactivate_events :: "(full_event \<Rightarrow> bool) \<Rightarrow> hall \<Rightarrow> hall" where
  "deactivate_events P h = h\<lparr>ha_events := map (\<lambda>v. if P v then v\<lparr>fe_active := False\<rparr> else v) (ha_events h)\<rparr>"

definition cleanup_expired_events :: "hall_env \<Rightarrow> ident \<Rightarrow> int \<Rightarrow> hall \<Rightarrow> hall" where
  "cleanup_expired_events e org cutoff h =
     (let h1 = deactivate_events (\<lambda>v. ev_org v = org \<and> ev_auto_delete v \<and> fe_active v
                  \<and> (case ev_auto_delete_at v of None \<Rightarrow> False | Some t \<Rightarrow> t < cutoff)) h
      in case to_utc_midnight (he_org_date e org) of
           None \<Rightarrow> h1
         | Some today \<Rightarrow> drop_events (\<lambda>v. ev_org v = org \<and> ev_auto_delete v \<and> ev_date v < today - 7 * day_ms) h1)"

definition clean_auto_delete_events :: "hall_env \<Rightarrow> hall \<Rightarrow> hall" where
  "clean_auto_delete_events e h =
     deactivate_events (\<lambda>v. ev_auto_delete v \<and> fe_active v
        \<and> (case ev_auto_delete_at v of None \<Rightarrow> False | Some t \<Rightarrow> t \<le> he_now e)) h"

definition clean_orphaned_parties :: "hall_env \<Rightarrow> hall \<Rightarrow> hall" where
  "clean_orphaned_parties e h =
     drop_parties (\<lambda>p. persons_in h (pt_id p) = [] \<and> pt_joined p < he_now e - 60 * 60 * 1000) h"

end
