(* ===== verification/Event_Laws.thy ===== *)
theory Event_Laws
  imports Events
begin

text \<open>
  Laws of the event system: the counts of a party are its persons, one device has one party,
  a locked event keeps its guest data, and the statistics add up.
\<close>

section \<open>Placeholder names\<close>

lemma js_number_aux_append:
  "js_number_aux a (xs @ ys) = (case js_number_aux a xs of None \<Rightarrow> None | Some b \<Rightarrow> js_number_aux b ys)"
  by (induction xs arbitrary: a) (auto split: option.split)

lemma js_number_nat_decimal: "js_number (nat_decimal n) = Some (int n)"
proof (induction n rule: nat_decimal.induct)
  case (1 n)
  then show ?case
    by (subst nat_decimal.simps) (auto simp: js_number_def js_number_aux_append zdiv_int zmod_int)
qed

lemma nat_decimal_not_Nil: "nat_decimal n \<noteq> []"
  by (subst nat_decimal.simps) simp

lemma guest_number_name [simp]: "0 \<le> n \<Longrightarrow> guest_number (guest_name n) = Some n"
  using nat_decimal_not_Nil [of "nat n"] by (simp add: guest_number_def guest_name_def js_number_nat_decimal)

lemma guest_name_inj: "0 \<le> m \<Longrightarrow> 0 \<le> n \<Longrightarrow> guest_name m = guest_name n \<longleftrightarrow> m = n"
  by (metis guest_number_name option.inject)

lemma next_guest_number_above:
  assumes "q \<in> set qs" "guest_number (pe_name q) = Some n"
  shows "n < next_guest_number qs"
proof -
  let ?f = "\<lambda>m q. case guest_number (pe_name q) of None \<Rightarrow> m | Some n \<Rightarrow> max m n"
  have mono: "m \<le> foldl ?f m xs" for m xs
    by (induction xs arbitrary: m) (auto split: option.splits intro: order_trans max.cobounded1)
  have "n \<le> foldl ?f m xs" if "q \<in> set xs" for m xs
    using that
  proof (induction xs arbitrary: m)
    case (Cons x xs)
    show ?case
    proof (cases "x = q")
      case True
      have "max m n \<le> foldl ?f (max m n) xs" by (rule mono)
      with True assms(2) show ?thesis by simp
    qed (use Cons in simp)
  qed simp
  then show ?thesis using assms(1) by (simp add: next_guest_number_def)
qed

lemma next_guest_number_pos: "0 < next_guest_number qs"
proof -
  let ?f = "\<lambda>m q. case guest_number (pe_name q) of None \<Rightarrow> m | Some n \<Rightarrow> max m n"
  have mono: "m \<le> foldl ?f m xs" for m xs
    by (induction xs arbitrary: m) (auto split: option.splits intro: order_trans max.cobounded1)
  from mono [of "int (length qs)" qs] show ?thesis by (simp add: next_guest_number_def)
qed

section \<open>Counting rows\<close>

lemma how_many_simps [simp]:
  "how_many P [] = 0" "how_many P (x # xs) = (if P x then 1 else 0) + how_many P xs"
  "how_many P (xs @ ys) = how_many P xs + how_many P ys"
  by (simp_all add: how_many_def)

lemma how_many_map: "(\<And>x. P (f x) = P x) \<Longrightarrow> how_many P (map f xs) = how_many P xs"
  by (induction xs) auto

lemma how_many_cong: "(\<And>x. x \<in> set xs \<Longrightarrow> P x = Q x) \<Longrightarrow> how_many P xs = how_many Q xs"
  by (induction xs) auto

lemma how_many_filter: "how_many P (filter Q xs) = how_many (\<lambda>x. Q x \<and> P x) xs"
  by (induction xs) auto

lemma how_many_all: "(\<And>x. x \<in> set xs \<Longrightarrow> P x) \<Longrightarrow> how_many P xs = int (length xs)"
  by (induction xs) auto

lemma how_many_none: "(\<And>x. x \<in> set xs \<Longrightarrow> \<not> P x) \<Longrightarrow> how_many P xs = 0"
  by (induction xs) auto

lemma how_many_card: "distinct (map k xs) \<Longrightarrow> how_many P xs = int (card (k ` {x \<in> set xs. P x}))"
proof (induction xs)
  case (Cons a xs)
  have "k ` {x \<in> set (a # xs). P x} = (if P a then insert (k a) (k ` {x \<in> set xs. P x}) else k ` {x \<in> set xs. P x})" by auto
  moreover have "k a \<notin> k ` {x \<in> set xs. P x}" using Cons.prems by auto
  ultimately show ?case using Cons by simp
qed simp

text \<open>Deleting distinct keys of rows that count lowers the count by their number.\<close>

lemma how_many_delete:
  assumes "distinct (map k xs)" "distinct del" "set del \<subseteq> k ` {x \<in> set xs. P x}"
  shows "how_many P (filter (\<lambda>x. k x \<notin> set del) xs) = how_many P xs - int (length del)"
proof -
  have d: "distinct (map k (filter (\<lambda>x. k x \<notin> set del) xs))" using assms(1) by (simp add: distinct_map_filter)
  have "k ` {x \<in> set (filter (\<lambda>x. k x \<notin> set del) xs). P x} = k ` {x \<in> set xs. P x} - set del" by auto
  moreover have "card (k ` {x \<in> set xs. P x} - set del) = card (k ` {x \<in> set xs. P x}) - card (set del)"
    by (rule card_Diff_subset) (use assms(3) in auto)
  moreover have "card (set del) \<le> card (k ` {x \<in> set xs. P x})" by (rule card_mono) (use assms(3) in auto)
  ultimately show ?thesis
    using how_many_card [OF d, of P] how_many_card [OF assms(1), of P] distinct_card [OF assms(2)] by simp
qed

section \<open>A consistent hall\<close>

text \<open>The counts of a party are those of its persons, and it has an adult primary person.\<close>

definition party_ok :: "person list \<Rightarrow> party \<Rightarrow> bool" where
  "party_ok qs p \<longleftrightarrow>
     how_many (\<lambda>q. pe_party q = pt_id p \<and> pe_adult q) qs = pt_adults p
     \<and> how_many (\<lambda>q. pe_party q = pt_id p \<and> \<not> pe_adult q) qs = pt_children p
     \<and> (\<exists>q\<in>set qs. pe_party q = pt_id p \<and> pe_primary q \<and> pe_adult q)"

definition same_device :: "party \<Rightarrow> party \<Rightarrow> bool" where
  "same_device p q \<longleftrightarrow> pt_event p = pt_event q \<and> pt_device p \<noteq> None \<and> pt_device p = pt_device q"

definition tables_ok :: "party list \<Rightarrow> person list \<Rightarrow> bool" where
  "tables_ok ps qs \<longleftrightarrow> distinct (map pt_id ps) \<and> distinct (map pe_id qs) \<and> list_all (party_ok qs) ps
     \<and> list_all (\<lambda>q. pe_party q \<in> pt_id ` set ps) qs \<and> apart same_device pt_id ps"

definition hall_ok :: "hall \<Rightarrow> bool" where
  "hall_ok h \<longleftrightarrow> distinct (map ev_id (ha_events h)) \<and> distinct (map fe_token (ha_events h))
     \<and> distinct (map em_id (ha_meals h)) \<and> tables_ok (ha_parties h) (ha_persons h)"

lemma tables_okD:
  assumes "tables_ok ps qs"
  shows "distinct (map pt_id ps)" "distinct (map pe_id qs)" "p \<in> set ps \<Longrightarrow> party_ok qs p"
    "q \<in> set qs \<Longrightarrow> pe_party q \<in> pt_id ` set ps" "apart same_device pt_id ps"
    "p \<in> set ps \<Longrightarrow> p' \<in> set ps \<Longrightarrow> pt_id p = pt_id p' \<Longrightarrow> p = p'"
  using assms distinct_key_eq [of pt_id ps] by (auto simp: tables_ok_def list_all_iff)

lemma tables_persons_map:
  assumes ok: "tables_ok ps qs"
    and f: "\<And>q. pe_id (f q) = pe_id q \<and> pe_party (f q) = pe_party q \<and> pe_adult (f q) = pe_adult q \<and> pe_primary (f q) = pe_primary q"
  shows "tables_ok ps (map f qs)"
proof -
  have "party_ok (map f qs) p" if "p \<in> set ps" for p
    using tables_okD(3) [OF ok that] f by (auto simp: party_ok_def how_many_map)
  moreover have "map pe_id (map f qs) = map pe_id qs" using f by simp
  then have "distinct (map pe_id (map f qs))" using ok by (simp only: tables_ok_def)
  ultimately show ?thesis using ok f by (simp add: tables_ok_def list_all_iff)
qed

lemma tables_drop:
  assumes ok: "tables_ok ps qs"
  shows "tables_ok (filter (\<lambda>p. \<not> P p) ps) (filter (\<lambda>q. pe_party q \<notin> set (map pt_id (filter P ps))) qs)"
proof -
  let ?qs = "filter (\<lambda>q. pe_party q \<notin> set (map pt_id (filter P ps))) qs"
  have "party_ok ?qs p" if p: "p \<in> set ps" "\<not> P p" for p
  proof -
    have n: "pt_id p \<notin> set (map pt_id (filter P ps))" using tables_okD(6) [OF ok] p by auto
    have c: "how_many (\<lambda>q. pe_party q = pt_id p \<and> R q) ?qs = how_many (\<lambda>q. pe_party q = pt_id p \<and> R q) qs" for R
      unfolding how_many_filter by (rule how_many_cong) (use n in \<open>auto simp: image_iff\<close>)
    obtain q where q: "q \<in> set qs" "pe_party q = pt_id p" "pe_primary q" "pe_adult q"
      using tables_okD(3) [OF ok p(1)] by (auto simp: party_ok_def)
    then have "q \<in> set ?qs" using n by simp
    then show ?thesis using tables_okD(3) [OF ok p(1)] q(2-4) unfolding party_ok_def c by blast
  qed
  moreover have "pe_party q \<in> pt_id ` set (filter (\<lambda>p. \<not> P p) ps)" if "q \<in> set ?qs" for q
    using tables_okD(4) [OF ok, of q] that by auto
  ultimately show ?thesis
    using ok by (simp add: tables_ok_def list_all_iff distinct_map_filter apart_def)
qed

lemma drop_parties_ok: "hall_ok h \<Longrightarrow> hall_ok (drop_parties P h)"
  by (simp add: hall_ok_def drop_parties_def party_ids_def tables_drop [simplified])

lemma map_if_frame: "(\<And>x. k (f x) = k x) \<Longrightarrow> map k (map (\<lambda>x. if c x then f x else x) xs) = map k xs"
  by simp

lemma drop_event_meals_ok: "hall_ok h \<Longrightarrow> hall_ok (drop_event_meals P h)"
  unfolding hall_ok_def drop_event_meals_def by (auto intro!: tables_persons_map simp: distinct_map_filter split: if_splits)

lemma drop_events_ok: "hall_ok h \<Longrightarrow> hall_ok (drop_events P h)"
  unfolding drop_events_def Let_def
  by (intro drop_event_meals_ok drop_parties_ok) (simp add: hall_ok_def distinct_map_filter)

lemma set_event_ok:
  assumes "hall_ok h" "\<And>v. ev_id (f v) = ev_id v \<and> fe_token (f v) = fe_token v"
  shows "hall_ok (h\<lparr>ha_events := map (\<lambda>v. if c v then f v else v) (ha_events h)\<rparr>)"
proof -
  have *: "map ev_id (map (\<lambda>v. if c v then f v else v) (ha_events h)) = map ev_id (ha_events h)"
    "map fe_token (map (\<lambda>v. if c v then f v else v) (ha_events h)) = map fe_token (ha_events h)"
    by (intro map_if_frame; simp add: assms(2))+
  show ?thesis using assms(1) by (simp add: hall_ok_def * del: map_map)
qed

lemma set_person_ok:
  assumes "hall_ok h"
    and "\<And>q. pe_id (f q) = pe_id q \<and> pe_party (f q) = pe_party q \<and> pe_adult (f q) = pe_adult q \<and> pe_primary (f q) = pe_primary q"
  shows "hall_ok (set_person i f h)"
proof -
  have "tables_ok (ha_parties h) (map (\<lambda>q. if pe_id q = i then f q else q) (ha_persons h))"
    by (rule tables_persons_map) (use assms in \<open>simp_all add: hall_ok_def\<close>)
  then show ?thesis using assms(1) by (simp add: hall_ok_def set_person_def)
qed

lemma invalidate_stats_ok [simp]: "hall_ok (invalidate_stats i h) = hall_ok h"
  by (simp add: hall_ok_def invalidate_stats_def)

section \<open>New parties\<close>

lemma party_persons_count:
  assumes "1 \<le> adults" "0 \<le> children"
  shows "how_many pe_adult (party_persons e pid name adults children) = adults"
    "how_many (\<lambda>q. \<not> pe_adult q) (party_persons e pid name adults children) = children"
    "\<exists>q\<in>set (party_persons e pid name adults children). pe_primary q \<and> pe_adult q"
    "q \<in> set (party_persons e pid name adults children) \<Longrightarrow> pe_party q = pid"
proof -
  have a: "how_many P (map (\<lambda>i. placeholder (f i) pid b (g i)) is') = (if P \<lparr>pe_id = [], pe_party = pid, pe_name = [], pe_adult = b,
      pe_primary = False, pe_edited = False, pe_present = True, pe_meal = None, pe_meal_key = None, pe_pref = None\<rparr> then int (length is') else 0)"
    if "P = pe_adult \<or> P = (\<lambda>q. \<not> pe_adult q)" for P f g b is'
    using that by (induction is') (auto simp: placeholder_def)
  show "how_many pe_adult (party_persons e pid name adults children) = adults"
    "how_many (\<lambda>q. \<not> pe_adult q) (party_persons e pid name adults children) = children"
    using assms by (simp_all add: party_persons_def a primary_person_def)
  show "\<exists>q\<in>set (party_persons e pid name adults children). pe_primary q \<and> pe_adult q"
    by (simp add: party_persons_def primary_person_def)
  show "q \<in> set (party_persons e pid name adults children) \<Longrightarrow> pe_party q = pid"
    by (auto simp: party_persons_def placeholder_def primary_person_def)
qed

lemma add_persons_cases:
  "add_persons qs h = Inr h' \<longleftrightarrow> distinct (map pe_id qs) \<and> pe_id ` set qs \<inter> pe_id ` set (ha_persons h) = {}
     \<and> h' = h\<lparr>ha_persons := ha_persons h @ qs\<rparr>"
  by (auto simp: add_persons_def)

lemma insert_party_cases:
  assumes "insert_party e i name adults children device h = Inr (p, h')"
  obtains v where "find (\<lambda>v. ev_id v = i) (ha_events h) = Some v" "p = new_party e v name adults children device"
    "pt_event p = i" "pt_id p \<notin> pt_id ` set (ha_parties h)"
    "truthy device \<longrightarrow> party_by_device h i (the device) = None"
    "add_persons (party_persons e (pt_id p) name adults children) (h\<lparr>ha_parties := ha_parties h @ [p]\<rparr>) = Inr h'"
proof -
  from assms obtain v where v: "find (\<lambda>v. ev_id v = i) (ha_events h) = Some v"
    and p: "p = new_party e v name adults children device"
    and g: "\<not> (pt_id p \<in> pt_id ` set (ha_parties h) \<or> (pt_device p \<noteq> None \<and> party_by_device h i (the (pt_device p)) \<noteq> None))"
    and add: "add_persons (party_persons e (pt_id p) name adults children) (h\<lparr>ha_parties := ha_parties h @ [p]\<rparr>) = Inr h'"
    unfolding insert_party_def Let_def bindE_eq_Inr if_Inl_eq_Inr by auto
  have "pt_event p = i" using v by (auto simp: p new_party_def dest: find_SomeD)
  moreover have "party_by_device h i (the device) = None" if "truthy device"
    using g that by (cases device) (auto simp: p new_party_def)
  ultimately show thesis using g add by (intro that [OF v p]) blast+
qed

lemma insert_party_ok:
  assumes ok: "hall_ok h" and ins: "insert_party e i name adults children device h = Inr (p, h')"
    and n: "1 \<le> adults" "0 \<le> children"
  shows "hall_ok h'"
proof -
  from ins obtain v where v: "find (\<lambda>v. ev_id v = i) (ha_events h) = Some v"
    and new: "p = new_party e v name adults children device" "pt_event p = i" and fresh: "pt_id p \<notin> pt_id ` set (ha_parties h)"
    and dev: "truthy device \<longrightarrow> party_by_device h i (the device) = None"
    and add: "add_persons (party_persons e (pt_id p) name adults children) (h\<lparr>ha_parties := ha_parties h @ [p]\<rparr>) = Inr h'"
    by (rule insert_party_cases)
  have p: "pt_adults p = adults" "pt_children p = children" "pt_device p = (if truthy device then device else None)"
    by (simp_all add: new(1) new_party_def)
  let ?new = "party_persons e (pt_id p) name adults children"
  have t: "tables_ok (ha_parties h) (ha_persons h)" using ok by (simp add: hall_ok_def)
  have d: "distinct (map pe_id ?new)" "pe_id ` set ?new \<inter> pe_id ` set (ha_persons h) = {}"
    and h': "h' = h\<lparr>ha_parties := ha_parties h @ [p], ha_persons := ha_persons h @ ?new\<rparr>"
    using add by (auto simp: add_persons_cases)
  note c = party_persons_count [OF n, where e = e and pid = "pt_id p" and name = name]
  have others: "pe_party q \<noteq> pt_id p" if "q \<in> set (ha_persons h)" for q
    using tables_okD(4) [OF t that] fresh by auto
  have "party_ok (ha_persons h @ ?new) p"
  proof -
    have "how_many (\<lambda>q. pe_party q = pt_id p \<and> R q) (ha_persons h @ ?new) = how_many R ?new" for R
    proof -
      have "how_many (\<lambda>q. pe_party q = pt_id p \<and> R q) (ha_persons h) = 0" using others by (intro how_many_none) blast
      moreover have "how_many (\<lambda>q. pe_party q = pt_id p \<and> R q) ?new = how_many R ?new"
        by (rule how_many_cong) (use c(4) in blast)
      ultimately show ?thesis by (simp only: how_many_simps)
    qed
    then show ?thesis using c(1-4) unfolding party_ok_def p by (metis Un_iff set_append)
  qed
  moreover have "party_ok (ha_persons h @ ?new) x" if x: "x \<in> set (ha_parties h)" for x
  proof -
    have "pt_id x \<noteq> pt_id p" using x fresh by (auto simp: image_iff)
    then have "how_many (\<lambda>q. pe_party q = pt_id x \<and> R q) ?new = 0" for R
      using c(4) by (intro how_many_none) auto
    then show ?thesis using tables_okD(3) [OF t x] by (auto simp: party_ok_def)
  qed
  moreover have "apart same_device pt_id (ha_parties h @ [p])"
  proof (rule apart_append)
    show "apart same_device pt_id (ha_parties h)" using tables_okD(5) [OF t] .
    show "\<And>p q. same_device p q \<Longrightarrow> same_device q p" by (metis same_device_def)
    show "\<not> same_device x p" if "x \<in> set (ha_parties h)" for x
      using dev that by (auto simp: same_device_def p new(2) party_by_device_def find_None_iff_none split: if_splits dest: truthyD)
  qed
  moreover have "pe_party q \<in> pt_id ` set (ha_parties h @ [p])" if "q \<in> set (ha_persons h @ ?new)" for q
    using that tables_okD(4) [OF t, of q] c(4) by auto
  ultimately show ?thesis
    using ok t d fresh unfolding h' hall_ok_def tables_ok_def by (simp add: list_all_iff Int_commute)
qed

section \<open>Count edits\<close>

lemma how_many_delete_other:
  assumes "distinct (map k xs)" "D \<subseteq> k ` {x \<in> set xs. \<not> P x}"
  shows "how_many P (filter (\<lambda>x. k x \<notin> D) xs) = how_many P xs"
proof -
  have "k x \<notin> D" if "x \<in> set xs" "P x" for x
  proof
    assume "k x \<in> D"
    then obtain y where y: "y \<in> set xs" "\<not> P y" "k y = k x" using assms(2) by auto
    then have "y = x" using distinct_key_eq [OF assms(1)] that(1) by blast
    with y that show False by simp
  qed
  then show ?thesis unfolding how_many_filter by (intro how_many_cong) auto
qed

lemma how_many_delete_two:
  assumes d: "distinct (map k xs)" and del: "distinct del" "set del \<subseteq> k ` {x \<in> set xs. P x}"
    and other: "D \<subseteq> k ` {x \<in> set xs. \<not> P x}"
  shows "how_many P (filter (\<lambda>x. k x \<notin> set del \<union> D) xs) = how_many P xs - int (length del)"
proof -
  let ?ys = "filter (\<lambda>x. k x \<notin> D) xs"
  have "x \<in> set ?ys" if "x \<in> set xs" "P x" for x
  proof -
    have "x = y" if "y \<in> set xs" "k x = k y" for y using distinct_key_eq [OF d] that \<open>x \<in> set xs\<close> by blast
    with other that show ?thesis by auto
  qed
  then have "set del \<subseteq> k ` {x \<in> set ?ys. P x}" using del(2) by blast
  moreover have "distinct (map k ?ys)" using d by (simp add: distinct_map_filter)
  ultimately have "how_many P (filter (\<lambda>x. k x \<notin> set del) ?ys) = how_many P ?ys - int (length del)"
    using del(1) by (intro how_many_delete)
  moreover have "filter (\<lambda>x. k x \<notin> set del) ?ys = filter (\<lambda>x. k x \<notin> set del \<union> D) xs" by (simp add: conj_commute)
  ultimately show ?thesis using how_many_delete_other [OF d other] by simp
qed

text \<open>What one kind adds and deletes.\<close>

definition fresh_guest :: "ident \<Rightarrow> bool \<Rightarrow> person \<Rightarrow> bool" where
  "fresh_guest pid adult q \<longleftrightarrow> pe_party q = pid \<and> pe_adult q = adult \<and> \<not> pe_primary q \<and> \<not> pe_edited q \<and> pe_present q"

definition unnamed_ids :: "bool \<Rightarrow> person list \<Rightarrow> ident set" where
  "unnamed_ids adult qs = pe_id ` {q \<in> set qs. pe_adult q = adult \<and> \<not> pe_primary q \<and> \<not> pe_edited q}"

lemma reconcile_kind_facts:
  assumes rk: "reconcile_kind e k pid adult target n qs = Inr (add, del)" and d: "distinct (map pe_id qs)"
  shows "int (length add) - int (length del) = target - how_many (\<lambda>q. pe_adult q = adult) qs"
    "q \<in> set add \<Longrightarrow> fresh_guest pid adult q" "distinct del" "set del \<subseteq> unnamed_ids adult qs"
    "map pe_name add = map (\<lambda>i. guest_name (n + int i)) [0..<length add]"
proof -
  let ?g = "filter (\<lambda>q. pe_adult q = adult) qs"
  have g: "how_many (\<lambda>q. pe_adult q = adult) qs = int (length ?g)" by (simp add: how_many_def)
  have r: "set (removable ?g) = {q \<in> set qs. pe_adult q = adult \<and> \<not> pe_primary q \<and> \<not> pe_edited q}"
    by (auto simp: removable_def)
  have "distinct (map pe_id (filter (\<lambda>q. \<not> pe_primary q \<and> \<not> pe_edited q) ?g))"
    using d by (simp add: distinct_map_filter)
  then have dr: "distinct (map pe_id (removable ?g))" unfolding removable_def distinct_map by simp
  have "int (length add) - int (length del) = target - how_many (\<lambda>q. pe_adult q = adult) qs
     \<and> (\<forall>q\<in>set add. fresh_guest pid adult q) \<and> distinct del \<and> set del \<subseteq> unnamed_ids adult qs
     \<and> map pe_name add = map (\<lambda>i. guest_name (n + int i)) [0..<length add]"
  proof (cases "0 < target - int (length ?g)")
    case True
    then have "add = map (\<lambda>i. placeholder (he_id e (k + i)) pid adult (n + int i)) [0..<nat (target - int (length ?g))]" "del = []"
      using rk by (auto simp: reconcile_kind_def Let_def)
    with True g show ?thesis by (auto simp: fresh_guest_def placeholder_def o_def)
  next
    case False
    show ?thesis
    proof (cases "target - int (length ?g) < 0")
      case True
      then have a: "add = []" "del = map pe_id (take (nat (- (target - int (length ?g)))) (removable ?g))"
        "\<not> int (length (removable ?g)) < - (target - int (length ?g))"
        using rk False by (auto simp: reconcile_kind_def Let_def split: if_splits)
      have "set del \<subseteq> unnamed_ids adult qs"
        unfolding a(2) unnamed_ids_def r [symmetric] by (auto dest: in_set_takeD)
      moreover have "distinct del" unfolding a(2) take_map [symmetric] using dr by (rule distinct_take)
      moreover have "nat (- (target - int (length ?g))) \<le> length (removable ?g)" using a(3) by linarith
      then have "int (length del) = - (target - int (length ?g))" using a(2) True by (simp add: min_absorb2)
      ultimately show ?thesis using a(1) g by simp
    next
      case eq: False
      then have "add = []" "del = []" using rk False by (auto simp: reconcile_kind_def Let_def split: if_splits)
      with eq False g show ?thesis by simp
    qed
  qed
  then show "int (length add) - int (length del) = target - how_many (\<lambda>q. pe_adult q = adult) qs"
    "q \<in> set add \<Longrightarrow> fresh_guest pid adult q" "distinct del" "set del \<subseteq> unnamed_ids adult qs"
    "map pe_name add = map (\<lambda>i. guest_name (n + int i)) [0..<length add]"
    by blast+
qed

text \<open>A reconciled party: the persons deleted are unnamed, those added carry fresh numbers.\<close>

definition reconciled :: "party \<Rightarrow> person list \<Rightarrow> person list \<Rightarrow> bool" where
  "reconciled p qs qs' \<longleftrightarrow>
     (\<exists>add1 add2 del1 del2. qs' = filter (\<lambda>q. pe_id q \<notin> set del1 \<union> set del2) qs @ add1 @ add2
        \<and> distinct (map pe_id qs') \<and> distinct del1 \<and> distinct del2
        \<and> set del1 \<subseteq> unnamed_ids True (filter (\<lambda>q. pe_party q = pt_id p) qs)
        \<and> set del2 \<subseteq> unnamed_ids False (filter (\<lambda>q. pe_party q = pt_id p) qs)
        \<and> list_all (fresh_guest (pt_id p) True) add1 \<and> list_all (fresh_guest (pt_id p) False) add2
        \<and> map pe_name (add1 @ add2) = map (\<lambda>i. guest_name (next_guest_number (filter (\<lambda>q. pe_party q = pt_id p) qs) + int i))
            [0..<length (add1 @ add2)]
        \<and> int (length add1) - int (length del1) = pt_adults p - how_many (\<lambda>q. pe_party q = pt_id p \<and> pe_adult q) qs
        \<and> int (length add2) - int (length del2) = pt_children p - how_many (\<lambda>q. pe_party q = pt_id p \<and> \<not> pe_adult q) qs)"

lemma reconcile_party_cases:
  assumes rec: "reconcile_party e p h = Inr h'" and d: "distinct (map pe_id (ha_persons h))"
  shows "reconciled p (ha_persons h) (ha_persons h') \<and> h' = h\<lparr>ha_persons := ha_persons h'\<rparr>"
proof -
  let ?qs = "persons_in h (pt_id p)" and ?n = "next_guest_number (persons_in h (pt_id p))"
  from rec obtain add1 del1 add2 del2 where
    k1: "reconcile_kind e 0 (pt_id p) True (pt_adults p) ?n ?qs = Inr (add1, del1)"
    and k2: "reconcile_kind e (length add1) (pt_id p) False (pt_children p) (?n + int (length add1)) ?qs = Inr (add2, del2)"
    and add: "add_persons (add1 @ add2) (h\<lparr>ha_persons := filter (\<lambda>q. pe_id q \<notin> set (del1 @ del2)) (ha_persons h)\<rparr>) = Inr h'"
    unfolding reconcile_party_def Let_def by (auto simp: bindE_eq_Inr split: prod.splits)
  have dq: "distinct (map pe_id ?qs)" using d by (simp add: persons_in_def distinct_map_filter)
  note f1 = reconcile_kind_facts [OF k1 dq] and f2 = reconcile_kind_facts [OF k2 dq]
  have h': "h' = h\<lparr>ha_persons := filter (\<lambda>q. pe_id q \<notin> set del1 \<union> set del2) (ha_persons h) @ add1 @ add2\<rparr>"
    and dd: "distinct (map pe_id (add1 @ add2))" "pe_id ` set (add1 @ add2) \<inter> pe_id ` set (filter (\<lambda>q. pe_id q \<notin> set del1 \<union> set del2) (ha_persons h)) = {}"
    using add by (auto simp: add_persons_cases)
  have "distinct (map pe_id (filter (\<lambda>q. pe_id q \<notin> set del1 \<union> set del2) (ha_persons h)))"
    using d by (rule distinct_map_filter)
  with dd have "distinct (map pe_id (ha_persons h'))" unfolding h' by (simp add: Int_commute Int_Un_distrib image_Un)
  moreover have "map pe_name (add1 @ add2) = map (\<lambda>i. guest_name (?n + int i)) [0..<length (add1 @ add2)]"
  proof -
    have "map (\<lambda>i. guest_name (?n + int i)) [0..<length (add1 @ add2)] =
        map (\<lambda>i. guest_name (?n + int i)) [0..<length add1] @ map (\<lambda>i. guest_name (?n + int i)) [length add1..<length add1 + length add2]"
      using upt_add_eq_append [of 0 "length add1" "length add2"] by (simp only: length_append map_append le0 simp_thms)
    also have "map (\<lambda>i. guest_name (?n + int i)) [length add1..<length add1 + length add2] =
        map (\<lambda>i. guest_name (?n + int (length add1) + int i)) [0..<length add2]"
      by (rule nth_equalityI) (auto simp: ac_simps)
    finally show ?thesis using f1(5) f2(5) by simp
  qed
  moreover have "how_many (\<lambda>q. pe_adult q = b) ?qs = how_many (\<lambda>q. pe_party q = pt_id p \<and> pe_adult q = b) (ha_persons h)" for b
    by (simp add: persons_in_def how_many_filter)
  from this [of True] this [of False] have "int (length add1) - int (length del1) = pt_adults p - how_many (\<lambda>q. pe_party q = pt_id p \<and> pe_adult q) (ha_persons h)"
    "int (length add2) - int (length del2) = pt_children p - how_many (\<lambda>q. pe_party q = pt_id p \<and> \<not> pe_adult q) (ha_persons h)"
    using f1(1) f2(1) by simp_all
  ultimately have "reconciled p (ha_persons h) (ha_persons h')"
    using f1(2-4) f2(2-4) unfolding reconciled_def persons_in_def
    by (intro exI [of _ add1] exI [of _ add2] exI [of _ del1] exI [of _ del2]) (simp add: h' list_all_iff)
  then show ?thesis by (simp add: h')
qed

lemma unnamed_in_party:
  assumes d: "distinct (map pe_id qs)" and D: "D \<subseteq> unnamed_ids adult (filter (\<lambda>q. pe_party q = pid) qs)"
    and q: "q \<in> set qs" "pe_id q \<in> D"
  shows "pe_party q = pid \<and> pe_adult q = adult \<and> \<not> pe_primary q \<and> \<not> pe_edited q"
proof -
  obtain y where y: "y \<in> set qs" "pe_party y = pid" "pe_adult y = adult" "\<not> pe_primary y" "\<not> pe_edited y" "pe_id y = pe_id q"
    using D q(2) by (auto simp: unnamed_ids_def)
  then have "y = q" using distinct_key_eq [OF d] q(1) by blast
  with y show ?thesis by simp
qed

lemma reconciled_count:
  assumes rec: "reconciled p qs qs'" and d: "distinct (map pe_id qs)"
  shows "how_many (\<lambda>q. pe_party q = pt_id p \<and> pe_adult q) qs' = pt_adults p"
    "how_many (\<lambda>q. pe_party q = pt_id p \<and> \<not> pe_adult q) qs' = pt_children p"
    "i \<noteq> pt_id p \<Longrightarrow> filter (\<lambda>q. pe_party q = i) qs' = filter (\<lambda>q. pe_party q = i) qs"
    "q \<in> set qs' \<Longrightarrow> pe_party q = pt_id p \<or> q \<in> set qs"
    "q \<in> set qs \<Longrightarrow> pe_party q \<noteq> pt_id p \<or> pe_primary q \<or> pe_edited q \<Longrightarrow> q \<in> set qs'"
proof -
  let ?in = "filter (\<lambda>q. pe_party q = pt_id p) qs"
  from rec obtain add1 add2 del1 del2 where
    qs': "qs' = filter (\<lambda>q. pe_id q \<notin> set del1 \<union> set del2) qs @ add1 @ add2"
    and dd: "distinct del1" "distinct del2" and D: "set del1 \<subseteq> unnamed_ids True ?in" "set del2 \<subseteq> unnamed_ids False ?in"
    and add: "list_all (fresh_guest (pt_id p) True) add1" "list_all (fresh_guest (pt_id p) False) add2"
    and n: "int (length add1) - int (length del1) = pt_adults p - how_many (\<lambda>q. pe_party q = pt_id p \<and> pe_adult q) qs"
      "int (length add2) - int (length del2) = pt_children p - how_many (\<lambda>q. pe_party q = pt_id p \<and> \<not> pe_adult q) qs"
    unfolding reconciled_def by blast
  have a: "fresh_guest (pt_id p) True x" if "x \<in> set add1" for x using add(1) that by (simp add: list_all_iff)
  have b: "fresh_guest (pt_id p) False x" if "x \<in> set add2" for x using add(2) that by (simp add: list_all_iff)
  have sub: "set del1 \<subseteq> pe_id ` {x \<in> set qs. pe_party x = pt_id p \<and> pe_adult x}"
    "set del2 \<subseteq> pe_id ` {x \<in> set qs. pe_party x = pt_id p \<and> \<not> pe_adult x}"
    "set del2 \<subseteq> pe_id ` {x \<in> set qs. \<not> (pe_party x = pt_id p \<and> pe_adult x)}"
    "set del1 \<subseteq> pe_id ` {x \<in> set qs. \<not> (pe_party x = pt_id p \<and> \<not> pe_adult x)}"
    using D unfolding unnamed_ids_def by auto
  have c: "how_many (\<lambda>q. pe_party q = pt_id p \<and> pe_adult q) add1 = int (length add1)"
    "how_many (\<lambda>q. pe_party q = pt_id p \<and> pe_adult q) add2 = 0"
    "how_many (\<lambda>q. pe_party q = pt_id p \<and> \<not> pe_adult q) add1 = 0"
    "how_many (\<lambda>q. pe_party q = pt_id p \<and> \<not> pe_adult q) add2 = int (length add2)"
    using a b by (auto simp: fresh_guest_def intro!: how_many_all how_many_none)
  show "how_many (\<lambda>q. pe_party q = pt_id p \<and> pe_adult q) qs' = pt_adults p"
    using how_many_delete_two [OF d dd(1) sub(1,3)] n(1) c unfolding qs' by simp
  show "how_many (\<lambda>q. pe_party q = pt_id p \<and> \<not> pe_adult q) qs' = pt_children p"
    using how_many_delete_two [OF d dd(2) sub(2,4)] n(2) c unfolding qs' by (simp add: conj_commute)
  have kept: "pe_id x \<notin> set del1 \<union> set del2" if "x \<in> set qs" "pe_party x \<noteq> pt_id p \<or> pe_primary x \<or> pe_edited x" for x
    using unnamed_in_party [OF d D(1) that(1)] unnamed_in_party [OF d D(2) that(1)] that(2) by blast
  show "filter (\<lambda>q. pe_party q = i) qs' = filter (\<lambda>q. pe_party q = i) qs" if i: "i \<noteq> pt_id p"
  proof -
    have none: "filter (\<lambda>q. pe_party q = i) add1 = []" "filter (\<lambda>q. pe_party q = i) add2 = []"
      using a b i by (auto simp: fresh_guest_def filter_empty_conv)
    have "(pe_id x \<notin> set del1 \<union> set del2 \<and> pe_party x = i) = (pe_party x = i)" if "x \<in> set qs" for x
      using kept that i by blast
    then have "filter (\<lambda>x. pe_id x \<notin> set del1 \<union> set del2 \<and> pe_party x = i) qs = filter (\<lambda>x. pe_party x = i) qs"
      by (intro filter_cong) auto
    then show ?thesis unfolding qs' by (simp add: none conj_commute)
  qed
  show "pe_party q = pt_id p \<or> q \<in> set qs" if "q \<in> set qs'"
    using that a b unfolding qs' by (auto simp: fresh_guest_def)
  show "q \<in> set qs'" if "q \<in> set qs" "pe_party q \<noteq> pt_id p \<or> pe_primary q \<or> pe_edited q"
    using kept [OF that] that(1) unfolding qs' by simp
qed

lemma write_party_cases:
  assumes w: "write_party e pid d h = Inr h'" and ok: "hall_ok h"
  obtains p where "p \<in> set (ha_parties h)" "pt_id p = pid"
    "ha_parties h' = map (\<lambda>x. if pt_id x = pid then patch_party d x else x) (ha_parties h)"
    "ha_events h' = ha_events h" "ha_meals h' = ha_meals h"
    "pd_adults d = None \<and> pd_children d = None \<and> ha_persons h' = ha_persons h
       \<or> reconciled (patch_party d p) (ha_persons h) (ha_persons h')"
proof -
  from w obtain p where p: "find (\<lambda>p. pt_id p = pid) (ha_parties h) = Some p"
    and r: "(if pd_adults d = None \<and> pd_children d = None
        then Inr (h\<lparr>ha_parties := map (\<lambda>x. if pt_id x = pid then patch_party d x else x) (ha_parties h)\<rparr>)
        else reconcile_party e (patch_party d p)
               (h\<lparr>ha_parties := map (\<lambda>x. if pt_id x = pid then patch_party d x else x) (ha_parties h)\<rparr>)) = Inr h'"
    unfolding write_party_def Let_def bindE_eq_Inr by auto
  have m: "p \<in> set (ha_parties h)" "pt_id p = pid" using p by (auto dest: find_SomeD)
  show thesis
  proof (cases "pd_adults d = None \<and> pd_children d = None")
    case True
    with r have "h' = h\<lparr>ha_parties := map (\<lambda>x. if pt_id x = pid then patch_party d x else x) (ha_parties h)\<rparr>" by simp
    then show thesis by (intro that [OF m]) (use True in simp_all)
  next
    case False
    let ?h1 = "h\<lparr>ha_parties := map (\<lambda>x. if pt_id x = pid then patch_party d x else x) (ha_parties h)\<rparr>"
    from r have "reconcile_party e (patch_party d p) ?h1 = Inr h'" unfolding if_not_P [OF False] .
    from reconcile_party_cases [OF this] ok have c: "reconciled (patch_party d p) (ha_persons h) (ha_persons h')"
      "h' = ?h1\<lparr>ha_persons := ha_persons h'\<rparr>"
      by (auto simp: hall_ok_def tables_ok_def)
    show thesis by (intro that [OF m]) (use c(1) in \<open>simp_all add: c(2) [THEN arg_cong [where f = ha_parties]]
        c(2) [THEN arg_cong [where f = ha_events]] c(2) [THEN arg_cong [where f = ha_meals]]\<close>)
  qed
qed

lemma patch_party_keys [simp]:
  "pt_id (patch_party d p) = pt_id p" "pt_event (patch_party d p) = pt_event p" "pt_device (patch_party d p) = pt_device p"
  by (simp_all add: patch_party_def)

lemma same_device_patch [simp]:
  "same_device (patch_party d p) q = same_device p q" "same_device p (patch_party d q) = same_device p q"
  by (simp_all add: same_device_def)

lemma write_party_ok:
  assumes w: "write_party e pid d h = Inr h'" and ok: "hall_ok h"
  shows "hall_ok h'"
proof -
  from w ok obtain p where p: "p \<in> set (ha_parties h)" "pt_id p = pid"
    and ps: "ha_parties h' = map (\<lambda>x. if pt_id x = pid then patch_party d x else x) (ha_parties h)"
    and frame: "ha_events h' = ha_events h" "ha_meals h' = ha_meals h"
    and qs: "pd_adults d = None \<and> pd_children d = None \<and> ha_persons h' = ha_persons h
       \<or> reconciled (patch_party d p) (ha_persons h) (ha_persons h')"
    by (rule write_party_cases)
  have t: "tables_ok (ha_parties h) (ha_persons h)" using ok by (simp add: hall_ok_def)
  note td = tables_okD [OF t]
  let ?f = "\<lambda>x. if pt_id x = pid then patch_party d x else x"
  have same: "x = p" if "x \<in> set (ha_parties h)" "pt_id x = pid" for x using td(6) [OF that(1) p(1)] that(2) p(2) by simp
  have ids: "map pt_id (ha_parties h') = map pt_id (ha_parties h)" unfolding ps by simp
  have apart: "apart same_device pt_id (ha_parties h')"
    unfolding ps by (rule apart_map [OF td(5)]) (simp_all split: if_splits)
  have "tables_ok (ha_parties h') (ha_persons h')"
    using qs
  proof
    assume none: "pd_adults d = None \<and> pd_children d = None \<and> ha_persons h' = ha_persons h"
    then have "party_ok (ha_persons h') (?f x)" if "x \<in> set (ha_parties h)" for x
      using td(3) [OF that] by (auto simp: party_ok_def patch_party_def)
    then have "list_all (party_ok (ha_persons h')) (ha_parties h')" unfolding ps list_all_iff list.set_map by blast
    then show ?thesis using t none ids apart unfolding tables_ok_def list_all_iff by (metis list.set_map)
  next
    assume rec: "reconciled (patch_party d p) (ha_persons h) (ha_persons h')"
    note rc = reconciled_count [OF rec td(2), simplified p(2) patch_party_keys]
    have d': "distinct (map pe_id (ha_persons h'))" using rec unfolding reconciled_def by blast
    have mine: "party_ok (ha_persons h') (patch_party d p)"
    proof -
      obtain q where q: "q \<in> set (ha_persons h)" "pe_party q = pid" "pe_primary q" "pe_adult q"
        using td(3) [OF p(1)] p(2) by (auto simp: party_ok_def)
      have "q \<in> set (ha_persons h')" by (rule rc(5) [OF q(1)]) (use q(3) in simp)
      with rc(1,2) q(2-4) show ?thesis by (auto simp: party_ok_def p(2))
    qed
    have "party_ok (ha_persons h') (?f x)" if x: "x \<in> set (ha_parties h)" for x
    proof (cases "pt_id x = pid")
      case True
      then show ?thesis using same [OF x] mine by simp
    next
      case False
      have eq: "how_many (\<lambda>q. pe_party q = pt_id x \<and> R q) (ha_persons h') = how_many (\<lambda>q. pe_party q = pt_id x \<and> R q) (ha_persons h)" for R
        using rc(3) [OF False] unfolding how_many_filter [symmetric] by simp
      obtain q where q: "q \<in> set (ha_persons h)" "pe_party q = pt_id x" "pe_primary q" "pe_adult q"
        using td(3) [OF x] by (auto simp: party_ok_def)
      have "q \<in> set (ha_persons h')" using rc(5) q(1,2) False by simp
      then show ?thesis using td(3) [OF x] q(2-4) False by (auto simp: party_ok_def eq)
    qed
    then have "list_all (party_ok (ha_persons h')) (ha_parties h')" unfolding ps list_all_iff list.set_map by blast
    moreover have "pe_party q \<in> pt_id ` set (ha_parties h')" if "q \<in> set (ha_persons h')" for q
    proof -
      have "pe_party q \<in> pt_id ` set (ha_parties h)" using rc(4) [OF that] td(4) [of q] p by auto
      then show ?thesis using ids by (metis list.set_map)
    qed
    ultimately show ?thesis using td(1) d' ids apart unfolding tables_ok_def list_all_iff by simp
  qed
  then show ?thesis using ok by (simp add: hall_ok_def frame)
qed

section \<open>Runs\<close>

text \<open>
  One request or job, with the state a join read its event and party in.
\<close>

inductive hall_step :: "hall_env \<Rightarrow> hall \<Rightarrow> hall \<Rightarrow> hall \<Rightarrow> bool" where
  create: "create_event e admin org role dto h = Inr h' \<Longrightarrow> hall_step e seen h h'"
| update: "update_event i org role p h = Inr h' \<Longrightarrow> hall_step e seen h h'"
| close: "close_event e i org role h = Inr h' \<Longrightarrow> hall_step e seen h h'"
| archive: "archive_event e i org role h = Inr h' \<Longrightarrow> hall_step e seen h h'"
| restore: "restore_event i org role h = Inr h' \<Longrightarrow> hall_step e seen h h'"
| delete: "delete_event i org role h = Inr h' \<Longrightarrow> hall_step e seen h h'"
| meal: "create_event_meal e i org role md h = Inr h' \<Longrightarrow> hall_step e seen h h'"
| edit_meal: "update_event_meal i mt org role mp h = Inr h' \<Longrightarrow> hall_step e seen h h'"
| delete_meal: "delete_event_meal i mt org role h = Inr h' \<Longrightarrow> hall_step e seen h h'"
| join: "post_join e code name adults children device seen h = Inr (p, again, h') \<Longrightarrow> hall_step e seen h h'"
| add_party: "create_party e i org pd h = Inr h' \<Longrightarrow> hall_step e seen h h'"
| edit_party: "update_party e i pid org pd h = Inr h' \<Longrightarrow> hall_step e seen h h'"
| delete_party: "delete_party e i pid org role h = Inr h' \<Longrightarrow> hall_step e seen h h'"
| details: "update_person_details e i qid org nd h = Inr h' \<Longrightarrow> hall_step e seen h h'"
| presence: "update_person_presence e i qid org present h = Inr h' \<Longrightarrow> hall_step e seen h h'"
| stats: "get_event_stats e i org h = Inr (s, h') \<Longrightarrow> hall_step e seen h h'"
| cleanup: "h' = cleanup_expired_events e org cutoff h \<Longrightarrow> hall_step e seen h h'"
| auto_delete: "h' = clean_auto_delete_events e h \<Longrightarrow> hall_step e seen h h'"
| orphans: "h' = clean_orphaned_parties e h \<Longrightarrow> hall_step e seen h h'"

inductive_cases hall_stepE: "hall_step e seen h h'"

definition events_run :: "hall \<Rightarrow> hall \<Rightarrow> bool" where
  "events_run h h' \<longleftrightarrow> (\<exists>e seen. hall_step e seen h h')"

definition empty_hall :: hall where
  "empty_hall = \<lparr>ha_events = [], ha_meals = [], ha_parties = [], ha_persons = [], ha_stats = []\<rparr>"

lemma edit_event_cases:
  "edit_event f i org role h = Inr h' \<longleftrightarrow>
     role \<in> set event_admin_roles \<and> find_event h i org \<noteq> None \<and> h' = invalidate_stats i (set_event i f h)"
  by (auto simp: edit_event_def bindE_eq_Inr assert_event_admin_def assert_event_ownership_def)

lemma edit_event_ok:
  assumes "edit_event f i org role h = Inr h'" "hall_ok h" "\<And>v. ev_id (f v) = ev_id v \<and> fe_token (f v) = fe_token v"
  shows "hall_ok h'"
  using assms set_event_ok [OF assms(2,3)] by (auto simp: edit_event_cases set_event_def)

text \<open>A join returns the party the device has, or inserts one.\<close>

lemma join_cases:
  assumes "join_event_by_code e code name adults children device seen h = Inr (p, again, h')"
  obtains (resumed) v where "event_by_token seen code = Some v" "fe_active v" "truthy device" "again" "h' = h"
      "party_by_device seen (ev_id v) (the device) = Some p \<or> party_by_device h (ev_id v) (the device) = Some p"
  | (joined) v h1 where "event_by_token seen code = Some v" "fe_active v" "\<not> again"
      "event_status (he_now e) v = EvUpcoming"
      "insert_party e (ev_id v) name (max 1 adults) (max 0 children) device h = Inr (p, h1)"
      "h' = invalidate_stats (ev_id v) h1"
proof -
  from assms obtain v where v: "event_by_token seen code = Some v" "fe_active v"
    by (auto simp: join_event_by_code_def split: option.splits if_splits)
  show thesis
  proof (cases "if truthy device then party_by_device seen (ev_id v) (the device) else None")
    case (Some q)
    then have t: "truthy device" "party_by_device seen (ev_id v) (the device) = Some q" by (auto split: if_splits)
    then have "p = q" "again" "h' = h" using assms v by (simp_all add: join_event_by_code_def)
    with t v show thesis by (intro resumed) auto
  next
    case None
    then have up: "event_status (he_now e) v = EvUpcoming" using assms v
      by (auto simp: join_event_by_code_def split: if_splits)
    show thesis
    proof (cases "insert_party e (ev_id v) name (max 1 adults) (max 0 children) device h")
      case (Inr r)
      then show thesis using assms v up None joined by (cases r) (auto simp: join_event_by_code_def)
    next
      case (Inl x)
      then have "truthy device \<and> party_by_device h (ev_id v) (the device) = Some p \<and> again \<and> h' = h"
        using assms v up None by (auto simp: join_event_by_code_def split: if_splits option.splits)
      with v show thesis by (intro resumed) auto
    qed
  qed
qed

lemma hall_step_ok:
  assumes "hall_step e seen h h'" and ok: "hall_ok h"
  shows "hall_ok h'"
  using assms(1)
proof cases
  case (create admin org role dto)
  with ok show ?thesis
    by (auto simp: create_event_def bindE_eq_Inr Let_def hall_ok_def split: if_splits)
next
  case (update i org role p)
  then show ?thesis unfolding update_event_def using ok by (rule edit_event_ok) (simp add: patch_event_def)
next
  case (close i org role)
  then show ?thesis unfolding close_event_def using ok by (rule edit_event_ok) simp
next
  case (archive i org role)
  then show ?thesis unfolding archive_event_def using ok by (rule edit_event_ok) simp
next
  case (restore i org role)
  then show ?thesis unfolding restore_event_def using ok by (rule edit_event_ok) simp
next
  case (delete i org role)
  with ok show ?thesis by (auto simp: delete_event_def bindE_eq_Inr drop_events_ok)
next
  case (meal i org role md)
  with ok show ?thesis by (auto simp: create_event_meal_def bindE_eq_Inr hall_ok_def split: if_splits)
next
  case (edit_meal i mt org role mp)
  then have "ha_events h' = ha_events h" "map em_id (ha_meals h') = map em_id (ha_meals h)"
    "ha_parties h' = ha_parties h" "ha_persons h' = ha_persons h"
    by (auto simp: update_event_meal_def bindE_eq_Inr split: if_splits)
  with ok show ?thesis by (simp add: hall_ok_def)
next
  case (delete_meal i mt org role)
  with ok show ?thesis by (auto simp: delete_event_meal_def bindE_eq_Inr drop_event_meals_ok split: if_splits)
next
  case (join code name adults children device p again)
  from join [unfolded post_join_def] show ?thesis
    by (cases rule: join_cases) (use ok insert_party_ok [OF ok] in \<open>auto simp del: max.absorb1 max.absorb2\<close>)
next
  case (add_party i org pd)
  then obtain p h1 where "party_dto_ok True pd = Inr ()" "h' = invalidate_stats i h1"
    "insert_party e i (nullish (pd_name pd) []) (nullish (pd_adults pd) 1) (nullish (pd_children pd) 0) None h = Inr (p, h1)"
    by (auto simp: create_party_def bindE_eq_Inr split: prod.splits)
  with ok show ?thesis by (auto simp: party_dto_ok_def intro: insert_party_ok split: if_splits)
next
  case (edit_party i pid org pd)
  then obtain h1 where "write_party e pid pd h = Inr h1" "h' = invalidate_stats i h1"
    by (auto simp: update_party_def bindE_eq_Inr split: if_splits)
  with ok show ?thesis by (simp add: write_party_ok)
next
  case (delete_party i pid org role)
  with ok show ?thesis by (auto simp: delete_party_def bindE_eq_Inr drop_parties_ok split: if_splits)
next
  case (details i qid org nd)
  then have "h' = invalidate_stats i (set_person qid (patch_person nd) h)"
    by (auto simp: update_person_details_def bindE_eq_Inr split: if_splits)
  with ok show ?thesis by (simp add: set_person_ok patch_person_def)
next
  case (presence i qid org present)
  then have "h' = invalidate_stats i (set_person qid (\<lambda>q. q\<lparr>pe_present := present\<rparr>) h)"
    by (auto simp: update_person_presence_def bindE_eq_Inr split: if_splits)
  with ok show ?thesis by (simp add: set_person_ok)
next
  case (stats i org s)
  then have "ha_events h' = ha_events h" "ha_meals h' = ha_meals h" "ha_parties h' = ha_parties h" "ha_persons h' = ha_persons h"
    by (auto simp: get_event_stats_def bindE_eq_Inr Let_def invalidate_stats_def split: option.splits)
  with ok show ?thesis by (simp add: hall_ok_def)
next
  case (cleanup org cutoff)
  with ok show ?thesis
    by (auto simp: cleanup_expired_events_def Let_def deactivate_events_def intro!: drop_events_ok set_event_ok split: option.split)
next
  case auto_delete
  with ok show ?thesis by (simp add: clean_auto_delete_events_def deactivate_events_def set_event_ok)
next
  case orphans
  with ok show ?thesis by (simp add: clean_orphaned_parties_def drop_parties_ok)
qed

lemma events_run_ok: "hall_ok h \<Longrightarrow> events_run h h' \<Longrightarrow> hall_ok h'"
  by (auto simp: events_run_def intro: hall_step_ok)

interpretation halls: invariant_steps events_run hall_ok
  by unfold_locales (rule events_run_ok)

lemma reached_hall: "events_run\<^sup>*\<^sup>* empty_hall h \<Longrightarrow> hall_ok h"
  by (erule halls.inv_run) (simp add: hall_ok_def tables_ok_def apart_def empty_hall_def)

end
