(* ===== verification/Event_Rules.thy ===== *)
theory Event_Rules
  imports Event_Laws
begin

text \<open>
  The properties of the event system over every sequence of requests and jobs, with concrete
  inputs, and the behaviours its comments describe differently.
\<close>

section \<open>Counts\<close>

text \<open>
  (C36) In every state the server reaches, the counts of a party are the numbers of its adult and
  child persons, it has an adult primary person, and so the clean-up of parties without persons
  has nothing to remove.
\<close>

theorem party_counts_exact:
  assumes "events_run\<^sup>*\<^sup>* empty_hall h" "p \<in> set (ha_parties h)"
  shows "how_many pe_adult (persons_in h (pt_id p)) = pt_adults p
    \<and> how_many (\<lambda>q. \<not> pe_adult q) (persons_in h (pt_id p)) = pt_children p
    \<and> (\<exists>q\<in>set (persons_in h (pt_id p)). pe_primary q \<and> pe_adult q)
    \<and> clean_orphaned_parties e h = h"
proof -
  have t: "tables_ok (ha_parties h) (ha_persons h)" using reached_hall [OF assms(1)] by (simp add: hall_ok_def)
  have "persons_in h (pt_id x) \<noteq> []" if "x \<in> set (ha_parties h)" for x
    using tables_okD(3) [OF t that] by (auto simp: party_ok_def persons_in_def filter_empty_conv)
  then have "filter (\<lambda>p. \<not> (persons_in h (pt_id p) = [] \<and> pt_joined p < he_now e - 60 * 60 * 1000)) (ha_parties h) = ha_parties h"
    "filter (\<lambda>p. persons_in h (pt_id p) = [] \<and> pt_joined p < he_now e - 60 * 60 * 1000) (ha_parties h) = []"
    by (auto simp: filter_id_conv filter_empty_conv)
  then have "clean_orphaned_parties e h = h"
    unfolding clean_orphaned_parties_def drop_parties_def party_ids_def by simp
  then show ?thesis
    using tables_okD(3) [OF t assms(2)] by (auto simp: party_ok_def persons_in_def how_many_filter)
qed

lemma fresh_companion:
  assumes rec: "reconciled p qs qs'" and n: "n \<in> set qs'" "n \<notin> set qs"
  shows "\<not> pe_primary n \<and> \<not> pe_edited n \<and> guest_number (pe_name n) \<noteq> None
    \<and> pe_name n \<notin> pe_name ` set (filter (\<lambda>q. pe_party q = pt_id p) qs)"
proof -
  let ?in = "filter (\<lambda>q. pe_party q = pt_id p) qs"
  let ?n = "next_guest_number ?in"
  from rec n obtain add1 add2 where add: "n \<in> set (add1 @ add2)"
      "list_all (fresh_guest (pt_id p) True) add1" "list_all (fresh_guest (pt_id p) False) add2"
      "map pe_name (add1 @ add2) = map (\<lambda>i. guest_name (?n + int i)) [0..<length (add1 @ add2)]"
    unfolding reconciled_def by auto
  have "\<not> pe_primary n \<and> \<not> pe_edited n" using add(1-3) by (auto simp: list_all_iff fresh_guest_def)
  moreover have "pe_name n \<in> set (map pe_name (add1 @ add2))" using add(1) by (simp only: set_map image_eqI)
  then obtain k where k: "pe_name n = guest_name (?n + int k)" unfolding add(4) by auto
  then have g: "guest_number (pe_name n) = Some (?n + int k)" using next_guest_number_pos [of ?in] by simp
  have "pe_name n \<notin> pe_name ` set ?in"
  proof
    assume "pe_name n \<in> pe_name ` set ?in"
    then obtain x where "x \<in> set ?in" "guest_number (pe_name x) = Some (?n + int k)" using g by auto
    from next_guest_number_above [OF this] show False by simp
  qed
  ultimately show ?thesis using g by simp
qed

text \<open>
  (C37) Editing the counts of a party reconciles its persons, upwards and downwards: afterwards adults and children are
  those asked for, an unnamed count staying what it was; every primary or named person is still there, so whoever
  a reduction removed was an unnamed companion; a person that is new carries a placeholder name nobody
  in the party had; and no other party is touched.
\<close>

theorem count_edit_reconciles:
  assumes run: "events_run\<^sup>*\<^sup>* empty_hall h" and upd: "update_party e i pid org d h = Inr h'"
  shows "how_many pe_adult (persons_in h' pid) = nullish (pd_adults d) (how_many pe_adult (persons_in h pid))
    \<and> how_many (\<lambda>q. \<not> pe_adult q) (persons_in h' pid) = nullish (pd_children d) (how_many (\<lambda>q. \<not> pe_adult q) (persons_in h pid))
    \<and> (\<forall>q\<in>set (persons_in h pid). pe_primary q \<or> pe_edited q \<longrightarrow> q \<in> set (persons_in h' pid))
    \<and> (\<forall>n\<in>set (persons_in h' pid) - set (persons_in h pid). \<not> pe_primary n \<and> \<not> pe_edited n
          \<and> guest_number (pe_name n) \<noteq> None \<and> pe_name n \<notin> pe_name ` set (persons_in h pid))
    \<and> (\<forall>j. j \<noteq> pid \<longrightarrow> persons_in h' j = persons_in h j)"
proof -
  have ok: "hall_ok h" using run by (rule reached_hall)
  then have t: "tables_ok (ha_parties h) (ha_persons h)" by (simp add: hall_ok_def)
  then have dq: "distinct (map pe_id (ha_persons h))" by (simp add: tables_ok_def)
  from upd obtain h1 where w: "write_party e pid d h = Inr h1" and h': "h' = invalidate_stats i h1"
    by (auto simp: update_party_def bindE_eq_Inr split: if_splits)
  have pin: "persons_in h' j = persons_in h1 j" for j by (simp add: h' persons_in_def invalidate_stats_def)
  from w ok obtain p where p: "p \<in> set (ha_parties h)" "pt_id p = pid"
    and qs: "pd_adults d = None \<and> pd_children d = None \<and> ha_persons h1 = ha_persons h
       \<or> reconciled (patch_party d p) (ha_persons h) (ha_persons h1)"
    by (rule write_party_cases)
  have old: "how_many pe_adult (persons_in h pid) = pt_adults p" "how_many (\<lambda>q. \<not> pe_adult q) (persons_in h pid) = pt_children p"
    using tables_okD(3) [OF t p(1)] p(2) by (simp_all add: party_ok_def persons_in_def how_many_filter)
  from qs show ?thesis
  proof (elim disjE conjE)
    assume none: "pd_adults d = None" "pd_children d = None" "ha_persons h1 = ha_persons h"
    then have "persons_in h' j = persons_in h j" for j unfolding pin by (simp add: persons_in_def)
    then show ?thesis using none by simp
  next
    assume rec: "reconciled (patch_party d p) (ha_persons h) (ha_persons h1)"
    note rc = reconciled_count [OF rec dq, simplified p(2) patch_party_keys]
    have counts: "how_many pe_adult (persons_in h1 pid) = pt_adults (patch_party d p)"
      "how_many (\<lambda>q. \<not> pe_adult q) (persons_in h1 pid) = pt_children (patch_party d p)"
      using rc(1,2) by (simp_all add: persons_in_def how_many_filter)
    have keep: "q \<in> set (persons_in h1 pid)" if "q \<in> set (persons_in h pid)" "pe_primary q \<or> pe_edited q" for q
      using rc(5) that by (simp add: persons_in_def)
    have new: "\<not> pe_primary n \<and> \<not> pe_edited n \<and> guest_number (pe_name n) \<noteq> None \<and> pe_name n \<notin> pe_name ` set (persons_in h pid)"
      if "n \<in> set (persons_in h1 pid)" "n \<notin> set (persons_in h pid)" for n
      using fresh_companion [OF rec] that by (simp add: p(2) patch_party_keys persons_in_def)
    have patched: "pt_adults (patch_party d p) = nullish (pd_adults d) (pt_adults p)"
      "pt_children (patch_party d p) = nullish (pd_children d) (pt_children p)"
      by (simp_all add: patch_party_def)
    have others: "persons_in h1 j = persons_in h j" if "j \<noteq> pid" for j using rc(3) [OF that] by (simp only: persons_in_def)
    show ?thesis unfolding pin old counts patched
      using keep new others by (intro conjI ballI allI impI) (rule refl | blast)+
  qed
qed

section \<open>Devices\<close>

text \<open>
  (C38) A device has one party per event: whoever joins again from it is handed that party and
  nothing is written, also when the event takes no new guests any more, and also when the join
  was under way, from a state without the party, while the party was created.
\<close>

theorem device_joins_once:
  assumes run: "events_run\<^sup>*\<^sup>* empty_hall h"
    and p: "p \<in> set (ha_parties h)" "pt_event p = ev_id v" "pt_device p = Some device"
    and device: "js_trim device = device" "device \<noteq> []" "length device \<le> 80"
    and v: "v \<in> set (ha_events h)" "fe_token v = code" "fe_active v"
    and q: "q \<in> set (ha_parties h)" "pt_event q = ev_id v" "pt_device q = Some device"
    and race: "event_by_token seen code = Some v'" "ev_id v' = ev_id v" "fe_active v'"
      "event_status (he_now e) v' = EvUpcoming" "party_by_device seen (ev_id v) device = None"
  shows "q = p \<and> post_join e code name adults children (Some device) h h = Inr (p, True, h)
    \<and> post_join e code name adults children (Some device) seen h = Inr (p, True, h)"
proof -
  have ok: "hall_ok h" using run by (rule reached_hall)
  then have t: "tables_ok (ha_parties h) (ha_persons h)" by (simp add: hall_ok_def)
  have one: "x = p" if "x \<in> set (ha_parties h)" "pt_event x = ev_id v" "pt_device x = Some device" for x
  proof -
    have "same_device x p" using p that by (simp add: same_device_def)
    then have "pt_id x = pt_id p" using tables_okD(5) [OF t] that(1) p(1) by (auto simp: apart_def)
    then show ?thesis using tables_okD(6) [OF t that(1) p(1)] by simp
  qed
  obtain x where x: "party_by_device h (ev_id v) device = Some x"
    using p unfolding party_by_device_def by (cases "find (\<lambda>p. pt_event p = ev_id v \<and> pt_device p = Some device) (ha_parties h)")
      (auto simp: find_None_iff_none)
  then have found: "party_by_device h (ev_id v) device = Some p"
    using one unfolding party_by_device_def by (auto dest: find_SomeD)
  have tok: "event_by_token h code = Some v"
  proof (cases "event_by_token h code")
    case None
    with v show ?thesis by (auto simp: event_by_token_def find_None_iff_none)
  next
    case (Some u)
    then have "u \<in> set (ha_events h)" "fe_token u = fe_token v" using v by (auto simp: event_by_token_def dest: find_SomeD)
    then have "u = v" using distinct_key_eq [of fe_token "ha_events h"] ok v(1) by (auto simp: hall_ok_def)
    with Some show ?thesis by simp
  qed
  obtain u where u: "find (\<lambda>u. ev_id u = ev_id v) (ha_events h) = Some u" "ev_id u = ev_id v"
    using v(1) by (cases "find (\<lambda>u. ev_id u = ev_id v) (ha_events h)") (auto simp: find_None_iff_none dest: find_SomeD)
  have "insert_party e (ev_id v) name a c (Some device) h = Inl (Conflict ''P2002'')" for a c
    using u found device(2) by (simp add: insert_party_def new_party_def Let_def)
  then show ?thesis
    using one [OF q] tok found device v(3) race by (simp add: post_join_def join_event_by_code_def)
qed

section \<open>Locked events\<close>

text \<open>The guest data of an event; the foreign key of a selection is cleared with its meal type.\<close>

definition guest_data :: "hall \<Rightarrow> ident \<Rightarrow> party list \<times> person list" where
  "guest_data h i = (filter (\<lambda>p. pt_event p = i) (ha_parties h), map (\<lambda>q. q\<lparr>pe_meal_key := None\<rparr>) (event_persons h i))"

lemma guest_data_frame:
  "ha_parties h' = ha_parties h \<Longrightarrow> ha_persons h' = ha_persons h \<Longrightarrow> guest_data h' i = guest_data h i"
  by (simp add: guest_data_def event_persons_def party_ids_def)

lemma guest_data_invalidate [simp]: "guest_data (invalidate_stats j h) i = guest_data h i"
  by (rule guest_data_frame) (simp_all add: invalidate_stats_def)



lemma guest_data_drop:
  assumes t: "tables_ok (ha_parties h) (ha_persons h)" and P: "\<And>p. p \<in> set (ha_parties h) \<Longrightarrow> P p \<Longrightarrow> pt_event p \<noteq> i"
  shows "guest_data (drop_parties P h) i = guest_data h i"
proof -
  have ps: "filter (\<lambda>p. pt_event p = i) (filter (\<lambda>p. \<not> P p) (ha_parties h)) = filter (\<lambda>p. pt_event p = i) (ha_parties h)"
    unfolding filter_filter by (rule filter_cong) (use P in auto)
  have "pe_party q \<notin> set (party_ids P h)" if "pe_party q \<in> set (party_ids (\<lambda>p. pt_event p = i) h)" for q
    using that P tables_okD(6) [OF t] by (auto simp: party_ids_def) metis
  then have "filter (\<lambda>q. pe_party q \<in> set (party_ids (\<lambda>p. pt_event p = i) h)) (filter (\<lambda>q. pe_party q \<notin> set (party_ids P h)) (ha_persons h))
      = filter (\<lambda>q. pe_party q \<in> set (party_ids (\<lambda>p. pt_event p = i) h)) (ha_persons h)"
    unfolding filter_filter by (intro filter_cong) auto
  then show ?thesis using ps by (simp add: guest_data_def event_persons_def drop_parties_def party_ids_def del: filter_filter)
qed

lemma guest_data_drop_meals [simp]: "guest_data (drop_event_meals P h) i = guest_data h i"
proof -
  let ?f = "\<lambda>q. if pe_meal_key q \<in> Some ` em_id ` set (filter P (ha_meals h)) then q\<lparr>pe_meal_key := None\<rparr> else q"
  have "map (\<lambda>q. q\<lparr>pe_meal_key := None\<rparr>) (filter (\<lambda>q. R (pe_party q)) (map ?f qs)) =
      map (\<lambda>q. q\<lparr>pe_meal_key := None\<rparr>) (filter (\<lambda>q. R (pe_party q)) qs)" for R qs
    by (induction qs) auto
  from this [of "\<lambda>x. x \<in> set (party_ids (\<lambda>p. pt_event p = i) h)" "ha_persons h"] show ?thesis
    unfolding guest_data_def event_persons_def drop_event_meals_def party_ids_def by simp
qed

lemma guest_data_set_person:
  assumes d: "distinct (map pe_id (ha_persons h))" and q: "event_person h qid j \<noteq> None" and other: "j \<noteq> i"
    and t: "tables_ok (ha_parties h) (ha_persons h)" and f: "\<And>q. pe_party (f q) = pe_party q"
  shows "guest_data (set_person qid f h) i = guest_data h i"
proof -
  obtain x where x: "x \<in> set (ha_persons h)" "pe_id x = qid" "pe_party x \<in> set (party_ids (\<lambda>p. pt_event p = j) h)"
    using q unfolding event_person_def event_persons_def find_None_iff_none by auto
  have "pe_party x \<notin> set (party_ids (\<lambda>p. pt_event p = i) h)"
    using x(3) other tables_okD(6) [OF t] by (auto simp: party_ids_def) metis
  moreover have "y = x" if "y \<in> set (ha_persons h)" "pe_id y = qid" for y using distinct_key_eq [OF d that(1) x(1)] that(2) x(2) by simp
  ultimately have "filter (\<lambda>q. pe_party q \<in> I) (map (\<lambda>q. if pe_id q = qid then f q else q) qs) = filter (\<lambda>q. pe_party q \<in> I) qs"
    if "set qs \<subseteq> set (ha_persons h)" "I = set (party_ids (\<lambda>p. pt_event p = i) h)" for qs I
    using that f by (induction qs) auto
  then have "event_persons (set_person qid f h) i = event_persons h i"
    by (simp add: event_persons_def set_person_def party_ids_def)
  then show ?thesis by (simp add: guest_data_def) (simp add: set_person_def)
qed

lemma guest_data_write:
  assumes w: "write_party e pid d h = Inr h'" and ok: "hall_ok h" and own: "owned_party h pid j org" and other: "j \<noteq> i"
  shows "guest_data h' i = guest_data h i"
proof -
  have t: "tables_ok (ha_parties h) (ha_persons h)" using ok by (simp add: hall_ok_def)
  from w ok obtain p where p: "p \<in> set (ha_parties h)" "pt_id p = pid"
    and ps: "ha_parties h' = map (\<lambda>x. if pt_id x = pid then patch_party d x else x) (ha_parties h)"
    and qs: "pd_adults d = None \<and> pd_children d = None \<and> ha_persons h' = ha_persons h
       \<or> reconciled (patch_party d p) (ha_persons h) (ha_persons h')"
    by (rule write_party_cases)
  have j: "pt_event x = j" if "x \<in> set (ha_parties h)" "pt_id x = pid" for x
    using own tables_okD(6) [OF t that(1)] that(2) unfolding owned_party_def by metis
  have parties: "filter (\<lambda>p. pt_event p = i) (map (\<lambda>x. if pt_id x = pid then patch_party d x else x) xs) = filter (\<lambda>p. pt_event p = i) xs"
    if "set xs \<subseteq> set (ha_parties h)" for xs
    using that j other by (induction xs) auto
  let ?I = "set (party_ids (\<lambda>p. pt_event p = i) h)"
  have notin: "pid \<notin> ?I" using j other by (auto simp: party_ids_def)
  have "filter (\<lambda>q. pe_party q \<in> ?I) (ha_persons h') = filter (\<lambda>q. pe_party q \<in> ?I) (ha_persons h)"
    using qs
  proof
    assume rec: "reconciled (patch_party d p) (ha_persons h) (ha_persons h')"
    have d: "distinct (map pe_id (ha_persons h))" using t by (simp add: tables_ok_def)
    let ?in = "filter (\<lambda>q. pe_party q = pid) (ha_persons h)"
    from rec obtain add1 add2 del1 del2 where
      qs': "ha_persons h' = filter (\<lambda>q. pe_id q \<notin> set del1 \<union> set del2) (ha_persons h) @ add1 @ add2"
      and D: "set del1 \<subseteq> unnamed_ids True ?in" "set del2 \<subseteq> unnamed_ids False ?in"
      and add: "list_all (fresh_guest pid True) add1" "list_all (fresh_guest pid False) add2"
      unfolding reconciled_def patch_party_keys p(2) by blast
    have none: "filter (\<lambda>q. pe_party q \<in> ?I) add1 = []" "filter (\<lambda>q. pe_party q \<in> ?I) add2 = []"
      using add notin by (auto simp: list_all_iff fresh_guest_def filter_empty_conv)
    have "(pe_id x \<notin> set del1 \<union> set del2 \<and> pe_party x \<in> ?I) = (pe_party x \<in> ?I)" if "x \<in> set (ha_persons h)" for x
      using unnamed_in_party [OF d D(1) that] unnamed_in_party [OF d D(2) that] notin by blast
    then have "filter (\<lambda>x. pe_id x \<notin> set del1 \<union> set del2 \<and> pe_party x \<in> ?I) (ha_persons h) = filter (\<lambda>x. pe_party x \<in> ?I) (ha_persons h)"
      by (intro filter_cong) auto
    then show ?thesis unfolding qs' by (simp add: none conj_commute)
  qed simp
  then show ?thesis using parties [of "ha_parties h"] by (simp add: guest_data_def event_persons_def party_ids_def ps)
qed

lemma guest_data_insert:
  assumes ins: "insert_party e j name adults children device h = Inr (p, h')" and other: "j \<noteq> i"
    and n: "1 \<le> adults" "0 \<le> children"
  shows "guest_data h' i = guest_data h i"
proof -
  from ins obtain v where p: "pt_event p = j" "pt_id p \<notin> pt_id ` set (ha_parties h)"
    and add: "add_persons (party_persons e (pt_id p) name adults children) (h\<lparr>ha_parties := ha_parties h @ [p]\<rparr>) = Inr h'"
    by (rule insert_party_cases)
  have "pe_party q \<notin> set (party_ids (\<lambda>p. pt_event p = i) h)" if "q \<in> set (party_persons e (pt_id p) name adults children)" for q
    using party_persons_count(4) [OF n that] p(2) by (auto simp: party_ids_def)
  then have "filter (\<lambda>q. pe_party q \<in> set (party_ids (\<lambda>p. pt_event p = i) h)) (party_persons e (pt_id p) name adults children) = []"
    by (simp add: filter_empty_conv)
  then show ?thesis using add p(1) other
    by (auto simp: add_persons_cases guest_data_def event_persons_def party_ids_def)
qed

lemma find_event_unique:
  assumes "distinct (map ev_id (ha_events h))" "find_event h j org = Some w" "v \<in> set (ha_events h)" "ev_id v = j"
  shows "w = v"
  using assms distinct_key_eq [OF assms(1), of w v] by (auto simp: find_event_def dest: find_SomeD)

lemma modifiable_upcoming:
  assumes "assert_event_modifiable now h j org = Inr w" "hall_ok h" "v \<in> set (ha_events h)" "event_status now v \<noteq> EvUpcoming"
  shows "j \<noteq> ev_id v"
proof
  assume "j = ev_id v"
  from assms(1) have "find_event h j org = Some w" "event_status now w = EvUpcoming"
    by (auto simp: assert_event_modifiable_def assert_event_ownership_def bindE_eq_Inr split: if_splits)
  moreover have "w = v" using find_event_unique [OF _ calculation(1) assms(3)] assms(2) \<open>j = ev_id v\<close> by (simp add: hall_ok_def)
  ultimately show False using assms(4) by simp
qed

lemma edit_event_data: "edit_event f j org role h = Inr h' \<Longrightarrow> guest_data h' i = guest_data h i"
  by (auto simp: edit_event_cases set_event_def intro!: guest_data_frame)

lemma drop_events_data:
  assumes ok: "hall_ok h" and v: "v \<in> set (ha_events h)" and stays: "ev_id v \<in> ev_id ` set (ha_events (drop_events P h))"
  shows "guest_data (drop_events P h) (ev_id v) = guest_data h (ev_id v)"
proof -
  let ?gone = "map ev_id (filter P (ha_events h))"
  let ?h1 = "h\<lparr>ha_events := filter (\<lambda>v. \<not> P v) (ha_events h)\<rparr>"
  have "ev_id v \<notin> set ?gone"
  proof
    assume "ev_id v \<in> set ?gone"
    then obtain u where u: "u \<in> set (ha_events h)" "P u" "ev_id u = ev_id v" by auto
    from stays obtain x where x: "x \<in> set (ha_events h)" "\<not> P x" "ev_id x = ev_id v"
      by (auto simp: drop_events_def Let_def drop_event_meals_def drop_parties_def)
    have "u = x" using distinct_key_eq [of ev_id "ha_events h"] ok u x by (auto simp: hall_ok_def)
    with u x show False by simp
  qed
  moreover have "tables_ok (ha_parties ?h1) (ha_persons ?h1)" using ok by (simp add: hall_ok_def)
  ultimately have "guest_data (drop_parties (\<lambda>p. pt_event p \<in> set ?gone) ?h1) (ev_id v) = guest_data ?h1 (ev_id v)"
    by (intro guest_data_drop) auto
  moreover have "guest_data ?h1 (ev_id v) = guest_data h (ev_id v)" by (rule guest_data_frame) simp_all
  ultimately show ?thesis by (simp add: drop_events_def Let_def)
qed

lemma locked_step:
  assumes st: "hall_step e h h h'" and ok: "hall_ok h" and v: "v \<in> set (ha_events h)"
    and locked: "event_status (he_now e) v \<noteq> EvUpcoming" and stays: "ev_id v \<in> ev_id ` set (ha_events h')"
  shows "guest_data h' (ev_id v) = guest_data h (ev_id v)"
proof -
  have t: "tables_ok (ha_parties h) (ha_persons h)" using ok by (simp add: hall_ok_def)
  have dq: "distinct (map pe_id (ha_persons h))" using t by (simp add: tables_ok_def)
  note other = modifiable_upcoming [OF _ ok v locked]
  from st show ?thesis
  proof cases
    case (create admin org role dto)
    then show ?thesis by (intro guest_data_frame) (auto simp: create_event_def bindE_eq_Inr Let_def split: if_splits)
  next
    case (delete i org role)
    then have d: "h' = invalidate_stats i (drop_events (\<lambda>v. ev_id v = i \<and> ev_org v = org) h)"
      by (auto simp: delete_event_def bindE_eq_Inr)
    then have "ev_id v \<in> ev_id ` set (ha_events (drop_events (\<lambda>v. ev_id v = i \<and> ev_org v = org) h))"
      using stays by (simp add: invalidate_stats_def)
    from drop_events_data [OF ok v this] show ?thesis by (simp add: d)
  next
    case (meal i org role md)
    then show ?thesis by (intro guest_data_frame) (auto simp: create_event_meal_def bindE_eq_Inr split: if_splits)
  next
    case (edit_meal i mt org role mp)
    then show ?thesis by (intro guest_data_frame) (auto simp: update_event_meal_def bindE_eq_Inr split: if_splits)
  next
    case (delete_meal i mt org role)
    then show ?thesis by (auto simp: delete_event_meal_def bindE_eq_Inr split: if_splits)
  next
    case (join code name adults children device p again)
    from join [unfolded post_join_def] show ?thesis
    proof (cases rule: join_cases)
      case (joined w h1)
      have "w \<in> set (ha_events h)" using joined(1) by (auto simp: event_by_token_def dest: find_SomeD)
      then have "ev_id w \<noteq> ev_id v"
        using distinct_key_eq [of ev_id "ha_events h"] ok v locked joined(4) by (auto simp: hall_ok_def)
      from guest_data_insert [OF joined(5) this] joined(6) show ?thesis by simp
    qed simp
  next
    case (add_party i org pd)
    then obtain w p h1 where a: "assert_event_modifiable (he_now e) h i org = Inr w" "party_dto_ok True pd = Inr ()"
      "insert_party e i (nullish (pd_name pd) []) (nullish (pd_adults pd) 1) (nullish (pd_children pd) 0) None h = Inr (p, h1)"
      "h' = invalidate_stats i h1"
      by (auto simp: create_party_def bindE_eq_Inr split: prod.splits)
    from guest_data_insert [OF a(3) other [OF a(1)]] a(2,4) show ?thesis by (simp add: party_dto_ok_def split: if_splits)
  next
    case (edit_party i pid org pd)
    then obtain w h1 where a: "assert_event_modifiable (he_now e) h i org = Inr w" "owned_party h pid i org"
      "write_party e pid pd h = Inr h1" "h' = invalidate_stats i h1"
      by (auto simp: update_party_def bindE_eq_Inr split: if_splits)
    from guest_data_write [OF a(3) ok a(2) other [OF a(1)]] a(4) show ?thesis by simp
  next
    case (delete_party i pid org role)
    then obtain w where a: "assert_event_modifiable (he_now e) h i org = Inr w"
      "h' = invalidate_stats i (drop_parties (\<lambda>p. pt_id p = pid \<and> pt_event p = i) h)"
      by (auto simp: delete_party_def bindE_eq_Inr split: if_splits)
    have "guest_data (drop_parties (\<lambda>p. pt_id p = pid \<and> pt_event p = i) h) (ev_id v) = guest_data h (ev_id v)"
      using other [OF a(1)] by (intro guest_data_drop [OF t]) auto
    with a(2) show ?thesis by simp
  next
    case (details i qid org nd)
    then obtain w where a: "assert_event_modifiable (he_now e) h i org = Inr w" "event_person h qid i \<noteq> None"
      "h' = invalidate_stats i (set_person qid (patch_person nd) h)"
      by (auto simp: update_person_details_def bindE_eq_Inr split: if_splits)
    from guest_data_set_person [OF dq a(2) other [OF a(1)] t, of "patch_person nd"] a(3) show ?thesis by (simp add: patch_person_def)
  next
    case (presence i qid org present)
    then obtain w where a: "assert_event_modifiable (he_now e) h i org = Inr w" "event_person h qid i \<noteq> None"
      "h' = invalidate_stats i (set_person qid (\<lambda>q. q\<lparr>pe_present := present\<rparr>) h)"
      by (auto simp: update_person_presence_def bindE_eq_Inr split: if_splits)
    from guest_data_set_person [OF dq a(2) other [OF a(1)] t, of "\<lambda>q. q\<lparr>pe_present := present\<rparr>"] a(3) show ?thesis by simp
  next
    case (stats i org s)
    then show ?thesis
      by (intro guest_data_frame) (auto simp: get_event_stats_def bindE_eq_Inr Let_def invalidate_stats_def split: option.splits)
  next
    case (cleanup org cutoff)
    let ?h1 = "deactivate_events (\<lambda>v. ev_org v = org \<and> ev_auto_delete v \<and> fe_active v
                  \<and> (case ev_auto_delete_at v of None \<Rightarrow> False | Some t \<Rightarrow> t < cutoff)) h"
    have h1: "hall_ok ?h1" using ok by (simp add: deactivate_events_def set_event_ok)
    have h2: "guest_data ?h1 (ev_id v) = guest_data h (ev_id v)"
      by (rule guest_data_frame) (simp_all add: deactivate_events_def)
    have "map ev_id (ha_events ?h1) = map ev_id (ha_events h)" by (simp add: deactivate_events_def)
    then have "ev_id v \<in> set (map ev_id (ha_events ?h1))" using v by simp
    then obtain u where u: "u \<in> set (ha_events ?h1)" "ev_id u = ev_id v" unfolding set_map by (rule imageE) (rule that, assumption, erule sym)
    show ?thesis
    proof (cases "to_utc_midnight (he_org_date e org)")
      case None
      then have "h' = ?h1" unfolding cleanup cleanup_expired_events_def Let_def by (simp only: option.case)
      then show ?thesis using h2 by (simp only:)
    next
      case (Some today)
      then have d: "h' = drop_events (\<lambda>v. ev_org v = org \<and> ev_auto_delete v \<and> ev_date v < today - 7 * day_ms) ?h1"
        unfolding cleanup cleanup_expired_events_def Let_def by (simp only: option.case)
      show ?thesis using drop_events_data [OF h1 u(1)] stays h2 unfolding d u(2) by (simp only:)
    qed
  next
    case auto_delete
    then show ?thesis by (auto simp: clean_auto_delete_events_def deactivate_events_def intro: guest_data_frame)
  next
    case orphans
    have "persons_in h (pt_id p) \<noteq> []" if "p \<in> set (ha_parties h)" for p
      using tables_okD(3) [OF t that] by (auto simp: party_ok_def persons_in_def filter_empty_conv)
    then show ?thesis unfolding orphans clean_orphaned_parties_def by (intro guest_data_drop [OF t]) auto
  qed (simp_all add: update_event_def close_event_def archive_event_def restore_event_def edit_event_data)
qed

text \<open>
  A join reads the event before it writes: \<open>seen\<close> is the state it read. Every other request and
  every job reads the state it writes. A join that read the event while it took guests may
  still add its one party.
\<close>

definition saw_open :: "hall_env \<Rightarrow> ident \<Rightarrow> hall \<Rightarrow> bool" where
  "saw_open e i seen \<longleftrightarrow> (\<exists>v\<in>set (ha_events seen). ev_id v = i \<and> event_status (he_now e) v = EvUpcoming)"

lemma hall_step_read:
  "hall_step e seen h h' \<Longrightarrow> hall_step e h h h'
     \<or> (\<exists>code name adults children device p again. post_join e code name adults children device seen h = Inr (p, again, h'))"
  by (cases rule: hall_step.cases) (auto intro: hall_step.intros)

lemma guest_data_grow:
  assumes ins: "insert_party e i name adults children device h = Inr (p, h')"
    and n: "1 \<le> adults" "0 \<le> children" and t: "tables_ok (ha_parties h) (ha_persons h)"
  shows "\<exists>qs. guest_data h' i = (fst (guest_data h i) @ [p], snd (guest_data h i) @ qs)"
proof -
  from ins obtain v where p: "pt_event p = i" "pt_id p \<notin> pt_id ` set (ha_parties h)"
    and add: "add_persons (party_persons e (pt_id p) name adults children) (h\<lparr>ha_parties := ha_parties h @ [p]\<rparr>) = Inr h'"
    by (rule insert_party_cases)
  have "pe_party q \<noteq> pt_id p" if "q \<in> set (ha_persons h)" for q using tables_okD(4) [OF t that] p(2) by auto
  then have "filter (\<lambda>q. pe_party q = pt_id p \<or> pe_party q \<in> I) (ha_persons h) = filter (\<lambda>q. pe_party q \<in> I) (ha_persons h)" for I
    by (intro filter_cong) auto
  then show ?thesis using add p(1)
    by (auto simp: add_persons_cases guest_data_def event_persons_def party_ids_def)
qed

lemma locked_any_step:
  assumes st: "hall_step e seen h h'" and ok: "hall_ok h" and v: "v \<in> set (ha_events h)"
    and locked: "event_status (he_now e) v \<noteq> EvUpcoming" and stays: "ev_id v \<in> ev_id ` set (ha_events h')"
  shows "\<exists>ps qs. guest_data h' (ev_id v) = (fst (guest_data h (ev_id v)) @ ps, snd (guest_data h (ev_id v)) @ qs)
    \<and> length ps \<le> of_bool (saw_open e (ev_id v) seen) \<and> (ps = [] \<longrightarrow> qs = [])"
  using hall_step_read [OF st]
proof (elim disjE exE)
  assume "hall_step e h h h'"
  from locked_step [OF this ok v locked stays] show ?thesis by (intro exI [of _ "[]"]) simp
next
  fix code name adults children device p again
  assume join: "post_join e code name adults children device seen h = Inr (p, again, h')"
  from join [unfolded post_join_def] show ?thesis
  proof (cases rule: join_cases)
    case (resumed w)
    then show ?thesis by (intro exI [of _ "[]"]) simp
  next
    case (joined w h1)
    have n: "1 \<le> max 1 (nullish adults 1)" "0 \<le> max 0 (nullish children 0)" for adults children :: "int option" by simp_all
    show ?thesis
    proof (cases "ev_id w = ev_id v")
      case False
      from guest_data_insert [OF joined(5) False n] joined(6) show ?thesis by (intro exI [of _ "[]"]) simp
    next
      case True
      have "w \<in> set (ha_events seen)" using joined(1) by (auto simp: event_by_token_def dest: find_SomeD)
      then have s: "saw_open e (ev_id v) seen" using True joined(4) by (auto simp: saw_open_def)
      have "tables_ok (ha_parties h) (ha_persons h)" using ok by (simp add: hall_ok_def)
      from guest_data_grow [OF joined(5) n this] obtain qs
        where "guest_data h' (ev_id v) = (fst (guest_data h (ev_id v)) @ [p], snd (guest_data h (ev_id v)) @ qs)"
        using True joined(6) by auto
      then show ?thesis using s by (intro exI [of _ "[p]"] exI [of _ qs]) simp
    qed
  qed
qed

text \<open>
  A run while the event \<open>i\<close> is there and takes no changes at the instant of any step; the
  number counts the steps whose read saw it open.
\<close>

inductive locked_run :: "ident \<Rightarrow> hall \<Rightarrow> nat \<Rightarrow> hall \<Rightarrow> bool" for i h where
  start: "locked_run i h 0 h"
| step: "locked_run i h n s \<Longrightarrow> hall_step e seen s s' \<Longrightarrow> v \<in> set (ha_events s) \<Longrightarrow> ev_id v = i
    \<Longrightarrow> event_status (he_now e) v \<noteq> EvUpcoming \<Longrightarrow> i \<in> ev_id ` set (ha_events s')
    \<Longrightarrow> locked_run i h (n + of_bool (saw_open e i seen)) s'"

lemma locked_run_grows:
  assumes "locked_run i h n h'" "hall_ok h"
  shows "hall_ok h' \<and> (\<exists>ps qs. guest_data h' i = (fst (guest_data h i) @ ps, snd (guest_data h i) @ qs)
    \<and> length ps \<le> n \<and> (ps = [] \<longrightarrow> qs = []))"
  using assms
proof (induction rule: locked_run.induct)
  case start
  then show ?case by (auto intro!: exI [of _ "[]"])
next
  case (step n s e seen s' v)
  then have ok: "hall_ok s" by simp
  from step obtain ps qs where 1: "guest_data s i = (fst (guest_data h i) @ ps, snd (guest_data h i) @ qs)"
    "length ps \<le> n" "ps = [] \<longrightarrow> qs = []" by auto
  from locked_any_step [OF step.hyps(2) ok step.hyps(3,5)] step.hyps(4,6) obtain ps' qs' where
    2: "guest_data s' i = (fst (guest_data s i) @ ps', snd (guest_data s i) @ qs')"
    "length ps' \<le> of_bool (saw_open e i seen)" "ps' = [] \<longrightarrow> qs' = []" by auto
  have "hall_ok s'" using hall_step_ok [OF step.hyps(2) ok] .
  moreover have "guest_data s' i = (fst (guest_data h i) @ (ps @ ps'), snd (guest_data h i) @ (qs @ qs'))" using 1(1) 2(1) by simp
  moreover have "length (ps @ ps') \<le> n + of_bool (saw_open e i seen)" using 1(2) 2(2) by simp
  moreover have "ps @ ps' = [] \<longrightarrow> qs @ qs' = []" using 1(3) 2(3) by simp
  ultimately show ?case by blast
qed

text \<open>
  (C39) While an event is closed, expired or archived, its guest data is only ever appended to, and only by late
  joins: as long as the event exists, its parties and persons stay exactly as they were (the foreign key
  column of a selection apart, which follows its meal type), followed by at most one new party per join that had
  read the event while it still took guests. Without such a join nothing changes, whatever other
  requests and jobs run. Admin requests are taken one at a time.
\<close>

theorem locked_event_frozen:
  assumes "events_run\<^sup>*\<^sup>* empty_hall h" and "locked_run i h n h'"
  shows "\<exists>ps qs. filter (\<lambda>p. pt_event p = i) (ha_parties h') = filter (\<lambda>p. pt_event p = i) (ha_parties h) @ ps
    \<and> map (\<lambda>q. q\<lparr>pe_meal_key := None\<rparr>) (event_persons h' i) = map (\<lambda>q. q\<lparr>pe_meal_key := None\<rparr>) (event_persons h i) @ qs
    \<and> length ps \<le> n \<and> (ps = [] \<longrightarrow> qs = [])"
  using locked_run_grows [OF assms(2) reached_hall [OF assms(1)]] by (auto simp: guest_data_def)

section \<open>Statistics\<close>

lemma how_many_disjoint:
  "(\<And>x. x \<in> set xs \<Longrightarrow> \<not> (P x \<and> Q x)) \<Longrightarrow> how_many (\<lambda>x. P x \<or> Q x) xs = how_many P xs + how_many Q xs"
  by (induction xs) auto

lemma how_many_keys:
  assumes "distinct (map k ps)"
  shows "how_many (\<lambda>q. g q \<in> k ` set ps \<and> R q) qs = (\<Sum>p\<leftarrow>ps. how_many (\<lambda>q. g q = k p \<and> R q) qs)"
  using assms
proof (induction ps)
  case (Cons p ps)
  have "how_many (\<lambda>q. g q \<in> k ` set (p # ps) \<and> R q) qs = how_many (\<lambda>q. (g q = k p \<and> R q) \<or> (g q \<in> k ` set ps \<and> R q)) qs"
    by (rule how_many_cong) auto
  also have "\<dots> = how_many (\<lambda>q. g q = k p \<and> R q) qs + how_many (\<lambda>q. g q \<in> k ` set ps \<and> R q) qs"
    by (rule how_many_disjoint) (use Cons.prems in auto)
  finally show ?case using Cons by simp
qed (simp add: how_many_none)

lemma get0_count_meals:
  "get0 (count_meals qs m) k = get0 m k + how_many (\<lambda>q. truthy (pe_meal q) \<and> the (pe_meal q) = k) qs"
  by (induction qs m rule: count_meals.induct) auto

lemma how_many_four:
  "(\<And>x. x \<in> set xs \<Longrightarrow> of_bool (A x) + of_bool (B x) + of_bool (C x) + of_bool (D x) = (1 :: int))
     \<Longrightarrow> int (length xs) = how_many A xs + how_many B xs + how_many C xs + how_many D xs"
proof (induction xs)
  case (Cons a xs)
  then have "int (length xs) = how_many A xs + how_many B xs + how_many C xs + how_many D xs" by simp
  with Cons.prems [of a] show ?case by (simp add: of_bool_def)
qed simp

text \<open>
  (C40) The statistics of an event add up: adults and children are the sums of the counts of its
  parties, the total is both together, and every attending guest is counted once, as vegetarian,
  as non-vegetarian, as pending, or as one whose selected meal type is not of the event; the
  breakdown by meal type counts the attending guests that selected one of the event's types.
\<close>

theorem event_stats_add_up:
  assumes "events_run\<^sup>*\<^sup>* empty_hall h"
  shows "es_adults (compute_event_stats h i) = (\<Sum>p\<leftarrow>filter (\<lambda>p. pt_event p = i) (ha_parties h). pt_adults p)
    \<and> es_children (compute_event_stats h i) = (\<Sum>p\<leftarrow>filter (\<lambda>p. pt_event p = i) (ha_parties h). pt_children p)
    \<and> es_total (compute_event_stats h i) = es_adults (compute_event_stats h i) + es_children (compute_event_stats h i)
    \<and> es_present (compute_event_stats h i) = es_veg (compute_event_stats h i) + es_nonveg (compute_event_stats h i)
        + es_pending (compute_event_stats h i)
        + how_many (\<lambda>q. pe_present q \<and> truthy (pe_meal q) \<and> the (pe_meal q) \<notin> em_id ` {m \<in> set (ha_meals h). em_event m = i})
            (event_persons h i)
    \<and> (\<Sum>b\<leftarrow>es_breakdown (compute_event_stats h i). snd (snd b))
        = how_many (\<lambda>q. pe_present q \<and> truthy (pe_meal q) \<and> the (pe_meal q) \<in> em_id ` {m \<in> set (ha_meals h). em_event m = i})
            (event_persons h i)"
proof -
  have ok: "hall_ok h" using assms by (rule reached_hall)
  then have t: "tables_ok (ha_parties h) (ha_persons h)" and dm: "distinct (map em_id (ha_meals h))" by (simp_all add: hall_ok_def)
  let ?ps = "filter (\<lambda>p. pt_event p = i) (ha_parties h)" and ?qs = "event_persons h i"
  let ?ms = "filter (\<lambda>m. em_event m = i) (ha_meals h)" and ?att = "filter pe_present (event_persons h i)"
  let ?s = "compute_event_stats h i"
  have dp: "distinct (map pt_id ?ps)" using tables_okD(1) [OF t] by (rule distinct_map_filter)
  have ev: "how_many R ?qs = (\<Sum>p\<leftarrow>?ps. how_many (\<lambda>q. pe_party q = pt_id p \<and> R q) (ha_persons h))" for R
    using how_many_keys [OF dp, of pe_party R "ha_persons h"]
    by (simp add: event_persons_def party_ids_def how_many_filter)
  have ad: "es_adults ?s = (\<Sum>p\<leftarrow>?ps. pt_adults p)" "es_children ?s = (\<Sum>p\<leftarrow>?ps. pt_children p)"
    using tables_okD(3) [OF t]
    by (auto simp: compute_event_stats_def Let_def ev party_ok_def intro!: arg_cong [where f = sum_list] map_cong)
  have tot: "es_total ?s = es_adults ?s + es_children ?s"
    using how_many_disjoint [of ?qs pe_adult "\<lambda>q. \<not> pe_adult q"] how_many_all [of ?qs "\<lambda>q. pe_adult q \<or> \<not> pe_adult q"]
    by (simp add: compute_event_stats_def Let_def)
  have kinds: "em_id ` set ?ms = set (meal_kinds h i True) \<union> set (meal_kinds h i False)" by (auto simp: meal_kinds_def)
  have apart: "set (meal_kinds h i True) \<inter> set (meal_kinds h i False) = {}"
    using distinct_key_eq [OF dm] by (auto simp: meal_kinds_def)
  let ?foreign = "\<lambda>q. truthy (pe_meal q) \<and> the (pe_meal q) \<notin> em_id ` set ?ms"
  have "of_bool (eats_veg h i q) + of_bool (eats_nonveg h i q) + of_bool (\<not> truthy (pe_meal q) \<and> \<not> truthy (pe_pref q))
      + of_bool (?foreign q) = (1 :: int)" for q
    using apart unfolding kinds eats_veg_def eats_nonveg_def by (cases "truthy (pe_meal q)"; cases "truthy (pe_pref q)") auto
  then have "int (length ?att) = how_many (eats_veg h i) ?att + how_many (eats_nonveg h i) ?att
      + how_many (\<lambda>q. \<not> truthy (pe_meal q) \<and> \<not> truthy (pe_pref q)) ?att + how_many ?foreign ?att"
    by (intro how_many_four)
  then have pres: "es_present ?s = es_veg ?s + es_nonveg ?s + es_pending ?s
      + how_many (\<lambda>q. pe_present q \<and> truthy (pe_meal q) \<and> the (pe_meal q) \<notin> em_id ` {m \<in> set (ha_meals h). em_event m = i}) ?qs"
    by (simp add: compute_event_stats_def Let_def how_many_filter)
  have dms: "distinct (map em_id ?ms)" using dm by (rule distinct_map_filter)
  have "(\<Sum>b\<leftarrow>es_breakdown ?s. snd (snd b)) = (\<Sum>m\<leftarrow>?ms. how_many (\<lambda>q. truthy (pe_meal q) \<and> the (pe_meal q) = em_id m) ?att)"
    by (simp add: compute_event_stats_def Let_def o_def get0_count_meals)
  also have "\<dots> = how_many (\<lambda>q. the (pe_meal q) \<in> em_id ` set ?ms \<and> truthy (pe_meal q)) ?att"
    unfolding how_many_keys [OF dms] by (simp add: conj_commute)
  also have "\<dots> = how_many (\<lambda>q. pe_present q \<and> truthy (pe_meal q) \<and> the (pe_meal q) \<in> em_id ` {m \<in> set (ha_meals h). em_event m = i}) ?qs"
    by (simp add: how_many_filter conj_commute)
  finally show ?thesis using ad tot pres by simp
qed

section \<open>Concrete inputs\<close>

definition ex_hall_env :: "int \<Rightarrow> int \<Rightarrow> hall_env" where
  "ex_hall_env k now = \<lparr>he_now = now, he_id = (\<lambda>n. pad2 k @ pad2 (int n)), he_token = pad2 k, he_org_date = (\<lambda>_. ''2026-07-10'')\<rparr>"

definition hall_of :: "exn + hall \<Rightarrow> hall" where
  "hall_of r = (case r of Inl _ \<Rightarrow> empty_hall | Inr h \<Rightarrow> h)"

definition accepted :: "exn + 'a \<Rightarrow> bool" where
  "accepted r = (case r of Inl _ \<Rightarrow> False | Inr _ \<Rightarrow> True)"

lemma hall_of_accepted: "accepted r \<Longrightarrow> r = Inr (hall_of r)"
  by (auto simp: accepted_def hall_of_def split: sum.splits)

definition ex_event_dto :: event_dto where
  "ex_event_dto = \<lparr>vd_name = ''Wedding'', vd_type = ''wedding'', vd_date = 1000 * day_ms, vd_expected = Some 100,
     vd_auto_delete = Some True\<rparr>"

definition ex_opened :: hall where
  "ex_opened = hall_of (create_event (ex_hall_env 1 0) ''a'' ''o'' ''eventAdmin'' ex_event_dto empty_hall)"

definition ex_join_party :: "hall \<Rightarrow> hall \<Rightarrow> exn + party \<times> bool \<times> hall" where
  "ex_join_party = post_join (ex_hall_env 2 (5 * day_ms)) ''01'' ''Asha'' (Some 3) (Some 1) (Some ''phone'')"

definition ex_party_hall :: hall where
  "ex_party_hall = hall_of (map_sum id (\<lambda>r. snd (snd r)) (ex_join_party ex_opened ex_opened))"

definition ex_joined_party :: party where
  "ex_joined_party = \<lparr>pt_id = ''0200'', pt_event = ''0100'', pt_org = ''o'', pt_name = ''Asha'', pt_adults = 3,
     pt_children = 1, pt_joined = 5 * day_ms, pt_device = Some ''phone''\<rparr>"

definition ex_closed_hall :: hall where
  "ex_closed_hall = hall_of (close_event (ex_hall_env 3 (6 * day_ms)) ''0100'' ''o'' ''eventAdmin'' ex_party_hall)"

definition ex_smaller :: party_dto where
  "ex_smaller = \<lparr>pd_name = Some ''Family'', pd_adults = Some 2, pd_children = Some 2\<rparr>"

lemma ex_event_created: "create_event (ex_hall_env 1 0) ''a'' ''o'' ''eventAdmin'' ex_event_dto empty_hall = Inr ex_opened"
  unfolding ex_opened_def by (rule hall_of_accepted) code_simp

lemma ex_joined: "ex_join_party ex_opened ex_opened = Inr (ex_joined_party, False, ex_party_hall)"
  by code_simp

lemma ex_closed: "close_event (ex_hall_env 3 (6 * day_ms)) ''0100'' ''o'' ''eventAdmin'' ex_party_hall = Inr ex_closed_hall"
  unfolding ex_closed_hall_def by (rule hall_of_accepted) code_simp

lemma ex_events_runs: "events_run\<^sup>*\<^sup>* empty_hall ex_party_hall" "events_run\<^sup>*\<^sup>* empty_hall ex_closed_hall"
proof -
  have "events_run empty_hall ex_opened" unfolding events_run_def using hall_step.create [OF ex_event_created] by blast
  moreover have "events_run ex_opened ex_party_hall"
    unfolding events_run_def using hall_step.join [OF ex_joined [unfolded ex_join_party_def]] by blast
  ultimately show j: "events_run\<^sup>*\<^sup>* empty_hall ex_party_hall" by (rule rtranclp_trans [OF r_into_rtranclp r_into_rtranclp])
  have "events_run ex_party_hall ex_closed_hall" unfolding events_run_def using hall_step.close [OF ex_closed] by blast
  with j show "events_run\<^sup>*\<^sup>* empty_hall ex_closed_hall" by (rule rtranclp.rtrancl_into_rtrancl)
qed

theorem party_counts_exact_witness:
  "how_many pe_adult (persons_in ex_party_hall ''0200'') = 3 \<and> how_many (\<lambda>q. \<not> pe_adult q) (persons_in ex_party_hall ''0200'') = 1
   \<and> clean_orphaned_parties (ex_hall_env 4 (900 * day_ms)) ex_party_hall = ex_party_hall"
proof -
  have "ex_joined_party \<in> set (ha_parties ex_party_hall)" by code_simp
  from party_counts_exact [OF ex_events_runs(1) this, of "ex_hall_env 4 (900 * day_ms)"] show ?thesis
    by (simp add: ex_joined_party_def)
qed

definition ex_placeholder :: "ident \<Rightarrow> bool \<Rightarrow> int \<Rightarrow> person" where
  "ex_placeholder i adult n = placeholder i ''0200'' adult n"

definition ex_edited_hall :: hall where
  "ex_edited_hall = hall_of (update_party (ex_hall_env 5 (6 * day_ms)) ''0100'' ''0200'' ''o'' ex_smaller ex_party_hall)"

lemma ex_edited: "update_party (ex_hall_env 5 (6 * day_ms)) ''0100'' ''0200'' ''o'' ex_smaller ex_party_hall = Inr ex_edited_hall"
  unfolding ex_edited_hall_def by (rule hall_of_accepted) code_simp

text \<open>Down to the primary guest alone.\<close>

definition ex_alone :: party_dto where
  "ex_alone = \<lparr>pd_name = None, pd_adults = Some 1, pd_children = Some 0\<rparr>"

definition ex_alone_hall :: hall where
  "ex_alone_hall = hall_of (update_party (ex_hall_env 5 (6 * day_ms)) ''0100'' ''0200'' ''o'' ex_alone ex_party_hall)"

lemma ex_reduced: "update_party (ex_hall_env 5 (6 * day_ms)) ''0100'' ''0200'' ''o'' ex_alone ex_party_hall = Inr ex_alone_hall"
  unfolding ex_alone_hall_def by (rule hall_of_accepted) code_simp

theorem count_edit_reconciles_witness:
  "how_many pe_adult (persons_in ex_edited_hall ''0200'') = 2 \<and> how_many (\<lambda>q. \<not> pe_adult q) (persons_in ex_edited_hall ''0200'') = 2
   \<and> pe_name (ex_placeholder ''0500'' False 5) \<notin> pe_name ` set (persons_in ex_party_hall ''0200'')
   \<and> how_many pe_adult (persons_in ex_party_hall ''0200'') = 3
   \<and> how_many pe_adult (persons_in ex_alone_hall ''0200'') = 1 \<and> how_many (\<lambda>q. \<not> pe_adult q) (persons_in ex_alone_hall ''0200'') = 0
   \<and> primary_person ''0201'' ''0200'' ''Asha'' \<in> set (persons_in ex_alone_hall ''0200'')"
proof -
  have q: "primary_person ''0201'' ''0200'' ''Asha'' \<in> set (persons_in ex_party_hall ''0200'')"
    "pe_primary (primary_person ''0201'' ''0200'' ''Asha'') \<or> pe_edited (primary_person ''0201'' ''0200'' ''Asha'')"
    "how_many pe_adult (persons_in ex_party_hall ''0200'') = 3"
    by code_simp+
  have n: "ex_placeholder ''0500'' False 5 \<in> set (persons_in ex_edited_hall ''0200'')"
    "ex_placeholder ''0500'' False 5 \<notin> set (persons_in ex_party_hall ''0200'')"
    by code_simp+
  note mixed = count_edit_reconciles [OF ex_events_runs(1) ex_edited]
    and down = count_edit_reconciles [OF ex_events_runs(1) ex_reduced]
  have d: "pd_adults ex_smaller = Some 2" "pd_children ex_smaller = Some 2" "pd_adults ex_alone = Some 1" "pd_children ex_alone = Some 0"
    by (simp_all add: ex_smaller_def ex_alone_def)
  have "pe_name (ex_placeholder ''0500'' False 5) \<notin> pe_name ` set (persons_in ex_party_hall ''0200'')" using mixed n by blast
  moreover have "primary_person ''0201'' ''0200'' ''Asha'' \<in> set (persons_in ex_alone_hall ''0200'')" using down q(1,2) by blast
  ultimately show ?thesis
    using mixed [THEN conjunct1] mixed [THEN conjunct2, THEN conjunct1] down [THEN conjunct1] down [THEN conjunct2, THEN conjunct1] q(3)
    unfolding d nullish_simps by blast
qed

theorem device_joins_once_witness:
  "ex_join_party ex_closed_hall ex_closed_hall = Inr (ex_joined_party, True, ex_closed_hall)
   \<and> ex_join_party ex_opened ex_closed_hall = Inr (ex_joined_party, True, ex_closed_hall)"
proof -
  let ?v = "(new_event (ex_hall_env 1 0) ''a'' ''o'' ex_event_dto)"
  let ?c = "?v\<lparr>fe_closed := Some (6 * day_ms)\<rparr>"
  have p: "ex_joined_party \<in> set (ha_parties ex_closed_hall)" "pt_event ex_joined_party = ev_id ?c"
    "pt_device ex_joined_party = Some ''phone''"
    by code_simp+
  have d: "js_trim ''phone'' = ''phone''" "''phone'' \<noteq> []" "length ''phone'' \<le> 80" by code_simp+
  have v: "?c \<in> set (ha_events ex_closed_hall)" "fe_token ?c = ''01''" "fe_active ?c" by code_simp+
  have r: "event_by_token ex_opened ''01'' = Some ?v" "ev_id ?v = ev_id ?c" "fe_active ?v"
    "event_status (he_now (ex_hall_env 2 (5 * day_ms))) ?v = EvUpcoming" "party_by_device ex_opened (ev_id ?c) ''phone'' = None"
    by code_simp+
  from device_joins_once [OF ex_events_runs(2) p d v p r, of "''Asha''" "Some 3" "Some 1"] show ?thesis
    by (simp add: ex_join_party_def)
qed

text \<open>
  The closed event, then the auto-delete job; and a join from another phone that read the event just
  before it closed, which the code lets in.
\<close>

definition ex_late_join :: "hall \<Rightarrow> hall \<Rightarrow> exn + party \<times> bool \<times> hall" where
  "ex_late_join = post_join (ex_hall_env 7 (5 * day_ms)) ''01'' ''Late'' (Some 1) None (Some ''other'')"

definition ex_late_hall :: hall where
  "ex_late_hall = hall_of (map_sum id (\<lambda>r. snd (snd r)) (ex_late_join ex_party_hall ex_closed_hall))"

lemma ex_late: "\<exists>p. ex_late_join ex_party_hall ex_closed_hall = Inr (p, False, ex_late_hall)"
proof -
  have "case ex_late_join ex_party_hall ex_closed_hall of Inl _ \<Rightarrow> False | Inr (_, again, _) \<Rightarrow> \<not> again" by code_simp
  then show ?thesis unfolding ex_late_hall_def by (cases "ex_late_join ex_party_hall ex_closed_hall") (auto simp: hall_of_def)
qed

text \<open>So the closed event has a second party: the join is only checked against what it read.\<close>

lemma late_join_enters_closed_event:
  "map fe_closed (ha_events ex_closed_hall) = [Some (6 * day_ms)]
   \<and> length (ha_parties ex_closed_hall) = 1 \<and> length (ha_parties ex_late_hall) = 2"
  by code_simp

theorem locked_event_frozen_witness:
  "filter (\<lambda>p. pt_event p = ''0100'') (ha_parties (clean_auto_delete_events (ex_hall_env 6 (1008 * day_ms)) ex_closed_hall)) = [ex_joined_party]
   \<and> map fe_active (ha_events (clean_auto_delete_events (ex_hall_env 6 (1008 * day_ms)) ex_closed_hall)) = [False]
   \<and> (\<exists>ps. filter (\<lambda>p. pt_event p = ''0100'') (ha_parties ex_late_hall) = ex_joined_party # ps \<and> length ps \<le> 1)
   \<and> length (filter (\<lambda>p. pt_event p = ''0100'') (ha_parties ex_late_hall)) = 2
   \<and> (case ex_late_join ex_closed_hall ex_closed_hall of Inl _ \<Rightarrow> True | Inr _ \<Rightarrow> False)"
proof -
  let ?e = "ex_hall_env 6 (1008 * day_ms)" and ?l = "ex_hall_env 7 (5 * day_ms)"
  let ?h = "clean_auto_delete_events ?e ex_closed_hall"
  let ?v = "(new_event (ex_hall_env 1 0) ''a'' ''o'' ex_event_dto)\<lparr>fe_closed := Some (6 * day_ms)\<rparr>"
  have v: "?v \<in> set (ha_events ex_closed_hall)" "ev_id ?v = ''0100''" "event_status (he_now ?e) ?v \<noteq> EvUpcoming"
    "event_status (he_now ?l) ?v \<noteq> EvUpcoming"
    by code_simp+
  have x: "''0100'' \<in> ev_id ` set (ha_events ?h)" "filter (\<lambda>p. pt_event p = ''0100'') (ha_parties ex_closed_hall) = [ex_joined_party]"
    by code_simp+
  have y: "''0100'' \<in> ev_id ` set (ha_events ex_late_hall)" by code_simp
  have z: "\<not> saw_open ?e ''0100'' ex_closed_hall" by code_simp
  have z': "saw_open ?l ''0100'' ex_party_hall" by code_simp
  have "hall_step ?e ex_closed_hall ex_closed_hall ?h" by (rule hall_step.auto_delete) (rule refl)
  from locked_run.step [OF locked_run.start this v(1-3) x(1)] have "locked_run ''0100'' ex_closed_hall 0 ?h" using z by simp
  from locked_event_frozen [OF ex_events_runs(2) this] x(2)
  have 1: "filter (\<lambda>p. pt_event p = ''0100'') (ha_parties ?h) = [ex_joined_party]" by auto
  from ex_late obtain p where "ex_late_join ex_party_hall ex_closed_hall = Inr (p, False, ex_late_hall)" ..
  then have "hall_step ?l ex_party_hall ex_closed_hall ex_late_hall" unfolding ex_late_join_def by (rule hall_step.join)
  from locked_run.step [OF locked_run.start this v(1,2,4) y] have "locked_run ''0100'' ex_closed_hall 1 ex_late_hall" using z' by simp
  from locked_event_frozen [OF ex_events_runs(2) this] x(2)
  have 2: "\<exists>ps. filter (\<lambda>p. pt_event p = ''0100'') (ha_parties ex_late_hall) = ex_joined_party # ps \<and> length ps \<le> 1" by auto
  have "map fe_active (ha_events ?h) = [False]" "length (filter (\<lambda>p. pt_event p = ''0100'') (ha_parties ex_late_hall)) = 2"
    "case ex_late_join ex_closed_hall ex_closed_hall of Inl _ \<Rightarrow> True | Inr _ \<Rightarrow> False"
    by code_simp+
  with 1 2 show ?thesis by simp
qed

theorem event_stats_add_up_witness:
  "es_total (compute_event_stats ex_party_hall ''0100'') = 4 \<and> es_adults (compute_event_stats ex_party_hall ''0100'') = 3
   \<and> es_present (compute_event_stats ex_party_hall ''0100'') = es_pending (compute_event_stats ex_party_hall ''0100'')"
proof -
  have p: "filter (\<lambda>p. pt_event p = ''0100'') (ha_parties ex_party_hall) = [ex_joined_party]" by code_simp
  have n: "es_veg (compute_event_stats ex_party_hall ''0100'') = 0" "es_nonveg (compute_event_stats ex_party_hall ''0100'') = 0"
    "ha_meals ex_party_hall = []" "how_many (\<lambda>q. pe_present q \<and> truthy (pe_meal q)) (event_persons ex_party_hall ''0100'') = 0"
    by code_simp+
  from event_stats_add_up [OF ex_events_runs(1), of "''0100''"] n show ?thesis by (simp add: p ex_joined_party_def)
qed

end
