(* ===== verification/Event_Edges.thy ===== *)
theory Event_Edges
  imports Event_Rules
begin

text \<open>
  Edge behaviours of the event system that its comments describe differently: each lemma
  evaluates an operation where the rule a comment states does not hold.
\<close>

lemma edited_event:
  assumes "edit_event f i org role h = Inr h'" "\<And>v. ev_id (f v) = ev_id v \<and> ev_org (f v) = ev_org v"
  shows "find_event h' i org = map_option f (find_event h i org)"
proof -
  have "find (\<lambda>v. ev_id v = i \<and> ev_org v = org) (map (\<lambda>v. if ev_id v = i then f v else v) vs)
      = map_option f (find (\<lambda>v. ev_id v = i \<and> ev_org v = org) vs)" for vs :: "full_event list"
    using assms(2) by (induction vs) auto
  then show ?thesis using assms(1) by (auto simp: edit_event_cases invalidate_stats_def set_event_def find_event_def)
qed

text \<open>An archived event stays in the list of active events and answers to its join code.\<close>

lemma archived_event_listed:
  assumes "archive_event e i org role h = Inr h'" and "find_event h i org = Some v" "fe_active v"
  shows "\<exists>v'. find_event h' i org = Some v' \<and> event_status (he_now e) v' = EvArchived
     \<and> v' \<in> set (ha_events h')
     \<and> (\<forall>u\<in>set (ha_events h'). ev_org u = org \<and> fe_active u \<longrightarrow> u \<in> set (fst (get_events org ''member'' None (Some (length (ha_events h'))) (Some True) None h')))
     \<and> fe_active v'"
proof -
  let ?f = "\<lambda>v. v\<lparr>fe_archived := Some (he_now e)\<rparr>"
  have f: "find_event h' i org = Some (?f v)"
    using edited_event [OF assms(1) [unfolded archive_event_def]] assms(2) by simp
  have all: "fst (get_events org ''member'' None (Some (length (ha_events h'))) (Some True) None h')
      = sort_key (\<lambda>v. - ev_date v) (filter (\<lambda>v. ev_org v = org \<and> fe_active v) (ha_events h'))"
    by (simp add: get_events_def Let_def page_of_def)
  show ?thesis
    by (intro exI [of _ "?f v"] conjI) (use f assms(3) all in \<open>auto simp: event_status_def find_event_def dest: find_SomeD\<close>)
qed

text \<open>Lowering the counts deletes attending guests, which the reconciliation says never happens silently.\<close>

lemma attending_guest_removed:
  "accepted (update_party (ex_hall_env 5 (6 * day_ms)) ''0100'' ''0200'' ''o''
     \<lparr>pd_name = None, pd_adults = Some 2, pd_children = None\<rparr> ex_party_hall)
   \<and> map (\<lambda>q. (pe_name q, pe_present q)) (filter pe_adult (persons_in ex_party_hall ''0200''))
       = [(''Asha'', True), (''Guest-2'', True), (''Guest-3'', True)]
   \<and> map pe_name (filter pe_adult (persons_in (hall_of (update_party (ex_hall_env 5 (6 * day_ms)) ''0100'' ''0200'' ''o''
        \<lparr>pd_name = None, pd_adults = Some 2, pd_children = None\<rparr> ex_party_hall)) ''0200'')) = [''Asha'', ''Guest-3'']"
  by code_simp

text \<open>Renaming a party leaves the name of its primary person.\<close>

lemma renamed_party_keeps_person:
  "map pt_name (ha_parties ex_edited_hall) = [''Family'']
   \<and> map pe_name (filter pe_primary (persons_in ex_edited_hall ''0200'')) = [''Asha'']"
  by code_simp

text \<open>
  A guest may select the meal type of another event: the guest is then neither vegetarian nor
  non-vegetarian nor pending, and the other event may delete the type under the selection.
\<close>

definition ex_two_events :: hall where
  "ex_two_events =
     hall_of (bindE (create_event (ex_hall_env 7 0) ''a'' ''o'' ''eventAdmin'' ex_event_dto ex_party_hall)
       (create_event_meal (ex_hall_env 8 0) ''0700'' ''o'' ''eventAdmin''
          \<lparr>ed_title = ''Thali'', ed_emoji = None, ed_color = None, ed_veg = None\<rparr>))"

definition ex_pick :: "ident option option \<Rightarrow> person_dto" where
  "ex_pick m = \<lparr>nd_name = None, nd_meal = m, nd_pref = None\<rparr>"

definition ex_picked_hall :: hall where
  "ex_picked_hall = hall_of (update_person_details (ex_hall_env 9 (6 * day_ms)) ''0100'' ''0201'' ''o'' (ex_pick (Some (Some ''0800''))) ex_two_events)"

lemma foreign_meal_type_selected:
  "(let s = compute_event_stats ex_picked_hall ''0100'' in (es_present s, es_pending s, es_veg s, es_nonveg s)) = (4, 3, 0, 0)"
  by code_simp

lemma foreign_selection_dangles:
  "(case delete_event_meal ''0700'' ''0800'' ''o'' ''eventAdmin'' ex_picked_hall of
      Inl _ \<Rightarrow> None
    | Inr h \<Rightarrow> map_option (\<lambda>q. (pe_meal q, pe_meal_key q, ha_meals h)) (event_person h ''0201'' ''0100'')) = Some (Some ''0800'', None, [])"
  by code_simp

text \<open>Changing what a meal type is leaves the cached statistics as they were.\<close>

lemma meal_type_edit_keeps_stats:
  "update_event_meal i mt org role p h = Inr h' \<Longrightarrow> ha_stats h' = ha_stats h"
  "create_event_meal e i org role md h = Inr h' \<Longrightarrow> ha_stats h' = ha_stats h"
  by (auto simp: update_event_meal_def create_event_meal_def bindE_eq_Inr split: if_splits)

text \<open>No party is too large: the ceiling of fifty guests is checked nowhere.\<close>

lemma party_size_unbounded:
  "1 \<le> n \<Longrightarrow> party_dto_ok True \<lparr>pd_name = Some ''Asha'', pd_adults = Some n, pd_children = None\<rparr> = Inr ()"
  by (simp add: party_dto_ok_def)

text \<open>Restoring an event that was closed before it was archived leaves it closed.\<close>

lemma restored_event_stays_closed:
  assumes "restore_event i org role h = Inr h'" "find_event h i org = Some v" "fe_closed v \<noteq> None"
  shows "\<exists>v'. find_event h' i org = Some v' \<and> event_status now v' \<noteq> EvUpcoming \<and> fe_archived v' = None"
proof -
  let ?f = "\<lambda>v. v\<lparr>fe_archived := None, fe_active := True\<rparr>"
  have "find_event h' i org = Some (?f v)"
    using edited_event [OF assms(1) [unfolded restore_event_def]] assms(2) by simp
  then show ?thesis using assms(3) by (simp add: event_status_def)
qed

end
