(* ===== verification/Billing_Chain.thy ===== *)
theory Billing_Chain
  imports Billing_Ledger
begin

text \<open>
  A chain of finalizations (\<open>finalizePeriod\<close> of \<open>src/src/features/billing/billing.service.ts\<close>):
  balances carried by the stored snapshots against the recomputation from all raw rows, for a
  group that closes its days one period after the other.
\<close>

section \<open>The chain\<close>

text \<open>The rows of a group dated before a day.\<close>

definition settled_rows :: "ident \<Rightarrow> ident \<Rightarrow> int \<Rightarrow> db \<Rightarrow> attendance_row list \<times> guest_row list \<times> ledger_row list" where
  "settled_rows org gid a d =
     (filter (\<lambda>r. at_org r = org \<and> at_group r = gid \<and> at_date r < a) (db_attendance d),
      filter (\<lambda>g. hg_org g = org \<and> hg_group g = gid \<and> hg_date g < a) (db_guests d),
      filter (\<lambda>l. le_org l = org \<and> le_group l = gid \<and> le_date l < a) (db_ledger d))"

text \<open>Nothing of the group is finalized and no row of it is older than the day.\<close>

definition books_opened :: "ident \<Rightarrow> ident \<Rightarrow> int \<Rightarrow> db \<Rightarrow> bool" where
  "books_opened org gid a d \<longleftrightarrow>
     (\<forall>p\<in>set (db_periods d). bp_org p = org \<and> bp_group p = gid \<longrightarrow> bp_status p \<noteq> Finalized)
     \<and> settled_rows org gid a d = ([], [], []) \<and> midnight_dates d \<and> whole_rupees d"

text \<open>
  The state is the first day not closed yet, with the tables.  A close finalizes from that day on;
  between two closes the rows of the open days, everything outside the group and the periods of
  other groups change freely, while closed days, the billing policy and the periods of the group
  stay, dates are midnights and ledger amounts whole rupees.
\<close>

inductive books_step :: "ident \<Rightarrow> ident \<Rightarrow> int \<times> db \<Rightarrow> int \<times> db \<Rightarrow> bool" for org gid where
  close: "finalize_period tz i admin org gid ps pe d = Inr d' \<Longrightarrow> to_utc_midnight ps = Some a
            \<Longrightarrow> to_utc_midnight pe = Some b \<Longrightarrow> books_step org gid (a, d) (b + day_ms, d')"
| business: "settled_rows org gid a d' = settled_rows org gid a d
            \<Longrightarrow> filter (\<lambda>p. bp_org p = org \<and> bp_group p = gid) (db_periods d')
                = filter (\<lambda>p. bp_org p = org \<and> bp_group p = gid) (db_periods d)
            \<Longrightarrow> policy_of (find_group d' gid org) = policy_of (find_group d gid org)
            \<Longrightarrow> midnight_dates d' \<Longrightarrow> whole_rupees d' \<Longrightarrow> books_step org gid (a, d) (a, d')"

inductive_cases books_stepE: "books_step org gid s s'"

section \<open>Rows decide balances\<close>

lemma settled_parts:
  assumes "settled_rows org gid a d' = settled_rows org gid a d" "c < a"
  shows "att_in d' org gid (\<lambda>t. t \<le> c) = att_in d org gid (\<lambda>t. t \<le> c)"
    and "guests_in d' org gid ns (\<lambda>t. t \<le> c) = guests_in d org gid ns (\<lambda>t. t \<le> c)"
    and "ledger_in d' org gid (\<lambda>t. t \<le> c) = ledger_in d org gid (\<lambda>t. t \<le> c)"
proof -
  have a: "att_in e org gid (\<lambda>t. t \<le> c) = att_in (e\<lparr>db_attendance := fst (settled_rows org gid a e)\<rparr>) org gid (\<lambda>t. t \<le> c)" for e
    unfolding att_in_def settled_rows_def using assms(2) by (auto intro!: filter_cong)
  have g: "guests_in e org gid ns (\<lambda>t. t \<le> c) = guests_in (e\<lparr>db_guests := fst (snd (settled_rows org gid a e))\<rparr>) org gid ns (\<lambda>t. t \<le> c)" for e
    unfolding guests_in_def settled_rows_def using assms(2) by (auto intro!: filter_cong)
  have l: "ledger_in e org gid (\<lambda>t. t \<le> c) = ledger_in (e\<lparr>db_ledger := snd (snd (settled_rows org gid a e))\<rparr>) org gid (\<lambda>t. t \<le> c)" for e
    unfolding ledger_in_def settled_rows_def using assms(2) by (auto intro!: filter_cong)
  show "att_in d' org gid (\<lambda>t. t \<le> c) = att_in d org gid (\<lambda>t. t \<le> c)"
    using a [of d] a [of d'] assms(1) by (simp add: att_in_def)
  show "guests_in d' org gid ns (\<lambda>t. t \<le> c) = guests_in d org gid ns (\<lambda>t. t \<le> c)"
    using g [of d] g [of d'] assms(1) by (simp add: guests_in_def)
  show "ledger_in d' org gid (\<lambda>t. t \<le> c) = ledger_in d org gid (\<lambda>t. t \<le> c)"
    using l [of d] l [of d'] assms(1) by (simp add: ledger_in_def)
qed

lemma live_opening_settled:
  assumes "settled_rows org gid a d' = settled_rows org gid a d" "c < a"
  shows "live_opening d' org gid pol c = live_opening d org gid pol c"
  using settled_parts [OF assms] by (simp add: live_opening_def live_sums_def Let_def)

lemma last_final_group:
  assumes "filter (\<lambda>p. bp_org p = org \<and> bp_group p = gid) (db_periods d')
         = filter (\<lambda>p. bp_org p = org \<and> bp_group p = gid) (db_periods d)"
  shows "last_final d' org gid t = last_final d org gid t"
proof -
  have part: "filter (\<lambda>p. bp_org p = org \<and> bp_group p = gid \<and> bp_status p = Finalized \<and> bp_end p < t) ps
      = filter (\<lambda>p. bp_status p = Finalized \<and> bp_end p < t) (filter (\<lambda>p. bp_org p = org \<and> bp_group p = gid) ps)" for ps
    by (simp add: filter_filter conj_ac)
  show ?thesis unfolding last_final_def part assms ..
qed

lemma last_final_SomeD:
  assumes "last_final d org gid t = Some q"
  shows "q \<in> set (db_periods d)" "bp_org q = org" "bp_group q = gid" "bp_status q = Finalized" "bp_end q < t"
proof -
  let ?xs = "sort_key (\<lambda>p. - bp_end p)
      (filter (\<lambda>p. bp_org p = org \<and> bp_group p = gid \<and> bp_status p = Finalized \<and> bp_end p < t) (db_periods d))"
  have "q \<in> set ?xs" using assms unfolding last_final_def by (cases ?xs) simp_all
  then show "q \<in> set (db_periods d)" "bp_org q = org" "bp_group q = gid" "bp_status q = Finalized" "bp_end q < t"
    by simp_all
qed

text \<open>The period appended by a close ends last.\<close>

lemma sort_key_last:
  "\<forall>x\<in>set xs. f y < f x \<Longrightarrow> sort_key f (xs @ [y]) = y # sort_key f xs"
  by (induction xs) auto

section \<open>The invariant\<close>

definition chain_ok :: "ident \<Rightarrow> ident \<Rightarrow> int \<times> db \<Rightarrow> bool" where
  "chain_ok org gid s \<longleftrightarrow>
     (case s of (a, d) \<Rightarrow>
        midnight_dates d \<and> whole_rupees d
        \<and> (\<forall>p\<in>set (db_periods d). bp_org p = org \<and> bp_group p = gid \<and> bp_status p = Finalized \<longrightarrow> bp_end p < a)
        \<and> (case last_final d org gid a of
             None \<Rightarrow> settled_rows org gid a d = ([], [], [])
           | Some q \<Rightarrow> midnight (bp_end q) \<and> a = bp_end q + day_ms
               \<and> (\<exists>m. opening_from_snapshot (bp_snapshot q) = Some m
                    \<and> (\<forall>u. get0 m u = get0 (live_opening d org gid (policy_of (find_group d gid org)) (bp_end q)) u))))"

lemma chain_carried: "chain_ok org gid (a, d) \<Longrightarrow> carried_correctly d org gid a"
proof (cases "last_final d org gid a")
  case None
  assume "chain_ok org gid (a, d)"
  then have "settled_rows org gid a d = ([], [], [])" by (simp add: chain_ok_def None)
  then show ?thesis by (simp add: carried_correctly_def None settled_rows_def filter_empty_conv not_less)
next
  case (Some q)
  assume "chain_ok org gid (a, d)"
  then obtain m where "midnight (bp_end q)" "a = bp_end q + day_ms" "opening_from_snapshot (bp_snapshot q) = Some m"
    "\<forall>u. get0 m u = get0 (live_opening d org gid (policy_of (find_group d gid org)) (bp_end q)) u"
    by (auto simp: chain_ok_def Some)
  then show ?thesis
    using Some by (simp add: carried_correctly_def opening_at_def compute_opening_balances_def)
qed

lemma chain_close:
  assumes ok: "chain_ok org gid (a, d)" and fin: "finalize_period tz i admin org gid ps pe d = Inr d'"
    and "to_utc_midnight ps = Some a" "to_utc_midnight pe = Some b"
  shows "chain_ok org gid (b + day_ms, d')"
proof -
  let ?snap = "build_totals_snapshot d org gid a b"
  let ?new = "new_period i admin org gid a b ?snap"
  from fin assms(3,4) have le: "a \<le> b" and d': "d' = d\<lparr>db_periods := db_periods d @ [?new]\<rparr>"
    by (auto elim!: finalize_cases)
  have rows: "midnight_dates d'" "whole_rupees d'" "find_group d' = find_group d"
    using ok by (simp_all add: chain_ok_def d' midnight_dates_def whole_rupees_def find_group_def fun_eq_iff)
  have old: "bp_end p < a" if "p \<in> set (db_periods d)" "bp_org p = org" "bp_group p = gid" "bp_status p = Finalized" for p
    using ok that by (auto simp: chain_ok_def)
  let ?P = "\<lambda>p. bp_org p = org \<and> bp_group p = gid \<and> bp_status p = Finalized \<and> bp_end p < b + day_ms"
  have new: "?P ?new" "bp_end ?new = b" using day_ms_pos by (simp_all add: new_period_def)
  have "sort_key (\<lambda>p. - bp_end p) (filter ?P (db_periods d) @ [?new]) = ?new # sort_key (\<lambda>p. - bp_end p) (filter ?P (db_periods d))"
    using old le new(2) by (intro sort_key_last) fastforce
  then have last: "last_final d' org gid (b + day_ms) = Some ?new"
    using new(1) by (simp add: last_final_def d')
  obtain m where m: "opening_from_snapshot (Some ?snap) = Some m"
    using snapshot_members_closing [of d org gid a b] by blast
  have "get0 m u = get0 (live_opening d org gid (policy_of (find_group d gid org)) b) u" for u
    using snapshot_carries_closing_of [OF m] closing_is_live [OF _ _ chain_carried [OF ok] le] ok
    by (simp add: get0_live_opening chain_ok_def)
  moreover have "live_opening d' = live_opening d"
    by (simp add: d' live_opening_def live_sums_def att_in_def guests_in_def ledger_in_def Let_def fun_eq_iff)
  moreover have "midnight b" using assms(4) by (rule to_utc_midnight_is_midnight)
  moreover have "bp_end p < b + day_ms"
    if "p \<in> set (db_periods d')" "bp_org p = org" "bp_group p = gid" "bp_status p = Finalized" for p
  proof (cases "p = ?new")
    case True
    then show ?thesis using new(1) by blast
  next
    case False
    then have "bp_end p < a" using that old by (simp add: d')
    then show ?thesis using le day_ms_pos(1) by linarith
  qed
  ultimately show ?thesis
    using rows m last new(2) by (simp add: chain_ok_def new_period_def)
qed

lemma chain_business:
  assumes ok: "chain_ok org gid (a, d)"
    and same: "settled_rows org gid a d' = settled_rows org gid a d"
      "filter (\<lambda>p. bp_org p = org \<and> bp_group p = gid) (db_periods d')
         = filter (\<lambda>p. bp_org p = org \<and> bp_group p = gid) (db_periods d)"
      "policy_of (find_group d' gid org) = policy_of (find_group d gid org)"
    and rows: "midnight_dates d'" "whole_rupees d'"
  shows "chain_ok org gid (a, d')"
proof -
  have "p \<in> set (db_periods d) \<longleftrightarrow> p \<in> set (db_periods d')" if "bp_org p = org" "bp_group p = gid" for p
    using arg_cong [OF same(2), of set] that by auto
  then have "\<forall>p\<in>set (db_periods d'). bp_org p = org \<and> bp_group p = gid \<and> bp_status p = Finalized \<longrightarrow> bp_end p < a"
    using ok by (auto simp: chain_ok_def)
  moreover have "live_opening d' org gid (policy_of (find_group d' gid org)) (bp_end q)
      = live_opening d org gid (policy_of (find_group d gid org)) (bp_end q)" if "last_final d org gid a = Some q" for q
    using live_opening_settled [OF same(1) last_final_SomeD(5) [OF that]] same(3) by simp
  ultimately show ?thesis
    using ok rows same(1) last_final_group [OF same(2)]
    by (auto simp: chain_ok_def split: option.splits)
qed

interpretation chain: invariant_steps "books_step org gid" "chain_ok org gid" for org gid
proof
  fix s s' assume ok: "chain_ok org gid s" and step: "books_step org gid s s'"
  from step show "chain_ok org gid s'"
  proof cases
    case close
    then show ?thesis using chain_close ok by blast
  next
    case business
    then show ?thesis using chain_business ok by blast
  qed
qed

text \<open>
  (C5) Carrying balances forward from the stored snapshots or recomputing them from all raw rows is
  the same.  A group starts with no finalized period and no row before its first day and closes its
  days one period after the other, in any number of finalizations with any activity on the open days
  between them; the ledger holds whole rupees, the billing policy stays, and no period is reopened.
  Then at every moment the next opening balance is, for every member, the same with the snapshot path
  and with the recomputation.
\<close>

theorem snapshot_equals_recomputation:
  assumes "books_opened org gid a0 d0" and "(books_step org gid)\<^sup>*\<^sup>* (a0, d0) (a, d)"
  shows "get0 (fst (compute_opening_balances d org gid a (policy_of (find_group d gid org)) True)) u
       = get0 (fst (compute_opening_balances d org gid a (policy_of (find_group d gid org)) False)) u"
proof -
  have none: "last_final d0 org gid a0 = None"
    using assms(1) last_final_SomeD [of d0 org gid a0] by (auto simp: books_opened_def intro: ccontr)
  then have "chain_ok org gid (a0, d0)"
    using assms(1) by (auto simp: chain_ok_def books_opened_def)
  with assms(2) have "chain_ok org gid (a, d)" by (rule chain.inv_run)
  then show ?thesis
    by (cases "last_final d org gid a") (auto simp: chain_ok_def compute_opening_balances_def)
qed

section \<open>Concrete inputs\<close>

text \<open>June and July closed one after the other, and a meal marked in between.\<close>

definition ex_june_db :: db where
  "ex_june_db = result_db (finalize_period ex_clock ''p1'' ''admin'' ''o'' ''g'' ''2026-06-01'' ''2026-06-30''
     (ex_db\<lparr>db_attendance := [ex_meal ''a1'' ''2026-06-05'' 60]\<rparr>))"

definition ex_july_db :: db where
  "ex_july_db = result_db (finalize_period ex_clock ''p2'' ''admin'' ''o'' ''g'' ''2026-07-01'' ''2026-07-31''
     (ex_june_db\<lparr>db_attendance := db_attendance ex_db\<rparr>))"

lemma ex_chain:
  "(books_step ''o'' ''g'')\<^sup>*\<^sup>* (day_of ''2026-06-01'', ex_db\<lparr>db_attendance := [ex_meal ''a1'' ''2026-06-05'' 60]\<rparr>)
     (day_of ''2026-08-01'', ex_july_db)"
proof -
  let ?d0 = "ex_db\<lparr>db_attendance := [ex_meal ''a1'' ''2026-06-05'' 60]\<rparr>" and ?d1 = "ex_june_db\<lparr>db_attendance := db_attendance ex_db\<rparr>"
  have june: "finalize_period ex_clock ''p1'' ''admin'' ''o'' ''g'' ''2026-06-01'' ''2026-06-30'' ?d0 = Inr ex_june_db"
    unfolding ex_june_db_def by code_simp
  have july: "finalize_period ex_clock ''p2'' ''admin'' ''o'' ''g'' ''2026-07-01'' ''2026-07-31'' ?d1 = Inr ex_july_db"
    unfolding ex_july_db_def by code_simp
  have days: "to_utc_midnight ''2026-06-01'' = Some (day_of ''2026-06-01'')" "to_utc_midnight ''2026-06-30'' = Some (day_of ''2026-06-30'')"
    "to_utc_midnight ''2026-07-01'' = Some (day_of ''2026-07-01'')" "to_utc_midnight ''2026-07-31'' = Some (day_of ''2026-07-31'')"
    "day_of ''2026-06-30'' + day_ms = day_of ''2026-07-01''" "day_of ''2026-07-31'' + day_ms = day_of ''2026-08-01''"
    by code_simp+
  have "books_step ''o'' ''g'' (day_of ''2026-06-01'', ?d0) (day_of ''2026-07-01'', ex_june_db)"
    using books_step.close [OF june days(1,2)] by (simp add: days)
  moreover have "books_step ''o'' ''g'' (day_of ''2026-07-01'', ex_june_db) (day_of ''2026-07-01'', ?d1)"
  proof (rule books_step.business)
    show "settled_rows ''o'' ''g'' (day_of ''2026-07-01'') ?d1 = settled_rows ''o'' ''g'' (day_of ''2026-07-01'') ex_june_db"
      by code_simp
    show "midnight_dates ?d1" by code_simp
    show "whole_rupees ?d1" by code_simp
  qed (simp_all add: find_group_def)
  moreover have "books_step ''o'' ''g'' (day_of ''2026-07-01'', ?d1) (day_of ''2026-08-01'', ex_july_db)"
    using books_step.close [OF july days(3,4)] by (simp add: days)
  ultimately show ?thesis by (meson converse_rtranclp_into_rtranclp r_into_rtranclp)
qed

theorem snapshot_equals_recomputation_witness:
  "get0 (fst (compute_opening_balances ex_july_db ''o'' ''g'' (day_of ''2026-08-01'') (policy_of (find_group ex_july_db ''g'' ''o'')) True)) ''u'' = 100
   \<and> get0 (fst (compute_opening_balances ex_july_db ''o'' ''g'' (day_of ''2026-08-01'') (policy_of (find_group ex_july_db ''g'' ''o'')) False)) ''u'' = 100
   \<and> length (db_periods ex_july_db) = 2"
proof -
  have "books_opened ''o'' ''g'' (day_of ''2026-06-01'') (ex_db\<lparr>db_attendance := [ex_meal ''a1'' ''2026-06-05'' 60]\<rparr>)"
    by code_simp
  from snapshot_equals_recomputation [OF this ex_chain, of "''u''"]
  have "get0 (fst (compute_opening_balances ex_july_db ''o'' ''g'' (day_of ''2026-08-01'') (policy_of (find_group ex_july_db ''g'' ''o'')) True)) ''u''
      = get0 (fst (compute_opening_balances ex_july_db ''o'' ''g'' (day_of ''2026-08-01'') (policy_of (find_group ex_july_db ''g'' ''o'')) False)) ''u''" .
  moreover have "get0 (fst (compute_opening_balances ex_july_db ''o'' ''g'' (day_of ''2026-08-01'') (policy_of (find_group ex_july_db ''g'' ''o'')) True)) ''u'' = 100"
    by code_simp
  moreover have "length (db_periods ex_july_db) = 2" by code_simp
  ultimately show ?thesis by simp
qed

end
