(* ===== verification/Spec2Isabelle.thy ===== *)
theory Spec2Isabelle
  imports Schedules Billing_Cycle Correction_Laws System_Default_Laws Retention_Laws Group_Edges Vacation_Sweep Account_Edges Today Event_Edges Billing_Chain
begin

text \<open>
  A verification library of the meal-management server under \<open>src/src\<close> (NestJS over Prisma and
  PostgreSQL, with Redis and queues).  An organisation has groups; a group has a template of
  meals, a planner that publishes weeks, members who mark attendance, host guests, go on
  vacation and ask for corrections, and a billing cycle that turns attendance into balances.
  Accounts and sessions, profiles, and a separate event system stand beside the groups.

  \<^bold>\<open>How the model reads.\<close>  A table is a list of records with the columns the code reads, a nullable
  column an option, an instant a count of milliseconds (\<open>int\<close>), a date the instant of its UTC
  midnight, text a list of characters.  A service method is one definition from its arguments and the
  state to \<open>exn + state\<close>, where \<open>exn\<close> has a constructor per exception class, so every throw is a branch.
  A transaction is one definition; where a method reads and later writes outside one and the
  difference matters, both states are arguments (a dedup reply, a racing join).  Numbers stay below
  \<open>2 ^ 53\<close> in the program, where JavaScript arithmetic is exact, so they are unbounded here; rupees are
  integers and ledger amounts paise.

  \<^bold>\<open>Theories and sources.\<close>  \<open>Emeal_Prelude\<close> has the vocabulary all share (errors, \<open>??\<close>, insertion-ordered
  maps, sums, the locales \<open>invariant_steps\<close> and \<open>guarded_steps\<close> of runs that keep an invariant or an observation).
  \<^item> Time: \<open>Js_Date\<close> (date parsing and the proleptic calendar of the runtime), \<open>Windows\<close> (attendance windows of
    \<open>common/utils/date.utils.ts\<close> and the conflict validator), \<open>Billing_Cycle\<close> (\<open>resolveCurrentPeriod\<close>).
  \<^item> Planner: \<open>Published_Day\<close> (the one resolver of \<open>published-day.util.ts\<close> with the legacy freeze), \<open>Schedules\<close>
    (writes of \<open>schedules.repository.ts\<close>), \<open>Preferences\<close> (groups, day override, selection validator and pricer),
    \<open>Mode_Conversion\<close>, \<open>Master_Meals\<close> with \<open>Master_Laws\<close> (template writes of \<open>meals.service.ts\<close>), \<open>Today\<close> (its lists).
  \<^item> Money: \<open>Store\<close> (shared tables), \<open>Billing_Totals\<close> and \<open>Billing_Ledger\<close> (\<open>billing.service.ts\<close>),
    \<open>Billing_Chain\<close> (finalizations one after the other), \<open>Retention\<close> with \<open>Retention_Laws\<close> (\<open>retention.service.ts\<close>).
  \<^item> Presence: \<open>Meal_World\<close> (state of the three services), \<open>Attendance\<close>, \<open>Guests\<close>, \<open>Corrections\<close> with their laws,
    \<open>Vacations\<close> (requests and coverage), \<open>System_Default\<close> and \<open>Vacation_Sweep\<close> (the workers' sweeps).
  \<^item> Groups: \<open>Group_Config\<close>, \<open>Group_Life\<close>, \<open>Group_Members\<close> with their laws and \<open>Group_Edges\<close>.
  \<^item> People: \<open>Accounts\<close>, \<open>Sessions\<close>, \<open>Profiles\<close> (\<open>auth.service.ts\<close>, \<open>users.service.ts\<close>) with \<open>Session_Laws\<close>,
    \<open>Profile_Laws\<close>, \<open>Account_Edges\<close>.
  \<^item> Events: \<open>Events\<close> (\<open>features/events\<close> and its clean-up jobs) with \<open>Event_Laws\<close>, \<open>Event_Rules\<close>, \<open>Event_Edges\<close>.

  \<^bold>\<open>How the parts meet.\<close>  A mark asks \<open>Published_Day\<close> for the day, \<open>Preferences\<close> for the price, \<open>Vacations\<close> for
  coverage and the periods of \<open>Billing_Ledger\<close> for the lock; its row is what \<open>Billing_Totals\<close> sums.  A correction
  ends in the same write as a mark, the sweeps insert rows of the same table, retention finalizes through
  \<open>Billing_Ledger\<close> before it deletes rows, saving group settings unpublishes planners of \<open>Schedules\<close>, and deleting an
  account purges the tables of \<open>Store\<close>.

  \<^bold>\<open>What the lemmas show.\<close>  Invariants over every operation of a service, by induction over runs (unique keys, seats,
  template limits, single coverage, party counts, consented debits, session families, one-time codes); frames
  (finalized days and totals, the draft wall, locked events, permanent pricing); equivalences of two routes
  of the code (snapshot and recomputation, today's list and the gates of a mark, vacation coverage and the interval of
  moments); refinement of attendance requests to writes of a book; termination (the boundary search);
  functional results with every error branch in the definitions.  Theories named \<open>..._Edges\<close> and the closing sections
  of others evaluate single inputs where the code does not do what a comment or a neighbouring path says.

  \<^bold>\<open>Bounds.\<close>  The boundary search of retention walks at most 240 cycles, the bound of the source; \<open>boundary_search_ends\<close>
  shows the walk stops at the first boundary with the full warning.  All other recursion is structural or has a
  proved measure.  Calendar lemmas assume dates in \<open>iso_range\<close> (years the code can print and read back).  The number of join-code
  attempts, of groups purged per sweep and every configured limit (meals, guests, corrections, code attempts, lifetimes)
  is that of the source or an argument; an exhausted bound is the error the source throws.

  \<^bold>\<open>Parameters.\<close>  Hashes, signatures, tokens and random values (bcrypt, SHA-256, HMAC, JWT, UUIDs), the time zone tables of
  \<open>Intl\<close>, \<open>localeCompare\<close>, \<open>Date.parse\<close> of free text, the image store and Redis replies are arguments; a
  property that relies on one names what it relies on as a hypothesis.

  \<^bold>\<open>Not modelled.\<close>  Organisations, notices, notifications, exports, reports, dashboards, telemetry, realtime messages,
  queues, the cache and audit trail, HTTP guards and serializers, the reads of most services, the service layer
  over the planner repository and the preference configuration: they render or transport what the modelled parts
  decide, or are pure input and output.  Requests are taken one at a time except where a theory says otherwise.
\<close>

end
